(* ===== verification/Prelude.thy ===== *)
theory Prelude
  imports Main "HOL-Library.Word"
begin

text \<open>
  The prelude of the development: the types the models share, the two ways a C++
  function can go wrong, byte order conversions, the reading of a field at an offset,
  and \<open>std::map\<close>.

  \<^item> A byte is an \<open>8 word\<close>; a buffer is the list of its bytes.
  \<^item> A function that can call \<open>abort()\<close> or touch memory outside an object returns a value
    of type \<open>'a res\<close>: \<open>Inl\<close> of a \<open>fault\<close>, or \<open>Inr\<close> of the result.
  \<^item> \<open>htons\<close>, \<open>htonl\<close>, \<open>htobe64\<close> followed by a store are \<open>be16\<close>, \<open>be32\<close>, \<open>be64\<close>: the bytes
    in network order. A load followed by \<open>ntohs\<close> and so on is \<open>of_be16\<close> and so on. The
    host is little endian (x86), so \<open>le32\<close> is a plain 32-bit load.
  \<^item> \<open>std::map\<close> is an association list in key order, so that a loop over the map is a
    recursion over the list, in the order the code sees.
\<close>

unbundle bit_operations_syntax

type_synonym byte = "8 word"

section \<open>Faults\<close>

datatype fault =
    Aborted       \<comment> \<open>the code calls \<open>abort()\<close>\<close>
  | OutOfBounds   \<comment> \<open>undefined behaviour: memory outside the object is read or written\<close>
  | Diverges      \<comment> \<open>the loop never ends\<close>

type_synonym 'a res = "fault + 'a"

fun bindr :: "'a res \<Rightarrow> ('a \<Rightarrow> 'b res) \<Rightarrow> 'b res" where
  "bindr (Inl e) f = Inl e"
| "bindr (Inr x) f = f x"

lemma bindr_Inr_iff: "bindr m f = Inr y \<longleftrightarrow> (\<exists>x. m = Inr x \<and> f x = Inr y)"
  by (cases m) auto

lemma bindr_assoc: "bindr (bindr m f) g = bindr m (\<lambda>x. bindr (f x) g)"
  by (cases m) auto

definition require :: "bool \<Rightarrow> fault \<Rightarrow> unit res" where
  "require c e = (if c then Inr () else Inl e)"

lemma require_simps [simp]:
  "require True e = Inr ()" "require False e = Inl e"
  by (simp_all add: require_def)

lemma require_Inr_iff [simp]: "require c e = Inr u \<longleftrightarrow> c"
  by (simp add: require_def)

section \<open>Unsigned 32-bit arithmetic on natural numbers\<close>

text \<open>A \<open>uint32_t\<close> expression is evaluated modulo \<open>2 ^ 32\<close>.\<close>

definition u32 :: "nat \<Rightarrow> nat" where
  "u32 n = n mod 2 ^ 32"

lemma u32_id [simp]: "n < 4294967296 \<Longrightarrow> u32 n = n"
  by (simp add: u32_def)

lemma u32_bound [simp]: "u32 n < 4294967296"
  by (simp add: u32_def)

lemma u32_le: "u32 n \<le> n"
  by (simp add: u32_def)

text \<open>The conversion of a \<open>uint32_t\<close> to \<open>int\<close> is negative from \<open>2 ^ 31\<close> on.\<close>

definition int32 :: "nat \<Rightarrow> int" where
  "int32 n = (let m = n mod 2 ^ 32 in if m < 2 ^ 31 then int m else int m - 2 ^ 32)"

lemma int32_small [simp]: "n < 2147483648 \<Longrightarrow> int32 n = int n"
  by (simp add: int32_def Let_def)

lemma int32_neg: "2147483648 \<le> n \<Longrightarrow> n < 4294967296 \<Longrightarrow> int32 n < 0"
  by (simp add: int32_def Let_def)

section \<open>Byte order\<close>

primrec be_bytes :: "nat \<Rightarrow> 'a::len word \<Rightarrow> byte list" where
  "be_bytes 0 w = []"
| "be_bytes (Suc k) w = be_bytes k (drop_bit 8 w) @ [ucast w]"

definition be16 :: "16 word \<Rightarrow> byte list" where "be16 w = be_bytes 2 w"
definition be32 :: "32 word \<Rightarrow> byte list" where "be32 w = be_bytes 4 w"
definition be64 :: "64 word \<Rightarrow> byte list" where "be64 w = be_bytes 8 w"

text \<open>The readers take the bytes of the field; their number is checked by the caller.\<close>

definition of_bytes :: "byte list \<Rightarrow> 'a::len word" where
  "of_bytes bs = foldl (\<lambda>acc b. push_bit 8 acc OR ucast b) 0 bs"

definition of_be16 :: "byte list \<Rightarrow> 16 word" where "of_be16 = of_bytes"
definition of_be32 :: "byte list \<Rightarrow> 32 word" where "of_be32 = of_bytes"
definition of_be64 :: "byte list \<Rightarrow> 64 word" where "of_be64 = of_bytes"

text \<open>Loads without a byte swap, on the little endian host.\<close>

definition of_le32 :: "byte list \<Rightarrow> 32 word" where "of_le32 bs = of_bytes (rev bs)"
definition of_le64 :: "byte list \<Rightarrow> 64 word" where "of_le64 bs = of_bytes (rev bs)"

lemma length_be_bytes [simp]: "length (be_bytes k w) = k"
  by (induction k arbitrary: w) simp_all

lemma length_be [simp]:
  "length (be16 a) = 2" "length (be32 b) = 4" "length (be64 c) = 8"
  by (simp_all add: be16_def be32_def be64_def)

lemma of_bytes_snoc: "of_bytes (bs @ [b]) = push_bit 8 (of_bytes bs) OR ucast b"
  by (simp add: of_bytes_def)

lemma of_bytes_be_bytes:
  fixes w :: "'a::len word"
  shows "of_bytes (be_bytes k w) = (take_bit (8 * k) w :: 'a word)"
proof (induction k arbitrary: w)
  case 0
  show ?case by (simp add: of_bytes_def)
next
  case (Suc k)
  have "push_bit 8 (take_bit (8 * k) (drop_bit 8 w)) OR ucast (ucast w :: byte)
      = take_bit (8 * Suc k) w"
    by (rule bit_word_eqI) (auto simp: bit_simps)
  with Suc show ?case by (simp add: of_bytes_snoc)
qed

lemma bit_of_bytes: "bit (of_bytes bs :: 'a::len word) n \<Longrightarrow> n < 8 * length bs"
  by (induction bs arbitrary: n rule: rev_induct)
     (auto simp: of_bytes_snoc bit_simps of_bytes_def [of "[]"] dest: bit_imp_le_length, fastforce)

lemma be_bytes_of_bytes:
  "8 * length bs \<le> LENGTH('a) \<Longrightarrow> be_bytes (length bs) (of_bytes bs :: 'a::len word) = bs"
proof (induction bs rule: rev_induct)
  case (snoc b bs)
  have "drop_bit 8 (of_bytes (bs @ [b]) :: 'a word) = of_bytes bs"
    using snoc.prems
    by (intro bit_word_eqI) (auto simp: of_bytes_snoc bit_simps dest: bit_of_bytes bit_imp_le_length)
  moreover have "ucast (of_bytes (bs @ [b]) :: 'a word) = b"
    using snoc.prems by (intro bit_word_eqI) (auto simp: of_bytes_snoc bit_simps)
  ultimately show ?case using snoc by simp
qed simp

lemma bit_of_bytes_nth:
  "8 * length bs \<le> LENGTH('a) \<Longrightarrow> n < 8 * length bs \<Longrightarrow>
   bit (of_bytes bs :: 'a::len word) n = bit (bs ! (length bs - 1 - n div 8)) (n mod 8)"
proof (induction bs arbitrary: n rule: rev_induct)
  case (snoc b bs)
  show ?case
  proof (cases "n < 8")
    case True
    then show ?thesis using snoc.prems by (simp add: of_bytes_snoc bit_simps)
  next
    case False
    then obtain k where n: "n = 8 + k" by (metis le_Suc_ex not_less)
    then have k: "k < 8 * length bs" using snoc.prems by simp
    then have "k div 8 < length bs" by (simp add: less_mult_imp_div_less mult.commute)
    moreover have "bit (of_bytes (bs @ [b]) :: 'a word) n = bit (of_bytes bs :: 'a word) k"
      using snoc.prems n by (auto simp: of_bytes_snoc bit_simps dest: bit_imp_le_length)
    moreover have "(8 + k) div 8 = Suc (k div 8)" by simp
    moreover from \<open>k div 8 < length bs\<close> have "length bs - Suc (k div 8) < length bs" by arith
    ultimately show ?thesis using snoc.IH [of k] snoc.prems k n by (simp add: nth_append)
  qed
qed simp

lemma of_be_be [simp]:
  "of_be16 (be16 a) = a" "of_be32 (be32 b) = b" "of_be64 (be64 c) = c"
  by (simp_all add: of_be16_def be16_def of_be32_def be32_def of_be64_def be64_def
      of_bytes_be_bytes take_bit_length_eq [where 'a = 16, simplified]
      take_bit_length_eq [where 'a = 32, simplified] take_bit_length_eq [where 'a = 64, simplified])

lemma be_inject [simp]:
  "be16 a = be16 a' \<longleftrightarrow> a = a'" "be32 b = be32 b' \<longleftrightarrow> b = b'" "be64 c = be64 c' \<longleftrightarrow> c = c'"
  by (metis of_be_be(1), metis of_be_be(2), metis of_be_be(3))

section \<open>Fields of a buffer\<close>

text \<open>The \<open>n\<close> bytes from offset \<open>off\<close>.\<close>

definition chunk :: "nat \<Rightarrow> nat \<Rightarrow> 'a list \<Rightarrow> 'a list" where
  "chunk off n buf = take n (drop off buf)"

text \<open>Overwriting the bytes from offset \<open>off\<close>.\<close>

definition blit :: "nat \<Rightarrow> 'a list \<Rightarrow> 'a list \<Rightarrow> 'a list" where
  "blit off bs buf = take off buf @ bs @ drop (off + length bs) buf"

named_theorems field_simps_rules

lemma length_chunk [simp]: "off + n \<le> length buf \<Longrightarrow> length (chunk off n buf) = n"
  by (simp add: chunk_def)

lemma length_blit [simp]: "off + length bs \<le> length buf \<Longrightarrow> length (blit off bs buf) = length buf"
  by (simp add: blit_def)

lemma chunk_append_left [field_simps_rules]:
  "off + n \<le> length a \<Longrightarrow> chunk off n (a @ b) = chunk off n a"
  by (simp add: chunk_def)

lemma chunk_append_right [field_simps_rules]:
  "length a \<le> off \<Longrightarrow> chunk off n (a @ b) = chunk (off - length a) n b"
  by (simp add: chunk_def)

lemma chunk_Cons [field_simps_rules]:
  "0 < off \<Longrightarrow> chunk off n (x # xs) = chunk (off - 1) n xs"
  by (cases off) (simp_all add: chunk_def)

lemma chunk_all [field_simps_rules]: "length a = n \<Longrightarrow> chunk 0 n a = a"
  by (simp add: chunk_def)

lemma chunk_hit [field_simps_rules]: "length a = n \<Longrightarrow> chunk 0 n (a @ b) = a"
  by (simp add: chunk_def)

lemma chunk_zero [simp]: "chunk off 0 buf = []"
  by (simp add: chunk_def)

lemma chunk_blit_same:
  "off + length bs \<le> length buf \<Longrightarrow> chunk off (length bs) (blit off bs buf) = bs"
  by (simp add: chunk_def blit_def)

lemma chunk_blit_before:
  "o1 + n \<le> off \<Longrightarrow> off \<le> length buf \<Longrightarrow> chunk o1 n (blit off bs buf) = chunk o1 n buf"
  by (simp add: chunk_def blit_def take_drop min.absorb2)

lemma chunk_blit_after:
  "off + length bs \<le> o1 \<Longrightarrow> off \<le> length buf \<Longrightarrow> chunk o1 n (blit off bs buf) = chunk o1 n buf"
  by (simp add: chunk_def blit_def)

lemma blit_append_end:
  "length buf = off \<Longrightarrow> blit off bs buf = buf @ bs"
  by (simp add: blit_def)

lemma blit_split:
  "off \<le> length buf \<Longrightarrow> blit off (a @ b) buf = blit (off + length a) b (blit off a buf)"
  by (simp add: blit_def ac_simps)

text \<open>Reading a field that may lie outside the buffer.\<close>

definition fetch :: "nat \<Rightarrow> nat \<Rightarrow> byte list \<Rightarrow> byte list res" where
  "fetch off n buf = (if off + n \<le> length buf then Inr (chunk off n buf) else Inl OutOfBounds)"

lemma fetch_ok [simp]: "off + n \<le> length buf \<Longrightarrow> fetch off n buf = Inr (chunk off n buf)"
  by (simp add: fetch_def)

lemma fetch_oob [simp]: "length buf < off + n \<Longrightarrow> fetch off n buf = Inl OutOfBounds"
  by (simp add: fetch_def)

end
