(* ===== verification/Strings.thy ===== *)
theory Strings
  imports Prelude
begin

text \<open>
  Text handling: decimal and hexadecimal output of \<open>sprintf\<close>, the numeric conversions of
  \<open>sscanf\<close>, and \<open>string_utils\<close> of \<open>common/common_utils_oop.cpp\<close> (the version the
  controller links). A string is a list of characters; the code is compiled with
  \<open>-funsigned-char\<close>, so a character compares as its code 0 to 255.
\<close>

section \<open>Printing numbers\<close>

definition digit_char :: "nat \<Rightarrow> char" where
  "digit_char d = (if d < 10 then char_of (48 + d) else char_of (87 + d))"

text \<open>\<open>%u\<close>, \<open>%hu\<close> and \<open>%d\<close> of a value that is not negative.\<close>

fun dec :: "nat \<Rightarrow> string" where
  "dec n = (if n < 10 then [digit_char n] else dec (n div 10) @ [digit_char (n mod 10)])"

declare dec.simps [simp del]

text \<open>\<open>%02x\<close> of a byte.\<close>

definition hex2 :: "byte \<Rightarrow> string" where
  "hex2 b = [digit_char (unat b div 16), digit_char (unat b mod 16)]"

section \<open>Character classes\<close>

abbreviation code :: "char \<Rightarrow> nat" where "code c \<equiv> of_char c"

definition is_digit :: "char \<Rightarrow> bool" where
  "is_digit c = (48 \<le> code c \<and> code c \<le> 57)"

definition is_whitespace :: "char \<Rightarrow> bool" where
  "is_whitespace c = (c = CHR '' '' \<or> c = CHR 0x09 \<or> c = CHR 0x0A \<or> c = CHR 0x0D)"

definition is_alphanumeric :: "char \<Rightarrow> bool" where
  "is_alphanumeric c = ((48 \<le> code c \<and> code c \<le> 57) \<or> (97 \<le> code c \<and> code c \<le> 122)
     \<or> (65 \<le> code c \<and> code c \<le> 90))"

definition is_word_char :: "char \<Rightarrow> bool" where
  "is_word_char c = (is_alphanumeric c \<or> c = CHR ''_'' \<or> c = CHR ''.'' \<or> c = CHR '':'' \<or> c = CHR ''-'')"

section \<open>Scanning numbers\<close>

text \<open>
  The integer conversions of \<open>sscanf\<close>: white space is skipped (\<open>isspace\<close>, which also
  takes vertical tab and form feed), then an optional sign, then at least one digit. The
  value is computed in 64 bits with saturation and stored in the width of the target,
  which keeps the low bits. The rest of the input is returned.
\<close>

definition is_space :: "char \<Rightarrow> bool" where
  "is_space c = (c = CHR '' '' \<or> (9 \<le> code c \<and> code c \<le> 13))"

definition digits_value :: "string \<Rightarrow> nat" where
  "digits_value ds = foldl (\<lambda>v c. 10 * v + (code c - 48)) 0 ds"

definition scan_sign :: "string \<Rightarrow> bool \<times> string" where
  "scan_sign s = (case s of
      c # cs \<Rightarrow> if c = CHR ''-'' then (True, cs) else if c = CHR ''+'' then (False, cs) else (False, s)
    | [] \<Rightarrow> (False, s))"

definition scan_number :: "string \<Rightarrow> (bool \<times> nat \<times> string) option" where
  "scan_number s =
     (let (neg, s') = scan_sign (dropWhile is_space s); ds = takeWhile is_digit s'
      in if ds = [] then None else Some (neg, digits_value ds, dropWhile is_digit s'))"

text \<open>\<open>strtoul\<close>: saturates at \<open>2 ^ 64 - 1\<close>, negates modulo \<open>2 ^ 64\<close>.\<close>

definition scan_unsigned :: "string \<Rightarrow> (nat \<times> string) option" where
  "scan_unsigned s = (case scan_number s of None \<Rightarrow> None
     | Some (neg, v, r) \<Rightarrow>
         Some (if 2 ^ 64 \<le> v then 2 ^ 64 - 1 else if neg \<and> v \<noteq> 0 then 2 ^ 64 - v else v, r))"

text \<open>\<open>strtol\<close>: saturates at both ends of the signed 64-bit range; the store keeps 32 bits.\<close>

definition scan_int :: "string \<Rightarrow> (int \<times> string) option" where
  "scan_int s = (case scan_number s of None \<Rightarrow> None
     | Some (neg, v, r) \<Rightarrow>
         Some (sint (word_of_int (if neg then max (- (2 ^ 63)) (- int v)
                                  else min (2 ^ 63 - 1) (int v)) :: 32 word), r))"

definition string_to_uint32 :: "string \<Rightarrow> 32 word option" where
  "string_to_uint32 s = map_option (\<lambda>(v, r). word_of_nat v) (scan_unsigned s)"

definition string_to_uint16 :: "string \<Rightarrow> 16 word option" where
  "string_to_uint16 s = map_option (\<lambda>(v, r). word_of_nat v) (scan_unsigned s)"

subsection \<open>Scanning what was printed\<close>

lemma is_digit_digit_char: "d < 10 \<Longrightarrow> is_digit (digit_char d)"
  by (simp add: is_digit_def digit_char_def)

lemma dec_digits: "c \<in> set (dec n) \<Longrightarrow> is_digit c"
  by (induction n rule: dec.induct) (subst (asm) (2) dec.simps, auto simp: is_digit_digit_char split: if_splits)

lemma dec_nonempty [simp]: "dec n \<noteq> []"
  by (subst dec.simps) simp

lemma digits_value_snoc: "digits_value (ds @ [c]) = 10 * digits_value ds + (code c - 48)"
  by (simp add: digits_value_def)

lemma digits_value_dec: "digits_value (dec n) = n"
proof (induction n rule: dec.induct)
  case (1 n)
  show ?case
  proof (cases "n < 10")
    case True
    then show ?thesis by (subst dec.simps) (simp add: digits_value_def digit_char_def)
  next
    case False
    with 1 show ?thesis
      by (subst dec.simps) (simp add: digits_value_snoc digit_char_def)
  qed
qed

lemma dec_no_nul: "c \<in> set (dec n) \<Longrightarrow> c \<noteq> CHR 0x00"
  using dec_digits by (fastforce simp: is_digit_def)

lemma length_dec_byte: "n < 256 \<Longrightarrow> length (dec n) \<le> 3"
  by (subst dec.simps, subst dec.simps, subst dec.simps) auto

lemma scan_number_dec:
  assumes "r = [] \<or> \<not> is_digit (hd r)"
  shows "scan_number (dec n @ r) = Some (False, n, r)"
proof -
  obtain c cs where d: "dec n = c # cs" by (cases "dec n") (use dec_nonempty in blast)+
  then have "is_digit c" using dec_digits [of c n] by simp
  then have "\<not> is_space c" "c \<noteq> CHR ''-''" "c \<noteq> CHR ''+''"
    by (auto simp: is_digit_def is_space_def)
  then have "scan_sign (dropWhile is_space (dec n @ r)) = (False, dec n @ r)"
    by (simp add: d scan_sign_def)
  moreover have "takeWhile is_digit (dec n @ r) = dec n" "dropWhile is_digit (dec n @ r) = r"
    using assms dec_digits by (cases r; simp add: takeWhile_append dropWhile_append; fail)+
  ultimately show ?thesis by (simp add: scan_number_def digits_value_dec)
qed

lemma scan_int_dec:
  assumes "n < 2 ^ 31" and "r = [] \<or> \<not> is_digit (hd r)"
  shows "scan_int (dec n @ r) = Some (int n, r)"
proof -
  have "sint (word_of_int (int n) :: 32 word) = int n"
    using assms(1) by (simp only: signed_of_int) (simp add: signed_take_bit_int_eq_self)
  with assms show ?thesis by (simp add: scan_int_def scan_number_dec)
qed

lemma string_to_uint16_dec: "string_to_uint16 (dec (unat w)) = Some w"
  using scan_number_dec [of "[]" "unat w"] unsigned_less [of w, where ?'a = nat]
  by (simp add: string_to_uint16_def scan_unsigned_def)

lemma string_to_uint32_dec: "string_to_uint32 (dec (unat w)) = Some w"
  using scan_number_dec [of "[]" "unat w"] unsigned_less [of w, where ?'a = nat]
  by (simp add: string_to_uint32_def scan_unsigned_def)

section \<open>Key/value pairs\<close>

text \<open>
  \<open>generate_key_value_pair(input)\<close>. Each inner loop that reaches the end of the input
  leaves the function (\<open>goto done\<close>), except the one that reads a value. Reading
  \<open>input[len]\<close> gives the terminating zero, which is in none of the classes; only the
  loop after \<open>=\<close> can do that. The remaining input plays the part of \<open>offset\<close>.
\<close>

function kv_pairs :: "string \<Rightarrow> (string \<times> string) list" where
  "kv_pairs s =
     (if s = [] then [] else
      let s1 = dropWhile is_whitespace s in
      if s1 = [] then [] else
      let key = takeWhile is_word_char s1; s2 = dropWhile is_word_char s1 in
      if s2 = [] then [] else
      let s3 = dropWhile is_whitespace s2 in
      if s3 = [] then [] else
      if hd s3 \<noteq> CHR ''='' then [] else
      let s4 = tl s3; s5 = dropWhile is_whitespace s4 in
      if s5 = [] \<and> s4 \<noteq> [] then [] else
      (key, takeWhile is_word_char s5) # kv_pairs (dropWhile is_word_char s5))"
  by pat_completeness auto
termination
proof (relation "measure length")
  fix s s1 key s2 s3 s4 s5 :: string
  assume eqs: "s1 = dropWhile is_whitespace s" "s2 = dropWhile is_word_char s1"
    "s3 = dropWhile is_whitespace s2" "s5 = dropWhile is_whitespace s4"
    and s3: "s3 \<noteq> []" "s4 = tl s3"
  have "length s3 \<le> length s2" "length s2 \<le> length s1" "length s1 \<le> length s"
    "length s5 \<le> length s4" "length (dropWhile is_word_char s5) \<le> length s5"
    by (simp_all only: eqs length_dropWhile_le)
  moreover have "length s4 < length s3" using s3 by (cases s3) auto
  ultimately show "(dropWhile is_word_char s5, s) \<in> measure length" by simp
qed simp

declare kv_pairs.simps [simp del]

end
