(* ===== verification/Addresses.thy ===== *)
theory Addresses
  imports Strings
begin

text \<open>
  \<open>common/mac_address.{h,cpp}\<close> and \<open>common/ip_address.{h,cpp}\<close>: the two address types,
  their orders (the key orders of the \<open>std::map\<close>s in the tables), and their text forms.
  An address is its array of octets; the constructors have one argument per octet, so the
  length is part of the type. Name resolution (\<open>getaddrinfo\<close>) is not in the repository:
  it is the parameter \<open>resolver\<close>, \<open>None\<close> when it reports an error.
\<close>

section \<open>MAC addresses\<close>

datatype mac_address = MAC byte byte byte byte byte byte

fun mac_octets :: "mac_address \<Rightarrow> byte list" where
  "mac_octets (MAC a b c d e f) = [a, b, c, d, e, f]"

definition mac_nil :: mac_address where
  "mac_nil = MAC 0 0 0 0 0 0"

definition mac_broadcast :: mac_address where
  "mac_broadcast = MAC 255 255 255 255 255 255"

definition mac_is_nil :: "mac_address \<Rightarrow> bool" where
  "mac_is_nil m = (mac_octets m = [0, 0, 0, 0, 0, 0])"

definition mac_is_broadcast :: "mac_address \<Rightarrow> bool" where
  "mac_is_broadcast m = (mac_octets m = [255, 255, 255, 255, 255, 255])"

definition mac_eq :: "mac_address \<Rightarrow> mac_address \<Rightarrow> bool" where
  "mac_eq a b = (mac_octets a = mac_octets b)"

text \<open>\<open>set_from_network_buffer\<close> copies six bytes.\<close>

fun mac_from_bytes :: "byte list \<Rightarrow> mac_address" where
  "mac_from_bytes [a, b, c, d, e, f] = MAC a b c d e f"
| "mac_from_bytes _ = mac_nil"

text \<open>The loop of \<open>operator<\<close>.\<close>

fun octets_less :: "byte list \<Rightarrow> byte list \<Rightarrow> bool" where
  "octets_less (x # xs) (y # ys) = (if x < y then True else if y < x then False else octets_less xs ys)"
| "octets_less _ _ = False"

definition mac_less :: "mac_address \<Rightarrow> mac_address \<Rightarrow> bool" where
  "mac_less a b = octets_less (mac_octets a) (mac_octets b)"

text \<open>The loop of \<open>set(string)\<close>: position, octet being read, octets stored so far.\<close>

fun mac_set_loop :: "nat \<Rightarrow> byte \<Rightarrow> byte list \<Rightarrow> string \<Rightarrow> byte list option" where
  "mac_set_loop i cur stored [] = Some (stored @ [cur])"
| "mac_set_loop i cur stored (c # cs) =
     (if Suc i mod 3 = 0 then
        if c \<noteq> CHR '':'' then None else mac_set_loop (Suc i) 0 (stored @ [cur]) cs
      else let cur' = push_bit 4 cur in
        if 48 \<le> code c \<and> code c \<le> 57 then
          mac_set_loop (Suc i) (cur' OR word_of_nat (code c - 48)) stored cs
        else if 65 \<le> code c \<and> code c \<le> 70 then
          mac_set_loop (Suc i) (cur' OR word_of_nat (code c - 65 + 10)) stored cs
        else if 97 \<le> code c \<and> code c \<le> 102 then
          mac_set_loop (Suc i) (cur' OR word_of_nat (code c - 97 + 10)) stored cs
        else None)"

definition mac_set :: "string \<Rightarrow> mac_address" where
  "mac_set s = (if length s \<noteq> 17 then mac_nil
     else case mac_set_loop 0 0 [] s of Some bs \<Rightarrow> mac_from_bytes bs | None \<Rightarrow> mac_nil)"

text \<open>\<open>to_string\<close> prints each octet with a colon and drops the last colon.\<close>

definition mac_to_string :: "mac_address \<Rightarrow> string" where
  "mac_to_string m = butlast (concat (map (\<lambda>b. hex2 b @ '':'') (mac_octets m)))"

lemma mac_octets_inj: "mac_octets a = mac_octets b \<longleftrightarrow> a = b"
  by (cases a; cases b) simp

lemma mac_eq_iff [simp]: "mac_eq a b \<longleftrightarrow> a = b"
  by (simp add: mac_eq_def mac_octets_inj)

lemma length_mac_octets [simp]: "length (mac_octets m) = 6"
  by (cases m) simp

lemma mac_from_octets [simp]: "mac_from_bytes (mac_octets m) = m"
  by (cases m) simp

lemma mac_octets_from_bytes: "length bs = 6 \<Longrightarrow> mac_octets (mac_from_bytes bs) = bs"
  by (cases bs rule: mac_from_bytes.cases) auto

lemma mac_is_nil_iff: "mac_is_nil m \<longleftrightarrow> m = mac_nil"
  by (cases m) (simp add: mac_is_nil_def mac_nil_def)

lemma mac_is_broadcast_iff: "mac_is_broadcast m \<longleftrightarrow> m = mac_broadcast"
  by (cases m) (simp add: mac_is_broadcast_def mac_broadcast_def)

lemma octets_less_irrefl: "\<not> octets_less xs xs"
  by (induction xs) auto

lemma octets_less_trans:
  "octets_less xs ys \<Longrightarrow> octets_less ys zs \<Longrightarrow> octets_less xs zs"
proof (induction xs ys arbitrary: zs rule: octets_less.induct)
  case (1 x xs y ys)
  then show ?case by (cases zs) (auto split: if_splits)
qed auto

lemma octets_less_total:
  "length xs = length ys \<Longrightarrow> octets_less xs ys \<or> xs = ys \<or> octets_less ys xs"
  by (induction xs ys rule: list_induct2) auto

instantiation mac_address :: linorder
begin

definition less_mac_address :: "mac_address \<Rightarrow> mac_address \<Rightarrow> bool" where
  "less_mac_address a b = mac_less a b"

definition less_eq_mac_address :: "mac_address \<Rightarrow> mac_address \<Rightarrow> bool" where
  "less_eq_mac_address a b = (mac_less a b \<or> a = b)"

instance
proof
  fix x y z :: mac_address
  show "x < y \<longleftrightarrow> x \<le> y \<and> \<not> y \<le> x"
    unfolding less_mac_address_def less_eq_mac_address_def mac_less_def
    using octets_less_irrefl octets_less_trans by blast
  show "x \<le> x" by (simp add: less_eq_mac_address_def)
  show "x \<le> y \<Longrightarrow> y \<le> z \<Longrightarrow> x \<le> z"
    unfolding less_eq_mac_address_def mac_less_def using octets_less_trans by blast
  show "x \<le> y \<Longrightarrow> y \<le> x \<Longrightarrow> x = y"
    unfolding less_eq_mac_address_def mac_less_def
    using octets_less_irrefl octets_less_trans by blast
  show "x \<le> y \<or> y \<le> x"
    unfolding less_eq_mac_address_def mac_less_def
    using octets_less_total [of "mac_octets x" "mac_octets y"] mac_octets_inj by auto
qed

end

subsection \<open>The text form\<close>

lemma code_digit_char:
  "d < 10 \<Longrightarrow> code (digit_char d) = 48 + d" "10 \<le> d \<Longrightarrow> d < 16 \<Longrightarrow> code (digit_char d) = 87 + d"
  by (simp_all add: digit_char_def)

lemma mac_set_loop_digit:
  assumes "d < 16" and "Suc i mod 3 \<noteq> 0"
  shows "mac_set_loop i cur stored (digit_char d # cs)
    = mac_set_loop (Suc i) (push_bit 4 cur OR word_of_nat d) stored cs"
  using assms by (cases "d < 10") (simp_all add: code_digit_char Let_def)

lemma unat_byte_bound: "unat (b :: byte) < 256"
  using unsigned_less [of b, where ?'a = nat] by simp

lemma uint_byte_bound [simp]: "\<not> 255 < uint (b :: byte)"
  using unat_byte_bound [of b] by (simp add: uint_nat not_less del: of_nat_unat)

lemma unat_word_of_int_byte: "0 \<le> a \<Longrightarrow> a \<le> 255 \<Longrightarrow> unat (word_of_int a :: byte) = nat a"
  by (simp add: unat_eq_nat_uint uint_word_of_int)

lemma nibbles:
  "push_bit 4 (push_bit 4 0 OR word_of_nat (unat b div 16)) OR word_of_nat (unat b mod 16) = (b :: byte)"
proof -
  have "word_of_nat (unat b div 16) = drop_bit 4 b"
    by (rule word_unat_eq_iff [THEN iffD2])
       (simp only: unat_drop_bit_eq, simp add: drop_bit_eq_div unat_of_nat unat_byte_bound
          less_imp_diff_less order.strict_trans1 [OF div_le_dividend])
  moreover have "word_of_nat (unat b mod 16) = take_bit 4 b"
    by (simp add: word_unat_eq_iff take_bit_eq_mod unat_mod_distrib unat_of_nat)
  ultimately show ?thesis
    by (simp add: bit_eq_iff bit_simps) (auto simp: not_less)
qed

lemma mac_set_loop_octet:
  assumes "Suc i mod 3 \<noteq> 0" "Suc (Suc i) mod 3 \<noteq> 0"
  shows "mac_set_loop i 0 stored (hex2 b @ cs) = mac_set_loop (Suc (Suc i)) b stored cs"
proof -
  have "unat b < 256" by (rule unat_byte_bound)
  with assms nibbles [of b] show ?thesis
    by (simp add: hex2_def mac_set_loop_digit del: mac_set_loop.simps)
qed

lemma mac_set_loop_last:
  "Suc i mod 3 \<noteq> 0 \<Longrightarrow> Suc (Suc i) mod 3 \<noteq> 0 \<Longrightarrow> mac_set_loop i 0 stored (hex2 b) = Some (stored @ [b])"
  using mac_set_loop_octet [of i stored b "[]"] by simp

lemma mac_set_loop_colon:
  "Suc i mod 3 = 0 \<Longrightarrow> mac_set_loop i cur stored (CHR '':'' # cs) = mac_set_loop (Suc i) 0 (stored @ [cur]) cs"
  by simp

lemma mac_to_string_octets:
  "mac_to_string (MAC a b c d e f) =
     hex2 a @ CHR '':'' # hex2 b @ CHR '':'' # hex2 c @ CHR '':'' # hex2 d @ CHR '':'' # hex2 e @ CHR '':'' # hex2 f"
  by (simp add: mac_to_string_def hex2_def)

lemma mac_set_to_string: "mac_set (mac_to_string m) = m"
proof (cases m)
  case (MAC a b c d e f)
  have "length (mac_to_string m) = 17"
    by (simp add: MAC mac_to_string_octets hex2_def)
  moreover have "mac_set_loop 0 0 [] (mac_to_string m) = Some [a, b, c, d, e, f]"
    by (simp add: MAC mac_to_string_octets mac_set_loop_octet mac_set_loop_last mac_set_loop_colon)
  ultimately show ?thesis by (simp add: mac_set_def MAC)
qed

section \<open>IPv4 addresses\<close>

datatype ip_address = IP byte byte byte byte

fun ip_octets :: "ip_address \<Rightarrow> byte list" where
  "ip_octets (IP a b c d) = [a, b, c, d]"

definition ip_nil :: ip_address where
  "ip_nil = IP 0 0 0 0"

text \<open>The code compares and tests addresses through a 32-bit load of the octets.\<close>

definition ip_be32 :: "ip_address \<Rightarrow> 32 word" where
  "ip_be32 a = of_le32 (ip_octets a)"

definition ip_eq :: "ip_address \<Rightarrow> ip_address \<Rightarrow> bool" where
  "ip_eq a b = (ip_be32 a = ip_be32 b)"

definition ip_less :: "ip_address \<Rightarrow> ip_address \<Rightarrow> bool" where
  "ip_less a b = (ip_be32 a < ip_be32 b)"

definition ip_is_nil :: "ip_address \<Rightarrow> bool" where
  "ip_is_nil a = (ip_be32 a = 0)"

fun ip_is_broadcast :: "ip_address \<Rightarrow> bool" where
  "ip_is_broadcast (IP a b c d) = (d = 255)"

text \<open>\<open>operator[]\<close> aborts outside 0 to 3.\<close>

definition ip_octet :: "ip_address \<Rightarrow> int \<Rightarrow> byte res" where
  "ip_octet a i = (if i < 0 \<or> 3 < i then Inl Aborted else Inr (ip_octets a ! nat i))"

fun ip_from_bytes :: "byte list \<Rightarrow> ip_address" where
  "ip_from_bytes [a, b, c, d] = IP a b c d"
| "ip_from_bytes _ = ip_nil"

definition ip_to_string :: "ip_address \<Rightarrow> string" where
  "ip_to_string a = (case map (\<lambda>b. dec (unat b)) (ip_octets a) of
     [w, x, y, z] \<Rightarrow> w @ ''.'' @ x @ ''.'' @ y @ ''.'' @ z | _ \<Rightarrow> '''')"

text \<open>\<open>sscanf(input, "%d.%d.%d.%d", ...) == 4\<close>.\<close>

definition scan_dot :: "string \<Rightarrow> string option" where
  "scan_dot s = (case s of c # cs \<Rightarrow> if c = CHR ''.'' then Some cs else None | [] \<Rightarrow> None)"

definition scan_quad :: "string \<Rightarrow> (int \<times> int \<times> int \<times> int) option" where
  "scan_quad s =
     Option.bind (scan_int s) (\<lambda>(a, s1). Option.bind (scan_dot s1) (\<lambda>s1.
     Option.bind (scan_int s1) (\<lambda>(b, s2). Option.bind (scan_dot s2) (\<lambda>s2.
     Option.bind (scan_int s2) (\<lambda>(c, s3). Option.bind (scan_dot s3) (\<lambda>s3.
     Option.bind (scan_int s3) (\<lambda>(d, s4). Some (a, b, c, d))))))))"

text \<open>
  \<open>validate_numeric_ip\<close>: the printed form of the four values must be the input itself.
  \<open>strcmp\<close> sees the input up to its first zero character.
\<close>

definition c_str :: "string \<Rightarrow> string" where
  "c_str s = takeWhile (\<lambda>c. c \<noteq> CHR 0x00) s"

definition validate_numeric_ip :: "string \<Rightarrow> ip_address option" where
  "validate_numeric_ip s =
     (if length s = 0 \<or> 16 < length s then None else
      case scan_quad (c_str s) of None \<Rightarrow> None
      | Some (a, b, c, d) \<Rightarrow>
          if a < 0 \<or> 255 < a \<or> b < 0 \<or> 255 < b \<or> c < 0 \<or> 255 < c \<or> d < 0 \<or> 255 < d then None
          else if dec (nat a) @ ''.'' @ dec (nat b) @ ''.'' @ dec (nat c) @ ''.'' @ dec (nat d) \<noteq> c_str s
          then None
          else Some (IP (word_of_int a) (word_of_int b) (word_of_int c) (word_of_int d)))"

text \<open>\<open>set(string)\<close>, that is \<open>validate_ip\<close>: the address stored, and the result.\<close>

definition ip_resolve :: "(string \<Rightarrow> ip_address option) \<Rightarrow> string \<Rightarrow> ip_address option" where
  "ip_resolve resolver s = (if s = [] then None else resolver (c_str s))"

definition ip_set :: "(string \<Rightarrow> ip_address option) \<Rightarrow> string \<Rightarrow> ip_address \<times> bool" where
  "ip_set resolver s =
     (case validate_numeric_ip s of Some a \<Rightarrow> (a, True)
      | None \<Rightarrow> (case ip_resolve resolver s of Some a \<Rightarrow> (a, True) | None \<Rightarrow> (ip_nil, False)))"

subsection \<open>Order and octets\<close>

lemma ip_be32_inj [simp]: "ip_be32 a = ip_be32 b \<longleftrightarrow> a = b"
proof
  assume "ip_be32 a = ip_be32 b"
  then have "be_bytes 4 (of_bytes (rev (ip_octets a)) :: 32 word) = be_bytes 4 (of_bytes (rev (ip_octets b)) :: 32 word)"
    by (simp add: ip_be32_def of_le32_def)
  moreover have "be_bytes 4 (of_bytes (rev (ip_octets x)) :: 32 word) = rev (ip_octets x)" for x
  proof -
    have "length (rev (ip_octets x)) = 4" by (cases x) simp
    then show ?thesis using be_bytes_of_bytes [of "rev (ip_octets x)", where ?'a = 32] by (simp del: be_bytes.simps)
  qed
  ultimately have "rev (ip_octets a) = rev (ip_octets b)" by simp
  then show "a = b" by (cases a; cases b) simp
qed simp

lemma ip_eq_iff [simp]: "ip_eq a b \<longleftrightarrow> a = b"
  by (simp add: ip_eq_def)

lemma ip_be32_nil: "ip_be32 ip_nil = 0"
  by (simp add: ip_be32_def ip_nil_def of_le32_def of_bytes_def)

lemma ip_is_nil_iff: "ip_is_nil a \<longleftrightarrow> a = ip_nil"
  unfolding ip_is_nil_def ip_be32_nil [symmetric] by simp

lemma length_ip_octets [simp]: "length (ip_octets a) = 4"
  by (cases a) simp

lemma ip_from_octets [simp]: "ip_from_bytes (ip_octets a) = a"
  by (cases a) simp

instantiation ip_address :: linorder
begin

definition less_ip_address :: "ip_address \<Rightarrow> ip_address \<Rightarrow> bool" where
  "less_ip_address a b = ip_less a b"

definition less_eq_ip_address :: "ip_address \<Rightarrow> ip_address \<Rightarrow> bool" where
  "less_eq_ip_address a b = (ip_be32 a \<le> ip_be32 b)"

instance
  by standard (auto simp: less_ip_address_def less_eq_ip_address_def ip_less_def
      simp flip: ip_be32_inj)

end

subsection \<open>The text form\<close>

lemma validate_to_string: "validate_numeric_ip (ip_to_string a) = Some a"
proof (cases a)
  case (IP w x y z)
  define t where "t b = dec (unat (b :: byte))" for b
  have scan: "scan_int (t b @ ''.'' @ r) = Some (int (unat b), ''.'' @ r)"
    and scan_end: "scan_int (t b) = Some (int (unat b), [])" for b r
    using unat_byte_bound [of b]
    by (simp_all add: t_def scan_int_dec scan_int_dec [where r = "[]", simplified] is_digit_def)
  have str: "ip_to_string a = t w @ ''.'' @ t x @ ''.'' @ t y @ ''.'' @ t z"
    by (simp add: IP ip_to_string_def t_def)
  have len: "length (t b) \<le> 3" "t b \<noteq> []" for b
    using unat_byte_bound [of b] by (simp_all add: t_def length_dec_byte)
  have nz: "c_str (ip_to_string a) = ip_to_string a"
    unfolding c_str_def str t_def
    by (rule takeWhile_eq_all_conv [THEN iffD2]) (auto simp: dest: dec_no_nul)
  have quad: "scan_quad (ip_to_string a) = Some (int (unat w), int (unat x), int (unat y), int (unat z))"
    using scan [of w] scan [of x] scan [of y] scan_end [of z]
    by (simp add: scan_quad_def str scan_dot_def)
  have l16: "length (ip_to_string a) \<le> 16" "ip_to_string a \<noteq> []"
    using len(1) [of w] len(1) [of x] len(1) [of y] len(1) [of z] by (simp_all add: str)
  show ?thesis
    using l16 by (simp add: validate_numeric_ip_def nz quad) (simp add: str [unfolded IP] t_def IP)
qed

lemma validate_numeric_ip_string:
  "validate_numeric_ip s = Some a \<Longrightarrow> ip_to_string a = c_str s"
  by (auto simp: validate_numeric_ip_def ip_to_string_def unat_word_of_int_byte
      split: if_splits option.splits)

lemma ip_set_to_string: "ip_set resolver (ip_to_string a) = (a, True)"
  by (simp add: ip_set_def validate_to_string)

end
