(* ===== verification/Csv_Parser.thy ===== *)
theory Csv_Parser
  imports Addresses
begin

text \<open>
  \<open>common/csv_parser.cpp\<close>, \<open>controller/services/aux_switch_info.cpp\<close> and
  \<open>controller/services/switch_db.cpp\<close>: the CSV reader and writer, and the switch database it feeds. A file
  is the string of its characters, None where it cannot be opened. What \<open>load\<close> prints is left out.
\<close>

abbreviation "CR \<equiv> CHR 0x0D"
abbreviation "LF \<equiv> CHR 0x0A"
abbreviation "COMMA \<equiv> CHR '',''"
abbreviation "QUOTE \<equiv> CHR 0x22"

section \<open>Reading\<close>

text \<open>One line up to a CR, an LF or the end of the file; the rest is None where the file ended.\<close>

fun read_line :: "string \<Rightarrow> string \<times> string option" where
  "read_line [] = ([], None)"
| "read_line (c # s) = (if c \<noteq> CR \<and> c \<noteq> LF then (case read_line s of (l, r) \<Rightarrow> (c # l, r)) else ([], Some s))"

text \<open>The loop over the commas; \<open>s\<close> is what starts at \<open>current_index\<close>.\<close>

function (sequential) split_words :: "string \<Rightarrow> string list" where
  "split_words s = (case dropWhile (\<lambda>c. c \<noteq> COMMA) s of
      [] \<Rightarrow> [s]
    | _ # rest \<Rightarrow> takeWhile (\<lambda>c. c \<noteq> COMMA) s # split_words rest)"
  by pat_completeness auto
termination
proof (relation "measure length", goal_cases)
  case (2 s c rest)
  then have "length (dropWhile (\<lambda>c. c \<noteq> COMMA) s) = Suc (length rest)" by simp
  with length_dropWhile_le [of "\<lambda>c. c \<noteq> COMMA" s] show ?case by simp
qed simp

declare split_words.simps [simp del]

text \<open>\<open>while ((i = word.find("\"\"")) != npos) word.erase(i, 1)\<close>\<close>

fun erase_first_pair :: "string \<Rightarrow> string option" where
  "erase_first_pair (a # b # s) =
    (if a = QUOTE \<and> b = QUOTE then Some (b # s) else map_option (\<lambda>t. a # t) (erase_first_pair (b # s)))"
| "erase_first_pair _ = None"

lemma erase_first_pair_length: "erase_first_pair s = Some t \<Longrightarrow> length t < length s"
  by (induction s arbitrary: t rule: erase_first_pair.induct) (auto split: if_splits)

function collapse_pairs :: "string \<Rightarrow> string" where
  "collapse_pairs s = (case erase_first_pair s of None \<Rightarrow> s | Some t \<Rightarrow> collapse_pairs t)"
  by pat_completeness auto
termination by (relation "measure length") (simp_all add: erase_first_pair_length)

declare collapse_pairs.simps [simp del]

text \<open>One word; None where a quote is not matched.\<close>

definition sanitize_word :: "string \<Rightarrow> string option" where
  "sanitize_word w =
    (if length w < 2 then Some w
     else if (hd w = QUOTE) \<noteq> (last w = QUOTE) then None
     else if hd w = QUOTE then Some (collapse_pairs (tl (butlast w)))
     else Some w)"

fun sanitize_line :: "string list \<Rightarrow> string list option" where
  "sanitize_line [] = Some []"
| "sanitize_line (w # ws) = (case sanitize_word w of None \<Rightarrow> None | Some v \<Rightarrow> map_option (\<lambda>vs. v # vs) (sanitize_line ws))"

lemma read_line_length: "read_line s = (l, Some r) \<Longrightarrow> length r < length s"
  by (induction s arbitrary: l) (auto split: if_splits prod.splits intro: less_SucI)

text \<open>The reading loop; \<open>num_cols\<close> is -1 before the first row. None is the branch \<open>fail\<close>.\<close>

function load_loop :: "int \<Rightarrow> string list list \<Rightarrow> string \<Rightarrow> string list list option" where
  "load_loop num_cols contents s = (case read_line s of (current_line, rest) \<Rightarrow>
     (let line = (if current_line = [] then [] else split_words current_line) in
      if line = [] then (case rest of Some r \<Rightarrow> load_loop num_cols contents r | None \<Rightarrow> Some contents)
      else if num_cols \<noteq> -1 \<and> int (length line) \<noteq> num_cols then Some contents
      else (case sanitize_line line of None \<Rightarrow> None
        | Some ws \<Rightarrow> load_loop (int (length line)) (contents @ [ws]) (case rest of Some r \<Rightarrow> r | None \<Rightarrow> []))))"
  by pat_completeness auto
termination
proof (relation "measure (\<lambda>(n, c, s). length s)", goal_cases)
  case (2 num_cols contents s current_line rest line r)
  then have "read_line s = (current_line, Some r)" by metis
  then show ?case by (simp add: read_line_length)
next
  case (3 num_cols contents s current_line rest line ws)
  then have r: "read_line s = (current_line, rest)" "line \<noteq> []" by metis+
  with 3 have "s \<noteq> []" by (auto split: if_splits)
  with read_line_length [of s current_line] r(1) show ?case by (auto split: option.split)
qed simp

declare load_loop.simps [simp del]

definition csv_load :: "string option \<Rightarrow> string list list \<Rightarrow> bool \<times> string list list" where
  "csv_load file contents = (case file of None \<Rightarrow> (False, contents)
     | Some s \<Rightarrow> (case load_loop (-1) contents s of None \<Rightarrow> (False, []) | Some c \<Rightarrow> (True, c)))"

section \<open>Writing\<close>

definition save_word :: "string \<Rightarrow> string" where
  "save_word w =
    (let q = (if QUOTE \<in> set w then [QUOTE] else [])
     in q @ concat (map (\<lambda>c. if c \<noteq> QUOTE then [c] else [QUOTE, QUOTE]) w) @ q)"

fun save_row :: "string list \<Rightarrow> string" where
  "save_row [] = [CR, LF]"
| "save_row [w] = save_word w @ [CR, LF]"
| "save_row (w # ws) = save_word w @ COMMA # save_row ws"

definition csv_save :: "string list list \<Rightarrow> string" where
  "csv_save contents = concat (map save_row contents)"

section \<open>Access\<close>

definition csv_rows :: "string list list \<Rightarrow> nat" where "csv_rows contents = length contents"

definition csv_cols :: "string list list \<Rightarrow> nat" where
  "csv_cols contents = (if contents = [] then 0 else length (hd contents))"

definition eliminate_empty_rows :: "string list list \<Rightarrow> string list list" where
  "eliminate_empty_rows contents = filter (\<lambda>row. \<exists>w \<in> set row. w \<noteq> []) contents"

definition eliminate_non_full_rows :: "string list list \<Rightarrow> string list list" where
  "eliminate_non_full_rows contents = filter (\<lambda>row. \<forall>w \<in> set row. w \<noteq> []) contents"

text \<open>\<open>contents[row][column]\<close>\<close>

definition cell :: "string list list \<Rightarrow> int \<Rightarrow> int \<Rightarrow> string res" where
  "cell contents row column =
    (if 0 \<le> row \<and> row < int (length contents) \<and> 0 \<le> column \<and> column < int (length (contents ! nat row))
     then Inr (contents ! nat row ! nat column) else Inl OutOfBounds)"

text \<open>\<open>operator()\<close>: the second test is against the number of rows.\<close>

definition csv_at :: "int \<Rightarrow> int \<Rightarrow> string list list \<Rightarrow> (string \<times> string list list) res" where
  "csv_at row column contents =
    (let num_rows = int (length contents) in
     if row < num_rows \<and> column < num_rows then bindr (cell contents row column) (\<lambda>s. Inr (s, contents))
     else let c1 = contents @ replicate (nat (row - num_rows + 1)) [];
              c2 = map (\<lambda>line. line @ replicate (nat (column - int (length line) + 1)) []) c1
          in bindr (cell c2 row column) (\<lambda>s. Inr (s, c2)))"

section \<open>Quotes\<close>

text \<open>What the erasing loop amounts to: a run of quotes becomes one quote.\<close>

fun dedup :: "string \<Rightarrow> string" where
  "dedup (a # b # s) = (if a = QUOTE \<and> b = QUOTE then dedup (b # s) else a # dedup (b # s))"
| "dedup s = s"

lemma dedup_erase: "erase_first_pair s = Some t \<Longrightarrow> dedup t = dedup s"
proof (induction s arbitrary: t rule: erase_first_pair.induct)
  case (1 a b s)
  show ?case
  proof (cases "a = QUOTE \<and> b = QUOTE")
    case False
    with "1.prems" obtain u where u: "erase_first_pair (b # s) = Some u" "t = a # u" by auto
    from u(1) obtain v where "u = b # v" by (cases s) (auto split: if_splits)
    with "1.IH" [OF False u(1)] u(2) False show ?thesis by (cases "a = QUOTE") auto
  qed (use "1.prems" in auto)
qed simp_all

lemma dedup_fixed: "erase_first_pair s = None \<Longrightarrow> dedup s = s"
  by (induction s rule: erase_first_pair.induct) (auto split: if_splits)

lemma collapse_pairs_dedup: "collapse_pairs s = dedup s"
proof (induction s rule: collapse_pairs.induct)
  case (1 s)
  then show ?case
    by (cases "erase_first_pair s") (simp_all add: collapse_pairs.simps [of s] dedup_fixed dedup_erase)
qed

lemma dedup_length: "length (dedup s) \<le> length s"
  by (induction s rule: dedup.induct) auto

lemma dedup_id_iff: "dedup s = s \<longleftrightarrow> erase_first_pair s = None"
proof (cases "erase_first_pair s")
  case (Some t)
  with erase_first_pair_length [OF Some] dedup_length [of t] dedup_erase [OF Some] show ?thesis by auto
qed (simp add: dedup_fixed)

lemma dedup_Cons: "a \<noteq> QUOTE \<Longrightarrow> dedup (a # s) = a # dedup s"
  by (cases s) simp_all

abbreviation double :: "string \<Rightarrow> string" where
  "double w \<equiv> concat (map (\<lambda>c. if c \<noteq> QUOTE then [c] else [QUOTE, QUOTE]) w)"

lemma dedup_double: "dedup (double w) = dedup w \<and> dedup (QUOTE # double w) = dedup (QUOTE # w)"
  by (induction w) (auto simp: dedup_Cons)

text \<open>A word written and read back has its runs of quotes shortened to one quote; so it comes back
  exactly if it has no two quotes in a row. (The word is taken as the reader sees it, without the commas
  and line ends that would split it.)\<close>

theorem csv_word_roundtrip:
  "sanitize_word (save_word w) = Some (dedup w) \<and> (sanitize_word (save_word w) = Some w \<longleftrightarrow> erase_first_pair w = None)"
proof -
  have plain: "dedup w = w" if "QUOTE \<notin> set w" using that
    by (induction w) (auto simp: dedup_Cons)
  have id: "double w = w" if "QUOTE \<notin> set w" using that by (induction w) auto
  have "sanitize_word (save_word w) = Some (dedup w)"
  proof (cases "QUOTE \<in> set w")
    case True
    then have "save_word w = QUOTE # double w @ [QUOTE]" by (simp add: save_word_def Let_def)
    then show ?thesis by (simp add: sanitize_word_def collapse_pairs_dedup dedup_double)
  next
    case False
    then have "hd w \<noteq> QUOTE" "last w \<noteq> QUOTE" if "2 \<le> length w"
      using that hd_in_set [of w] last_in_set [of w] by (metis length_0_conv not_numeral_le_zero)+
    with False show ?thesis by (simp add: save_word_def id plain sanitize_word_def)
  qed
  then show ?thesis by (simp add: dedup_id_iff)
qed

section \<open>Rows and files\<close>

definition word_ok :: "string \<Rightarrow> bool" where
  "word_ok w = (COMMA \<notin> set w \<and> CR \<notin> set w \<and> LF \<notin> set w \<and> erase_first_pair w = None)"

text \<open>The text of a row without its line end.\<close>

fun row_text :: "string list \<Rightarrow> string" where
  "row_text [] = []"
| "row_text [w] = save_word w"
| "row_text (w # ws) = save_word w @ COMMA # row_text ws"

lemma save_row_text: "save_row ws = row_text ws @ [CR, LF]"
  by (induction ws rule: save_row.induct) simp_all

lemma set_save_word: "set (save_word w) \<subseteq> insert QUOTE (set w)"
  by (auto simp: save_word_def Let_def)

lemma row_text_chars:
  assumes "\<forall>w \<in> set ws. word_ok w"
  shows "CR \<notin> set (row_text ws) \<and> LF \<notin> set (row_text ws)"
  using assms
proof (induction ws rule: row_text.induct)
  case (3 w v ws)
  with set_save_word [of w] show ?case by (auto simp: word_ok_def)
next
  case (2 w)
  with set_save_word [of w] show ?case by (auto simp: word_ok_def)
qed simp

lemma split_words_text:
  assumes "ws \<noteq> []" "\<forall>w \<in> set ws. word_ok w"
  shows "split_words (row_text ws) = map save_word ws"
  using assms
proof (induction ws rule: row_text.induct)
  case (2 w)
  have "COMMA \<notin> set (save_word w)" using 2 set_save_word [of w] by (auto simp: word_ok_def)
  then have "dropWhile (\<lambda>c. c \<noteq> COMMA) (save_word w) = []" by (auto simp: dropWhile_eq_Nil_conv)
  then show ?case unfolding row_text.simps split_words.simps [of "save_word w"] by (simp only: list.case list.map)
next
  case (3 w v ws)
  have c: "\<forall>c \<in> set (save_word w). c \<noteq> COMMA" using "3.prems" set_save_word [of w] by (auto simp: word_ok_def)
  have "dropWhile (\<lambda>c. c \<noteq> COMMA) (row_text (w # v # ws)) = COMMA # row_text (v # ws)"
    "takeWhile (\<lambda>c. c \<noteq> COMMA) (row_text (w # v # ws)) = save_word w"
    using c by (simp_all add: dropWhile_append2 takeWhile_append2)
  with 3 show ?case by (simp add: split_words.simps [of "row_text (w # v # ws)"] del: row_text.simps)
qed simp

lemma sanitize_line_saved: "\<forall>w \<in> set ws. word_ok w \<Longrightarrow> sanitize_line (map save_word ws) = Some ws"
  by (induction ws) (simp_all add: csv_word_roundtrip word_ok_def dedup_fixed)

lemma read_line_append:
  "CR \<notin> set l \<Longrightarrow> LF \<notin> set l \<Longrightarrow> read_line (l @ CR # s) = (l, Some s)"
  by (induction l) auto

lemma save_word_empty: "save_word w = [] \<longleftrightarrow> w = []"
proof
  assume e: "save_word w = []"
  show "w = []"
  proof (cases "QUOTE \<in> set w")
    case False
    moreover have "double w = w" using False by (induction w) auto
    ultimately show ?thesis using e by (simp add: save_word_def Let_def)
  qed (use e in \<open>simp add: save_word_def Let_def\<close>)
qed (simp add: save_word_def Let_def)

lemma row_text_empty: "ws \<noteq> [] \<Longrightarrow> ws \<noteq> [[]] \<Longrightarrow> row_text ws \<noteq> []"
  by (cases ws rule: row_text.cases) (auto simp: save_word_empty)

lemma load_loop_row:
  assumes "ws \<noteq> []" "ws \<noteq> [[]]" "\<forall>w \<in> set ws. word_ok w" "n = -1 \<or> n = int (length ws)"
  shows "load_loop n c (save_row ws @ s) = load_loop (int (length ws)) (c @ [ws]) s"
proof -
  have "read_line (save_row ws @ s) = (row_text ws, Some (LF # s))"
    using row_text_chars [OF assms(3)] by (simp add: save_row_text read_line_append)
  then have "load_loop n c (save_row ws @ s) = load_loop (int (length ws)) (c @ [ws]) (LF # s)"
    using assms by (auto simp: load_loop.simps [of n] row_text_empty split_words_text sanitize_line_saved)
  then show ?thesis by (simp add: load_loop.simps [of _ _ "LF # s"])
qed

lemma csv_save_load:
  assumes "\<forall>row \<in> set rows. length row = n \<and> row \<noteq> [] \<and> row \<noteq> [[]] \<and> (\<forall>w \<in> set row. word_ok w)"
  shows "csv_load (Some (csv_save rows)) [] = (True, rows)"
proof -
  have "load_loop m c (csv_save rows) = Some (c @ rows)" if "m = -1 \<or> m = int n" for m c
    using assms that
  proof (induction rows arbitrary: m c)
    case Nil
    then show ?case by (simp add: csv_save_def load_loop.simps [of _ _ "[]"])
  next
    case (Cons row rows)
    then have "load_loop m c (csv_save (row # rows)) = load_loop (int n) (c @ [row]) (csv_save rows)"
      by (simp add: csv_save_def load_loop_row)
    with Cons show ?case by simp
  qed
  then show ?thesis by (simp add: csv_load_def)
qed

text \<open>A table that is written and read back is the same table: its rows have the same number of cells,
  at least one, none is a single empty cell, and no cell holds a comma, a line end or two quotes in a row.\<close>

theorem csv_roundtrip:
  assumes "\<forall>row \<in> set rows. length row = n \<and> row \<noteq> [] \<and> row \<noteq> [[]] \<and> (\<forall>w \<in> set row. word_ok w)"
  shows "csv_load (Some (csv_save rows)) [] = (True, rows)"
  by (rule csv_save_load [OF assms])

lemma csv_roundtrip_witness:
  "csv_load (Some (csv_save [[''Room'', [QUOTE, CHR ''5'', QUOTE]], ['''', ''a b'']])) [] =
    (True, [[''Room'', [QUOTE, CHR ''5'', QUOTE]], ['''', ''a b'']])"
  by (rule csv_roundtrip [of _ 2]) (simp add: word_ok_def)

text \<open>An access to a row that is there, at a column past its end but below the number of rows, is outside
  the row: the second test of \<open>operator()\<close> compares the column with the number of rows. Every other access
  that is not negative returns a cell.\<close>

theorem csv_at_fault_iff:
  assumes "0 \<le> row" "0 \<le> column"
  shows "csv_at row column contents = Inl OutOfBounds \<longleftrightarrow>
    row < int (length contents) \<and> int (length (contents ! nat row)) \<le> column \<and> column < int (length contents)"
proof (cases "row < int (length contents) \<and> column < int (length contents)")
  case True
  with assms show ?thesis by (auto simp: csv_at_def cell_def Let_def)
next
  case False
  let ?c = "contents @ replicate (nat (row - int (length contents) + 1)) []"
  have r: "nat row < length ?c" using assms by auto
  let ?c2 = "map (\<lambda>line. line @ replicate (nat (column - int (length line) + 1)) []) ?c"
  have "?c2 ! nat row = ?c ! nat row @ replicate (nat (column - int (length (?c ! nat row)) + 1)) []"
    using r by (simp only: nth_map)
  then have "column < int (length (?c2 ! nat row))" by simp
  moreover have "row < int (length ?c2)" using r assms by simp
  ultimately have "cell ?c2 row column \<noteq> Inl OutOfBounds" using assms by (simp only: cell_def) simp
  then have "csv_at row column contents \<noteq> Inl OutOfBounds"
    using False by (cases "cell ?c2 row column") (simp_all only: csv_at_def Let_def if_False bindr.simps, auto)
  with False show ?thesis by auto
qed

lemma csv_at_fault_iff_witness: "csv_at 1 1 [[''a''], [''b'']] = Inl OutOfBounds"
  using csv_at_fault_iff [of 1 1 "[[''a''], [''b'']]"] by simp

end
