(* ===== verification/Switch_Db.thy ===== *)
theory Switch_Db
  imports Csv_Parser
begin

text \<open>
  \<open>controller/services/aux_switch_info.cpp\<close> and \<open>controller/services/switch_db.cpp\<close>: the database of switches,
  read from a CSV file. The resolver is that of \<open>ip_address::set\<close>. An exception that nothing catches ends
  the program as \<open>abort()\<close> does.
\<close>

record aux_switch_info =
  aux_valid :: bool
  aux_room :: string
  aux_switch_name :: string
  aux_switch_type :: string
  aux_switch_location :: string
  management_ip :: ip_address
  control_plane1_ip :: ip_address
  control_plane2_ip :: ip_address
  control_plane3_ip :: ip_address
  hardware_address :: mac_address
  aux_datapath_id :: mac_address
  data_plane_ip :: ip_address

definition aux_info_clear :: aux_switch_info where
  "aux_info_clear = \<lparr>aux_valid = False, aux_room = [], aux_switch_name = [], aux_switch_type = [], aux_switch_location = [],
     management_ip = ip_nil, control_plane1_ip = ip_nil, control_plane2_ip = ip_nil, control_plane3_ip = ip_nil,
     hardware_address = mac_nil, aux_datapath_id = mac_nil, data_plane_ip = ip_nil\<rparr>"

definition aux_info_to_string :: "aux_switch_info \<Rightarrow> string" where
  "aux_info_to_string i = ''switch name   : '' @ aux_switch_name i
     @ LF # ''valid         : '' @ (if aux_valid i then ''yes'' else ''no'')
     @ LF # ''room          : '' @ aux_room i @ LF # ''switch type   : '' @ aux_switch_type i
     @ LF # ''location      : '' @ aux_switch_location i @ LF # ''management IP : '' @ ip_to_string (management_ip i)
     @ LF # ''controller1 IP: '' @ ip_to_string (control_plane1_ip i)
     @ LF # ''controller2 IP: '' @ ip_to_string (control_plane2_ip i)
     @ LF # ''controller3 IP: '' @ ip_to_string (control_plane3_ip i)
     @ LF # ''hw address    : '' @ mac_to_string (hardware_address i)
     @ LF # ''datapath ID   : '' @ mac_to_string (aux_datapath_id i)
     @ LF # ''data plane IP: '' @ ip_to_string (data_plane_ip i)"

section \<open>Loading\<close>

definition schema_columns :: "string list" where
  "schema_columns = [''Room'', ''Switch Name'', ''Switch Type'', ''Switch Location'', ''Management IP'',
     ''Control Plane OFi-1'', ''Control Plane OFi-2'', ''Control Plane OFi-3'', ''Control Plane OFi-4'',
     ''Hardware Address'', ''DP id'', ''Data Plane address'']"

fun header_ok :: "int \<Rightarrow> string list \<Rightarrow> string list list \<Rightarrow> (bool \<times> string list list) res" where
  "header_ok c [] t = Inr (True, t)"
| "header_ok c (h # hs) t =
     bindr (csv_at 2 c t) (\<lambda>(w, t'). if w \<noteq> h then Inr (False, t') else header_ok (c + 1) hs t')"

text \<open>Some cells of a row, in the order of the assignments.\<close>

fun read_cells :: "int \<Rightarrow> int list \<Rightarrow> string list list \<Rightarrow> (string list \<times> string list list) res" where
  "read_cells row [] t = Inr ([], t)"
| "read_cells row (c # cs) t =
     bindr (csv_at row c t) (\<lambda>(w, t'). bindr (read_cells row cs t') (\<lambda>(ws, t''). Inr (w # ws, t'')))"

definition aux_ip :: "(string \<Rightarrow> ip_address option) \<Rightarrow> string \<Rightarrow> ip_address" where
  "aux_ip resolver s = fst (ip_set resolver s)"

text \<open>\<open>substr(6)\<close> throws where the cell is shorter.\<close>

definition read_info :: "(string \<Rightarrow> ip_address option) \<Rightarrow> int \<Rightarrow> string list list \<Rightarrow> (aux_switch_info \<times> string list list) res" where
  "read_info resolver row t =
     bindr (read_cells row [0, 1, 2, 3, 4, 5, 6, 7, 9, 10] t) (\<lambda>(w, t').
     bindr (require (6 \<le> length (w ! 9)) Aborted) (\<lambda>_.
     bindr (csv_at row 11 t') (\<lambda>(d, t'').
       Inr (\<lparr>aux_valid = True, aux_room = w ! 0, aux_switch_name = w ! 1, aux_switch_type = w ! 2,
          aux_switch_location = w ! 3, management_ip = aux_ip resolver (w ! 4),
          control_plane1_ip = aux_ip resolver (w ! 5), control_plane2_ip = aux_ip resolver (w ! 6),
          control_plane3_ip = aux_ip resolver (w ! 7), hardware_address = mac_set (w ! 8),
          aux_datapath_id = mac_set (drop 6 (w ! 9)), data_plane_ip = aux_ip resolver d\<rparr>, t''))))"

fun read_infos :: "(string \<Rightarrow> ip_address option) \<Rightarrow> int list \<Rightarrow> string list list \<Rightarrow> (aux_switch_info list \<times> string list list) res" where
  "read_infos resolver [] t = Inr ([], t)"
| "read_infos resolver (row # rows) t =
     bindr (csv_at row 0 t) (\<lambda>(w, t').
       if w = [] then read_infos resolver rows t'
       else bindr (read_info resolver row t') (\<lambda>(i, t2). bindr (read_infos resolver rows t2) (\<lambda>(is, t3). Inr (i # is, t3))))"

text \<open>\<open>switch_db::load\<close>: the result and the entries after it. The last line prints the second entry.\<close>

definition db_load :: "(string \<Rightarrow> ip_address option) \<Rightarrow> string option \<Rightarrow> aux_switch_info list \<Rightarrow> (bool \<times> aux_switch_info list) res" where
  "db_load resolver file db =
    (case csv_load file [] of (False, _) \<Rightarrow> Inr (False, db)
     | (True, t) \<Rightarrow>
       if csv_cols t \<noteq> 12 then Inr (False, db)
       else bindr (header_ok 0 schema_columns t) (\<lambda>(ok, t1).
         if \<not> ok then Inr (False, db)
         else if csv_rows t1 \<le> 4 then Inr (False, db)
         else bindr (read_infos resolver (map int [4..<csv_rows t1]) t1) (\<lambda>(is, t2).
           bindr (require (1 < length (db @ is)) OutOfBounds) (\<lambda>_. Inr (True, db @ is)))))"

section \<open>Lookups\<close>

text \<open>The first entry that satisfies the test; \<open>ret\<close> is cleared where there is none.\<close>

definition lookup_first :: "(aux_switch_info \<Rightarrow> bool) \<Rightarrow> aux_switch_info list \<Rightarrow> bool \<times> aux_switch_info" where
  "lookup_first test db = (case filter (\<lambda>i. aux_valid i \<and> test i) db of [] \<Rightarrow> (False, aux_info_clear) | i # _ \<Rightarrow> (True, i))"

definition lookup_switch_info_by_name :: "string \<Rightarrow> aux_switch_info list \<Rightarrow> bool \<times> aux_switch_info" where
  "lookup_switch_info_by_name name = lookup_first (\<lambda>i. aux_switch_name i = name)"

definition lookup_switch_info_by_mac :: "mac_address \<Rightarrow> aux_switch_info list \<Rightarrow> bool \<times> aux_switch_info" where
  "lookup_switch_info_by_mac m = lookup_first (\<lambda>i. mac_eq (aux_datapath_id i) m)"

definition lookup_switch_info_by_management_ip :: "ip_address \<Rightarrow> aux_switch_info list \<Rightarrow> bool \<times> aux_switch_info" where
  "lookup_switch_info_by_management_ip ip = lookup_first (\<lambda>i. ip_eq (management_ip i) ip
     \<or> ip_eq (control_plane1_ip i) ip \<or> ip_eq (control_plane2_ip i) ip \<or> ip_eq (control_plane3_ip i) ip)"

text \<open>This one goes on after an entry is found: the last one counts. \<open>ret\<close> is kept where there is none.\<close>

fun lookup_switch_info_by_control_plane_ip ::
    "ip_address \<Rightarrow> aux_switch_info list \<Rightarrow> aux_switch_info \<Rightarrow> int \<Rightarrow> int \<times> aux_switch_info" where
  "lookup_switch_info_by_control_plane_ip ip [] ret result = (result, ret)"
| "lookup_switch_info_by_control_plane_ip ip (i # db) ret result =
    (if \<not> aux_valid i then lookup_switch_info_by_control_plane_ip ip db ret result
     else if ip_eq (control_plane1_ip i) ip then lookup_switch_info_by_control_plane_ip ip db i 1
     else if ip_eq (control_plane2_ip i) ip then lookup_switch_info_by_control_plane_ip ip db i 2
     else if ip_eq (control_plane3_ip i) ip then lookup_switch_info_by_control_plane_ip ip db i 3
     else lookup_switch_info_by_control_plane_ip ip db ret result)"

section \<open>When a database loads\<close>

text \<open>The cells of a table whose rows all have the same number of columns are read without a fault.\<close>

definition rectangular :: "nat \<Rightarrow> string list list \<Rightarrow> bool" where
  "rectangular n t = (\<forall>row \<in> set t. length row = n)"

lemma csv_at_inside:
  assumes "rectangular n t" "0 \<le> row" "row < int (length t)" "0 \<le> column" "column < int n"
  shows "csv_at row column t = Inr (t ! nat row ! nat column, t)"
proof -
  have len: "length (t ! nat row) = n" using assms by (simp add: rectangular_def)
  have keep: "map (\<lambda>line. line @ replicate (nat (column - int (length line) + 1)) []) t = t"
    using assms by (intro map_idI) (simp add: rectangular_def)
  have "t ! nat row @ replicate (nat (column - int (length (t ! nat row)) + 1)) [] = t ! nat row"
    using len assms(5) by simp
  then show ?thesis using assms len keep by (simp add: csv_at_def cell_def Let_def)
qed

lemma load_loop_rectangular:
  "load_loop n c s = Some t \<Longrightarrow> n = -1 \<and> c = [] \<or> 0 \<le> n \<and> rectangular (nat n) c \<Longrightarrow> \<exists>k. rectangular k t"
proof (induction n c s rule: load_loop.induct)
  case (1 n c s)
  obtain l r where lr: "read_line s = (l, r)" by (cases "read_line s")
  let ?line = "if l = [] then [] else split_words l"
  have sl: "sanitize_line ws = Some vs \<Longrightarrow> length vs = length ws" for ws vs
    by (induction ws arbitrary: vs) (auto split: option.splits)
  show ?case
  proof (cases "?line = []")
    case True
    show ?thesis
    proof (cases r)
      case None
      with 1(3) lr True 1(4) show ?thesis by (auto simp: load_loop.simps [of n c s] rectangular_def)
    next
      case (Some r')
      with 1(3) lr True have "load_loop n c r' = Some t" by (simp add: load_loop.simps [of n c s] Let_def)
      with 1(1) [OF lr [symmetric] refl True Some] 1(4) show ?thesis by blast
    qed
  next
    case line: False
    show ?thesis
    proof (cases "n \<noteq> -1 \<and> int (length ?line) \<noteq> n")
      case True
      then have "t = c" using 1(3) lr line by (simp add: load_loop.simps [of n c s] Let_def)
      with 1(4) show ?thesis by (auto simp: rectangular_def)
    next
      case False
      obtain ws where ws: "sanitize_line ?line = Some ws"
        using 1(3) lr line False by (cases "sanitize_line ?line") (simp_all add: load_loop.simps [of n c s] Let_def)
      let ?s = "case r of Some r \<Rightarrow> r | None \<Rightarrow> []"
      have "load_loop (int (length ?line)) (c @ [ws]) ?s = Some t"
        using 1(3) lr line False ws by (simp add: load_loop.simps [of n c s] Let_def)
      moreover have "rectangular (length ?line) (c @ [ws])"
        using False 1(4) sl [OF ws] by (auto simp: rectangular_def)
      ultimately show ?thesis using 1(2) [OF lr [symmetric] refl line False ws] by simp
    qed
  qed
qed

lemma load_rectangular:
  assumes "csv_load file [] = (True, t)"
  shows "rectangular (csv_cols t) t"
proof -
  obtain s where "load_loop (-1) [] s = Some t"
    using assms by (auto simp: csv_load_def split: option.splits)
  from load_loop_rectangular [OF this] obtain k where k: "rectangular k t" by auto
  show ?thesis
  proof (cases t)
    case (Cons r rs)
    with k show ?thesis by (simp add: csv_cols_def rectangular_def)
  qed (simp add: rectangular_def)
qed

lemma header_ok_eq:
  assumes "rectangular n t" "2 < length t" "i + length hs = n"
  shows "header_ok (int i) hs t = Inr (drop i (t ! 2) = hs, t)"
  using assms
proof (induction hs arbitrary: i)
  case Nil
  then have "length (t ! 2) = n" by (simp add: rectangular_def)
  with Nil show ?case by simp
next
  case (Cons h hs)
  then have len: "length (t ! 2) = n" by (simp add: rectangular_def)
  have "csv_at 2 (int i) t = Inr (t ! 2 ! i, t)" using csv_at_inside [of n t 2 "int i"] Cons.prems by simp
  moreover have "drop i (t ! 2) = t ! 2 ! i # drop (Suc i) (t ! 2)" using Cons.prems len by (simp add: Cons_nth_drop_Suc)
  moreover have "header_ok (int (Suc i)) hs t = Inr (drop (Suc i) (t ! 2) = hs, t)"
    by (rule Cons.IH) (use Cons.prems in simp_all)
  ultimately show ?case by (simp add: add.commute)
qed

lemma read_cells_eq:
  assumes "rectangular n t" "i < length t" "\<forall>c \<in> set cs. 0 \<le> c \<and> c < int n"
  shows "read_cells (int i) cs t = Inr (map (\<lambda>c. t ! i ! nat c) cs, t)"
  using assms(3) csv_at_inside [OF assms(1), of "int i"] assms(2) by (induction cs) simp_all

definition info_of :: "(string \<Rightarrow> ip_address option) \<Rightarrow> string list \<Rightarrow> aux_switch_info" where
  "info_of resolver r = \<lparr>aux_valid = True, aux_room = r ! 0, aux_switch_name = r ! 1, aux_switch_type = r ! 2,
     aux_switch_location = r ! 3, management_ip = aux_ip resolver (r ! 4),
     control_plane1_ip = aux_ip resolver (r ! 5), control_plane2_ip = aux_ip resolver (r ! 6),
     control_plane3_ip = aux_ip resolver (r ! 7), hardware_address = mac_set (r ! 9),
     aux_datapath_id = mac_set (drop 6 (r ! 10)), data_plane_ip = aux_ip resolver (r ! 11)\<rparr>"

lemma read_info_eq:
  assumes "rectangular 12 t" "i < length t"
  shows "read_info resolver (int i) t =
    (if 6 \<le> length (t ! i ! 10) then Inr (info_of resolver (t ! i), t) else Inl Aborted)"
proof -
  have "read_cells (int i) [0, 1, 2, 3, 4, 5, 6, 7, 9, 10] t =
      Inr (map (\<lambda>c. t ! i ! nat c) [0, 1, 2, 3, 4, 5, 6, 7, 9, 10], t)"
    by (rule read_cells_eq [OF assms]) simp
  moreover have "csv_at (int i) 11 t = Inr (t ! i ! 11, t)"
    using csv_at_inside [OF assms(1), of "int i" 11] assms(2) by simp
  ultimately show ?thesis by (simp add: read_info_def info_of_def require_def del: read_cells.simps)
qed

lemma read_infos_eq:
  assumes "rectangular 12 t" "\<forall>i \<in> set is. i < length t"
  defines "rows \<equiv> filter (\<lambda>r. hd r \<noteq> []) (map (\<lambda>i. t ! i) is)"
  shows "read_infos resolver (map int is) t =
    (if \<exists>r \<in> set rows. length (r ! 10) < 6 then Inl Aborted else Inr (map (info_of resolver) rows, t))"
  using assms(2) unfolding rows_def
proof (induction "is")
  case (Cons i "is")
  have "length (t ! i) = 12" using Cons.prems assms(1) by (simp add: rectangular_def)
  then have "t ! i ! 0 = hd (t ! i)" by (cases "t ! i") auto
  then have "csv_at (int i) 0 t = Inr (hd (t ! i), t)"
    using csv_at_inside [OF assms(1), of "int i" 0] Cons.prems by simp
  moreover have "i < length t" using Cons.prems by simp
  ultimately show ?case using Cons read_info_eq [OF assms(1) \<open>i < length t\<close>] by auto
qed simp

text \<open>What loading the switch database does with a table of twelve columns and more than four rows:
  it is refused unless its third row is the list of the column names; a row whose first cell is empty is
  skipped; a datapath id of less than six characters ends the controller with an uncaught exception; and a
  database with fewer than two switches is read out of bounds by the line that prints the second one.\<close>

theorem db_load_result:
  assumes "csv_load file [] = (True, t)" "csv_cols t = 12" "4 < length t"
  shows "db_load resolver file db =
    (let rows = filter (\<lambda>r. hd r \<noteq> []) (drop 4 t) in
     if t ! 2 \<noteq> schema_columns then Inr (False, db)
     else if \<exists>r \<in> set rows. length (r ! 10) < 6 then Inl Aborted
     else if length db + length rows < 2 then Inl OutOfBounds
     else Inr (True, db @ map (info_of resolver) rows))"
proof -
  have rect: "rectangular 12 t" using load_rectangular [OF assms(1)] assms(2) by simp
  have "header_ok (int 0) schema_columns t = Inr (drop 0 (t ! 2) = schema_columns, t)"
    by (rule header_ok_eq [OF rect]) (use assms(3) in \<open>simp_all add: schema_columns_def\<close>)
  then have h: "header_ok 0 schema_columns t = Inr (t ! 2 = schema_columns, t)" by simp
  have d: "map (\<lambda>i. t ! i) [4..<length t] = drop 4 t"
    by (rule nth_equalityI) (simp_all add: add.commute)
  note infos = read_infos_eq [OF rect, of "[4..<length t]" resolver, unfolded d]
  show ?thesis
  proof (cases "\<exists>r \<in> set (filter (\<lambda>r. hd r \<noteq> []) (drop 4 t)). length (r ! 10) < 6")
    case True
    with infos assms show ?thesis by (auto simp: db_load_def h csv_rows_def Let_def)
  next
    case False
    then have "read_infos resolver (map int [4..<length t]) t =
        Inr (map (info_of resolver) (filter (\<lambda>r. hd r \<noteq> []) (drop 4 t)), t)" using infos by simp
    with False assms show ?thesis by (auto simp: db_load_def h csv_rows_def Let_def require_def)
  qed
qed

definition sample_row :: "string list" where
  "sample_row = [''4134'', ''s1'', ''S4810'', ''rack'', ''10.0.0.1'', '''', '''', '''', '''', '''', ''dpid: '', ''10.1.0.1'']"

definition sample_file :: "string list list" where
  "sample_file = [replicate 12 ''x'', replicate 12 '''', schema_columns, replicate 12 '''', sample_row]"

lemma sample_file_loads: "csv_load (Some (csv_save sample_file)) [] = (True, sample_file)"
  by (rule csv_save_load [of _ 12])
    (simp add: sample_file_def sample_row_def schema_columns_def word_ok_def eval_nat_numeral)

lemma db_load_result_witness: "db_load (\<lambda>s. None) (Some (csv_save sample_file)) [] = Inl OutOfBounds"
proof -
  have l: "csv_cols sample_file = 12" "4 < length sample_file" "sample_file ! 2 = schema_columns"
    "drop 4 sample_file = [sample_row]"
    by (simp_all add: sample_file_def csv_cols_def)
  have r: "filter (\<lambda>r. hd r \<noteq> []) [sample_row] = [sample_row]" "length (sample_row ! 10) = 6"
    by (simp_all add: sample_row_def)
  show ?thesis unfolding db_load_result [OF sample_file_loads l(1,2)] by (simp add: l r Let_def)
qed

end
