(* ===== verification/Of_Action.thy ===== *)
theory Of_Action
  imports Addresses
begin

text \<open>
  \<open>controller/openflow_types/of_action.{h,cpp}\<close>: the OpenFlow 1.0 actions. A subclass of
  \<open>of_action\<close> is a constructor of the datatype with the fields of the subclass; a virtual
  function is a function by cases on the constructors, over one definition for each subclass.

  \<open>serialize(dest)\<close> makes \<open>dest\<close> a buffer of the action's size without clearing it and writes
  the fields of the struct: the argument \<open>old\<close> is what the buffer holds before, and padding
  keeps it. \<open>deserialize(content)\<close> gives the result and the object afterwards; it checks the
  length of the input against the size of a pointer (8), so the structs of 16 bytes can be
  read past the end of the input (\<open>OutOfBounds\<close>).
\<close>

section \<open>The classes\<close>

datatype action_type =
    UNKNOWN | OUTPUT_TO_PORT | ENQUEUE | SET_VLAN_ID | SET_VLAN_PCP | STRIP_VLAN | SET_DL_ADDR
  | SET_NW_ADDR | SET_IP_TOS | SET_TCPUDP_PORT | VENDOR

datatype of_action =
    Output_To_Port (send_to_controller: bool) (output_port: "16 word")
  | Enqueue (enqueue_port: "16 word") (queue_id: "32 word")
  | Set_Vlan_Id "16 word"
  | Set_Vlan_Pcp byte
  | Strip_Vlan
  | Set_Mac_Address bool mac_address
  | Set_Ip_Address bool ip_address
  | Set_Ip_Tos byte
  | Set_Tcpudp_Port bool "16 word"
  | Vendor "32 word" "byte list"

fun get_action_type :: "of_action \<Rightarrow> action_type" where
  "get_action_type (Output_To_Port c p) = OUTPUT_TO_PORT"
| "get_action_type (Enqueue p q) = ENQUEUE"
| "get_action_type (Set_Vlan_Id v) = SET_VLAN_ID"
| "get_action_type (Set_Vlan_Pcp v) = SET_VLAN_PCP"
| "get_action_type Strip_Vlan = STRIP_VLAN"
| "get_action_type (Set_Mac_Address s a) = SET_DL_ADDR"
| "get_action_type (Set_Ip_Address s a) = SET_NW_ADDR"
| "get_action_type (Set_Ip_Tos t) = SET_IP_TOS"
| "get_action_type (Set_Tcpudp_Port s p) = SET_TCPUDP_PORT"
| "get_action_type (Vendor v r) = VENDOR"

text \<open>The codes of \<open>enum ofp_action_type\<close> and the port number of the controller.\<close>

definition OFPAT_OUTPUT :: "16 word" where "OFPAT_OUTPUT = 0"
definition OFPAT_SET_VLAN_VID :: "16 word" where "OFPAT_SET_VLAN_VID = 1"
definition OFPAT_SET_VLAN_PCP :: "16 word" where "OFPAT_SET_VLAN_PCP = 2"
definition OFPAT_STRIP_VLAN :: "16 word" where "OFPAT_STRIP_VLAN = 3"
definition OFPAT_SET_DL_SRC :: "16 word" where "OFPAT_SET_DL_SRC = 4"
definition OFPAT_SET_DL_DST :: "16 word" where "OFPAT_SET_DL_DST = 5"
definition OFPAT_SET_NW_SRC :: "16 word" where "OFPAT_SET_NW_SRC = 6"
definition OFPAT_SET_NW_DST :: "16 word" where "OFPAT_SET_NW_DST = 7"
definition OFPAT_SET_NW_TOS :: "16 word" where "OFPAT_SET_NW_TOS = 8"
definition OFPAT_SET_TP_SRC :: "16 word" where "OFPAT_SET_TP_SRC = 9"
definition OFPAT_SET_TP_DST :: "16 word" where "OFPAT_SET_TP_DST = 10"
definition OFPAT_ENQUEUE :: "16 word" where "OFPAT_ENQUEUE = 11"
definition OFPAT_VENDOR :: "16 word" where "OFPAT_VENDOR = 0xffff"
definition OFPP_CONTROLLER :: "16 word" where "OFPP_CONTROLLER = 0xfffd"

lemmas ofpat_defs =
  OFPAT_OUTPUT_def OFPAT_SET_VLAN_VID_def OFPAT_SET_VLAN_PCP_def OFPAT_STRIP_VLAN_def OFPAT_SET_DL_SRC_def
  OFPAT_SET_DL_DST_def OFPAT_SET_NW_SRC_def OFPAT_SET_NW_DST_def OFPAT_SET_NW_TOS_def OFPAT_SET_TP_SRC_def
  OFPAT_SET_TP_DST_def OFPAT_ENQUEUE_def OFPAT_VENDOR_def

definition infer_type :: "byte list \<Rightarrow> action_type" where
  "infer_type content =
    (if length content < 8 then UNKNOWN else
     let raw_type = of_be16 (chunk 0 2 content) in
     if raw_type = OFPAT_OUTPUT then OUTPUT_TO_PORT
     else if raw_type = OFPAT_ENQUEUE then ENQUEUE
     else if raw_type = OFPAT_SET_VLAN_VID then SET_VLAN_ID
     else if raw_type = OFPAT_SET_VLAN_PCP then SET_VLAN_PCP
     else if raw_type = OFPAT_STRIP_VLAN then STRIP_VLAN
     else if raw_type = OFPAT_SET_DL_SRC \<or> raw_type = OFPAT_SET_DL_DST then SET_DL_ADDR
     else if raw_type = OFPAT_SET_NW_SRC \<or> raw_type = OFPAT_SET_NW_DST then SET_NW_ADDR
     else if raw_type = OFPAT_SET_NW_TOS then SET_IP_TOS
     else if raw_type = OFPAT_SET_TP_SRC \<or> raw_type = OFPAT_SET_TP_DST then SET_TCPUDP_PORT
     else if raw_type = OFPAT_VENDOR then VENDOR
     else UNKNOWN)"

text \<open>\<open>%d\<close> of a value held in an \<open>int\<close>.\<close>

definition sdec :: "int \<Rightarrow> string" where
  "sdec i = (if i < 0 then CHR ''-'' # dec (nat (- i)) else dec (nat i))"

text \<open>The header of the structs, and the check that starts every \<open>deserialize\<close>.\<close>

definition action_header :: "16 word \<Rightarrow> 16 word \<Rightarrow> byte list" where
  "action_header t len = be16 t @ be16 len"

definition hdr_type :: "byte list \<Rightarrow> 16 word" where
  "hdr_type content = of_be16 (chunk 0 2 content)"

definition hdr_len :: "byte list \<Rightarrow> 16 word" where
  "hdr_len content = of_be16 (chunk 2 2 content)"

section \<open>Output to a port\<close>

definition output_clear :: of_action where
  "output_clear = Output_To_Port False 0"

definition output_eq :: "bool \<Rightarrow> 16 word \<Rightarrow> bool \<Rightarrow> 16 word \<Rightarrow> bool" where
  "output_eq c p other_c other_p = (c = other_c \<and> p = other_p)"

definition output_to_string :: "bool \<Rightarrow> 16 word \<Rightarrow> string" where
  "output_to_string c p = ''out_port='' @ (if c then ''controller'' else dec (unat p))"

definition output_serialize :: "byte list \<Rightarrow> bool \<Rightarrow> 16 word \<Rightarrow> byte list" where
  "output_serialize old c p =
     action_header OFPAT_OUTPUT 8 @ be16 (if c then OFPP_CONTROLLER else p) @ be16 65535"

definition output_deserialize :: "byte list \<Rightarrow> (bool \<times> of_action) res" where
  "output_deserialize content =
    (if length content < 8 then Inr (False, output_clear)
     else if hdr_type content \<noteq> OFPAT_OUTPUT \<or> hdr_len content \<noteq> 8 then Inr (False, output_clear)
     else let port = of_be16 (chunk 4 2 content)
          in Inr (True, Output_To_Port (port = OFPP_CONTROLLER) port))"

section \<open>Enqueue\<close>

definition enqueue_clear :: of_action where
  "enqueue_clear = Enqueue 0 0"

definition enqueue_eq :: "16 word \<Rightarrow> 32 word \<Rightarrow> 16 word \<Rightarrow> 32 word \<Rightarrow> bool" where
  "enqueue_eq p q other_p other_q = (p = other_p \<and> q = other_q)"

definition enqueue_to_string :: "16 word \<Rightarrow> 32 word \<Rightarrow> string" where
  "enqueue_to_string p q = ''enqueue to '' @ dec (unat p) @ '' queue id: '' @ sdec (sint q)"

definition enqueue_serialize :: "byte list \<Rightarrow> 16 word \<Rightarrow> 32 word \<Rightarrow> byte list" where
  "enqueue_serialize old p q =
     action_header OFPAT_ENQUEUE 16 @ be16 p @ chunk 6 6 old @ be32 q"

definition enqueue_deserialize :: "byte list \<Rightarrow> (bool \<times> of_action) res" where
  "enqueue_deserialize content =
    (if length content < 8 then Inr (False, enqueue_clear)
     else if hdr_type content \<noteq> OFPAT_ENQUEUE \<or> hdr_len content \<noteq> 16 then Inr (False, enqueue_clear)
     else bindr (fetch 12 4 content) (\<lambda>q.
       Inr (True, Enqueue (of_be16 (chunk 4 2 content)) (of_be32 q))))"

section \<open>Set the VLAN id and priority, strip the VLAN header\<close>

definition vlan_id_clear :: of_action where
  "vlan_id_clear = Set_Vlan_Id 0"

definition vlan_id_eq :: "16 word \<Rightarrow> 16 word \<Rightarrow> bool" where
  "vlan_id_eq v other = (v = other)"

definition vlan_id_to_string :: "16 word \<Rightarrow> string" where
  "vlan_id_to_string v = ''set vlan id='' @ dec (unat v)"

definition vlan_id_serialize :: "byte list \<Rightarrow> 16 word \<Rightarrow> byte list" where
  "vlan_id_serialize old v = action_header OFPAT_SET_VLAN_VID 8 @ be16 v @ chunk 6 2 old"

definition vlan_id_deserialize :: "byte list \<Rightarrow> (bool \<times> of_action) res" where
  "vlan_id_deserialize content =
    (if length content < 8 then Inr (False, vlan_id_clear)
     else if hdr_type content \<noteq> OFPAT_SET_VLAN_VID \<or> hdr_len content \<noteq> 8 then Inr (False, vlan_id_clear)
     else Inr (True, Set_Vlan_Id (of_be16 (chunk 4 2 content))))"

definition vlan_pcp_clear :: of_action where
  "vlan_pcp_clear = Set_Vlan_Pcp 0"

definition vlan_pcp_eq :: "byte \<Rightarrow> byte \<Rightarrow> bool" where
  "vlan_pcp_eq v other = (v = other)"

definition vlan_pcp_to_string :: "byte \<Rightarrow> string" where
  "vlan_pcp_to_string v = ''set vlan pcp='' @ dec (unat v)"

definition vlan_pcp_serialize :: "byte list \<Rightarrow> byte \<Rightarrow> byte list" where
  "vlan_pcp_serialize old v = action_header OFPAT_SET_VLAN_PCP 8 @ [v] @ chunk 5 3 old"

definition vlan_pcp_deserialize :: "byte list \<Rightarrow> (bool \<times> of_action) res" where
  "vlan_pcp_deserialize content =
    (if length content < 8 then Inr (False, vlan_pcp_clear)
     else if hdr_type content \<noteq> OFPAT_SET_VLAN_PCP \<or> hdr_len content \<noteq> 8 then Inr (False, vlan_pcp_clear)
     else Inr (True, Set_Vlan_Pcp (content ! 4)))"

definition strip_vlan_clear :: of_action where
  "strip_vlan_clear = Strip_Vlan"

definition strip_vlan_to_string :: string where
  "strip_vlan_to_string = ''strip vlan header''"

definition strip_vlan_serialize :: "byte list \<Rightarrow> byte list" where
  "strip_vlan_serialize old = action_header OFPAT_STRIP_VLAN 8 @ chunk 4 4 old"

definition strip_vlan_deserialize :: "byte list \<Rightarrow> (bool \<times> of_action) res" where
  "strip_vlan_deserialize content =
    (if length content < 8 then Inr (False, strip_vlan_clear)
     else if hdr_type content \<noteq> OFPAT_STRIP_VLAN \<or> hdr_len content \<noteq> 8 then Inr (False, strip_vlan_clear)
     else Inr (True, Strip_Vlan))"

section \<open>Set an address\<close>

definition mac_action_clear :: of_action where
  "mac_action_clear = Set_Mac_Address True mac_nil"

definition mac_action_eq :: "bool \<Rightarrow> mac_address \<Rightarrow> bool \<Rightarrow> mac_address \<Rightarrow> bool" where
  "mac_action_eq s a other_s other_a = (s = other_s \<and> mac_eq a other_a)"

definition mac_action_to_string :: "bool \<Rightarrow> mac_address \<Rightarrow> string" where
  "mac_action_to_string s a = (if s then ''set dl_src='' else ''set dl_dest='') @ mac_to_string a"

definition mac_action_serialize :: "byte list \<Rightarrow> bool \<Rightarrow> mac_address \<Rightarrow> byte list" where
  "mac_action_serialize old s a =
     action_header (if s then OFPAT_SET_DL_SRC else OFPAT_SET_DL_DST) 16 @ mac_octets a @ chunk 10 6 old"

definition mac_action_deserialize :: "byte list \<Rightarrow> (bool \<times> of_action) res" where
  "mac_action_deserialize content =
    (if length content < 8 then Inr (False, mac_action_clear)
     else if (hdr_type content \<noteq> OFPAT_SET_DL_SRC \<and> hdr_type content \<noteq> OFPAT_SET_DL_DST)
        \<or> hdr_len content \<noteq> 16 then Inr (False, mac_action_clear)
     else bindr (fetch 4 6 content) (\<lambda>a.
       Inr (True, Set_Mac_Address (hdr_type content = OFPAT_SET_DL_SRC) (mac_from_bytes a))))"

definition ip_action_clear :: of_action where
  "ip_action_clear = Set_Ip_Address True ip_nil"

definition ip_action_eq :: "bool \<Rightarrow> ip_address \<Rightarrow> bool \<Rightarrow> ip_address \<Rightarrow> bool" where
  "ip_action_eq s a other_s other_a = (s = other_s \<and> ip_eq a other_a)"

definition ip_action_to_string :: "bool \<Rightarrow> ip_address \<Rightarrow> string" where
  "ip_action_to_string s a = (if s then ''set nw_src='' else ''set nw_dest='') @ ip_to_string a"

definition ip_action_serialize :: "byte list \<Rightarrow> bool \<Rightarrow> ip_address \<Rightarrow> byte list" where
  "ip_action_serialize old s a =
     action_header (if s then OFPAT_SET_NW_SRC else OFPAT_SET_NW_DST) 8 @ ip_octets a"

text \<open>
  The test of the type is \<open>hdr_type != (SRC && hdr_type != DST)\<close>: the type is compared with
  a truth value. The address is byte-swapped (\<open>ntohl\<close>) and then read as a byte buffer.
\<close>

definition truth16 :: "bool \<Rightarrow> 16 word" where
  "truth16 b = (if b then 1 else 0)"

definition ip_action_deserialize :: "byte list \<Rightarrow> (bool \<times> of_action) res" where
  "ip_action_deserialize content =
    (if length content < 8 then Inr (False, ip_action_clear)
     else if hdr_type content \<noteq> truth16 (OFPAT_SET_NW_SRC \<noteq> 0 \<and> hdr_type content \<noteq> OFPAT_SET_NW_DST)
        \<or> hdr_len content \<noteq> 8 then Inr (False, ip_action_clear)
     else Inr (True, Set_Ip_Address (hdr_type content = OFPAT_SET_NW_SRC)
            (ip_from_bytes (rev (chunk 4 4 content)))))"

section \<open>Set the type of service and a transport port\<close>

definition tos_clear :: of_action where
  "tos_clear = Set_Ip_Tos 0"

definition tos_eq :: "byte \<Rightarrow> byte \<Rightarrow> bool" where
  "tos_eq t other = (t = other)"

definition tos_to_string :: "byte \<Rightarrow> string" where
  "tos_to_string t = ''set IP TOS='' @ dec (unat t)"

definition tos_serialize :: "byte list \<Rightarrow> byte \<Rightarrow> byte list" where
  "tos_serialize old t = action_header OFPAT_SET_NW_TOS 8 @ [t] @ chunk 5 3 old"

definition tos_deserialize :: "byte list \<Rightarrow> (bool \<times> of_action) res" where
  "tos_deserialize content =
    (if length content < 8 then Inr (False, tos_clear)
     else if hdr_type content \<noteq> OFPAT_SET_NW_TOS \<or> hdr_len content \<noteq> 8 then Inr (False, tos_clear)
     else Inr (True, Set_Ip_Tos (content ! 4)))"

definition tcpudp_clear :: of_action where
  "tcpudp_clear = Set_Tcpudp_Port True 0"

definition tcpudp_eq :: "bool \<Rightarrow> 16 word \<Rightarrow> bool \<Rightarrow> 16 word \<Rightarrow> bool" where
  "tcpudp_eq s p other_s other_p = (s = other_s \<and> p = other_p)"

definition tcpudp_to_string :: "bool \<Rightarrow> 16 word \<Rightarrow> string" where
  "tcpudp_to_string s p = (if s then ''set nw_src_port='' else ''set nw_dest_port='') @ dec (unat p)"

definition tcpudp_serialize :: "byte list \<Rightarrow> bool \<Rightarrow> 16 word \<Rightarrow> byte list" where
  "tcpudp_serialize old s p =
     action_header (if s then OFPAT_SET_TP_SRC else OFPAT_SET_TP_DST) 8 @ be16 p @ chunk 6 2 old"

definition tcpudp_deserialize :: "byte list \<Rightarrow> (bool \<times> of_action) res" where
  "tcpudp_deserialize content =
    (if length content < 8 then Inr (False, tcpudp_clear)
     else if hdr_type content \<noteq> truth16 (OFPAT_SET_TP_SRC \<noteq> 0 \<and> hdr_type content \<noteq> OFPAT_SET_TP_DST)
        \<or> hdr_len content \<noteq> 8 then Inr (False, tcpudp_clear)
     else Inr (True, Set_Tcpudp_Port (hdr_type content = OFPAT_SET_TP_SRC) (of_be16 (chunk 4 2 content))))"

section \<open>Vendor actions\<close>

definition vendor_clear :: of_action where
  "vendor_clear = Vendor 0 []"

definition vendor_eq :: "32 word \<Rightarrow> byte list \<Rightarrow> 32 word \<Rightarrow> byte list \<Rightarrow> bool" where
  "vendor_eq v r other_v other_r = False"

definition vendor_to_string :: "32 word \<Rightarrow> string" where
  "vendor_to_string v = ''vendor opcode='' @ dec (unat v)"

definition vendor_serialize :: "byte list res" where
  "vendor_serialize = Inl Aborted"

definition vendor_deserialize :: "byte list \<Rightarrow> (bool \<times> of_action) res" where
  "vendor_deserialize content = Inl Aborted"

section \<open>The base class\<close>

text \<open>\<open>operator==\<close> of the base class: no object has the type \<open>UNKNOWN\<close>.\<close>

definition action_eq :: "of_action \<Rightarrow> of_action \<Rightarrow> bool" where
  "action_eq this other =
    (case this of
       Output_To_Port c p \<Rightarrow> (case other of Output_To_Port c' p' \<Rightarrow> output_eq c p c' p' | _ \<Rightarrow> False)
     | Enqueue p q \<Rightarrow> (case other of Enqueue p' q' \<Rightarrow> enqueue_eq p q p' q' | _ \<Rightarrow> False)
     | Set_Vlan_Id v \<Rightarrow> (case other of Set_Vlan_Id v' \<Rightarrow> vlan_id_eq v v' | _ \<Rightarrow> False)
     | Set_Vlan_Pcp v \<Rightarrow> (case other of Set_Vlan_Pcp v' \<Rightarrow> vlan_pcp_eq v v' | _ \<Rightarrow> False)
     | Strip_Vlan \<Rightarrow> (case other of Strip_Vlan \<Rightarrow> True | _ \<Rightarrow> False)
     | Set_Mac_Address s a \<Rightarrow> (case other of Set_Mac_Address s' a' \<Rightarrow> mac_action_eq s a s' a' | _ \<Rightarrow> False)
     | Set_Ip_Address s a \<Rightarrow> (case other of Set_Ip_Address s' a' \<Rightarrow> ip_action_eq s a s' a' | _ \<Rightarrow> False)
     | Set_Ip_Tos t \<Rightarrow> (case other of Set_Ip_Tos t' \<Rightarrow> tos_eq t t' | _ \<Rightarrow> False)
     | Set_Tcpudp_Port s p \<Rightarrow> (case other of Set_Tcpudp_Port s' p' \<Rightarrow> tcpudp_eq s p s' p' | _ \<Rightarrow> False)
     | Vendor v r \<Rightarrow> (case other of Vendor v' r' \<Rightarrow> vendor_eq v r v' r' | _ \<Rightarrow> False))"

text \<open>\<open>clone\<close> copies the object.\<close>

definition action_clone :: "of_action \<Rightarrow> of_action" where
  "action_clone a = a"

fun action_to_string :: "of_action \<Rightarrow> string" where
  "action_to_string (Output_To_Port c p) = output_to_string c p"
| "action_to_string (Enqueue p q) = enqueue_to_string p q"
| "action_to_string (Set_Vlan_Id v) = vlan_id_to_string v"
| "action_to_string (Set_Vlan_Pcp v) = vlan_pcp_to_string v"
| "action_to_string Strip_Vlan = strip_vlan_to_string"
| "action_to_string (Set_Mac_Address s a) = mac_action_to_string s a"
| "action_to_string (Set_Ip_Address s a) = ip_action_to_string s a"
| "action_to_string (Set_Ip_Tos t) = tos_to_string t"
| "action_to_string (Set_Tcpudp_Port s p) = tcpudp_to_string s p"
| "action_to_string (Vendor v r) = vendor_to_string v"

text \<open>\<open>get_deserialization_size\<close>.\<close>

fun action_size :: "of_action \<Rightarrow> nat" where
  "action_size (Enqueue p q) = 16"
| "action_size (Set_Mac_Address s a) = 16"
| "action_size (Vendor v r) = 8 + length r"
| "action_size _ = 8"

fun action_serialize :: "byte list \<Rightarrow> of_action \<Rightarrow> byte list res" where
  "action_serialize old (Output_To_Port c p) = Inr (output_serialize old c p)"
| "action_serialize old (Enqueue p q) = Inr (enqueue_serialize old p q)"
| "action_serialize old (Set_Vlan_Id v) = Inr (vlan_id_serialize old v)"
| "action_serialize old (Set_Vlan_Pcp v) = Inr (vlan_pcp_serialize old v)"
| "action_serialize old Strip_Vlan = Inr (strip_vlan_serialize old)"
| "action_serialize old (Set_Mac_Address s a) = Inr (mac_action_serialize old s a)"
| "action_serialize old (Set_Ip_Address s a) = Inr (ip_action_serialize old s a)"
| "action_serialize old (Set_Ip_Tos t) = Inr (tos_serialize old t)"
| "action_serialize old (Set_Tcpudp_Port s p) = Inr (tcpudp_serialize old s p)"
| "action_serialize old (Vendor v r) = vendor_serialize"

text \<open>\<open>deserialize\<close> of a fresh object of the class that \<open>infer_type\<close> names; nothing is made for
  \<open>UNKNOWN\<close>.\<close>

fun deserialize_as :: "action_type \<Rightarrow> byte list \<Rightarrow> (bool \<times> of_action) res option" where
  "deserialize_as OUTPUT_TO_PORT content = Some (output_deserialize content)"
| "deserialize_as ENQUEUE content = Some (enqueue_deserialize content)"
| "deserialize_as SET_VLAN_ID content = Some (vlan_id_deserialize content)"
| "deserialize_as SET_VLAN_PCP content = Some (vlan_pcp_deserialize content)"
| "deserialize_as STRIP_VLAN content = Some (strip_vlan_deserialize content)"
| "deserialize_as SET_DL_ADDR content = Some (mac_action_deserialize content)"
| "deserialize_as SET_NW_ADDR content = Some (ip_action_deserialize content)"
| "deserialize_as SET_IP_TOS content = Some (tos_deserialize content)"
| "deserialize_as SET_TCPUDP_PORT content = Some (tcpudp_deserialize content)"
| "deserialize_as VENDOR content = Some (vendor_deserialize content)"
| "deserialize_as UNKNOWN content = None"

lemmas action_class_defs =
  output_clear_def output_eq_def output_serialize_def output_deserialize_def
  enqueue_clear_def enqueue_eq_def enqueue_serialize_def enqueue_deserialize_def
  vlan_id_clear_def vlan_id_eq_def vlan_id_serialize_def vlan_id_deserialize_def
  vlan_pcp_clear_def vlan_pcp_eq_def vlan_pcp_serialize_def vlan_pcp_deserialize_def
  strip_vlan_clear_def strip_vlan_serialize_def strip_vlan_deserialize_def
  mac_action_clear_def mac_action_eq_def mac_action_serialize_def mac_action_deserialize_def
  ip_action_clear_def ip_action_eq_def ip_action_serialize_def ip_action_deserialize_def
  tos_clear_def tos_eq_def tos_serialize_def tos_deserialize_def
  tcpudp_clear_def tcpudp_eq_def tcpudp_serialize_def tcpudp_deserialize_def
  vendor_eq_def vendor_serialize_def vendor_deserialize_def

section \<open>Laws\<close>

lemma action_eq_iff: "action_eq a b \<longleftrightarrow> a = b \<and> get_action_type a \<noteq> VENDOR"
  by (cases a; cases b) (simp_all add: action_eq_def action_class_defs)

lemma action_size_pos [simp]: "8 \<le> action_size a"
  by (cases a) simp_all

lemma action_size_not_less [simp]: "\<not> action_size a + n < 8"
  using action_size_pos [of a] by (simp add: not_less trans_le_add1)

lemma length_be16_header [simp]: "length (action_header t n) = 4"
  by (simp add: action_header_def)

lemma chunk_header [simp]: "hdr_type (action_header t n @ r) = t" "hdr_len (action_header t n @ r) = n"
  by (simp_all add: hdr_type_def hdr_len_def action_header_def field_simps_rules)

lemma chunk_after_header:
  "4 \<le> off \<Longrightarrow> chunk off n (action_header t k @ r) = chunk (off - 4) n r"
  by (simp add: chunk_append_right)

lemma nth_after_header: "(action_header t k @ x # r) ! 4 = x"
  by (simp add: nth_append)

lemma length_action_serialize:
  assumes "action_serialize old a = Inr bs" "length old = action_size a"
  shows "length bs = action_size a"
  using assms by (cases a) (auto simp: action_class_defs)

text \<open>What reading back a written action gives.\<close>

fun reread :: "of_action \<Rightarrow> bool \<times> of_action" where
  "reread (Output_To_Port c p) =
     (let port = (if c then OFPP_CONTROLLER else p) in (True, Output_To_Port (port = OFPP_CONTROLLER) port))"
| "reread (Set_Ip_Address s a) = (False, ip_action_clear)"
| "reread (Set_Tcpudp_Port s p) = (False, tcpudp_clear)"
| "reread a = (True, a)"

lemma infer_type_serialize:
  assumes "action_serialize old a = Inr bs" "length old = action_size a"
  shows "infer_type (bs @ rest) = get_action_type a"
proof -
  have "\<not> length (bs @ rest) < 8" using length_action_serialize [OF assms] by simp
  moreover have "chunk 0 2 (action_header t n @ r) = be16 t" for t n r
    by (simp add: action_header_def field_simps_rules)
  ultimately show ?thesis
    using assms(1) by (cases a) (auto simp: infer_type_def action_class_defs ofpat_defs)
qed

lemma deserialize_serialize:
  assumes "action_serialize old a = Inr bs" "length old = action_size a"
  shows "deserialize_as (get_action_type a) (bs @ rest) = Some (Inr (reread a))"
proof -
  have "\<not> length (bs @ rest) < 8" using length_action_serialize [OF assms] by simp
  with assms show ?thesis
    by (cases a) (auto simp: action_class_defs chunk_after_header nth_after_header Let_def truth16_def
        field_simps_rules ofpat_defs split: if_splits)
qed

text \<open>
  C33. An action written to the wire and read back, by the class its type code selects, is the
  same action exactly when it is not an address or port rewrite above layer 2, and, for an
  output action, the controller flag agrees with the port number; whatever the padding and
  the bytes after it. (Vendor actions abort before anything is written.)
\<close>

theorem action_roundtrip_iff:
  assumes "action_serialize old a = Inr bs" "length old = action_size a"
  shows "deserialize_as (infer_type (bs @ rest)) (bs @ rest) = Some (Inr (True, a))
    \<longleftrightarrow> get_action_type a \<noteq> SET_NW_ADDR \<and> get_action_type a \<noteq> SET_TCPUDP_PORT
      \<and> (get_action_type a = OUTPUT_TO_PORT \<longrightarrow> send_to_controller a = (output_port a = OFPP_CONTROLLER))"
proof -
  have "reread a = (True, a) \<longleftrightarrow> get_action_type a \<noteq> SET_NW_ADDR \<and> get_action_type a \<noteq> SET_TCPUDP_PORT
      \<and> (get_action_type a = OUTPUT_TO_PORT \<longrightarrow> send_to_controller a = (output_port a = OFPP_CONTROLLER))"
    by (cases a) (auto simp: Let_def)
  then show ?thesis
    by (simp add: infer_type_serialize [OF assms] deserialize_serialize [OF assms])
qed

theorem action_roundtrip_iff_witness:
  "\<exists>bs. action_serialize [0, 0, 0, 0, 0, 0, 0, 0] (Output_To_Port False 7) = Inr bs
    \<and> deserialize_as (infer_type (bs @ [1, 2])) (bs @ [1, 2]) = Some (Inr (True, Output_To_Port False 7))"
  using action_roundtrip_iff [of "[0, 0, 0, 0, 0, 0, 0, 0]" "Output_To_Port False 7" _ "[1, 2]"]
  by (simp add: OFPP_CONTROLLER_def)

text \<open>
  An input that is dispatched to \<open>set_ip_address\<close> or \<open>set_tcpudp_port\<close> is always
  rejected by \<open>deserialize\<close> of that class, whatever its bytes are: the address and port
  rewrites of OpenFlow cannot be read at all.
\<close>

theorem nw_tp_always_rejected:
  assumes "infer_type c = SET_NW_ADDR \<or> infer_type c = SET_TCPUDP_PORT"
  shows "\<exists>a. deserialize_as (infer_type c) c = Some (Inr (False, a)) \<and> (a = ip_action_clear \<or> a = tcpudp_clear)"
proof -
  have "\<not> length c < 8" using assms by (auto simp: infer_type_def)
  then have "hdr_type c \<in> {6, 7} \<and> infer_type c = SET_NW_ADDR \<or> hdr_type c \<in> {9, 10} \<and> infer_type c = SET_TCPUDP_PORT"
    using assms unfolding infer_type_def hdr_type_def Let_def by (auto simp: ofpat_defs split: if_splits)
  then show ?thesis
    by (auto simp: ip_action_deserialize_def tcpudp_deserialize_def truth16_def ofpat_defs)
qed

theorem nw_tp_always_rejected_witness:
  "infer_type [0, 6, 0, 8, 10, 0, 0, 1] = SET_NW_ADDR
   \<and> (\<exists>a. deserialize_as (infer_type [0, 6, 0, 8, 10, 0, 0, 1]) [0, 6, 0, 8, 10, 0, 0, 1] = Some (Inr (False, a))
        \<and> (a = ip_action_clear \<or> a = tcpudp_clear))"
proof -
  have "infer_type [0, 6, 0, 8, 10, 0, 0, 1] = SET_NW_ADDR"
    by (simp add: infer_type_def chunk_def of_be16_def of_bytes_def ofpat_defs)
  then show ?thesis using nw_tp_always_rejected [of "[0, 6, 0, 8, 10, 0, 0, 1]"] by blast
qed

end
