(* ===== verification/Of_Match.thy ===== *)
theory Of_Match
  imports Addresses
begin

text \<open>
  \<open>controller/openflow_types/of_match.{h,cpp}\<close>: the OpenFlow 1.0 match criteria: the
  comparison operators, the text syntax, and the 40-byte \<open>struct ofp_match\<close>. The reference
  the operators are compared with is \<open>criteria_match\<close>, the set of packets that the criteria
  select according to the comments of \<open>common/openflow.h\<close>.
\<close>

section \<open>The criteria\<close>

record of_match =
  wildcard_in_port :: bool
  wildcard_ethernet_src :: bool
  wildcard_ethernet_dest :: bool
  wildcard_vlan_id :: bool
  wildcard_vlan_pcp :: bool
  wildcard_ethernet_frame_type :: bool
  wildcard_ip_type_of_service :: bool
  wildcard_ip_protocol :: bool
  wildcard_ip_src_lsb_count :: byte
  wildcard_ip_dest_lsb_count :: byte
  wildcard_tcpudp_src_port :: bool
  wildcard_tcpudp_dest_port :: bool
  in_port :: "16 word"
  ethernet_src :: mac_address
  ethernet_dest :: mac_address
  vlan_id :: "16 word"
  vlan_pcp :: byte
  ethernet_frame_type :: "16 word"
  ip_type_of_service :: byte
  ip_protocol :: byte
  ip_src_address :: ip_address
  ip_dest_address :: ip_address
  tcpudp_src_port :: "16 word"
  tcpudp_dest_port :: "16 word"

definition of_match_wildcard_all :: "of_match \<Rightarrow> of_match" where
  "of_match_wildcard_all m = m\<lparr>
     wildcard_in_port := True, wildcard_ethernet_src := True, wildcard_ethernet_dest := True,
     wildcard_vlan_id := True, wildcard_vlan_pcp := True, wildcard_ethernet_frame_type := True,
     wildcard_ip_type_of_service := True, wildcard_ip_protocol := True,
     wildcard_ip_src_lsb_count := 32, wildcard_ip_dest_lsb_count := 32,
     wildcard_tcpudp_src_port := True, wildcard_tcpudp_dest_port := True\<rparr>"

definition of_match_wildcard_none :: "of_match \<Rightarrow> of_match" where
  "of_match_wildcard_none m = m\<lparr>
     wildcard_in_port := False, wildcard_ethernet_src := False, wildcard_ethernet_dest := False,
     wildcard_vlan_id := False, wildcard_vlan_pcp := False, wildcard_ethernet_frame_type := False,
     wildcard_ip_type_of_service := False, wildcard_ip_protocol := False,
     wildcard_ip_src_lsb_count := 0, wildcard_ip_dest_lsb_count := 0,
     wildcard_tcpudp_src_port := False, wildcard_tcpudp_dest_port := False\<rparr>"

text \<open>\<open>clear()\<close> sets every field, so its result does not depend on the object; the
  default constructor is \<open>clear()\<close>.\<close>

definition of_match_clear :: of_match where
  "of_match_clear = \<lparr>
     wildcard_in_port = False, wildcard_ethernet_src = False, wildcard_ethernet_dest = False,
     wildcard_vlan_id = False, wildcard_vlan_pcp = False, wildcard_ethernet_frame_type = False,
     wildcard_ip_type_of_service = False, wildcard_ip_protocol = False,
     wildcard_ip_src_lsb_count = 0, wildcard_ip_dest_lsb_count = 0,
     wildcard_tcpudp_src_port = False, wildcard_tcpudp_dest_port = False,
     in_port = 0, ethernet_src = mac_nil, ethernet_dest = mac_nil, vlan_id = 0, vlan_pcp = 0,
     ethernet_frame_type = 0, ip_type_of_service = 0, ip_protocol = 0,
     ip_src_address = ip_nil, ip_dest_address = ip_nil, tcpudp_src_port = 0, tcpudp_dest_port = 0\<rparr>"

section \<open>The operators\<close>

text \<open>\<open>operator==\<close>: each test that fails returns false.\<close>

definition of_match_eq :: "of_match \<Rightarrow> of_match \<Rightarrow> bool" where
  "of_match_eq m other =
    (if wildcard_in_port m \<noteq> wildcard_in_port other
        \<or> (\<not> wildcard_in_port m \<and> in_port m \<noteq> in_port other) then False
     else if wildcard_ethernet_src m \<noteq> wildcard_ethernet_src other
        \<or> (\<not> wildcard_ethernet_src m \<and> ethernet_src m \<noteq> ethernet_src other) then False
     else if wildcard_ethernet_dest m \<noteq> wildcard_ethernet_dest other
        \<or> (\<not> wildcard_ethernet_dest m \<and> ethernet_dest m \<noteq> ethernet_dest other) then False
     else if wildcard_vlan_id m \<noteq> wildcard_vlan_id other
        \<or> (\<not> wildcard_vlan_id m \<and> vlan_id m \<noteq> vlan_id other) then False
     else if wildcard_vlan_pcp m \<noteq> wildcard_vlan_pcp other
        \<or> (\<not> wildcard_vlan_pcp m \<and> vlan_pcp m \<noteq> vlan_pcp other) then False
     else if wildcard_ethernet_frame_type m \<noteq> wildcard_ethernet_frame_type other
        \<or> (\<not> wildcard_ethernet_frame_type m \<and> ethernet_frame_type m \<noteq> ethernet_frame_type other) then False
     else if wildcard_ip_type_of_service m \<noteq> wildcard_ip_type_of_service other
        \<or> (\<not> wildcard_ip_type_of_service m \<and> ip_type_of_service m \<noteq> ip_type_of_service other) then False
     else if wildcard_ip_protocol m \<noteq> wildcard_ip_protocol other
        \<or> (\<not> wildcard_ip_protocol m \<and> ip_protocol m \<noteq> ip_protocol other) then False
     else if wildcard_ip_src_lsb_count m \<noteq> wildcard_ip_src_lsb_count other
        \<or> (wildcard_ip_src_lsb_count m < 32 \<and> ip_src_address m \<noteq> ip_src_address other) then False
     else if wildcard_ip_dest_lsb_count m \<noteq> wildcard_ip_dest_lsb_count other
        \<or> (wildcard_ip_dest_lsb_count m < 32 \<and> ip_dest_address m \<noteq> ip_dest_address other) then False
     else if wildcard_tcpudp_src_port m \<noteq> wildcard_tcpudp_src_port other
        \<or> (\<not> wildcard_tcpudp_src_port m \<and> tcpudp_src_port m \<noteq> tcpudp_src_port other) then False
     else if wildcard_tcpudp_dest_port m \<noteq> wildcard_tcpudp_dest_port other
        \<or> (\<not> wildcard_tcpudp_dest_port m \<and> tcpudp_dest_port m \<noteq> tcpudp_dest_port other) then False
     else True)"

text \<open>
  The bit loop of \<open>operator<\<close>: bits from position \<open>counter\<close> on, \<open>n\<close> of them. The arrays have
  four octets; a count above 32 makes \<open>prefix_size\<close> wrap and the loop read past them.
\<close>

fun prefix_bits_eq :: "nat \<Rightarrow> nat \<Rightarrow> byte list \<Rightarrow> byte list \<Rightarrow> bool res" where
  "prefix_bits_eq counter 0 addr1 addr2 = Inr True"
| "prefix_bits_eq counter (Suc n) addr1 addr2 =
     (if 32 \<le> counter then Inl OutOfBounds
      else if bit (addr1 ! (counter div 8)) (counter mod 8) \<noteq> bit (addr2 ! (counter div 8)) (counter mod 8)
      then Inr False
      else prefix_bits_eq (Suc counter) n addr1 addr2)"

definition ip_subset_check :: "byte \<Rightarrow> byte \<Rightarrow> ip_address \<Rightarrow> ip_address \<Rightarrow> bool res" where
  "ip_subset_check lsb other_lsb a other_a =
     (if lsb \<le> other_lsb
      then prefix_bits_eq 0 (unat (32 - lsb)) (ip_octets a) (ip_octets other_a)
      else Inr True)"

definition of_match_less :: "of_match \<Rightarrow> of_match \<Rightarrow> bool res" where
  "of_match_less m other =
    (if \<not> wildcard_in_port other \<and> (wildcard_in_port m \<or> in_port m \<noteq> in_port other) then Inr False
     else if \<not> wildcard_ethernet_src other
        \<and> (wildcard_ethernet_src m \<or> ethernet_src m \<noteq> ethernet_src other) then Inr False
     else if \<not> wildcard_ethernet_dest other
        \<and> (wildcard_ethernet_dest m \<or> ethernet_dest m \<noteq> ethernet_dest other) then Inr False
     else if \<not> wildcard_vlan_id other \<and> (wildcard_vlan_id m \<or> vlan_id m \<noteq> vlan_id other) then Inr False
     else if \<not> wildcard_vlan_pcp other \<and> (wildcard_vlan_pcp m \<or> vlan_pcp m \<noteq> vlan_pcp other) then Inr False
     else if \<not> wildcard_ethernet_frame_type other
        \<and> (wildcard_ethernet_frame_type m \<or> ethernet_frame_type m \<noteq> ethernet_frame_type other) then Inr False
     else if \<not> wildcard_ip_type_of_service other
        \<and> (wildcard_ip_type_of_service m \<or> ip_type_of_service m \<noteq> ip_type_of_service other) then Inr False
     else if \<not> wildcard_ip_protocol other
        \<and> (wildcard_ip_protocol m \<or> ip_protocol m \<noteq> ip_protocol other) then Inr False
     else bindr (ip_subset_check (wildcard_ip_src_lsb_count m) (wildcard_ip_src_lsb_count other)
                   (ip_src_address m) (ip_src_address other)) (\<lambda>src_ok.
       if \<not> src_ok then Inr False else
       bindr (ip_subset_check (wildcard_ip_dest_lsb_count m) (wildcard_ip_dest_lsb_count other)
                   (ip_dest_address m) (ip_dest_address other)) (\<lambda>dest_ok.
         if \<not> dest_ok then Inr False
         else if \<not> wildcard_tcpudp_src_port other
            \<and> (wildcard_tcpudp_src_port m \<or> tcpudp_src_port m \<noteq> tcpudp_src_port other) then Inr False
         else if \<not> wildcard_tcpudp_dest_port other
            \<and> (wildcard_tcpudp_dest_port m \<or> tcpudp_dest_port m \<noteq> tcpudp_dest_port other) then Inr False
         else Inr True)))"

section \<open>\<open>struct ofp_match\<close>\<close>

definition flag :: "bool \<Rightarrow> nat \<Rightarrow> 32 word" where
  "flag b n = (if b then push_bit n 1 else 0)"

text \<open>\<open>OFPFW_NW_SRC_MASK\<close> and \<open>OFPFW_NW_SRC_ALL\<close>, with their shift as the argument (8 for the
  source, 14 for the destination).\<close>

definition OFPFW_NW_MASK :: "nat \<Rightarrow> 32 word" where
  "OFPFW_NW_MASK shift = push_bit shift (push_bit 6 1 - 1)"

definition OFPFW_NW_ALL :: "nat \<Rightarrow> 32 word" where
  "OFPFW_NW_ALL shift = push_bit shift 32"

definition lsb_field :: "byte \<Rightarrow> nat \<Rightarrow> 32 word" where
  "lsb_field lsb shift = push_bit shift (if 32 < lsb then 32 else ucast lsb) AND OFPFW_NW_MASK shift"

definition of_match_wildcards :: "of_match \<Rightarrow> 32 word" where
  "of_match_wildcards m =
     flag (wildcard_in_port m) 0 OR flag (wildcard_ethernet_src m) 2
     OR flag (wildcard_ethernet_dest m) 3 OR flag (wildcard_vlan_id m) 1
     OR flag (wildcard_vlan_pcp m) 20 OR flag (wildcard_ethernet_frame_type m) 4
     OR flag (wildcard_ip_type_of_service m) 21 OR flag (wildcard_ip_protocol m) 5
     OR lsb_field (wildcard_ip_src_lsb_count m) 8 OR lsb_field (wildcard_ip_dest_lsb_count m) 14
     OR flag (wildcard_tcpudp_src_port m) 6 OR flag (wildcard_tcpudp_dest_port m) 7"

text \<open>Every byte of the struct is written, both paddings as zero.\<close>

definition of_match_serialize :: "of_match \<Rightarrow> byte list" where
  "of_match_serialize m =
     be32 (of_match_wildcards m) @ be16 (in_port m)
     @ mac_octets (ethernet_src m) @ mac_octets (ethernet_dest m)
     @ be16 (vlan_id m) @ [vlan_pcp m] @ [0] @ be16 (ethernet_frame_type m)
     @ [ip_type_of_service m] @ [ip_protocol m] @ [0, 0]
     @ ip_octets (ip_src_address m) @ ip_octets (ip_dest_address m)
     @ be16 (tcpudp_src_port m) @ be16 (tcpudp_dest_port m)"

text \<open>
  \<open>deserialize\<close>: the result, and the object afterwards. The counts are read with the
  constants \<open>OFPFW_NW_SRC_BITS\<close> and \<open>OFPFW_NW_DST_BITS\<close> (both 6) as the shift.
\<close>

definition lsb_count_of :: "32 word \<Rightarrow> nat \<Rightarrow> byte" where
  "lsb_count_of wildcards shift =
     (if wildcards AND OFPFW_NW_ALL shift \<noteq> 0 then 32
      else ucast (drop_bit 6 (wildcards AND OFPFW_NW_MASK shift)))"

definition of_match_deserialize :: "byte list \<Rightarrow> bool \<times> of_match" where
  "of_match_deserialize input =
     (if length input < 40 then (False, of_match_clear)
      else let wildcards = of_be32 (chunk 0 4 input) in (True, \<lparr>
        wildcard_in_port = (0 < wildcards AND flag True 0),
        wildcard_ethernet_src = (0 < wildcards AND flag True 2),
        wildcard_ethernet_dest = (0 < wildcards AND flag True 3),
        wildcard_vlan_id = (0 < wildcards AND flag True 1),
        wildcard_vlan_pcp = (0 < wildcards AND flag True 20),
        wildcard_ethernet_frame_type = (0 < wildcards AND flag True 4),
        wildcard_ip_type_of_service = (0 < wildcards AND flag True 21),
        wildcard_ip_protocol = (0 < wildcards AND flag True 5),
        wildcard_ip_src_lsb_count = lsb_count_of wildcards 8,
        wildcard_ip_dest_lsb_count = lsb_count_of wildcards 14,
        wildcard_tcpudp_src_port = (0 < wildcards AND flag True 6),
        wildcard_tcpudp_dest_port = (0 < wildcards AND flag True 7),
        in_port = of_be16 (chunk 4 2 input),
        ethernet_src = mac_from_bytes (chunk 6 6 input),
        ethernet_dest = mac_from_bytes (chunk 12 6 input),
        vlan_id = of_be16 (chunk 18 2 input),
        vlan_pcp = input ! 20,
        ethernet_frame_type = of_be16 (chunk 22 2 input),
        ip_type_of_service = input ! 24,
        ip_protocol = input ! 25,
        ip_src_address = ip_from_bytes (chunk 28 4 input),
        ip_dest_address = ip_from_bytes (chunk 32 4 input),
        tcpudp_src_port = of_be16 (chunk 36 2 input),
        tcpudp_dest_port = of_be16 (chunk 38 2 input)\<rparr>))"

section \<open>Round trip\<close>

lemma bit_NW_MASK: "bit (OFPFW_NW_MASK k) n \<longleftrightarrow> k \<le> n \<and> n < k + 6 \<and> n < 32"
proof -
  have "(push_bit 6 1 - 1 :: 32 word) = mask 6" by (simp add: mask_eq_exp_minus_1 push_bit_eq_mult)
  then show ?thesis by (auto simp only: OFPFW_NW_MASK_def bit_push_bit_iff bit_mask_iff) auto
qed

lemma bit_32: "bit (32 :: 'a::len word) n \<Longrightarrow> n = 5"
proof -
  have "(32 :: 'a word) = push_bit 5 1" by (simp add: push_bit_eq_mult)
  then show "bit (32 :: 'a word) n \<Longrightarrow> n = 5" by (simp only: bit_push_bit_iff) (simp add: bit_1_iff)
qed

lemma bit_32_5: "bit (32 :: byte) 5" by simp

lemma bit_NW_ALL: "bit (OFPFW_NW_ALL k) n \<longleftrightarrow> n = k + 5 \<and> n < 32"
proof -
  have "OFPFW_NW_ALL k = push_bit k (push_bit 5 1)" by (simp add: OFPFW_NW_ALL_def push_bit_eq_mult)
  then show ?thesis by (simp only: push_bit_push_bit bit_push_bit_iff) (auto simp: bit_1_iff)
qed

lemma mult_4_push_bit: "4 * (w :: 'a::len word) = push_bit 2 w"
  by (simp add: push_bit_eq_mult)

lemma bit_flag: "bit (flag b k) n \<longleftrightarrow> b \<and> n = k \<and> n < 32"
  by (auto simp: flag_def bit_simps)

lemma bit_lsb_field:
  "bit (lsb_field lsb k) n \<longleftrightarrow> k \<le> n \<and> n < 32 \<and> n < k + 6 \<and> bit (if 32 < lsb then 32 else lsb) (n - k)"
  by (auto simp: lsb_field_def bit_and_iff bit_push_bit_iff bit_NW_MASK bit_ucast_iff dest: bit_32 bit_imp_le_length split: if_splits)

lemma and_flag_pos: "k < 32 \<Longrightarrow> 0 < w AND flag True k \<longleftrightarrow> bit w k"
proof -
  assume k: "k < 32"
  have "w AND flag True k = (if bit w k then flag True k else 0)"
    by (rule bit_word_eqI) (auto simp: bit_simps bit_flag)
  moreover have "flag True k \<noteq> 0"
    using k bit_flag [of True k k] by (metis bit_0_eq bot_apply bot_bool_def)
  ultimately show ?thesis by (simp add: word_gt_0)
qed

lemma wildcard_bits:
  "bit (of_match_wildcards m) 0 = wildcard_in_port m"
  "bit (of_match_wildcards m) 2 = wildcard_ethernet_src m"
  "bit (of_match_wildcards m) 3 = wildcard_ethernet_dest m"
  "bit (of_match_wildcards m) 1 = wildcard_vlan_id m"
  "bit (of_match_wildcards m) 20 = wildcard_vlan_pcp m"
  "bit (of_match_wildcards m) 4 = wildcard_ethernet_frame_type m"
  "bit (of_match_wildcards m) 21 = wildcard_ip_type_of_service m"
  "bit (of_match_wildcards m) 5 = wildcard_ip_protocol m"
  "bit (of_match_wildcards m) 6 = wildcard_tcpudp_src_port m"
  "bit (of_match_wildcards m) 7 = wildcard_tcpudp_dest_port m"
  unfolding of_match_wildcards_def by (simp_all add: bit_or_iff bit_flag bit_lsb_field)

lemma wildcards_src_field:
  "of_match_wildcards m AND OFPFW_NW_MASK 8 = lsb_field (wildcard_ip_src_lsb_count m) 8"
  unfolding of_match_wildcards_def
  by (rule bit_word_eqI) (auto simp: bit_or_iff bit_and_iff bit_NW_MASK bit_flag bit_lsb_field)

lemma wildcards_dest_field:
  "of_match_wildcards m AND OFPFW_NW_MASK 14 = lsb_field (wildcard_ip_dest_lsb_count m) 14"
  unfolding of_match_wildcards_def
  by (rule bit_word_eqI) (auto simp: bit_or_iff bit_and_iff bit_NW_MASK bit_flag bit_lsb_field)

text \<open>What comes out of the count fields: the shift by 6 multiplies a count below 32.\<close>

definition lsb_reread :: "byte \<Rightarrow> nat \<Rightarrow> byte" where
  "lsb_reread lsb k = (if 32 \<le> lsb then 32 else if k = 8 then 4 * lsb else 0)"

lemma byte_lt_32_bits: "\<not> 32 \<le> (lsb :: byte) \<Longrightarrow> 5 \<le> n \<Longrightarrow> \<not> bit lsb n"
proof -
  assume "\<not> 32 \<le> lsb" and n: "5 \<le> n"
  then have "unat lsb < 2 ^ 5" by (simp add: word_le_nat_alt)
  then have "take_bit 5 lsb = lsb" by (simp add: take_bit_eq_mod word_unat_eq_iff unat_mod_distrib)
  then show ?thesis using n by (metis bit_take_bit_iff not_less)
qed

lemma lsb_count_of_field:
  assumes w8: "w AND OFPFW_NW_MASK k = lsb_field lsb k" and k: "k = 8 \<or> k = 14"
  shows "lsb_count_of w k = lsb_reread lsb k"
proof -
  have "w AND OFPFW_NW_ALL k = (w AND OFPFW_NW_MASK k) AND OFPFW_NW_ALL k"
    by (rule bit_word_eqI) (auto simp: bit_and_iff bit_NW_MASK bit_NW_ALL)
  then have all: "w AND OFPFW_NW_ALL k = lsb_field lsb k AND OFPFW_NW_ALL k" by (simp add: w8)
  show ?thesis
  proof (cases "32 \<le> lsb")
    case True
    then have "(if 32 < lsb then 32 else lsb) = 32" by auto
    then have "bit (lsb_field lsb k AND OFPFW_NW_ALL k) (k + 5)"
      using k by (auto simp: bit_lsb_field bit_and_iff bit_NW_ALL bit_32_5)
    then have "w AND OFPFW_NW_ALL k \<noteq> 0" using all by (metis bit_0_eq bot_apply bot_bool_def)
    with True show ?thesis by (simp add: lsb_count_of_def lsb_reread_def)
  next
    case False
    have "lsb_field lsb k AND OFPFW_NW_ALL k = 0"
      using False by (intro bit_word_eqI) (auto simp: bit_lsb_field bit_and_iff bit_NW_ALL dest: byte_lt_32_bits)
    moreover have "ucast (drop_bit 6 (lsb_field lsb k)) = lsb_reread lsb k"
      using False k
      by (intro bit_word_eqI)
         (auto simp: bit_lsb_field bit_simps lsb_reread_def mult_4_push_bit dest: byte_lt_32_bits)
    ultimately show ?thesis by (simp add: lsb_count_of_def all w8)
  qed
qed

lemma of_match_deserialize_serialize:
  "of_match_deserialize (of_match_serialize m @ rest) = (True,
     m\<lparr>wildcard_ip_src_lsb_count := lsb_reread (wildcard_ip_src_lsb_count m) 8,
       wildcard_ip_dest_lsb_count := lsb_reread (wildcard_ip_dest_lsb_count m) 14\<rparr>)"
  unfolding of_match_deserialize_def of_match_serialize_def
  by (simp add: field_simps_rules nth_append nth_Cons' and_flag_pos wildcard_bits
      wildcard_bits(4) [simplified]
      lsb_count_of_field [OF wildcards_src_field] lsb_count_of_field [OF wildcards_dest_field])

lemma length_of_match_serialize [simp]: "length (of_match_serialize m) = 40"
  by (simp add: of_match_serialize_def)

lemma of_match_deserialize_prefix:
  "40 \<le> length input \<Longrightarrow> of_match_deserialize (take 40 input) = of_match_deserialize input"
  by (simp add: of_match_deserialize_def chunk_def drop_take min_def)

lemma lsb_reread_src_fix: "lsb_reread lsb 8 = lsb \<longleftrightarrow> lsb = 0 \<or> lsb = 32"
proof
  assume h: "lsb_reread lsb 8 = lsb"
  show "lsb = 0 \<or> lsb = 32"
  proof (cases "32 \<le> lsb")
    case False
    then have "4 * lsb = lsb" using h by (simp only: lsb_reread_def if_False simp_thms if_True)
    then have "unat (4 * lsb) = unat lsb" by (rule arg_cong)
    moreover from False have "unat lsb < 32" by (simp add: word_le_nat_alt)
    ultimately have "4 * unat lsb = unat lsb" by (simp add: unat_word_ariths)
    then show ?thesis by (simp add: unat_eq_0)
  qed (use h in \<open>simp add: lsb_reread_def\<close>)
qed (auto simp: lsb_reread_def)

lemma lsb_reread_dest_fix: "lsb_reread lsb 14 = lsb \<longleftrightarrow> lsb = 0 \<or> lsb = 32"
  by (auto simp: lsb_reread_def)

text \<open>
  C32. Writing criteria and reading them back gives the same criteria exactly when each
  of the two address wildcard counts is 0 or 32. (The counts are read back with a shift by the
  width of the field instead of its position.)
\<close>

theorem of_match_roundtrip_iff:
  "of_match_deserialize (of_match_serialize m) = (True, m) \<longleftrightarrow>
     (wildcard_ip_src_lsb_count m = 0 \<or> wildcard_ip_src_lsb_count m = 32)
     \<and> (wildcard_ip_dest_lsb_count m = 0 \<or> wildcard_ip_dest_lsb_count m = 32)"
  using of_match_deserialize_serialize [of m "[]"]
  by (cases m) (simp add: lsb_reread_src_fix lsb_reread_dest_fix)

section \<open>What the criteria select\<close>

text \<open>The header fields of a packet, and the criteria of OpenFlow 1.0: a wildcarded field
  matches anything; of an address, the given number of least significant bits is ignored.\<close>

record packet_fields =
  p_in_port :: "16 word"
  p_src :: mac_address
  p_dest :: mac_address
  p_vlan_id :: "16 word"
  p_vlan_pcp :: byte
  p_type :: "16 word"
  p_tos :: byte
  p_proto :: byte
  p_ip_src :: ip_address
  p_ip_dest :: ip_address
  p_src_port :: "16 word"
  p_dest_port :: "16 word"

definition ip_host :: "ip_address \<Rightarrow> 32 word" where
  "ip_host a = of_be32 (ip_octets a)"

definition prefix_match :: "byte \<Rightarrow> ip_address \<Rightarrow> ip_address \<Rightarrow> bool" where
  "prefix_match lsb a b = (drop_bit (unat lsb) (ip_host a) = drop_bit (unat lsb) (ip_host b))"

definition criteria_match :: "of_match \<Rightarrow> packet_fields \<Rightarrow> bool" where
  "criteria_match m p =
    ((wildcard_in_port m \<or> in_port m = p_in_port p)
     \<and> (wildcard_ethernet_src m \<or> ethernet_src m = p_src p)
     \<and> (wildcard_ethernet_dest m \<or> ethernet_dest m = p_dest p)
     \<and> (wildcard_vlan_id m \<or> vlan_id m = p_vlan_id p)
     \<and> (wildcard_vlan_pcp m \<or> vlan_pcp m = p_vlan_pcp p)
     \<and> (wildcard_ethernet_frame_type m \<or> ethernet_frame_type m = p_type p)
     \<and> (wildcard_ip_type_of_service m \<or> ip_type_of_service m = p_tos p)
     \<and> (wildcard_ip_protocol m \<or> ip_protocol m = p_proto p)
     \<and> prefix_match (wildcard_ip_src_lsb_count m) (ip_src_address m) (p_ip_src p)
     \<and> prefix_match (wildcard_ip_dest_lsb_count m) (ip_dest_address m) (p_ip_dest p)
     \<and> (wildcard_tcpudp_src_port m \<or> tcpudp_src_port m = p_src_port p)
     \<and> (wildcard_tcpudp_dest_port m \<or> tcpudp_dest_port m = p_dest_port p))"

lemma prefix_match_32: "32 \<le> lsb \<Longrightarrow> prefix_match lsb a b"
proof -
  assume "32 \<le> lsb"
  then have "32 \<le> unat lsb" by (simp add: word_le_nat_alt)
  then show ?thesis
    unfolding prefix_match_def by (intro bit_word_eqI) (auto simp: bit_simps dest: bit_imp_le_length)
qed

lemma prefix_match_mono:
  "prefix_match lsb a b \<Longrightarrow> lsb \<le> lsb' \<Longrightarrow> prefix_match lsb' a b"
  unfolding prefix_match_def word_le_nat_alt
  by (metis drop_bit_drop_bit le_add_diff_inverse2)

lemma prefix_match_trans: "prefix_match lsb a b \<Longrightarrow> prefix_match lsb b c \<Longrightarrow> prefix_match lsb a c"
  by (simp add: prefix_match_def)

lemma prefix_match_sym: "prefix_match lsb a b \<Longrightarrow> prefix_match lsb b a"
  by (simp add: prefix_match_def)

text \<open>The bit loop compares every position it is given.\<close>

lemma prefix_bits_eq_total:
  "c + n \<le> 32 \<Longrightarrow> prefix_bits_eq c n a b =
     Inr (\<forall>i \<in> {c..<c + n}. bit (a ! (i div 8)) (i mod 8) = bit (b ! (i div 8)) (i mod 8))"
proof (induction n arbitrary: c)
  case (Suc n)
  have "{c..<c + Suc n} = insert c {Suc c..<Suc c + n}" by auto
  with Suc show ?case by auto
qed simp

lemma octet_eqI:
  "(\<And>j. j < 8 \<Longrightarrow> bit (x :: byte) j = bit y j) \<Longrightarrow> x = y"
  by (rule bit_word_eqI) simp

text \<open>With a count that is a multiple of 8 the loop compares whole octets of the prefix.\<close>

lemma aligned_loop_prefix_match:
  assumes loop: "prefix_bits_eq 0 (8 * k) (ip_octets a) (ip_octets b) = Inr True"
    and k: "k \<le> 4" and lsb: "unat lsb = 32 - 8 * k"
  shows "prefix_match lsb a b"
proof -
  have bits: "bit (ip_octets a ! (i div 8)) (i mod 8) = bit (ip_octets b ! (i div 8)) (i mod 8)"
    if "i < 8 * k" for i
    using loop that k by (simp add: prefix_bits_eq_total)
  have oct: "ip_octets a ! i = ip_octets b ! i" if "i < k" for i
  proof (rule octet_eqI)
    fix j :: nat assume "j < 8"
    moreover from this that have "8 * i + j < 8 * k" by arith
    ultimately show "bit (ip_octets a ! i) j = bit (ip_octets b ! i) j"
      using bits [of "8 * i + j"] by simp
  qed
  show ?thesis
    unfolding prefix_match_def ip_host_def of_be32_def lsb
  proof (rule bit_word_eqI)
    fix n assume "n < LENGTH(32)"
    show "bit (drop_bit (32 - 8 * k) (of_bytes (ip_octets a) :: 32 word)) n
        = bit (drop_bit (32 - 8 * k) (of_bytes (ip_octets b) :: 32 word)) n"
    proof (cases "32 - 8 * k + n < 32")
      case True
      then have "3 - (32 - 8 * k + n) div 8 < k" using k by linarith
      with True oct show ?thesis by (simp add: bit_drop_bit_eq bit_of_bytes_nth)
    next
      case False
      then have "\<not> bit w (32 - 8 * k + n)" for w :: "32 word"
        by (auto dest: bit_imp_le_length)
      then show ?thesis by (simp add: bit_drop_bit_eq)
    qed
  qed
qed

text \<open>The tests of \<open>operator==\<close>, one conjunct per field.\<close>

definition field_eq :: "'w \<Rightarrow> 'w \<Rightarrow> bool \<Rightarrow> 'a \<Rightarrow> 'a \<Rightarrow> bool" where
  "field_eq w w' any x x' = (w = w' \<and> (any \<or> x = x'))"

lemma if_False_else: "(if c then False else d) \<longleftrightarrow> \<not> c \<and> d"
  by simp

lemma of_match_eq_iff:
  "of_match_eq m n \<longleftrightarrow>
     field_eq (wildcard_in_port m) (wildcard_in_port n) (wildcard_in_port m) (in_port m) (in_port n)
     \<and> field_eq (wildcard_ethernet_src m) (wildcard_ethernet_src n) (wildcard_ethernet_src m)
         (ethernet_src m) (ethernet_src n)
     \<and> field_eq (wildcard_ethernet_dest m) (wildcard_ethernet_dest n) (wildcard_ethernet_dest m)
         (ethernet_dest m) (ethernet_dest n)
     \<and> field_eq (wildcard_vlan_id m) (wildcard_vlan_id n) (wildcard_vlan_id m) (vlan_id m) (vlan_id n)
     \<and> field_eq (wildcard_vlan_pcp m) (wildcard_vlan_pcp n) (wildcard_vlan_pcp m) (vlan_pcp m) (vlan_pcp n)
     \<and> field_eq (wildcard_ethernet_frame_type m) (wildcard_ethernet_frame_type n)
         (wildcard_ethernet_frame_type m) (ethernet_frame_type m) (ethernet_frame_type n)
     \<and> field_eq (wildcard_ip_type_of_service m) (wildcard_ip_type_of_service n)
         (wildcard_ip_type_of_service m) (ip_type_of_service m) (ip_type_of_service n)
     \<and> field_eq (wildcard_ip_protocol m) (wildcard_ip_protocol n) (wildcard_ip_protocol m)
         (ip_protocol m) (ip_protocol n)
     \<and> field_eq (wildcard_ip_src_lsb_count m) (wildcard_ip_src_lsb_count n)
         (32 \<le> wildcard_ip_src_lsb_count m) (ip_src_address m) (ip_src_address n)
     \<and> field_eq (wildcard_ip_dest_lsb_count m) (wildcard_ip_dest_lsb_count n)
         (32 \<le> wildcard_ip_dest_lsb_count m) (ip_dest_address m) (ip_dest_address n)
     \<and> field_eq (wildcard_tcpudp_src_port m) (wildcard_tcpudp_src_port n) (wildcard_tcpudp_src_port m)
         (tcpudp_src_port m) (tcpudp_src_port n)
     \<and> field_eq (wildcard_tcpudp_dest_port m) (wildcard_tcpudp_dest_port n) (wildcard_tcpudp_dest_port m)
         (tcpudp_dest_port m) (tcpudp_dest_port n)"
  unfolding of_match_eq_def field_eq_def if_False_else
  by (simp only: de_Morgan_disj not_not de_Morgan_conj not_less simp_thms conj_assoc)

text \<open>
  Criteria that compare equal select the same packets.
\<close>

theorem of_match_eq_same_packets:
  assumes "of_match_eq m n"
  shows "criteria_match m p = criteria_match n p"
proof -
  have pre: "prefix_match w x v = prefix_match w' x' v" if "field_eq w w' (32 \<le> w) x x'" for w w' x x' v
    using that prefix_match_32 by (auto simp: field_eq_def)
  have f: "(w \<or> x = v) = (w' \<or> x' = v)" if "field_eq w w' w x x'" for w w' and x x' v :: "16 word"
    using that by (auto simp: field_eq_def)
  have g: "(w \<or> x = v) = (w' \<or> x' = v)" if "field_eq w w' w x x'" for w w' and x x' v :: mac_address
    using that by (auto simp: field_eq_def)
  have h: "(w \<or> x = v) = (w' \<or> x' = v)" if "field_eq w w' w x x'" for w w' and x x' v :: byte
    using that by (auto simp: field_eq_def)
  from assms show ?thesis
    unfolding of_match_eq_iff criteria_match_def
    by (elim conjE) (simp only: pre f g h cong: conj_cong)
qed

definition sample_packet :: packet_fields where
  "sample_packet = \<lparr>p_in_port = 1, p_src = mac_nil, p_dest = mac_nil, p_vlan_id = 5, p_vlan_pcp = 0,
     p_type = 2048, p_tos = 0, p_proto = 6, p_ip_src = IP 10 0 0 1, p_ip_dest = IP 10 0 0 2,
     p_src_port = 80, p_dest_port = 8080\<rparr>"

definition from_port :: "16 word \<Rightarrow> of_match" where
  "from_port n = (of_match_wildcard_all of_match_clear)\<lparr>wildcard_in_port := False, in_port := n\<rparr>"

theorem of_match_eq_same_packets_witness:
  "of_match_eq (from_port 1) ((from_port 1)\<lparr>vlan_id := 9\<rparr>)
   \<and> criteria_match (from_port 1) sample_packet = criteria_match ((from_port 1)\<lparr>vlan_id := 9\<rparr>) sample_packet"
proof -
  have "of_match_eq (from_port 1) ((from_port 1)\<lparr>vlan_id := 9\<rparr>)"
    by (simp add: of_match_eq_def from_port_def of_match_wildcard_all_def)
  then show ?thesis using of_match_eq_same_packets by blast
qed

lemma field_eq_refl [simp]: "field_eq w w any x x"
  by (simp add: field_eq_def)

lemma field_eq_sym: "field_eq w w' (P w) x x' \<Longrightarrow> field_eq w' w (P w') x' x"
  by (auto simp: field_eq_def)

lemma field_eq_trans: "field_eq w w' (P w) x x' \<Longrightarrow> field_eq w' w'' (P w') x' x'' \<Longrightarrow> field_eq w w'' (P w) x x''"
  by (auto simp: field_eq_def)

lemmas field_eq_sym_wildcard = field_eq_sym [where P = "\<lambda>w. w"] field_eq_sym [where P = "\<lambda>w. (32 :: byte) \<le> w"]
lemmas field_eq_trans_wildcard =
  field_eq_trans [where P = "\<lambda>w. w"] field_eq_trans [where P = "\<lambda>w. (32 :: byte) \<le> w"]

lemma of_match_eq_refl [simp]: "of_match_eq m m"
  by (simp add: of_match_eq_iff)

lemma of_match_eq_sym: "of_match_eq m n \<Longrightarrow> of_match_eq n m"
  unfolding of_match_eq_iff by (elim conjE, intro conjI; erule field_eq_sym_wildcard)

lemma of_match_eq_trans: "of_match_eq a b \<Longrightarrow> of_match_eq b c \<Longrightarrow> of_match_eq a c"
  unfolding of_match_eq_iff by (elim conjE, intro conjI; erule field_eq_trans_wildcard; assumption)

text \<open>
  What \<open>operator<\<close> promises (the comment in the header: "returns true if this match
  criteria is a wildcard subset of the other input") holds for address counts that end on an
  octet boundary and are not above those of the other criteria.
\<close>

definition octet_aligned :: "byte \<Rightarrow> byte \<Rightarrow> bool" where
  "octet_aligned lsb other_lsb = (8 dvd unat lsb \<and> lsb \<le> 32 \<and> lsb \<le> other_lsb)"

lemma ip_subset_check_sound:
  assumes "ip_subset_check lsb other_lsb a b = Inr True" "octet_aligned lsb other_lsb"
    and "prefix_match lsb a c"
  shows "prefix_match other_lsb b c"
proof -
  from assms(2) obtain j where j: "unat lsb = 8 * j" and lsb: "lsb \<le> 32" "lsb \<le> other_lsb"
    by (auto simp: octet_aligned_def)
  from lsb have j4: "j \<le> 4" using j by (simp add: word_le_nat_alt)
  have "unat (32 - lsb) = 8 * (4 - j)"
    using lsb j by (simp add: unat_sub diff_mult_distrib2)
  then have "prefix_bits_eq 0 (8 * (4 - j)) (ip_octets a) (ip_octets b) = Inr True"
    using assms(1) lsb by (simp add: ip_subset_check_def)
  then have "prefix_match lsb a b"
    using aligned_loop_prefix_match [of "4 - j" a b lsb] j j4 by simp
  then have "prefix_match lsb b c"
    using assms(3) prefix_match_trans prefix_match_sym by blast
  then show ?thesis using lsb(2) by (rule prefix_match_mono)
qed

text \<open>The tests of \<open>operator<\<close>, one conjunct per field.\<close>

definition field_sub :: "bool \<Rightarrow> bool \<Rightarrow> 'a \<Rightarrow> 'a \<Rightarrow> bool" where
  "field_sub any other_any x x' = (other_any \<or> (\<not> any \<and> x = x'))"

lemma if_Inr_False: "(if c then Inr False else d) = Inr True \<longleftrightarrow> \<not> c \<and> d = Inr True"
  by auto

lemma bindr_Inr_True:
  "bindr m (\<lambda>ok. if \<not> ok then Inr False else d) = Inr True \<longleftrightarrow> m = Inr True \<and> d = Inr True"
  by (cases m) auto

lemma field_sub_alt: "\<not> (\<not> other_any \<and> (any \<or> x \<noteq> x')) \<longleftrightarrow> field_sub any other_any x x'"
  by (auto simp: field_sub_def)

lemma of_match_less_iff:
  "of_match_less m n = Inr True \<longleftrightarrow>
     field_sub (wildcard_in_port m) (wildcard_in_port n) (in_port m) (in_port n)
     \<and> field_sub (wildcard_ethernet_src m) (wildcard_ethernet_src n) (ethernet_src m) (ethernet_src n)
     \<and> field_sub (wildcard_ethernet_dest m) (wildcard_ethernet_dest n) (ethernet_dest m) (ethernet_dest n)
     \<and> field_sub (wildcard_vlan_id m) (wildcard_vlan_id n) (vlan_id m) (vlan_id n)
     \<and> field_sub (wildcard_vlan_pcp m) (wildcard_vlan_pcp n) (vlan_pcp m) (vlan_pcp n)
     \<and> field_sub (wildcard_ethernet_frame_type m) (wildcard_ethernet_frame_type n)
         (ethernet_frame_type m) (ethernet_frame_type n)
     \<and> field_sub (wildcard_ip_type_of_service m) (wildcard_ip_type_of_service n)
         (ip_type_of_service m) (ip_type_of_service n)
     \<and> field_sub (wildcard_ip_protocol m) (wildcard_ip_protocol n) (ip_protocol m) (ip_protocol n)
     \<and> ip_subset_check (wildcard_ip_src_lsb_count m) (wildcard_ip_src_lsb_count n)
         (ip_src_address m) (ip_src_address n) = Inr True
     \<and> ip_subset_check (wildcard_ip_dest_lsb_count m) (wildcard_ip_dest_lsb_count n)
         (ip_dest_address m) (ip_dest_address n) = Inr True
     \<and> field_sub (wildcard_tcpudp_src_port m) (wildcard_tcpudp_src_port n)
         (tcpudp_src_port m) (tcpudp_src_port n)
     \<and> field_sub (wildcard_tcpudp_dest_port m) (wildcard_tcpudp_dest_port n)
         (tcpudp_dest_port m) (tcpudp_dest_port n)"
  unfolding of_match_less_def if_Inr_False bindr_Inr_True field_sub_alt by simp

text \<open>
  C31. If \<open>m < n\<close> and both address counts of \<open>m\<close> are multiples of 8 that do not exceed
  those of \<open>n\<close>, every packet that \<open>m\<close> selects is selected by \<open>n\<close>.
\<close>

theorem of_match_less_sound:
  assumes less: "of_match_less m n = Inr True"
    and src: "octet_aligned (wildcard_ip_src_lsb_count m) (wildcard_ip_src_lsb_count n)"
    and dest: "octet_aligned (wildcard_ip_dest_lsb_count m) (wildcard_ip_dest_lsb_count n)"
    and p: "criteria_match m p"
  shows "criteria_match n p"
proof -
  have sub: "other_any \<or> x' = v" if "field_sub any other_any x x'" "any \<or> x = v"
    for any other_any and x x' v :: "16 word" using that by (auto simp: field_sub_def)
  have sub8: "other_any \<or> x' = v" if "field_sub any other_any x x'" "any \<or> x = v"
    for any other_any and x x' v :: byte using that by (auto simp: field_sub_def)
  have sub_mac: "other_any \<or> x' = v" if "field_sub any other_any x x'" "any \<or> x = v"
    for any other_any and x x' v :: mac_address using that by (auto simp: field_sub_def)
  from less p show ?thesis
    unfolding of_match_less_iff criteria_match_def
    by (elim conjE, intro conjI)
       (erule (1) sub sub8 sub_mac ip_subset_check_sound [OF _ src] ip_subset_check_sound [OF _ dest])+
qed

theorem of_match_less_sound_witness:
  "of_match_less (from_port 1) (of_match_wildcard_all of_match_clear) = Inr True
   \<and> criteria_match (from_port 1) sample_packet
   \<and> criteria_match (of_match_wildcard_all of_match_clear) sample_packet"
proof -
  have "of_match_less (from_port 1) (of_match_wildcard_all of_match_clear) = Inr True"
    by (simp add: of_match_less_def from_port_def of_match_wildcard_all_def ip_subset_check_def)
  moreover have "octet_aligned 32 32" by (simp add: octet_aligned_def)
  moreover have "criteria_match (from_port 1) sample_packet"
    by (simp add: criteria_match_def from_port_def of_match_wildcard_all_def sample_packet_def prefix_match_32)
  ultimately show ?thesis
    using of_match_less_sound [of "from_port 1" "of_match_wildcard_all of_match_clear" sample_packet]
    by (simp add: from_port_def of_match_wildcard_all_def)
qed

text \<open>
  In general \<open>operator<\<close> is neither sound nor complete: everything is reported below
  the exact source address 10.0.0.1, although a packet from 10.0.0.2 is selected by the former
  only; and the exact address is not reported below 10.0.0.0/8, although it is a subset.
\<close>

definition from_ip :: "byte \<Rightarrow> ip_address \<Rightarrow> of_match" where
  "from_ip lsb a = (of_match_wildcard_all of_match_clear)\<lparr>wildcard_ip_src_lsb_count := lsb, ip_src_address := a\<rparr>"

theorem of_match_less_unsound_incomplete:
  "(\<exists>m n p. of_match_less m n = Inr True \<and> criteria_match m p \<and> \<not> criteria_match n p)
   \<and> (\<exists>m n. of_match_less m n = Inr False \<and> Collect (criteria_match m) \<subseteq> Collect (criteria_match n))"
proof
  let ?all = "of_match_wildcard_all of_match_clear"
  let ?p = "sample_packet\<lparr>p_ip_src := IP 10 0 0 2\<rparr>"
  have "of_match_less ?all (from_ip 0 (IP 10 0 0 1)) = Inr True"
    by (simp add: of_match_less_def from_ip_def of_match_wildcard_all_def ip_subset_check_def)
  moreover have "criteria_match ?all ?p"
    by (simp add: criteria_match_def of_match_wildcard_all_def prefix_match_32)
  moreover have "\<not> criteria_match (from_ip 0 (IP 10 0 0 1)) ?p"
    by (simp add: criteria_match_def from_ip_def of_match_wildcard_all_def prefix_match_def
        ip_host_def of_be32_def of_bytes_def)
  ultimately show "\<exists>m n p. of_match_less m n = Inr True \<and> criteria_match m p \<and> \<not> criteria_match n p"
    by blast
  have "of_match_less (from_ip 0 (IP 10 0 0 1)) (from_ip 24 (IP 10 0 0 0)) = Inr False"
  proof -
    have "prefix_bits_eq 0 32 [10, 0, 0, 1] [10, 0, 0, 0 :: byte] = Inr False"
      by (simp add: prefix_bits_eq_total, rule bexI [of _ 24], simp_all)
    then show ?thesis
      by (simp add: of_match_less_def from_ip_def of_match_wildcard_all_def ip_subset_check_def)
  qed
  moreover have "criteria_match (from_ip 24 (IP 10 0 0 0)) p" if "criteria_match (from_ip 0 (IP 10 0 0 1)) p" for p
  proof -
    have "prefix_match 0 (IP 10 0 0 1) (p_ip_src p)"
      using that by (simp add: criteria_match_def from_ip_def)
    then have "prefix_match 24 (IP 10 0 0 1) (p_ip_src p)" by (rule prefix_match_mono) simp
    moreover have "prefix_match 24 (IP 10 0 0 0) (IP 10 0 0 1)"
      by (simp add: prefix_match_def ip_host_def of_be32_def of_bytes_def)
    ultimately have "prefix_match 24 (IP 10 0 0 0) (p_ip_src p)" by (rule prefix_match_trans [rotated])
    with that show ?thesis
      by (simp add: criteria_match_def from_ip_def of_match_wildcard_all_def)
  qed
  ultimately show "\<exists>m n. of_match_less m n = Inr False \<and> Collect (criteria_match m) \<subseteq> Collect (criteria_match n)"
    by blast
qed

end
