(* ===== verification/Of_Match_Text.thy ===== *)
theory Of_Match_Text
  imports Of_Match
begin

text \<open>
  The text forms of \<open>of_match\<close>: \<open>from_string\<close> (a sequence of \<open>key = value\<close> settings, read by
  \<open>string_utils::generate_key_value_pair\<close>) and \<open>to_string\<close>. The lemmas of the first section
  say what the tokenizer makes of settings written out as text.
\<close>

section \<open>The tokenizer\<close>

text \<open>A setting printed as \<open>key=value\<close> with a blank after it.\<close>

definition render_setting :: "string \<times> string \<Rightarrow> string" where
  "render_setting kv = fst kv @ ''='' @ snd kv @ '' ''"

definition word_string :: "string \<Rightarrow> bool" where
  "word_string s = (s \<noteq> [] \<and> list_all is_word_char s)"

lemma word_char_not_space: "is_word_char c \<Longrightarrow> \<not> is_whitespace c"
  by (auto simp: is_word_char_def is_alphanumeric_def is_whitespace_def)

lemma equals_classes: "\<not> is_word_char CHR ''=''" "\<not> is_whitespace CHR ''=''"
  "\<not> is_word_char CHR '' ''" "is_whitespace CHR '' ''" "\<not> is_word_char CHR ''*''" "\<not> is_whitespace CHR ''*''"
  by (simp_all add: is_word_char_def is_alphanumeric_def is_whitespace_def)

lemma takeWhile_word: "list_all is_word_char k \<Longrightarrow> takeWhile is_word_char (k @ r) = k @ takeWhile is_word_char r"
  "list_all is_word_char k \<Longrightarrow> dropWhile is_word_char (k @ r) = dropWhile is_word_char r"
  by (induction k) auto

lemma dropWhile_space_word: "word_string k \<Longrightarrow> dropWhile is_whitespace (k @ r) = k @ r"
  by (cases k) (auto simp: word_string_def word_char_not_space)

lemma kv_pairs_step:
  assumes "dropWhile is_whitespace s = s1" "s1 \<noteq> []" "takeWhile is_word_char s1 = k"
    "dropWhile is_word_char s1 = after_key" "dropWhile is_whitespace after_key = CHR ''='' # s4"
    "dropWhile is_whitespace s4 = s5" "s5 \<noteq> []"
  shows "kv_pairs s = (k, takeWhile is_word_char s5) # kv_pairs (dropWhile is_word_char s5)"
proof -
  have "s \<noteq> []" "after_key \<noteq> []" using assms by auto
  with assms show ?thesis by (subst kv_pairs.simps) (simp only: Let_def list.sel, simp)
qed

lemma kv_pairs_Nil [simp]: "kv_pairs [] = []"
  by (simp add: kv_pairs.simps [of "[]"])

lemma kv_pairs_blank: "kv_pairs (CHR '' '' # s) = kv_pairs s"
proof (cases "s = []")
  case True
  then show ?thesis by (simp add: kv_pairs.simps [of "'' ''"] equals_classes)
next
  case False
  then show ?thesis
    using kv_pairs.simps [of "CHR '' '' # s"] kv_pairs.simps [of s]
    by (simp only: dropWhile.simps equals_classes list.simps if_True if_False simp_thms)
qed

lemma kv_pairs_setting:
  assumes "word_string k" "word_string v"
  shows "kv_pairs (k @ CHR ''='' # v @ CHR '' '' # r) = (k, v) # kv_pairs r"
proof -
  have k: "k \<noteq> []" "list_all is_word_char k" and v: "v \<noteq> []" "list_all is_word_char v"
    using assms by (auto simp: word_string_def)
  have "kv_pairs (k @ CHR ''='' # v @ CHR '' '' # r)
      = (k, takeWhile is_word_char (v @ CHR '' '' # r))
        # kv_pairs (dropWhile is_word_char (v @ CHR '' '' # r))"
    by (rule kv_pairs_step [OF dropWhile_space_word [OF assms(1)] _ _ _ _ dropWhile_space_word [OF assms(2)],
          where after_key = "CHR ''='' # v @ CHR '' '' # r"])
       (simp_all add: k v takeWhile_word equals_classes)
  then show ?thesis by (simp add: kv_pairs_blank takeWhile_word v equals_classes)
qed

lemma kv_pairs_render_append:
  assumes "list_all (\<lambda>kv. word_string (fst kv) \<and> word_string (snd kv)) kvs"
  shows "kv_pairs (concat (map render_setting kvs) @ r) = kvs @ kv_pairs r"
  using assms
proof (induction kvs)
  case (Cons kv kvs)
  then have "kv_pairs (render_setting kv @ concat (map render_setting kvs) @ r)
      = (fst kv, snd kv) # kv_pairs (concat (map render_setting kvs) @ r)"
    unfolding render_setting_def by (simp add: kv_pairs_setting)
  with Cons show ?case by simp
qed simp

text \<open>
  The tokenizer reads back any sequence of settings printed as \<open>key=value\<close> followed by
  a blank, when keys and values are not empty and made of letters, digits, \<open>_\<close>, \<open>.\<close>, \<open>:\<close> and
  \<open>-\<close>: the pairs, in order, nothing lost or added.
\<close>

theorem kv_pairs_render:
  assumes "list_all (\<lambda>kv. word_string (fst kv) \<and> word_string (snd kv)) kvs"
  shows "kv_pairs (concat (map render_setting kvs)) = kvs"
  using assms kv_pairs_render_append [of kvs "[]"] by simp

theorem kv_pairs_render_witness:
  "kv_pairs (concat (map render_setting [(''in_port'', ''3''), (''vlan_id'', ''47'')]))
     = [(''in_port'', ''3''), (''vlan_id'', ''47'')]"
  by (rule kv_pairs_render)
     (simp add: word_string_def is_word_char_def is_alphanumeric_def)

text \<open>
  The documented wildcard value \<open>*\<close> is not accepted by the tokenizer: the setting
  gets an empty value, and everything after it is dropped.
\<close>

theorem kv_pairs_star_drops_rest:
  assumes "word_string k"
  shows "kv_pairs (k @ ''=*'' @ rest) = [(k, '''')]"
proof -
  have k: "k \<noteq> []" "list_all is_word_char k" using assms by (auto simp: word_string_def)
  have "kv_pairs (CHR ''*'' # rest) = []"
    by (subst kv_pairs.simps) (simp add: Let_def equals_classes)
  moreover have star: "dropWhile is_whitespace (CHR ''*'' # rest) = CHR ''*'' # rest"
    by (simp add: equals_classes)
  have "kv_pairs (k @ ''=*'' @ rest)
      = (k, takeWhile is_word_char (CHR ''*'' # rest)) # kv_pairs (dropWhile is_word_char (CHR ''*'' # rest))"
    by (rule kv_pairs_step [OF dropWhile_space_word [OF assms] _ _ _ _ star, where after_key = "CHR ''='' # CHR ''*'' # rest"])
       (simp_all add: k takeWhile_word equals_classes)
  ultimately show ?thesis by (simp add: equals_classes)
qed

theorem kv_pairs_star_drops_rest_witness:
  "kv_pairs (''in_port'' @ ''=*'' @ '' vlan_id=7 '') = [(''in_port'', '''')]"
  by (rule kv_pairs_star_drops_rest) (simp add: word_string_def is_word_char_def is_alphanumeric_def)

section \<open>\<open>of_match::from_string\<close>\<close>

text \<open>
  One setting, applied to the criteria and the result so far. A value that does not parse
  leaves the field of the criteria as it was and its wildcard set; the addresses are stored
  before they are compared with their text.
\<close>

definition of_match_setting ::
  "(string \<Rightarrow> ip_address option) \<Rightarrow> string \<times> string \<Rightarrow> of_match \<times> bool \<Rightarrow> of_match \<times> bool" where
  "of_match_setting resolver kv mr =
    (let k = fst kv; v = snd kv; m = fst mr; result = snd mr; set = (v \<noteq> [] \<and> v \<noteq> ''*'') in
     if k = ''dl_src'' \<and> set then
       let m = m\<lparr>wildcard_ethernet_src := False, ethernet_src := mac_set v\<rparr> in
       (if mac_to_string (ethernet_src m) \<noteq> v then (m\<lparr>wildcard_ethernet_src := True\<rparr>, False) else (m, result))
     else if k = ''dl_dest'' \<and> set then
       let m = m\<lparr>wildcard_ethernet_dest := False, ethernet_dest := mac_set v\<rparr> in
       (if mac_to_string (ethernet_dest m) \<noteq> v then (m\<lparr>wildcard_ethernet_dest := True\<rparr>, False) else (m, result))
     else if k = ''in_port'' \<and> set then
       (case string_to_uint16 v of None \<Rightarrow> (m\<lparr>wildcard_in_port := True\<rparr>, False)
        | Some x \<Rightarrow> (m\<lparr>wildcard_in_port := False, in_port := x\<rparr>, result))
     else if k = ''vlan_id'' \<and> set then
       (case string_to_uint16 v of None \<Rightarrow> (m\<lparr>wildcard_vlan_id := True\<rparr>, False)
        | Some x \<Rightarrow> (m\<lparr>wildcard_vlan_id := False, vlan_id := x\<rparr>, result))
     else if k = ''vlan_pcp'' \<and> set then
       (case string_to_uint16 v of None \<Rightarrow> (m\<lparr>wildcard_vlan_pcp := True\<rparr>, False)
        | Some x \<Rightarrow> if 255 < x then (m\<lparr>wildcard_vlan_pcp := True\<rparr>, False)
                   else (m\<lparr>wildcard_vlan_pcp := False, vlan_pcp := ucast x\<rparr>, result))
     else if k = ''ethertype'' \<and> set then
       (case string_to_uint16 v of None \<Rightarrow> (m\<lparr>wildcard_ethernet_frame_type := True\<rparr>, False)
        | Some x \<Rightarrow> (m\<lparr>wildcard_ethernet_frame_type := False, ethernet_frame_type := x\<rparr>, result))
     else if k = ''ip_tos'' \<and> set then
       (case string_to_uint16 v of None \<Rightarrow> (m\<lparr>wildcard_ip_type_of_service := True\<rparr>, False)
        | Some x \<Rightarrow> if 255 < x then (m\<lparr>wildcard_ip_type_of_service := True\<rparr>, False)
                   else (m\<lparr>wildcard_ip_type_of_service := False, ip_type_of_service := ucast x\<rparr>, result))
     else if k = ''ip_proto'' \<and> set then
       (case string_to_uint16 v of None \<Rightarrow> (m\<lparr>wildcard_ip_protocol := True\<rparr>, False)
        | Some x \<Rightarrow> if 255 < x then (m\<lparr>wildcard_ip_protocol := True\<rparr>, False)
                   else (m\<lparr>wildcard_ip_protocol := False, ip_protocol := ucast x\<rparr>, result))
     else if k = ''nw_src_lsb_wildcard'' \<and> v \<noteq> [] then
       (case string_to_uint16 v of None \<Rightarrow> (m\<lparr>wildcard_ip_src_lsb_count := 32\<rparr>, False)
        | Some x \<Rightarrow> if 32 < x then (m\<lparr>wildcard_ip_src_lsb_count := 32\<rparr>, False)
                   else (m\<lparr>wildcard_ip_src_lsb_count := ucast x\<rparr>, result))
     else if k = ''nw_dest_lsb_wildcard'' \<and> v \<noteq> [] then
       (case string_to_uint16 v of None \<Rightarrow> (m\<lparr>wildcard_ip_dest_lsb_count := 32\<rparr>, False)
        | Some x \<Rightarrow> if 32 < x then (m\<lparr>wildcard_ip_dest_lsb_count := 32\<rparr>, False)
                   else (m\<lparr>wildcard_ip_dest_lsb_count := ucast x\<rparr>, result))
     else if k = ''nw_src'' \<and> set then
       let m = m\<lparr>ip_src_address := fst (ip_set resolver v)\<rparr> in
       (if ip_to_string (ip_src_address m) \<noteq> v then (m\<lparr>wildcard_ip_src_lsb_count := 32\<rparr>, False) else (m, result))
     else if k = ''nw_dest'' \<and> set then
       let m = m\<lparr>ip_dest_address := fst (ip_set resolver v)\<rparr> in
       (if ip_to_string (ip_dest_address m) \<noteq> v then (m\<lparr>wildcard_ip_dest_lsb_count := 32\<rparr>, False) else (m, result))
     else if k = ''src_port'' \<and> set then
       (case string_to_uint16 v of None \<Rightarrow> (m\<lparr>wildcard_tcpudp_src_port := True\<rparr>, False)
        | Some x \<Rightarrow> (m\<lparr>wildcard_tcpudp_src_port := False, tcpudp_src_port := x\<rparr>, result))
     else if k = ''dest_port'' \<and> set then
       (case string_to_uint16 v of None \<Rightarrow> (m\<lparr>wildcard_tcpudp_dest_port := True\<rparr>, False)
        | Some x \<Rightarrow> (m\<lparr>wildcard_tcpudp_dest_port := False, tcpudp_dest_port := x\<rparr>, result))
     else (m, False))"

definition of_match_from_string ::
  "(string \<Rightarrow> ip_address option) \<Rightarrow> string \<Rightarrow> of_match \<Rightarrow> of_match \<times> bool" where
  "of_match_from_string resolver request m =
     fold (of_match_setting resolver) (kv_pairs request) (of_match_wildcard_all m, True)"

text \<open>The constructor from a string discards what was read when anything was wrong.\<close>

definition of_match_of_string :: "(string \<Rightarrow> ip_address option) \<Rightarrow> string \<Rightarrow> of_match \<Rightarrow> of_match" where
  "of_match_of_string resolver request uninitialised =
     (case of_match_from_string resolver request uninitialised of
        (m, result) \<Rightarrow> if \<not> result then of_match_clear else m)"

section \<open>\<open>of_match::to_string\<close>\<close>

definition of_match_to_string :: "of_match \<Rightarrow> string" where
  "of_match_to_string m =
    (let specified = \<not> (wildcard_in_port m \<and> wildcard_ethernet_src m \<and> wildcard_ethernet_dest m
        \<and> wildcard_vlan_id m \<and> wildcard_vlan_pcp m \<and> wildcard_ethernet_frame_type m
        \<and> wildcard_ip_type_of_service m \<and> wildcard_ip_protocol m
        \<and> 32 \<le> wildcard_ip_src_lsb_count m \<and> 32 \<le> wildcard_ip_dest_lsb_count m
        \<and> wildcard_tcpudp_src_port m \<and> wildcard_tcpudp_dest_port m) in
     (if wildcard_in_port m then '''' else ''in_port='' @ dec (unat (in_port m)) @ '' '')
     @ (if wildcard_ethernet_src m then '''' else ''dl_src='' @ mac_to_string (ethernet_src m) @ '' '')
     @ (if wildcard_ethernet_dest m then '''' else ''dl_dest='' @ mac_to_string (ethernet_dest m) @ '' '')
     @ (if wildcard_vlan_id m then '''' else ''vlan_id='' @ dec (unat (vlan_id m)) @ '' '')
     @ (if wildcard_vlan_pcp m then '''' else ''vlan_pcp='' @ dec (unat (vlan_pcp m)) @ '' '')
     @ (if wildcard_ethernet_frame_type m then ''''
        else ''eth_type='' @ dec (unat (ethernet_frame_type m)) @ '' '')
     @ (if wildcard_ip_type_of_service m then ''''
        else ''ip_TOS='' @ dec (unat (ip_type_of_service m)) @ '' '')
     @ (if wildcard_ip_protocol m then '''' else ''ip_proto='' @ dec (unat (ip_protocol m)) @ '' '')
     @ (if wildcard_ip_src_lsb_count m < 32
        then ''nw_src='' @ ip_to_string (ip_src_address m) @ ''/''
             @ dec (unat (wildcard_ip_src_lsb_count m)) @ '' '' else '''')
     @ (if wildcard_ip_dest_lsb_count m < 32
        then ''nw_dest='' @ ip_to_string (ip_dest_address m) @ ''/''
             @ dec (unat (wildcard_ip_dest_lsb_count m)) @ '' '' else '''')
     @ (if wildcard_tcpudp_src_port m then ''''
        else ''nw_src_port='' @ dec (unat (tcpudp_src_port m)) @ '' '')
     @ (if wildcard_tcpudp_dest_port m then ''''
        else ''nw_dest_port='' @ dec (unat (tcpudp_dest_port m)) @ '' '')
     @ (if \<not> specified then ''all fields wildcarded.'' else ''''))"

section \<open>Reading back what was written\<close>

text \<open>The values that are written, as words of the tokenizer.\<close>

lemma word_string_append: "word_string a \<Longrightarrow> list_all is_word_char b \<Longrightarrow> word_string (a @ b)"
  by (simp add: word_string_def)

lemma word_string_dec [simp]: "word_string (dec n)"
  unfolding word_string_def list_all_iff
  using dec_digits by (auto simp: is_word_char_def is_alphanumeric_def is_digit_def)

lemma word_string_ip [simp]: "word_string (ip_to_string a)"
  using word_string_dec by (cases a) (simp add: word_string_def ip_to_string_def is_word_char_def)

lemma digit_char_word: "d < 16 \<Longrightarrow> is_word_char (digit_char d)"
  by (auto simp: digit_char_def is_word_char_def is_alphanumeric_def)

lemma hex2_word: "list_all is_word_char (hex2 b)"
proof -
  have "unat b div 16 < 16" using unat_byte_bound [of b] by simp
  then show ?thesis by (simp add: hex2_def digit_char_word)
qed

lemma word_string_mac [simp]: "word_string (mac_to_string m)"
  by (cases m) (simp add: mac_to_string_octets word_string_def hex2_word is_word_char_def)

lemma word_string_set: "word_string v \<Longrightarrow> v \<noteq> '''' \<and> v \<noteq> ''*''"
  by (auto simp: word_string_def equals_classes)

lemmas value_is_set [simp] =
  word_string_set [OF word_string_dec] word_string_set [OF word_string_ip] word_string_set [OF word_string_mac]

lemma unat_ucast_byte: "unat (ucast (b :: byte) :: 16 word) = unat b"
  using unsigned_less [of b, where ?'a = nat] by (simp add: unsigned_ucast_eq take_bit_nat_eq_self_iff)

lemma string_to_uint16_dec_byte [simp]: "string_to_uint16 (dec (unat (b :: byte))) = Some (ucast b)"
  using string_to_uint16_dec [of "ucast b"] by (simp add: unat_ucast_byte)

lemma byte_in_16 [simp]:
  "\<not> 255 < (ucast (b :: byte) :: 16 word)" "ucast (ucast (b :: byte) :: 16 word) = b"
  "32 < (ucast (b :: byte) :: 16 word) \<longleftrightarrow> 32 < b"
proof -
  show "ucast (ucast b :: 16 word) = b"
    by (rule bit_word_eqI) (auto simp: bit_simps)
qed (use unsigned_less [of b, where ?'a = nat] in \<open>simp_all add: word_less_nat_alt unat_ucast_byte\<close>)

definition opt_setting :: "bool \<Rightarrow> string \<Rightarrow> string \<Rightarrow> (string \<times> string) list" where
  "opt_setting skip k v = (if skip then [] else [(k, v)])"

text \<open>The settings that select the criteria, in the syntax of \<open>from_string\<close>.\<close>

definition match_settings :: "of_match \<Rightarrow> (string \<times> string) list" where
  "match_settings m =
     opt_setting (wildcard_in_port m) ''in_port'' (dec (unat (in_port m)))
     @ opt_setting (wildcard_ethernet_src m) ''dl_src'' (mac_to_string (ethernet_src m))
     @ opt_setting (wildcard_ethernet_dest m) ''dl_dest'' (mac_to_string (ethernet_dest m))
     @ opt_setting (wildcard_vlan_id m) ''vlan_id'' (dec (unat (vlan_id m)))
     @ opt_setting (wildcard_vlan_pcp m) ''vlan_pcp'' (dec (unat (vlan_pcp m)))
     @ opt_setting (wildcard_ethernet_frame_type m) ''ethertype'' (dec (unat (ethernet_frame_type m)))
     @ opt_setting (wildcard_ip_type_of_service m) ''ip_tos'' (dec (unat (ip_type_of_service m)))
     @ opt_setting (wildcard_ip_protocol m) ''ip_proto'' (dec (unat (ip_protocol m)))
     @ opt_setting False ''nw_src'' (ip_to_string (ip_src_address m))
     @ opt_setting False ''nw_src_lsb_wildcard'' (dec (unat (wildcard_ip_src_lsb_count m)))
     @ opt_setting False ''nw_dest'' (ip_to_string (ip_dest_address m))
     @ opt_setting False ''nw_dest_lsb_wildcard'' (dec (unat (wildcard_ip_dest_lsb_count m)))
     @ opt_setting (wildcard_tcpudp_src_port m) ''src_port'' (dec (unat (tcpudp_src_port m)))
     @ opt_setting (wildcard_tcpudp_dest_port m) ''dest_port'' (dec (unat (tcpudp_dest_port m)))"

lemma fold_opt_setting:
  "fold f (opt_setting skip k v) mr = (if skip then mr else f (k, v) mr)"
  by (simp add: opt_setting_def)

lemma words_opt_setting: "word_string k \<Longrightarrow> word_string v
    \<Longrightarrow> list_all (\<lambda>kv. word_string (fst kv) \<and> word_string (snd kv)) (opt_setting skip k v)"
  by (simp add: opt_setting_def)

text \<open>What one setting does to the criteria read so far, for the values that are written.\<close>

lemma of_match_setting_written:
  "of_match_setting f (''in_port'', dec (unat p)) (x, r) = (x\<lparr>wildcard_in_port := False, in_port := p\<rparr>, r)"
  "of_match_setting f (''vlan_id'', dec (unat p)) (x, r) = (x\<lparr>wildcard_vlan_id := False, vlan_id := p\<rparr>, r)"
  "of_match_setting f (''vlan_pcp'', dec (unat b)) (x, r) = (x\<lparr>wildcard_vlan_pcp := False, vlan_pcp := b\<rparr>, r)"
  "of_match_setting f (''ethertype'', dec (unat p)) (x, r)
     = (x\<lparr>wildcard_ethernet_frame_type := False, ethernet_frame_type := p\<rparr>, r)"
  "of_match_setting f (''ip_tos'', dec (unat b)) (x, r)
     = (x\<lparr>wildcard_ip_type_of_service := False, ip_type_of_service := b\<rparr>, r)"
  "of_match_setting f (''ip_proto'', dec (unat b)) (x, r) = (x\<lparr>wildcard_ip_protocol := False, ip_protocol := b\<rparr>, r)"
  "of_match_setting f (''src_port'', dec (unat p)) (x, r)
     = (x\<lparr>wildcard_tcpudp_src_port := False, tcpudp_src_port := p\<rparr>, r)"
  "of_match_setting f (''dest_port'', dec (unat p)) (x, r)
     = (x\<lparr>wildcard_tcpudp_dest_port := False, tcpudp_dest_port := p\<rparr>, r)"
  by (simp_all add: of_match_setting_def Let_def string_to_uint16_dec)

lemma of_match_setting_written_mac:
  "of_match_setting f (''dl_src'', mac_to_string a) (x, r) = (x\<lparr>wildcard_ethernet_src := False, ethernet_src := a\<rparr>, r)"
  "of_match_setting f (''dl_dest'', mac_to_string a) (x, r) = (x\<lparr>wildcard_ethernet_dest := False, ethernet_dest := a\<rparr>, r)"
  by (simp_all add: of_match_setting_def Let_def mac_set_to_string)

lemma of_match_setting_written_ip:
  "of_match_setting f (''nw_src'', ip_to_string i) (x, r) = (x\<lparr>ip_src_address := i\<rparr>, r)"
  "of_match_setting f (''nw_dest'', ip_to_string i) (x, r) = (x\<lparr>ip_dest_address := i\<rparr>, r)"
  by (simp_all add: of_match_setting_def Let_def ip_set_to_string)

lemma of_match_setting_written_lsb:
  assumes "b \<le> 32"
  shows "of_match_setting f (''nw_src_lsb_wildcard'', dec (unat b)) (x, r) = (x\<lparr>wildcard_ip_src_lsb_count := b\<rparr>, r)"
    "of_match_setting f (''nw_dest_lsb_wildcard'', dec (unat b)) (x, r) = (x\<lparr>wildcard_ip_dest_lsb_count := b\<rparr>, r)"
  using assms by (simp_all add: of_match_setting_def Let_def not_less [symmetric])

lemmas settings_written =
  of_match_setting_written of_match_setting_written_mac of_match_setting_written_ip of_match_setting_written_lsb

lemma opt_update:
  "(if w then (x, r) else (x', r)) = ((if w then x else x'), r)"
  by simp

text \<open>An optional setting, as an update that does not branch on the record.\<close>

lemma fold_written:
  "fold (of_match_setting f) (opt_setting w ''in_port'' (dec (unat p))) (x, r)
     = (x\<lparr>wildcard_in_port := wildcard_in_port x \<and> w, in_port := if w then in_port x else p\<rparr>, r)"
  "fold (of_match_setting f) (opt_setting w ''vlan_id'' (dec (unat p))) (x, r)
     = (x\<lparr>wildcard_vlan_id := wildcard_vlan_id x \<and> w, vlan_id := if w then vlan_id x else p\<rparr>, r)"
  "fold (of_match_setting f) (opt_setting w ''vlan_pcp'' (dec (unat b))) (x, r)
     = (x\<lparr>wildcard_vlan_pcp := wildcard_vlan_pcp x \<and> w, vlan_pcp := if w then vlan_pcp x else b\<rparr>, r)"
  "fold (of_match_setting f) (opt_setting w ''ethertype'' (dec (unat p))) (x, r)
     = (x\<lparr>wildcard_ethernet_frame_type := wildcard_ethernet_frame_type x \<and> w,
          ethernet_frame_type := if w then ethernet_frame_type x else p\<rparr>, r)"
  "fold (of_match_setting f) (opt_setting w ''ip_tos'' (dec (unat b))) (x, r)
     = (x\<lparr>wildcard_ip_type_of_service := wildcard_ip_type_of_service x \<and> w,
          ip_type_of_service := if w then ip_type_of_service x else b\<rparr>, r)"
  "fold (of_match_setting f) (opt_setting w ''ip_proto'' (dec (unat b))) (x, r)
     = (x\<lparr>wildcard_ip_protocol := wildcard_ip_protocol x \<and> w, ip_protocol := if w then ip_protocol x else b\<rparr>, r)"
  "fold (of_match_setting f) (opt_setting w ''src_port'' (dec (unat p))) (x, r)
     = (x\<lparr>wildcard_tcpudp_src_port := wildcard_tcpudp_src_port x \<and> w,
          tcpudp_src_port := if w then tcpudp_src_port x else p\<rparr>, r)"
  "fold (of_match_setting f) (opt_setting w ''dest_port'' (dec (unat p))) (x, r)
     = (x\<lparr>wildcard_tcpudp_dest_port := wildcard_tcpudp_dest_port x \<and> w,
          tcpudp_dest_port := if w then tcpudp_dest_port x else p\<rparr>, r)"
  "fold (of_match_setting f) (opt_setting w ''dl_src'' (mac_to_string a)) (x, r)
     = (x\<lparr>wildcard_ethernet_src := wildcard_ethernet_src x \<and> w, ethernet_src := if w then ethernet_src x else a\<rparr>, r)"
  "fold (of_match_setting f) (opt_setting w ''dl_dest'' (mac_to_string a)) (x, r)
     = (x\<lparr>wildcard_ethernet_dest := wildcard_ethernet_dest x \<and> w, ethernet_dest := if w then ethernet_dest x else a\<rparr>, r)"
  by (simp_all add: fold_opt_setting settings_written)

lemma fold_written_always:
  "fold (of_match_setting f) (opt_setting False ''nw_src'' (ip_to_string i)) (x, r) = (x\<lparr>ip_src_address := i\<rparr>, r)"
  "fold (of_match_setting f) (opt_setting False ''nw_dest'' (ip_to_string i)) (x, r) = (x\<lparr>ip_dest_address := i\<rparr>, r)"
  "b \<le> 32 \<Longrightarrow> fold (of_match_setting f) (opt_setting False ''nw_src_lsb_wildcard'' (dec (unat b))) (x, r)
     = (x\<lparr>wildcard_ip_src_lsb_count := b\<rparr>, r)"
  "b \<le> 32 \<Longrightarrow> fold (of_match_setting f) (opt_setting False ''nw_dest_lsb_wildcard'' (dec (unat b))) (x, r)
     = (x\<lparr>wildcard_ip_dest_lsb_count := b\<rparr>, r)"
  by (simp_all add: fold_opt_setting settings_written)

lemma word_string_keys [simp]:
  "word_string ''in_port''" "word_string ''dl_src''" "word_string ''dl_dest''" "word_string ''vlan_id''"
  "word_string ''vlan_pcp''" "word_string ''ethertype''" "word_string ''ip_tos''" "word_string ''ip_proto''"
  "word_string ''nw_src''" "word_string ''nw_dest''" "word_string ''nw_src_lsb_wildcard''"
  "word_string ''nw_dest_lsb_wildcard''" "word_string ''src_port''" "word_string ''dest_port''"
  "word_string ''eth_type''" "word_string ''ip_TOS''" "word_string ''nw_src_port''" "word_string ''nw_dest_port''"
  by (simp_all add: word_string_def is_word_char_def is_alphanumeric_def)

text \<open>
  Criteria written in the syntax of \<open>from_string\<close> (a setting for each field that is not
  wildcarded, and always the addresses with their counts) are read back: the call succeeds
  and the criteria are equal, by \<open>operator==\<close>, to those written, whatever the object held
  before and whatever the resolver does.
\<close>

theorem of_match_from_string_settings:
  assumes "wildcard_ip_src_lsb_count m \<le> 32" "wildcard_ip_dest_lsb_count m \<le> 32"
  shows "\<exists>m'. of_match_from_string resolver (concat (map render_setting (match_settings m))) old = (m', True)
    \<and> of_match_eq m' m"
proof -
  have "list_all (\<lambda>kv. word_string (fst kv) \<and> word_string (snd kv)) (match_settings m)"
    by (simp add: match_settings_def words_opt_setting)
  then have "kv_pairs (concat (map render_setting (match_settings m))) = match_settings m"
    using kv_pairs_render_append [of _ "[]"] by simp
  moreover have "\<exists>m'. fold (of_match_setting resolver) (match_settings m) (of_match_wildcard_all old, True) = (m', True)
      \<and> of_match_eq m' m"
    unfolding match_settings_def of_match_wildcard_all_def
    by (simp add: fold_written fold_written_always assms of_match_eq_def
          split del: if_split cong: conj_cong)
  ultimately show ?thesis by (simp add: of_match_from_string_def)
qed

theorem of_match_from_string_settings_witness:
  "wildcard_ip_src_lsb_count (of_match_wildcard_all of_match_clear) = 32
   \<and> (\<exists>m'. of_match_from_string (\<lambda>_. None)
          (concat (map render_setting (match_settings (of_match_wildcard_all of_match_clear)))) of_match_clear = (m', True)
        \<and> of_match_eq m' (of_match_wildcard_all of_match_clear))"
  using of_match_from_string_settings [of "of_match_wildcard_all of_match_clear" "\<lambda>_. None" of_match_clear]
  by (simp add: of_match_wildcard_all_def)

subsection \<open>Reading back \<open>to_string\<close>\<close>

definition printed_settings :: "of_match \<Rightarrow> (string \<times> string) list" where
  "printed_settings m =
     opt_setting (wildcard_in_port m) ''in_port'' (dec (unat (in_port m)))
     @ opt_setting (wildcard_ethernet_src m) ''dl_src'' (mac_to_string (ethernet_src m))
     @ opt_setting (wildcard_ethernet_dest m) ''dl_dest'' (mac_to_string (ethernet_dest m))
     @ opt_setting (wildcard_vlan_id m) ''vlan_id'' (dec (unat (vlan_id m)))
     @ opt_setting (wildcard_vlan_pcp m) ''vlan_pcp'' (dec (unat (vlan_pcp m)))
     @ opt_setting (wildcard_ethernet_frame_type m) ''eth_type'' (dec (unat (ethernet_frame_type m)))
     @ opt_setting (wildcard_ip_type_of_service m) ''ip_TOS'' (dec (unat (ip_type_of_service m)))
     @ opt_setting (wildcard_ip_protocol m) ''ip_proto'' (dec (unat (ip_protocol m)))"

definition printed_ports :: "of_match \<Rightarrow> (string \<times> string) list" where
  "printed_ports m =
     opt_setting (wildcard_tcpudp_src_port m) ''nw_src_port'' (dec (unat (tcpudp_src_port m)))
     @ opt_setting (wildcard_tcpudp_dest_port m) ''nw_dest_port'' (dec (unat (tcpudp_dest_port m)))"

lemma render_opt_setting:
  "concat (map render_setting (opt_setting w k v)) = (if w then '''' else k @ ''='' @ v @ '' '')"
  by (simp add: opt_setting_def render_setting_def)

text \<open>A count written after an address as \<open>/n\<close> ends the tokenizer's work.\<close>

lemma kv_pairs_slash:
  assumes "word_string k" "word_string v"
  shows "kv_pairs (k @ CHR ''='' # v @ CHR ''/'' # r) = [(k, v)]"
proof -
  have slash: "\<not> is_word_char CHR ''/''" "\<not> is_whitespace CHR ''/''"
    by (simp_all add: is_word_char_def is_alphanumeric_def is_whitespace_def)
  have k: "k \<noteq> []" "list_all is_word_char k" and v: "v \<noteq> []" "list_all is_word_char v"
    using assms by (auto simp: word_string_def)
  have "kv_pairs (CHR ''/'' # r) = []"
    by (subst kv_pairs.simps) (simp add: Let_def slash)
  moreover have "kv_pairs (k @ CHR ''='' # v @ CHR ''/'' # r)
      = (k, takeWhile is_word_char (v @ CHR ''/'' # r)) # kv_pairs (dropWhile is_word_char (v @ CHR ''/'' # r))"
    by (rule kv_pairs_step [OF dropWhile_space_word [OF assms(1)] _ _ _ _ dropWhile_space_word [OF assms(2)],
          where after_key = "CHR ''='' # v @ CHR ''/'' # r"])
       (simp_all add: k v takeWhile_word equals_classes)
  ultimately show ?thesis by (simp add: takeWhile_word v slash)
qed

lemma kv_pairs_all_wildcarded: "kv_pairs ''all fields wildcarded.'' = []"
  by (subst kv_pairs.simps)
     (simp add: Let_def is_word_char_def is_alphanumeric_def is_whitespace_def)

definition printed_rest :: "of_match \<Rightarrow> string" where
  "printed_rest m =
    (if wildcard_ip_src_lsb_count m < 32
     then ''nw_src'' @ CHR ''='' # ip_to_string (ip_src_address m) @ CHR ''/'' # dec (unat (wildcard_ip_src_lsb_count m)) @ '' ''
     else '''')
    @ (if wildcard_ip_dest_lsb_count m < 32
       then ''nw_dest'' @ CHR ''='' # ip_to_string (ip_dest_address m) @ CHR ''/'' # dec (unat (wildcard_ip_dest_lsb_count m)) @ '' ''
       else '''')
    @ concat (map render_setting (printed_ports m))
    @ (if printed_settings m = [] \<and> printed_ports m = []
          \<and> 32 \<le> wildcard_ip_src_lsb_count m \<and> 32 \<le> wildcard_ip_dest_lsb_count m
       then ''all fields wildcarded.'' else '''')"

lemma opt_setting_empty [simp]: "opt_setting w k v = [] \<longleftrightarrow> w"
  by (simp add: opt_setting_def)

lemma of_match_to_string_settings:
  "of_match_to_string m = concat (map render_setting (printed_settings m)) @ printed_rest m"
  unfolding of_match_to_string_def printed_settings_def printed_rest_def printed_ports_def
  by (simp only: map_append concat_append render_opt_setting append_assoc Let_def append_is_Nil_conv
      opt_setting_empty) simp

lemma kv_pairs_printed_rest:
  "kv_pairs (printed_rest m) =
     (if wildcard_ip_src_lsb_count m < 32 then [(''nw_src'', ip_to_string (ip_src_address m))]
      else if wildcard_ip_dest_lsb_count m < 32 then [(''nw_dest'', ip_to_string (ip_dest_address m))]
      else printed_ports m)"
proof -
  have slash: "word_string k \<Longrightarrow> kv_pairs (k @ CHR ''='' # ip_to_string i @ CHR ''/'' # r) = [(k, ip_to_string i)]"
    for k i r by (simp add: kv_pairs_slash)
  have "list_all (\<lambda>kv. word_string (fst kv) \<and> word_string (snd kv)) (printed_ports m)"
    by (simp add: printed_ports_def words_opt_setting)
  then have ports: "kv_pairs (concat (map render_setting (printed_ports m)) @ r) = printed_ports m @ kv_pairs r" for r
    by (rule kv_pairs_render_append)
  consider (src) "wildcard_ip_src_lsb_count m < 32"
    | (dest) "\<not> wildcard_ip_src_lsb_count m < 32" "wildcard_ip_dest_lsb_count m < 32"
    | (neither) "\<not> wildcard_ip_src_lsb_count m < 32" "\<not> wildcard_ip_dest_lsb_count m < 32" by blast
  then show ?thesis
  proof cases
    case src
    show ?thesis unfolding printed_rest_def if_P [OF src] append_assoc append_Cons append_Nil
      by (rule slash [OF word_string_keys(9), unfolded append_Cons append_Nil])
  next
    case dest
    show ?thesis unfolding printed_rest_def if_P [OF dest(2)] if_not_P [OF dest(1)] append_assoc append_Cons append_Nil
      by (rule slash [OF word_string_keys(10), unfolded append_Cons append_Nil])
  next
    case neither
    show ?thesis unfolding printed_rest_def if_not_P [OF neither(1)] if_not_P [OF neither(2)] append_Nil ports
      by (simp add: kv_pairs_all_wildcarded)
  qed
qed

lemma fold_unknown:
  "fold (of_match_setting f) (opt_setting w ''eth_type'' v) (x, r) = (x, r \<and> w)"
  "fold (of_match_setting f) (opt_setting w ''ip_TOS'' v) (x, r) = (x, r \<and> w)"
  "fold (of_match_setting f) (opt_setting w ''nw_src_port'' v) (x, r) = (x, r \<and> w)"
  "fold (of_match_setting f) (opt_setting w ''nw_dest_port'' v) (x, r) = (x, r \<and> w)"
  by (simp_all add: fold_opt_setting of_match_setting_def)

lemma or_if_eq: "(w \<or> (if w then a else b) = b) \<longleftrightarrow> True"
  by simp

lemma of_match_eq_counts:
  assumes "of_match_eq a b"
  shows "wildcard_ip_src_lsb_count a = wildcard_ip_src_lsb_count b"
    "wildcard_ip_dest_lsb_count a = wildcard_ip_dest_lsb_count b"
  using assms unfolding of_match_eq_def if_False_else by simp_all

text \<open>C22. The text that \<open>to_string\<close> prints is read back by \<open>from_string\<close> as equal criteria
  exactly when the ethertype, the type of service and both ports are wildcarded and both
  address counts are 32: the other fields are printed under keys, or in a form, that
  \<open>from_string\<close> does not take.
\<close>

theorem of_match_print_parse_iff:
  "(\<exists>m'. of_match_from_string resolver (of_match_to_string m) old = (m', True) \<and> of_match_eq m' m)
   \<longleftrightarrow> wildcard_ethernet_frame_type m \<and> wildcard_ip_type_of_service m
     \<and> wildcard_tcpudp_src_port m \<and> wildcard_tcpudp_dest_port m
     \<and> wildcard_ip_src_lsb_count m = 32 \<and> wildcard_ip_dest_lsb_count m = 32"
proof -
  have "list_all (\<lambda>kv. word_string (fst kv) \<and> word_string (snd kv)) (printed_settings m)"
    by (simp add: printed_settings_def words_opt_setting)
  then have kv: "kv_pairs (of_match_to_string m) = printed_settings m @ kv_pairs (printed_rest m)"
    by (simp only: of_match_to_string_settings kv_pairs_render_append)
  consider (src) "wildcard_ip_src_lsb_count m < 32"
    | (dest) "\<not> wildcard_ip_src_lsb_count m < 32" "wildcard_ip_dest_lsb_count m < 32"
    | (neither) "\<not> wildcard_ip_src_lsb_count m < 32" "\<not> wildcard_ip_dest_lsb_count m < 32" by blast
  then show ?thesis
  proof cases
    case src
    then have "kv_pairs (printed_rest m) = opt_setting False ''nw_src'' (ip_to_string (ip_src_address m))"
      by (simp add: kv_pairs_printed_rest opt_setting_def)
    then have "wildcard_ip_src_lsb_count (fst (of_match_from_string resolver (of_match_to_string m) old)) = 32"
      unfolding of_match_from_string_def kv printed_settings_def of_match_wildcard_all_def
      by (simp add: fold_written fold_written_always fold_unknown)
    with src show ?thesis by (auto dest: of_match_eq_counts(1))
  next
    case dest
    then have "kv_pairs (printed_rest m) = opt_setting False ''nw_dest'' (ip_to_string (ip_dest_address m))"
      by (simp add: kv_pairs_printed_rest opt_setting_def)
    then have "wildcard_ip_dest_lsb_count (fst (of_match_from_string resolver (of_match_to_string m) old)) = 32"
      unfolding of_match_from_string_def kv printed_settings_def of_match_wildcard_all_def
      by (simp add: fold_written fold_written_always fold_unknown)
    with dest show ?thesis by (auto dest: of_match_eq_counts(2))
  next
    case neither
    then have rest: "kv_pairs (printed_rest m) = printed_ports m" by (simp add: kv_pairs_printed_rest)
    show ?thesis
      unfolding of_match_from_string_def kv rest printed_settings_def of_match_wildcard_all_def printed_ports_def
      by (simp add: fold_written fold_unknown of_match_eq_def if_False_else or_if_eq
          split del: if_split cong: conj_cong)
  qed
qed

end
