(* ===== verification/Wire.thy ===== *)
theory Wire
  imports Prelude
begin

text \<open>
  Lists of self-delimiting items on the wire. OpenFlow messages carry lists of actions and of
  port descriptions without a count: the reader takes items while at least the smallest item
  is left. \<open>wire_item\<close> is the contract of one item, where \<open>img\<close> is what reading a written item
  gives (None when it is rejected); \<open>wire_items\<close> is that of a reading loop over it. The lemmas
  give what reading a written list gives, and when it is the list itself.
\<close>

section \<open>One item\<close>

locale wire_item =
  fixes least :: nat
    and size_of :: "'a \<Rightarrow> nat"
    and ok :: "'a \<Rightarrow> bool"
    and enc :: "byte list \<Rightarrow> 'a \<Rightarrow> byte list res"
    and dec :: "byte list \<Rightarrow> 'a option res"
    and img :: "'a \<Rightarrow> 'a option"
  assumes least_pos: "0 < least"
    and size_least: "least \<le> size_of a"
    and enc_ok: "ok a \<Longrightarrow> length old = size_of a \<Longrightarrow> \<exists>bs. enc old a = Inr bs \<and> length bs = size_of a"
    and dec_enc: "ok a \<Longrightarrow> length old = size_of a \<Longrightarrow> enc old a = Inr bs \<Longrightarrow> dec (bs @ rest) = Inr (img a)"
    and img_size: "img a = Some b \<Longrightarrow> size_of b = size_of a"

context wire_item
begin

text \<open>\<open>bs\<close> is a written form of the item, over some earlier content of the buffer.\<close>

definition writes :: "byte list \<Rightarrow> 'a \<Rightarrow> bool" where
  "writes bs a = (ok a \<and> (\<exists>old. length old = size_of a \<and> enc old a = Inr bs))"

lemma length_writes: "writes bs a \<Longrightarrow> length bs = size_of a"
  unfolding writes_def using enc_ok by fastforce

lemma dec_writes: "writes bs a \<Longrightarrow> dec (bs @ rest) = Inr (img a)"
  unfolding writes_def using dec_enc by blast

end

section \<open>The reading loop\<close>

locale wire_items = wire_item +
  fixes loop :: "byte list \<Rightarrow> 'a list \<Rightarrow> 'a list option res"
  assumes loop_end: "length input < least \<Longrightarrow> loop input acc = Inr (Some acc)"
    and loop_step: "least \<le> length input \<Longrightarrow> dec input = Inr (Some a)
      \<Longrightarrow> loop input acc = loop (drop (size_of a) input) (acc @ [a])"
    and loop_reject: "least \<le> length input \<Longrightarrow> dec input = Inr None \<Longrightarrow> loop input acc = Inr None"

context wire_items
begin

lemma loop_item:
  assumes "writes bs a"
  shows "loop (bs @ rest) acc = (case img a of None \<Rightarrow> Inr None | Some b \<Rightarrow> loop rest (acc @ [b]))"
proof -
  have len: "length bs = size_of a" by (rule length_writes [OF assms])
  then have least: "least \<le> length (bs @ rest)" using size_least [of a] by simp
  show ?thesis
  proof (cases "img a")
    case None
    then show ?thesis using loop_reject [OF least] dec_writes [OF assms] by simp
  next
    case (Some b)
    then have "loop (bs @ rest) acc = loop (drop (size_of b) (bs @ rest)) (acc @ [b])"
      using loop_step [OF least] dec_writes [OF assms] by simp
    then show ?thesis using len img_size [OF Some] Some by simp
  qed
qed

text \<open>Reading a written list, with fewer bytes after it than an item has.\<close>

lemma loop_items:
  assumes "list_all2 writes bss as" and "length tail < least"
  shows "loop (concat bss @ tail) acc = Inr (map_option (\<lambda>bs. acc @ bs) (those (map img as)))"
  using assms
proof (induction bss as arbitrary: acc rule: list_all2_induct)
  case Nil
  then show ?case by (simp add: loop_end)
next
  case (Cons bs bss a as)
  then show ?case
    by (cases "img a"; cases "those (map img as)") (simp_all add: loop_item)
qed

lemma those_Some_iff: "those xs = Some ys \<longleftrightarrow> xs = map Some ys"
  by (induction xs arbitrary: ys) (auto split: option.splits)

lemma loop_items_same:
  assumes "list_all2 writes bss as" and "length tail < least"
  shows "loop (concat bss @ tail) [] = Inr (Some as) \<longleftrightarrow> list_all (\<lambda>a. img a = Some a) as"
proof -
  have "map img as = map Some as \<longleftrightarrow> list_all (\<lambda>a. img a = Some a) as"
    by (induction as) auto
  then show ?thesis using loop_items [OF assms, of "[]"] by (auto simp: those_Some_iff)
qed

lemma loop_items_rejected:
  assumes "list_all2 writes bss as" and "length tail < least" and "a \<in> set as" and "img a = None"
  shows "loop (concat bss @ tail) acc = Inr None"
proof -
  have "those (map img as) = None"
    using assms(3,4) by (induction as) (auto split: option.splits)
  then show ?thesis using loop_items [OF assms(1,2)] by simp
qed

end

end
