(* ===== verification/Action_List.thy ===== *)
theory Action_List
  imports Of_Action Of_Match_Text Wire
begin

text \<open>
  \<open>controller/ironstack_types/openflow_action_list.{h,cpp}\<close>: the ordered list of actions of a
  flow entry or an outgoing packet, its comparison, its text syntax and its wire form.
\<close>

type_synonym openflow_action_list = "of_action list"

section \<open>The list\<close>

text \<open>Copying clones every action.\<close>

definition action_list_copy :: "openflow_action_list \<Rightarrow> openflow_action_list" where
  "action_list_copy original = map action_clone original"

fun action_found :: "of_action \<Rightarrow> openflow_action_list \<Rightarrow> bool" where
  "action_found action [] = False"
| "action_found action (other # others) = (if action_eq action other then True else action_found action others)"

fun all_found :: "openflow_action_list \<Rightarrow> openflow_action_list \<Rightarrow> bool" where
  "all_found [] other = True"
| "all_found (action # actions) other =
     (if \<not> action_found action other then False else all_found actions other)"

definition action_list_eq :: "openflow_action_list \<Rightarrow> openflow_action_list \<Rightarrow> bool" where
  "action_list_eq this other = (if length this \<noteq> length other then False else all_found this other)"

fun add_action_found :: "openflow_action_list \<Rightarrow> of_action \<Rightarrow> bool" where
  "add_action_found [] action = False"
| "add_action_found (orig # rest) action = (if action_eq orig action then True else add_action_found rest action)"

definition add_action :: "of_action \<Rightarrow> openflow_action_list \<Rightarrow> openflow_action_list" where
  "add_action action actions =
     (if add_action_found actions action then actions else actions @ [action_clone action])"

definition get_actions :: "openflow_action_list \<Rightarrow> openflow_action_list" where
  "get_actions actions = map action_clone actions"

definition action_list_to_string :: "openflow_action_list \<Rightarrow> string" where
  "action_list_to_string actions =
     (if length actions = 0 then ''no actions.'' else '''')
     @ concat (map (\<lambda>item. action_to_string item @ '' '') actions)"

section \<open>Text syntax\<close>

text \<open>
  One setting of \<open>from_string\<close> other than \<open>enqueue_port\<close>: the actions it adds, or None for a
  warning (the result becomes false).
\<close>

definition action_of_setting ::
  "(string \<Rightarrow> ip_address option) \<Rightarrow> string \<Rightarrow> string \<Rightarrow> of_action list option" where
  "action_of_setting resolver k v =
    (if k = ''out_port'' then
       (if v = ''controller'' then Some [Output_To_Port True OFPP_CONTROLLER]
        else case string_to_uint16 v of None \<Rightarrow> None
          | Some port \<Rightarrow> Some [Output_To_Port (port = OFPP_CONTROLLER) port])
     else if k = ''set_vlan'' then
       (case string_to_uint16 v of None \<Rightarrow> None | Some vid \<Rightarrow> Some [Set_Vlan_Id vid])
     else if k = ''set_vlan_pcp'' then
       (case string_to_uint16 v of None \<Rightarrow> None
        | Some pcp \<Rightarrow> if 255 < pcp then None else Some [Set_Vlan_Pcp (ucast pcp)])
     else if k = ''strip_vlan'' then
       (case string_to_uint16 v of None \<Rightarrow> None
        | Some value \<Rightarrow> if 1 < value then None else if value = 1 then Some [Strip_Vlan] else Some [])
     else if k = ''set_dl_src'' then
       (if v \<noteq> mac_to_string (mac_set v) then None else Some [Set_Mac_Address True (mac_set v)])
     else if k = ''set_dl_dest'' then
       (if v \<noteq> mac_to_string (mac_set v) then None else Some [Set_Mac_Address False (mac_set v)])
     else if k = ''set_nw_src'' then
       (if v \<noteq> ip_to_string (fst (ip_set resolver v)) then None
        else Some [Set_Ip_Address True (fst (ip_set resolver v))])
     else if k = ''set_nw_dest'' then
       (if v \<noteq> ip_to_string (fst (ip_set resolver v)) then None
        else Some [Set_Ip_Address False (fst (ip_set resolver v))])
     else if k = ''set_ip_tos'' then
       (case string_to_uint16 v of None \<Rightarrow> None
        | Some tos \<Rightarrow> if 127 < tos then None else Some [Set_Ip_Tos (ucast tos)])
     else if k = ''set_src_port'' then
       (case string_to_uint16 v of None \<Rightarrow> None | Some port \<Rightarrow> Some [Set_Tcpudp_Port True port])
     else if k = ''set_dest_port'' then
       (case string_to_uint16 v of None \<Rightarrow> None | Some port \<Rightarrow> Some [Set_Tcpudp_Port False port])
     else None)"

text \<open>
  The loop over the settings. An \<open>enqueue_port\<close> takes the next setting as well, which is lost
  if it is not a \<open>queue_id\<close>.
\<close>

fun action_settings ::
  "(string \<Rightarrow> ip_address option) \<Rightarrow> (string \<times> string) list \<Rightarrow> openflow_action_list \<times> bool
     \<Rightarrow> openflow_action_list \<times> bool" where
  "action_settings resolver [] (actions, result) = (actions, result)"
| "action_settings resolver ((k, v) # kvs) (actions, result) =
    (if k = ''enqueue_port'' then
       (case string_to_uint16 v of None \<Rightarrow> action_settings resolver kvs (actions, False)
        | Some port \<Rightarrow>
          (case kvs of [] \<Rightarrow> (actions, False)
           | (k', v') # kvs' \<Rightarrow>
             if k' \<noteq> ''queue_id'' then action_settings resolver kvs' (actions, False)
             else case string_to_uint32 v' of None \<Rightarrow> action_settings resolver kvs' (actions, False)
               | Some q \<Rightarrow> action_settings resolver kvs' (actions @ [Enqueue port q], result)))
     else case action_of_setting resolver k v of
         None \<Rightarrow> action_settings resolver kvs (actions, False)
       | Some new \<Rightarrow> action_settings resolver kvs (actions @ new, result))"

definition action_list_from_string ::
  "(string \<Rightarrow> ip_address option) \<Rightarrow> string \<Rightarrow> openflow_action_list \<times> bool" where
  "action_list_from_string resolver input = action_settings resolver (kv_pairs input) ([], True)"

section \<open>Wire form\<close>

definition get_serialization_size :: "openflow_action_list \<Rightarrow> nat" where
  "get_serialization_size actions = foldl (\<lambda>result action. u32 (result + action_size action)) 0 actions"

text \<open>
  The loop of \<open>serialize\<close>: each action writes in place, through a shared buffer of its size at
  the current offset; \<open>ptr_offset_mutable\<close> aborts when the offset is not inside the buffer.
\<close>

fun serialize_actions :: "nat \<Rightarrow> openflow_action_list \<Rightarrow> byte list \<Rightarrow> byte list res" where
  "serialize_actions offset [] buf = Inr buf"
| "serialize_actions offset (action # actions) buf =
    (if length buf \<le> offset then Inl Aborted
     else bindr (fetch offset (action_size action) buf) (\<lambda>old.
       bindr (action_serialize old action) (\<lambda>bs.
         serialize_actions (u32 (offset + action_size action)) actions (blit offset bs buf))))"

text \<open>\<open>fresh n\<close> is what an uncleared buffer of \<open>n\<close> bytes holds.\<close>

definition action_list_serialize :: "(nat \<Rightarrow> byte list) \<Rightarrow> openflow_action_list \<Rightarrow> byte list res" where
  "action_list_serialize fresh actions =
    (if actions = [] then Inr []
     else serialize_actions 0 actions (fresh (get_serialization_size actions)))"

text \<open>
  The loop of \<open>deserialize\<close>, on the input from the current offset. None is a jump to
  \<open>fail\<close>.
\<close>

function deserialize_actions :: "byte list \<Rightarrow> openflow_action_list \<Rightarrow> openflow_action_list option res" where
  "deserialize_actions input actions =
    (if length input < 8 then Inr (Some actions)
     else case deserialize_as (infer_type (take 8 input)) input of
         None \<Rightarrow> Inr None
       | Some r \<Rightarrow> bindr r (\<lambda>(status, action).
           if \<not> status then Inr None
           else deserialize_actions (drop (action_size action) input) (actions @ [action])))"
  by pat_completeness auto
termination
proof (relation "measure (\<lambda>(input, actions). length input)")
  show "wf (measure (\<lambda>(input :: byte list, actions :: openflow_action_list). length input))" by simp
next
  fix input :: "byte list" and actions action
  assume "\<not> length input < 8"
  then show "((drop (action_size action) input, actions @ [action]), input, actions)
      \<in> measure (\<lambda>(input, actions). length input)"
    using action_size_pos [of action] by (simp, linarith)
qed

declare deserialize_actions.simps [simp del]

definition action_list_deserialize :: "byte list \<Rightarrow> (bool \<times> openflow_action_list) res" where
  "action_list_deserialize input =
    (if length input = 0 then Inr (True, [])
     else if length input < 8 then Inr (False, [])
     else bindr (deserialize_actions input []) (\<lambda>r.
       Inr (case r of None \<Rightarrow> (False, []) | Some actions \<Rightarrow> (True, actions))))"

section \<open>The wire contract of actions\<close>

definition read_action :: "byte list \<Rightarrow> of_action option res" where
  "read_action input =
    (case deserialize_as (infer_type (take 8 input)) input of
       None \<Rightarrow> Inr None
     | Some r \<Rightarrow> bindr r (\<lambda>(status, action). Inr (if status then Some action else None)))"

definition reread_option :: "of_action \<Rightarrow> of_action option" where
  "reread_option a = (if fst (reread a) then Some (snd (reread a)) else None)"

lemma infer_type_take: "infer_type (take 8 input) = infer_type input"
  by (cases "length input < 8") (simp_all add: infer_type_def chunk_def)

lemma action_serialize_total:
  "get_action_type a \<noteq> VENDOR \<Longrightarrow> \<exists>bs. action_serialize old a = Inr bs"
  by (cases a) simp_all

lemma action_size_reread: "action_size (snd (reread a)) = (if fst (reread a) then action_size a else 8)"
  by (cases a) (simp_all add: Let_def ip_action_clear_def tcpudp_clear_def)

interpretation actions: wire_items 8 action_size "\<lambda>a. get_action_type a \<noteq> VENDOR" action_serialize
  read_action reread_option deserialize_actions
proof (unfold_locales, goal_cases)
  case (3 a old)
  then show ?case using action_serialize_total [of a old] length_action_serialize [of old a] by blast
next
  case (4 a old bs rest)
  then show ?case
    unfolding read_action_def infer_type_take infer_type_serialize [OF 4(3,2)] deserialize_serialize [OF 4(3,2)]
    by (simp add: reread_option_def case_prod_beta)
next
  case (5 a b)
  then show ?case by (auto simp: reread_option_def action_size_reread split: if_splits)
next
  case (6 input acc)
  then show ?case by (simp add: deserialize_actions.simps)
next
  case (7 input a acc)
  then show ?case
    by (subst deserialize_actions.simps) (auto simp: read_action_def bindr_Inr_iff split: option.splits if_splits)
next
  case (8 input acc)
  then show ?case
    by (subst deserialize_actions.simps) (auto simp: read_action_def bindr_Inr_iff split: option.splits if_splits)
qed simp_all

lemma get_serialization_size_sum:
  "sum_list (map action_size as) < 2 ^ 32 \<Longrightarrow> get_serialization_size as = sum_list (map action_size as)"
proof -
  have "n + sum_list (map action_size as) < 2 ^ 32
      \<Longrightarrow> foldl (\<lambda>result a. u32 (result + action_size a)) n as = n + sum_list (map action_size as)" for n
    by (induction as arbitrary: n) simp_all
  from this [of 0] show "sum_list (map action_size as) < 2 ^ 32 \<Longrightarrow> ?thesis"
    by (simp add: get_serialization_size_def)
qed

text \<open>The loop of \<open>serialize\<close> writes the actions one after the other.\<close>

lemma serialize_actions_writes:
  assumes "list_all (\<lambda>a. get_action_type a \<noteq> VENDOR) as"
    and "length buf = offset + sum_list (map action_size as)" "length buf < 2 ^ 32"
  shows "\<exists>bss. serialize_actions offset as buf = Inr (take offset buf @ concat bss) \<and> list_all2 actions.writes bss as"
  using assms
proof (induction as arbitrary: offset buf)
  case Nil
  then show ?case by (intro exI [of _ "[]"]) simp
next
  case (Cons a as)
  define old where "old = chunk offset (action_size a) buf"
  have old: "length old = action_size a" using Cons.prems by (simp add: old_def)
  obtain bs where bs: "action_serialize old a = Inr bs"
    using action_serialize_total [of a old] Cons.prems(1) by auto
  then have len: "length bs = action_size a" using old by (rule length_action_serialize)
  have w: "actions.writes bs a" using Cons.prems(1) old bs by (auto simp: actions.writes_def)
  have blit: "length (blit offset bs buf) = length buf"
    "take (offset + action_size a) (blit offset bs buf) = take offset buf @ bs"
    using Cons.prems(2) len by (simp_all add: blit_def)
  obtain bss where "serialize_actions (offset + action_size a) as (blit offset bs buf)
      = Inr (take (offset + action_size a) (blit offset bs buf) @ concat bss)" "list_all2 actions.writes bss as"
    using Cons.IH [of "blit offset bs buf" "offset + action_size a"] Cons.prems blit(1) by auto
  moreover have "\<not> length buf \<le> offset" "u32 (offset + action_size a) = offset + action_size a"
    using Cons.prems(2,3) action_size_pos [of a] by (simp, linarith, simp)
  ultimately show ?case
    using Cons.prems(2) bs w blit(2)
    by (intro exI [of _ "bs # bss"]) (simp add: old_def [symmetric] del: action_size_pos)
qed

lemma action_list_serialize_writes:
  assumes "list_all (\<lambda>a. get_action_type a \<noteq> VENDOR) as" "sum_list (map action_size as) < 2 ^ 32"
    and "\<And>n. length (fresh n) = n"
  shows "\<exists>bss. action_list_serialize fresh as = Inr (concat bss) \<and> list_all2 actions.writes bss as"
proof (cases "as = []")
  case False
  let ?buf = "fresh (get_serialization_size as)"
  have "length ?buf = sum_list (map action_size as)" using get_serialization_size_sum [OF assms(2)] assms(3) by simp
  with False show ?thesis
    using serialize_actions_writes [OF assms(1), of ?buf 0] assms(2) by (simp add: action_list_serialize_def)
qed (auto simp: action_list_serialize_def)

lemma writes_nonempty: "list_all2 actions.writes bss as \<Longrightarrow> as \<noteq> [] \<Longrightarrow> 8 \<le> length (concat bss)"
  by (induction rule: list_all2_induct) (auto dest!: actions.length_writes simp: trans_le_add1)

lemma deserialize_written_list:
  assumes "list_all2 actions.writes bss as"
  shows "action_list_deserialize (concat bss) =
    Inr (case those (map reread_option as) of None \<Rightarrow> (False, []) | Some as' \<Rightarrow> (True, as'))"
proof (cases "as = []")
  case False
  have "8 \<le> length (concat bss)" by (rule writes_nonempty [OF assms False])
  moreover have "deserialize_actions (concat bss) [] = Inr (those (map reread_option as))"
    using actions.loop_items [OF assms, of "[]" "[]"] by (simp add: option.map_ident)
  moreover have "length (concat bss) \<noteq> 0" "\<not> length (concat bss) < 8"
    using \<open>8 \<le> length (concat bss)\<close> by linarith+
  ultimately show ?thesis by (simp only: action_list_deserialize_def if_False bindr.simps)
qed (use assms in \<open>simp add: action_list_deserialize_def\<close>)

definition survives :: "of_action \<Rightarrow> bool" where
  "survives a = (get_action_type a \<noteq> SET_NW_ADDR \<and> get_action_type a \<noteq> SET_TCPUDP_PORT
     \<and> (if get_action_type a = OUTPUT_TO_PORT then send_to_controller a = (output_port a = OFPP_CONTROLLER) else True))"

lemma reread_option_same: "reread_option a = Some a \<longleftrightarrow> survives a"
  by (cases a) (auto simp: reread_option_def survives_def Let_def)

lemma action_list_written:
  assumes "list_all (\<lambda>a. get_action_type a \<noteq> VENDOR) as" "sum_list (map action_size as) < 2 ^ 32"
    and "\<And>n. length (fresh n) = n"
  shows "\<exists>bs. action_list_serialize fresh as = Inr bs \<and> length bs = sum_list (map action_size as)
    \<and> (action_list_deserialize bs = Inr (True, as) \<longleftrightarrow> list_all survives as)"
proof -
  obtain bss where bss: "action_list_serialize fresh as = Inr (concat bss)" "list_all2 actions.writes bss as"
    using action_list_serialize_writes [OF assms] by blast
  have "map reread_option as = map Some as \<longleftrightarrow> list_all survives as"
    by (induction as) (simp_all add: reread_option_same)
  then have "those (map reread_option as) = Some as \<longleftrightarrow> list_all survives as"
    by (simp only: actions.those_Some_iff)
  then have "action_list_deserialize (concat bss) = Inr (True, as) \<longleftrightarrow> list_all survives as"
    unfolding deserialize_written_list [OF bss(2)] by (auto split: option.splits)
  moreover have "length (concat bss) = sum_list (map action_size as)"
    using bss(2) by (induction rule: list_all2_induct) (simp_all add: actions.length_writes)
  ultimately show ?thesis using bss(1) by blast
qed

text \<open>
  C34. A list of actions without vendor actions, and shorter than 4 GiB, is written without
  fault, and what is written is read back as the same list exactly when every action of it is
  read back as itself: no address or port rewrite above layer 2, and controller flags that
  agree with their port numbers.
\<close>

theorem action_list_roundtrip_iff:
  assumes "list_all (\<lambda>a. get_action_type a \<noteq> VENDOR) as" "sum_list (map action_size as) < 2 ^ 32"
    and "\<And>n. length (fresh n) = n"
  shows "\<exists>bs. action_list_serialize fresh as = Inr bs
    \<and> (action_list_deserialize bs = Inr (True, as) \<longleftrightarrow> list_all survives as)"
  using action_list_written [OF assms] by blast

theorem action_list_roundtrip_iff_witness:
  "\<exists>bs. action_list_serialize (\<lambda>n. replicate n 0) [Set_Vlan_Id 3, Enqueue 1 2, Output_To_Port False 7] = Inr bs
    \<and> action_list_deserialize bs = Inr (True, [Set_Vlan_Id 3, Enqueue 1 2, Output_To_Port False 7])"
  using action_list_roundtrip_iff [of "[Set_Vlan_Id 3, Enqueue 1 2, Output_To_Port False 7]" "\<lambda>n. replicate n 0"]
  by (simp add: survives_def OFPP_CONTROLLER_def)

text \<open>
  One address or port rewrite above layer 2 makes the whole written list unreadable: the
  reader fails and leaves the list empty.
\<close>

theorem action_list_rewrite_rejected:
  assumes "list_all (\<lambda>a. get_action_type a \<noteq> VENDOR) as" "sum_list (map action_size as) < 2 ^ 32"
    and "\<And>n. length (fresh n) = n"
    and "a \<in> set as" "get_action_type a = SET_NW_ADDR \<or> get_action_type a = SET_TCPUDP_PORT"
  shows "\<exists>bs. action_list_serialize fresh as = Inr bs \<and> action_list_deserialize bs = Inr (False, [])"
proof -
  obtain bss where bss: "action_list_serialize fresh as = Inr (concat bss)" "list_all2 actions.writes bss as"
    using action_list_serialize_writes [OF assms(1-3)] by blast
  have "reread_option a = None" using assms(5) by (cases a) (auto simp: reread_option_def)
  then have "those (map reread_option as) = None"
    using assms(4) by (induction as) (auto split: option.splits)
  with bss show ?thesis by (simp add: deserialize_written_list)
qed

theorem action_list_rewrite_rejected_witness:
  "\<exists>bs. action_list_serialize (\<lambda>n. replicate n 0) [Output_To_Port False 7, Set_Ip_Address True (IP 10 0 0 1)] = Inr bs
    \<and> action_list_deserialize bs = Inr (False, [])"
  using action_list_rewrite_rejected [of "[Output_To_Port False 7, Set_Ip_Address True (IP 10 0 0 1)]"
      "\<lambda>n. replicate n 0" "Set_Ip_Address True (IP 10 0 0 1)"]
  by simp

section \<open>Comparison and insertion\<close>

lemma action_found_iff: "action_found a as \<longleftrightarrow> get_action_type a \<noteq> VENDOR \<and> a \<in> set as"
  by (induction as) (auto simp: action_eq_iff)

lemma add_action_found_iff: "add_action_found as a \<longleftrightarrow> get_action_type a \<noteq> VENDOR \<and> a \<in> set as"
  by (induction as) (auto simp: action_eq_iff)

lemma all_found_iff: "all_found as bs \<longleftrightarrow> (\<forall>a \<in> set as. get_action_type a \<noteq> VENDOR \<and> a \<in> set bs)"
  by (induction as) (auto simp: action_found_iff)

lemma action_list_eq_proper:
  assumes "distinct as" "list_all (\<lambda>a. get_action_type a \<noteq> VENDOR) as" "distinct bs"
  shows "action_list_eq as bs \<longleftrightarrow> set as = set bs"
proof
  assume "action_list_eq as bs"
  then have "length as = length bs" "set as \<subseteq> set bs"
    by (auto simp: action_list_eq_def all_found_iff split: if_splits)
  with assms show "set as = set bs" by (metis List.finite_set card_length card_seteq distinct_card)
next
  assume "set as = set bs"
  with assms show "action_list_eq as bs"
    using distinct_card [of as] distinct_card [of bs]
    by (auto simp: action_list_eq_def all_found_iff list_all_iff)
qed

text \<open>
  On lists that \<open>add_action\<close> builds from the empty list out of actions that are not vendor
  actions, \<open>operator==\<close> holds exactly when both hold the same actions, in any order.
\<close>

theorem action_list_eq_added:
  assumes "list_all (\<lambda>a. get_action_type a \<noteq> VENDOR) xs"
  shows "action_list_eq (fold add_action xs []) (fold add_action ys []) \<longleftrightarrow> set xs = set ys"
proof -
  have set_built: "set (fold add_action zs acc) = set acc \<union> set zs" for zs acc
    by (induction zs arbitrary: acc) (auto simp: add_action_def add_action_found_iff action_clone_def)
  have built: "distinct (fold add_action zs acc)"
    if "distinct acc" "list_all (\<lambda>a. get_action_type a \<noteq> VENDOR) zs" for zs acc
    using that
    by (induction zs arbitrary: acc) (auto simp: add_action_def add_action_found_iff action_clone_def)
  define as bs where "as = fold add_action xs []" and "bs = fold add_action ys []"
  have sets: "set as = set xs" "set bs = set ys" by (simp_all add: as_def bs_def set_built)
  have as: "distinct as" "\<forall>a \<in> set as. get_action_type a \<noteq> VENDOR"
    using built [of "[]" xs] assms sets by (auto simp: as_def list_all_iff)
  have "action_list_eq as bs \<longleftrightarrow> set as = set bs"
  proof (cases "set as = set bs")
    case True
    then have "distinct bs" using built [of "[]" ys] as(2) sets(2) by (simp add: bs_def list_all_iff)
    with as show ?thesis using action_list_eq_proper [of as bs] by (simp add: list_all_iff)
  next
    case False
    then show ?thesis
      using as(1) by (auto simp: action_list_eq_def all_found_iff split: if_splits)
        (metis List.finite_set card_length card_seteq distinct_card subsetI subset_antisym)
  qed
  with sets show ?thesis by (simp add: as_def bs_def)
qed

theorem action_list_eq_added_witness:
  "action_list_eq (fold add_action [Strip_Vlan, Output_To_Port False 1] [])
     (fold add_action [Output_To_Port False 1, Strip_Vlan, Strip_Vlan] [])"
  using action_list_eq_added [of "[Strip_Vlan, Output_To_Port False 1]" "[Output_To_Port False 1, Strip_Vlan, Strip_Vlan]"]
  by auto

section \<open>Reading the text syntax\<close>

text \<open>The settings that stand for an action, as the comments of \<open>of_action.h\<close> give them.\<close>

fun settings_of_action :: "of_action \<Rightarrow> (string \<times> string) list" where
  "settings_of_action (Output_To_Port c p) = [(''out_port'', if c then ''controller'' else dec (unat p))]"
| "settings_of_action (Enqueue p q) = [(''enqueue_port'', dec (unat p)), (''queue_id'', dec (unat q))]"
| "settings_of_action (Set_Vlan_Id v) = [(''set_vlan'', dec (unat v))]"
| "settings_of_action (Set_Vlan_Pcp v) = [(''set_vlan_pcp'', dec (unat v))]"
| "settings_of_action Strip_Vlan = [(''strip_vlan'', ''1'')]"
| "settings_of_action (Set_Mac_Address s a) = [(if s then ''set_dl_src'' else ''set_dl_dest'', mac_to_string a)]"
| "settings_of_action (Set_Ip_Address s a) = [(if s then ''set_nw_src'' else ''set_nw_dest'', ip_to_string a)]"
| "settings_of_action (Set_Ip_Tos t) = [(''set_ip_tos'', dec (unat t))]"
| "settings_of_action (Set_Tcpudp_Port s p) = [(if s then ''set_src_port'' else ''set_dest_port'', dec (unat p))]"
| "settings_of_action (Vendor v r) = [(''vendor'', dec (unat v))]"

definition expressible :: "of_action \<Rightarrow> bool" where
  "expressible a = (case a of
      Output_To_Port c p \<Rightarrow> c = (p = OFPP_CONTROLLER)
    | Set_Ip_Tos t \<Rightarrow> t \<le> 127
    | Vendor v r \<Rightarrow> False
    | _ \<Rightarrow> True)"

lemma dec_not_controller: "dec n \<noteq> ''controller''"
proof
  assume "dec n = ''controller''"
  then have "is_digit CHR ''c''" using dec_digits [of "CHR ''c''" n] by simp
  then show False by (simp add: is_digit_def)
qed

lemma dec_1: "string_to_uint16 ''1'' = Some 1"
proof -
  have "dec 1 = ''1''" by (subst dec.simps) (simp add: digit_char_def char_of_def bit_simps)
  then show ?thesis using string_to_uint16_dec [of 1] by (simp only: unsigned_1)
qed

lemma byte_127: "(127 < (ucast (b :: byte) :: 16 word)) \<longleftrightarrow> 127 < b"
  using unsigned_less [of b, where ?'a = nat] by (simp add: word_less_nat_alt unat_ucast_byte)

lemma action_settings_written:
  assumes "expressible a"
  shows "action_settings resolver (settings_of_action a @ kvs) (as, r) = action_settings resolver kvs (as @ [a], r)"
  using assms
  by (cases a)
     (auto simp: expressible_def action_of_setting_def string_to_uint16_dec string_to_uint32_dec dec_not_controller
       dec_1 byte_127 mac_set_to_string ip_set_to_string not_less [symmetric])

lemma action_settings_list:
  "list_all expressible as
     \<Longrightarrow> action_settings resolver (concat (map settings_of_action as)) (acc, r) = (acc @ as, r)"
proof (induction as arbitrary: acc)
  case (Cons a as)
  then show ?case by (simp add: action_settings_written)
qed simp

lemma word_string_action_keys [simp]:
  "word_string ''out_port''" "word_string ''enqueue_port''" "word_string ''queue_id''" "word_string ''set_vlan''"
  "word_string ''set_vlan_pcp''" "word_string ''strip_vlan''" "word_string ''set_dl_src''"
  "word_string ''set_dl_dest''" "word_string ''set_nw_src''" "word_string ''set_nw_dest''"
  "word_string ''set_ip_tos''" "word_string ''set_src_port''" "word_string ''set_dest_port''"
  "word_string ''vendor''" "word_string ''controller''" "word_string ''1''"
  by (simp_all add: word_string_def is_word_char_def is_alphanumeric_def)

lemma settings_words:
  "list_all (\<lambda>kv. word_string (fst kv) \<and> word_string (snd kv)) (settings_of_action a)"
  by (cases a) simp_all

text \<open>
  Every list of actions that the documented syntax can express (a type of service up to
  127, controller flags that agree with the port, no vendor actions) is read back from its
  text by \<open>from_string\<close>, with success and in order.
\<close>

theorem action_list_from_string_settings:
  assumes "list_all expressible as"
  shows "action_list_from_string resolver (concat (map render_setting (concat (map settings_of_action as)))) = (as, True)"
proof -
  have "list_all (\<lambda>kv. word_string (fst kv) \<and> word_string (snd kv)) (concat (map settings_of_action as))"
    using settings_words by (induction as) simp_all
  then show ?thesis
    using kv_pairs_render_append [of _ "[]"] action_settings_list [OF assms, of resolver "[]"]
    by (simp add: action_list_from_string_def)
qed

theorem action_list_from_string_settings_witness:
  "action_list_from_string (\<lambda>_. None)
     (concat (map render_setting [(''out_port'', ''controller''), (''strip_vlan'', ''1'')]))
   = ([Output_To_Port True OFPP_CONTROLLER, Strip_Vlan], True)"
  using action_list_from_string_settings [of "[Output_To_Port True OFPP_CONTROLLER, Strip_Vlan]" "\<lambda>_. None"]
  by (simp add: expressible_def)

lemma get_serialization_size_bound: "get_serialization_size as < 2 ^ 32"
  unfolding get_serialization_size_def by (cases as rule: rev_cases) (simp_all add: u32_def)

lemma length_serialize_actions:
  "serialize_actions offset as buf = Inr r \<Longrightarrow> length r = length buf"
proof (induction offset as buf rule: serialize_actions.induct)
  case (2 offset a as buf)
  then obtain bs where bs: "offset + action_size a \<le> length buf"
      "action_serialize (chunk offset (action_size a) buf) a = Inr bs"
      "serialize_actions (u32 (offset + action_size a)) as (blit offset bs buf) = Inr r"
    by (auto simp: bindr_Inr_iff fetch_def split: if_splits)
  then have len: "length bs = action_size a" by (simp add: length_action_serialize)
  have "\<not> length buf \<le> offset" using bs(1) action_size_pos [of a] by linarith
  then have "length r = length (blit offset bs buf)" using 2(1) bs(3) by blast
  then show ?case using len bs(1) by simp
qed simp

lemma length_action_list_serialize:
  assumes "action_list_serialize fresh as = Inr bs" "\<And>n. length (fresh n) = n"
  shows "length bs = get_serialization_size as"
proof (cases "as = []")
  case False
  with assms show ?thesis by (auto simp: action_list_serialize_def dest: length_serialize_actions)
qed (use assms in \<open>simp add: action_list_serialize_def get_serialization_size_def\<close>)

end
