(* ===== verification/Flow_Types.thy ===== *)
theory Flow_Types
  imports Action_List
begin

text \<open>
  Flow descriptions and flow entries (\<open>controller/ironstack_types/openflow_flow_description\<close>,
  \<open>openflow_flow_entry\<close>) and the timer an entry carries (\<open>common/timer\<close>). The steady clock is
  an argument \<open>now\<close>, in milliseconds; a timer is the reading it was last set to.
\<close>

section \<open>Timers\<close>

type_synonym timer = int

definition timer_reset :: "int \<Rightarrow> timer" where
  "timer_reset now = now"

definition timer_set_start_relative_to_now :: "int \<Rightarrow> int \<Rightarrow> timer" where
  "timer_set_start_relative_to_now now displacement_ms = now - displacement_ms"

text \<open>The elapsed time is returned as an \<open>int\<close> of 32 bits.\<close>

definition get_time_elapsed_ms :: "int \<Rightarrow> timer \<Rightarrow> int" where
  "get_time_elapsed_ms now t = signed_take_bit 31 (now - t)"

lemma get_time_elapsed_ms_id:
  "0 \<le> now - t \<Longrightarrow> now - t < 2147483648 \<Longrightarrow> get_time_elapsed_ms now t = now - t"
  by (simp add: get_time_elapsed_ms_def signed_take_bit_int_eq_self)

section \<open>Flow descriptions\<close>

record openflow_flow_description =
  criteria :: of_match
  action_list :: openflow_action_list
  cookie :: "64 word"
  priority :: "16 word"

definition flow_description_clear :: openflow_flow_description where
  "flow_description_clear = \<lparr>criteria = of_match_clear, action_list = [], cookie = 0, priority = 0\<rparr>"

text \<open>Cookies and priorities are not compared.\<close>

definition flow_description_eq :: "openflow_flow_description \<Rightarrow> openflow_flow_description \<Rightarrow> bool" where
  "flow_description_eq this other =
    (if of_match_eq (criteria this) (criteria other) \<and> action_list_eq (action_list this) (action_list other)
     then True else False)"

definition flow_description_to_string :: "openflow_flow_description \<Rightarrow> string" where
  "flow_description_to_string d =
     of_match_to_string (criteria d) @ [CHR 0x0A] @ ''cookie id: '' @ dec (unat (cookie d))
     @ [CHR 0x0A] @ ''priority : '' @ dec (unat (priority d))
     @ [CHR 0x0A] @ ''actions  : '' @ action_list_to_string (action_list d)"

section \<open>Flow entries\<close>

datatype flow_state = FS_UNKNOWN | PENDING_INSTALLATION | ACTIVE | PENDING_DELETION | DELETED

record openflow_flow_entry =
  state :: flow_state
  idle_timeout :: "32 word"
  hard_timeout :: "32 word"
  last_updated :: timer
  install_reason :: string
  description :: openflow_flow_description
  is_updated :: bool

definition flow_entry_new :: "int \<Rightarrow> openflow_flow_entry" where
  "flow_entry_new now = \<lparr>state = FS_UNKNOWN, idle_timeout = 0, hard_timeout = 0, last_updated = timer_reset now,
     install_reason = ''unknown'', description = flow_description_clear, is_updated = False\<rparr>"

definition flow_entry_clear :: "int \<Rightarrow> openflow_flow_entry \<Rightarrow> openflow_flow_entry" where
  "flow_entry_clear now e = e\<lparr>state := FS_UNKNOWN, idle_timeout := 0, hard_timeout := 0,
     last_updated := timer_reset now, install_reason := ''unknown'', description := flow_description_clear,
     is_updated := False\<rparr>"

definition set_state :: "int \<Rightarrow> flow_state \<Rightarrow> openflow_flow_entry \<Rightarrow> openflow_flow_entry" where
  "set_state now new_state e = e\<lparr>state := new_state, last_updated := timer_reset now\<rparr>"

definition is_live :: "openflow_flow_entry \<Rightarrow> bool" where
  "is_live e = (state e = ACTIVE)"

definition is_static :: "openflow_flow_entry \<Rightarrow> bool" where
  "is_static e = (idle_timeout e = 0 \<and> hard_timeout e = 0)"

definition get_time_since_update_ms :: "int \<Rightarrow> openflow_flow_entry \<Rightarrow> int" where
  "get_time_since_update_ms now e = get_time_elapsed_ms now (last_updated e)"

fun get_state_string :: "flow_state \<Rightarrow> string" where
  "get_state_string FS_UNKNOWN = ''unknown''"
| "get_state_string PENDING_INSTALLATION = ''pending installation''"
| "get_state_string ACTIVE = ''active''"
| "get_state_string PENDING_DELETION = ''pending deletion''"
| "get_state_string DELETED = ''deleted''"

lemma set_state_simps [simp]:
  "state (set_state now s e) = s" "description (set_state now s e) = description e"
  "is_updated (set_state now s e) = is_updated e" "last_updated (set_state now s e) = now"
  "idle_timeout (set_state now s e) = idle_timeout e" "hard_timeout (set_state now s e) = hard_timeout e"
  "is_static (set_state now s e) = is_static e"
  by (simp_all add: set_state_def timer_reset_def is_static_def)

lemma flow_entry_clear_new: "flow_entry_clear now e = flow_entry_new now"
  by (simp add: flow_entry_clear_def flow_entry_new_def)

subsection \<open>Comparing descriptions\<close>

text \<open>The operator is reflexive on descriptions without vendor actions, and symmetric and
  transitive on those whose actions are distinct, as \<open>add_action\<close> makes them.\<close>

definition proper_description :: "openflow_flow_description \<Rightarrow> bool" where
  "proper_description d = (distinct (action_list d) \<and> list_all (\<lambda>a. get_action_type a \<noteq> VENDOR) (action_list d))"

lemma flow_description_eq_refl: "proper_description d \<Longrightarrow> flow_description_eq d d"
  by (simp add: flow_description_eq_def proper_description_def action_list_eq_proper of_match_eq_refl)

lemma flow_description_eq_sym:
  "proper_description d \<Longrightarrow> proper_description e \<Longrightarrow> flow_description_eq d e \<Longrightarrow> flow_description_eq e d"
  by (auto simp: flow_description_eq_def proper_description_def action_list_eq_proper of_match_eq_sym split: if_splits)

lemma flow_description_eq_trans:
  "proper_description d \<Longrightarrow> proper_description e \<Longrightarrow> proper_description f
     \<Longrightarrow> flow_description_eq d e \<Longrightarrow> flow_description_eq e f \<Longrightarrow> flow_description_eq d f"
  by (auto simp: flow_description_eq_def proper_description_def action_list_eq_proper
      intro: of_match_eq_trans split: if_splits)

end
