(* ===== verification/Of_Message.thy ===== *)
theory Of_Message
  imports Flow_Types
begin

text \<open>
  \<open>controller/openflow_messages\<close>: the common header of the OpenFlow messages, and the messages
  that the flow services exchange with the switch. A message class is a record that extends
  the header; \<open>serialize\<close> gives the bytes of the buffer afterwards (\<open>old\<close> is what an uncleared
  buffer of that size holds), \<open>deserialize\<close> the result and the object afterwards.

  \<open>of_message::deserialize\<close> calls the virtual \<open>clear()\<close> of the message's own class, which may
  or may not reset the header fields: where it does not, they keep their value, so the object
  before the call is an argument.
\<close>

section \<open>The header\<close>

text \<open>The codes of \<open>enum ofp_type\<close> that the modelled messages use.\<close>

definition OFPT_HELLO :: byte where "OFPT_HELLO = 0"
definition OFPT_ERROR :: byte where "OFPT_ERROR = 1"
definition OFPT_ECHO_REQUEST :: byte where "OFPT_ECHO_REQUEST = 2"
definition OFPT_ECHO_REPLY :: byte where "OFPT_ECHO_REPLY = 3"
definition OFPT_FLOW_REMOVED :: byte where "OFPT_FLOW_REMOVED = 11"
definition OFPT_PACKET_OUT :: byte where "OFPT_PACKET_OUT = 13"
definition OFPT_FLOW_MOD :: byte where "OFPT_FLOW_MOD = 14"
definition OFPT_BARRIER_REQUEST :: byte where "OFPT_BARRIER_REQUEST = 18"
definition OFPT_BARRIER_REPLY :: byte where "OFPT_BARRIER_REPLY = 19"
definition OFPT_QUEUE_GET_CONFIG_REPLY :: byte where "OFPT_QUEUE_GET_CONFIG_REPLY = 21"

lemmas ofpt_defs =
  OFPT_HELLO_def OFPT_ERROR_def OFPT_ECHO_REQUEST_def OFPT_ECHO_REPLY_def OFPT_FLOW_REMOVED_def
  OFPT_PACKET_OUT_def OFPT_FLOW_MOD_def OFPT_BARRIER_REQUEST_def OFPT_BARRIER_REPLY_def
  OFPT_QUEUE_GET_CONFIG_REPLY_def

definition OFPP_NONE :: "16 word" where "OFPP_NONE = 0xffff"

record of_message =
  version :: byte
  msg_type :: byte
  msg_size :: "16 word"
  xid :: "32 word"

definition of_message_clear :: of_message where
  "of_message_clear = \<lparr>version = 1, msg_type = OFPT_HELLO, msg_size = 8, xid = 0\<rparr>"

definition header_bytes :: "byte \<Rightarrow> byte \<Rightarrow> 16 word \<Rightarrow> 32 word \<Rightarrow> byte list" where
  "header_bytes v t len x = [v, t] @ be16 len @ be32 x"

definition of_message_serialize :: "of_message \<Rightarrow> byte list" where
  "of_message_serialize m = header_bytes (version m) (msg_type m) (msg_size m) (xid m)"

text \<open>The base class part of \<open>deserialize\<close>: the header fields, or None for a failure.\<close>

definition of_message_header :: "byte list \<Rightarrow> of_message option" where
  "of_message_header input =
    (if length input < 8 then None
     else if OFPT_QUEUE_GET_CONFIG_REPLY < input ! 1 then None
     else Some \<lparr>version = input ! 0, msg_type = input ! 1, msg_size = of_be16 (chunk 2 2 input),
                xid = of_be32 (chunk 4 4 input)\<rparr>)"

definition of_message_deserialize :: "byte list \<Rightarrow> bool \<times> of_message" where
  "of_message_deserialize input =
    (case of_message_header input of None \<Rightarrow> (False, of_message_clear) | Some h \<Rightarrow> (True, h))"

lemma length_header_bytes [simp]: "length (header_bytes v t len x) = 8"
  by (simp add: header_bytes_def)

lemma of_message_header_bytes:
  "of_message_header (header_bytes v t len x @ rest) =
    (if OFPT_QUEUE_GET_CONFIG_REPLY < t then None
     else Some \<lparr>version = v, msg_type = t, msg_size = len, xid = x\<rparr>)"
  by (simp add: of_message_header_def header_bytes_def field_simps_rules)

lemma chunk_after_message_header:
  "8 \<le> off \<Longrightarrow> chunk off n (header_bytes v t len x @ rest) = chunk (off - 8) n rest"
  by (simp add: chunk_append_right)

section \<open>Hello and barrier\<close>

definition hello_clear :: of_message where
  "hello_clear = \<lparr>version = 1, msg_type = OFPT_HELLO, msg_size = 8, xid = 0\<rparr>"

definition hello_deserialize :: "byte list \<Rightarrow> bool \<times> of_message" where
  "hello_deserialize input =
    (case of_message_header input of None \<Rightarrow> (False, hello_clear)
     | Some h \<Rightarrow> if msg_size h \<noteq> 8 \<or> msg_type h \<noteq> OFPT_HELLO then (False, hello_clear) else (True, h))"

definition barrier_request_clear :: of_message where
  "barrier_request_clear = of_message_clear\<lparr>msg_type := OFPT_BARRIER_REQUEST\<rparr>"

definition barrier_reply_clear :: of_message where
  "barrier_reply_clear = of_message_clear\<lparr>msg_type := OFPT_BARRIER_REPLY\<rparr>"

definition barrier_reply_deserialize :: "byte list \<Rightarrow> bool \<times> of_message" where
  "barrier_reply_deserialize input =
    (case of_message_header input of None \<Rightarrow> (False, barrier_reply_clear)
     | Some h \<Rightarrow> if msg_type h \<noteq> OFPT_BARRIER_REPLY then (False, barrier_reply_clear) else (True, h))"

section \<open>Echo\<close>

record of_message_echo = of_message +
  data :: "byte list"

definition echo_request_clear :: of_message_echo where
  "echo_request_clear = \<lparr>version = 1, msg_type = OFPT_ECHO_REQUEST, msg_size = 8, xid = 0, data = []\<rparr>"

definition echo_reply_clear :: of_message_echo where
  "echo_reply_clear = \<lparr>version = 1, msg_type = OFPT_ECHO_REPLY, msg_size = 8, xid = 0, data = []\<rparr>"

text \<open>The size is a \<open>uint32_t\<close>, stored in 16 bits.\<close>

definition echo_serialize :: "of_message_echo \<Rightarrow> byte list res" where
  "echo_serialize m =
    (let size_required = u32 (8 + length (data m)) in
     if size_required < 8 + length (data m) then Inl OutOfBounds
     else Inr (header_bytes (version m) (msg_type m) (word_of_nat size_required) (xid m) @ data m))"

text \<open>The payload is the rear of the input; \<open>read_rear\<close> aborts when there is not enough of it,
  and a length field below 8 wraps to a huge length.\<close>

definition echo_deserialize :: "of_message_echo \<Rightarrow> byte list \<Rightarrow> (bool \<times> of_message_echo) res" where
  "echo_deserialize cleared input =
    (case of_message_header input of None \<Rightarrow> Inr (False, cleared)
     | Some h \<Rightarrow>
        let payload_len = unat (ucast (msg_size h) - 8 :: 32 word) in
        if length input < payload_len then Inl Aborted
        else Inr (True, of_message.extend h
               (of_message_echo.fields (drop (length input - payload_len) input))))"

definition echo_request_deserialize :: "byte list \<Rightarrow> (bool \<times> of_message_echo) res" where
  "echo_request_deserialize input = echo_deserialize echo_request_clear input"

definition echo_reply_deserialize :: "byte list \<Rightarrow> (bool \<times> of_message_echo) res" where
  "echo_reply_deserialize input = echo_deserialize echo_reply_clear input"

section \<open>Modify flow\<close>

datatype flow_mod_command = OFPFC_ADD | OFPFC_MODIFY | OFPFC_MODIFY_STRICT | OFPFC_DELETE | OFPFC_DELETE_STRICT

primrec command_code :: "flow_mod_command \<Rightarrow> 16 word" where
  "command_code OFPFC_ADD = 0"
| "command_code OFPFC_MODIFY = 1"
| "command_code OFPFC_MODIFY_STRICT = 2"
| "command_code OFPFC_DELETE = 3"
| "command_code OFPFC_DELETE_STRICT = 4"

definition command_of_code :: "16 word \<Rightarrow> flow_mod_command option" where
  "command_of_code c =
    (if c = 0 then Some OFPFC_ADD else if c = 1 then Some OFPFC_MODIFY
     else if c = 2 then Some OFPFC_MODIFY_STRICT else if c = 3 then Some OFPFC_DELETE
     else if c = 4 then Some OFPFC_DELETE_STRICT else None)"

record of_message_modify_flow = of_message +
  flow_description :: openflow_flow_description
  command :: flow_mod_command
  mod_idle_timeout :: "16 word"
  mod_hard_timeout :: "16 word"
  buffer_id :: "32 word"
  use_out_port :: bool
  out_port :: "16 word"
  flag_send_flow_removal_message :: bool
  flag_check_overlap :: bool
  flag_emergency_flow :: bool

text \<open>\<open>clear()\<close> leaves the version, the size and the transaction id.\<close>

definition modify_flow_clear :: "of_message_modify_flow \<Rightarrow> of_message_modify_flow" where
  "modify_flow_clear m = m\<lparr>msg_type := OFPT_FLOW_MOD, flow_description := flow_description_clear,
     command := OFPFC_ADD, mod_idle_timeout := 0, mod_hard_timeout := 0, buffer_id := 0, use_out_port := False,
     out_port := OFPP_NONE, flag_send_flow_removal_message := False, flag_check_overlap := False,
     flag_emergency_flow := False\<rparr>"

text \<open>The constructor: the base constructor resets the header, then \<open>clear()\<close>.\<close>

definition modify_flow_new :: of_message_modify_flow where
  "modify_flow_new = \<lparr>version = 1, msg_type = OFPT_FLOW_MOD, msg_size = 8, xid = 0,
     flow_description = flow_description_clear, command = OFPFC_ADD, mod_idle_timeout = 0, mod_hard_timeout = 0,
     buffer_id = 0, use_out_port = False, out_port = OFPP_NONE, flag_send_flow_removal_message = False,
     flag_check_overlap = False, flag_emergency_flow = False\<rparr>"

definition modify_flow_flags :: "of_message_modify_flow \<Rightarrow> 16 word" where
  "modify_flow_flags m =
     (if flag_send_flow_removal_message m then 1 else 0) OR (if flag_check_overlap m then 2 else 0)
     OR (if flag_emergency_flow m then 4 else 0)"

text \<open>The fixed part of the message, 72 bytes; the rest of the zeroed buffer takes the actions.\<close>

definition modify_flow_fixed :: "of_message_modify_flow \<Rightarrow> nat \<Rightarrow> byte list" where
  "modify_flow_fixed m size_required =
     header_bytes (version m) (msg_type m) (word_of_nat size_required) (xid m)
     @ of_match_serialize (criteria (flow_description m))
     @ be64 (cookie (flow_description m)) @ be16 (command_code (command m))
     @ be16 (mod_idle_timeout m) @ be16 (mod_hard_timeout m) @ be16 (priority (flow_description m))
     @ be32 (buffer_id m) @ be16 (if use_out_port m then out_port m else OFPP_NONE)
     @ be16 (modify_flow_flags m)"

definition modify_flow_serialize :: "of_message_modify_flow \<Rightarrow> byte list res" where
  "modify_flow_serialize m =
    (let action_list_size = get_serialization_size (action_list (flow_description m));
         size_required = u32 (72 + action_list_size) in
     if size_required < 72 then Inl OutOfBounds
     else if 0 < action_list_size
     then bindr (action_list_serialize (\<lambda>n. replicate n 0) (action_list (flow_description m)))
            (\<lambda>actions. Inr (modify_flow_fixed m size_required @ actions))
     else Inr (modify_flow_fixed m size_required))"

text \<open>
  \<open>deserialize\<close> only checks the input against the 40 bytes of a match, reads the cookie without
  a byte swap, and does not read the actions.
\<close>

definition modify_flow_read :: "of_message \<Rightarrow> byte list \<Rightarrow> flow_mod_command \<Rightarrow> of_message_modify_flow" where
  "modify_flow_read h input cmd =
    (let port = of_be16 (chunk 68 2 input); flags = of_be16 (chunk 70 2 input) in
     \<lparr>version = version h, msg_type = msg_type h, msg_size = msg_size h, xid = xid h,
      flow_description = \<lparr>criteria = snd (of_match_deserialize (chunk 8 40 input)), action_list = [],
        cookie = of_le64 (chunk 48 8 input), priority = of_be16 (chunk 62 2 input)\<rparr>,
      command = cmd, mod_idle_timeout = of_be16 (chunk 58 2 input), mod_hard_timeout = of_be16 (chunk 60 2 input),
      buffer_id = of_be32 (chunk 64 4 input),
      use_out_port = (if port = OFPP_NONE then False else True), out_port = port,
      flag_send_flow_removal_message = (0 < flags AND 1), flag_check_overlap = (0 < flags AND 2),
      flag_emergency_flow = (0 < flags AND 4)\<rparr>)"

definition modify_flow_deserialize ::
  "of_message_modify_flow \<Rightarrow> byte list \<Rightarrow> (bool \<times> of_message_modify_flow) res" where
  "modify_flow_deserialize this input =
    (case of_message_header input of None \<Rightarrow> Inr (False, modify_flow_clear this)
     | Some h \<Rightarrow>
        let this' = this\<lparr>version := version h, msg_size := msg_size h, xid := xid h\<rparr> in
        if length input < 40 \<or> msg_type h \<noteq> OFPT_FLOW_MOD then Inr (False, modify_flow_clear this')
        else bindr (fetch 8 40 input) (\<lambda>match_struct. bindr (fetch 56 2 input) (\<lambda>cmd.
          case command_of_code (of_be16 cmd) of None \<Rightarrow> Inr (False, modify_flow_clear this')
          | Some c \<Rightarrow> bindr (fetch 58 14 input) (\<lambda>_. Inr (True, modify_flow_read h input c)))))"

subsection \<open>Reading back what was written\<close>

lemma command_of_command_code [simp]: "command_of_code (command_code c) = Some c"
  by (cases c) (simp_all add: command_of_code_def)

lemma length_modify_flow_fixed [simp]: "length (modify_flow_fixed m n) = 72"
  by (simp add: modify_flow_fixed_def)

lemma length_modify_flow_serialize:
  assumes "modify_flow_serialize m = Inr bs"
  shows "72 \<le> length bs \<and> length bs = u32 (72 + get_serialization_size (action_list (flow_description m)))"
proof -
  let ?n = "get_serialization_size (action_list (flow_description m))"
  have n: "?n < 2 ^ 32" by (rule get_serialization_size_bound)
  have no_wrap: "u32 (72 + ?n) = 72 + ?n" if "\<not> u32 (72 + ?n) < 72"
  proof (rule ccontr)
    assume "u32 (72 + ?n) \<noteq> 72 + ?n"
    then have "\<not> 72 + ?n < 2 ^ 32" by auto
    with n have "u32 (72 + ?n) = 72 + ?n - 2 ^ 32" by (simp add: u32_def le_mod_geq not_less)
    with that n show False by linarith
  qed
  show ?thesis
  proof (cases "u32 (72 + ?n) < 72")
    case False
    with assms no_wrap [OF False] show ?thesis
      by (auto simp: modify_flow_serialize_def Let_def bindr_Inr_iff dest!: length_action_list_serialize split: if_splits)
  qed (use assms in \<open>simp add: modify_flow_serialize_def\<close>)
qed

lemma modify_flow_serialize_fixed:
  assumes "modify_flow_serialize m = Inr bs"
  shows "\<exists>rest. bs = modify_flow_fixed m (length bs) @ rest"
  using assms length_modify_flow_serialize [OF assms]
  by (auto simp: modify_flow_serialize_def Let_def bindr_Inr_iff split: if_splits)

lemma modify_flow_flag_bits:
  "(0 < modify_flow_flags m AND 1) = flag_send_flow_removal_message m"
  "(0 < modify_flow_flags m AND 2) = flag_check_overlap m"
  "(0 < modify_flow_flags m AND 4) = flag_emergency_flow m"
  by (auto simp: modify_flow_flags_def)

text \<open>
  A modify-flow message that is written and read back keeps the transaction id, the
  command, the timeouts, the priority, the buffer and the flags; the size becomes the length
  that was written, the criteria are what reading them back gives, the actions are gone, and
  the bytes of the cookie are reversed.
\<close>

theorem modify_flow_reread:
  assumes "modify_flow_serialize m = Inr bs" "msg_type m = OFPT_FLOW_MOD"
  shows "modify_flow_deserialize this bs = Inr (True, m\<lparr>
    msg_size := word_of_nat (length bs),
    flow_description := \<lparr>
      criteria = snd (of_match_deserialize (of_match_serialize (criteria (flow_description m)))),
      action_list = [], cookie = of_le64 (be64 (cookie (flow_description m))),
      priority = priority (flow_description m)\<rparr>,
    use_out_port := use_out_port m \<and> out_port m \<noteq> OFPP_NONE,
    out_port := if use_out_port m then out_port m else OFPP_NONE\<rparr>)"
proof -
  obtain rest where bs: "bs = modify_flow_fixed m (length bs) @ rest"
    using modify_flow_serialize_fixed [OF assms(1)] by blast
  have len: "72 \<le> length bs" using length_modify_flow_serialize [OF assms(1)] by blast
  have fields: "chunk 8 40 bs = of_match_serialize (criteria (flow_description m))"
      "chunk 48 8 bs = be64 (cookie (flow_description m))" "chunk 56 2 bs = be16 (command_code (command m))"
      "chunk 58 2 bs = be16 (mod_idle_timeout m)" "chunk 60 2 bs = be16 (mod_hard_timeout m)"
      "chunk 62 2 bs = be16 (priority (flow_description m))" "chunk 64 4 bs = be32 (buffer_id m)"
      "chunk 68 2 bs = be16 (if use_out_port m then out_port m else OFPP_NONE)"
      "chunk 70 2 bs = be16 (modify_flow_flags m)"
    by (subst bs, simp add: modify_flow_fixed_def chunk_after_message_header field_simps_rules)+
  have header: "of_message_header bs
      = Some \<lparr>version = version m, msg_type = msg_type m, msg_size = word_of_nat (length bs), xid = xid m\<rparr>"
    by (subst bs) (simp add: modify_flow_fixed_def of_message_header_bytes assms(2) ofpt_defs)
  show ?thesis
    using len assms(2)
    by (cases m) (simp add: modify_flow_deserialize_def header fields modify_flow_read_def modify_flow_flag_bits Let_def)
qed

theorem modify_flow_reread_witness:
  "\<exists>bs. modify_flow_serialize (modify_flow_new\<lparr>xid := 7, command := OFPFC_DELETE\<rparr>) = Inr bs
    \<and> (\<exists>m'. modify_flow_deserialize modify_flow_new bs = Inr (True, m') \<and> xid m' = 7 \<and> command m' = OFPFC_DELETE)"
proof -
  let ?m = "modify_flow_new\<lparr>xid := 7, command := OFPFC_DELETE\<rparr>"
  have "\<exists>bs. modify_flow_serialize ?m = Inr bs" "msg_type ?m = OFPT_FLOW_MOD"
    by (simp_all add: modify_flow_serialize_def modify_flow_new_def flow_description_clear_def
        get_serialization_size_def)
  then show ?thesis using modify_flow_reread [of ?m _ modify_flow_new] by (auto simp: modify_flow_new_def)
qed

text \<open>
  \<open>deserialize\<close> of a modify-flow message checks its input against 40 bytes only: on
  inputs of 40 to 57 bytes with a valid header it reads past the end; on shorter inputs it
  fails without touching anything outside.
\<close>

theorem modify_flow_short_input:
  assumes "of_message_header input = Some h" "msg_type h = OFPT_FLOW_MOD" "length input < 58"
  shows "modify_flow_deserialize this input =
    (if length input < 40
     then Inr (False, modify_flow_clear (this\<lparr>version := version h, msg_size := msg_size h, xid := xid h\<rparr>))
     else Inl OutOfBounds)"
  using assms by (cases "length input < 48") (simp_all add: modify_flow_deserialize_def Let_def)

theorem modify_flow_short_input_witness:
  "modify_flow_deserialize modify_flow_new ([1, 14, 0, 50, 0, 0, 0, 9] @ replicate 42 0) = Inl OutOfBounds"
proof -
  let ?in = "[1, 14, 0, 50, 0, 0, 0, 9] @ replicate 42 (0 :: byte)"
  have "\<exists>h. of_message_header ?in = Some h \<and> msg_type h = OFPT_FLOW_MOD"
    by (simp add: of_message_header_def ofpt_defs)
  then show ?thesis using modify_flow_short_input [of ?in _ modify_flow_new] by auto
qed

section \<open>Flow removed\<close>

record of_message_flow_removed = of_message +
  removed_match :: of_match
  removed_cookie :: "64 word"
  removed_priority :: "16 word"
  reason_idle_timeout :: bool
  reason_hard_timeout :: bool
  reason_manually_removed :: bool
  duration_alive_sec :: "32 word"
  duration_alive_nsec :: "32 word"
  original_idle_timeout :: "16 word"
  packet_count :: "64 word"
  byte_count :: "64 word"

definition flow_removed_clear :: "of_message \<Rightarrow> of_message_flow_removed" where
  "flow_removed_clear h = \<lparr>version = version h, msg_type = OFPT_FLOW_REMOVED, msg_size = msg_size h, xid = xid h,
     removed_match = of_match_clear, removed_cookie = 0, removed_priority = 0, reason_idle_timeout = False,
     reason_hard_timeout = False, reason_manually_removed = False, duration_alive_sec = 0,
     duration_alive_nsec = 0, original_idle_timeout = 0, packet_count = 0, byte_count = 0\<rparr>"

text \<open>The length is checked in the header field of the message, not in the input.\<close>

definition flow_removed_deserialize :: "of_message \<Rightarrow> byte list \<Rightarrow> (bool \<times> of_message_flow_removed) res" where
  "flow_removed_deserialize this input =
    (case of_message_header input of None \<Rightarrow> Inr (False, flow_removed_clear this)
     | Some h \<Rightarrow>
        if msg_type h \<noteq> OFPT_FLOW_REMOVED \<or> msg_size h \<noteq> 88 then Inr (False, flow_removed_clear h)
        else bindr (fetch 8 80 input) (\<lambda>_.
          let reason = input ! 58 in
          Inr (True, (flow_removed_clear h)\<lparr>
            removed_match := snd (of_match_deserialize (chunk 8 40 input)),
            removed_cookie := of_be64 (chunk 48 8 input), removed_priority := of_be16 (chunk 56 2 input),
            reason_idle_timeout := (reason = 0), reason_hard_timeout := (reason = 1),
            reason_manually_removed := (reason = 2),
            duration_alive_sec := of_be32 (chunk 60 4 input), duration_alive_nsec := of_be32 (chunk 64 4 input),
            packet_count := of_be64 (chunk 72 8 input), byte_count := of_be64 (chunk 80 8 input)\<rparr>)))"

definition flow_removed_serialize :: "of_message_flow_removed \<Rightarrow> byte list res" where
  "flow_removed_serialize m = Inl Aborted"

text \<open>The message a switch sends: \<open>struct ofp_flow_removed\<close> with the reason as its code.\<close>

definition flow_removed_wire :: "of_message_flow_removed \<Rightarrow> byte \<Rightarrow> byte list" where
  "flow_removed_wire m reason =
     header_bytes (version m) OFPT_FLOW_REMOVED 88 (xid m) @ of_match_serialize (removed_match m)
     @ be64 (removed_cookie m) @ be16 (removed_priority m) @ [reason] @ [0]
     @ be32 (duration_alive_sec m) @ be32 (duration_alive_nsec m)
     @ be16 (original_idle_timeout m) @ [0, 0] @ be64 (packet_count m) @ be64 (byte_count m)"

text \<open>
  A complete flow-removed message is accepted, and every field of it is read except the
  idle timeout of the flow, which stays 0; exactly the flag of the reason's code is set.
\<close>

theorem flow_removed_read:
  "flow_removed_deserialize this (flow_removed_wire m reason) = Inr (True, m\<lparr>
     msg_type := OFPT_FLOW_REMOVED, msg_size := 88,
     removed_match := snd (of_match_deserialize (of_match_serialize (removed_match m))),
     reason_idle_timeout := (reason = 0), reason_hard_timeout := (reason = 1),
     reason_manually_removed := (reason = 2), original_idle_timeout := 0\<rparr>)"
proof -
  let ?w = "flow_removed_wire m reason"
  have len: "length ?w = 88" by (simp add: flow_removed_wire_def)
  have header: "of_message_header ?w
      = Some \<lparr>version = version m, msg_type = OFPT_FLOW_REMOVED, msg_size = 88, xid = xid m\<rparr>"
    by (simp add: flow_removed_wire_def of_message_header_bytes ofpt_defs)
  have fields: "chunk 8 40 ?w = of_match_serialize (removed_match m)" "chunk 48 8 ?w = be64 (removed_cookie m)"
      "chunk 56 2 ?w = be16 (removed_priority m)" "?w ! 58 = reason" "chunk 60 4 ?w = be32 (duration_alive_sec m)"
      "chunk 64 4 ?w = be32 (duration_alive_nsec m)" "chunk 72 8 ?w = be64 (packet_count m)"
      "chunk 80 8 ?w = be64 (byte_count m)"
    by (simp_all add: flow_removed_wire_def chunk_after_message_header field_simps_rules nth_append)
  show ?thesis
    by (simp add: flow_removed_deserialize_def header fields len flow_removed_clear_def Let_def)
qed

end
