(* ===== verification/Of_Features.thy ===== *)
theory Of_Features
  imports Of_Message
begin

text \<open>
  What a switch says about itself: the flag words (\<open>openflow_types/of_port_state\<close>,
  \<open>of_port_features\<close>, \<open>of_switch_capabilities\<close>, \<open>of_actions_supported\<close>,
  \<open>ironstack_types/openflow_port_config\<close>), the physical port (\<open>openflow_port\<close>), the switch
  configuration, and the messages that carry them (features reply, port status, get and set
  config).
\<close>

section \<open>Flag words\<close>

text \<open>The test \<open>raw_value & f ? true : false\<close>, and the term \<open>b ? f : 0\<close> of a bitwise or.\<close>

definition flag_bit :: "nat \<Rightarrow> 32 word" where
  "flag_bit n = push_bit n 1"

definition has_flag :: "32 word \<Rightarrow> 32 word \<Rightarrow> bool" where
  "has_flag raw_value f = (raw_value AND f \<noteq> 0)"

definition flag_if :: "bool \<Rightarrow> 32 word \<Rightarrow> 32 word" where
  "flag_if b f = (if b then f else 0)"

text \<open>
  The contract of a class of flags: reading what was written gives the object back, and writing
  what was read keeps the bits that the class knows. What follows holds of every such class.
\<close>

locale flag_word =
  fixes set_flags :: "32 word \<Rightarrow> 'a"
    and get_flags :: "'a \<Rightarrow> 32 word"
    and mask :: "32 word"
  assumes get_set: "get_flags (set_flags w) = w AND mask"
    and set_get: "set_flags (get_flags x) = x"
begin

lemma get_inj: "get_flags x = get_flags y \<longleftrightarrow> x = y"
  by (metis set_get)

lemma get_masked: "get_flags x AND mask = get_flags x"
  by (metis get_set set_get)

lemma set_eq_iff: "set_flags v = set_flags w \<longleftrightarrow> v AND mask = w AND mask"
  by (metis get_set set_get)

lemma set_masked: "set_flags (w AND mask) = set_flags w"
  by (simp add: set_eq_iff and.assoc)

end

lemma has_flag_bit: "has_flag w (flag_bit n) = bit w n"
  by (simp add: has_flag_def flag_bit_def bit_iff_and_push_bit_not_eq_0)

lemma bit_flag_if: "bit (flag_if b (flag_bit n)) k \<longleftrightarrow> b \<and> k = n \<and> n < 32"
  by (auto simp: flag_if_def flag_bit_def bit_simps)

lemma bit_flag_bit: "bit (flag_bit n) k \<longleftrightarrow> k = n \<and> n < 32"
  by (auto simp: flag_bit_def bit_simps)

lemmas flag_simps = has_flag_bit bit_flag_if bit_or_iff

section \<open>Port configuration\<close>

record openflow_port_config =
  port_down :: bool
  port_stp_disabled :: bool
  port_drop_all_pkts_except_stp :: bool
  port_drop_stp_pkts :: bool
  port_exclude_from_flooding :: bool
  port_drop_all_pkts :: bool
  port_pkt_in_events_disabled :: bool

definition port_config_clear :: openflow_port_config where
  "port_config_clear = \<lparr>port_down = False, port_stp_disabled = False, port_drop_all_pkts_except_stp = False,
     port_drop_stp_pkts = False, port_exclude_from_flooding = False, port_drop_all_pkts = False,
     port_pkt_in_events_disabled = False\<rparr>"

definition port_config_set :: "32 word \<Rightarrow> openflow_port_config" where
  "port_config_set raw = \<lparr>port_down = has_flag raw (flag_bit 0), port_stp_disabled = has_flag raw (flag_bit 1),
     port_drop_all_pkts_except_stp = has_flag raw (flag_bit 2), port_drop_stp_pkts = has_flag raw (flag_bit 3),
     port_exclude_from_flooding = has_flag raw (flag_bit 4), port_drop_all_pkts = has_flag raw (flag_bit 5),
     port_pkt_in_events_disabled = has_flag raw (flag_bit 6)\<rparr>"

definition port_config_get :: "openflow_port_config \<Rightarrow> 32 word" where
  "port_config_get c = flag_if (port_down c) (flag_bit 0) OR flag_if (port_stp_disabled c) (flag_bit 1)
     OR flag_if (port_drop_all_pkts_except_stp c) (flag_bit 2) OR flag_if (port_drop_stp_pkts c) (flag_bit 3)
     OR flag_if (port_exclude_from_flooding c) (flag_bit 4) OR flag_if (port_drop_all_pkts c) (flag_bit 5)
     OR flag_if (port_pkt_in_events_disabled c) (flag_bit 6)"

definition port_config_to_string :: "openflow_port_config \<Rightarrow> string" where
  "port_config_to_string c = ''port config: '' @ (if port_config_get c = 0 then ''NORMAL '' else '''')
     @ (if port_down c then ''ADMIN_DOWN '' else '''') @ (if port_stp_disabled c then ''STP_DISABLED '' else '''')
     @ (if port_drop_all_pkts_except_stp c then ''DROP_ALL_XCEPT_STP '' else '''')
     @ (if port_drop_stp_pkts c then ''DROP_STP '' else '''')
     @ (if port_exclude_from_flooding c then ''EXCLUDE_FROM_FLOODING '' else '''')
     @ (if port_drop_all_pkts c then ''DROP_ALL_PKTS '' else '''')
     @ (if port_pkt_in_events_disabled c then ''PKT_IN_EVENT_DISABLED '' else '''')"

lemma less_numerals:
  "(n :: nat) < 7 \<longleftrightarrow> n = 0 \<or> n = 1 \<or> n = 2 \<or> n = 3 \<or> n = 4 \<or> n = 5 \<or> n = 6"
  by auto

lemma port_config_get_set: "port_config_get (port_config_set w) = take_bit 7 w"
  by (rule bit_word_eqI)
     (auto simp: port_config_get_def port_config_set_def flag_simps bit_take_bit_iff less_numerals)

lemma port_config_set_get: "port_config_set (port_config_get c) = c"
  by (cases c) (simp add: port_config_get_def port_config_set_def flag_simps)

interpretation port_config: flag_word port_config_set port_config_get "mask 7"
  by unfold_locales (simp_all add: port_config_get_set port_config_set_get take_bit_eq_mask)

section \<open>Port features, switch capabilities\<close>

record of_port_features =
  bandwidth_10mb_half_duplex :: bool
  bandwidth_10mb_full_duplex :: bool
  bandwidth_100mb_half_duplex :: bool
  bandwidth_100mb_full_duplex :: bool
  bandwidth_1gb_half_duplex :: bool
  bandwidth_1gb_full_duplex :: bool
  bandwidth_10gb_full_duplex :: bool
  medium_copper :: bool
  medium_fiber :: bool
  auto_negotiation :: bool
  pause :: bool
  asymmetric_pause :: bool

definition port_features_clear :: of_port_features where
  "port_features_clear = \<lparr>bandwidth_10mb_half_duplex = False, bandwidth_10mb_full_duplex = False,
     bandwidth_100mb_half_duplex = False, bandwidth_100mb_full_duplex = False, bandwidth_1gb_half_duplex = False,
     bandwidth_1gb_full_duplex = False, bandwidth_10gb_full_duplex = False, medium_copper = False,
     medium_fiber = False, auto_negotiation = False, pause = False, asymmetric_pause = False\<rparr>"

definition port_features_set :: "32 word \<Rightarrow> of_port_features" where
  "port_features_set raw = \<lparr>bandwidth_10mb_half_duplex = has_flag raw (flag_bit 0),
     bandwidth_10mb_full_duplex = has_flag raw (flag_bit 1), bandwidth_100mb_half_duplex = has_flag raw (flag_bit 2),
     bandwidth_100mb_full_duplex = has_flag raw (flag_bit 3), bandwidth_1gb_half_duplex = has_flag raw (flag_bit 4),
     bandwidth_1gb_full_duplex = has_flag raw (flag_bit 5), bandwidth_10gb_full_duplex = has_flag raw (flag_bit 6),
     medium_copper = has_flag raw (flag_bit 7), medium_fiber = has_flag raw (flag_bit 8),
     auto_negotiation = has_flag raw (flag_bit 9), pause = has_flag raw (flag_bit 10),
     asymmetric_pause = has_flag raw (flag_bit 11)\<rparr>"

definition port_features_get :: "of_port_features \<Rightarrow> 32 word" where
  "port_features_get c = flag_if (bandwidth_10mb_half_duplex c) (flag_bit 0)
     OR flag_if (bandwidth_10mb_full_duplex c) (flag_bit 1) OR flag_if (bandwidth_100mb_half_duplex c) (flag_bit 2)
     OR flag_if (bandwidth_100mb_full_duplex c) (flag_bit 3) OR flag_if (bandwidth_1gb_half_duplex c) (flag_bit 4)
     OR flag_if (bandwidth_1gb_full_duplex c) (flag_bit 5) OR flag_if (bandwidth_10gb_full_duplex c) (flag_bit 6)
     OR flag_if (medium_copper c) (flag_bit 7) OR flag_if (medium_fiber c) (flag_bit 8)
     OR flag_if (auto_negotiation c) (flag_bit 9) OR flag_if (pause c) (flag_bit 10)
     OR flag_if (asymmetric_pause c) (flag_bit 11)"

definition duplex_to_string :: "string \<Rightarrow> bool \<Rightarrow> bool \<Rightarrow> string" where
  "duplex_to_string speed half full =
     (if half \<or> full then speed @ (if half then ''HD '' else '''') @ (if full then ''FD '' else '''') @ ''| '' else '''')"

definition port_features_to_string :: "of_port_features \<Rightarrow> string" where
  "port_features_to_string c =
     duplex_to_string ''10mbit: '' (bandwidth_10mb_half_duplex c) (bandwidth_10mb_full_duplex c)
     @ duplex_to_string ''100mbit: '' (bandwidth_100mb_half_duplex c) (bandwidth_100mb_full_duplex c)
     @ duplex_to_string ''1gbit: '' (bandwidth_1gb_half_duplex c) (bandwidth_1gb_full_duplex c)
     @ (if bandwidth_10gb_full_duplex c then ''10 gbit: FD | '' else '''')
     @ ''medium: ''
     @ (if medium_copper c \<or> medium_fiber c
        then (if medium_copper c then ''copper '' else '''') @ (if medium_fiber c then ''fiber '' else '''')
        else ''not specified '')
     @ ''| '' @ ''auto_negotiate: '' @ (if auto_negotiation c then ''yes | '' else ''no | '')
     @ ''pause: '' @ (if pause c then ''yes | '' else ''no | '')
     @ ''asy_pause: '' @ (if asymmetric_pause c then ''yes'' else ''no'')"

lemma less_12: "(n :: nat) < 12 \<longleftrightarrow> n < 7 \<or> n = 7 \<or> n = 8 \<or> n = 9 \<or> n = 10 \<or> n = 11"
  by auto

lemma port_features_get_set: "port_features_get (port_features_set w) = take_bit 12 w"
  by (rule bit_word_eqI)
     (auto simp: port_features_get_def port_features_set_def flag_simps bit_take_bit_iff less_12 less_numerals)

lemma port_features_set_get: "port_features_set (port_features_get c) = c"
  by (cases c) (simp add: port_features_get_def port_features_set_def flag_simps)

interpretation port_features: flag_word port_features_set port_features_get "mask 12"
  by unfold_locales (simp_all add: port_features_get_set port_features_set_get take_bit_eq_mask)

text \<open>Bit 4 of the capabilities is reserved.\<close>

record of_switch_capabilities =
  switch_flow_stats_supported :: bool
  switch_table_stats_supported :: bool
  switch_port_stats_supported :: bool
  switch_stp_supported :: bool
  switch_ip_reassembly_supported :: bool
  switch_queue_stats_supported :: bool
  switch_arp_match_ip_supported :: bool

definition capabilities_clear :: of_switch_capabilities where
  "capabilities_clear = \<lparr>switch_flow_stats_supported = False, switch_table_stats_supported = False,
     switch_port_stats_supported = False, switch_stp_supported = False, switch_ip_reassembly_supported = False,
     switch_queue_stats_supported = False, switch_arp_match_ip_supported = False\<rparr>"

definition capabilities_set :: "32 word \<Rightarrow> of_switch_capabilities" where
  "capabilities_set raw = \<lparr>switch_flow_stats_supported = has_flag raw (flag_bit 0),
     switch_table_stats_supported = has_flag raw (flag_bit 1), switch_port_stats_supported = has_flag raw (flag_bit 2),
     switch_stp_supported = has_flag raw (flag_bit 3), switch_ip_reassembly_supported = has_flag raw (flag_bit 5),
     switch_queue_stats_supported = has_flag raw (flag_bit 6), switch_arp_match_ip_supported = has_flag raw (flag_bit 7)\<rparr>"

definition capabilities_get :: "of_switch_capabilities \<Rightarrow> 32 word" where
  "capabilities_get c = flag_if (switch_flow_stats_supported c) (flag_bit 0)
     OR flag_if (switch_table_stats_supported c) (flag_bit 1) OR flag_if (switch_port_stats_supported c) (flag_bit 2)
     OR flag_if (switch_stp_supported c) (flag_bit 3) OR flag_if (switch_ip_reassembly_supported c) (flag_bit 5)
     OR flag_if (switch_queue_stats_supported c) (flag_bit 6) OR flag_if (switch_arp_match_ip_supported c) (flag_bit 7)"

definition check_box :: "bool \<Rightarrow> string" where
  "check_box b = (if b then ''  [X] '' else ''  [ ] '')"

definition capabilities_to_string :: "of_switch_capabilities \<Rightarrow> string" where
  "capabilities_to_string c = ''switch capabilities:'' @ [CHR 0x0A]
     @ check_box (switch_flow_stats_supported c) @ ''flow stats''
     @ check_box (switch_table_stats_supported c) @ ''table stats'' @ [CHR 0x0A]
     @ check_box (switch_port_stats_supported c) @ ''port stats''
     @ check_box (switch_queue_stats_supported c) @ ''queue stats'' @ [CHR 0x0A]
     @ check_box (switch_stp_supported c) @ ''STP''
     @ (if switch_ip_reassembly_supported c then ''         [X] '' else ''         [ ] '') @ ''IP reassembly'' @ [CHR 0x0A]
     @ check_box (switch_arp_match_ip_supported c) @ ''ARP match IP'' @ [CHR 0x0A]"

definition capabilities_mask :: "32 word" where
  "capabilities_mask = mask 4 OR push_bit 5 (mask 3)"

lemma bit_capabilities_mask: "bit capabilities_mask n \<longleftrightarrow> n < 4 \<or> n = 5 \<or> n = 6 \<or> n = 7"
  unfolding capabilities_mask_def bit_or_iff bit_push_bit_iff bit_mask_iff by auto

lemma capabilities_get_set: "capabilities_get (capabilities_set w) = w AND capabilities_mask"
proof (rule bit_word_eqI)
  fix n :: nat
  have "(n < 4) = (n = 0 \<or> n = 1 \<or> n = 2 \<or> n = 3)" by auto
  then show "bit (capabilities_get (capabilities_set w)) n = bit (w AND capabilities_mask) n"
    by (auto simp: capabilities_get_def capabilities_set_def flag_simps bit_and_iff bit_capabilities_mask)
qed

lemma capabilities_set_get: "capabilities_set (capabilities_get c) = c"
  by (cases c) (simp add: capabilities_get_def capabilities_set_def flag_simps)

interpretation capabilities: flag_word capabilities_set capabilities_get capabilities_mask
  by unfold_locales (simp_all add: capabilities_get_set capabilities_set_get)

section \<open>Port state, and the actions a switch supports\<close>

text \<open>\<open>OFPPS_STP_LISTEN\<close> is 0, and the STP state is a field of two bits read as flags.\<close>

record of_port_state =
  port_link_down :: bool
  port_stp_listen :: bool
  port_stp_learn :: bool
  port_stp_forward :: bool
  port_stp_block :: bool
  port_stp_mask :: bool

definition port_state_clear :: of_port_state where
  "port_state_clear = \<lparr>port_link_down = False, port_stp_listen = False, port_stp_learn = False,
     port_stp_forward = False, port_stp_block = False, port_stp_mask = False\<rparr>"

definition port_state_set :: "32 word \<Rightarrow> of_port_state" where
  "port_state_set raw = \<lparr>port_link_down = has_flag raw 1, port_stp_listen = has_flag raw 0,
     port_stp_learn = has_flag raw 0x100, port_stp_forward = has_flag raw 0x200, port_stp_block = has_flag raw 0x300,
     port_stp_mask = has_flag raw 0x300\<rparr>"

definition port_state_get :: "of_port_state \<Rightarrow> 32 word" where
  "port_state_get c = flag_if (port_link_down c) 1 OR flag_if (port_stp_listen c) 0 OR flag_if (port_stp_learn c) 0x100
     OR flag_if (port_stp_forward c) 0x200 OR flag_if (port_stp_block c) 0x300 OR flag_if (port_stp_mask c) 0x300"

definition port_state_to_string :: "of_port_state \<Rightarrow> string" where
  "port_state_to_string c = ''port state: '' @ (if port_state_get c = 0 then ''NORMAL '' else '''')
     @ (if port_link_down c then ''LINK_DOWN '' else '''') @ (if port_stp_listen c then ''STP_LISTEN '' else '''')
     @ (if port_stp_learn c then ''STP_LEARN '' else '''') @ (if port_stp_forward c then ''STP_FORWARD '' else '''')
     @ (if port_stp_block c then ''STP_BLOCK '' else '''') @ (if port_stp_mask c then ''STP_MASK '' else '''')"

text \<open>The codes of \<open>enum ofp_action_type\<close> (0 to 11, and 0xffff for vendor) are used as masks.\<close>

record of_actions_supported =
  output_to_switch_port :: bool
  set_vlan_vid :: bool
  set_vlan_pcp :: bool
  strip_vlan_hdr :: bool
  set_ethernet_src :: bool
  set_ethernet_dest :: bool
  set_ip_src :: bool
  set_ip_dest :: bool
  set_ip_type_of_service :: bool
  set_tcpudp_src_port :: bool
  set_tcpudp_dest_port :: bool
  act_enqueue :: bool
  act_vendor :: bool

definition actions_supported_clear :: of_actions_supported where
  "actions_supported_clear = \<lparr>output_to_switch_port = False, set_vlan_vid = False, set_vlan_pcp = False,
     strip_vlan_hdr = False, set_ethernet_src = False, set_ethernet_dest = False, set_ip_src = False,
     set_ip_dest = False, set_ip_type_of_service = False, set_tcpudp_src_port = False,
     set_tcpudp_dest_port = False, act_enqueue = False, act_vendor = False\<rparr>"

definition actions_supported_set :: "32 word \<Rightarrow> of_actions_supported" where
  "actions_supported_set raw = \<lparr>output_to_switch_port = has_flag raw 0, set_vlan_vid = has_flag raw 1,
     set_vlan_pcp = has_flag raw 2, strip_vlan_hdr = has_flag raw 3, set_ethernet_src = has_flag raw 4,
     set_ethernet_dest = has_flag raw 5, set_ip_src = has_flag raw 6, set_ip_dest = has_flag raw 7,
     set_ip_type_of_service = has_flag raw 8, set_tcpudp_src_port = has_flag raw 9,
     set_tcpudp_dest_port = has_flag raw 10, act_enqueue = has_flag raw 11, act_vendor = has_flag raw 0xffff\<rparr>"

definition actions_supported_get :: "of_actions_supported \<Rightarrow> 32 word" where
  "actions_supported_get c = flag_if (output_to_switch_port c) 0 OR flag_if (set_vlan_vid c) 1
     OR flag_if (set_vlan_pcp c) 2 OR flag_if (strip_vlan_hdr c) 3 OR flag_if (set_ethernet_src c) 4
     OR flag_if (set_ethernet_dest c) 5 OR flag_if (set_ip_src c) 6 OR flag_if (set_ip_dest c) 7
     OR flag_if (set_ip_type_of_service c) 8 OR flag_if (set_tcpudp_src_port c) 9
     OR flag_if (set_tcpudp_dest_port c) 10 OR flag_if (act_enqueue c) 11 OR flag_if (act_vendor c) 0xffff"

definition actions_supported_to_string :: "of_actions_supported \<Rightarrow> string" where
  "actions_supported_to_string c = ''actions supported:'' @ [CHR 0x0A]
     @ check_box (output_to_switch_port c) @ ''output to port''
     @ (if set_vlan_vid c then ''       [X] '' else ''       [ ] '') @ ''set vlan vid'' @ [CHR 0x0A]
     @ check_box (set_vlan_pcp c) @ ''set vlan pcp''
     @ (if strip_vlan_hdr c then ''         [X] '' else ''         [ ] '') @ ''strip vlan hdr'' @ [CHR 0x0A]
     @ check_box (set_ethernet_src c) @ ''set eth src''
     @ (if set_ethernet_dest c then ''          [X] '' else ''          [ ] '') @ ''set eth dest'' @ [CHR 0x0A]
     @ check_box (set_ip_src c) @ ''set IP src''
     @ (if set_ip_dest c then ''           [X] '' else ''           [ ] '') @ ''set IP dest'' @ [CHR 0x0A]
     @ check_box (set_ip_type_of_service c) @ ''set IP TOS''
     @ (if act_enqueue c then ''           [X] '' else ''           [ ] '') @ ''enqueue'' @ [CHR 0x0A]
     @ check_box (set_tcpudp_src_port c) @ ''set TCPUDP src port''
     @ check_box (set_tcpudp_dest_port c) @ ''set TCPUDP dest port'' @ [CHR 0x0A]
     @ check_box (act_vendor c) @ ''vendor-specific''"

text \<open>
  The STP field of the port state: reading what was written and writing it back keeps the
  link bit, and turns every STP state other than listening into blocking.
\<close>

theorem port_state_get_set:
  "port_state_get (port_state_set w) = (w AND 1) OR (if w AND 0x300 = 0 then 0 else 0x300)"
proof -
  have link: "w AND 1 = (if w AND 1 = 0 then 0 else 1)" by (metis and_one_eq odd_iff_mod_2_eq_one even_iff_mod_2_eq_zero)
  have "(0x100 :: 32 word) OR 0x300 = 0x300" "(0x200 :: 32 word) OR 0x300 = 0x300" by simp_all
  have sub: "w AND 0x300 \<noteq> 0" if "w AND 0x100 \<noteq> 0 \<or> w AND 0x200 \<noteq> 0"
  proof
    assume z: "w AND 0x300 = 0"
    have "w AND 0x100 = (w AND 0x300) AND 0x100" "w AND 0x200 = (w AND 0x300) AND 0x200"
      by (simp_all add: and.assoc)
    with that z show False by simp
  qed
  have "port_state_get (port_state_set w) = flag_if (w AND 1 \<noteq> 0) 1 OR (if w AND 0x300 = 0 then 0 else 0x300)"
    using sub by (auto simp: port_state_get_def port_state_set_def has_flag_def flag_if_def or.assoc)
  then show ?thesis using link by (auto simp: flag_if_def)
qed

text \<open>
  Whatever a switch says about the actions it supports, the controller concludes that it
  cannot output to a port; and a switch that supports exactly the action number \<open>n\<close> (bit \<open>n\<close> of
  the bitmap) is understood to support the actions whose number, as a mask, contains that bit.
\<close>

theorem actions_supported_misread:
  "\<not> output_to_switch_port (actions_supported_set w)
   \<and> (set_vlan_vid (actions_supported_set (flag_bit n)) \<longleftrightarrow> n = 0)
   \<and> (set_ethernet_dest (actions_supported_set (flag_bit n)) \<longleftrightarrow> n = 0 \<or> n = 2)
   \<and> (set_ip_dest (actions_supported_set (flag_bit n)) \<longleftrightarrow> n = 0 \<or> n = 1 \<or> n = 2)
   \<and> (act_enqueue (actions_supported_set (flag_bit n)) \<longleftrightarrow> n = 0 \<or> n = 1 \<or> n = 3)"
proof -
  have hit: "has_flag (flag_bit n) m \<longleftrightarrow> bit m n" for m
    by (simp add: has_flag_def flag_bit_def bit_iff_and_push_bit_not_eq_0 and.commute)
  have codes: "(1 :: 32 word) = flag_bit 0" "(5 :: 32 word) = flag_bit 0 OR flag_bit 2"
      "(7 :: 32 word) = flag_bit 0 OR flag_bit 1 OR flag_bit 2" "(11 :: 32 word) = flag_bit 0 OR flag_bit 1 OR flag_bit 3"
    by (simp_all add: flag_bit_def)
  have b: "bit (1 :: 32 word) n \<longleftrightarrow> n = 0" "bit (5 :: 32 word) n \<longleftrightarrow> n = 0 \<or> n = 2"
      "bit (7 :: 32 word) n \<longleftrightarrow> n = 0 \<or> n = 1 \<or> n = 2" "bit (11 :: 32 word) n \<longleftrightarrow> n = 0 \<or> n = 1 \<or> n = 3"
    unfolding codes by (auto simp: bit_or_iff bit_flag_bit)
  show ?thesis by (simp only: actions_supported_set_def of_actions_supported.simps hit b) (simp add: has_flag_def)
qed

section \<open>Physical ports\<close>

record openflow_port =
  port_number :: "16 word"
  port_dl_addr :: mac_address
  port_name :: string
  config :: openflow_port_config
  port_state :: of_port_state
  current_features :: of_port_features
  advertised_features :: of_port_features
  supported_features :: of_port_features
  peer_features :: of_port_features

text \<open>\<open>clear()\<close> does not reset the name.\<close>

definition port_clear :: "openflow_port \<Rightarrow> openflow_port" where
  "port_clear p = p\<lparr>port_number := 0, port_dl_addr := mac_nil, config := port_config_clear,
     port_state := port_state_clear, current_features := port_features_clear,
     advertised_features := port_features_clear, supported_features := port_features_clear,
     peer_features := port_features_clear\<rparr>"

definition openflow_port_new :: openflow_port where
  "openflow_port_new = \<lparr>port_number = 0, port_dl_addr = mac_nil, port_name = [], config = port_config_clear,
     port_state = port_state_clear, current_features = port_features_clear,
     advertised_features = port_features_clear, supported_features = port_features_clear,
     peer_features = port_features_clear\<rparr>"

definition is_up :: "openflow_port \<Rightarrow> bool" where
  "is_up p = (\<not> port_link_down (port_state p) \<and> \<not> port_down (config p))"

text \<open>\<open>set(const struct ofp_phy_port&)\<close>, on the 48 bytes of the structure; the name ends at
  its first zero byte.\<close>

definition c_string :: "byte list \<Rightarrow> string" where
  "c_string bs = map (\<lambda>b. char_of (unat b)) (takeWhile (\<lambda>b. b \<noteq> 0) bs)"

definition port_set :: "byte list \<Rightarrow> openflow_port" where
  "port_set input = \<lparr>port_number = of_be16 (chunk 0 2 input), port_dl_addr = mac_from_bytes (chunk 2 6 input),
     port_name = c_string (chunk 8 16 input), config = port_config_set (of_be32 (chunk 24 4 input)),
     port_state = port_state_set (of_be32 (chunk 28 4 input)),
     current_features = port_features_set (of_be32 (chunk 32 4 input)),
     advertised_features = port_features_set (of_be32 (chunk 36 4 input)),
     supported_features = port_features_set (of_be32 (chunk 40 4 input)),
     peer_features = port_features_set (of_be32 (chunk 44 4 input))\<rparr>"

definition port_to_string :: "openflow_port \<Rightarrow> string" where
  "port_to_string p = ''port number: '' @ dec (unat (port_number p)) @ [CHR 0x0A]
     @ ''mac address        : '' @ mac_to_string (port_dl_addr p) @ [CHR 0x0A]
     @ ''name               : '' @ port_name p @ [CHR 0x0A]
     @ port_config_to_string (config p) @ [CHR 0x0A] @ port_state_to_string (port_state p) @ [CHR 0x0A]
     @ ''current features   : '' @ port_features_to_string (current_features p) @ [CHR 0x0A]
     @ ''advertised features: '' @ port_features_to_string (advertised_features p) @ [CHR 0x0A]
     @ ''supported features : '' @ port_features_to_string (supported_features p) @ [CHR 0x0A]
     @ ''peer features      : '' @ port_features_to_string (peer_features p) @ [CHR 0x0A]"

section \<open>The switch configuration\<close>

record openflow_switch_config =
  frag_normal :: bool
  frag_drop :: bool
  frag_reasm :: bool
  frag_mask :: bool
  max_msg_send_len :: "16 word"

definition switch_config_clear :: openflow_switch_config where
  "switch_config_clear = \<lparr>frag_normal = False, frag_drop = False, frag_reasm = False, frag_mask = False,
     max_msg_send_len = 0\<rparr>"

definition switch_config_deserialize :: "byte list \<Rightarrow> bool \<times> openflow_switch_config" where
  "switch_config_deserialize input =
    (if length input \<noteq> 12 then (False, switch_config_clear)
     else
       let n = of_be16 (chunk 10 2 input); flags = of_be16 (chunk 8 2 input) in
       if flags = 0 then (True, \<lparr>frag_normal = True, frag_drop = False, frag_reasm = False, frag_mask = False, max_msg_send_len = n\<rparr>)
       else if flags = 1 then (True, \<lparr>frag_normal = False, frag_drop = True, frag_reasm = False, frag_mask = False, max_msg_send_len = n\<rparr>)
       else if flags = 2 then (True, \<lparr>frag_normal = False, frag_drop = False, frag_reasm = True, frag_mask = False, max_msg_send_len = n\<rparr>)
       else if flags = 3 then (True, \<lparr>frag_normal = False, frag_drop = False, frag_reasm = False, frag_mask = True, max_msg_send_len = n\<rparr>)
       else (False, switch_config_clear))"

definition switch_config_to_string :: "openflow_switch_config \<Rightarrow> string" where
  "switch_config_to_string c = ''switch configuration: '' @ (if frag_normal c then ''FRAG_NORMAL '' else '''')
     @ (if frag_drop c then ''FRAG_DROP '' else '''') @ (if frag_reasm c then ''FRAG_REASM '' else '''')
     @ (if frag_mask c then ''FRAG_MASK'' else '''') @ [CHR 0x0A] @ ''max message_in summary len: ''
     @ dec (unat (max_msg_send_len c)) @ '' bytes''"

definition OFPT_FEATURES_REPLY :: byte where "OFPT_FEATURES_REPLY = 6"
definition OFPT_GET_CONFIG_REPLY :: byte where "OFPT_GET_CONFIG_REPLY = 8"
definition OFPT_SET_CONFIG :: byte where "OFPT_SET_CONFIG = 9"
definition OFPT_PORT_STATUS :: byte where "OFPT_PORT_STATUS = 12"

text \<open>\<open>of_message_set_config\<close> carries the same fields in the message itself.\<close>

record of_message_set_config = of_message +
  set_config :: openflow_switch_config

definition set_config_clear :: of_message_set_config where
  "set_config_clear = \<lparr>version = 1, msg_type = OFPT_SET_CONFIG, msg_size = 12, xid = 0, set_config = switch_config_clear\<rparr>"

definition frag_flags :: "openflow_switch_config \<Rightarrow> 16 word" where
  "frag_flags c = (if frag_normal c then 0 else if frag_drop c then 1 else if frag_reasm c then 2
     else if frag_mask c then 3 else 0)"

definition set_config_serialize :: "of_message_set_config \<Rightarrow> byte list" where
  "set_config_serialize m = header_bytes (version m) (msg_type m) 12 (xid m)
     @ be16 (frag_flags (set_config m)) @ be16 (max_msg_send_len (set_config m))"

record of_message_get_config_reply = of_message +
  reply_config :: openflow_switch_config

definition get_config_reply_clear :: of_message_get_config_reply where
  "get_config_reply_clear = \<lparr>version = 1, msg_type = OFPT_GET_CONFIG_REPLY, msg_size = 8, xid = 0,
     reply_config = switch_config_clear\<rparr>"

definition get_config_reply_deserialize :: "byte list \<Rightarrow> bool \<times> of_message_get_config_reply" where
  "get_config_reply_deserialize input =
    (case of_message_header input of None \<Rightarrow> (False, get_config_reply_clear)
     | Some h \<Rightarrow>
        if msg_type h \<noteq> OFPT_GET_CONFIG_REPLY then (False, get_config_reply_clear)
        else case switch_config_deserialize input of (ok, c) \<Rightarrow>
          if \<not> ok then (False, get_config_reply_clear)
          else (True, of_message.extend h (of_message_get_config_reply.fields c)))"

section \<open>Features reply and port status\<close>

record openflow_switch_features =
  datapath_id :: "64 word"
  n_buffers :: "32 word"
  n_tables :: "32 word"
  switch_address :: mac_address
  capabilities :: of_switch_capabilities
  actions_supported :: of_actions_supported

definition switch_features_clear :: openflow_switch_features where
  "switch_features_clear = \<lparr>datapath_id = 0, n_buffers = 0, n_tables = 0, switch_address = mac_nil,
     capabilities = capabilities_clear, actions_supported = actions_supported_clear\<rparr>"

definition switch_features_to_string :: "openflow_switch_features \<Rightarrow> string" where
  "switch_features_to_string f = ''datapath id: '' @ dec (unat (datapath_id f)) @ [CHR 0x0A]
     @ ''n_buffers: '' @ dec (unat (n_buffers f)) @ [CHR 0x0A] @ ''n_tables: '' @ dec (unat (n_tables f)) @ [CHR 0x0A]
     @ ''switch addr: '' @ mac_to_string (switch_address f) @ [CHR 0x0A] @ capabilities_to_string (capabilities f)
     @ [CHR 0x0A] @ actions_supported_to_string (actions_supported f) @ [CHR 0x0A] @ [CHR 0x0A]"

record of_message_features_reply = of_message +
  switch_features :: openflow_switch_features
  physical_ports :: "openflow_port list"

definition features_reply_clear :: of_message_features_reply where
  "features_reply_clear = \<lparr>version = 1, msg_type = OFPT_FEATURES_REPLY, msg_size = 32, xid = 0,
     switch_features = switch_features_clear, physical_ports = []\<rparr>"

text \<open>
  The datapath id is not swapped to host order; the switch address is the last six of its bytes
  in memory. Each port is copied without a check against the buffer.
\<close>

definition read_switch_features :: "byte list \<Rightarrow> openflow_switch_features" where
  "read_switch_features input = \<lparr>datapath_id = of_le64 (chunk 8 8 input), n_buffers = of_be32 (chunk 16 4 input),
     n_tables = ucast (input ! 20), switch_address = mac_from_bytes (chunk 10 6 input),
     capabilities = capabilities_set (of_be32 (chunk 24 4 input)),
     actions_supported = actions_supported_set (of_be32 (chunk 28 4 input))\<rparr>"

fun read_ports :: "nat \<Rightarrow> nat \<Rightarrow> byte list \<Rightarrow> openflow_port list res" where
  "read_ports 0 counter input = Inr []"
| "read_ports (Suc n) counter input =
     bindr (fetch (32 + counter * 48) 48 input) (\<lambda>port_desc.
       bindr (read_ports n (Suc counter) input) (\<lambda>ports. Inr (port_set port_desc # ports)))"

text \<open>\<open>msg_size - sizeof(...)\<close> is a \<open>size_t\<close>; the size of the port list and the number of ports
  are stored in 32 bits.\<close>

definition size_t_minus :: "nat \<Rightarrow> nat \<Rightarrow> nat" where
  "size_t_minus a b = (a + 2 ^ 64 - b) mod 2 ^ 64"

definition features_reply_deserialize :: "byte list \<Rightarrow> (bool \<times> of_message_features_reply) res" where
  "features_reply_deserialize input =
    (case of_message_header input of None \<Rightarrow> Inr (False, features_reply_clear)
     | Some h \<Rightarrow>
        if msg_type h \<noteq> OFPT_FEATURES_REPLY then Inr (False, features_reply_clear)
        else if u32 (size_t_minus (unat (msg_size h)) 32) mod 48 \<noteq> 0 then Inr (False, features_reply_clear)
        else if length input < 32 then Inl Aborted
        else bindr (read_ports (u32 (size_t_minus (unat (msg_size h)) 32 div 48)) 0 input) (\<lambda>ports.
          Inr (True, of_message.extend h (of_message_features_reply.fields (read_switch_features input) ports))))"

datatype ofp_port_reason = OFPPR_ADD | OFPPR_DELETE | OFPPR_MODIFY

record of_message_port_status = of_message +
  reason :: ofp_port_reason
  port_description :: openflow_port

text \<open>The description keeps what it was in a failure.\<close>

definition port_status_clear :: "openflow_port \<Rightarrow> of_message_port_status" where
  "port_status_clear p = \<lparr>version = 1, msg_type = OFPT_PORT_STATUS, msg_size = 64, xid = 0, reason = OFPPR_MODIFY,
     port_description = p\<rparr>"

definition port_reason_of :: "byte \<Rightarrow> ofp_port_reason" where
  "port_reason_of b = (if b = 0 then OFPPR_ADD else if b = 1 then OFPPR_DELETE else OFPPR_MODIFY)"

definition port_status_deserialize ::
  "of_message_port_status \<Rightarrow> byte list \<Rightarrow> (bool \<times> of_message_port_status) res" where
  "port_status_deserialize this input =
    (case of_message_header input of None \<Rightarrow> Inr (False, port_status_clear (port_description this))
     | Some h \<Rightarrow>
        if msg_type h \<noteq> OFPT_PORT_STATUS \<or> msg_size h \<noteq> 64
        then Inr (False, port_status_clear (port_description this))
        else bindr (fetch 8 1 input) (\<lambda>r. bindr (fetch 16 48 input) (\<lambda>desc.
          Inr (True, of_message.extend h (of_message_port_status.fields (port_reason_of (hd r)) (port_set desc))))))"

subsection \<open>How many ports are read\<close>

lemma u32_add_multiple: "u32 (n + 4294967296 * k) = u32 n"
  by (simp add: u32_def)

lemma read_ports_ok:
  "32 + (counter + n) * 48 \<le> length input
     \<Longrightarrow> read_ports n counter input = Inr (map (\<lambda>i. port_set (chunk (32 + (counter + i) * 48) 48 input)) [0..<n])"
proof (induction n arbitrary: counter)
  case (Suc n)
  have "map (\<lambda>i. port_set (chunk (32 + (counter + i) * 48) 48 input)) [0..<Suc n]
      = port_set (chunk (32 + counter * 48) 48 input)
        # map (\<lambda>i. port_set (chunk (32 + (Suc counter + i) * 48) 48 input)) [0..<n]"
    by (simp add: upt_conv_Cons map_Suc_upt [symmetric] del: upt_Suc)
  then show ?case using Suc by simp
qed simp

lemma read_ports_oob:
  "32 + counter * 48 \<le> length input \<Longrightarrow> length input < 32 + (counter + n) * 48
     \<Longrightarrow> read_ports n counter input = Inl OutOfBounds"
proof (induction n arbitrary: counter)
  case (Suc n)
  then show ?case by (cases "32 + (Suc counter) * 48 \<le> length input") simp_all
qed simp

text \<open>
  A features reply with a whole fixed part. A size that does not fit a whole number of ports
  is refused, except the size 16, which passes the check because \<open>16 - 32\<close> wraps around to a
  multiple of the port size: then more than \<open>10 ^ 9\<close> ports are read, past the end of the
  buffer. With a right size the ports are read as they are in the buffer when the buffer has
  them, and past the end of the buffer when it is shorter than the message says.
\<close>

theorem features_reply_ports:
  assumes "of_message_header input = Some h" "msg_type h = OFPT_FEATURES_REPLY"
    and "32 \<le> length input" "length input < 2 ^ 32" "s = unat (msg_size h)"
  shows "features_reply_deserialize input =
    (if s < 32 then (if s = 16 then Inl OutOfBounds else Inr (False, features_reply_clear))
     else if (s - 32) mod 48 \<noteq> 0 then Inr (False, features_reply_clear)
     else if length input < s then Inl OutOfBounds
     else Inr (True, of_message.extend h (of_message_features_reply.fields (read_switch_features input)
            (map (\<lambda>i. port_set (chunk (32 + i * 48) 48 input)) [0..<(s - 32) div 48]))))"
proof (cases "s < 32")
  case True
  then have minus: "size_t_minus s 32 = s + 18446744073709551584" by (simp add: size_t_minus_def)
  have "u32 (s + 18446744073709551584) = u32 ((s + 4294967264) + 4294967296 * 4294967295)" by (simp add: add.commute)
  also have "\<dots> = u32 (s + 4294967264)" by (rule u32_add_multiple)
  also have "\<dots> = (s + 32) + 48 * 89478484" using True by simp
  finally have "u32 (size_t_minus s 32) mod 48 = (s + 32) mod 48" unfolding minus by (simp only: mod_mult_self2)
  moreover have "(s + 32) mod 48 = 0 \<longleftrightarrow> s = 16" using True by presburger
  ultimately have size: "u32 (size_t_minus s 32) mod 48 = 0 \<longleftrightarrow> s = 16" by simp
  have n: "u32 (size_t_minus 16 32 div 48) = 1431655765" by (simp add: size_t_minus_def u32_def)
  have "read_ports 1431655765 0 input = Inl OutOfBounds"
  proof (rule read_ports_oob)
    show "32 + 0 * 48 \<le> length input" using assms(3) by simp
    have "(4294967296 :: nat) \<le> 32 + (0 + 1431655765) * 48" by simp
    moreover have "length input < 4294967296" using assms(4) by simp
    ultimately show "length input < 32 + (0 + 1431655765) * 48" by (rule less_le_trans [rotated])
  qed
  then have ports: "bindr (read_ports (u32 (size_t_minus 16 32 div 48)) 0 input) f = Inl OutOfBounds" for f
    by (simp only: n bindr.simps)
  have long: "length input < 32 \<longleftrightarrow> False" using assms(3) by simp
  show ?thesis
    unfolding features_reply_deserialize_def assms(1) option.case assms(2) assms(5) [symmetric] size long
    using True by (cases "s = 16") (simp_all only: ports if_True if_False simp_thms)
next
  case False
  have s: "s < 2 ^ 16" using unsigned_less [of "msg_size h"] assms(5) by simp
  have eq: "s + 2 ^ 64 - 32 = (s - 32) + 2 ^ 64" using False by simp
  have minus: "size_t_minus s 32 = s - 32" unfolding size_t_minus_def eq using s by simp
  let ?n = "(s - 32) div 48"
  have u: "u32 (s - 32) = s - 32" "u32 ?n = ?n" using s by simp_all
  have long: "length input < 32 \<longleftrightarrow> False" using assms(3) by simp
  note unfolded = features_reply_deserialize_def assms(1) option.case assms(2) assms(5) [symmetric] minus u long
  show ?thesis
  proof (cases "(s - 32) mod 48 = 0")
    case True
    then have n: "?n * 48 = s - 32" by auto
    show ?thesis
    proof (cases "length input < s")
      case True
      have "read_ports ?n 0 input = Inl OutOfBounds"
      proof (rule read_ports_oob)
        show "32 + 0 * 48 \<le> length input" using assms(3) by simp
        show "length input < 32 + (0 + ?n) * 48" using True n \<open>\<not> s < 32\<close> unfolding add_0 by linarith
      qed
      with True \<open>(s - 32) mod 48 = 0\<close> \<open>\<not> s < 32\<close> show ?thesis
        unfolding unfolded by (simp only: simp_thms if_True if_False bindr.simps)
    next
      case False
      have "read_ports ?n 0 input = Inr (map (\<lambda>i. port_set (chunk (32 + (0 + i) * 48) 48 input)) [0..<?n])"
      proof (rule read_ports_ok)
        show "32 + (0 + ?n) * 48 \<le> length input" using False n \<open>\<not> s < 32\<close> unfolding add_0 by linarith
      qed
      with False \<open>(s - 32) mod 48 = 0\<close> \<open>\<not> s < 32\<close> show ?thesis
        unfolding unfolded by (simp only: simp_thms if_True if_False bindr.simps add_0)
    qed
  qed (use False in \<open>simp only: unfolded simp_thms if_True if_False\<close>)
qed

theorem features_reply_ports_witness:
  "features_reply_deserialize (header_bytes 1 OFPT_FEATURES_REPLY 16 7 @ replicate 24 0) = Inl OutOfBounds
   \<and> features_reply_deserialize (header_bytes 1 OFPT_FEATURES_REPLY 80 7 @ replicate 24 0) = Inl OutOfBounds"
proof -
  let ?in = "\<lambda>s. header_bytes 1 OFPT_FEATURES_REPLY s 7 @ replicate 24 0"
  have h: "of_message_header (?in s) = Some \<lparr>version = 1, msg_type = OFPT_FEATURES_REPLY, msg_size = s, xid = 7\<rparr>" for s
    by (simp add: of_message_header_bytes OFPT_FEATURES_REPLY_def ofpt_defs)
  show ?thesis
    using features_reply_ports [OF h, where s = 16] features_reply_ports [OF h, where s = 80] by simp
qed

section \<open>Setting the configuration and reading it back\<close>

text \<open>A switch that stores what it is sent answers with the same 12 bytes under its own header.\<close>

definition echoed_config :: "byte \<Rightarrow> 32 word \<Rightarrow> byte list \<Rightarrow> byte list" where
  "echoed_config v x sent = header_bytes v OFPT_GET_CONFIG_REPLY 12 x @ drop 8 sent"

text \<open>
  A configuration that is set and then asked for comes back with the same length limit, and
  with exactly one fragment option: the first one that was set, in the order normal, drop,
  reassemble, mask; and normal when none was.
\<close>

theorem config_set_get:
  "get_config_reply_deserialize (echoed_config v x (set_config_serialize m))
    = (True, \<lparr>version = v, msg_type = OFPT_GET_CONFIG_REPLY, msg_size = 12, xid = x,
        reply_config = (let c = set_config m; f = frag_flags c in
          \<lparr>frag_normal = (f = 0), frag_drop = (f = 1), frag_reasm = (f = 2), frag_mask = (f = 3),
           max_msg_send_len = max_msg_send_len c\<rparr>)\<rparr>)"
proof -
  let ?bs = "echoed_config v x (set_config_serialize m)"
  have bs: "?bs = header_bytes v OFPT_GET_CONFIG_REPLY 12 x
      @ (be16 (frag_flags (set_config m)) @ be16 (max_msg_send_len (set_config m)))"
    by (simp add: echoed_config_def set_config_serialize_def)
  have fields: "chunk 8 2 ?bs = be16 (frag_flags (set_config m))" "chunk 10 2 ?bs = be16 (max_msg_send_len (set_config m))"
    by (simp_all add: bs chunk_after_message_header field_simps_rules)
  have "length ?bs = 12" by (simp add: bs)
  moreover have "of_message_header ?bs = Some \<lparr>version = v, msg_type = OFPT_GET_CONFIG_REPLY, msg_size = 12, xid = x\<rparr>"
    unfolding bs by (simp add: of_message_header_bytes OFPT_GET_CONFIG_REPLY_def ofpt_defs)
  ultimately show ?thesis
    by (auto simp: get_config_reply_deserialize_def switch_config_deserialize_def fields frag_flags_def Let_def
        of_message.defs of_message_get_config_reply.defs)
qed

text \<open>
  \<open>deserialize\<close> of a port status reads 64 bytes on the word of the message's own size field:
  on an input of 9 to 63 bytes that claims to be 64 long it reads past the end.
\<close>

theorem port_status_short_input:
  assumes "of_message_header input = Some h" "msg_type h = OFPT_PORT_STATUS" "msg_size h = 64"
  shows "(port_status_deserialize this input = Inl OutOfBounds) = (length input < 64)"
  using assms by (auto simp: port_status_deserialize_def fetch_def)

theorem port_status_short_input_witness:
  "port_status_deserialize (port_status_clear (port_set [])) (header_bytes 1 OFPT_PORT_STATUS 64 7) = Inl OutOfBounds"
proof -
  have "of_message_header (header_bytes 1 OFPT_PORT_STATUS 64 7)
      = Some \<lparr>version = 1, msg_type = OFPT_PORT_STATUS, msg_size = 64, xid = 7\<rparr>"
    using of_message_header_bytes [of 1 OFPT_PORT_STATUS 64 7 "[]"] by (simp add: OFPT_PORT_STATUS_def ofpt_defs)
  from port_status_short_input [OF this] show ?thesis by simp
qed

end
