(* ===== verification/Std_Map.thy ===== *)
theory Std_Map
  imports Prelude
begin

text \<open>
  \<open>std::map\<close> with the operations the controller uses (\<open>find\<close>, \<open>operator[]\<close> as a store,
  \<open>erase\<close>, \<open>count\<close>, \<open>size\<close>, iteration in key order), and the interface \<open>keyed_store\<close>
  that its clients (the CAM table, the ARP table, the flow tables) rely on. The interface
  is also what a client of \<open>kv_store\<close>'s linked list relies on.
\<close>

section \<open>The interface of a keyed store\<close>

locale keyed_store =
  fixes empty :: "'m"
    and find :: "'k \<Rightarrow> 'm \<Rightarrow> 'v option"
    and put :: "'k \<Rightarrow> 'v \<Rightarrow> 'm \<Rightarrow> 'm"
    and erase :: "'k \<Rightarrow> 'm \<Rightarrow> 'm"
    and keys :: "'m \<Rightarrow> 'k list"
    and inv :: "'m \<Rightarrow> bool"
  assumes inv_empty: "inv empty"
    and inv_put: "inv m \<Longrightarrow> inv (put k v m)"
    and inv_erase: "inv m \<Longrightarrow> inv (erase k m)"
    and find_empty: "find k empty = None"
    and find_put: "inv m \<Longrightarrow> find k (put k' v m) = (if k = k' then Some v else find k m)"
    and find_erase: "inv m \<Longrightarrow> find k (erase k' m) = (if k = k' then None else find k m)"
    and set_keys: "inv m \<Longrightarrow> k \<in> set (keys m) \<longleftrightarrow> find k m \<noteq> None"
    and distinct_keys: "inv m \<Longrightarrow> distinct (keys m)"
begin

lemma keys_put: "inv m \<Longrightarrow> set (keys (put k v m)) = insert k (set (keys m))"
  by (rule set_eqI) (simp add: set_keys inv_put find_put)

lemma keys_erase: "inv m \<Longrightarrow> set (keys (erase k m)) = set (keys m) - {k}"
  by (rule set_eqI) (simp add: set_keys inv_erase find_erase)

lemma card_keys: "inv m \<Longrightarrow> card (set (keys m)) = length (keys m)"
  by (simp add: distinct_card distinct_keys)

lemma size_put:
  assumes "inv m"
  shows "length (keys (put k v m)) = (if find k m = None then Suc (length (keys m)) else length (keys m))"
proof -
  have "length (keys (put k v m)) = card (insert k (set (keys m)))"
    using assms by (simp add: card_keys [symmetric] inv_put keys_put)
  then show ?thesis
    using assms set_keys [OF assms, of k] by (simp add: card_insert_if card_keys)
qed

lemma size_erase:
  assumes "inv m"
  shows "length (keys (erase k m)) = (if find k m = None then length (keys m) else length (keys m) - 1)"
proof -
  have "length (keys (erase k m)) = card (set (keys m) - {k})"
    using assms by (simp add: card_keys [symmetric] inv_erase keys_erase)
  then show ?thesis
    using assms set_keys [OF assms, of k] by (simp add: card_Diff_singleton_if card_keys)
qed

lemma put_put_commute:
  "inv m \<Longrightarrow> k \<noteq> k' \<Longrightarrow> find x (put k v (put k' v' m)) = find x (put k' v' (put k v m))"
  by (simp add: find_put inv_put)

text \<open>Erasing a list of keys one after the other, the shape of every purging loop.\<close>

lemma inv_purge: "inv m \<Longrightarrow> inv (fold erase ks m)"
  by (induction ks arbitrary: m) (simp_all add: inv_erase)

lemma find_purge: "inv m \<Longrightarrow> find k (fold erase ks m) = (if k \<in> set ks then None else find k m)"
  by (induction ks arbitrary: m) (auto simp: inv_erase find_erase)

end

section \<open>\<open>std::map\<close>\<close>

type_synonym ('k, 'v) smap = "('k \<times> 'v) list"

definition smap_ok :: "('k::linorder, 'v) smap \<Rightarrow> bool" where
  "smap_ok m = sorted_wrt (<) (map fst m)"

abbreviation smap_keys :: "('k, 'v) smap \<Rightarrow> 'k list" where
  "smap_keys m \<equiv> map fst m"

definition smap_find :: "'k \<Rightarrow> ('k, 'v) smap \<Rightarrow> 'v option" where
  "smap_find k m = map_of m k"

fun smap_put :: "'k::linorder \<Rightarrow> 'v \<Rightarrow> ('k, 'v) smap \<Rightarrow> ('k, 'v) smap" where
  "smap_put k v [] = [(k, v)]"
| "smap_put k v ((a, b) # m) =
     (if k < a then (k, v) # (a, b) # m
      else if k = a then (k, v) # m
      else (a, b) # smap_put k v m)"

definition smap_erase :: "'k \<Rightarrow> ('k, 'v) smap \<Rightarrow> ('k, 'v) smap" where
  "smap_erase k m = filter (\<lambda>p. fst p \<noteq> k) m"

text \<open>
  The loop \<open>while (it != end) if (c(*it)) it = erase(it); else ++it;\<close> visits every entry
  once, in key order, and keeps those where \<open>c\<close> is false.
\<close>

fun smap_erase_if :: "('k \<times> 'v \<Rightarrow> bool) \<Rightarrow> ('k, 'v) smap \<Rightarrow> ('k, 'v) smap" where
  "smap_erase_if c [] = []"
| "smap_erase_if c (e # m) = (if c e then smap_erase_if c m else e # smap_erase_if c m)"

lemma smap_ok_Nil [simp]: "smap_ok []"
  by (simp add: smap_ok_def)

lemma smap_ok_Cons: "smap_ok ((a, b) # m) \<longleftrightarrow> (\<forall>x \<in> set (map fst m). a < x) \<and> smap_ok m"
  by (simp add: smap_ok_def)

lemma smap_ok_distinct: "smap_ok m \<Longrightarrow> distinct (map fst m)"
  by (auto simp: smap_ok_def strict_sorted_iff)

lemma set_smap_put: "set (map fst (smap_put k v m)) = insert k (set (map fst m))"
  by (induction k v m rule: smap_put.induct) auto

lemma smap_ok_put: "smap_ok m \<Longrightarrow> smap_ok (smap_put k v m)"
proof (induction k v m rule: smap_put.induct)
  case (2 k v a b m)
  then have m: "\<forall>x \<in> set (map fst m). a < x" "smap_ok m" by (simp_all add: smap_ok_Cons)
  consider "k < a" | "k = a" | "a < k" by (rule linorder_cases)
  then show ?case
  proof cases
    case 1
    with m show ?thesis by (auto simp: smap_ok_Cons intro: less_trans)
  next
    case 2
    with m show ?thesis by (simp add: smap_ok_Cons)
  next
    case 3
    with "2.IH" m have "smap_ok (smap_put k v m)" by simp
    moreover have "\<forall>x \<in> set (map fst (smap_put k v m)). a < x"
      using 3 m(1) by (simp only: set_smap_put) simp
    ultimately show ?thesis using 3 by (auto simp: smap_ok_Cons)
  qed
qed (simp add: smap_ok_def)

lemma smap_find_put: "smap_find k (smap_put k' v m) = (if k = k' then Some v else smap_find k m)"
  unfolding smap_find_def by (induction k' v m rule: smap_put.induct) auto

lemma smap_find_erase: "smap_find k (smap_erase k' m) = (if k = k' then None else smap_find k m)"
  unfolding smap_find_def smap_erase_def by (induction m) auto

lemma smap_ok_filter: "smap_ok m \<Longrightarrow> smap_ok (filter P m)"
  unfolding smap_ok_def by (induction m) auto

lemma smap_ok_erase: "smap_ok m \<Longrightarrow> smap_ok (smap_erase k m)"
  by (simp add: smap_erase_def smap_ok_filter)

lemma smap_find_keys: "k \<in> set (smap_keys m) \<longleftrightarrow> smap_find k m \<noteq> None"
  by (simp add: smap_find_def map_of_eq_None_iff)

interpretation smap: keyed_store "[]" smap_find smap_put smap_erase smap_keys smap_ok
proof (unfold_locales, goal_cases)
  case (4 k)
  show ?case by (simp add: smap_find_def)
next
  case (7 m k)
  show ?case by (rule smap_find_keys)
qed (simp_all add: smap_ok_put smap_ok_erase smap_find_put smap_find_erase smap_ok_distinct)

lemma smap_erase_if_filter: "smap_erase_if c m = filter (\<lambda>e. \<not> c e) m"
  by (induction m) auto

lemma smap_ok_erase_if: "smap_ok m \<Longrightarrow> smap_ok (smap_erase_if c m)"
  by (simp add: smap_erase_if_filter smap_ok_filter)

lemma smap_find_in: "smap_ok m \<Longrightarrow> smap_find k m = Some v \<longleftrightarrow> (k, v) \<in> set m"
  by (simp add: smap_find_def smap_ok_distinct)

lemma smap_find_filter:
  assumes "smap_ok m"
  shows "smap_find k (filter P m) =
    (case smap_find k m of Some v \<Rightarrow> if P (k, v) then Some v else None | None \<Rightarrow> None)"
proof (cases "smap_find k (filter P m)")
  case None
  moreover have "\<not> P (k, v)" if "smap_find k m = Some v" for v
    using None that assms smap_find_in [OF smap_ok_filter [OF assms], of k P v]
    by (auto simp: smap_find_in)
  ultimately show ?thesis by (auto split: option.split)
next
  case (Some v)
  then have "(k, v) \<in> set m" "P (k, v)"
    using smap_find_in [OF smap_ok_filter [OF assms], of k P v] by auto
  with Some assms show ?thesis by (simp add: smap_find_in [symmetric])
qed

lemma smap_find_erase_if:
  "smap_ok m \<Longrightarrow> smap_find k (smap_erase_if c m) =
    (case smap_find k m of Some v \<Rightarrow> if c (k, v) then None else Some v | None \<Rightarrow> None)"
  by (simp add: smap_erase_if_filter smap_find_filter split: option.split)

text \<open>Rewriting every value in place, as a loop over references does.\<close>

definition smap_update :: "('k \<Rightarrow> 'v \<Rightarrow> 'v) \<Rightarrow> ('k, 'v) smap \<Rightarrow> ('k, 'v) smap" where
  "smap_update f m = map (\<lambda>(k, v). (k, f k v)) m"

lemma smap_keys_update [simp]: "map fst (smap_update f m) = map fst m"
  by (simp add: smap_update_def comp_def case_prod_beta)

lemma smap_ok_update [simp]: "smap_ok (smap_update f m) = smap_ok m"
  by (simp add: smap_ok_def)

lemma smap_find_update: "smap_find k (smap_update f m) = map_option (f k) (smap_find k m)"
  unfolding smap_find_def smap_update_def by (induction m) auto

end
