(* ===== verification/Packets.thy ===== *)
theory Packets
  imports Addresses
begin

text \<open>
  \<open>controller/utils/std_packet.{h,cpp}\<close>: the packets the controller reads and makes. Each class
  extends its base class, as a record that extends the record of the base; a method of the
  base works on every extension. This theory has the Ethernet frame with its VLAN tag, ARP and
  the IPv4 header; TCP, UDP, ICMP and the factory are in \<open>Packets_L4\<close>.

  A frame is the list of its bytes. A read-only buffer that a packet keeps into the frame
  (\<open>inherit_read_only\<close>) is a \<open>view\<close>: the memory from its first byte on, and the size it was given,
  which nothing compares with that memory.
\<close>

section \<open>Views\<close>

record view =
  view_mem :: "byte list"
  view_size :: nat
  view_ro :: bool

definition view_empty :: view where
  "view_empty = \<lparr>view_mem = [], view_size = 0, view_ro = False\<rparr>"

definition view_of :: "byte list \<Rightarrow> view" where
  "view_of bs = \<lparr>view_mem = bs, view_size = length bs, view_ro = False\<rparr>"

definition inherit_read_only :: "nat \<Rightarrow> nat \<Rightarrow> byte list \<Rightarrow> view" where
  "inherit_read_only offset n m = \<lparr>view_mem = drop offset m, view_size = u32 n, view_ro = True\<rparr>"

text \<open>\<open>clear()\<close> on a read-only buffer aborts.\<close>

definition view_clear :: "view \<Rightarrow> view res" where
  "view_clear v = (if view_ro v then Inl Aborted else Inr (v\<lparr>view_size := 0\<rparr>))"

text \<open>The content of a buffer that lies inside its memory.\<close>

definition view_ok :: "view \<Rightarrow> bool" where
  "view_ok v = (view_size v \<le> length (view_mem v))"

definition content :: "view \<Rightarrow> byte list" where
  "content v = take (view_size v) (view_mem v)"

text \<open>A copy of all of it, as \<open>memcpy\<close> makes.\<close>

definition copy_content :: "view \<Rightarrow> byte list res" where
  "copy_content v = (if view_ok v then Inr (content v) else Inl OutOfBounds)"

lemma view_of_simps [simp]: "content (view_of bs) = bs" "view_ok (view_of bs)" "view_size (view_of bs) = length bs"
  by (simp_all add: content_def view_of_def view_ok_def)

lemma view_empty_simps [simp]: "content view_empty = []" "view_ok view_empty" "view_size view_empty = 0"
  by (simp_all add: content_def view_empty_def view_ok_def)

lemma copy_content_ok [simp]: "view_ok v \<Longrightarrow> copy_content v = Inr (content v)"
  by (simp add: copy_content_def)

lemma length_content [simp]: "view_ok v \<Longrightarrow> length (content v) = view_size v"
  by (simp add: content_def view_ok_def)

lemma content_inherit:
  "n < 4294967296 \<Longrightarrow> content (inherit_read_only offset n m) = chunk offset n m"
  by (simp add: content_def inherit_read_only_def chunk_def)

lemma view_ok_inherit:
  "n < 4294967296 \<Longrightarrow> offset + n \<le> length m \<Longrightarrow> view_ok (inherit_read_only offset n m)"
  by (simp add: view_ok_def inherit_read_only_def)

section \<open>Ethernet\<close>

datatype packet_t = ARP_PACKET | ICMP_PACKET | TCP_PACKET | UDP_PACKET | DHCP_PACKET | UNKNOWN_PACKET | IPV6_PACKET
  | DROP_PACKET

record raw_packet =
  raw_in_port :: "16 word"
  packet_type :: packet_t
  ethertype :: "16 word"
  has_vlan_tag :: bool
  pkt_vlan_pcp :: byte
  dei :: bool
  pkt_vlan_id :: "16 word"
  src_mac :: mac_address
  dest_mac :: mac_address

definition raw_packet_new :: raw_packet where
  "raw_packet_new = \<lparr>raw_in_port = 0xffff, packet_type = UNKNOWN_PACKET, ethertype = 0, has_vlan_tag = False,
     pkt_vlan_pcp = 0, dei = False, pkt_vlan_id = 1, src_mac = mac_nil, dest_mac = mac_nil\<rparr>"

definition raw_packet_clear :: "'a raw_packet_scheme \<Rightarrow> 'a raw_packet_scheme" where
  "raw_packet_clear p = p\<lparr>raw_in_port := 0xffff, packet_type := UNKNOWN_PACKET, ethertype := 0, has_vlan_tag := False,
     pkt_vlan_pcp := 0, dei := False, pkt_vlan_id := 1, src_mac := mac_nil, dest_mac := mac_nil\<rparr>"

definition get_vlan_id :: "'a raw_packet_scheme \<Rightarrow> 16 word" where
  "get_vlan_id p = (if has_vlan_tag p then pkt_vlan_id p else 1)"

definition eth_hdr_len :: "'a raw_packet_scheme \<Rightarrow> nat" where
  "eth_hdr_len p = (if has_vlan_tag p then 18 else 14)"

text \<open>The type that is packed when the packet has none; a packet of another type aborts.\<close>

fun ethertype_of :: "packet_t \<Rightarrow> 16 word res" where
  "ethertype_of ARP_PACKET = Inr 0x0806"
| "ethertype_of TCP_PACKET = Inr 0x0800"
| "ethertype_of UDP_PACKET = Inr 0x0800"
| "ethertype_of DHCP_PACKET = Inr 0x0800"
| "ethertype_of ICMP_PACKET = Inr 0x0800"
| "ethertype_of IPV6_PACKET = Inr 0x86dd"
| "ethertype_of _ = Inl Aborted"

definition vlan_tci :: "byte \<Rightarrow> bool \<Rightarrow> 16 word \<Rightarrow> 16 word" where
  "vlan_tci pcp d vlan = push_bit 13 (ucast (pcp AND 0x07)) OR (if d then push_bit 12 1 else 0) OR (vlan AND 0x0fff)"

definition raw_serialize :: "'a raw_packet_scheme \<Rightarrow> byte list res" where
  "raw_serialize p =
     bindr (if ethertype p = 0 then ethertype_of (packet_type p) else Inr (ethertype p)) (\<lambda>t.
       Inr (mac_octets (dest_mac p) @ mac_octets (src_mac p)
         @ (if has_vlan_tag p then be16 0x8100 @ be16 (vlan_tci (pkt_vlan_pcp p) (dei p) (pkt_vlan_id p)) else [])
         @ be16 t))"

text \<open>The kind of an IPv4 packet; the minimum size is that of an IPv4 header.\<close>

definition ipv4_type :: "nat \<Rightarrow> byte list \<Rightarrow> packet_t" where
  "ipv4_type hdr_len pkt =
    (if length pkt < hdr_len + 20 then UNKNOWN_PACKET
     else let proto = pkt ! (hdr_len + 9) in
       if proto = 0x01 then ICMP_PACKET else if proto = 0x06 then TCP_PACKET
       else if proto = 0x11 then UDP_PACKET else UNKNOWN_PACKET)"

definition raw_type :: "16 word \<Rightarrow> nat \<Rightarrow> byte list \<Rightarrow> packet_t" where
  "raw_type t hdr_len pkt =
    (if t = 0x0806 then ARP_PACKET else if t = 0x0800 then ipv4_type hdr_len pkt
     else if t = 0x86dd then IPV6_PACKET else UNKNOWN_PACKET)"

definition raw_deserialize :: "byte list \<Rightarrow> 'a raw_packet_scheme \<Rightarrow> bool \<times> 'a raw_packet_scheme" where
  "raw_deserialize pkt p =
    (if length pkt < 14 then (False, p)
     else let p1 = p\<lparr>dest_mac := mac_from_bytes (chunk 0 6 pkt), src_mac := mac_from_bytes (chunk 6 6 pkt),
                     ethertype := of_be16 (chunk 12 2 pkt)\<rparr> in
       if ethertype p1 = 0x8100 then
         (if length pkt < 18 then (False, p1)
          else let tci = of_be16 (chunk 14 2 pkt);
                   p2 = p1\<lparr>has_vlan_tag := True, pkt_vlan_pcp := ucast (drop_bit 13 tci),
                          dei := ((drop_bit 12 tci AND 0x01) \<noteq> 0), pkt_vlan_id := tci AND 0x0fff,
                          ethertype := of_be16 (chunk 16 2 pkt)\<rparr>;
                   p3 = p2\<lparr>packet_type := raw_type (ethertype p2) 18 pkt\<rparr>
               in (packet_type p3 \<noteq> UNKNOWN_PACKET, p3))
       else let p2 = p1\<lparr>has_vlan_tag := False, pkt_vlan_pcp := 0, dei := False, pkt_vlan_id := 1\<rparr>;
                p3 = p2\<lparr>packet_type := raw_type (ethertype p2) 14 pkt\<rparr>
            in (packet_type p3 \<noteq> UNKNOWN_PACKET, p3))"

text \<open>In \<open>to_string\<close> the operator \<open>?:\<close> binds less tightly than \<open>+\<close>: what is tested is the address of the literal, and
  only \<open>yes\<close> is appended, for the tag and for the drop eligibility alike.\<close>

fun packet_type_text :: "packet_t \<Rightarrow> string" where
  "packet_type_text ARP_PACKET = ''packet type     : ARP''"
| "packet_type_text TCP_PACKET = ''packet type     : TCP''"
| "packet_type_text UDP_PACKET = ''packet type     : UDP''"
| "packet_type_text DHCP_PACKET = ''packet type     : DHCP''"
| "packet_type_text _ = ''packet type     : UNKNOWN''"

definition nl :: string where "nl = [CHR 0x0A]"

definition raw_to_string :: "'a raw_packet_scheme \<Rightarrow> string" where
  "raw_to_string p = packet_type_text (packet_type p) @ nl @ ''ethertype       : '' @ dec (unat (ethertype p)) @ ''yes''
     @ (if has_vlan_tag p then nl @ ''vlan id         : '' @ dec (unat (ethertype p))
          @ nl @ ''vlan pcp        : '' @ dec (unat (pkt_vlan_pcp p)) @ ''yes'' else [])
     @ nl @ ''src mac         : '' @ mac_to_string (src_mac p) @ nl @ ''dest mac        : '' @ mac_to_string (dest_mac p)"

section \<open>VLAN tags\<close>

text \<open>\<open>std_packet_utils\<close>, on a fresh output buffer: its memory is a whole number of pages, and
  \<open>ptr_offset_mutable\<close> aborts at an offset that is not below the size.\<close>

definition page_round :: "nat \<Rightarrow> nat" where
  "page_round n = (n + 4095) div 4096 * 4096"

text \<open>A frame that is tagged already gets a new VLAN in place; one that ends inside the tag is changed as
  far as it goes. An untagged frame that is no more than its header aborts.\<close>

definition set_vlan_tag :: "byte list \<Rightarrow> 16 word \<Rightarrow> byte list option res" where
  "set_vlan_tag input vlan =
    (if length input < 14 then Inr None
     else if of_be16 (chunk 12 2 input) = 0x8100 then
       Inr (Some (case drop 14 input of
           [] \<Rightarrow> input
         | [b] \<Rightarrow> chunk 0 14 input @ [(b AND 0xf0) OR (ucast (drop_bit 8 vlan) AND 0x0f)]
         | b # _ # rest \<Rightarrow> chunk 0 14 input @ [(b AND 0xf0) OR (ucast (drop_bit 8 vlan) AND 0x0f), ucast (vlan AND 0x00ff)] @ rest))
     else if length input + 4 \<le> 18 then Inl Aborted
     else Inr (Some (chunk 0 12 input @ [0x81, 0x00, ucast (drop_bit 8 vlan) AND 0x0f, ucast (vlan AND 0x00ff)]
       @ drop 12 input)))"

text \<open>\<open>strip_vlan_tag\<close> looks for the tag at the offset of the type of a tagged frame, 16, and then
  makes a buffer of 32 bytes less than the frame for what is 4 bytes less.\<close>

definition strip_vlan_tag :: "byte list \<Rightarrow> byte list option res" where
  "strip_vlan_tag input =
    (if length input < 14 then Inr None
     else bindr (fetch 16 2 input) (\<lambda>t.
       if of_be16 t \<noteq> 0x8100 then Inr (Some input)
       else if length input = 32 then Inl OutOfBounds
       else if length input \<le> 46 then Inl Aborted
       else if page_round (length input - 32) < length input - 4 then Inl OutOfBounds
       else Inr (Some (take (length input - 32) (chunk 0 12 input @ chunk 16 2 input @ drop 18 input)))))"

section \<open>ARP\<close>

record arp_packet = raw_packet +
  sender_mac :: mac_address
  receiver_mac :: mac_address
  arp_request :: bool
  arp_src_ip :: ip_address
  arp_dest_ip :: ip_address

text \<open>The constructor leaves \<open>arp_request\<close> unset.\<close>

definition arp_packet_new :: "bool \<Rightarrow> arp_packet" where
  "arp_packet_new unset = raw_packet.extend (raw_packet_new\<lparr>packet_type := ARP_PACKET\<rparr>)
     (arp_packet.fields mac_nil mac_nil unset ip_nil ip_nil)"

definition arp_packet_clear :: "arp_packet \<Rightarrow> arp_packet" where
  "arp_packet_clear p = (raw_packet_clear p)\<lparr>packet_type := ARP_PACKET, sender_mac := mac_nil, receiver_mac := mac_nil,
     arp_request := True, arp_src_ip := ip_nil, arp_dest_ip := ip_nil\<rparr>"

definition arp_serialize :: "arp_packet \<Rightarrow> byte list res" where
  "arp_serialize p = bindr (raw_serialize p) (\<lambda>eth.
     Inr (eth @ be16 1 @ be16 0x0800 @ [6, 4] @ be16 (if arp_request p then 1 else 2)
       @ mac_octets (sender_mac p) @ ip_octets (arp_src_ip p)
       @ mac_octets (receiver_mac p) @ ip_octets (arp_dest_ip p)))"

definition arp_deserialize :: "byte list \<Rightarrow> arp_packet \<Rightarrow> bool \<times> arp_packet" where
  "arp_deserialize pkt p =
    (case raw_deserialize pkt p of (ok, p1) \<Rightarrow>
      if \<not> ok then (False, p1)
      else let off = eth_hdr_len p1 in
        if length pkt < off + 28 then (False, p1)
        else let op = of_be16 (chunk (off + 6) 2 pkt) in
          if of_be16 (chunk off 2 pkt) \<noteq> 1 \<or> of_be16 (chunk (off + 2) 2 pkt) \<noteq> 0x0800
             \<or> pkt ! (off + 4) \<noteq> 6 \<or> pkt ! (off + 5) \<noteq> 4 \<or> op < 1 \<or> 2 < op then (False, p1)
          else (True, p1\<lparr>arp_request := (op = 1),
                 sender_mac := mac_from_bytes (chunk (off + 8) 6 pkt), arp_src_ip := ip_from_bytes (chunk (off + 14) 4 pkt),
                 receiver_mac := mac_from_bytes (chunk (off + 18) 6 pkt), arp_dest_ip := ip_from_bytes (chunk (off + 24) 4 pkt)\<rparr>))"

definition arp_to_string :: "arp_packet \<Rightarrow> string" where
  "arp_to_string p = raw_to_string p @ nl @ (if arp_request p then ''ARP request'' else ''ARP reply'')
     @ nl @ ''sender MAC address: '' @ mac_to_string (sender_mac p) @ nl @ ''receiver MAC address: '' @ mac_to_string (receiver_mac p)
     @ nl @ ''src IP address: '' @ ip_to_string (arp_src_ip p) @ nl @ ''dest IP address: '' @ ip_to_string (arp_dest_ip p)"

section \<open>The Internet checksum\<close>

text \<open>The sum of the 16-bit words of a buffer in a \<open>uint32_t\<close>, an odd last byte left out, the words
  read in network order.\<close>

fun sum_be16 :: "byte list \<Rightarrow> 32 word" where
  "sum_be16 (a # b # bs) = ucast (of_be16 [a, b]) + sum_be16 bs"
| "sum_be16 _ = 0"

text \<open>Two rounds of adding the carries, and the complement.\<close>

definition fold_carry :: "32 word \<Rightarrow> 32 word" where
  "fold_carry c = (c AND 0xffff) + drop_bit 16 (c AND 0xffff0000)"

definition ones_complement :: "32 word \<Rightarrow> 16 word" where
  "ones_complement c = NOT (ucast (fold_carry (fold_carry c) AND 0xffff))"

section \<open>IPv4\<close>

record ip_packet = raw_packet +
  ip_version :: byte
  ihl :: byte
  dscp :: byte
  ecn :: byte
  identification :: "16 word"
  dont_fragment :: bool
  more_fragments :: bool
  fragment_offset :: "16 word"
  ttl :: byte
  protocol :: byte
  ip_hdr_checksum :: "16 word"
  src_ip :: ip_address
  dest_ip :: ip_address
  ip_options :: view
  ip_payload :: view

text \<open>What the constructor and \<open>clear()\<close> set. \<open>clear()\<close> clears the buffers last, and so aborts on a packet that
  was read.\<close>

definition ip_packet_init :: "'a ip_packet_scheme \<Rightarrow> 'a ip_packet_scheme" where
  "ip_packet_init p = (raw_packet_clear p)\<lparr>ip_version := 4, ihl := 5, dscp := 0, ecn := 0, identification := 54635,
     dont_fragment := True, more_fragments := False, fragment_offset := 0, ttl := 64, protocol := 0, ip_hdr_checksum := 0,
     src_ip := ip_nil, dest_ip := ip_nil\<rparr>"

definition ip_packet_construct :: "'a ip_packet_scheme \<Rightarrow> 'a ip_packet_scheme" where
  "ip_packet_construct p = (ip_packet_init p)\<lparr>ip_options := view_empty, ip_payload := view_empty\<rparr>"

definition ip_packet_clear :: "'a ip_packet_scheme \<Rightarrow> 'a ip_packet_scheme res" where
  "ip_packet_clear p =
     bindr (view_clear (ip_options p)) (\<lambda>opts. bindr (view_clear (ip_payload p)) (\<lambda>payload.
       Inr ((ip_packet_init p)\<lparr>ip_options := opts, ip_payload := payload\<rparr>)))"

text \<open>The 20 bytes of the header with the given checksum; \<open>len\<close> is what follows it.\<close>

definition ip_header :: "'a ip_packet_scheme \<Rightarrow> nat \<Rightarrow> 16 word \<Rightarrow> byte list" where
  "ip_header p len checksum =
     [push_bit 4 (ip_version p) OR (ihl p AND 0x0f), push_bit 6 (dscp p) OR (ecn p AND 0x03)]
     @ be16 (of_nat (20 + len)) @ be16 (identification p)
     @ [(ucast (drop_bit 8 (fragment_offset p)) AND 0x1f) OR (if dont_fragment p then push_bit 6 1 else 0)
          OR (if more_fragments p then push_bit 5 1 else 0),
        ucast (fragment_offset p AND 0xff), ttl p, protocol p]
     @ be16 checksum @ ip_octets (src_ip p) @ ip_octets (dest_ip p)"

text \<open>The checksum field counts as zero, whatever it holds.\<close>

definition checksum_ip :: "byte list \<Rightarrow> 16 word" where
  "checksum_ip hdr = ones_complement (sum_be16 (blit 10 [0, 0] hdr))"

text \<open>\<open>serialize\<close>, and \<open>serialize_special\<close>, where the caller fills in the payload.\<close>

definition ip_serialize_special :: "'a ip_packet_scheme \<Rightarrow> nat \<Rightarrow> byte list res" where
  "ip_serialize_special p payload_len =
     bindr (raw_serialize p) (\<lambda>eth.
     bindr (copy_content (ip_options p)) (\<lambda>opts.
       let len = view_size (ip_options p) + payload_len in
       Inr (eth @ ip_header p len (checksum_ip (ip_header p len 0)) @ opts)))"

definition ip_serialize :: "'a ip_packet_scheme \<Rightarrow> byte list res" where
  "ip_serialize p =
     bindr (ip_serialize_special p (view_size (ip_payload p))) (\<lambda>hdr.
     bindr (copy_content (ip_payload p)) (\<lambda>payload. Inr (hdr @ payload)))"

text \<open>\<open>total_len - ihl * 4\<close> is unsigned: a total length below 20 makes a payload of almost 4 GiB. The
  identification is read into a local variable.\<close>

definition ip_deserialize :: "byte list \<Rightarrow> 'a ip_packet_scheme \<Rightarrow> (bool \<times> 'a ip_packet_scheme) res" where
  "ip_deserialize input p =
    (case raw_deserialize input p of (ok, p1) \<Rightarrow>
      if \<not> ok then Inr (False, p1)
      else let off = eth_hdr_len p1 in
        bindr (fetch off 1 input) (\<lambda>vi.
        let p2 = p1\<lparr>ip_version := drop_bit 4 (hd vi)\<rparr> in
        if ip_version p2 \<noteq> 4 then Inr (False, p2)
        else let p3 = p2\<lparr>ihl := hd vi AND 0x0f\<rparr> in
        if ihl p3 \<noteq> 5 then Inr (False, p3)
        else bindr (fetch off 20 input) (\<lambda>hdr.
          let p4 = p3\<lparr>dscp := drop_bit 2 (hdr ! 1), ecn := hdr ! 1 AND 0x03\<rparr>;
              total_len = unat (of_be16 (chunk 2 2 hdr)) in
          if length input - off < total_len then Inr (False, p4)
          else if drop_bit 7 (hdr ! 6) AND 0x01 \<noteq> 0 then Inr (False, p4)
          else Inr (True, p4\<lparr>dont_fragment := (drop_bit 6 (hdr ! 6) AND 0x01 \<noteq> 0),
            more_fragments := (drop_bit 5 (hdr ! 6) AND 0x01 \<noteq> 0),
            fragment_offset := push_bit 8 (ucast (hdr ! 7)) + ucast (hdr ! 6 AND 0x1f),
            ttl := hdr ! 8, protocol := hdr ! 9, ip_hdr_checksum := of_be16 (chunk 10 2 hdr),
            src_ip := ip_from_bytes (chunk 12 4 hdr), dest_ip := ip_from_bytes (chunk 16 4 hdr),
            ip_options := view_empty,
            ip_payload := inherit_read_only (off + 20) (total_len + 2 ^ 64 - 20) input\<rparr>))))"

definition ip_to_string_text :: "'a ip_packet_scheme \<Rightarrow> string" where
  "ip_to_string_text p = raw_to_string p @ nl @ ''src IP          : '' @ ip_to_string (src_ip p)
     @ nl @ ''dest IP         : '' @ ip_to_string (dest_ip p) @ nl @ ''ttl             : '' @ dec (unat (ttl p))
     @ nl @ ''ip checksum     : '' @ dec (unat (ip_hdr_checksum p)) @ nl @ ''version         : '' @ dec (unat (ip_version p))
     @ nl @ ''ihl             : '' @ dec (unat (ihl p)) @ nl @ ''dscp            : '' @ dec (unat (dscp p))
     @ nl @ ''ecn             : '' @ dec (unat (ecn p)) @ nl @ ''identification  : '' @ dec (unat (identification p))
     @ nl @ ''fragment offset : '' @ dec (unat (fragment_offset p)) @ nl @ ''flags           : ''
     @ (if dont_fragment p then ''DONT_FRAGMENT '' else []) @ (if more_fragments p then ''MORE_FRAGMENTS'' else [])"

end
