(* ===== verification/Cam_Table.thy ===== *)
theory Cam_Table
  imports Flow_Types Of_Features Std_Map Packets
begin

text \<open>
  \<open>controller/services/cam_table.{h,cpp}\<close> and \<open>cam.{h,cpp}\<close>: which port a source address was
  seen on, one table for each VLAN, with \<open>ironstack_types/openflow_vlan_port\<close>, the membership
  of a port in VLANs. Every operation holds the service's lock; the clock is the argument \<open>now\<close>.
\<close>

section \<open>The table\<close>

record cam_entry =
  cam_valid :: bool
  cam_dl_address :: mac_address
  phy_port :: "16 word"
  lookup_count :: "32 word"
  last_lookup :: timer
  update_count :: "32 word"
  cam_last_updated :: timer

definition cam_entry_new :: "int \<Rightarrow> mac_address \<Rightarrow> 16 word \<Rightarrow> cam_entry" where
  "cam_entry_new now addr port = \<lparr>cam_valid = True, cam_dl_address = addr, phy_port = port, lookup_count = 0,
     last_lookup = timer_reset now, update_count = 0, cam_last_updated = timer_reset now\<rparr>"

record cam_table =
  cam_max_capacity :: "32 word"
  cam_timeout_sec :: "32 word"
  cam_mappings :: "(mac_address, cam_entry) smap"

definition cam_table_new :: cam_table where
  "cam_table_new = \<lparr>cam_max_capacity = 65536, cam_timeout_sec = 14400, cam_mappings = []\<rparr>"

text \<open>\<open>(int)timeout_sec * 1000\<close>, an \<open>int\<close> that wraps as compiled.\<close>

definition timeout_ms :: "32 word \<Rightarrow> int" where
  "timeout_ms timeout_sec = signed_take_bit 31 (sint timeout_sec * 1000)"

definition cam_stale :: "int \<Rightarrow> 32 word \<Rightarrow> cam_entry \<Rightarrow> bool" where
  "cam_stale now timeout e =
    (\<not> cam_valid e \<or> timeout_ms timeout \<le> get_time_elapsed_ms now (cam_last_updated e))"

text \<open>The first loop erases what is stale, the second the first entries as long as there are too
  many; \<open>excess_entries\<close> is an \<open>int\<close>.\<close>

fun gc_stale :: "(cam_entry \<Rightarrow> bool) \<Rightarrow> int \<Rightarrow> (mac_address, cam_entry) smap \<Rightarrow> int \<times> (mac_address, cam_entry) smap" where
  "gc_stale stale excess [] = (excess, [])"
| "gc_stale stale excess ((k, e) # es) =
    (if stale e then gc_stale stale (excess - 1) es
     else case gc_stale stale excess es of (excess', es') \<Rightarrow> (excess', (k, e) # es'))"

fun gc_excess :: "int \<Rightarrow> (mac_address, cam_entry) smap \<Rightarrow> (mac_address, cam_entry) smap" where
  "gc_excess excess [] = []"
| "gc_excess excess (e # es) = (if 0 < excess then gc_excess (excess - 1) es else e # es)"

definition cam_garbage_collection :: "int \<Rightarrow> cam_table \<Rightarrow> cam_table" where
  "cam_garbage_collection now t =
    (let excess = signed_take_bit 31 (int (length (cam_mappings t)) - uint (cam_max_capacity t)) in
     case gc_stale (cam_stale now (cam_timeout_sec t)) excess (cam_mappings t) of (excess', es) \<Rightarrow>
       t\<lparr>cam_mappings := gc_excess excess' es\<rparr>)"

definition cam_set_max_capacity :: "int \<Rightarrow> 32 word \<Rightarrow> cam_table \<Rightarrow> cam_table" where
  "cam_set_max_capacity now m t =
    (if cam_max_capacity t < m then t\<lparr>cam_max_capacity := m\<rparr>
     else cam_garbage_collection now (t\<lparr>cam_max_capacity := m\<rparr>))"

definition cam_available_capacity :: "cam_table \<Rightarrow> nat" where
  "cam_available_capacity t =
    (if unat (cam_max_capacity t) \<le> length (cam_mappings t) then 0
     else unat (cam_max_capacity t) - length (cam_mappings t))"

definition cam_set_timeout :: "int \<Rightarrow> 32 word \<Rightarrow> cam_table \<Rightarrow> cam_table" where
  "cam_set_timeout now timeout t =
    (if cam_timeout_sec t \<le> timeout then t\<lparr>cam_timeout_sec := timeout\<rparr>
     else cam_garbage_collection now (t\<lparr>cam_timeout_sec := timeout\<rparr>))"

definition cam_clear :: "cam_table \<Rightarrow> cam_table" where
  "cam_clear t = t\<lparr>cam_mappings := []\<rparr>"

text \<open>\<open>- 1\<close> when there is no port. The counters of the entry are mutable.\<close>

definition cam_lookup_port_for :: "int \<Rightarrow> mac_address \<Rightarrow> cam_table \<Rightarrow> int \<times> cam_table" where
  "cam_lookup_port_for now dest t =
    (case smap_find dest (cam_mappings t) of
       None \<Rightarrow> (- 1, t)
     | Some e \<Rightarrow>
        if \<not> cam_valid e then (- 1, t)
        else (uint (phy_port e), t\<lparr>cam_mappings := smap_put dest
               (e\<lparr>lookup_count := lookup_count e + 1, last_lookup := timer_reset now\<rparr>) (cam_mappings t)\<rparr>))"

definition cam_insert :: "int \<Rightarrow> mac_address \<Rightarrow> 16 word \<Rightarrow> cam_table \<Rightarrow> bool \<times> cam_table" where
  "cam_insert now addr port t =
    (case smap_find addr (cam_mappings t) of
       None \<Rightarrow>
        (let t' = (if unat (cam_max_capacity t) \<le> length (cam_mappings t) then cam_garbage_collection now t else t) in
         if unat (cam_max_capacity t') \<le> length (cam_mappings t') then (False, t')
         else (True, t'\<lparr>cam_mappings := smap_put addr (cam_entry_new now addr port) (cam_mappings t')\<rparr>))
     | Some e \<Rightarrow>
        (True, t\<lparr>cam_mappings := smap_put addr (e\<lparr>cam_valid := True, phy_port := port,
          update_count := update_count e + 1, cam_last_updated := timer_reset now\<rparr>) (cam_mappings t)\<rparr>))"

definition cam_remove_mac :: "mac_address \<Rightarrow> cam_table \<Rightarrow> cam_table" where
  "cam_remove_mac addr t = t\<lparr>cam_mappings := smap_erase addr (cam_mappings t)\<rparr>"

definition cam_remove_port :: "16 word \<Rightarrow> cam_table \<Rightarrow> cam_table" where
  "cam_remove_port port t = t\<lparr>cam_mappings := smap_erase_if (\<lambda>(k, e). phy_port e = port) (cam_mappings t)\<rparr>"

section \<open>What every operation keeps\<close>

text \<open>The map is sorted, an entry is filed under its own address, and no entry is invalid.\<close>

definition cam_entries_ok :: "(mac_address, cam_entry) smap \<Rightarrow> bool" where
  "cam_entries_ok m = (smap_ok m \<and> (\<forall>(k, e) \<in> set m. cam_valid e \<and> cam_dl_address e = k))"

definition cam_ok :: "cam_table \<Rightarrow> bool" where
  "cam_ok t = (cam_entries_ok (cam_mappings t) \<and> length (cam_mappings t) \<le> unat (cam_max_capacity t))"

lemma set_smap_put_subset: "set (smap_put k v m) \<subseteq> insert (k, v) (set m)"
  by (induction k v m rule: smap_put.induct) auto

lemma length_smap_put:
  "smap_ok m \<Longrightarrow> length (smap_put k v m) = (if smap_find k m = None then Suc (length m) else length m)"
  using smap.size_put [of m k v] by simp

lemma cam_entries_sorted [dest]: "cam_entries_ok m \<Longrightarrow> smap_ok m"
  by (simp add: cam_entries_ok_def)

lemma cam_entries_ok_Nil [simp]: "cam_entries_ok []"
  by (simp add: cam_entries_ok_def)

lemma cam_entries_ok_put:
  "cam_entries_ok m \<Longrightarrow> cam_valid e \<Longrightarrow> cam_dl_address e = k \<Longrightarrow> cam_entries_ok (smap_put k e m)"
  using set_smap_put_subset [of k e m] by (auto simp: cam_entries_ok_def smap_ok_put)

lemma cam_entries_ok_filter: "cam_entries_ok m \<Longrightarrow> cam_entries_ok (filter P m)"
  by (auto simp: cam_entries_ok_def smap_ok_filter)

lemma cam_entries_ok_drop: "cam_entries_ok m \<Longrightarrow> cam_entries_ok (drop n m)"
  by (auto simp: cam_entries_ok_def smap_ok_def drop_map [symmetric] sorted_wrt_drop dest: in_set_dropD)

lemma cam_entry_found:
  assumes "cam_entries_ok m" "smap_find k m = Some e"
  shows "cam_valid e" "cam_dl_address e = k"
  using assms by (auto simp: cam_entries_ok_def smap_find_in)

subsection \<open>Garbage collection\<close>

lemma gc_stale_filter:
  "gc_stale stale excess m =
    (excess - int (length (filter (\<lambda>(k, e). stale e) m)), filter (\<lambda>(k, e). \<not> stale e) m)"
  by (induction stale excess m rule: gc_stale.induct) auto

lemma gc_excess_drop: "gc_excess n m = drop (nat n) m"
proof (induction n m rule: gc_excess.induct)
  case (2 n e es)
  then show ?case by (cases "nat n") (auto simp: nat_diff_distrib')
qed simp

definition fresh_mappings :: "int \<Rightarrow> cam_table \<Rightarrow> (mac_address, cam_entry) smap" where
  "fresh_mappings now t = filter (\<lambda>(k, e). \<not> cam_stale now (cam_timeout_sec t) e) (cam_mappings t)"

lemma length_fresh_mappings:
  "length (cam_mappings t) =
    length (filter (\<lambda>(k, e). cam_stale now (cam_timeout_sec t) e) (cam_mappings t)) + length (fresh_mappings now t)"
  unfolding fresh_mappings_def
  using sum_length_filter_compl [of "\<lambda>(k, e). cam_stale now (cam_timeout_sec t) e" "cam_mappings t"]
  by (simp add: case_prod_beta')

lemma int_difference_fits: "a < 2 ^ 31 \<Longrightarrow> b < 2 ^ 31 \<Longrightarrow> signed_take_bit 31 (int a - int b) = int a - int b"
  by (rule signed_take_bit_int_eq_self) simp_all

text \<open>As long as sizes and capacity fit an \<open>int\<close>, what is left is the fresh entries less the first
  of those beyond the capacity.\<close>

lemma cam_gc_mappings:
  assumes "length (cam_mappings t) < 2 ^ 31" "unat (cam_max_capacity t) < 2 ^ 31"
  shows "cam_mappings (cam_garbage_collection now t) =
    drop (length (fresh_mappings now t) - unat (cam_max_capacity t)) (fresh_mappings now t)"
proof -
  have u: "uint (cam_max_capacity t) = int (unat (cam_max_capacity t))"
    by (rule uint_nat)
  have "signed_take_bit 31 (int (length (cam_mappings t)) - uint (cam_max_capacity t)) =
      int (length (cam_mappings t)) - int (unat (cam_max_capacity t))"
    unfolding u using assms by (rule int_difference_fits)
  then show ?thesis
    using length_fresh_mappings [of t now]
    by (simp add: cam_garbage_collection_def gc_stale_filter gc_excess_drop fresh_mappings_def nat_diff_distrib' Let_def)
qed

lemma cam_gc_fields [simp]:
  "cam_max_capacity (cam_garbage_collection now t) = cam_max_capacity t"
  "cam_timeout_sec (cam_garbage_collection now t) = cam_timeout_sec t"
  by (simp_all add: cam_garbage_collection_def gc_stale_filter Let_def)

lemma cam_gc_entries: "cam_entries_ok (cam_mappings t) \<Longrightarrow> cam_entries_ok (cam_mappings (cam_garbage_collection now t))"
  by (simp add: cam_garbage_collection_def gc_stale_filter gc_excess_drop Let_def cam_entries_ok_filter
      cam_entries_ok_drop)

lemma cam_gc_ok:
  assumes "cam_entries_ok (cam_mappings t)" "length (cam_mappings t) < 2 ^ 31" "unat (cam_max_capacity t) < 2 ^ 31"
  shows "cam_ok (cam_garbage_collection now t)"
  using assms cam_gc_entries [of t now] by (simp add: cam_ok_def cam_gc_mappings)

lemma cam_gc_shrinks: "length (cam_mappings (cam_garbage_collection now t)) \<le> length (cam_mappings t)"
  using length_filter_le [of _ "cam_mappings t"]
  by (auto simp: cam_garbage_collection_def gc_stale_filter gc_excess_drop Let_def intro: le_trans [OF diff_le_self])

subsection \<open>The operations\<close>

lemma cam_ok_new [simp]: "cam_ok cam_table_new"
  by (simp add: cam_ok_def cam_table_new_def)

lemma cam_ok_clear: "cam_ok (cam_clear t)"
  by (simp add: cam_ok_def cam_clear_def)

lemma cam_ok_put_known:
  assumes "cam_ok t" "smap_find k (cam_mappings t) \<noteq> None" "cam_valid e" "cam_dl_address e = k"
  shows "cam_ok (t\<lparr>cam_mappings := smap_put k e (cam_mappings t)\<rparr>)"
  using assms by (auto simp: cam_ok_def cam_entries_ok_put length_smap_put cam_entries_sorted)

lemma cam_ok_put_room:
  assumes "cam_ok t" "length (cam_mappings t) < unat (cam_max_capacity t)" "cam_valid e" "cam_dl_address e = k"
  shows "cam_ok (t\<lparr>cam_mappings := smap_put k e (cam_mappings t)\<rparr>)"
  using assms by (auto simp: cam_ok_def cam_entries_ok_put length_smap_put cam_entries_sorted)

lemma cam_ok_filter: "cam_ok t \<Longrightarrow> cam_ok (t\<lparr>cam_mappings := filter P (cam_mappings t)\<rparr>)"
  by (auto simp: cam_ok_def cam_entries_ok_filter intro: le_trans [OF length_filter_le])

lemma cam_ok_gc: "cam_ok t \<Longrightarrow> cam_ok (cam_garbage_collection now t)"
  using cam_gc_shrinks [of now t] by (simp add: cam_ok_def cam_gc_entries)

lemma cam_ok_lookup: "cam_ok t \<Longrightarrow> cam_ok (snd (cam_lookup_port_for now a t))"
  using cam_entry_found [of "cam_mappings t" a]
  by (auto simp: cam_lookup_port_for_def cam_ok_def [of t] intro!: cam_ok_put_known split: option.split)

lemma cam_ok_insert: "cam_ok t \<Longrightarrow> cam_ok (snd (cam_insert now a p t))"
proof (cases "smap_find a (cam_mappings t)")
  case None
  assume "cam_ok t"
  with None show ?thesis
    using cam_ok_gc [of t now]
    by (auto simp: cam_insert_def Let_def cam_entry_new_def not_le intro!: cam_ok_put_room)
next
  case (Some e)
  assume ok: "cam_ok t"
  then have "cam_dl_address e = a" using Some cam_entry_found by (auto simp: cam_ok_def)
  with ok Some show ?thesis by (auto simp: cam_insert_def intro!: cam_ok_put_known)
qed

lemma cam_ok_remove_mac: "cam_ok t \<Longrightarrow> cam_ok (cam_remove_mac a t)"
  by (simp add: cam_remove_mac_def smap_erase_def cam_ok_filter)

lemma cam_ok_remove_port: "cam_ok t \<Longrightarrow> cam_ok (cam_remove_port p t)"
  by (simp add: cam_remove_port_def smap_erase_if_filter cam_ok_filter)

lemma unat_2_31_le: "cam_ok t \<Longrightarrow> unat (cam_max_capacity t) < 2 ^ 31 \<Longrightarrow> length (cam_mappings t) < 2 ^ 31"
  unfolding cam_ok_def by (rule le_less_trans) simp_all

lemma cam_ok_set_max_capacity:
  assumes "cam_ok t" "unat (cam_max_capacity t) < 2 ^ 31" "unat m < 2 ^ 31"
  shows "cam_ok (cam_set_max_capacity now m t)"
proof (cases "cam_max_capacity t < m")
  case True
  then have "unat (cam_max_capacity t) \<le> unat m" by (simp add: word_less_nat_alt)
  with True assms(1) show ?thesis by (auto simp: cam_set_max_capacity_def cam_ok_def)
next
  case False
  moreover have "cam_ok (cam_garbage_collection now (t\<lparr>cam_max_capacity := m\<rparr>))"
    using assms unat_2_31_le [OF assms(1,2)] by (intro cam_gc_ok) (simp_all add: cam_ok_def)
  ultimately show ?thesis by (simp add: cam_set_max_capacity_def)
qed

lemma cam_ok_set_timeout: "cam_ok t \<Longrightarrow> cam_ok (cam_set_timeout now d t)"
  using cam_ok_gc [of "t\<lparr>cam_timeout_sec := d\<rparr>" now] by (simp add: cam_set_timeout_def cam_ok_def)

text \<open>What a table goes through: any of its operations, at any time, the capacities an \<open>int\<close>.\<close>

inductive cam_reach :: "cam_table \<Rightarrow> bool" where
  cam_start: "cam_reach cam_table_new"
| cam_capacity: "cam_reach t \<Longrightarrow> unat m < 2 ^ 31 \<Longrightarrow> cam_reach (cam_set_max_capacity now m t)"
| cam_timeout: "cam_reach t \<Longrightarrow> cam_reach (cam_set_timeout now d t)"
| cam_cleared: "cam_reach t \<Longrightarrow> cam_reach (cam_clear t)"
| cam_looked_up: "cam_reach t \<Longrightarrow> cam_reach (snd (cam_lookup_port_for now a t))"
| cam_inserted: "cam_reach t \<Longrightarrow> cam_reach (snd (cam_insert now a p t))"
| cam_removed: "cam_reach t \<Longrightarrow> cam_reach (cam_remove_mac a t)"
| cam_port_removed: "cam_reach t \<Longrightarrow> cam_reach (cam_remove_port p t)"

lemma cam_op_capacity [simp]:
  "cam_max_capacity (cam_set_max_capacity now m t) = m"
  "cam_max_capacity (cam_set_timeout now d t) = cam_max_capacity t"
  "cam_max_capacity (cam_clear t) = cam_max_capacity t"
  "cam_max_capacity (snd (cam_lookup_port_for now a t)) = cam_max_capacity t"
  "cam_max_capacity (snd (cam_insert now a p t)) = cam_max_capacity t"
  "cam_max_capacity (cam_remove_mac a t) = cam_max_capacity t"
  "cam_max_capacity (cam_remove_port p t) = cam_max_capacity t"
  by (simp_all add: cam_set_max_capacity_def cam_set_timeout_def cam_clear_def cam_lookup_port_for_def
      cam_insert_def cam_remove_mac_def cam_remove_port_def Let_def split: option.split)

lemma cam_capacity_bound: "cam_reach t \<Longrightarrow> unat (cam_max_capacity t) < 2 ^ 31"
  by (induction t rule: cam_reach.induct) (simp_all add: cam_table_new_def)

lemma cam_reach_inv: "cam_reach t \<Longrightarrow> cam_ok t"
proof (induction t rule: cam_reach.induct)
  case (cam_capacity t m now)
  then show ?case by (intro cam_ok_set_max_capacity cam_capacity_bound)
qed (simp_all add: cam_ok_set_timeout cam_ok_clear cam_ok_lookup cam_ok_insert cam_ok_remove_mac
    cam_ok_remove_port)

section \<open>The table as a map\<close>

text \<open>The promise of the table: a partial map from addresses to ports.\<close>

definition cam_abs :: "cam_table \<Rightarrow> mac_address \<Rightarrow> 16 word option" where
  "cam_abs t k = map_option phy_port (smap_find k (cam_mappings t))"

lemma cam_abs_put:
  "cam_abs (t\<lparr>cam_mappings := smap_put k e (cam_mappings t)\<rparr>) = (cam_abs t)(k \<mapsto> phy_port e)"
  by (auto simp: cam_abs_def smap_find_put)

lemma cam_abs_filter:
  assumes "cam_ok t"
  shows "cam_abs (t\<lparr>cam_mappings := filter P (cam_mappings t)\<rparr>) k =
    (case smap_find k (cam_mappings t) of None \<Rightarrow> None | Some e \<Rightarrow> if P (k, e) then Some (phy_port e) else None)"
  using assms by (simp add: cam_abs_def cam_ok_def cam_entries_ok_def smap_find_filter split: option.split)

lemma cam_lookup_abs:
  assumes "cam_ok t"
  shows "fst (cam_lookup_port_for now a t) = (case cam_abs t a of None \<Rightarrow> - 1 | Some p \<Rightarrow> uint p)"
    and "cam_abs (snd (cam_lookup_port_for now a t)) = cam_abs t"
proof -
  show "fst (cam_lookup_port_for now a t) = (case cam_abs t a of None \<Rightarrow> - 1 | Some p \<Rightarrow> uint p)"
    using assms cam_entry_found(1) [of "cam_mappings t" a]
    by (auto simp: cam_lookup_port_for_def cam_abs_def cam_ok_def split: option.split)
  show "cam_abs (snd (cam_lookup_port_for now a t)) = cam_abs t"
    by (auto simp: cam_lookup_port_for_def cam_abs_put fun_upd_idem_iff cam_abs_def [of t] split: option.split)
qed

lemma cam_insert_abs:
  assumes "cam_abs t a \<noteq> None \<or> length (cam_mappings t) < unat (cam_max_capacity t)"
  shows "fst (cam_insert now a p t)" "cam_abs (snd (cam_insert now a p t)) = (cam_abs t)(a \<mapsto> p)"
  using assms by (auto simp: cam_insert_def cam_abs_put Let_def cam_entry_new_def cam_abs_def [of t]
      split: option.split)

lemma cam_remove_abs:
  assumes "cam_ok t"
  shows "cam_abs (cam_remove_mac a t) = (cam_abs t)(a := None)"
    and "cam_abs (cam_remove_port p t) = (\<lambda>k. if cam_abs t k = Some p then None else cam_abs t k)"
  using assms
  by (auto simp: cam_remove_mac_def smap_erase_def cam_remove_port_def smap_erase_if_filter fun_eq_iff
      cam_abs_filter cam_abs_def [of t] split: option.split)

section \<open>Ports and VLANs\<close>

record openflow_vlan_port =
  vp_valid :: bool
  vp_tagged :: bool
  vlan_flood_port_membership :: "16 word set"
  vlan_stp_membership :: "16 word set"
  vlan_membership :: "16 word set"
  vp_port :: openflow_port

definition vlan_port_new :: openflow_vlan_port where
  "vlan_port_new = \<lparr>vp_valid = False, vp_tagged = False, vlan_flood_port_membership = {}, vlan_stp_membership = {},
     vlan_membership = {}, vp_port = openflow_port_new\<rparr>"

definition vlan_port_clear :: "openflow_vlan_port \<Rightarrow> openflow_vlan_port" where
  "vlan_port_clear v = vlan_port_new\<lparr>vp_port := port_clear (vp_port v)\<rparr>"

definition set_valid :: "bool \<Rightarrow> openflow_vlan_port \<Rightarrow> openflow_vlan_port" where
  "set_valid b v = v\<lparr>vp_valid := b\<rparr>"

definition set_vlan_tagging :: "bool \<Rightarrow> openflow_vlan_port \<Rightarrow> openflow_vlan_port res" where
  "set_vlan_tagging b v =
    (if \<not> b \<and> 1 < card (vlan_membership v) then Inl Aborted else Inr (v\<lparr>vp_tagged := b\<rparr>))"

definition add_to_vlan_membership :: "16 word \<Rightarrow> openflow_vlan_port \<Rightarrow> openflow_vlan_port res" where
  "add_to_vlan_membership vlan v =
    (let v' = v\<lparr>vlan_membership := insert vlan (vlan_membership v)\<rparr> in
     if \<not> vp_tagged v' \<and> 1 < card (vlan_membership v') then Inl Aborted else Inr v')"

definition add_as_flood_port_for_vlan :: "16 word \<Rightarrow> openflow_vlan_port \<Rightarrow> openflow_vlan_port res" where
  "add_as_flood_port_for_vlan vlan v =
     add_to_vlan_membership vlan (v\<lparr>vlan_flood_port_membership := insert vlan (vlan_flood_port_membership v)\<rparr>)"

definition add_as_stp_port_for_vlan :: "16 word \<Rightarrow> openflow_vlan_port \<Rightarrow> openflow_vlan_port res" where
  "add_as_stp_port_for_vlan vlan v =
     add_to_vlan_membership vlan (v\<lparr>vlan_stp_membership := insert vlan (vlan_stp_membership v)\<rparr>)"

definition remove_as_flood_port_for_vlan :: "16 word \<Rightarrow> openflow_vlan_port \<Rightarrow> openflow_vlan_port" where
  "remove_as_flood_port_for_vlan vlan v =
     v\<lparr>vlan_flood_port_membership := vlan_flood_port_membership v - {vlan}\<rparr>"

definition remove_as_stp_port_for_vlan :: "16 word \<Rightarrow> openflow_vlan_port \<Rightarrow> openflow_vlan_port" where
  "remove_as_stp_port_for_vlan vlan v = v\<lparr>vlan_stp_membership := vlan_stp_membership v - {vlan}\<rparr>"

definition remove_from_vlan_membership :: "16 word \<Rightarrow> openflow_vlan_port \<Rightarrow> openflow_vlan_port" where
  "remove_from_vlan_membership vlan v =
     remove_as_stp_port_for_vlan vlan (remove_as_flood_port_for_vlan vlan
       (v\<lparr>vlan_membership := vlan_membership v - {vlan}\<rparr>))"

definition remove_from_all_vlans :: "openflow_vlan_port \<Rightarrow> openflow_vlan_port" where
  "remove_from_all_vlans v =
     v\<lparr>vlan_flood_port_membership := {}, vlan_stp_membership := {}, vlan_membership := {}\<rparr>"

definition is_member_of_vlan :: "16 word \<Rightarrow> openflow_vlan_port \<Rightarrow> bool" where
  "is_member_of_vlan vlan v = (vlan \<in> vlan_membership v)"

definition is_flood_port_for_vlan :: "16 word \<Rightarrow> openflow_vlan_port \<Rightarrow> bool" where
  "is_flood_port_for_vlan vlan v = (vlan \<in> vlan_flood_port_membership v)"

definition is_stp_port_for_vlan :: "16 word \<Rightarrow> openflow_vlan_port \<Rightarrow> bool" where
  "is_stp_port_for_vlan vlan v = (vlan \<in> vlan_stp_membership v)"

definition set_openflow_port :: "openflow_port \<Rightarrow> openflow_vlan_port \<Rightarrow> openflow_vlan_port" where
  "set_openflow_port p v = v\<lparr>vp_port := p\<rparr>"

text \<open>What a port goes through as long as the controller does not abort.\<close>

inductive vlan_port_reach :: "openflow_vlan_port \<Rightarrow> bool" where
  vp_start: "vlan_port_reach vlan_port_new"
| vp_cleared: "vlan_port_reach v \<Longrightarrow> vlan_port_reach (vlan_port_clear v)"
| vp_set_valid: "vlan_port_reach v \<Longrightarrow> vlan_port_reach (set_valid b v)"
| vp_tagging: "vlan_port_reach v \<Longrightarrow> set_vlan_tagging b v = Inr v' \<Longrightarrow> vlan_port_reach v'"
| vp_add: "vlan_port_reach v \<Longrightarrow> add_to_vlan_membership vlan v = Inr v' \<Longrightarrow> vlan_port_reach v'"
| vp_add_flood: "vlan_port_reach v \<Longrightarrow> add_as_flood_port_for_vlan vlan v = Inr v' \<Longrightarrow> vlan_port_reach v'"
| vp_add_stp: "vlan_port_reach v \<Longrightarrow> add_as_stp_port_for_vlan vlan v = Inr v' \<Longrightarrow> vlan_port_reach v'"
| vp_remove_flood: "vlan_port_reach v \<Longrightarrow> vlan_port_reach (remove_as_flood_port_for_vlan vlan v)"
| vp_remove_stp: "vlan_port_reach v \<Longrightarrow> vlan_port_reach (remove_as_stp_port_for_vlan vlan v)"
| vp_remove: "vlan_port_reach v \<Longrightarrow> vlan_port_reach (remove_from_vlan_membership vlan v)"
| vp_remove_all: "vlan_port_reach v \<Longrightarrow> vlan_port_reach (remove_from_all_vlans v)"
| vp_port_set: "vlan_port_reach v \<Longrightarrow> vlan_port_reach (set_openflow_port p v)"

definition vlan_port_ok :: "openflow_vlan_port \<Rightarrow> bool" where
  "vlan_port_ok v = (finite (vlan_membership v) \<and> (\<not> vp_tagged v \<longrightarrow> card (vlan_membership v) \<le> 1) \<and>
     vlan_flood_port_membership v \<subseteq> vlan_membership v \<and> vlan_stp_membership v \<subseteq> vlan_membership v)"

lemmas vlan_port_op_defs = vlan_port_new_def vlan_port_clear_def set_valid_def set_vlan_tagging_def
  add_to_vlan_membership_def add_as_flood_port_for_vlan_def add_as_stp_port_for_vlan_def
  remove_as_flood_port_for_vlan_def remove_as_stp_port_for_vlan_def remove_from_vlan_membership_def
  remove_from_all_vlans_def set_openflow_port_def

text \<open>An untagged port is never left in more than one VLAN, and a port floods or takes part in the
  spanning tree only in VLANs that it is a member of, whatever is called on it in whatever order.\<close>

theorem vlan_port_inv:
  assumes "vlan_port_reach v"
  shows "vlan_port_ok v"
  using assms
proof (induction v rule: vlan_port_reach.induct)
  case (vp_remove v vlan)
  then show ?case
    using card_Diff1_le [of "vlan_membership v" vlan] by (auto simp: vlan_port_op_defs vlan_port_ok_def)
qed (auto simp: vlan_port_op_defs vlan_port_ok_def Let_def split: if_splits)

lemma vlan_port_inv_witness:
  "vlan_port_ok (remove_as_flood_port_for_vlan 7
     (vlan_port_new\<lparr>vlan_membership := {7}, vlan_flood_port_membership := {7}\<rparr>))"
proof -
  have "add_as_flood_port_for_vlan 7 vlan_port_new =
      Inr (vlan_port_new\<lparr>vlan_membership := {7}, vlan_flood_port_membership := {7}\<rparr>)"
    by (simp add: vlan_port_op_defs)
  from vlan_port_reach.vp_add_flood [OF vp_start this] show ?thesis
    by (rule vlan_port_inv [OF vlan_port_reach.vp_remove_flood])
qed

lemma vlan_port_new_ok [simp]: "vlan_port_ok vlan_port_new"
  by (simp add: vlan_port_ok_def vlan_port_new_def)

lemma untagged_vlan_unique:
  assumes "vlan_port_ok v" "\<not> vp_tagged v" "vlan \<in> vlan_membership v"
  shows "vlan_membership v = {vlan}"
  using assms card_le_Suc0_iff_eq [of "vlan_membership v"] by (auto simp: vlan_port_ok_def)

section \<open>The service\<close>

record cam_service =
  cam_initialized :: bool
  cam_tables :: "(16 word, cam_table) smap"

definition create_cam_table :: "16 word \<Rightarrow> cam_service \<Rightarrow> cam_service" where
  "create_cam_table vlan s =
    (if smap_find vlan (cam_tables s) \<noteq> None then s
     else s\<lparr>cam_tables := smap_put vlan cam_table_new (cam_tables s)\<rparr>)"

definition remove_cam_table :: "16 word \<Rightarrow> cam_service \<Rightarrow> cam_service" where
  "remove_cam_table vlan s = s\<lparr>cam_tables := smap_erase vlan (cam_tables s)\<rparr>"

definition remove_all_cam_tables :: "cam_service \<Rightarrow> cam_service" where
  "remove_all_cam_tables s = s\<lparr>cam_tables := []\<rparr>"

definition get_cam_vlans :: "cam_service \<Rightarrow> 16 word set" where
  "get_cam_vlans s = set (map fst (cam_tables s))"

definition on_cam_table :: "16 word \<Rightarrow> (cam_table \<Rightarrow> cam_table) \<Rightarrow> cam_service \<Rightarrow> cam_service" where
  "on_cam_table vlan f s =
    (case smap_find vlan (cam_tables s) of None \<Rightarrow> s
     | Some t \<Rightarrow> s\<lparr>cam_tables := smap_put vlan (f t) (cam_tables s)\<rparr>)"

definition on_all_cam_tables :: "(cam_table \<Rightarrow> cam_table) \<Rightarrow> cam_service \<Rightarrow> cam_service" where
  "on_all_cam_tables f s = s\<lparr>cam_tables := smap_update (\<lambda>_. f) (cam_tables s)\<rparr>"

definition clear_cam_table :: "16 word \<Rightarrow> cam_service \<Rightarrow> cam_service" where
  "clear_cam_table vlan = on_cam_table vlan cam_clear"

definition clear_all_cam_tables :: "cam_service \<Rightarrow> cam_service" where
  "clear_all_cam_tables = on_all_cam_tables cam_clear"

definition cam_service_insert :: "int \<Rightarrow> mac_address \<Rightarrow> 16 word \<Rightarrow> 16 word \<Rightarrow> cam_service \<Rightarrow> cam_service" where
  "cam_service_insert now addr vlan port = on_cam_table vlan (\<lambda>t. snd (cam_insert now addr port t))"

definition cam_insert_all :: "int \<Rightarrow> mac_address \<Rightarrow> 16 word \<Rightarrow> cam_service \<Rightarrow> cam_service" where
  "cam_insert_all now addr port = on_all_cam_tables (\<lambda>t. snd (cam_insert now addr port t))"

definition cam_service_lookup :: "int \<Rightarrow> mac_address \<Rightarrow> 16 word \<Rightarrow> cam_service \<Rightarrow> int \<times> cam_service" where
  "cam_service_lookup now addr vlan s =
    (case smap_find vlan (cam_tables s) of None \<Rightarrow> (- 1, s)
     | Some t \<Rightarrow> (case cam_lookup_port_for now addr t of (r, t') \<Rightarrow>
         (r, s\<lparr>cam_tables := smap_put vlan t' (cam_tables s)\<rparr>)))"

definition cam_service_remove_mac :: "mac_address \<Rightarrow> 16 word \<Rightarrow> cam_service \<Rightarrow> cam_service" where
  "cam_service_remove_mac addr vlan = on_cam_table vlan (cam_remove_mac addr)"

definition cam_service_remove_port :: "16 word \<Rightarrow> cam_service \<Rightarrow> cam_service" where
  "cam_service_remove_port port = on_all_cam_tables (cam_remove_port port)"

text \<open>The port is looked up in the switch state service, which may not be there or not know it.\<close>

definition cam_filter_packet ::
  "int \<Rightarrow> openflow_vlan_port option \<Rightarrow> 16 word \<Rightarrow> 'p raw_packet_scheme \<Rightarrow> cam_service \<Rightarrow> bool \<times> cam_service" where
  "cam_filter_packet now switch_port port pkt s =
    (if \<not> cam_initialized s then (False, s)
     else case switch_port of None \<Rightarrow> (False, s)
     | Some v \<Rightarrow>
        if has_vlan_tag pkt then
          (if vp_tagged v \<and> is_member_of_vlan (pkt_vlan_id pkt) v
           then (False, cam_service_insert now (src_mac pkt) (pkt_vlan_id pkt) port s)
           else (True, s))
        else if \<not> vp_tagged v then
          (if vlan_membership v = {} then (False, cam_service_insert now (src_mac pkt) 1 port s)
           else (False, cam_service_insert now (src_mac pkt) (Min (vlan_membership v)) port s))
        else (True, s))"

text \<open>\<open>init\<close> and \<open>shutdown\<close> also register and unregister the filter with the packet processor.\<close>

definition cam_init :: "cam_service \<Rightarrow> bool \<times> cam_service" where
  "cam_init s = (True, s\<lparr>cam_initialized := True\<rparr>)"

definition cam_shutdown :: "cam_service \<Rightarrow> cam_service" where
  "cam_shutdown s = s\<lparr>cam_initialized := False\<rparr>"

section \<open>What the table promises\<close>

text \<open>C21. Whatever is done to a CAM table in whatever order, at whatever times, its map stays sorted
  and files every entry under its own address, no entry is invalid, and there are never more entries
  than the capacity (capacities that fit an \<open>int\<close>).\<close>

theorem cam_table_inv: "cam_reach t \<Longrightarrow> cam_ok t \<and> unat (cam_max_capacity t) < 2 ^ 31"
  by (intro conjI cam_reach_inv cam_capacity_bound)

lemma cam_table_inv_witness:
  "cam_ok (snd (cam_insert 5 mac_broadcast 3 (cam_set_max_capacity 0 1 cam_table_new)))"
proof -
  have "unat (1 :: 32 word) < 2 ^ 31" by simp
  from cam_table_inv [OF cam_inserted [OF cam_capacity [OF cam_start this]]] show ?thesis by blast
qed

text \<open>C11. The table implements a partial map from addresses to ports: a lookup returns what the map
  holds, or -1, and does not change it; inserting where the address is known or where there is room
  succeeds and updates the map at the address only; removing an address, a port or everything removes
  just that.\<close>

theorem cam_table_refines_map:
  assumes "cam_ok t"
  shows "fst (cam_lookup_port_for now a t) = (case cam_abs t a of None \<Rightarrow> - 1 | Some p \<Rightarrow> uint p) \<and>
    cam_abs (snd (cam_lookup_port_for now a t)) = cam_abs t \<and>
    (cam_abs t a \<noteq> None \<or> length (cam_mappings t) < unat (cam_max_capacity t) \<longrightarrow>
      fst (cam_insert now a p t) \<and> cam_abs (snd (cam_insert now a p t)) = (cam_abs t)(a \<mapsto> p)) \<and>
    cam_abs (cam_remove_mac a t) = (cam_abs t)(a := None) \<and>
    cam_abs (cam_remove_port p t) = (\<lambda>k. if cam_abs t k = Some p then None else cam_abs t k) \<and>
    cam_abs (cam_clear t) = Map.empty"
proof (intro conjI impI)
  show "cam_abs (cam_clear t) = Map.empty"
    by (simp add: cam_abs_def cam_clear_def smap_find_def fun_eq_iff)
qed (simp_all only: cam_lookup_abs [OF assms] cam_insert_abs cam_remove_abs [OF assms])

lemma cam_table_refines_map_witness:
  "cam_abs (snd (cam_insert 9 mac_broadcast 4 cam_table_new)) = [mac_broadcast \<mapsto> 4]"
proof -
  have "length (cam_mappings cam_table_new) < unat (cam_max_capacity cam_table_new)"
    "cam_abs cam_table_new = Map.empty"
    by (simp_all add: cam_table_new_def cam_abs_def smap_find_def fun_eq_iff)
  with cam_table_refines_map [OF cam_ok_new, of 9 mac_broadcast 4] show ?thesis by simp
qed

text \<open>On a full table an unknown address is learnt exactly when some entry has timed out: then
  all the entries that have timed out go and every other one stays; otherwise the table is as it was.\<close>

theorem cam_insert_full:
  assumes "cam_ok t" "unat (cam_max_capacity t) < 2 ^ 31"
    and "cam_abs t a = None" "length (cam_mappings t) = unat (cam_max_capacity t)"
  shows "cam_insert now a p t =
    (if \<exists>e \<in> set (cam_mappings t). cam_stale now (cam_timeout_sec t) (snd e)
     then (True, t\<lparr>cam_mappings := smap_put a (cam_entry_new now a p) (fresh_mappings now t)\<rparr>)
     else (False, t))"
proof -
  let ?gc = "cam_garbage_collection now t"
  have find: "smap_find a (cam_mappings t) = None" using assms(3) by (simp add: cam_abs_def)
  have le: "length (fresh_mappings now t) \<le> unat (cam_max_capacity t)"
    using length_fresh_mappings [of t now] assms(4) by simp
  then have gc: "cam_mappings ?gc = fresh_mappings now t"
    using assms unat_2_31_le [OF assms(1,2)] by (subst cam_gc_mappings) simp_all
  have gc_eq: "?gc = t\<lparr>cam_mappings := fresh_mappings now t\<rparr>"
    using gc by (simp add: cam_garbage_collection_def gc_stale_filter Let_def)
  show ?thesis
  proof (cases "\<exists>e \<in> set (cam_mappings t). cam_stale now (cam_timeout_sec t) (snd e)")
    case True
    then have "length (fresh_mappings now t) < length (cam_mappings t)"
      unfolding fresh_mappings_def by (auto intro: length_filter_less)
    with True find assms(4) show ?thesis by (simp add: cam_insert_def Let_def gc_eq)
  next
    case False
    then have "fresh_mappings now t = cam_mappings t"
      unfolding fresh_mappings_def by (simp add: filter_id_conv case_prod_beta)
    with False find assms(4) show ?thesis by (simp add: cam_insert_def Let_def gc_eq)
  qed
qed

lemma cam_insert_full_witness:
  "cam_insert 14400007 mac_broadcast 4
     (snd (cam_insert 7 mac_nil 3 (cam_table_new\<lparr>cam_max_capacity := 1\<rparr>))) =
   (True, cam_table_new\<lparr>cam_max_capacity := 1, cam_mappings := [(mac_broadcast, cam_entry_new 14400007 mac_broadcast 4)]\<rparr>)"
proof -
  let ?t = "cam_table_new\<lparr>cam_max_capacity := 1, cam_mappings := [(mac_nil, cam_entry_new 7 mac_nil 3)]\<rparr>"
  have t: "snd (cam_insert 7 mac_nil 3 (cam_table_new\<lparr>cam_max_capacity := 1\<rparr>)) = ?t"
    by (simp add: cam_insert_def cam_table_new_def smap_find_def)
  have stale: "cam_stale 14400007 (cam_timeout_sec ?t) (cam_entry_new 7 mac_nil 3)"
    by (simp add: cam_stale_def cam_table_new_def timeout_ms_def cam_entry_new_def timer_reset_def
        get_time_elapsed_ms_def signed_take_bit_int_eq_self)
  have ok: "cam_ok ?t"
    by (simp add: cam_ok_def cam_entries_ok_def smap_ok_def cam_entry_new_def)
  have ne: "mac_broadcast \<noteq> mac_nil"
    by (simp add: mac_broadcast_def mac_nil_def)
  show ?thesis
    unfolding t by (subst cam_insert_full) (use ok ne stale in \<open>simp_all add: cam_abs_def smap_find_def fresh_mappings_def\<close>)
qed

text \<open>A time-out between 2147484 and 4294967 seconds (25 to 49 days) is not a long one: in
  milliseconds it no longer fits an \<open>int\<close> and becomes negative, so that every entry has
  timed out at once and the next collection empties the table.\<close>

theorem cam_timeout_overflow:
  assumes "2147484 \<le> unat d" "unat d \<le> 4294967"
    and "\<forall>(k, e) \<in> set (cam_mappings t). 0 \<le> now - cam_last_updated e \<and> now - cam_last_updated e < 2 ^ 31"
  shows "cam_mappings (cam_garbage_collection now (t\<lparr>cam_timeout_sec := d\<rparr>)) = []"
proof -
  have u: "int (unat d) = uint d" by simp
  have bounds: "2147484 \<le> uint d" "uint d \<le> 4294967"
    using assms(1,2) unfolding u [symmetric] by linarith+
  have "sint d = uint d"
    unfolding sint_uint using bounds by (intro signed_take_bit_int_eq_self) simp_all
  with bounds have "timeout_ms d \<le> uint d * 1000 - 2 ^ Suc 31"
    unfolding timeout_ms_def by (simp only:) (rule signed_take_bit_int_less_eq, simp)
  with bounds(2) have neg: "timeout_ms d < 0" by simp
  have "cam_stale now d e" if "(k, e) \<in> set (cam_mappings t)" for k e
  proof -
    have "get_time_elapsed_ms now (cam_last_updated e) = now - cam_last_updated e"
      using that assms(3) by (intro get_time_elapsed_ms_id) auto
    then show ?thesis using that assms(3) neg by (auto simp: cam_stale_def)
  qed
  then have "filter (\<lambda>(k, e). \<not> cam_stale now d e) (cam_mappings t) = []"
    by (auto simp: filter_empty_conv)
  then show ?thesis
    by (simp add: cam_garbage_collection_def gc_stale_filter gc_excess_drop Let_def)
qed

lemma cam_timeout_overflow_witness:
  "cam_mappings (cam_garbage_collection 0
     (cam_table_new\<lparr>cam_mappings := [(mac_nil, cam_entry_new 0 mac_nil 3)], cam_timeout_sec := 2592000\<rparr>)) = []"
  by (rule cam_timeout_overflow) (simp_all add: cam_entry_new_def timer_reset_def)

section \<open>What the packet filter learns\<close>

definition packet_vlan :: "openflow_vlan_port \<Rightarrow> 'p raw_packet_scheme \<Rightarrow> 16 word" where
  "packet_vlan v pkt =
    (if has_vlan_tag pkt then pkt_vlan_id pkt
     else if vlan_membership v = {} then 1 else Min (vlan_membership v))"

definition carries :: "openflow_vlan_port \<Rightarrow> 'p raw_packet_scheme \<Rightarrow> bool" where
  "carries v pkt =
    (vp_tagged v = has_vlan_tag pkt \<and>
     (vlan_membership v \<noteq> {} \<or> has_vlan_tag pkt \<longrightarrow> packet_vlan v pkt \<in> vlan_membership v))"

text \<open>A packet that the filter lets through has come in on a port that carries its VLAN (the VLAN
  of the tag on a tagged port, the port's own one on an untagged port, VLAN 1 when it has none),
  and from then on its source address is found on that port, provided the VLAN has a CAM table with
  room; a packet that it drops has the wrong tag for the port and teaches it nothing.\<close>

theorem cam_filter_learns:
  assumes "cam_initialized s" "vlan_port_ok v"
    and "smap_find (packet_vlan v pkt) (cam_tables s) = Some t" "cam_ok t"
    and "length (cam_mappings t) < unat (cam_max_capacity t)"
  shows "if carries v pkt
    then \<not> fst (cam_filter_packet now (Some v) port pkt s) \<and>
      fst (cam_service_lookup later (src_mac pkt) (packet_vlan v pkt)
        (snd (cam_filter_packet now (Some v) port pkt s))) = uint port
    else cam_filter_packet now (Some v) port pkt s = (True, s)"
proof (cases "carries v pkt")
  case True
  let ?t = "snd (cam_insert now (src_mac pkt) port t)"
  from True have "cam_filter_packet now (Some v) port pkt s =
      (False, cam_service_insert now (src_mac pkt) (packet_vlan v pkt) port s)"
    using assms(1) by (auto simp: carries_def packet_vlan_def cam_filter_packet_def is_member_of_vlan_def)
  moreover have "fst (cam_lookup_port_for later (src_mac pkt) ?t) = uint port"
    using cam_insert_abs(2) [of t "src_mac pkt" now port] assms(4,5)
    by (simp add: cam_lookup_abs cam_ok_insert)
  ultimately show ?thesis
    using True assms(3)
    by (simp add: cam_service_insert_def on_cam_table_def cam_service_lookup_def smap_find_put split_beta)
next
  case False
  have "Min (vlan_membership v) \<in> vlan_membership v" if "vlan_membership v \<noteq> {}"
    using that assms(2) by (simp add: vlan_port_ok_def)
  with False show ?thesis
    using assms(1) by (auto simp: carries_def packet_vlan_def cam_filter_packet_def is_member_of_vlan_def split: if_splits)
qed

lemma cam_filter_learns_witness:
  "fst (cam_service_lookup 8 mac_broadcast 1 (snd (cam_filter_packet 7 (Some vlan_port_new) 3
      (raw_packet_new\<lparr>src_mac := mac_broadcast\<rparr>)
      \<lparr>cam_initialized = True, cam_tables = [(1, cam_table_new)]\<rparr>))) = 3"
proof -
  let ?pkt = "(raw_packet_new\<lparr>src_mac := mac_broadcast\<rparr>)"
  have vlan: "packet_vlan vlan_port_new ?pkt = 1" "carries vlan_port_new ?pkt"
    by (simp_all add: packet_vlan_def carries_def vlan_port_new_def raw_packet_new_def)
  have "length (cam_mappings cam_table_new) < unat (cam_max_capacity cam_table_new)"
    by (simp add: cam_table_new_def)
  from cam_filter_learns [where v = vlan_port_new and pkt = ?pkt and port = 3, OF _ _ _ cam_ok_new this,
      of "\<lparr>cam_initialized = True, cam_tables = [(1, cam_table_new)]\<rparr>" 7 8]
  show ?thesis
    by (simp add: vlan smap_find_def)
qed

end
