(* ===== verification/Flow_Table.thy ===== *)
theory Flow_Table
  imports Of_Message Std_Map
begin

text \<open>
  \<open>controller/services/flow_table.{h,cpp}\<close> and its two subclasses for the Dell S48xx: the
  controller's record of the flow entries on the switch. Every operation holds the table's
  lock, so it is a function of the state; the clock is read at one instant \<open>now\<close>, except in
  the two capacity functions, which wait for time to pass: there \<open>clk i\<close> is the reading of
  the \<open>i\<close>-th call.
\<close>

section \<open>The state\<close>

type_synonym flow_map = "(64 word, openflow_flow_entry) smap"

datatype table_kind = Dell_L2 | Dell_ACL

record flow_table =
  kind :: table_kind
  max_capacity :: nat
  flows :: flow_map

definition set_max_capacity :: "nat \<Rightarrow> flow_table \<Rightarrow> flow_table" where
  "set_max_capacity cap t = t\<lparr>max_capacity := cap\<rparr>"

definition DELETED_ENTRY_TIMEOUT :: int where
  "DELETED_ENTRY_TIMEOUT = 5000"

section \<open>What a table accepts\<close>

definition l2_check_table_fit :: "of_match \<Rightarrow> openflow_action_list \<Rightarrow> bool" where
  "l2_check_table_fit c actions =
    (if wildcard_in_port c \<and> wildcard_ethernet_src c \<and> \<not> wildcard_ethernet_dest c
        \<and> \<not> mac_is_broadcast (ethernet_dest c) \<and> \<not> wildcard_vlan_id c \<and> wildcard_vlan_pcp c
        \<and> wildcard_ethernet_frame_type c \<and> wildcard_ip_type_of_service c \<and> wildcard_ip_protocol c
        \<and> wildcard_ip_src_lsb_count c = 32 \<and> wildcard_ip_dest_lsb_count c = 32
        \<and> wildcard_tcpudp_src_port c \<and> wildcard_tcpudp_dest_port c
     then (if length (get_actions actions) \<noteq> 1 \<or> get_action_type (get_actions actions ! 0) \<noteq> OUTPUT_TO_PORT
           then False else True)
     else False)"

definition acl_check_table_fit :: "of_match \<Rightarrow> openflow_action_list \<Rightarrow> bool" where
  "acl_check_table_fit c actions = True"

fun check_table_fit :: "table_kind \<Rightarrow> openflow_flow_description \<Rightarrow> bool" where
  "check_table_fit Dell_L2 flow = l2_check_table_fit (criteria flow) (action_list flow)"
| "check_table_fit Dell_ACL flow = acl_check_table_fit (criteria flow) (action_list flow)"

section \<open>Capacity\<close>

text \<open>
  The loop of both functions, over the entries from the iterator on: an entry that is not
  deleted is counted, a deleted one is erased once it is old enough; until then the iterator
  stays, and the clock is read again. The result is the entries kept, the count, and the
  number of clock readings.
\<close>

partial_function (option) capacity_loop ::
  "(nat \<Rightarrow> int) \<Rightarrow> nat \<Rightarrow> flow_map \<Rightarrow> flow_map \<Rightarrow> nat \<Rightarrow> (flow_map \<times> nat \<times> nat) option" where
  "capacity_loop clk i todo kept used =
    (case todo of
       [] \<Rightarrow> Some (kept, used, i)
     | e # rest \<Rightarrow>
         if state (snd e) \<noteq> DELETED then capacity_loop clk i rest (kept @ [e]) (u32 (used + 1))
         else if DELETED_ENTRY_TIMEOUT \<le> get_time_since_update_ms (clk i) (snd e)
         then capacity_loop clk (Suc i) rest kept used
         else capacity_loop clk (Suc i) todo kept used)"

definition get_used_capacity :: "(nat \<Rightarrow> int) \<Rightarrow> flow_table \<Rightarrow> (nat \<times> flow_table) option" where
  "get_used_capacity clk t =
     map_option (\<lambda>(kept, used, i). (used, t\<lparr>flows := kept\<rparr>)) (capacity_loop clk 0 (flows t) [] 0)"

definition get_available_capacity :: "(nat \<Rightarrow> int) \<Rightarrow> flow_table \<Rightarrow> (nat \<times> flow_table) option" where
  "get_available_capacity clk t =
     map_option (\<lambda>(kept, used, i).
        (if used < max_capacity t then max_capacity t - used else 0, t\<lparr>flows := kept\<rparr>))
       (capacity_loop clk 0 (flows t) [] 0)"

section \<open>Looking up and changing entries\<close>

definition clear_table :: "bool \<Rightarrow> flow_table \<Rightarrow> flow_table" where
  "clear_table include_static t =
     (if \<not> include_static then t\<lparr>flows := []\<rparr>
      else t\<lparr>flows := smap_erase_if (\<lambda>(k, e). \<not> is_static e) (flows t)\<rparr>)"

definition is_cookie_used :: "64 word \<Rightarrow> flow_table \<Rightarrow> bool" where
  "is_cookie_used c t = (smap_find c (flows t) \<noteq> None)"

definition get_flow_entry_by_cookie :: "64 word \<Rightarrow> flow_table \<Rightarrow> openflow_flow_entry option" where
  "get_flow_entry_by_cookie c t = smap_find c (flows t)"

text \<open>The scan for the latest cookie of an equal description; \<open>- 1\<close> when there is none.\<close>

fun latest_cookie :: "openflow_flow_description \<Rightarrow> flow_map \<Rightarrow> bool \<Rightarrow> 64 word \<Rightarrow> 64 word" where
  "latest_cookie flow [] found result = result"
| "latest_cookie flow ((k, e) # es) found result =
    (if flow_description_eq (description e) flow then
       (if \<not> found then latest_cookie flow es True (cookie (description e))
        else if result < cookie (description e) then latest_cookie flow es found (cookie (description e))
        else latest_cookie flow es found result)
     else latest_cookie flow es found result)"

definition get_cookie_for_flow :: "openflow_flow_description \<Rightarrow> flow_table \<Rightarrow> 64 word" where
  "get_cookie_for_flow flow t = latest_cookie flow (flows t) False (- 1)"

definition add_entry :: "openflow_flow_entry \<Rightarrow> flow_table \<Rightarrow> (bool \<times> flow_table) res" where
  "add_entry entry t =
    (if cookie (description entry) = 0 \<or> cookie (description entry) = - 1 then Inl Aborted
     else if max_capacity t \<le> length (flows t) then Inr (False, t)
     else Inr (True, t\<lparr>flows := smap_put (cookie (description entry)) entry (flows t)\<rparr>))"

definition mark_entry_as_installed :: "int \<Rightarrow> 64 word \<Rightarrow> flow_table \<Rightarrow> bool \<times> flow_table" where
  "mark_entry_as_installed now c t =
    (case smap_find c (flows t) of
       None \<Rightarrow> (False, t)
     | Some e \<Rightarrow>
        (case state e of
           PENDING_INSTALLATION \<Rightarrow> (True, t\<lparr>flows := smap_put c (set_state now ACTIVE e) (flows t)\<rparr>)
         | ACTIVE \<Rightarrow> (True, t)
         | PENDING_DELETION \<Rightarrow> (True, t)
         | _ \<Rightarrow> (False, t)))"

definition mark_entry_as_pending_deletion :: "int \<Rightarrow> 64 word \<Rightarrow> flow_table \<Rightarrow> bool \<times> flow_table" where
  "mark_entry_as_pending_deletion now c t =
    (case smap_find c (flows t) of
       None \<Rightarrow> (False, t)
     | Some e \<Rightarrow>
        if state e = DELETED then (False, t)
        else (True, t\<lparr>flows := smap_put c (set_state now PENDING_DELETION e) (flows t)\<rparr>))"

definition mark_entry_as_deleted :: "int \<Rightarrow> 64 word \<Rightarrow> flow_table \<Rightarrow> bool \<times> flow_table" where
  "mark_entry_as_deleted now c t =
    (case smap_find c (flows t) of
       None \<Rightarrow> (False, t)
     | Some e \<Rightarrow> (True, t\<lparr>flows := smap_put c (set_state now DELETED e) (flows t)\<rparr>))"

text \<open>Which entries \<open>mark_all_flows_as_pending_delete\<close> changes.\<close>

definition to_be_deleted :: "bool \<Rightarrow> openflow_flow_entry \<Rightarrow> bool" where
  "to_be_deleted include_static e =
    (if \<not> include_static \<and> is_static e then False
     else state e = PENDING_INSTALLATION \<or> state e = ACTIVE)"

fun mark_all_loop :: "int \<Rightarrow> bool \<Rightarrow> flow_map \<Rightarrow> openflow_flow_entry list \<times> flow_map" where
  "mark_all_loop now include_static [] = ([], [])"
| "mark_all_loop now include_static ((k, e) # es) =
    (let (result, es') = mark_all_loop now include_static es in
     if to_be_deleted include_static e
     then (set_state now PENDING_DELETION e # result, (k, set_state now PENDING_DELETION e) # es')
     else (result, (k, e) # es'))"

definition mark_all_flows_as_pending_delete ::
  "int \<Rightarrow> bool \<Rightarrow> flow_table \<Rightarrow> openflow_flow_entry list \<times> flow_table" where
  "mark_all_flows_as_pending_delete now include_static t =
    (let (result, es) = mark_all_loop now include_static (flows t) in (result, t\<lparr>flows := es\<rparr>))"

definition get_all_flows :: "bool \<Rightarrow> flow_table \<Rightarrow> openflow_flow_entry list" where
  "get_all_flows include_static t =
     filter (\<lambda>e. if include_static then True else \<not> is_static e) (map snd (flows t))"

definition get_all_flows_map :: "flow_table \<Rightarrow> flow_map" where
  "get_all_flows_map t = flows t"

section \<open>Refreshing from the switch\<close>

text \<open>\<open>openflow_flow_description_and_stats\<close>: what the switch reports of a flow.\<close>

record flow_stats =
  flow_desc :: openflow_flow_description
  table_id :: byte
  stats_alive_sec :: "32 word"
  stats_alive_nsec :: "32 word"
  duration_to_idle_timeout :: "16 word"
  duration_to_hard_timeout :: "16 word"
  stats_packet_count :: "64 word"
  stats_byte_count :: "64 word"

definition refreshed_state :: "int \<Rightarrow> openflow_flow_entry \<Rightarrow> openflow_flow_entry" where
  "refreshed_state now e =
    (case state e of
       FS_UNKNOWN \<Rightarrow> set_state now ACTIVE e
     | PENDING_INSTALLATION \<Rightarrow> set_state now ACTIVE e
     | _ \<Rightarrow> e)"

definition inherited_entry :: "int \<Rightarrow> flow_stats \<Rightarrow> openflow_flow_entry" where
  "inherited_entry now f =
    (flow_entry_new now)\<lparr>state := ACTIVE, idle_timeout := ucast (duration_to_idle_timeout f),
      hard_timeout := ucast (duration_to_hard_timeout f), description := flow_desc f,
      install_reason := ''inherited'', is_updated := True\<rparr>"

definition absorb_one :: "int \<Rightarrow> flow_stats \<Rightarrow> flow_map \<Rightarrow> flow_map" where
  "absorb_one now f m =
    (case smap_find (cookie (flow_desc f)) m of
       Some e \<Rightarrow> smap_put (cookie (flow_desc f)) (refreshed_state now (e\<lparr>is_updated := True\<rparr>)) m
     | None \<Rightarrow> smap_put (cookie (flow_desc f)) (inherited_entry now f) m)"

text \<open>The first loop takes reported flows from the front while they fit this table.\<close>

fun absorb_loop ::
  "int \<Rightarrow> table_kind \<Rightarrow> flow_stats list \<Rightarrow> flow_map \<Rightarrow> nat \<Rightarrow> flow_map \<times> flow_stats list \<times> nat" where
  "absorb_loop now kd [] m result = (m, [], result)"
| "absorb_loop now kd (f # fs) m result =
    (if check_table_fit kd (flow_desc f) then absorb_loop now kd fs (absorb_one now f m) (u32 (result + 1))
     else (m, f # fs, result))"

text \<open>The second loop visits every entry of the table.\<close>

fun sweep_loop :: "int \<Rightarrow> flow_map \<Rightarrow> flow_map" where
  "sweep_loop now [] = []"
| "sweep_loop now ((k, e) # es) =
    (if \<not> is_updated e then
       (if state e = PENDING_DELETION then (k, set_state now DELETED e) # sweep_loop now es
        else if state e = DELETED \<and> DELETED_ENTRY_TIMEOUT < get_time_since_update_ms now e then sweep_loop now es
        else sweep_loop now es)
     else (k, e\<lparr>is_updated := False\<rparr>) # sweep_loop now es)"

definition update_entries ::
  "int \<Rightarrow> flow_stats list \<Rightarrow> flow_table \<Rightarrow> nat \<times> flow_stats list \<times> flow_table" where
  "update_entries now updated_flows t =
    (let (m, remaining, result) = absorb_loop now (kind t) updated_flows (flows t) 0
     in (result, remaining, t\<lparr>flows := sweep_loop now m\<rparr>))"

section \<open>Completed transactions\<close>

text \<open>The reply that comes with a completed request, and the request as the callback sees it.\<close>

datatype hal_reply = No_Reply | Reply byte

definition is_add_command :: "flow_mod_command \<Rightarrow> bool" where
  "is_add_command c = (c = OFPFC_ADD \<or> c = OFPFC_MODIFY \<or> c = OFPFC_MODIFY_STRICT)"

definition table_hal_callback ::
  "int \<Rightarrow> of_message_modify_flow \<Rightarrow> hal_reply \<Rightarrow> bool \<Rightarrow> flow_table \<Rightarrow> flow_table res" where
  "table_hal_callback now msg reply status t =
    (if msg_type msg = OFPT_FLOW_MOD then
       (if is_add_command (command msg) then
          (case reply of
             No_Reply \<Rightarrow> Inr (snd (mark_entry_as_installed now (cookie (flow_description msg)) t))
           | Reply ty \<Rightarrow>
               if ty = OFPT_ERROR then Inr (snd (mark_entry_as_deleted now (cookie (flow_description msg)) t))
               else Inr t)
        else
          (case reply of
             No_Reply \<Rightarrow> Inr (snd (mark_entry_as_deleted now (cookie (flow_description msg)) t))
           | Reply ty \<Rightarrow>
               if ty = OFPT_FLOW_REMOVED then Inr (snd (mark_entry_as_deleted now (cookie (flow_description msg)) t))
               else Inr t))
     else Inl Aborted)"

section \<open>Cookies\<close>

text \<open>The counter, and the random bytes that replace it when it has reached its last value.\<close>

definition get_next_available_cookie_id :: "64 word \<Rightarrow> 64 word \<Rightarrow> 64 word \<times> 64 word" where
  "get_next_available_cookie_id random next_id =
    (if next_id = - 1 then (random, random) else (next_id, next_id + 1))"

section \<open>Capacity: what the loop returns, and when\<close>

definition expired :: "int \<Rightarrow> openflow_flow_entry \<Rightarrow> bool" where
  "expired now e = (DELETED_ENTRY_TIMEOUT \<le> get_time_since_update_ms now e)"

lemma u32_bounded_sum: "n + m < 4294967296 \<Longrightarrow> u32 (n + m) = n + m"
  by simp

definition capacity_post ::
  "(nat \<Rightarrow> int) \<Rightarrow> nat \<Rightarrow> flow_map \<Rightarrow> flow_map \<Rightarrow> nat \<Rightarrow> flow_map \<times> nat \<times> nat \<Rightarrow> bool" where
  "capacity_post clk i todo kept used r \<longleftrightarrow> used + length todo < 4294967296 \<longrightarrow>
     fst r = kept @ filter (\<lambda>e. state (snd e) \<noteq> DELETED) todo
     \<and> fst (snd r) = used + length (filter (\<lambda>e. state (snd e) \<noteq> DELETED) todo)
     \<and> (\<forall>e \<in> set todo. state (snd e) = DELETED \<longrightarrow> (\<exists>l < snd (snd r). expired (clk l) (snd e)))
     \<and> i \<le> snd (snd r)"

lemma capacity_loop_post:
  assumes "capacity_loop clk i todo kept used = Some r"
  shows "capacity_post clk i todo kept used r"
proof (rule capacity_loop.raw_induct [of capacity_post, OF _ assms])
  fix loop clk i todo kept used r
  assume IH: "\<And>clk i todo kept used r. loop clk i todo kept used = Some r \<Longrightarrow> capacity_post clk i todo kept used r"
    and step: "(case todo of [] \<Rightarrow> Some (kept, used, i)
       | e # rest \<Rightarrow>
         if state (snd e) \<noteq> DELETED then loop clk i rest (kept @ [e]) (u32 (used + 1))
         else if DELETED_ENTRY_TIMEOUT \<le> get_time_since_update_ms (clk i) (snd e)
         then loop clk (Suc i) rest kept used
         else loop clk (Suc i) todo kept used) = Some r"
  show "capacity_post clk i todo kept used r"
  proof (cases todo)
    case Nil
    with step show ?thesis by (auto simp: capacity_post_def)
  next
    case (Cons e rest)
    consider (live) "state (snd e) \<noteq> DELETED" | (old) "state (snd e) = DELETED" "expired (clk i) (snd e)"
      | (fresh) "state (snd e) = DELETED" "\<not> expired (clk i) (snd e)" by blast
    then show ?thesis
    proof cases
      case live
      then have "capacity_post clk i rest (kept @ [e]) (u32 (used + 1)) r"
        using step Cons by (intro IH) simp
      then show ?thesis using live Cons by (auto simp: capacity_post_def)
    next
      case old
      then have "capacity_post clk (Suc i) rest kept used r"
        using step Cons by (intro IH) (simp add: expired_def)
      then show ?thesis using old Cons by (auto simp: capacity_post_def Suc_le_eq)
    next
      case fresh
      then have "capacity_post clk (Suc i) todo kept used r"
        using step Cons by (intro IH) (simp add: expired_def)
      then show ?thesis by (auto simp: capacity_post_def)
    qed
  qed
qed

text \<open>
  When \<open>get_used_capacity\<close> returns, it has counted the entries that are not deleted and
  removed exactly the deleted ones, and it has read the clock at a time when each of those had
  been deleted for at least five seconds: with a freshly deleted entry in the table the call
  waits, holding the lock, until the entry is old enough.
\<close>

theorem get_used_capacity_result:
  assumes "get_used_capacity clk t = Some (n, t')" "length (flows t) < 2 ^ 32"
  shows "n = length (filter (\<lambda>e. state (snd e) \<noteq> DELETED) (flows t))
    \<and> flows t' = filter (\<lambda>e. state (snd e) \<noteq> DELETED) (flows t)
    \<and> (\<forall>e \<in> set (flows t). state (snd e) = DELETED \<longrightarrow> (\<exists>l. expired (clk l) (snd e)))"
  using assms by (fastforce simp: get_used_capacity_def capacity_post_def dest!: capacity_loop_post)

text \<open>The loop ends when the clock goes on, and never ends while it does not.\<close>

lemma capacity_loop_Nil [simp]: "capacity_loop clk i [] kept used = Some (kept, used, i)"
  by (simp add: capacity_loop.simps)

lemma capacity_loop_waits:
  assumes "state (snd e) = DELETED" "expired (clk l) (snd e)" "i \<le> l" "\<forall>l' < l. i \<le> l' \<longrightarrow> \<not> expired (clk l') (snd e)"
  shows "capacity_loop clk i (e # rest) kept used = capacity_loop clk (Suc l) rest kept used"
  using assms(3,4)
proof (induction "l - i" arbitrary: i)
  case 0
  then have "i = l" by simp
  with assms(1,2) show ?case by (subst capacity_loop.simps) (simp add: expired_def)
next
  case (Suc d)
  then have "\<not> expired (clk i) (snd e)" by auto
  then have "capacity_loop clk i (e # rest) kept used = capacity_loop clk (Suc i) (e # rest) kept used"
    using assms(1) by (subst capacity_loop.simps) (simp add: expired_def)
  moreover have "d = l - Suc i" "Suc i \<le> l" using Suc.hyps(2) Suc.prems(1) by auto
  ultimately show ?case using Suc.hyps(1) [of "Suc i"] Suc.prems(2) by simp
qed

lemma capacity_loop_returns:
  assumes "\<forall>e \<in> set todo. state (snd e) = DELETED \<longrightarrow> (\<forall>i. \<exists>l\<ge>i. expired (clk l) (snd e))"
  shows "\<exists>r. capacity_loop clk i todo kept used = Some r"
  using assms
proof (induction todo arbitrary: i kept used)
  case (Cons e rest)
  show ?case
  proof (cases "state (snd e) = DELETED")
    case False
    then show ?thesis using Cons by (subst capacity_loop.simps) simp
  next
    case True
    define l where "l = (LEAST l. i \<le> l \<and> expired (clk l) (snd e))"
    from True Cons.prems have "\<exists>l\<ge>i. expired (clk l) (snd e)" by simp
    then obtain l0 where "i \<le> l0 \<and> expired (clk l0) (snd e)" by blast
    then have l: "i \<le> l \<and> expired (clk l) (snd e)" unfolding l_def by (rule LeastI)
    have "\<forall>l' < l. i \<le> l' \<longrightarrow> \<not> expired (clk l') (snd e)"
      unfolding l_def using not_less_Least by blast
    with True l have "capacity_loop clk i (e # rest) kept used = capacity_loop clk (Suc l) rest kept used"
      by (intro capacity_loop_waits) auto
    with Cons show ?thesis by simp
  qed
qed simp

text \<open>
  \<open>get_used_capacity\<close> returns if and only if every deleted entry of the table is seen as
  expired at some reading of the clock, when an expired entry stays expired at the later
  readings (less than 24 days pass during the call).
\<close>

theorem get_used_capacity_returns_iff:
  assumes "\<And>e i l. e \<in> set (flows t) \<Longrightarrow> expired (clk i) (snd e) \<Longrightarrow> i \<le> l \<Longrightarrow> expired (clk l) (snd e)"
    and "length (flows t) < 2 ^ 32"
  shows "(\<exists>r. get_used_capacity clk t = Some r)
    \<longleftrightarrow> (\<forall>e \<in> set (flows t). state (snd e) = DELETED \<longrightarrow> (\<exists>i. expired (clk i) (snd e)))"
proof
  assume "\<exists>r. get_used_capacity clk t = Some r"
  then show "\<forall>e \<in> set (flows t). state (snd e) = DELETED \<longrightarrow> (\<exists>i. expired (clk i) (snd e))"
    using assms(2) by (fastforce simp: get_used_capacity_def capacity_post_def dest!: capacity_loop_post)
next
  assume "\<forall>e \<in> set (flows t). state (snd e) = DELETED \<longrightarrow> (\<exists>i. expired (clk i) (snd e))"
  then have "\<forall>e \<in> set (flows t). state (snd e) = DELETED \<longrightarrow> (\<forall>i. \<exists>l\<ge>i. expired (clk l) (snd e))"
    using assms(1) by (metis nat_le_linear)
  then show "\<exists>r. get_used_capacity clk t = Some r"
    using capacity_loop_returns [of "flows t" clk 0 "[]" 0] by (auto simp: get_used_capacity_def)
qed

definition deleted_at :: "int \<Rightarrow> flow_table" where
  "deleted_at now = \<lparr>kind = Dell_L2, max_capacity = 10,
     flows = [(5, set_state now DELETED (flow_entry_new now))]\<rparr>"

theorem get_used_capacity_result_witness:
  "\<exists>n t'. get_used_capacity (\<lambda>i. 4000 + 1000 * int i) (deleted_at 0) = Some (n, t') \<and> n = 0 \<and> flows t' = []"
proof -
  have "get_used_capacity (\<lambda>i. 4000 + 1000 * int i) (deleted_at 0) = Some (0, (deleted_at 0)\<lparr>flows := []\<rparr>)"
    by (simp add: get_used_capacity_def deleted_at_def capacity_loop.simps DELETED_ENTRY_TIMEOUT_def
        get_time_since_update_ms_def get_time_elapsed_ms_id)
  then show ?thesis using get_used_capacity_result by (fastforce simp: deleted_at_def)
qed

theorem get_used_capacity_returns_iff_witness:
  "\<not> (\<exists>r. get_used_capacity (\<lambda>i. 0) (deleted_at 0) = Some r)"
  using get_used_capacity_returns_iff [of "deleted_at 0" "\<lambda>i. 0"]
  by (simp add: deleted_at_def expired_def DELETED_ENTRY_TIMEOUT_def get_time_since_update_ms_def get_time_elapsed_ms_id)

section \<open>Well-formed tables\<close>

text \<open>
  Between calls the map is sorted, every entry is stored under its own cookie and fits the
  table, and no entry carries the mark of a refresh.
\<close>

definition entry_ok :: "table_kind \<Rightarrow> 64 word \<Rightarrow> openflow_flow_entry \<Rightarrow> bool" where
  "entry_ok kd k e = (cookie (description e) = k \<and> check_table_fit kd (description e) \<and> \<not> is_updated e)"

definition table_ok :: "flow_table \<Rightarrow> bool" where
  "table_ok t = (smap_ok (flows t) \<and> (\<forall>k e. smap_find k (flows t) = Some e \<longrightarrow> entry_ok (kind t) k e))"

lemma entry_ok_set_state [simp]: "entry_ok kd k (set_state now s e) = entry_ok kd k e"
  by (simp add: entry_ok_def)

lemma table_ok_put:
  "table_ok t \<Longrightarrow> entry_ok (kind t) k e \<Longrightarrow> table_ok (t\<lparr>flows := smap_put k e (flows t)\<rparr>)"
  by (auto simp: table_ok_def smap_ok_put smap_find_put)

lemma table_ok_filter:
  "table_ok t \<Longrightarrow> table_ok (t\<lparr>flows := filter P (flows t)\<rparr>)"
  by (auto simp: table_ok_def smap_ok_filter smap_find_filter split: option.splits if_splits)

lemma table_ok_update:
  "table_ok t \<Longrightarrow> (\<And>k e. entry_ok (kind t) k e \<Longrightarrow> entry_ok (kind t) k (f k e))
     \<Longrightarrow> table_ok (t\<lparr>flows := smap_update f (flows t)\<rparr>)"
  by (auto simp: table_ok_def smap_find_update)

lemma mark_all_loop_update:
  "snd (mark_all_loop now b es)
     = smap_update (\<lambda>k e. if to_be_deleted b e then set_state now PENDING_DELETION e else e) es"
  by (induction now b es rule: mark_all_loop.induct) (auto simp: smap_update_def Let_def case_prod_beta)

text \<open>The refresh, as a function of the map.\<close>

lemma absorb_one_find:
  "smap_find k (absorb_one now f m) =
    (if k = cookie (flow_desc f)
     then Some (case smap_find k m of Some e \<Rightarrow> refreshed_state now (e\<lparr>is_updated := True\<rparr>)
                | None \<Rightarrow> inherited_entry now f)
     else smap_find k m)"
  by (auto simp: absorb_one_def smap_find_put split: option.split)

lemma absorb_one_ok: "smap_ok m \<Longrightarrow> smap_ok (absorb_one now f m)"
  by (simp add: absorb_one_def smap_ok_put split: option.split)

lemma absorb_loop_take:
  assumes "result + length fs < 2 ^ 32"
  shows "absorb_loop now kd fs m result =
    (fold (absorb_one now) (takeWhile (\<lambda>f. check_table_fit kd (flow_desc f)) fs) m,
     dropWhile (\<lambda>f. check_table_fit kd (flow_desc f)) fs,
     result + length (takeWhile (\<lambda>f. check_table_fit kd (flow_desc f)) fs))"
  using assms by (induction now kd fs m result rule: absorb_loop.induct) simp_all

definition swept :: "int \<Rightarrow> openflow_flow_entry \<Rightarrow> openflow_flow_entry option" where
  "swept now e =
    (if is_updated e then Some (e\<lparr>is_updated := False\<rparr>)
     else if state e = PENDING_DELETION then Some (set_state now DELETED e) else None)"

lemma sweep_loop_keys: "set (map fst (sweep_loop now es)) \<subseteq> set (map fst es)"
  by (induction now es rule: sweep_loop.induct) auto

lemma sweep_loop_above:
  "smap_ok ((k, e) # es) \<Longrightarrow> \<forall>x \<in> set (map fst (sweep_loop now es)). k < x"
  using sweep_loop_keys [of now es] by (auto simp only: smap_ok_Cons)

lemma sweep_loop_Cons:
  "sweep_loop now ((k, e) # es)
     = (case swept now e of None \<Rightarrow> sweep_loop now es | Some e' \<Rightarrow> (k, e') # sweep_loop now es)"
  by (simp add: swept_def)

declare sweep_loop.simps(2) [simp del]

lemma sweep_loop_ok: "smap_ok es \<Longrightarrow> smap_ok (sweep_loop now es)"
proof (induction es)
  case (Cons p es)
  obtain k e where p: "p = (k, e)" by (cases p)
  have above: "\<forall>x \<in> set (map fst (sweep_loop now es)). k < x"
    using Cons.prems unfolding p by (rule sweep_loop_above)
  have ok: "smap_ok (sweep_loop now es)"
    by (rule Cons.IH) (use Cons.prems in \<open>simp add: p smap_ok_Cons\<close>)
  show ?case unfolding p sweep_loop_Cons using above ok
    by (cases "swept now e") (simp_all only: smap_ok_Cons option.case simp_thms)
qed simp

lemma sweep_loop_find:
  "smap_ok es \<Longrightarrow> smap_find k (sweep_loop now es) = Option.bind (smap_find k es) (swept now)"
proof (induction es)
  case (Cons p es)
  obtain k' e where p: "p = (k', e)" by (cases p)
  have "k' \<notin> set (map fst (sweep_loop now es))"
    using sweep_loop_above [of k' e es now] Cons.prems unfolding p by blast
  then have "smap_find k' (sweep_loop now es) = None"
    using smap_find_keys [of k' "sweep_loop now es"] by metis
  moreover have "smap_find k (sweep_loop now es) = Option.bind (smap_find k es) (swept now)"
    using Cons by (simp add: p smap_ok_Cons)
  ultimately show ?case by (auto simp: p sweep_loop_Cons smap_find_def split: option.split)
qed (simp add: smap_find_def)

text \<open>What a refresh leaves under a cookie, when the switch reported the flows \<open>fs\<close>.\<close>

lemma refreshed_state_mark [simp]:
  "is_updated (refreshed_state now e) = is_updated e" "description (refreshed_state now e) = description e"
  by (simp_all add: refreshed_state_def split: flow_state.split)

lemma fold_absorb_find:
  "smap_find k (fold (absorb_one now) fs m) =
    (if k \<in> (\<lambda>f. cookie (flow_desc f)) ` set fs then
       (case smap_find k m of
          Some e \<Rightarrow> Some (refreshed_state now (e\<lparr>is_updated := True\<rparr>))
        | None \<Rightarrow> Some (inherited_entry now (the (List.find (\<lambda>f. cookie (flow_desc f) = k) fs))))
     else smap_find k m)"
proof (induction fs arbitrary: m)
  case (Cons f fs)
  have idem: "refreshed_state now ((refreshed_state now (e\<lparr>is_updated := True\<rparr>))\<lparr>is_updated := True\<rparr>)
      = refreshed_state now (e\<lparr>is_updated := True\<rparr>)" for e
    by (cases e) (simp add: refreshed_state_def set_state_def split: flow_state.split)
  have inh: "refreshed_state now ((inherited_entry now f)\<lparr>is_updated := True\<rparr>) = inherited_entry now f"
    by (simp add: refreshed_state_def inherited_entry_def)
  show ?case
    by (auto simp: Cons absorb_one_find idem inh split: option.split)
qed simp

lemma fold_absorb_ok: "smap_ok m \<Longrightarrow> smap_ok (fold (absorb_one now) fs m)"
  by (induction fs arbitrary: m) (simp_all add: absorb_one_ok)

section \<open>Refresh\<close>

definition state_of :: "64 word \<Rightarrow> flow_table \<Rightarrow> flow_state option" where
  "state_of k t = map_option state (smap_find k (flows t))"

text \<open>The reported flows that a table takes: those before the first one it does not accept.\<close>

definition taken :: "table_kind \<Rightarrow> flow_stats list \<Rightarrow> flow_stats list" where
  "taken kd fs = takeWhile (\<lambda>f. check_table_fit kd (flow_desc f)) fs"

definition seen_state :: "flow_state option \<Rightarrow> flow_state" where
  "seen_state s = (case s of None \<Rightarrow> ACTIVE | Some FS_UNKNOWN \<Rightarrow> ACTIVE | Some PENDING_INSTALLATION \<Rightarrow> ACTIVE
     | Some s \<Rightarrow> s)"

lemma state_refreshed: "state (refreshed_state now e) = seen_state (Some (state e))"
  by (simp add: refreshed_state_def seen_state_def split: flow_state.split)

lemma update_entries_flows:
  assumes "length fs < 2 ^ 32" "update_entries now fs t = (n, remaining, t')"
  shows "t' = t\<lparr>flows := sweep_loop now (fold (absorb_one now) (taken (kind t) fs) (flows t))\<rparr>"
    and "n = length (taken (kind t) fs)"
    and "remaining = dropWhile (\<lambda>f. check_table_fit (kind t) (flow_desc f)) fs"
  using absorb_loop_take [of 0 fs now "kind t" "flows t"] assms by (auto simp: update_entries_def taken_def)

lemma update_entries_front:
  assumes "length fs < 2 ^ 32" "update_entries now fs t = (n, remaining, t')"
  shows "fs = taken (kind t) fs @ remaining" "n = length (taken (kind t) fs)"
  using update_entries_flows(2,3) [OF assms] by (simp_all add: taken_def)

lemma update_entries_state_of:
  assumes "table_ok t" "length fs < 2 ^ 32" "update_entries now fs t = (n, remaining, t')"
  shows "state_of k t' =
        (if k \<in> (\<lambda>f. cookie (flow_desc f)) ` set (taken (kind t) fs) then Some (seen_state (state_of k t))
         else if state_of k t = Some PENDING_DELETION then Some DELETED else None)"
proof -
  let ?take = "taken (kind t) fs"
  have t': "flows t' = sweep_loop now (fold (absorb_one now) ?take (flows t))"
    unfolding update_entries_flows(1) [OF assms(2,3)] by simp
  have ok: "smap_ok (flows t)" using assms(1) by (simp add: table_ok_def)
  have find: "smap_find k (flows t') = Option.bind (smap_find k (fold (absorb_one now) ?take (flows t))) (swept now)"
    unfolding t' by (rule sweep_loop_find [OF fold_absorb_ok [OF ok]])
  have unmarked: "\<not> is_updated e" if "smap_find k (flows t) = Some e" for e
    using assms(1) that by (auto simp: table_ok_def entry_ok_def)
  show ?thesis
    unfolding state_of_def find fold_absorb_find
    by (cases "smap_find k (flows t)")
       (auto simp: swept_def state_refreshed seen_state_def inherited_entry_def dest: unmarked)
qed

text \<open>
  C26. A refresh with the switch's report: the table takes the reported flows up to the first
  one that does not fit it, returns how many, and leaves the rest for the next table. Afterwards
  a taken flow is in the table (active, unless it was being deleted or deleted); of the other
  entries, those pending deletion become deleted, and all others are gone.
\<close>

theorem update_entries_states:
  assumes "table_ok t" "length fs < 2 ^ 32" "update_entries now fs t = (n, remaining, t')"
  shows "fs = taken (kind t) fs @ remaining \<and> n = length (taken (kind t) fs)
    \<and> state_of k t' =
        (if k \<in> (\<lambda>f. cookie (flow_desc f)) ` set (taken (kind t) fs) then Some (seen_state (state_of k t))
         else if state_of k t = Some PENDING_DELETION then Some DELETED else None)"
  using update_entries_front [OF assms(2,3)] update_entries_state_of [OF assms] by blast

definition reported :: "openflow_flow_description \<Rightarrow> flow_stats" where
  "reported d = \<lparr>flow_desc = d, table_id = 0, stats_alive_sec = 0, stats_alive_nsec = 0,
     duration_to_idle_timeout = 0, duration_to_hard_timeout = 0, stats_packet_count = 0, stats_byte_count = 0\<rparr>"

theorem update_entries_states_witness:
  "\<exists>n remaining t'. update_entries 0 [reported (flow_description_clear\<lparr>cookie := 9\<rparr>)]
      \<lparr>kind = Dell_ACL, max_capacity = 10, flows = []\<rparr> = (n, remaining, t')
    \<and> n = 1 \<and> remaining = [] \<and> state_of 9 t' = Some ACTIVE"
proof -
  let ?t = "\<lparr>kind = Dell_ACL, max_capacity = 10, flows = []\<rparr>"
  let ?fs = "[reported (flow_description_clear\<lparr>cookie := 9\<rparr>)]"
  obtain n remaining t' where u: "update_entries 0 ?fs ?t = (n, remaining, t')" by (metis prod_cases3)
  have "table_ok ?t" by (simp add: table_ok_def smap_find_def)
  from update_entries_states [OF this _ u, of 9] u show ?thesis
    by (simp add: taken_def acl_check_table_fit_def reported_def state_of_def smap_find_def seen_state_def)
qed

text \<open>
  A flow of the L2 table that the switch reports after a flow the L2 table does not
  accept is dropped from the L2 table by the refresh, even though the switch has just reported
  it (unless it was pending deletion, and then it is marked deleted); it is left to be
  recorded by the next table.
\<close>

theorem refresh_drops_reported_flow:
  assumes "table_ok t" "length (f # g # fs) < 2 ^ 32" "\<not> check_table_fit (kind t) (flow_desc f)"
    and "state_of (cookie (flow_desc g)) t = Some ACTIVE"
  shows "\<exists>t'. update_entries now (f # g # fs) t = (0, f # g # fs, t')
    \<and> state_of (cookie (flow_desc g)) t' = None"
proof -
  obtain n remaining t' where u: "update_entries now (f # g # fs) t = (n, remaining, t')" by (metis prod_cases3)
  have "taken (kind t) (f # g # fs) = []" using assms(3) by (simp add: taken_def)
  then show ?thesis
    using update_entries_front [OF assms(2) u] update_entries_state_of [OF assms(1,2) u, of "cookie (flow_desc g)"] assms(4) u
    by simp
qed

text \<open>An L2 rule as \<open>accelerate_flow\<close> makes it, and a table that holds one.\<close>

definition l2_rule :: "mac_address \<Rightarrow> 16 word \<Rightarrow> 16 word \<Rightarrow> openflow_flow_description" where
  "l2_rule a vlan port = flow_description_clear\<lparr>
     criteria := (of_match_wildcard_all of_match_clear)\<lparr>wildcard_ethernet_dest := False, ethernet_dest := a,
       wildcard_vlan_id := False, vlan_id := vlan\<rparr>,
     action_list := [Output_To_Port False port]\<rparr>"

definition l2_table_with :: "openflow_flow_description \<Rightarrow> flow_table" where
  "l2_table_with d = \<lparr>kind = Dell_L2, max_capacity = 10,
     flows = [(cookie d, (flow_entry_new 0)\<lparr>state := ACTIVE, description := d\<rparr>)]\<rparr>"

lemma l2_rule_fits:
  "\<not> mac_is_broadcast a \<Longrightarrow> check_table_fit Dell_L2 ((l2_rule a vlan port)\<lparr>cookie := c\<rparr>)"
  by (simp add: l2_check_table_fit_def l2_rule_def of_match_wildcard_all_def flow_description_clear_def
      get_actions_def action_clone_def)

lemma l2_table_with_ok: "check_table_fit Dell_L2 d \<Longrightarrow> table_ok (l2_table_with d)"
  by (auto simp: table_ok_def l2_table_with_def smap_ok_Cons smap_find_def entry_ok_def flow_entry_new_def
      split: if_splits)

theorem refresh_drops_reported_flow_witness:
  "\<exists>t'. update_entries 5 [reported flow_description_clear, reported ((l2_rule (MAC 2 0 0 0 0 1) 10 3)\<lparr>cookie := 7\<rparr>)]
      (l2_table_with ((l2_rule (MAC 2 0 0 0 0 1) 10 3)\<lparr>cookie := 7\<rparr>))
     = (0, [reported flow_description_clear, reported ((l2_rule (MAC 2 0 0 0 0 1) 10 3)\<lparr>cookie := 7\<rparr>)], t')
    \<and> state_of 7 t' = None"
proof -
  let ?d = "(l2_rule (MAC 2 0 0 0 0 1) 10 3)\<lparr>cookie := 7\<rparr>"
  have "table_ok (l2_table_with ?d)"
    by (intro l2_table_with_ok l2_rule_fits) (simp add: mac_is_broadcast_iff mac_broadcast_def)
  moreover have "\<not> check_table_fit (kind (l2_table_with ?d)) (flow_desc (reported flow_description_clear))"
    by (simp add: l2_table_with_def reported_def flow_description_clear_def l2_check_table_fit_def of_match_clear_def)
  moreover have "state_of (cookie (flow_desc (reported ?d))) (l2_table_with ?d) = Some ACTIVE"
    by (simp add: state_of_def l2_table_with_def smap_find_def reported_def)
  ultimately show ?thesis
    using refresh_drops_reported_flow [of "l2_table_with ?d" "reported flow_description_clear" "reported ?d" "[]" 5]
    by (simp add: reported_def)
qed

section \<open>The operations as steps\<close>

text \<open>
  The calls that change a table. \<open>add_entry\<close> is only made with entries that fit the table
  (\<open>flow_service::add_flow\<close>), fresh from the constructor.
\<close>

datatype table_call =
    Call_Add openflow_flow_entry
  | Call_Installed "64 word"
  | Call_Pending_Deletion "64 word"
  | Call_Deleted "64 word"
  | Call_Mark_All bool
  | Call_Clear bool
  | Call_Capacity "nat \<Rightarrow> int"
  | Call_Update "flow_stats list"
  | Call_Set_Max nat

inductive table_step :: "int \<Rightarrow> table_call \<Rightarrow> flow_table \<Rightarrow> flow_table \<Rightarrow> bool" for now where
  step_add: "check_table_fit (kind t) (description e) \<Longrightarrow> \<not> is_updated e \<Longrightarrow> state e = PENDING_INSTALLATION
     \<Longrightarrow> add_entry e t = Inr (r, t') \<Longrightarrow> table_step now (Call_Add e) t t'"
| step_installed: "mark_entry_as_installed now c t = (r, t') \<Longrightarrow> table_step now (Call_Installed c) t t'"
| step_pending: "mark_entry_as_pending_deletion now c t = (r, t') \<Longrightarrow> table_step now (Call_Pending_Deletion c) t t'"
| step_deleted: "mark_entry_as_deleted now c t = (r, t') \<Longrightarrow> table_step now (Call_Deleted c) t t'"
| step_mark_all: "mark_all_flows_as_pending_delete now b t = (r, t') \<Longrightarrow> table_step now (Call_Mark_All b) t t'"
| step_clear: "clear_table b t = t' \<Longrightarrow> table_step now (Call_Clear b) t t'"
| step_capacity: "get_used_capacity clk t = Some (r, t') \<Longrightarrow> length (flows t) < 2 ^ 32
     \<Longrightarrow> table_step now (Call_Capacity clk) t t'"
| step_update: "update_entries now fs t = (n, remaining, t') \<Longrightarrow> length fs < 2 ^ 32
     \<Longrightarrow> table_step now (Call_Update fs) t t'"
| step_set_max: "set_max_capacity n t = t' \<Longrightarrow> table_step now (Call_Set_Max n) t t'"

inductive_cases table_step_cases: "table_step now c t t'"

inductive table_reach :: "flow_table \<Rightarrow> bool" where
  reach_new: "table_reach \<lparr>kind = kd, max_capacity = n, flows = []\<rparr>"
| reach_step: "table_reach t \<Longrightarrow> table_step now c t t' \<Longrightarrow> table_reach t'"

lemma table_ok_update_entries:
  assumes "table_ok t" "length fs < 2 ^ 32" "update_entries now fs t = (n, remaining, t')"
  shows "table_ok t'"
proof -
  let ?take = "taken (kind t) fs"
  note t' = update_entries_flows(1) [OF assms(2,3)]
  have ok: "smap_ok (flows t)" using assms(1) by (simp add: table_ok_def)
  note fold_ok = fold_absorb_ok [OF ok, of now ?take]
  have first: "cookie (flow_desc (the (List.find (\<lambda>f. cookie (flow_desc f) = k) gs))) = k
      \<and> the (List.find (\<lambda>f. cookie (flow_desc f) = k) gs) \<in> set gs"
    if "k \<in> (\<lambda>f. cookie (flow_desc f)) ` set gs" for k gs
    using that by (induction gs) auto
  have fits: "check_table_fit (kind t) (flow_desc f)" if "f \<in> set ?take" for f
    using that unfolding taken_def by (rule set_takeWhileD [THEN conjunct2])
  have "entry_ok (kind t) k e'" if "Option.bind (smap_find k (fold (absorb_one now) ?take (flows t))) (swept now) = Some e'" for k e'
  proof (cases "smap_find k (flows t)")
    case None
    with that first [of k ?take] fits show ?thesis
      by (auto simp: fold_absorb_find swept_def inherited_entry_def entry_ok_def split: if_splits)
  next
    case (Some e)
    then have "entry_ok (kind t) k e" using assms(1) by (simp add: table_ok_def)
    with Some that show ?thesis
      by (auto simp: fold_absorb_find swept_def entry_ok_def split: if_splits)
  qed
  then show ?thesis
    using fold_ok by (simp add: t' table_ok_def sweep_loop_ok sweep_loop_find)
qed

lemma table_ok_put_state:
  assumes "table_ok t" "smap_find c (flows t) = Some e"
  shows "table_ok (t\<lparr>flows := smap_put c (set_state now s e) (flows t)\<rparr>)"
  using assms by (intro table_ok_put) (auto simp: table_ok_def)

lemma table_ok_marks:
  assumes "table_ok t"
  shows "table_ok (snd (mark_entry_as_installed now c t))"
    "table_ok (snd (mark_entry_as_pending_deletion now c t))"
    "table_ok (snd (mark_entry_as_deleted now c t))"
    "table_ok (snd (mark_all_flows_as_pending_delete now b t))"
proof -
  show "table_ok (snd (mark_entry_as_installed now c t))"
    using assms
    by (auto simp: mark_entry_as_installed_def table_ok_put_state split: option.split flow_state.split)
  show "table_ok (snd (mark_entry_as_pending_deletion now c t))"
    using assms by (auto simp: mark_entry_as_pending_deletion_def table_ok_put_state split: option.split)
  show "table_ok (snd (mark_entry_as_deleted now c t))"
    using assms by (auto simp: mark_entry_as_deleted_def table_ok_put_state split: option.split)
  have "snd (mark_all_flows_as_pending_delete now b t) = t\<lparr>flows := snd (mark_all_loop now b (flows t))\<rparr>"
    by (simp add: mark_all_flows_as_pending_delete_def case_prod_beta)
  then show "table_ok (snd (mark_all_flows_as_pending_delete now b t))"
    using assms by (auto simp: mark_all_loop_update intro: table_ok_update)
qed

lemma table_ok_capacity:
  assumes "table_ok t" "get_used_capacity clk t = Some (r, t')" "length (flows t) < 2 ^ 32"
  shows "table_ok t'"
proof -
  have "t' = t\<lparr>flows := flows t'\<rparr>" using assms(2) by (auto simp: get_used_capacity_def)
  moreover have "flows t' = filter (\<lambda>e. state (snd e) \<noteq> DELETED) (flows t)"
    using assms(2,3) by (fastforce simp: get_used_capacity_def capacity_post_def dest!: capacity_loop_post)
  ultimately show ?thesis using table_ok_filter [OF assms(1)] by metis
qed

lemma table_ok_clear: "table_ok t \<Longrightarrow> table_ok (clear_table b t)"
proof (cases b)
  case True
  then show "table_ok t \<Longrightarrow> ?thesis" by (simp add: clear_table_def smap_erase_if_filter table_ok_filter)
qed (simp add: clear_table_def table_ok_def smap_find_def)

lemma table_step_ok:
  assumes "table_step now c t t'" "table_ok t"
  shows "table_ok t'"
  using assms
proof (cases rule: table_step.cases)
  case (step_add e r)
  with assms(2) show ?thesis
    by (auto simp: add_entry_def entry_ok_def intro: table_ok_put split: if_splits)
next
  case (step_installed k r)
  with table_ok_marks(1) [OF assms(2), of now k] show ?thesis by simp
next
  case (step_pending k r)
  with table_ok_marks(2) [OF assms(2), of now k] show ?thesis by simp
next
  case (step_deleted k r)
  with table_ok_marks(3) [OF assms(2), of now k] show ?thesis by simp
next
  case (step_mark_all b r)
  with table_ok_marks(4) [OF assms(2), of now b] show ?thesis by simp
next
  case (step_clear b)
  with assms(2) show ?thesis by (auto simp: table_ok_clear)
next
  case (step_capacity clk r)
  with assms(2) show ?thesis by (auto intro: table_ok_capacity)
next
  case (step_update fs n remaining)
  with assms(2) show ?thesis by (auto intro: table_ok_update_entries)
next
  case (step_set_max n)
  with assms(2) show ?thesis by (auto simp: set_max_capacity_def table_ok_def)
qed

text \<open>
  C3. Whatever sequence of calls is made on a new table, the map stays sorted by cookie,
  every entry is stored under the cookie of its own description, fits the table's policy, and
  carries no refresh mark.
\<close>

theorem reachable_table_ok:
  assumes "table_reach t"
  shows "table_ok t"
  using assms
proof (induction rule: table_reach.induct)
  case (reach_new kd n)
  show ?case by (simp add: table_ok_def smap_find_def)
next
  case (reach_step t now c t')
  then show ?case using table_step_ok by blast
qed

text \<open>A flow is added to a new table and confirmed.\<close>

theorem reachable_table_ok_witness:
  "\<exists>t e. table_ok t \<and> flows t = [(5, e)] \<and> state e = ACTIVE \<and> description e = (l2_rule (MAC 7 0 0 0 0 0) 20 3)\<lparr>cookie := 5\<rparr>"
proof -
  let ?d = "(l2_rule (MAC 7 0 0 0 0 0) 20 3)\<lparr>cookie := 5\<rparr>"
  obtain e :: openflow_flow_entry where e: "description e = ?d" "state e = PENDING_INSTALLATION" "\<not> is_updated e"
    using that [of "(flow_entry_new 0)\<lparr>state := PENDING_INSTALLATION, description := ?d\<rparr>"] by (simp add: flow_entry_new_def)
  let ?t0 = "\<lparr>kind = Dell_L2, max_capacity = 7, flows = []\<rparr>" and ?t1 = "\<lparr>kind = Dell_L2, max_capacity = 7, flows = [(5, e)]\<rparr>"
  have fits: "check_table_fit Dell_L2 ?d" by (rule l2_rule_fits) (simp add: mac_is_broadcast_iff mac_broadcast_def)
  have "add_entry e ?t0 = Inr (True, ?t1)" by (simp add: add_entry_def e(1))
  then have "table_step 0 (Call_Add e) ?t0 ?t1" by (intro step_add [where r = True]) (use fits e in simp_all)
  then have reach: "table_reach ?t1" by (rule reach_step [OF reach_new])
  have "mark_entry_as_installed 9 5 ?t1 = (True, ?t1\<lparr>flows := [(5, set_state 9 ACTIVE e)]\<rparr>)"
    by (simp add: mark_entry_as_installed_def smap_find_def e(2))
  then have "table_reach (?t1\<lparr>flows := [(5, set_state 9 ACTIVE e)]\<rparr>)" by (rule reach_step [OF reach step_installed])
  from reachable_table_ok [OF this] show ?thesis
    by (intro exI [of _ "?t1\<lparr>flows := [(5, set_state 9 ACTIVE e)]\<rparr>"] exI [of _ "set_state 9 ACTIVE e"]) (simp add: e(1))
qed

text \<open>The life of an entry: what may become of the state under a cookie in one call.\<close>

fun may_become :: "flow_state option \<Rightarrow> flow_state option \<Rightarrow> bool" where
  "may_become None s = (s = None \<or> s = Some ACTIVE)"
| "may_become (Some DELETED) s = (s = None \<or> s = Some DELETED)"
| "may_become (Some PENDING_DELETION) s = (s = None \<or> s = Some PENDING_DELETION \<or> s = Some DELETED)"
| "may_become (Some ACTIVE) s = (s = None \<or> s = Some ACTIVE \<or> s = Some PENDING_DELETION \<or> s = Some DELETED)"
| "may_become (Some PENDING_INSTALLATION) s = (s \<noteq> Some FS_UNKNOWN)"
| "may_become (Some FS_UNKNOWN) s = True"

lemma may_become_simps [simp]: "may_become s None" "may_become s s"
  by (cases s; cases "the s"; simp)+

lemma may_become_seen: "may_become s (Some (seen_state s))"
  by (cases s; cases "the s"; simp add: seen_state_def)

text \<open>
  An entry is never revived: apart from adding a flow under the same cookie, no call turns
  the state under a cookie into anything but what \<open>may_become\<close> allows; in particular an entry
  that is deleted or pending deletion never becomes active again.
\<close>

theorem entry_lifecycle:
  assumes "table_step now c t t'" "table_ok t"
    and "\<And>e. c = Call_Add e \<Longrightarrow> cookie (description e) \<noteq> k"
  shows "may_become (state_of k t) (state_of k t')"
  using assms(1)
proof (cases rule: table_step.cases)
  case (step_add e r)
  with assms(3) [of e] show ?thesis
    by (auto simp: add_entry_def state_of_def smap_find_put split: if_splits)
next
  case (step_installed j r)
  then have t': "t' = snd (mark_entry_as_installed now j t)" by simp
  show ?thesis unfolding t' mark_entry_as_installed_def
    by (auto simp: state_of_def smap_find_put split: option.split flow_state.split)
next
  case (step_pending j r)
  then have t': "t' = snd (mark_entry_as_pending_deletion now j t)" by simp
  have "may_become (Some s) (Some PENDING_DELETION)" if "s \<noteq> DELETED" for s using that by (cases s) auto
  then show ?thesis unfolding t' mark_entry_as_pending_deletion_def
    by (auto simp: state_of_def smap_find_put split: option.split)
next
  case (step_deleted j r)
  then have t': "t' = snd (mark_entry_as_deleted now j t)" by simp
  have "may_become (Some s) (Some DELETED)" for s by (cases s) auto
  then show ?thesis unfolding t' mark_entry_as_deleted_def
    by (auto simp: state_of_def smap_find_put split: option.split)
next
  case (step_mark_all b r)
  then have t': "flows t' = smap_update (\<lambda>k e. if to_be_deleted b e then set_state now PENDING_DELETION e else e) (flows t)"
    by (auto simp: mark_all_flows_as_pending_delete_def case_prod_beta mark_all_loop_update)
  show ?thesis
    by (cases "smap_find k (flows t)") (auto simp: t' state_of_def smap_find_update to_be_deleted_def)
next
  case (step_clear b)
  have "smap_ok (flows t)" using assms(2) by (simp add: table_ok_def)
  with step_clear show ?thesis
    by (cases "smap_find k (flows t)")
       (auto simp: clear_table_def state_of_def smap_find_erase_if smap_find_def [of k "[]"])
next
  case (step_capacity clk r)
  then have "flows t' = filter (\<lambda>e. state (snd e) \<noteq> DELETED) (flows t)"
    by (fastforce simp: get_used_capacity_def capacity_post_def dest!: capacity_loop_post)
  moreover have "smap_ok (flows t)" using assms(2) by (simp add: table_ok_def)
  ultimately show ?thesis
    by (cases "smap_find k (flows t)") (auto simp: state_of_def smap_find_filter)
next
  case (step_update fs n remaining)
  then show ?thesis
    using update_entries_state_of [OF assms(2), of fs now n remaining t' k] by (auto simp: may_become_seen)
next
  case (step_set_max n)
  then show ?thesis by (auto simp: set_max_capacity_def state_of_def)
qed

theorem entry_lifecycle_witness:
  "may_become (Some DELETED) (state_of 5 (snd (mark_entry_as_installed 0 5 (deleted_at 0))))
   \<and> state_of 5 (deleted_at 0) = Some DELETED"
proof -
  let ?t = "(deleted_at 0)\<lparr>kind := Dell_ACL, flows :=
    [(5, set_state 0 DELETED ((flow_entry_new 0)\<lparr>description := flow_description_clear\<lparr>cookie := 5\<rparr>\<rparr>))]\<rparr>"
  have ok: "table_ok ?t"
    by (auto simp: table_ok_def smap_ok_Cons smap_find_def entry_ok_def flow_entry_new_def acl_check_table_fit_def
        split: if_splits)
  have step: "table_step 0 (Call_Installed 5) ?t (snd (mark_entry_as_installed 0 5 ?t))"
    by (rule step_installed [of _ _ _ "fst (mark_entry_as_installed 0 5 ?t)"]) simp
  have "may_become (state_of 5 ?t) (state_of 5 (snd (mark_entry_as_installed 0 5 ?t)))"
    by (rule entry_lifecycle [OF step ok]) simp
  then show ?thesis
    by (simp add: state_of_def deleted_at_def smap_find_def mark_entry_as_installed_def)
qed

section \<open>Finding a flow by its description\<close>

lemma latest_cookie_max:
  "latest_cookie flow es found result =
    (let cs = map (\<lambda>e. cookie (description (snd e))) (filter (\<lambda>e. flow_description_eq (description (snd e)) flow) es)
     in if found then foldl max result cs else if cs = [] then result else foldl max (hd cs) (tl cs))"
proof (induction flow es found result rule: latest_cookie.induct)
  case (2 flow k e es found result)
  have mx: "max result c = (if result < c then c else result)" for c :: "64 word"
    by (auto simp: max_def)
  show ?case using 2 by (auto simp: Let_def mx)
qed simp

lemma foldl_max: "foldl max (a :: 'a::linorder) xs = Max (insert a (set xs))"
proof -
  have "(\<lambda>x s. max s x) = (max :: 'a \<Rightarrow> 'a \<Rightarrow> 'a)" by (simp add: fun_eq_iff max.commute)
  then show ?thesis using Max.set_eq_fold [of a xs] by (simp add: foldl_conv_fold)
qed

text \<open>
  \<open>get_cookie_for_flow\<close> gives the largest cookie among the entries with an equal
  description, whatever their state; and \<open>- 1\<close> when there is no such entry.
\<close>

theorem get_cookie_for_flow_max:
  "get_cookie_for_flow flow t =
    (let cs = {cookie (description e) | k e. (k, e) \<in> set (flows t) \<and> flow_description_eq (description e) flow}
     in if cs = {} then - 1 else Max cs)"
proof -
  let ?cs = "map (\<lambda>e. cookie (description (snd e))) (filter (\<lambda>e. flow_description_eq (description (snd e)) flow) (flows t))"
  have set: "set ?cs = {cookie (description e) | k e. (k, e) \<in> set (flows t) \<and> flow_description_eq (description e) flow}"
    by force
  show ?thesis
    unfolding get_cookie_for_flow_def latest_cookie_max set [symmetric] Let_def
    by (cases ?cs) (auto simp: foldl_max)
qed

end
