(* ===== verification/Of_Stats.thy ===== *)
theory Of_Stats
  imports Of_Features Flow_Table
begin

text \<open>
  What the switch reports about itself: \<open>openflow_switch_description\<close>, \<open>openflow_flow_description_and_stats\<close>,
  \<open>openflow_aggregate_stats\<close>, \<open>openflow_table_stats\<close>, \<open>openflow_port_stats\<close>, \<open>openflow_queue_stats\<close> and
  \<open>openflow_flow_rate\<close> of \<open>controller/ironstack_types\<close>. \<open>serialize\<close> gives the bytes, \<open>deserialize\<close> the result
  and the object afterwards; a field that \<open>clear()\<close> forgets comes from the object before.
\<close>

abbreviation "NL \<equiv> CHR 0x0A"

definition char_bytes :: "string \<Rightarrow> byte list" where
  "char_bytes s = map (\<lambda>c. of_char c) s"

text \<open>\<open>strncpy(field, s, n - 1)\<close> into a zeroed field of \<open>n\<close> bytes.\<close>

definition name_field :: "nat \<Rightarrow> string \<Rightarrow> byte list" where
  "name_field n s = (let bs = take (n - 1) (takeWhile (\<lambda>b. b \<noteq> 0) (char_bytes s)) in bs @ replicate (n - length bs) 0)"

section \<open>The switch\<close>

record openflow_switch_description =
  manufacturer :: string
  hardware_description :: string
  software_description :: string
  serial_number :: string
  general_description :: string

text \<open>\<open>clear()\<close> leaves the hardware description.\<close>

definition switch_description_clear :: "openflow_switch_description \<Rightarrow> openflow_switch_description" where
  "switch_description_clear d = d\<lparr>manufacturer := [], software_description := [], serial_number := [], general_description := []\<rparr>"

definition switch_description_to_string :: "openflow_switch_description \<Rightarrow> string" where
  "switch_description_to_string d = ''manufacturer : '' @ manufacturer d @ NL # ''hw desc      : '' @ hardware_description d
     @ NL # ''sw desc      : '' @ software_description d @ NL # ''serial       : '' @ serial_number d
     @ NL # ''general desc : '' @ general_description d"

definition switch_description_serialize :: "openflow_switch_description \<Rightarrow> byte list" where
  "switch_description_serialize d = name_field 256 (manufacturer d) @ name_field 256 (hardware_description d)
     @ name_field 256 (software_description d) @ name_field 32 (serial_number d) @ name_field 256 (general_description d)"

text \<open>\<open>strncpy(buf, field, n - 1)\<close> into a buffer whose last byte is zero, then \<open>string(buf)\<close>.\<close>

definition read_name :: "nat \<Rightarrow> nat \<Rightarrow> byte list \<Rightarrow> string" where
  "read_name off n input = c_string (chunk off (n - 1) input)"

definition switch_description_deserialize ::
  "openflow_switch_description \<Rightarrow> byte list \<Rightarrow> bool \<times> openflow_switch_description" where
  "switch_description_deserialize this input =
    (if length input < 1056 then (False, switch_description_clear this)
     else (True, \<lparr>manufacturer = read_name 0 256 input, hardware_description = read_name 256 256 input,
       software_description = read_name 512 256 input, serial_number = read_name 768 32 input,
       general_description = read_name 800 256 input\<rparr>))"

section \<open>A flow\<close>

definition flow_stats_clear :: flow_stats where
  "flow_stats_clear = \<lparr>flow_desc = flow_description_clear, table_id = 0, stats_alive_sec = 0, stats_alive_nsec = 0,
     duration_to_idle_timeout = 0, duration_to_hard_timeout = 0, stats_packet_count = 0, stats_byte_count = 0\<rparr>"

definition flow_stats_to_string :: "flow_stats \<Rightarrow> string" where
  "flow_stats_to_string f = flow_description_to_string (flow_desc f)
     @ NL # ''table id        : '' @ dec (unat (table_id f)) @ NL # ''alive           : '' @ dec (unat (stats_alive_sec f)) @ ''s''
     @ NL # ''to idle timeout : '' @ dec (unat (duration_to_idle_timeout f)) @ ''s''
     @ NL # ''to hard timeout : '' @ dec (unat (duration_to_hard_timeout f)) @ ''s''
     @ NL # ''packet count    : '' @ dec (unat (stats_packet_count f))
     @ NL # ''byte count      : '' @ dec (unat (stats_byte_count f))"

text \<open>The 88 bytes before the actions; the size is a \<open>uint32_t\<close> stored in 16 bits.\<close>

definition flow_stats_fixed :: "nat \<Rightarrow> flow_stats \<Rightarrow> byte list" where
  "flow_stats_fixed sz f = be16 (word_of_nat sz) @ [table_id f, 0] @ of_match_serialize (criteria (flow_desc f))
     @ be32 (stats_alive_sec f) @ be32 (stats_alive_nsec f) @ be16 (priority (flow_desc f))
     @ be16 (duration_to_idle_timeout f) @ be16 (duration_to_hard_timeout f) @ replicate 6 0
     @ be64 (cookie (flow_desc f)) @ be64 (stats_packet_count f) @ be64 (stats_byte_count f)"

definition flow_stats_serialize :: "(nat \<Rightarrow> byte list) \<Rightarrow> flow_stats \<Rightarrow> byte list res" where
  "flow_stats_serialize fresh f =
    bindr (action_list_serialize fresh (action_list (flow_desc f))) (\<lambda>actions_buf.
      let sz = u32 (88 + length actions_buf) in
      if sz < 88 + length actions_buf then Inl OutOfBounds
      else Inr (flow_stats_fixed sz f @ actions_buf))"

definition read_flow_stats :: "byte list \<Rightarrow> openflow_action_list \<Rightarrow> flow_stats" where
  "read_flow_stats input as = \<lparr>flow_desc = \<lparr>criteria = snd (of_match_deserialize (chunk 4 40 input)), action_list = as,
       cookie = of_be64 (chunk 64 8 input), priority = of_be16 (chunk 52 2 input)\<rparr>,
     table_id = input ! 2, stats_alive_sec = of_be32 (chunk 44 4 input), stats_alive_nsec = of_be32 (chunk 48 4 input),
     duration_to_idle_timeout = of_be16 (chunk 54 2 input), duration_to_hard_timeout = of_be16 (chunk 56 2 input),
     stats_packet_count = of_be64 (chunk 72 8 input), stats_byte_count = of_be64 (chunk 80 8 input)\<rparr>"

text \<open>The actions are the bytes up to the length field, which the caller gives as the size of the input; a
  length that goes past the input, or that is below 88 and wraps, makes them reach past the input.\<close>

definition flow_stats_deserialize :: "byte list \<Rightarrow> (bool \<times> flow_stats) res" where
  "flow_stats_deserialize input =
    (if length input < 88 then Inr (False, flow_stats_clear)
     else if \<not> fst (of_match_deserialize (chunk 4 40 input)) then Inr (False, flow_stats_clear)
     else bindr (fetch 88 (u32 (size_t_minus (unat (of_be16 (chunk 0 2 input))) 88)) input) (\<lambda>action_buf.
       bindr (action_list_deserialize action_buf) (\<lambda>(ok, as).
         if \<not> ok then Inr (False, flow_stats_clear) else Inr (True, read_flow_stats input as))))"

section \<open>Aggregates\<close>

record openflow_aggregate_stats =
  ag_packet_count :: "64 word"
  ag_byte_count :: "64 word"
  ag_flow_count :: "64 word"

definition aggregate_clear :: openflow_aggregate_stats where
  "aggregate_clear = \<lparr>ag_packet_count = 0, ag_byte_count = 0, ag_flow_count = 0\<rparr>"

definition aggregate_to_string :: "openflow_aggregate_stats \<Rightarrow> string" where
  "aggregate_to_string a = ''--- aggregate statistics ---'' @ [NL]
     @ NL # ''total packets : '' @ dec (unat (ag_packet_count a)) @ NL # ''total bytes   : '' @ dec (unat (ag_byte_count a))
     @ NL # ''total flows   : '' @ dec (unat (ag_flow_count a))"

text \<open>\<open>htobe64\<close> and \<open>be64toh\<close> swap the eight bytes of the value. The flow count of the structure has 32 bits:
  the store keeps the low half of the swapped value, the load extends the 32 bits before it swaps.\<close>

definition bswap64 :: "64 word \<Rightarrow> 64 word" where
  "bswap64 w = of_bytes (rev (be64 w))"

definition aggregate_serialize :: "openflow_aggregate_stats \<Rightarrow> byte list" where
  "aggregate_serialize a = be64 (ag_packet_count a) @ be64 (ag_byte_count a)
     @ rev (be32 (ucast (bswap64 (ag_flow_count a)))) @ replicate 4 0"

definition aggregate_deserialize :: "byte list \<Rightarrow> bool \<times> openflow_aggregate_stats" where
  "aggregate_deserialize input =
    (if length input < 24 then (False, aggregate_clear)
     else (True, \<lparr>ag_packet_count = of_be64 (chunk 0 8 input), ag_byte_count = of_be64 (chunk 8 8 input),
       ag_flow_count = bswap64 (ucast (of_le32 (chunk 16 4 input)))\<rparr>))"

section \<open>Tables\<close>

record openflow_table_stats =
  ts_table_id :: byte
  ts_name :: string
  all_wildcards_supported :: bool
  no_wildcards_supported :: bool
  ts_in_port :: bool
  ts_ethernet_src :: bool
  ts_ethernet_dest :: bool
  ts_vlan_id :: bool
  ts_vlan_pcp :: bool
  ts_frame_type :: bool
  ts_ip_tos :: bool
  ts_ip_protocol :: bool
  ts_ip_src_lsb :: byte
  ts_ip_dest_lsb :: byte
  ts_src_port :: bool
  ts_dest_port :: bool
  max_entries_supported :: "32 word"
  active_entries :: "32 word"
  ts_lookup_count :: "64 word"
  ts_matched_count :: "64 word"

definition table_stats_clear :: openflow_table_stats where
  "table_stats_clear = \<lparr>ts_table_id = 0, ts_name = [], all_wildcards_supported = False, no_wildcards_supported = False,
     ts_in_port = False, ts_ethernet_src = False, ts_ethernet_dest = False, ts_vlan_id = False, ts_vlan_pcp = False,
     ts_frame_type = False, ts_ip_tos = False, ts_ip_protocol = False, ts_ip_src_lsb = 0, ts_ip_dest_lsb = 0,
     ts_src_port = False, ts_dest_port = False, max_entries_supported = 0, active_entries = 0, ts_lookup_count = 0,
     ts_matched_count = 0\<rparr>"

definition tick :: "bool \<Rightarrow> string" where
  "tick b = (if b then ''[X]'' else ''[ ]'')"

definition table_stats_to_string :: "openflow_table_stats \<Rightarrow> string" where
  "table_stats_to_string t = ''--- table stats ---'' @ NL # ''table id   : '' @ dec (unat (ts_table_id t))
     @ NL # ''table name : '' @ ts_name t @ NL # ''wildcard support'' @
     (if all_wildcards_supported t then NL # ''all        : [X]''
      else if no_wildcards_supported t then NL # ''none       : [X]''
      else NL # ''in port    : '' @ tick (ts_in_port t) @ NL # ''eth src    : '' @ tick (ts_ethernet_src t)
        @ NL # ''eth dest   : '' @ tick (ts_ethernet_dest t) @ NL # ''vlan id    : '' @ tick (ts_vlan_id t)
        @ NL # ''vlan pcp   : '' @ tick (ts_vlan_pcp t) @ NL # ''ethtype    : '' @ tick (ts_frame_type t)
        @ NL # ''ip TOS     : '' @ tick (ts_ip_tos t) @ NL # ''ip proto   : '' @ tick (ts_ip_protocol t)
        @ NL # ''tcp srcport: '' @ tick (ts_src_port t) @ NL # ''tcp dstport: '' @ tick (ts_dest_port t)
        @ NL # ''ip src LSB : '' @ dec (unat (ts_ip_src_lsb t)) @ '' max bits supported.''
        @ NL # ''ip dst LSB : '' @ dec (unat (ts_ip_dest_lsb t)) @ '' max bits supported.'')"

text \<open>The address counts are fields of six bits, at bits 8 and 14.\<close>

definition lsb_mask :: "nat \<Rightarrow> 32 word" where
  "lsb_mask shift = push_bit shift (mask 6)"

definition table_wildcards :: "openflow_table_stats \<Rightarrow> 32 word" where
  "table_wildcards t = flag_if (ts_in_port t) (flag_bit 0) OR flag_if (ts_ethernet_src t) (flag_bit 2)
     OR flag_if (ts_ethernet_dest t) (flag_bit 3) OR flag_if (ts_vlan_id t) (flag_bit 1)
     OR flag_if (ts_vlan_pcp t) (flag_bit 20) OR flag_if (ts_frame_type t) (flag_bit 4)
     OR flag_if (ts_ip_tos t) (flag_bit 21) OR flag_if (ts_ip_protocol t) (flag_bit 5)
     OR (push_bit 8 (ucast (ts_ip_src_lsb t)) AND lsb_mask 8) OR (push_bit 14 (ucast (ts_ip_dest_lsb t)) AND lsb_mask 14)
     OR flag_if (ts_src_port t) (flag_bit 6) OR flag_if (ts_dest_port t) (flag_bit 7)"

definition table_stats_serialize :: "openflow_table_stats \<Rightarrow> byte list" where
  "table_stats_serialize t = [ts_table_id t, 0, 0, 0] @ name_field 32 (ts_name t) @ be32 (table_wildcards t)
     @ be32 (max_entries_supported t) @ be32 (active_entries t) @ be64 (ts_lookup_count t) @ be64 (ts_matched_count t)"

text \<open>The name is read up to the first zero byte, wherever it is.\<close>

definition table_stats_deserialize :: "byte list \<Rightarrow> (bool \<times> openflow_table_stats) res" where
  "table_stats_deserialize input =
    (if length input < 64 then Inr (False, table_stats_clear)
     else if 0 \<notin> set (drop 4 input) then Inl OutOfBounds
     else
       let w = of_be32 (chunk 36 4 input); src_lsb = ucast (drop_bit 8 (w AND lsb_mask 8)) :: byte;
         dest_lsb = ucast (drop_bit 14 (w AND lsb_mask 14)) :: byte;
         flags = [has_flag w (flag_bit 0), has_flag w (flag_bit 2), has_flag w (flag_bit 3), has_flag w (flag_bit 1),
           has_flag w (flag_bit 20), has_flag w (flag_bit 4), has_flag w (flag_bit 21), has_flag w (flag_bit 5),
           has_flag w (flag_bit 6), has_flag w (flag_bit 7)]
       in Inr (True, \<lparr>ts_table_id = input ! 0, ts_name = c_string (drop 4 input),
         all_wildcards_supported = (list_all (\<lambda>b. b) flags \<and> 32 \<le> src_lsb \<and> 32 \<le> dest_lsb),
         no_wildcards_supported = (list_all Not flags \<and> src_lsb = 0 \<and> dest_lsb = 0),
         ts_in_port = has_flag w (flag_bit 0), ts_ethernet_src = has_flag w (flag_bit 2),
         ts_ethernet_dest = has_flag w (flag_bit 3), ts_vlan_id = has_flag w (flag_bit 1),
         ts_vlan_pcp = has_flag w (flag_bit 20), ts_frame_type = has_flag w (flag_bit 4),
         ts_ip_tos = has_flag w (flag_bit 21), ts_ip_protocol = has_flag w (flag_bit 5),
         ts_ip_src_lsb = src_lsb, ts_ip_dest_lsb = dest_lsb,
         ts_src_port = has_flag w (flag_bit 6), ts_dest_port = has_flag w (flag_bit 7),
         max_entries_supported = of_be32 (chunk 40 4 input), active_entries = of_be32 (chunk 44 4 input),
         ts_lookup_count = of_be64 (chunk 48 8 input), ts_matched_count = of_be64 (chunk 56 8 input)\<rparr>))"

section \<open>Ports\<close>

text \<open>A counter and whether the switch supports it are one pair; all ones stands for a counter that is not
  supported.\<close>

type_synonym counter = "bool \<times> 64 word"

record openflow_port_stats =
  ps_all_ports :: bool
  ps_port :: "16 word"
  rx_packets :: counter
  tx_packets :: counter
  rx_bytes :: counter
  tx_bytes :: counter
  rx_dropped :: counter
  tx_dropped :: counter
  rx_errors :: counter
  tx_errors :: counter
  rx_frame_errors :: counter
  rx_overrun_errors :: counter
  rx_crc_errors :: counter
  collision_errors :: counter

definition port_stats_clear :: openflow_port_stats where
  "port_stats_clear = \<lparr>ps_all_ports = False, ps_port = 0, rx_packets = (False, 0), tx_packets = (False, 0),
     rx_bytes = (False, 0), tx_bytes = (False, 0), rx_dropped = (False, 0), tx_dropped = (False, 0),
     rx_errors = (False, 0), tx_errors = (False, 0), rx_frame_errors = (False, 0), rx_overrun_errors = (False, 0),
     rx_crc_errors = (False, 0), collision_errors = (False, 0)\<rparr>"

definition counter_text :: "bool \<Rightarrow> 64 word \<Rightarrow> string" where
  "counter_text supported w = (if supported then dec (unat w) else ''not supported'')"

text \<open>The line of the dropped packets prints the transmitted packets.\<close>

definition port_stats_to_string :: "openflow_port_stats \<Rightarrow> string" where
  "port_stats_to_string s = NL # ''port           : ''
     @ (if ps_all_ports s then ''ALL'' else if ps_port s = OFPP_CONTROLLER then ''CONTROLLER'' else dec (unat (ps_port s)))
     @ NL # ''rx packets     : '' @ counter_text (fst (rx_packets s)) (snd (rx_packets s))
     @ NL # ''tx packets     : '' @ counter_text (fst (tx_packets s)) (snd (tx_packets s))
     @ NL # ''rx bytes       : '' @ counter_text (fst (rx_bytes s)) (snd (rx_bytes s))
     @ NL # ''tx bytes       : '' @ counter_text (fst (tx_bytes s)) (snd (tx_bytes s))
     @ NL # ''rx dropped     : '' @ counter_text (fst (rx_dropped s)) (snd (rx_dropped s))
     @ NL # ''tx dropped     : '' @ counter_text (fst (tx_dropped s)) (snd (tx_packets s))
     @ NL # ''rx errors      : '' @ counter_text (fst (rx_errors s)) (snd (rx_errors s))
     @ NL # ''tx errors      : '' @ counter_text (fst (tx_errors s)) (snd (tx_errors s))
     @ NL # ''rx frame errors: '' @ counter_text (fst (rx_frame_errors s)) (snd (rx_frame_errors s))
     @ NL # ''rx overruns    : '' @ counter_text (fst (rx_overrun_errors s)) (snd (rx_overrun_errors s))
     @ NL # ''rx crc errors  : '' @ counter_text (fst (rx_crc_errors s)) (snd (rx_crc_errors s))
     @ NL # ''collisions     : '' @ counter_text (fst (collision_errors s)) (snd (collision_errors s))"

definition put_counter :: "bool \<Rightarrow> 64 word \<Rightarrow> byte list" where
  "put_counter supported w = be64 (if supported then w else - 1)"

text \<open>The transmitted bytes are written if the received ones are supported.\<close>

definition port_stats_serialize :: "openflow_port_stats \<Rightarrow> byte list" where
  "port_stats_serialize s = be16 (if ps_all_ports s then OFPP_NONE else ps_port s) @ replicate 6 0
     @ put_counter (fst (rx_packets s)) (snd (rx_packets s)) @ put_counter (fst (tx_packets s)) (snd (tx_packets s))
     @ put_counter (fst (rx_bytes s)) (snd (rx_bytes s)) @ put_counter (fst (rx_bytes s)) (snd (tx_bytes s))
     @ put_counter (fst (rx_dropped s)) (snd (rx_dropped s)) @ put_counter (fst (tx_dropped s)) (snd (tx_dropped s))
     @ put_counter (fst (rx_errors s)) (snd (rx_errors s)) @ put_counter (fst (tx_errors s)) (snd (tx_errors s))
     @ put_counter (fst (rx_frame_errors s)) (snd (rx_frame_errors s))
     @ put_counter (fst (rx_overrun_errors s)) (snd (rx_overrun_errors s))
     @ put_counter (fst (rx_crc_errors s)) (snd (rx_crc_errors s))
     @ put_counter (fst (collision_errors s)) (snd (collision_errors s))"

definition get_counter :: "nat \<Rightarrow> byte list \<Rightarrow> counter" where
  "get_counter off input = (let w = of_be64 (chunk off 8 input) in (w \<noteq> - 1, w))"

definition port_stats_deserialize :: "byte list \<Rightarrow> bool \<times> openflow_port_stats" where
  "port_stats_deserialize input =
    (if length input < 104 then (False, port_stats_clear)
     else let port = of_be16 (chunk 0 2 input) in
       (True, \<lparr>ps_all_ports = (port = OFPP_NONE), ps_port = port,
         rx_packets = get_counter 8 input, tx_packets = get_counter 16 input, rx_bytes = get_counter 24 input,
         tx_bytes = get_counter 32 input, rx_dropped = get_counter 40 input, tx_dropped = get_counter 48 input,
         rx_errors = get_counter 56 input, tx_errors = get_counter 64 input, rx_frame_errors = get_counter 72 input,
         rx_overrun_errors = get_counter 80 input, rx_crc_errors = get_counter 88 input,
         collision_errors = get_counter 96 input\<rparr>))"

section \<open>Queues\<close>

definition OFPP_ALL :: "16 word" where "OFPP_ALL = 0xfffc"
definition OFPQ_ALL :: "32 word" where "OFPQ_ALL = 0xffffffff"

record openflow_queue_stats =
  qs_all_ports :: bool
  qs_port :: "16 word"
  qs_all_queues :: bool
  qs_queue_id :: "32 word"
  qs_tx_bytes :: "64 word"
  qs_tx_packets :: "64 word"
  qs_tx_errors :: "64 word"

text \<open>\<open>clear()\<close> resets the byte count twice and the packet count not at all.\<close>

definition queue_stats_clear :: "openflow_queue_stats \<Rightarrow> openflow_queue_stats" where
  "queue_stats_clear q = q\<lparr>qs_all_ports := False, qs_port := 0, qs_all_queues := False, qs_queue_id := 0,
     qs_tx_bytes := 0, qs_tx_errors := 0\<rparr>"

definition queue_stats_to_string :: "openflow_queue_stats \<Rightarrow> string" where
  "queue_stats_to_string q = NL # ''port  : '' @ (if qs_all_ports q then ''ALL PORTS'' else dec (unat (qs_port q)))
     @ NL # ''queue : '' @ (if qs_all_queues q then ''ALL QUEUES'' else dec (unat (qs_queue_id q)))
     @ NL # ''tx packets : '' @ dec (unat (qs_tx_packets q)) @ NL # ''tx bytes   : '' @ dec (unat (qs_tx_bytes q))
     @ NL # ''tx errors  : '' @ dec (unat (qs_tx_errors q))"

definition queue_stats_serialize :: "openflow_queue_stats \<Rightarrow> byte list" where
  "queue_stats_serialize q = be16 (if qs_all_ports q then OFPP_ALL else qs_port q) @ [0, 0]
     @ be32 (if qs_all_queues q then OFPQ_ALL else qs_queue_id q) @ be64 (qs_tx_bytes q) @ be64 (qs_tx_packets q)
     @ be64 (qs_tx_errors q)"

definition queue_stats_deserialize :: "openflow_queue_stats \<Rightarrow> byte list \<Rightarrow> bool \<times> openflow_queue_stats" where
  "queue_stats_deserialize this input =
    (if length input < 32 then (False, queue_stats_clear this)
     else let port = of_be16 (chunk 0 2 input); queue = of_be32 (chunk 4 4 input) in
       (True, \<lparr>qs_all_ports = (port = OFPP_ALL), qs_port = port, qs_all_queues = (queue = OFPQ_ALL), qs_queue_id = queue,
         qs_tx_bytes = of_be64 (chunk 8 8 input), qs_tx_packets = of_be64 (chunk 16 8 input),
         qs_tx_errors = of_be64 (chunk 24 8 input)\<rparr>))"

section \<open>Flow rates\<close>

text \<open>\<open>openflow_flow_rate\<close>: ten readings; the timers are only set by the constructor.\<close>

record openflow_flow_rate =
  rate_flow :: flow_stats
  byte_history :: "64 word list"
  packet_history :: "64 word list"
  timer_history :: "timer list"
  valid_histories :: nat
  initial_bytes :: "64 word"
  initial_packets :: "64 word"
  byte_offset :: "64 word"
  packet_offset :: "64 word"

text \<open>The readings of the clock in the constructor are the argument.\<close>

definition flow_rate_new :: "timer list \<Rightarrow> openflow_flow_rate" where
  "flow_rate_new timers = \<lparr>rate_flow = flow_stats_clear, byte_history = replicate 10 0, packet_history = replicate 10 0,
     timer_history = timers, valid_histories = 0, initial_bytes = 0, initial_packets = 0, byte_offset = 0, packet_offset = 0\<rparr>"

definition update_history :: "nat \<Rightarrow> 64 word \<Rightarrow> 64 word \<Rightarrow> 64 word list \<Rightarrow> 64 word list" where
  "update_history valid count initial h =
    (if valid < 10 then h[valid := (if valid = 0 then 0 else count - initial - h ! (valid - 1))]
     else tl h @ [count - initial - last h])"

definition update_flow :: "flow_stats \<Rightarrow> openflow_flow_rate \<Rightarrow> openflow_flow_rate" where
  "update_flow f r =
    (let first = (valid_histories r = 0);
         b0 = (if first then stats_byte_count f else initial_bytes r);
         p0 = (if first then stats_packet_count f else initial_packets r)
     in r\<lparr>rate_flow := f, initial_bytes := b0, initial_packets := p0,
       byte_history := update_history (valid_histories r) (stats_byte_count f) b0 (byte_history r),
       packet_history := update_history (valid_histories r) (stats_packet_count f) p0 (packet_history r),
       valid_histories := (if valid_histories r < 10 then valid_histories r + 1 else valid_histories r)\<rparr>)"

definition reset_byte_counter :: "openflow_flow_rate \<Rightarrow> openflow_flow_rate" where
  "reset_byte_counter r = r\<lparr>byte_offset := stats_byte_count (rate_flow r)\<rparr>"

definition reset_packet_counter :: "openflow_flow_rate \<Rightarrow> openflow_flow_rate" where
  "reset_packet_counter r = r\<lparr>packet_offset := stats_packet_count (rate_flow r)\<rparr>"

text \<open>The quotient of \<open>int\<close>s is truncated; the divisor of the total is converted to 64 bits.\<close>

definition trunc_div :: "int \<Rightarrow> int \<Rightarrow> int" where
  "trunc_div a b = sgn a * sgn b * (\<bar>a\<bar> div \<bar>b\<bar>)"

definition rate_of :: "int \<Rightarrow> openflow_flow_rate \<Rightarrow> 64 word list \<Rightarrow> 64 word" where
  "rate_of now r h =
    (if valid_histories r \<le> 1 then 0
     else
       let total = sum_list (take (valid_histories r) h);
           s = trunc_div (get_time_elapsed_ms now (timer_history r ! 0)
             - get_time_elapsed_ms now (timer_history r ! (valid_histories r - 1))) 1000
       in if s = 0 then 0 else total div word_of_int s)"

definition get_byte_rate :: "int \<Rightarrow> openflow_flow_rate \<Rightarrow> 64 word" where
  "get_byte_rate now r = rate_of now r (byte_history r)"

definition get_packet_rate :: "int \<Rightarrow> openflow_flow_rate \<Rightarrow> 64 word" where
  "get_packet_rate now r = rate_of now r (packet_history r)"

definition get_byte_count :: "openflow_flow_rate \<Rightarrow> 64 word" where
  "get_byte_count r = stats_byte_count (rate_flow r) - byte_offset r"

definition get_packet_count :: "openflow_flow_rate \<Rightarrow> 64 word" where
  "get_packet_count r = stats_packet_count (rate_flow r) - packet_offset r"

section \<open>Reading back what was written\<close>

lemma length_name_field [simp]: "0 < n \<Longrightarrow> length (name_field n s) = n"
  by (simp add: name_field_def Let_def)

lemma unat_of_char: "unat (of_char c :: byte) = of_char c"
proof -
  have "(of_char c :: nat) < 2 ^ LENGTH(8)" by simp
  then have "unat (word_of_nat (of_char c) :: byte) = of_char c" by (simp only: unat_of_nat mod_less)
  then show ?thesis by (simp only: of_nat_of_char)
qed

lemma of_char_zero: "(of_char c :: byte) = 0 \<longleftrightarrow> c = CHR 0x00"
proof
  assume "(of_char c :: byte) = 0"
  then have "(of_char c :: nat) = 0" using unat_of_char [of c] by (simp only: unsigned_0)
  then have "(of_char c :: nat) = of_char CHR 0x00" by simp
  then show "c = CHR 0x00" by (simp only: of_char_eq_iff)
qed simp

text \<open>A name that is short enough and has no zero character.\<close>

definition name_ok :: "nat \<Rightarrow> string \<Rightarrow> bool" where
  "name_ok n s = (length s < n \<and> CHR 0x00 \<notin> set s)"

lemma takeWhile_char_bytes:
  "takeWhile (\<lambda>b. b \<noteq> 0) (char_bytes s) = char_bytes (takeWhile (\<lambda>c. c \<noteq> CHR 0x00) s)"
  by (induction s) (simp_all add: char_bytes_def of_char_zero)

lemma char_bytes_back: "map (\<lambda>b. char_of (unat b)) (char_bytes s) = s"
  by (induction s) (simp_all add: char_bytes_def unat_of_char)

lemma take_char_bytes: "take n (char_bytes s) = char_bytes (take n s)"
  by (simp add: char_bytes_def take_map)

lemma char_bytes_nonzero: "CHR 0x00 \<notin> set s \<Longrightarrow> b \<in> set (char_bytes s) \<Longrightarrow> b \<noteq> 0"
  by (auto simp: char_bytes_def of_char_zero)

lemma name_field_alt:
  "name_field n s = char_bytes (take (n - 1) (takeWhile (\<lambda>c. c \<noteq> CHR 0x00) s))
     @ replicate (n - min (length (takeWhile (\<lambda>c. c \<noteq> CHR 0x00) s)) (n - 1)) 0"
  by (simp add: name_field_def Let_def takeWhile_char_bytes take_char_bytes) (simp add: char_bytes_def)

lemma c_string_chars:
  assumes "CHR 0x00 \<notin> set s"
  shows "c_string (char_bytes s @ 0 # rest) = s" "c_string (char_bytes s) = s"
proof -
  have all: "\<forall>b \<in> set (char_bytes s). b \<noteq> 0" using char_bytes_nonzero [OF assms] by blast
  then have "takeWhile (\<lambda>b. b \<noteq> 0) (char_bytes s @ 0 # rest) = char_bytes s"
    "takeWhile (\<lambda>b. b \<noteq> 0) (char_bytes s) = char_bytes s"
    by (simp_all add: takeWhile_append2 takeWhile_eq_all_conv)
  then show "c_string (char_bytes s @ 0 # rest) = s" "c_string (char_bytes s) = s"
    by (simp_all only: c_string_def char_bytes_back)
qed

text \<open>What a name comes back as.\<close>

definition name_reread :: "nat \<Rightarrow> string \<Rightarrow> string" where
  "name_reread n s = take (n - 1) (takeWhile (\<lambda>c. c \<noteq> CHR 0x00) s)"

lemma name_reread_nz: "CHR 0x00 \<notin> set (name_reread n s)"
  unfolding name_reread_def by (auto dest!: in_set_takeD set_takeWhileD)

lemma name_field_zero:
  assumes "0 < n"
  shows "\<exists>k. name_field n s = char_bytes (name_reread n s) @ 0 # replicate k 0"
proof -
  have "n - min (length (takeWhile (\<lambda>c. c \<noteq> CHR 0x00) s)) (n - 1) = Suc (n - min (length (takeWhile (\<lambda>c. c \<noteq> CHR 0x00) s)) (n - 1) - 1)"
    using assms by simp
  then show ?thesis unfolding name_field_alt name_reread_def by (metis replicate_Suc)
qed

lemma c_string_name_field:
  assumes "0 < n"
  shows "c_string (name_field n s @ rest) = name_reread n s" "c_string (take (n - 1) (name_field n s)) = name_reread n s"
proof -
  obtain k where k: "name_field n s = char_bytes (name_reread n s) @ 0 # replicate k 0"
    using name_field_zero [OF assms] by blast
  show "c_string (name_field n s @ rest) = name_reread n s"
    unfolding k by (simp add: c_string_chars(1) name_reread_nz)
  let ?l = "length (name_reread n s)"
  have le: "?l \<le> n - 1" by (simp add: name_reread_def)
  have cl: "length (char_bytes (name_reread n s)) = ?l" by (simp add: char_bytes_def)
  show "c_string (take (n - 1) (name_field n s)) = name_reread n s"
  proof (cases "?l = n - 1")
    case True
    then have "take (n - 1) (name_field n s) = char_bytes (name_reread n s)" unfolding k by (simp add: cl)
    then show ?thesis by (simp add: c_string_chars(2) name_reread_nz)
  next
    case False
    with le have "take (n - 1) (name_field n s) = char_bytes (name_reread n s) @ 0 # take (n - 2 - ?l) (replicate k 0)"
      unfolding k by (simp add: cl take_Cons' numeral_2_eq_2)
    then show ?thesis by (simp add: c_string_chars(1) name_reread_nz)
  qed
qed

lemma name_reread_iff: "0 < n \<Longrightarrow> name_reread n s = s \<longleftrightarrow> name_ok n s"
proof
  assume "0 < n" "name_reread n s = s"
  then show "name_ok n s"
  proof -
    have "length (name_reread n s) \<le> n - 1" by (simp add: name_reread_def)
    with \<open>name_reread n s = s\<close> \<open>0 < n\<close> name_reread_nz [of n s] show ?thesis by (simp add: name_ok_def)
  qed
next
  assume "0 < n" "name_ok n s"
  then have nz: "CHR 0x00 \<notin> set s" and le: "length s \<le> n - 1" by (auto simp: name_ok_def)
  from nz have "takeWhile (\<lambda>c. c \<noteq> CHR 0x00) s = s" by (induction s) auto
  then show "name_reread n s = s" using le by (simp only: name_reread_def take_all)
qed

lemma read_name_field:
  "length pre = off \<Longrightarrow> 0 < n \<Longrightarrow> read_name off n (pre @ name_field n s @ rest) = name_reread n s"
  using c_string_name_field(2) [of n s] by (simp add: read_name_def chunk_def)

text \<open>A switch description that is written and read back comes back exactly if every text is shorter than its
  field and has no zero character.\<close>

theorem switch_description_roundtrip_iff:
  "switch_description_deserialize d0 (switch_description_serialize d) = (True, d) \<longleftrightarrow>
    name_ok 256 (manufacturer d) \<and> name_ok 256 (hardware_description d) \<and> name_ok 256 (software_description d)
    \<and> name_ok 32 (serial_number d) \<and> name_ok 256 (general_description d)"
proof -
  let ?a = "name_field 256 (manufacturer d)" and ?b = "name_field 256 (hardware_description d)"
    and ?c = "name_field 256 (software_description d)" and ?e = "name_field 32 (serial_number d)"
    and ?f = "name_field 256 (general_description d)"
  have "read_name 0 256 (switch_description_serialize d) = name_reread 256 (manufacturer d)"
    using read_name_field [of "[]" 0 256 _ "?b @ ?c @ ?e @ ?f"] by (simp add: switch_description_serialize_def)
  moreover have "read_name 256 256 (switch_description_serialize d) = name_reread 256 (hardware_description d)"
    using read_name_field [of ?a 256 256 _ "?c @ ?e @ ?f"] by (simp add: switch_description_serialize_def)
  moreover have "read_name 512 256 (switch_description_serialize d) = name_reread 256 (software_description d)"
    using read_name_field [of "?a @ ?b" 512 256 _ "?e @ ?f"] by (simp add: switch_description_serialize_def)
  moreover have "read_name 768 32 (switch_description_serialize d) = name_reread 32 (serial_number d)"
    using read_name_field [of "?a @ ?b @ ?c" 768 32 _ ?f] by (simp add: switch_description_serialize_def)
  moreover have "read_name 800 256 (switch_description_serialize d) = name_reread 256 (general_description d)"
    using read_name_field [of "?a @ ?b @ ?c @ ?e" 800 256 _ "[]"] by (simp add: switch_description_serialize_def)
  moreover have "length (switch_description_serialize d) = 1056" by (simp add: switch_description_serialize_def)
  ultimately show ?thesis
    by (cases d) (simp add: switch_description_deserialize_def name_reread_iff)
qed

section \<open>Counters of flows, ports and queues\<close>

lemma be_bytes_add: "be_bytes (a + b) w = be_bytes a (drop_bit (8 * b) w) @ be_bytes b w"
  by (induction b arbitrary: w) (simp_all add: add.commute)

lemma be_bytes_ucast:
  fixes w :: "32 word"
  shows "be_bytes k (ucast w :: 64 word) = be_bytes k w"
proof (induction k arbitrary: w)
  case (Suc k)
  have "bit w (8 + n) \<Longrightarrow> n < 56" for n using bit_imp_le_length [of w "8 + n"] by simp
  then have "drop_bit 8 (ucast w :: 64 word) = ucast (drop_bit 8 w)"
    by (intro bit_word_eqI) (auto simp: bit_simps)
  moreover have "(ucast (ucast w :: 64 word) :: byte) = ucast w"
    by (rule bit_word_eqI) (auto simp: bit_simps)
  ultimately show ?case using Suc by simp
qed simp

lemma be_bytes_zero: "be_bytes k 0 = replicate k 0"
proof (induction k)
  case (Suc k)
  then show ?case by (simp add: replicate_append_same)
qed simp

lemma be64_ucast: "be64 (ucast (w :: 32 word)) = replicate 4 0 @ be32 w"
proof -
  have "drop_bit 32 (ucast w :: 64 word) = 0" by (rule bit_word_eqI) (auto simp: bit_simps dest: bit_imp_le_length)
  then show ?thesis
    using be_bytes_add [of 4 4 "ucast w :: 64 word"] by (simp add: be64_def be32_def be_bytes_ucast be_bytes_zero)
qed

lemma of_bytes_zeros:
  "of_bytes (bs @ replicate k 0) = push_bit (8 * k) (of_bytes bs :: 'a::len word)"
proof (induction k)
  case (Suc k)
  have "bs @ replicate (Suc k) 0 = (bs @ replicate k 0) @ [0]" by (simp add: replicate_append_same)
  then have "of_bytes (bs @ replicate (Suc k) 0) = push_bit 8 (of_bytes (bs @ replicate k 0) :: 'a word)"
    by (simp only: of_bytes_snoc) simp
  with Suc show ?case by (simp add: ac_simps)
qed simp

lemma of_bytes_be32: "of_bytes (be32 n) = (ucast n :: 64 word)"
proof -
  have "of_bytes (be_bytes 4 (ucast n :: 64 word)) = take_bit 32 (ucast n :: 64 word)"
    using of_bytes_be_bytes [of 4 "ucast n :: 64 word"] by simp
  moreover have "take_bit 32 (ucast n :: 64 word) = ucast n"
    by (rule bit_word_eqI) (auto simp: bit_simps dest: bit_imp_le_length)
  ultimately show ?thesis by (simp add: be_bytes_ucast be32_def)
qed

lemma bswap_loaded: "bswap64 (ucast (of_le32 (be32 n))) = push_bit 32 (ucast n)"
proof -
  have "be32 (of_le32 (be32 n)) = rev (be32 n)"
    using be_bytes_of_bytes [of "rev (be32 n)", where ?'a = 32] by (simp add: of_le32_def be32_def del: be_bytes.simps)
  then have "bswap64 (ucast (of_le32 (be32 n))) = of_bytes (be32 n @ replicate 4 0)"
    by (simp add: bswap64_def be64_ucast)
  then show ?thesis by (simp add: of_bytes_zeros of_bytes_be32)
qed

text \<open>The flow count of an aggregate reply is read as \<open>2 ^ 32\<close> times what the switch sent: the field has
  32 bits, and the code swaps the bytes of a 64-bit value. The other two counters are read as they are.\<close>

theorem aggregate_flow_count_shifted:
  assumes "length pad = 4"
  shows "aggregate_deserialize (be64 packets @ be64 bytes @ be32 n @ pad) =
    (True, \<lparr>ag_packet_count = packets, ag_byte_count = bytes, ag_flow_count = push_bit 32 (ucast n)\<rparr>)"
  using assms by (simp add: aggregate_deserialize_def field_simps_rules bswap_loaded)

lemma aggregate_flow_count_shifted_witness:
  "ag_flow_count (snd (aggregate_deserialize (be64 9 @ be64 900 @ be32 1 @ [0, 0, 0, 0]))) = 4294967296"
  using aggregate_flow_count_shifted [of "[0, 0, 0, 0]" 9 900 1] by (simp add: push_bit_eq_mult)

definition counter_ok :: "counter \<Rightarrow> bool" where
  "counter_ok c = (fst c = (snd c \<noteq> - 1))"

lemma length_put_counter [simp]: "length (put_counter b w) = 8"
  by (simp add: put_counter_def)

lemma counter_reread: "(if fst c \<and> snd c \<noteq> - 1 then (True, snd c) else (False, - 1)) = c \<longleftrightarrow> counter_ok c"
  by (cases c) (auto simp: counter_ok_def)

lemma port_stats_eq_iff:
  "(a :: openflow_port_stats) = b \<longleftrightarrow> ps_all_ports a = ps_all_ports b \<and> ps_port a = ps_port b \<and> rx_packets a = rx_packets b
     \<and> tx_packets a = tx_packets b \<and> rx_bytes a = rx_bytes b \<and> tx_bytes a = tx_bytes b
     \<and> rx_dropped a = rx_dropped b \<and> tx_dropped a = tx_dropped b \<and> rx_errors a = rx_errors b
     \<and> tx_errors a = tx_errors b \<and> rx_frame_errors a = rx_frame_errors b \<and> rx_overrun_errors a = rx_overrun_errors b
     \<and> rx_crc_errors a = rx_crc_errors b \<and> collision_errors a = collision_errors b"
  by (cases a; cases b) simp

text \<open>Port statistics that are written and read back come back exactly if the port is \<open>OFPP_NONE\<close> just when
  all ports are meant, every counter holds all ones just when it is not supported, and the transmitted bytes
  are unsupported whenever the received bytes are.\<close>

theorem port_stats_roundtrip_iff:
  "port_stats_deserialize (port_stats_serialize s) = (True, s) \<longleftrightarrow>
    (ps_all_ports s \<longleftrightarrow> ps_port s = OFPP_NONE)
    \<and> list_all counter_ok [rx_packets s, tx_packets s, rx_bytes s, tx_bytes s, rx_dropped s, tx_dropped s, rx_errors s,
        tx_errors s, rx_frame_errors s, rx_overrun_errors s, rx_crc_errors s, collision_errors s]
    \<and> (fst (tx_bytes s) \<longrightarrow> fst (rx_bytes s))"
proof -
  have l: "length (port_stats_serialize s) = 104" by (simp add: port_stats_serialize_def)
  define r where "r = (\<lambda>c :: counter. if fst c \<and> snd c \<noteq> - 1 then (True, snd c) else (False, - 1))"
  define t where "t = (if fst (rx_bytes s) \<and> snd (tx_bytes s) \<noteq> - 1 then (True, snd (tx_bytes s)) else (False, - 1))"
  have port: "of_be16 (chunk 0 2 (port_stats_serialize s)) = (if ps_all_ports s then OFPP_NONE else ps_port s)"
    by (simp add: port_stats_serialize_def field_simps_rules)
  have c: "get_counter 8 (port_stats_serialize s) = r (rx_packets s)" "get_counter 16 (port_stats_serialize s) = r (tx_packets s)"
    "get_counter 24 (port_stats_serialize s) = r (rx_bytes s)" "get_counter 32 (port_stats_serialize s) = t"
    "get_counter 40 (port_stats_serialize s) = r (rx_dropped s)" "get_counter 48 (port_stats_serialize s) = r (tx_dropped s)"
    "get_counter 56 (port_stats_serialize s) = r (rx_errors s)" "get_counter 64 (port_stats_serialize s) = r (tx_errors s)"
    "get_counter 72 (port_stats_serialize s) = r (rx_frame_errors s)" "get_counter 80 (port_stats_serialize s) = r (rx_overrun_errors s)"
    "get_counter 88 (port_stats_serialize s) = r (rx_crc_errors s)" "get_counter 96 (port_stats_serialize s) = r (collision_errors s)"
    unfolding port_stats_serialize_def get_counter_def put_counter_def Let_def r_def t_def
    by (simp_all add: field_simps_rules)
  have rr: "r c = c \<longleftrightarrow> counter_ok c" for c unfolding r_def by (rule counter_reread)
  have tt: "t = tx_bytes s \<longleftrightarrow> counter_ok (tx_bytes s) \<and> (fst (tx_bytes s) \<longrightarrow> fst (rx_bytes s))"
    unfolding t_def by (cases "tx_bytes s") (auto simp: counter_ok_def)
  have "port_stats_deserialize (port_stats_serialize s) = (True, s) \<longleftrightarrow>
    ((if ps_all_ports s then OFPP_NONE else ps_port s) = OFPP_NONE) = ps_all_ports s
    \<and> (if ps_all_ports s then OFPP_NONE else ps_port s) = ps_port s
    \<and> r (rx_packets s) = rx_packets s \<and> r (tx_packets s) = tx_packets s \<and> r (rx_bytes s) = rx_bytes s \<and> t = tx_bytes s
    \<and> r (rx_dropped s) = rx_dropped s \<and> r (tx_dropped s) = tx_dropped s \<and> r (rx_errors s) = rx_errors s
    \<and> r (tx_errors s) = tx_errors s \<and> r (rx_frame_errors s) = rx_frame_errors s
    \<and> r (rx_overrun_errors s) = rx_overrun_errors s \<and> r (rx_crc_errors s) = rx_crc_errors s
    \<and> r (collision_errors s) = collision_errors s"
    by (simp add: port_stats_deserialize_def l port c Let_def port_stats_eq_iff [of _ s] cong del: if_weak_cong)
  then show ?thesis unfolding rr tt by auto
qed

text \<open>Queue statistics come back as they were written exactly if the two codes for everything are used
  just when everything is meant.\<close>

theorem queue_stats_roundtrip_iff:
  "queue_stats_deserialize q0 (queue_stats_serialize q) = (True, q) \<longleftrightarrow>
    (qs_all_ports q \<longleftrightarrow> qs_port q = OFPP_ALL) \<and> (qs_all_queues q \<longleftrightarrow> qs_queue_id q = OFPQ_ALL)"
  by (cases q) (auto simp: queue_stats_deserialize_def queue_stats_serialize_def Let_def field_simps_rules)

section \<open>Tables and flows\<close>

lemma bit_address_bits:
  "bit (push_bit s (ucast (b :: byte)) AND lsb_mask s :: 32 word) n \<longleftrightarrow> s \<le> n \<and> n < s + 6 \<and> n < 32 \<and> bit b (n - s)"
  by (auto simp: lsb_mask_def bit_simps)

lemma table_wildcards_bits:
  "bit (table_wildcards t) 0 = ts_in_port t" "bit (table_wildcards t) (Suc 0) = ts_vlan_id t" "bit (table_wildcards t) 2 = ts_ethernet_src t"
  "bit (table_wildcards t) 3 = ts_ethernet_dest t" "bit (table_wildcards t) 4 = ts_frame_type t"
  "bit (table_wildcards t) 5 = ts_ip_protocol t" "bit (table_wildcards t) 6 = ts_src_port t"
  "bit (table_wildcards t) 7 = ts_dest_port t" "bit (table_wildcards t) 20 = ts_vlan_pcp t" "bit (table_wildcards t) 21 = ts_ip_tos t"
  unfolding table_wildcards_def bit_or_iff bit_flag_if bit_address_bits by simp_all

lemma table_wildcards_lsb:
  "ucast (drop_bit 8 (table_wildcards t AND lsb_mask 8)) = take_bit 6 (ts_ip_src_lsb t)"
  "ucast (drop_bit 14 (table_wildcards t AND lsb_mask 14)) = take_bit 6 (ts_ip_dest_lsb t)"
proof -
  have "bit (table_wildcards t) (8 + n) = bit (ts_ip_src_lsb t) n" if "n < 6" for n
    using that unfolding table_wildcards_def bit_or_iff bit_flag_if bit_address_bits by auto
  then show "ucast (drop_bit 8 (table_wildcards t AND lsb_mask 8)) = take_bit 6 (ts_ip_src_lsb t)"
    by (intro bit_word_eqI) (auto simp: bit_simps lsb_mask_def)
  have "bit (table_wildcards t) (14 + n) = bit (ts_ip_dest_lsb t) n" if "n < 6" for n
    using that unfolding table_wildcards_def bit_or_iff bit_flag_if bit_address_bits by auto
  then show "ucast (drop_bit 14 (table_wildcards t AND lsb_mask 14)) = take_bit 6 (ts_ip_dest_lsb t)"
    by (intro bit_word_eqI) (auto simp: bit_simps lsb_mask_def)
qed

definition table_flags :: "openflow_table_stats \<Rightarrow> bool list" where
  "table_flags t = [ts_in_port t, ts_ethernet_src t, ts_ethernet_dest t, ts_vlan_id t, ts_vlan_pcp t, ts_frame_type t,
     ts_ip_tos t, ts_ip_protocol t, ts_src_port t, ts_dest_port t]"

lemma table_stats_eq_iff:
  "(a :: openflow_table_stats) = b \<longleftrightarrow> ts_table_id a = ts_table_id b \<and> ts_name a = ts_name b
    \<and> all_wildcards_supported a = all_wildcards_supported b \<and> no_wildcards_supported a = no_wildcards_supported b
    \<and> table_flags a = table_flags b \<and> ts_ip_src_lsb a = ts_ip_src_lsb b \<and> ts_ip_dest_lsb a = ts_ip_dest_lsb b
    \<and> max_entries_supported a = max_entries_supported b \<and> active_entries a = active_entries b
    \<and> ts_lookup_count a = ts_lookup_count b \<and> ts_matched_count a = ts_matched_count b"
  by (cases a; cases b) (auto simp: table_flags_def)

text \<open>Table statistics that are written and read back come back exactly if the name fits its field, the
  two address counts fit six bits, and the two summary flags agree with the others.\<close>

theorem table_stats_roundtrip_iff:
  "table_stats_deserialize (table_stats_serialize t) = Inr (True, t) \<longleftrightarrow>
    name_ok 32 (ts_name t) \<and> take_bit 6 (ts_ip_src_lsb t) = ts_ip_src_lsb t \<and> take_bit 6 (ts_ip_dest_lsb t) = ts_ip_dest_lsb t
    \<and> all_wildcards_supported t = (list_all (\<lambda>b. b) (table_flags t) \<and> 32 \<le> ts_ip_src_lsb t \<and> 32 \<le> ts_ip_dest_lsb t)
    \<and> no_wildcards_supported t = (list_all Not (table_flags t) \<and> ts_ip_src_lsb t = 0 \<and> ts_ip_dest_lsb t = 0)"
proof -
  let ?b = "table_stats_serialize t"
  have l: "length ?b = 64" by (simp add: table_stats_serialize_def)
  have d: "drop 4 ?b = name_field 32 (ts_name t) @ be32 (table_wildcards t)
     @ be32 (max_entries_supported t) @ be32 (active_entries t) @ be64 (ts_lookup_count t) @ be64 (ts_matched_count t)"
    by (simp add: table_stats_serialize_def)
  obtain k where "name_field 32 (ts_name t) = char_bytes (name_reread 32 (ts_name t)) @ 0 # replicate k 0"
    using name_field_zero [of 32 "ts_name t"] by auto
  then have z: "0 \<in> set (drop 4 ?b)" unfolding d by simp
  have name: "c_string (drop 4 ?b) = name_reread 32 (ts_name t)" unfolding d by (rule c_string_name_field(1)) simp
  have w: "of_be32 (chunk 36 4 ?b) = table_wildcards t" "?b ! 0 = ts_table_id t"
    "of_be32 (chunk 40 4 ?b) = max_entries_supported t" "of_be32 (chunk 44 4 ?b) = active_entries t"
    "of_be64 (chunk 48 8 ?b) = ts_lookup_count t" "of_be64 (chunk 56 8 ?b) = ts_matched_count t"
    by (simp_all add: table_stats_serialize_def field_simps_rules)
  have "table_stats_deserialize ?b = Inr (True, \<lparr>ts_table_id = ts_table_id t, ts_name = name_reread 32 (ts_name t),
      all_wildcards_supported = (list_all (\<lambda>b. b) (table_flags t) \<and> 32 \<le> take_bit 6 (ts_ip_src_lsb t) \<and> 32 \<le> take_bit 6 (ts_ip_dest_lsb t)),
      no_wildcards_supported = (list_all Not (table_flags t) \<and> take_bit 6 (ts_ip_src_lsb t) = 0 \<and> take_bit 6 (ts_ip_dest_lsb t) = 0),
      ts_in_port = ts_in_port t, ts_ethernet_src = ts_ethernet_src t, ts_ethernet_dest = ts_ethernet_dest t,
      ts_vlan_id = ts_vlan_id t, ts_vlan_pcp = ts_vlan_pcp t, ts_frame_type = ts_frame_type t, ts_ip_tos = ts_ip_tos t,
      ts_ip_protocol = ts_ip_protocol t, ts_ip_src_lsb = take_bit 6 (ts_ip_src_lsb t), ts_ip_dest_lsb = take_bit 6 (ts_ip_dest_lsb t),
      ts_src_port = ts_src_port t, ts_dest_port = ts_dest_port t, max_entries_supported = max_entries_supported t,
      active_entries = active_entries t, ts_lookup_count = ts_lookup_count t, ts_matched_count = ts_matched_count t\<rparr>)"
    unfolding table_stats_deserialize_def Let_def w table_wildcards_lsb name has_flag_bit
    using l z by (simp add: table_wildcards_bits table_flags_def)
  then show ?thesis
    using name_reread_iff [of 32 "ts_name t"]
    by (simp add: table_stats_eq_iff [of _ t]) (auto simp: table_flags_def)
qed

lemma chunk_flow_fixed:
  fixes f :: flow_stats
  shows "length (flow_stats_fixed n f) = 88" "chunk 0 2 (flow_stats_fixed n f @ rest) = be16 (word_of_nat n)"
    "chunk 4 40 (flow_stats_fixed n f @ rest) = of_match_serialize (criteria (flow_desc f))"
  by (simp_all add: flow_stats_fixed_def field_simps_rules)

lemma read_flow_stats_fixed:
  "read_flow_stats (flow_stats_fixed n f @ rest) as =
    f\<lparr>flow_desc := (flow_desc f)\<lparr>criteria := snd (of_match_deserialize (of_match_serialize (criteria (flow_desc f)))),
      action_list := as\<rparr>\<rparr>"
  unfolding read_flow_stats_def chunk_flow_fixed
  by (cases f; cases "flow_desc f") (simp add: flow_stats_fixed_def field_simps_rules nth_append)

lemma of_match_reread: "\<exists>m'. of_match_deserialize (of_match_serialize m) = (True, m')"
  by (simp add: of_match_deserialize_def Let_def)

lemma written_actions_length: "list_all2 actions.writes bss as \<Longrightarrow> length (concat bss) = sum_list (map action_size as)"
  by (induction rule: list_all2_induct) (auto dest!: actions.length_writes)

lemma flow_stats_written:
  assumes "list_all (\<lambda>a. get_action_type a \<noteq> VENDOR) (action_list (flow_desc f))"
    and "88 + sum_list (map action_size (action_list (flow_desc f))) < 65536" and "\<And>n. length (fresh n) = n"
  shows "\<exists>bs. flow_stats_serialize fresh f = Inr bs \<and> 88 \<le> length bs \<and> chunk 0 2 bs = be16 (word_of_nat (length bs))
    \<and> length bs < 65536 \<and> (\<exists>r. flow_stats_deserialize bs = Inr r)
    \<and> (flow_stats_deserialize bs = Inr (True, f) \<longleftrightarrow>
      of_match_deserialize (of_match_serialize (criteria (flow_desc f))) = (True, criteria (flow_desc f))
      \<and> list_all survives (action_list (flow_desc f)))"
proof -
  let ?as = "action_list (flow_desc f)" and ?m = "criteria (flow_desc f)"
  have small: "sum_list (map action_size ?as) < 2 ^ 32" using assms(2) by simp
  obtain bss where bss: "action_list_serialize fresh ?as = Inr (concat bss)" "list_all2 actions.writes bss ?as"
    using action_list_serialize_writes [OF assms(1) small assms(3)] by blast
  let ?acts = "concat bss" and ?n = "88 + length (concat bss)"
  have n: "?n < 65536" using assms(2) written_actions_length [OF bss(2)] by simp
  let ?bs = "flow_stats_fixed ?n f @ ?acts"
  have len: "length ?bs = ?n" by (simp add: chunk_flow_fixed)
  have ser: "flow_stats_serialize fresh f = Inr ?bs" using n by (simp add: flow_stats_serialize_def bss(1))
  obtain ok as' where d: "action_list_deserialize ?acts = Inr (ok, as')"
    using deserialize_written_list [OF bss(2)] by (auto split: option.splits)
  have iff: "(ok \<and> as' = ?as) \<longleftrightarrow> list_all survives ?as"
    using action_list_roundtrip_iff [OF assms(1) small assms(3)] bss(1) d by auto
  obtain m' where m': "of_match_deserialize (of_match_serialize ?m) = (True, m')" using of_match_reread by blast
  have size: "u32 (size_t_minus (unat (word_of_nat ?n :: 16 word)) 88) = length ?acts"
  proof -
    have "unat (word_of_nat ?n :: 16 word) = ?n" using n by (simp only: unat_of_nat) simp
    moreover have "(?n + 2 ^ 64 - 88) mod 2 ^ 64 = length ?acts" using n by simp
    ultimately show ?thesis using n by (simp only: size_t_minus_def) simp
  qed
  have des: "flow_stats_deserialize ?bs = (if \<not> ok then Inr (False, flow_stats_clear) else Inr (True, read_flow_stats ?bs as'))"
    unfolding flow_stats_deserialize_def len chunk_flow_fixed(2,3) of_be_be size
    using m' d by (simp add: fetch_def len chunk_flow_fixed chunk_append_right chunk_all)
  have eq: "flow_stats_deserialize ?bs = Inr (True, f) \<longleftrightarrow>
      of_match_deserialize (of_match_serialize ?m) = (True, ?m) \<and> list_all survives ?as"
    unfolding des read_flow_stats_fixed m' iff [symmetric] by (cases f; cases "flow_desc f") auto
  have ex: "\<exists>r. flow_stats_deserialize ?bs = Inr r" unfolding des by auto
  show ?thesis
    by (rule exI [of _ ?bs]) (use ser len n eq ex chunk_flow_fixed(2) in \<open>simp only: simp_thms; simp\<close>)
qed

section \<open>A rate is always zero\<close>

inductive rate_reach :: "timer list \<Rightarrow> openflow_flow_rate \<Rightarrow> bool" for timers where
  rate_start: "rate_reach timers (flow_rate_new timers)"
| rate_update: "rate_reach timers r \<Longrightarrow> rate_reach timers (update_flow f r)"
| rate_reset_bytes: "rate_reach timers r \<Longrightarrow> rate_reach timers (reset_byte_counter r)"
| rate_reset_packets: "rate_reach timers r \<Longrightarrow> rate_reach timers (reset_packet_counter r)"

lemma rate_reach_inv: "rate_reach timers r \<Longrightarrow> timer_history r = timers \<and> valid_histories r \<le> 10"
  by (induction rule: rate_reach.induct)
    (simp_all add: flow_rate_new_def update_flow_def reset_byte_counter_def reset_packet_counter_def Let_def)

lemma trunc_div_small: "\<bar>a\<bar> < b \<Longrightarrow> trunc_div a b = 0"
  by (simp add: trunc_div_def)

text \<open>The rates of a flow are always zero: the timers of the readings are set together, by the constructor,
  and never again, so the time that the readings span is below a second however long the flow is observed.\<close>

theorem flow_rate_always_zero:
  assumes "rate_reach timers r" "length timers = 10" "\<And>t. t \<in> set timers \<Longrightarrow> start \<le> t \<and> t < start + 1000"
    and "start + 1000 \<le> now" "now < start + 2147483648"
  shows "get_byte_rate now r = 0 \<and> get_packet_rate now r = 0"
proof -
  have inv: "timer_history r = timers" "valid_histories r \<le> 10" using rate_reach_inv [OF assms(1)] by auto
  have "rate_of now r h = 0" for h
  proof (cases "valid_histories r \<le> 1")
    case False
    let ?a = "timers ! 0" and ?b = "timers ! (valid_histories r - 1)"
    have mem: "?a \<in> set timers" "?b \<in> set timers" using assms(2) inv(2) False by auto
    have "get_time_elapsed_ms now ?a = now - ?a" "get_time_elapsed_ms now ?b = now - ?b"
      using assms(3) [OF mem(1)] assms(3) [OF mem(2)] assms(4,5) by (simp_all add: get_time_elapsed_ms_id)
    then have "trunc_div (get_time_elapsed_ms now ?a - get_time_elapsed_ms now ?b) 1000 = 0"
      using assms(3) [OF mem(1)] assms(3) [OF mem(2)] by (intro trunc_div_small) auto
    then show ?thesis using False inv(1) by (simp add: rate_of_def)
  qed (simp add: rate_of_def)
  then show ?thesis by (simp add: get_byte_rate_def get_packet_rate_def)
qed

lemma flow_rate_always_zero_witness:
  "get_byte_rate 60000 (update_flow (flow_stats_clear\<lparr>stats_byte_count := 9000\<rparr>)
     (update_flow flow_stats_clear (flow_rate_new (replicate 10 5)))) = 0"
  using flow_rate_always_zero [OF rate_update [OF rate_update [OF rate_start]], of "replicate 10 5" 0 60000] by simp

end
