(* ===== verification/Of_Stats_Msg.thy ===== *)
theory Of_Stats_Msg
  imports Of_Stats
begin

text \<open>
  \<open>controller/openflow_messages/of_message_stats_request\<close> and \<open>of_message_stats_reply\<close>: what the controller asks
  the switch, and how it reads the answers. A request class is a record that extends the header; a reply
  class is \<open>of_message_stats_reply\<close> at the type of its payload. \<open>junk\<close> is what an uncleared buffer holds.
\<close>

definition OFPT_STATS_REQUEST :: byte where "OFPT_STATS_REQUEST = 16"
definition OFPT_STATS_REPLY :: byte where "OFPT_STATS_REPLY = 17"

datatype ofp_stats_types = OFPST_DESC | OFPST_FLOW | OFPST_AGGREGATE | OFPST_TABLE | OFPST_PORT | OFPST_QUEUE

primrec stats_code :: "ofp_stats_types \<Rightarrow> 16 word" where
  "stats_code OFPST_DESC = 0"
| "stats_code OFPST_FLOW = 1"
| "stats_code OFPST_AGGREGATE = 2"
| "stats_code OFPST_TABLE = 3"
| "stats_code OFPST_PORT = 4"
| "stats_code OFPST_QUEUE = 5"

section \<open>Requests\<close>

text \<open>The twelve bytes at the start of every request.\<close>

definition stats_request_header :: "'m of_message_scheme \<Rightarrow> 16 word \<Rightarrow> ofp_stats_types \<Rightarrow> byte list" where
  "stats_request_header m size_required t =
     header_bytes (version m) (msg_type m) size_required (xid m) @ be16 (stats_code t) @ be16 0"

definition stats_request_clear :: of_message where
  "stats_request_clear = of_message_clear\<lparr>msg_type := OFPT_STATS_REQUEST\<rparr>"

definition description_request_serialize :: "of_message \<Rightarrow> byte list" where
  "description_request_serialize m = stats_request_header m 12 OFPST_DESC"

definition table_request_serialize :: "of_message \<Rightarrow> byte list" where
  "table_request_serialize m = stats_request_header m 12 OFPST_TABLE"

record of_message_flow_request = of_message +
  fields_to_match :: of_match
  all_tables :: bool
  req_table_id :: byte
  restrict_out_port :: bool
  req_out_port :: "16 word"

definition flow_request_clear :: of_message_flow_request where
  "flow_request_clear = of_message.extend stats_request_clear (of_message_flow_request.fields of_match_clear True 0 False OFPP_NONE)"

text \<open>\<open>clear()\<close> of the aggregate request leaves the flag for all tables.\<close>

definition aggregate_request_clear :: "bool \<Rightarrow> of_message_flow_request" where
  "aggregate_request_clear all = of_message.extend stats_request_clear
     (of_message_flow_request.fields of_match_clear all 0 False OFPP_NONE)"

definition flow_request_serialize :: "of_message_flow_request \<Rightarrow> byte list" where
  "flow_request_serialize m = stats_request_header m 56 OFPST_FLOW @ of_match_serialize (fields_to_match m)
     @ [if all_tables m then 0xff else req_table_id m, 0] @ be16 (if restrict_out_port m then req_out_port m else OFPP_NONE)"

definition aggregate_request_serialize :: "byte \<Rightarrow> of_message_flow_request \<Rightarrow> byte list" where
  "aggregate_request_serialize junk m = stats_request_header m 56 OFPST_AGGREGATE @ of_match_serialize (fields_to_match m)
     @ [if all_tables m then 0xff else req_table_id m, junk] @ be16 (if restrict_out_port m then req_out_port m else OFPP_NONE)"

record of_message_port_request = of_message +
  req_all_ports :: bool
  req_port :: "16 word"

definition port_request_clear :: of_message_port_request where
  "port_request_clear = of_message.extend stats_request_clear (of_message_port_request.fields True 0)"

definition port_request_serialize :: "of_message_port_request \<Rightarrow> byte list" where
  "port_request_serialize m = stats_request_header m 20 OFPST_PORT
     @ be16 (if req_all_ports m then OFPP_NONE else req_port m) @ replicate 6 0"

record of_message_queue_request = of_message_port_request +
  req_all_queues :: bool
  req_queue_id :: "32 word"

definition queue_request_clear :: of_message_queue_request where
  "queue_request_clear = of_message_port_request.extend port_request_clear (of_message_queue_request.fields True 0)"

definition queue_request_serialize :: "byte list \<Rightarrow> of_message_queue_request \<Rightarrow> byte list" where
  "queue_request_serialize junk m = stats_request_header m 20 OFPST_QUEUE
     @ be16 (if req_all_ports m then OFPP_ALL else req_port m) @ take 2 (junk @ [0, 0])
     @ be32 (if req_all_queues m then OFPQ_ALL else req_queue_id m)"

section \<open>Replies\<close>

record 'a of_message_stats_reply = of_message +
  more_to_follow :: bool
  stats_body :: 'a

definition stats_reply_clear :: "'a \<Rightarrow> 'a of_message_stats_reply" where
  "stats_reply_clear body = of_message.extend (of_message_clear\<lparr>msg_type := OFPT_STATS_REPLY\<rparr>) (of_message_stats_reply.fields False body)"

text \<open>The checks that the reply classes share: the header and the subtype.\<close>

definition stats_reply_header :: "ofp_stats_types \<Rightarrow> byte list \<Rightarrow> of_message option" where
  "stats_reply_header t input =
    (case of_message_header input of None \<Rightarrow> None
     | Some h \<Rightarrow> if msg_type h \<noteq> OFPT_STATS_REPLY \<or> length input < 12 then None
         else if of_be16 (chunk 8 2 input) \<noteq> stats_code t then None else Some h)"

definition reply_more :: "byte list \<Rightarrow> bool" where
  "reply_more input = (0 < of_be16 (chunk 10 2 input) AND 1)"

definition stats_reply_of :: "of_message \<Rightarrow> bool \<Rightarrow> 'a \<Rightarrow> 'a of_message_stats_reply" where
  "stats_reply_of h mr body = of_message.extend h (of_message_stats_reply.fields mr body)"

definition description_reply_deserialize ::
  "openflow_switch_description \<Rightarrow> byte list \<Rightarrow> bool \<times> openflow_switch_description of_message_stats_reply" where
  "description_reply_deserialize this input =
    (let fail = (False, stats_reply_clear (switch_description_clear this)) in
     case stats_reply_header OFPST_DESC input of None \<Rightarrow> fail
     | Some h \<Rightarrow> if length input < 12 + 1056 then fail
         else case switch_description_deserialize this (chunk 12 1056 input) of (ok, d) \<Rightarrow>
           if \<not> ok then fail else (True, stats_reply_of h (reply_more input) d))"

definition aggregate_reply_deserialize ::
  "byte list \<Rightarrow> bool \<times> openflow_aggregate_stats of_message_stats_reply" where
  "aggregate_reply_deserialize input =
    (let fail = (False, stats_reply_clear aggregate_clear) in
     if length input < 12 + 24 then fail
     else case stats_reply_header OFPST_AGGREGATE input of None \<Rightarrow> fail
     | Some h \<Rightarrow> (case aggregate_deserialize (chunk 12 24 input) of (ok, a) \<Rightarrow> (ok, stats_reply_of h (reply_more input) a)))"

text \<open>The loop over the flows; each says how long it is. None: the reply is refused.\<close>

function read_flows :: "byte list \<Rightarrow> flow_stats list \<Rightarrow> flow_stats list option res" where
  "read_flows body acc =
    (if body = [] then Inr (Some acc)
     else if length body < 88 then Inr None
     else if length body < unat (of_be16 (chunk 0 2 body)) then Inr None
     else case flow_stats_deserialize (take (unat (of_be16 (chunk 0 2 body))) body) of
         Inl e \<Rightarrow> Inl e
       | Inr (ok, f) \<Rightarrow> if \<not> ok then Inr None
           else read_flows (drop (unat (of_be16 (chunk 0 2 body))) body) (acc @ [f]))"
  by pat_completeness auto
termination
proof (relation "measure (\<lambda>(body, acc). length body)", goal_cases)
  case (2 body acc r ok f)
  then have "flow_stats_deserialize (take (unat (of_be16 (chunk 0 2 body))) body) = Inr (True, f)" by simp
  then have "\<not> length (take (unat (of_be16 (chunk 0 2 body))) body) < 88"
    unfolding flow_stats_deserialize_def by (metis sum.inject(2) prod.inject)
  then have "88 \<le> unat (of_be16 (chunk 0 2 body))" by simp
  with 2 show ?case by auto
qed simp

declare read_flows.simps [simp del]

definition flow_reply_deserialize :: "byte list \<Rightarrow> (bool \<times> flow_stats list of_message_stats_reply) res" where
  "flow_reply_deserialize input =
    (case stats_reply_header OFPST_FLOW input of None \<Rightarrow> Inr (False, stats_reply_clear [])
     | Some h \<Rightarrow>
        if length input - 12 = 0 then Inr (True, stats_reply_of h False [])
        else bindr (read_flows (drop 12 input) []) (\<lambda>r. case r of None \<Rightarrow> Inr (False, stats_reply_clear [])
          | Some fs \<Rightarrow> Inr (True, stats_reply_of h (reply_more input) fs)))"

text \<open>The loops over tables, ports and queues are the same but for the size of an item and how it is read. An
  item has at least one byte, so the first test only serves the termination of the definition.\<close>

function read_fixed :: "nat \<Rightarrow> (byte list \<Rightarrow> (bool \<times> 'a) res) \<Rightarrow> byte list \<Rightarrow> 'a list \<Rightarrow> 'a list option res" where
  "read_fixed n rd body acc =
    (if body = [] \<or> n = 0 then Inr (Some acc)
     else if length body < n then Inr None
     else case rd (take n body) of Inl e \<Rightarrow> Inl e
       | Inr (ok, x) \<Rightarrow> if \<not> ok then Inr None else read_fixed n rd (drop n body) (acc @ [x]))"
  by pat_completeness auto
termination by (relation "measure (\<lambda>(n, rd, body, acc). length body)") auto

declare read_fixed.simps [simp del]

definition table_reply_deserialize :: "byte list \<Rightarrow> (bool \<times> openflow_table_stats list of_message_stats_reply) res" where
  "table_reply_deserialize input =
    (case stats_reply_header OFPST_TABLE input of None \<Rightarrow> Inr (False, stats_reply_clear [])
     | Some h \<Rightarrow> bindr (read_fixed 64 table_stats_deserialize (drop 12 input) []) (\<lambda>r.
         case r of None \<Rightarrow> Inr (False, stats_reply_clear []) | Some ts \<Rightarrow> Inr (True, stats_reply_of h (reply_more input) ts)))"

definition port_reply_deserialize :: "byte list \<Rightarrow> (bool \<times> openflow_port_stats list of_message_stats_reply) res" where
  "port_reply_deserialize input =
    (case stats_reply_header OFPST_PORT input of None \<Rightarrow> Inr (False, stats_reply_clear [])
     | Some h \<Rightarrow> bindr (read_fixed 104 (\<lambda>bs. Inr (port_stats_deserialize bs)) (drop 12 input) []) (\<lambda>r.
         case r of None \<Rightarrow> Inr (False, stats_reply_clear []) | Some ts \<Rightarrow> Inr (True, stats_reply_of h (reply_more input) ts)))"

text \<open>The object that the queues are read into, one after the other, is \<open>single\<close>.\<close>

definition queue_reply_deserialize ::
  "openflow_queue_stats \<Rightarrow> byte list \<Rightarrow> (bool \<times> openflow_queue_stats list of_message_stats_reply) res" where
  "queue_reply_deserialize single input =
    (case stats_reply_header OFPST_QUEUE input of None \<Rightarrow> Inr (False, stats_reply_clear [])
     | Some h \<Rightarrow> bindr (read_fixed 32 (\<lambda>bs. Inr (queue_stats_deserialize single bs)) (drop 12 input) []) (\<lambda>r.
         case r of None \<Rightarrow> Inr (False, stats_reply_clear []) | Some ts \<Rightarrow> Inr (True, stats_reply_of h (reply_more input) ts)))"

section \<open>What the loops read\<close>

text \<open>Reading items of a fixed size is splitting the body: every item of a whole number of items, or a refusal.\<close>

definition items :: "nat \<Rightarrow> 'b list \<Rightarrow> 'b list list" where
  "items n body = map (\<lambda>i. chunk (i * n) n body) [0..<length body div n]"

lemma items_step:
  assumes "0 < n" "n \<le> length body"
  shows "items n body = take n body # items n (drop n body)"
proof -
  have "length body div n = Suc ((length body - n) div n)" using assms by (simp add: le_div_geq)
  moreover have "chunk (Suc i * n) n body = chunk (i * n) n (drop n body)" for i
    by (simp add: chunk_def add.commute)
  ultimately show ?thesis
    by (simp only: items_def upt_conv_Cons [OF zero_less_Suc] list.map length_drop map_Suc_upt [symmetric] map_map comp_def)
      (simp add: chunk_def add.commute)
qed

lemma read_fixed_items:
  assumes "0 < n" "\<And>bs. length bs = n \<Longrightarrow> rd bs = Inr (True, d bs)"
  shows "read_fixed n rd body acc =
    Inr (if length body mod n = 0 then Some (acc @ map d (items n body)) else None)"
proof (induction body arbitrary: acc rule: length_induct)
  case (1 body)
  show ?case
  proof (cases "body = []")
    case True
    then show ?thesis using assms(1) by (simp add: read_fixed.simps items_def)
  next
    case ne: False
    show ?thesis
    proof (cases "length body < n")
      case True
      then show ?thesis using ne assms(1) by (simp add: read_fixed.simps [of n rd body])
    next
      case False
      then have "rd (take n body) = Inr (True, d (take n body))" by (intro assms(2)) simp
      moreover have "length body mod n = length (drop n body) mod n" using False by (simp add: le_mod_geq)
      moreover have "length (drop n body) < length body" using ne assms(1) False by simp
      ultimately show ?thesis
        using 1 ne assms(1) False by (simp add: read_fixed.simps [of n rd body] items_step)
    qed
  qed
qed

text \<open>A port statistics reply with the right header is read as the statistics of every port in turn if its
  body is a whole number of port records, and refused otherwise; it never faults.\<close>

theorem port_reply_read:
  assumes "stats_reply_header OFPST_PORT input = Some h"
  shows "port_reply_deserialize input = Inr
    (if (length input - 12) mod 104 = 0
     then (True, stats_reply_of h (reply_more input) (map (\<lambda>bs. snd (port_stats_deserialize bs)) (items 104 (drop 12 input))))
     else (False, stats_reply_clear []))"
proof -
  have "read_fixed 104 (\<lambda>bs. Inr (port_stats_deserialize bs)) (drop 12 input) [] = Inr (if (length input - 12) mod 104 = 0
      then Some (map (\<lambda>bs. snd (port_stats_deserialize bs)) (items 104 (drop 12 input))) else None)"
    by (subst read_fixed_items [where d = "\<lambda>bs. snd (port_stats_deserialize bs)"]) (simp_all add: port_stats_deserialize_def Let_def)
  then show ?thesis by (simp add: port_reply_deserialize_def assms)
qed

lemma port_reply_read_witness:
  "fst (projr (port_reply_deserialize (header_bytes 1 OFPT_STATS_REPLY 20 7 @ be16 4 @ be16 0 @ replicate 8 0))) = False"
proof -
  have "stats_reply_header OFPST_PORT (header_bytes 1 OFPT_STATS_REPLY 20 7 @ be16 4 @ be16 0 @ replicate 8 0) =
      Some \<lparr>version = 1, msg_type = OFPT_STATS_REPLY, msg_size = 20, xid = 7\<rparr>"
    by (simp add: stats_reply_header_def of_message_header_bytes OFPT_STATS_REPLY_def OFPT_QUEUE_GET_CONFIG_REPLY_def
        field_simps_rules)
  from port_reply_read [OF this] show ?thesis by simp
qed

definition flow_survives :: "flow_stats \<Rightarrow> bool" where
  "flow_survives f = (list_all (\<lambda>a. get_action_type a \<noteq> VENDOR) (action_list (flow_desc f))
     \<and> 88 + sum_list (map action_size (action_list (flow_desc f))) < 65536
     \<and> of_match_deserialize (of_match_serialize (criteria (flow_desc f))) = (True, criteria (flow_desc f))
     \<and> list_all survives (action_list (flow_desc f)))"

text \<open>C30. The statistics of a list of flows, written one after the other behind the header of a reply, are
  read back as that list, in order, if every flow survives on its own: its criteria and actions are read as they
  were written, and it fits the length field.\<close>

theorem flow_reply_roundtrip:
  assumes "\<forall>f \<in> set fs. flow_survives f" "\<And>n. length (fresh n) = n" "fs \<noteq> []"
  shows "\<exists>bss. map (flow_stats_serialize fresh) fs = map Inr bss \<and>
    flow_reply_deserialize (header_bytes 1 OFPT_STATS_REPLY len x @ be16 (stats_code OFPST_FLOW) @ be16 flags @ concat bss)
      = Inr (True, stats_reply_of \<lparr>version = 1, msg_type = OFPT_STATS_REPLY, msg_size = len, xid = x\<rparr> (0 < flags AND 1) fs)"
proof -
  have one: "\<exists>bs. flow_stats_serialize fresh f = Inr bs \<and> 88 \<le> length bs \<and> chunk 0 2 bs = be16 (word_of_nat (length bs))
      \<and> length bs < 65536 \<and> flow_stats_deserialize bs = Inr (True, f)" if "flow_survives f" for f
    using flow_stats_written [OF _ _ assms(2), of f] that unfolding flow_survives_def by blast
  have "\<exists>bss. map (flow_stats_serialize fresh) fs = map Inr bss \<and>
      (\<forall>acc. read_flows (concat bss) acc = Inr (Some (acc @ fs))) \<and> (fs \<noteq> [] \<longrightarrow> concat bss \<noteq> [])"
    using assms(1)
  proof (induction fs)
    case Nil
    then show ?case by (simp add: read_flows.simps)
  next
    case (Cons f fs)
    then obtain bss where bss: "map (flow_stats_serialize fresh) fs = map Inr bss"
      "\<forall>acc. read_flows (concat bss) acc = Inr (Some (acc @ fs))" by auto
    from one [of f] Cons.prems obtain bs where bs: "flow_stats_serialize fresh f = Inr bs" "88 \<le> length bs"
      "chunk 0 2 bs = be16 (word_of_nat (length bs))" "length bs < 65536" "flow_stats_deserialize bs = Inr (True, f)" by auto
    have "unat (word_of_nat (length bs) :: 16 word) = length bs" using bs(4) by (simp only: unat_of_nat) simp
    then have "unat (of_be16 (chunk 0 2 (bs @ concat bss))) = length bs"
      using bs(2,3) by (simp add: chunk_append_left)
    moreover have "bs \<noteq> []" using bs(2) by auto
    ultimately have "read_flows (bs @ concat bss) acc = read_flows (concat bss) (acc @ [f])" for acc
      using bs(2,5) by (simp add: read_flows.simps [of "bs @ concat bss"])
    with bss bs(1,2) show ?case by (intro exI [of _ "bs # bss"]) auto
  qed
  then obtain bss where bss: "map (flow_stats_serialize fresh) fs = map Inr bss" "fs \<noteq> [] \<longrightarrow> concat bss \<noteq> []"
    "\<forall>acc. read_flows (concat bss) acc = Inr (Some (acc @ fs))" by blast
  then have read: "concat bss \<noteq> []" "read_flows (concat bss) [] = Inr (Some fs)"
    using assms(3) by blast (simp add: bss(3))
  let ?input = "header_bytes 1 OFPT_STATS_REPLY len x @ be16 (stats_code OFPST_FLOW) @ be16 flags @ concat bss"
  have "stats_reply_header OFPST_FLOW ?input = Some \<lparr>version = 1, msg_type = OFPT_STATS_REPLY, msg_size = len, xid = x\<rparr>"
    by (simp add: stats_reply_header_def of_message_header_bytes OFPT_STATS_REPLY_def OFPT_QUEUE_GET_CONFIG_REPLY_def
        field_simps_rules)
  moreover have "drop 12 ?input = concat bss" by simp
  moreover have "reply_more ?input = (0 < flags AND 1)" by (simp add: reply_more_def field_simps_rules)
  moreover have "length ?input - 12 \<noteq> 0" using read(1) by simp
  ultimately have "flow_reply_deserialize ?input =
      Inr (True, stats_reply_of \<lparr>version = 1, msg_type = OFPT_STATS_REPLY, msg_size = len, xid = x\<rparr> (0 < flags AND 1) fs)"
    unfolding flow_reply_deserialize_def using read(2) by auto
  with bss(1) show ?thesis by blast
qed

lemma flow_reply_roundtrip_witness:
  "\<exists>bs. flow_stats_serialize (\<lambda>n. replicate n 0) flow_stats_clear = Inr bs \<and>
    flow_reply_deserialize (header_bytes 1 OFPT_STATS_REPLY 100 7 @ be16 1 @ be16 0 @ bs)
      = Inr (True, stats_reply_of \<lparr>version = 1, msg_type = OFPT_STATS_REPLY, msg_size = 100, xid = 7\<rparr> False [flow_stats_clear])"
proof -
  have s: "\<forall>f \<in> set [flow_stats_clear]. flow_survives f"
    by (simp add: flow_survives_def flow_stats_clear_def flow_description_clear_def of_match_roundtrip_iff of_match_clear_def)
  have f: "length (replicate n 0 :: byte list) = n" for n by simp
  from flow_reply_roundtrip [OF s f, of 100 7 0] show ?thesis
    by (auto simp: map_eq_Cons_conv)
qed

end
