(* ===== verification/Of_Control_Msg.thy ===== *)
theory Of_Control_Msg
  imports Of_Stats_Msg
begin

text \<open>
  The remaining messages of \<open>controller/openflow_messages\<close>: errors, vendor messages, packets in and out, port
  modification, the short requests, and the factory that reads whatever the switch sends
  (\<open>of_message_factory\<close>).
\<close>

definition OFPT_VENDOR :: byte where "OFPT_VENDOR = 4"
definition OFPT_FEATURES_REQUEST :: byte where "OFPT_FEATURES_REQUEST = 5"
definition OFPT_GET_CONFIG_REQUEST :: byte where "OFPT_GET_CONFIG_REQUEST = 7"
definition OFPT_PACKET_IN :: byte where "OFPT_PACKET_IN = 10"
definition OFPT_PORT_MOD :: byte where "OFPT_PORT_MOD = 15"
definition OFPT_QUEUE_GET_CONFIG_REQUEST :: byte where "OFPT_QUEUE_GET_CONFIG_REQUEST = 20"

section \<open>Short requests\<close>

definition features_request_clear :: of_message where
  "features_request_clear = \<lparr>version = 1, msg_type = OFPT_FEATURES_REQUEST, msg_size = 8, xid = 0\<rparr>"

definition features_request_serialize :: "of_message \<Rightarrow> byte list" where
  "features_request_serialize m = of_message_serialize m"

definition get_config_request_clear :: of_message where
  "get_config_request_clear = of_message_clear\<lparr>msg_type := OFPT_GET_CONFIG_REQUEST\<rparr>"

definition get_config_request_serialize :: "of_message \<Rightarrow> byte list" where
  "get_config_request_serialize m = of_message_serialize m"

record of_message_queue_config_request = of_message +
  queue_config_port :: "16 word"

definition queue_config_request_clear :: of_message_queue_config_request where
  "queue_config_request_clear = \<lparr>version = 1, msg_type = OFPT_QUEUE_GET_CONFIG_REQUEST, msg_size = 12, xid = 0,
     queue_config_port = 0\<rparr>"

definition queue_config_request_serialize :: "byte list \<Rightarrow> of_message_queue_config_request \<Rightarrow> byte list" where
  "queue_config_request_serialize junk m =
     header_bytes (version m) (msg_type m) 12 (xid m) @ be16 (queue_config_port m) @ take 2 (junk @ [0, 0])"

section \<open>Port modification\<close>

record of_message_port_modification = of_message +
  mod_port_no :: "16 word"
  mod_port_mac :: mac_address
  new_config :: openflow_port_config
  change_features :: bool
  mod_features :: of_port_features

definition port_mod_clear :: of_message_port_modification where
  "port_mod_clear = of_message.extend (of_message_clear\<lparr>msg_type := OFPT_PORT_MOD\<rparr>)
     (of_message_port_modification.fields OFPP_NONE mac_nil port_config_clear False port_features_clear)"

text \<open>Every flag is put in the mask of flags to change; the last four bytes are not written.\<close>

definition port_mod_serialize :: "byte list \<Rightarrow> of_message_port_modification \<Rightarrow> byte list" where
  "port_mod_serialize junk m = header_bytes (version m) (msg_type m) 32 (xid m) @ be16 (mod_port_no m)
     @ mac_octets (mod_port_mac m) @ be32 (port_config_get (new_config m)) @ be32 (- 1)
     @ be32 (if change_features m then port_features_get (mod_features m) else 0) @ take 4 (junk @ [0, 0, 0, 0])"

section \<open>Vendor messages\<close>

record of_message_vendor = of_message +
  vendor :: "32 word"
  request :: "byte list"

text \<open>\<open>clear()\<close> leaves the request.\<close>

definition vendor_message_clear :: "of_message_vendor \<Rightarrow> of_message_vendor" where
  "vendor_message_clear m = m\<lparr>version := 1, msg_type := OFPT_VENDOR, msg_size := 8, xid := 0, vendor := 0\<rparr>"

text \<open>\<open>ptr_offset_mutable\<close> aborts at the end of the buffer, where an empty request would go.\<close>

definition vendor_message_serialize :: "of_message_vendor \<Rightarrow> byte list res" where
  "vendor_message_serialize m =
    (let size_required = u32 (12 + length (request m)) in
     if size_required < 12 + length (request m) then Inl OutOfBounds
     else if size_required \<le> 12 then Inl Aborted
     else Inr (header_bytes (version m) (msg_type m) (word_of_nat size_required) (xid m) @ be32 (vendor m) @ request m))"

text \<open>The structure of twelve bytes is copied from an input that may have eight.\<close>

definition vendor_message_deserialize :: "of_message_vendor \<Rightarrow> byte list \<Rightarrow> (bool \<times> of_message_vendor) res" where
  "vendor_message_deserialize this input =
    (case of_message_header input of None \<Rightarrow> Inr (False, vendor_message_clear this)
     | Some h \<Rightarrow>
        if unat (msg_size h) \<noteq> length input then Inr (False, vendor_message_clear this)
        else bindr (fetch 8 4 input) (\<lambda>v. Inr (True, of_message.extend h (of_message_vendor.fields (of_be32 v)
          (if 12 < length input then drop 12 input else request this)))))"

section \<open>Errors\<close>

record of_message_error = of_message +
  base_error :: string
  extended_error :: string
  error_data :: "byte list"

definition error_clear :: of_message_error where
  "error_clear = of_message.extend (of_message_clear\<lparr>msg_type := OFPT_ERROR\<rparr>) (of_message_error.fields [] [] [])"

text \<open>The name of a code: the list gives the codes from 0 on.\<close>

definition error_code_name :: "string list \<Rightarrow> 16 word \<Rightarrow> string" where
  "error_code_name names c = (if unat c < length names then names ! unat c else ''UNKNOWN'')"

definition bad_request_names :: "string list" where
  "bad_request_names = [''VERSION_NOT_SUPPORTED'', ''BAD_TYPE'', ''STATS_REQUEST_TYPE_NOT_SUPPORTED'', ''VENDOR_NOT_SUPPORTED'',
     ''VENDOR_SUBTYPE_NOT_SUPPORTED'', ''PERMISSIONS_ERROR'', ''BAD_LENGTH'', ''BUFFER_ALREADY_USED'', ''UNKNOWN_BUFFER'']"

definition bad_action_names :: "string list" where
  "bad_action_names = [''BAD_TYPE'', ''BAD_LENGTH'', ''UNKNOWN_VENDOR_ID'', ''UNKNOWN_VENDOR_ACTION'', ''INVALID_OUTPUT_PORT'',
     ''BAD_ARGUMENT'', ''PERMISSIONS_ERROR'', ''TOO_MANY_ACTIONS'', ''INVALID_OUTPUT_QUEUE'']"

definition flow_mod_failed_names :: "string list" where
  "flow_mod_failed_names = [''ALL_TABLES_FULL'', ''OVERLAP_FLOW'', ''PERMISSIONS_ERROR'', ''NONZERO_IDLE_OR_HARD_TIMEOUT'',
     ''BAD_COMMAND'', ''UNSUPPORTED_ACTION_LIST'']"

text \<open>The two texts of a type and a code. The last three types leave the first text empty; the first code of
  the last one has no name.\<close>

definition error_texts :: "16 word \<Rightarrow> 16 word \<Rightarrow> string \<times> string" where
  "error_texts t c =
    (if t = 0 then (''HELLO_FAILED'', error_code_name [''NO_COMPATIBLE_VERSION'', ''PERMISSIONS_ERROR''] c)
     else if t = 1 then (''BAD_REQUEST'', error_code_name bad_request_names c)
     else if t = 2 then (''BAD_ACTION'', error_code_name bad_action_names c)
     else if t = 3 then ([], error_code_name flow_mod_failed_names c)
     else if t = 4 then ([], error_code_name [''BAD_PORT'', ''BAD_HARDWARE_ADDRESS''] c)
     else if t = 5 then ([], error_code_name [''UNKNOWN'', ''BAD_QUEUE'', ''PERMISSIONS_ERROR''] c)
     else (''UNKNOWN'', ''UNKNOWN''))"

text \<open>The length of the data comes from the size field, in 16 bits, not from the input.\<close>

definition error_deserialize :: "byte list \<Rightarrow> (bool \<times> of_message_error) res" where
  "error_deserialize input =
    (case of_message_header input of None \<Rightarrow> Inr (False, error_clear)
     | Some h \<Rightarrow>
        if length input < 12 then Inr (False, of_message.extend h (of_message_error.fields [] [] []))
        else case error_texts (of_be16 (chunk 8 2 input)) (of_be16 (chunk 10 2 input)) of (base, ext) \<Rightarrow>
          bindr (fetch 12 (unat (msg_size h - 12)) input) (\<lambda>d.
            Inr (True, of_message.extend h (of_message_error.fields base ext d))))"

section \<open>Packets in\<close>

record of_message_packet_in = of_message +
  pi_buffer_id :: "32 word"
  pi_in_port :: "16 word"
  actual_message_len :: "16 word"
  summarized :: bool
  reason_no_match :: bool
  reason_action :: bool
  pkt_data :: "byte list"

text \<open>\<open>clear()\<close> leaves the header, the length and the flag for a shortened packet.\<close>

definition packet_in_clear :: "of_message_packet_in \<Rightarrow> of_message_packet_in" where
  "packet_in_clear m = m\<lparr>pi_buffer_id := 0, pi_in_port := 0, reason_no_match := False, reason_action := False, pkt_data := []\<rparr>"

text \<open>The header of 17 bytes is read from an input that may have eight, and the packet is copied with the
  length it has in the switch, so it never has another size than that.\<close>

definition packet_in_deserialize :: "of_message_packet_in \<Rightarrow> byte list \<Rightarrow> (bool \<times> of_message_packet_in) res" where
  "packet_in_deserialize this input =
    (case of_message_header input of None \<Rightarrow> Inr (False, packet_in_clear this)
     | Some h \<Rightarrow>
        let m = (packet_in_clear this)\<lparr>version := version h, msg_type := msg_type h, msg_size := msg_size h, xid := xid h\<rparr> in
        if msg_type h \<noteq> OFPT_PACKET_IN then Inr (False, m)
        else bindr (fetch 8 9 input) (\<lambda>_.
          let len = of_be16 (chunk 12 2 input) in
          bindr (fetch 18 (unat len) input) (\<lambda>d.
            Inr (True, m\<lparr>pi_buffer_id := of_be32 (chunk 8 4 input), actual_message_len := len,
              pi_in_port := of_be16 (chunk 14 2 input), reason_no_match := (input ! 16 = 0),
              reason_action := (input ! 16 = 1), pkt_data := d, summarized := (length d \<noteq> unat len)\<rparr>))))"

section \<open>Packets out\<close>

record of_message_packet_out = of_message +
  po_buffer_id :: "32 word"
  po_use_port :: bool
  po_in_port :: "16 word"
  po_actions :: openflow_action_list
  packet_data :: "byte list"

definition packet_out_new :: of_message_packet_out where
  "packet_out_new = of_message.extend (of_message_clear\<lparr>msg_type := OFPT_PACKET_OUT\<rparr>)
     (of_message_packet_out.fields 0xffffffff False 0 [] [])"

definition packet_out_clear :: "of_message_packet_out \<Rightarrow> of_message_packet_out" where
  "packet_out_clear m = m\<lparr>msg_type := OFPT_PACKET_OUT, po_buffer_id := 0xffffffff, po_use_port := False, po_in_port := 0,
     po_actions := [], packet_data := []\<rparr>"

text \<open>\<open>ptr_offset_mutable\<close> aborts if there is nothing after the header. \<open>fresh\<close> is what the uncleared buffer
  holds under the actions.\<close>

definition packet_out_serialize :: "(nat \<Rightarrow> byte list) \<Rightarrow> of_message_packet_out \<Rightarrow> byte list res" where
  "packet_out_serialize fresh m =
    (let action_list_len = get_serialization_size (po_actions m);
         size_required = u32 (16 + action_list_len + length (packet_data m)) in
     if size_required < 16 + action_list_len + length (packet_data m) then Inl OutOfBounds
     else if size_required \<le> 16 then Inl Aborted
     else bindr (action_list_serialize fresh (po_actions m)) (\<lambda>actions.
       Inr (header_bytes (version m) (msg_type m) (word_of_nat size_required) (xid m) @ be32 (po_buffer_id m)
         @ be16 (if po_use_port m then po_in_port m else OFPP_NONE) @ be16 (word_of_nat action_list_len)
         @ actions @ packet_data m)))"

section \<open>The factory\<close>

datatype any_message =
    Hello of_message
  | Error of_message_error
  | Echo_Request of_message_echo
  | Echo_Reply of_message_echo
  | Vendor of_message_vendor
  | Features_Reply of_message_features_reply
  | Get_Config_Reply of_message_get_config_reply
  | Packet_In of_message_packet_in
  | Flow_Removed of_message_flow_removed
  | Port_Status of_message_port_status
  | Description_Reply "openflow_switch_description of_message_stats_reply"
  | Flow_Reply "flow_stats list of_message_stats_reply"
  | Aggregate_Reply "openflow_aggregate_stats of_message_stats_reply"
  | Table_Reply "openflow_table_stats list of_message_stats_reply"
  | Port_Reply "openflow_port_stats list of_message_stats_reply"
  | Queue_Reply "openflow_queue_stats list of_message_stats_reply"
  | Barrier_Reply of_message

definition read_as :: "('a \<Rightarrow> any_message) \<Rightarrow> (bool \<times> 'a) res \<Rightarrow> any_message option res" where
  "read_as con r = bindr r (\<lambda>(ok, m). Inr (if \<not> ok then None else Some (con m)))"

text \<open>Fresh objects; a field that no constructor sets is arbitrary, and set before a message is returned.\<close>

definition vendor_new :: of_message_vendor where
  "vendor_new = of_message.extend (of_message_clear\<lparr>msg_type := OFPT_VENDOR\<rparr>) (of_message_vendor.fields 0 [])"

definition packet_in_new :: of_message_packet_in where
  "packet_in_new = of_message.extend of_message_clear (of_message_packet_in.fields 0 0 0 False False False [])"

definition description_new :: openflow_switch_description where
  "description_new = \<lparr>manufacturer = [], hardware_description = [], software_description = [], serial_number = [],
     general_description = []\<rparr>"

definition queue_stats_new :: openflow_queue_stats where
  "queue_stats_new = \<lparr>qs_all_ports = False, qs_port = 0, qs_all_queues = False, qs_queue_id = 0, qs_tx_bytes = 0,
     qs_tx_packets = 0, qs_tx_errors = 0\<rparr>"

definition deserialize_stats_reply :: "byte list \<Rightarrow> any_message option res" where
  "deserialize_stats_reply input =
    (if length input < 12 then Inl Aborted
     else let t = of_be16 (chunk 8 2 input) in
       if t = stats_code OFPST_DESC then read_as Description_Reply (Inr (description_reply_deserialize description_new input))
       else if t = stats_code OFPST_FLOW then read_as Flow_Reply (flow_reply_deserialize input)
       else if t = stats_code OFPST_AGGREGATE then read_as Aggregate_Reply (Inr (aggregate_reply_deserialize input))
       else if t = stats_code OFPST_TABLE then read_as Table_Reply (table_reply_deserialize input)
       else if t = stats_code OFPST_PORT then read_as Port_Reply (port_reply_deserialize input)
       else if t = stats_code OFPST_QUEUE then read_as Queue_Reply (queue_reply_deserialize queue_stats_new input)
       else Inl Aborted)"

text \<open>\<open>deserialize_message\<close>; None is a null pointer. Flow modifications are read as flow removals and port
  modifications as port status messages.\<close>

definition deserialize_message :: "byte list \<Rightarrow> any_message option res" where
  "deserialize_message input =
    (case of_message_header input of None \<Rightarrow> Inr None
     | Some h \<Rightarrow> let t = msg_type h in
       if t = OFPT_HELLO then read_as Hello (Inr (hello_deserialize input))
       else if t = OFPT_ERROR then read_as Error (error_deserialize input)
       else if t = OFPT_ECHO_REQUEST then read_as Echo_Request (echo_request_deserialize input)
       else if t = OFPT_ECHO_REPLY then read_as Echo_Reply (echo_reply_deserialize input)
       else if t = OFPT_VENDOR then read_as Vendor (vendor_message_deserialize vendor_new input)
       else if t = OFPT_FEATURES_REQUEST then Inl Aborted
       else if t = OFPT_FEATURES_REPLY then read_as Features_Reply (features_reply_deserialize input)
       else if t = OFPT_GET_CONFIG_REQUEST then Inl Aborted
       else if t = OFPT_GET_CONFIG_REPLY then read_as Get_Config_Reply (Inr (get_config_reply_deserialize input))
       else if t = OFPT_SET_CONFIG then Inl Aborted
       else if t = OFPT_PACKET_IN then read_as Packet_In (packet_in_deserialize packet_in_new input)
       else if t = OFPT_FLOW_REMOVED \<or> t = OFPT_FLOW_MOD
       then read_as Flow_Removed (flow_removed_deserialize of_message_clear input)
       else if t = OFPT_PORT_STATUS \<or> t = OFPT_PORT_MOD
       then read_as Port_Status (port_status_deserialize (port_status_clear openflow_port_new) input)
       else if t = OFPT_PACKET_OUT then Inl Aborted
       else if t = OFPT_STATS_REQUEST then Inl Aborted
       else if t = OFPT_STATS_REPLY then deserialize_stats_reply input
       else if t = OFPT_BARRIER_REQUEST then Inl Aborted
       else if t = OFPT_BARRIER_REPLY then read_as Barrier_Reply (Inr (barrier_reply_deserialize input))
       else if t = OFPT_QUEUE_GET_CONFIG_REQUEST then Inl Aborted
       else if t = OFPT_QUEUE_GET_CONFIG_REPLY then Inl Aborted
       else Inr None)"

lemmas ofpt_codes = ofpt_defs OFPT_VENDOR_def OFPT_FEATURES_REQUEST_def OFPT_GET_CONFIG_REQUEST_def OFPT_PACKET_IN_def
  OFPT_PORT_MOD_def OFPT_QUEUE_GET_CONFIG_REQUEST_def OFPT_STATS_REQUEST_def OFPT_STATS_REPLY_def
  OFPT_FEATURES_REPLY_def OFPT_GET_CONFIG_REPLY_def OFPT_SET_CONFIG_def OFPT_PORT_STATUS_def

lemma bindr_Inl_iff: "bindr m f = Inl e \<longleftrightarrow> m = Inl e \<or> (\<exists>x. m = Inr x \<and> f x = Inl e)"
  by (cases m) auto

lemma read_as_abort: "read_as con r = Inl e \<longleftrightarrow> r = Inl e"
  by (cases r) (auto simp: read_as_def)

lemma fetch_not_abort: "bindr (fetch off n input) f = Inl Aborted \<longleftrightarrow> off + n \<le> length input \<and> f (chunk off n input) = Inl Aborted"
  by (cases "off + n \<le> length input") simp_all

text \<open>What makes a reader call \<open>abort()\<close>.\<close>

lemma reader_aborts:
  "error_deserialize input \<noteq> Inl Aborted" "packet_in_deserialize pi input \<noteq> Inl Aborted"
  "vendor_message_deserialize v input \<noteq> Inl Aborted" "flow_removed_deserialize this input \<noteq> Inl Aborted"
  "port_status_deserialize ps input \<noteq> Inl Aborted"
  by (auto simp: error_deserialize_def packet_in_deserialize_def vendor_message_deserialize_def flow_removed_deserialize_def
      port_status_deserialize_def fetch_not_abort Let_def split: option.splits prod.splits)

lemma echo_aborts:
  "echo_deserialize c input = Inl Aborted \<longleftrightarrow> (\<exists>h. of_message_header input = Some h
     \<and> length input < unat (ucast (msg_size h) - 8 :: 32 word))"
  by (auto simp: echo_deserialize_def Let_def split: option.splits)

lemma read_ports_no_abort: "read_ports n c input \<noteq> Inl Aborted"
proof (induction n arbitrary: c)
  case (Suc n)
  then show ?case by (cases "read_ports n (Suc c) input") (auto simp: fetch_not_abort)
qed simp

lemma features_reply_aborts:
  "features_reply_deserialize input = Inl Aborted \<longleftrightarrow> (\<exists>h. of_message_header input = Some h
     \<and> msg_type h = OFPT_FEATURES_REPLY \<and> u32 (size_t_minus (unat (msg_size h)) 32) mod 48 = 0 \<and> length input < 32)"
  by (auto simp: features_reply_deserialize_def bindr_Inl_iff read_ports_no_abort split: option.splits)

lemma read_fixed_no_abort:
  "(\<And>bs. rd bs \<noteq> Inl Aborted) \<Longrightarrow> read_fixed n rd body acc \<noteq> Inl Aborted"
proof (induction n rd body acc rule: read_fixed.induct)
  case (1 n rd body acc)
  then show ?case
    by (cases "rd (take n body)") (auto simp: read_fixed.simps [of n rd body acc] split: prod.splits)
qed

lemma stats_reply_aborts:
  "table_reply_deserialize input \<noteq> Inl Aborted" "port_reply_deserialize input \<noteq> Inl Aborted"
  "queue_reply_deserialize q input \<noteq> Inl Aborted"
proof -
  have "table_stats_deserialize bs \<noteq> Inl Aborted" for bs by (simp add: table_stats_deserialize_def Let_def)
  then show "table_reply_deserialize input \<noteq> Inl Aborted" "port_reply_deserialize input \<noteq> Inl Aborted"
    "queue_reply_deserialize q input \<noteq> Inl Aborted"
    unfolding table_reply_deserialize_def port_reply_deserialize_def queue_reply_deserialize_def
    by (auto simp: bindr_Inl_iff read_fixed_no_abort split: option.splits)
qed

section \<open>Flow statistics, byte by byte\<close>

text \<open>Actions that are read over: \<open>reads_actions bs rest\<close> says that \<open>bs\<close> is a row of actions, given by their bytes, and what
  is left. Eight bytes, with the types for output, VLAN id, VLAN priority, no VLAN and type of service; sixteen, with the
  types for the two hardware addresses and for enqueuing. The last six bytes of a hardware address action are not looked at, so
  at the end of the input they may be missing, in part or all.\<close>

inductive reads_actions :: "byte list \<Rightarrow> byte list \<Rightarrow> bool" where
  reads_none: "reads_actions bs bs"
| reads_short: "t \<in> {0, 1, 2, 3, 8} \<Longrightarrow> length arg = 4 \<Longrightarrow> reads_actions bs rest \<Longrightarrow>
    reads_actions (be16 t @ be16 8 @ arg @ bs) rest"
| reads_long: "t \<in> {4, 5, 11} \<Longrightarrow> length arg = 12 \<Longrightarrow> reads_actions bs rest \<Longrightarrow>
    reads_actions (be16 t @ be16 16 @ arg @ bs) rest"
| reads_cut: "t \<in> {4, 5} \<Longrightarrow> 6 \<le> length arg \<Longrightarrow> length arg < 12 \<Longrightarrow> reads_actions (be16 t @ be16 16 @ arg) []"

text \<open>Bytes that are read as actions to the end, where fewer than eight may be left over, but not right from the start; and
  bytes in which known actions are followed by the header of a vendor action, of type 65535.\<close>

definition readable_actions :: "byte list \<Rightarrow> bool" where
  "readable_actions bs = (bs = [] \<or> 8 \<le> length bs \<and> (\<exists>rest. reads_actions bs rest \<and> length rest < 8))"

definition vendor_inside :: "byte list \<Rightarrow> bool" where
  "vendor_inside bs = (\<exists>arg. reads_actions bs (be16 0xffff @ arg) \<and> 6 \<le> length arg)"

text \<open>A record of a flow: its length in 16 bits, 86 bytes and the actions.\<close>

definition flow_record :: "byte list \<Rightarrow> byte list \<Rightarrow> bool" where
  "flow_record r actions = (\<exists>n fixed. r = be16 n @ fixed @ actions \<and> length fixed = 86 \<and> unat n = length r)"

text \<open>Records with readable actions, then one with a vendor action, then anything.\<close>

definition vendor_flow_inside :: "byte list \<Rightarrow> bool" where
  "vendor_flow_inside body = (\<exists>rs r acts rest. body = concat rs @ r @ rest \<and> (\<forall>x \<in> set rs. \<exists>as. flow_record x as \<and> readable_actions as)
     \<and> flow_record r acts \<and> vendor_inside acts)"

lemma be16_of_be16: "length bs = 2 \<Longrightarrow> be16 (of_be16 bs) = bs"
  using be_bytes_of_bytes [of bs, where ?'a = 16] by (simp add: be16_def of_be16_def)

lemma header_split: "4 \<le> length bs \<Longrightarrow> bs = be16 (hdr_type bs) @ be16 (hdr_len bs) @ drop 4 bs"
proof -
  assume "4 \<le> length bs"
  then have "bs = take 2 bs @ take 2 (drop 2 bs) @ drop 4 bs" by (metis append_take_drop_id drop_drop numeral_Bit0)
  with \<open>4 \<le> length bs\<close> show ?thesis by (simp add: hdr_type_def hdr_len_def be16_of_be16 chunk_def)
qed

lemmas action_readers =
  output_deserialize_def enqueue_deserialize_def vlan_id_deserialize_def vlan_pcp_deserialize_def strip_vlan_deserialize_def
  mac_action_deserialize_def ip_action_deserialize_def tos_deserialize_def tcpudp_deserialize_def vendor_deserialize_def

text \<open>What one step of the reader of actions does, in bytes.\<close>

lemma hdr_type_take: "8 \<le> length bs \<Longrightarrow> hdr_type (take 8 bs) = hdr_type bs"
  by (simp add: hdr_type_def chunk_def)

lemma action_step_vendor:
  "8 \<le> length bs \<Longrightarrow> deserialize_as (infer_type (take 8 bs)) bs = Some (Inl Aborted) \<longleftrightarrow> hdr_type bs = 0xffff"
  unfolding infer_type_take infer_type_def Let_def hdr_type_def [symmetric]
  by (auto simp: ofpat_defs action_readers fetch_def Let_def hdr_type_take split: if_splits)

lemma action_step_header:
  assumes "8 \<le> length bs" "deserialize_as (infer_type (take 8 bs)) bs = Some (Inr (True, a))"
  shows "hdr_type bs \<in> {0, 1, 2, 3, 8} \<and> hdr_len bs = 8 \<and> action_size a = 8
    \<or> hdr_type bs \<in> {4, 5} \<and> hdr_len bs = 16 \<and> action_size a = 16 \<and> 10 \<le> length bs
    \<or> hdr_type bs = 11 \<and> hdr_len bs = 16 \<and> action_size a = 16 \<and> 16 \<le> length bs"
  using assms unfolding infer_type_take infer_type_def Let_def hdr_type_def [symmetric]
  by (auto simp: ofpat_defs action_readers fetch_def truth16_def Let_def hdr_type_take split: if_splits)

lemma infer_type_hdr:
  "8 \<le> length bs \<Longrightarrow> hdr_type bs = t \<Longrightarrow> infer_type (take 8 bs) = (if t = 0 then OUTPUT_TO_PORT else if t = 11 then ENQUEUE
     else if t = 1 then SET_VLAN_ID else if t = 2 then SET_VLAN_PCP else if t = 3 then STRIP_VLAN
     else if t = 4 \<or> t = 5 then SET_DL_ADDR else if t = 6 \<or> t = 7 then SET_NW_ADDR else if t = 8 then SET_IP_TOS
     else if t = 9 \<or> t = 10 then SET_TCPUDP_PORT else if t = 0xffff then VENDOR else UNKNOWN)"
  by (simp add: infer_type_def Let_def hdr_type_take ofpat_defs flip: hdr_type_def)

lemma action_step_short:
  assumes "8 \<le> length bs" "hdr_type bs \<in> {0, 1, 2, 3, 8}" "hdr_len bs = 8"
  shows "\<exists>a. deserialize_as (infer_type (take 8 bs)) bs = Some (Inr (True, a)) \<and> action_size a = 8"
proof -
  consider "hdr_type bs = 0" | "hdr_type bs = 1" | "hdr_type bs = 2" | "hdr_type bs = 3" | "hdr_type bs = 8" using assms(2) by blast
  then show ?thesis
    by cases (simp_all add: infer_type_hdr [OF assms(1)] action_readers ofpat_defs assms not_less Let_def)
qed

lemma action_step_long:
  assumes "8 \<le> length bs" "hdr_type bs \<in> {4, 5} \<and> 10 \<le> length bs \<or> hdr_type bs = 11 \<and> 16 \<le> length bs" "hdr_len bs = 16"
  shows "\<exists>a. deserialize_as (infer_type (take 8 bs)) bs = Some (Inr (True, a)) \<and> action_size a = 16"
proof -
  consider "hdr_type bs = 4" "10 \<le> length bs" | "hdr_type bs = 5" "10 \<le> length bs" | "hdr_type bs = 11" "16 \<le> length bs"
    using assms(2) by blast
  then show ?thesis
    by cases (simp_all add: infer_type_hdr [OF assms(1)] action_readers ofpat_defs assms not_less)
qed

lemma deserialize_known:
  "8 \<le> length bs \<Longrightarrow> \<exists>a. deserialize_as (infer_type (take 8 bs)) bs = Some (Inr (True, a)) \<and> action_size a = k \<Longrightarrow>
    \<exists>acc'. deserialize_actions bs acc = deserialize_actions (drop k bs) acc'"
  by (subst deserialize_actions.simps) auto

lemma reads_known:
  assumes bs: "8 \<le> length bs" and step: "deserialize_as (infer_type (take 8 bs)) bs = Some (Inr (True, a))"
    and rest: "reads_actions (drop (action_size a) bs) rest"
  shows "reads_actions bs rest"
proof -
  let ?t = "hdr_type bs" and ?n = "action_size a"
  have split: "bs = be16 ?t @ be16 (hdr_len bs) @ take (?n - 4) (drop 4 bs) @ drop ?n bs"
    using header_split [of bs] bs append_take_drop_id [of "?n - 4" "drop 4 bs"] action_size_pos [of a] by (simp add: le_diff_conv)
  have known: "?t \<in> {0, 1, 2, 3, 8} \<and> hdr_len bs = 8 \<and> ?n = 8 \<or> ?t \<in> {4, 5} \<and> hdr_len bs = 16 \<and> ?n = 16 \<and> 10 \<le> length bs
    \<or> ?t = 11 \<and> hdr_len bs = 16 \<and> ?n = 16 \<and> 16 \<le> length bs"
    by (rule action_step_header [OF bs step])
  have rest_nil: "rest = []" if "drop ?n bs = []"
    using rest unfolding that by (cases rule: reads_actions.cases) (simp_all add: be16_def)
  consider "hdr_len bs = 8" "?t \<in> {0, 1, 2, 3, 8}" "?n = 8" | "hdr_len bs = 16" "?t \<in> {4, 5, 11}" "?n = 16" "16 \<le> length bs"
    | "hdr_len bs = 16" "?t \<in> {4, 5}" "?n = 16" "10 \<le> length bs" "length bs < 16"
    using known by fastforce
  then show ?thesis
  proof cases
    case 1
    have "reads_actions (be16 ?t @ be16 8 @ take (?n - 4) (drop 4 bs) @ drop ?n bs) rest"
      by (rule reads_short [OF 1(2) _ rest]) (use bs 1 in simp)
    then show ?thesis using split 1(1) by simp
  next
    case 2
    have "reads_actions (be16 ?t @ be16 16 @ take (?n - 4) (drop 4 bs) @ drop ?n bs) rest"
      by (rule reads_long [OF 2(2) _ rest]) (use bs 2 in simp)
    then show ?thesis using split 2(1) by simp
  next
    case 3
    have "reads_actions (be16 ?t @ be16 16 @ take (?n - 4) (drop 4 bs)) []"
      by (rule reads_cut [OF 3(2)]) (use bs 3 in simp_all)
    then show ?thesis using split 3 rest_nil by simp
  qed
qed

lemma deserialize_reads:
  "reads_actions bs rest \<Longrightarrow> \<exists>acc'. deserialize_actions bs acc = deserialize_actions rest acc'"
proof (induction arbitrary: acc rule: reads_actions.induct)
  case (reads_short t arg bs rest)
  let ?bs = "be16 t @ be16 8 @ arg @ bs"
  have "\<exists>acc'. deserialize_actions ?bs acc = deserialize_actions (drop 8 ?bs) acc'"
    by (rule deserialize_known, simp add: reads_short, rule action_step_short)
      (use reads_short in \<open>simp_all add: hdr_type_def hdr_len_def field_simps_rules\<close>)
  moreover have "drop 8 ?bs = bs" using reads_short(2) by simp
  ultimately show ?case using reads_short.IH by metis
next
  case (reads_long t arg bs rest)
  let ?bs = "be16 t @ be16 16 @ arg @ bs"
  have "\<exists>acc'. deserialize_actions ?bs acc = deserialize_actions (drop 16 ?bs) acc'"
    by (rule deserialize_known, simp add: reads_long, rule action_step_long)
      (use reads_long in \<open>auto simp add: hdr_type_def hdr_len_def field_simps_rules\<close>)
  moreover have "drop 16 ?bs = bs" using reads_long(2) by simp
  ultimately show ?case using reads_long.IH by metis
next
  case (reads_cut t arg)
  let ?bs = "be16 t @ be16 16 @ arg"
  have "\<exists>acc'. deserialize_actions ?bs acc = deserialize_actions (drop 16 ?bs) acc'"
    by (rule deserialize_known, use reads_cut in simp, rule action_step_long)
      (use reads_cut in \<open>simp_all add: hdr_type_def hdr_len_def field_simps_rules\<close>)
  moreover have "drop 16 ?bs = []" using reads_cut(3) by simp
  ultimately show ?case by metis
qed blast

text \<open>Reading goes on until fewer than eight bytes are left or something else than a known action comes.\<close>

lemma deserialize_stuck:
  "\<exists>rest acc'. reads_actions bs rest \<and> deserialize_actions bs acc = deserialize_actions rest acc'
     \<and> (length rest < 8 \<or> (\<forall>a. deserialize_as (infer_type (take 8 rest)) rest \<noteq> Some (Inr (True, a))))"
proof (induction bs acc rule: deserialize_actions.induct)
  case (1 bs acc)
  show ?case
  proof (cases "\<exists>a. 8 \<le> length bs \<and> deserialize_as (infer_type (take 8 bs)) bs = Some (Inr (True, a))")
    case True
    then obtain a where a: "8 \<le> length bs" "deserialize_as (infer_type (take 8 bs)) bs = Some (Inr (True, a))" by blast
    have next_one: "deserialize_actions bs acc = deserialize_actions (drop (action_size a) bs) (acc @ [a])"
      using a by (subst deserialize_actions.simps) simp
    show ?thesis unfolding next_one using "1" [OF _ a(2), where x = True and xa = a] a reads_known [OF a] by auto
  next
    case False
    then show ?thesis by (intro exI [of _ bs] exI [of _ acc]) (auto intro: reads_none)
  qed
qed

lemma deserialize_abort: "deserialize_actions bs acc = Inl Aborted \<longleftrightarrow> vendor_inside bs"
proof
  assume abort: "deserialize_actions bs acc = Inl Aborted"
  obtain rest acc' where r: "reads_actions bs rest" "deserialize_actions rest acc' = Inl Aborted"
      "length rest < 8 \<or> (\<forall>a. deserialize_as (infer_type (take 8 rest)) rest \<noteq> Some (Inr (True, a)))"
    using deserialize_stuck [of bs acc] abort by metis
  have l: "8 \<le> length rest" using r(2) by (subst (asm) deserialize_actions.simps) (simp split: if_splits)
  then have "deserialize_as (infer_type (take 8 rest)) rest = Some (Inl Aborted)"
    using r(2,3) by (subst (asm) deserialize_actions.simps) (auto simp: bindr_Inl_iff split: option.splits if_splits)
  then have "hdr_type rest = 0xffff" using action_step_vendor [OF l] by simp
  then have "rest = be16 0xffff @ drop 2 rest"
    using be16_of_be16 [of "take 2 rest"] l append_take_drop_id [of 2 rest] by (simp add: hdr_type_def chunk_def)
  then show "vendor_inside bs" unfolding vendor_inside_def using r(1) l
    by (intro exI [of _ "drop 2 rest"]) simp
next
  assume "vendor_inside bs"
  then obtain arg where arg: "reads_actions bs (be16 0xffff @ arg)" "6 \<le> length arg" unfolding vendor_inside_def by blast
  from deserialize_reads [OF arg(1), of acc] obtain acc' where
    eq: "deserialize_actions bs acc = deserialize_actions (be16 0xffff @ arg) acc'" by blast
  have "deserialize_as (infer_type (take 8 (be16 0xffff @ arg))) (be16 0xffff @ arg) = Some (Inl Aborted)"
    using arg(2) by (subst action_step_vendor) (simp_all add: hdr_type_def field_simps_rules)
  then show "deserialize_actions bs acc = Inl Aborted"
    unfolding eq using arg(2) by (subst deserialize_actions.simps) simp
qed

lemma deserialize_readable:
  "(\<exists>as. deserialize_actions bs acc = Inr (Some as)) \<longleftrightarrow> (\<exists>rest. reads_actions bs rest \<and> length rest < 8)"
proof
  assume "\<exists>as. deserialize_actions bs acc = Inr (Some as)"
  then obtain as rest acc' where r: "reads_actions bs rest" "deserialize_actions rest acc' = Inr (Some as)"
      "length rest < 8 \<or> (\<forall>a. deserialize_as (infer_type (take 8 rest)) rest \<noteq> Some (Inr (True, a)))"
    using deserialize_stuck [of bs acc] by metis
  have "length rest < 8"
    using r(2,3) by (subst (asm) deserialize_actions.simps) (auto simp: bindr_Inr_iff split: option.splits if_splits)
  then show "\<exists>rest. reads_actions bs rest \<and> length rest < 8" using r(1) by blast
next
  assume "\<exists>rest. reads_actions bs rest \<and> length rest < 8"
  then show "\<exists>as. deserialize_actions bs acc = Inr (Some as)"
    using deserialize_reads [of bs _ acc] by (auto simp: deserialize_actions.simps) (metis deserialize_actions.simps)
qed

lemma action_list_abort: "action_list_deserialize bs = Inl Aborted \<longleftrightarrow> vendor_inside bs"
proof -
  have "8 \<le> length bs" if "vendor_inside bs"
    using that deserialize_abort [of bs "[]"] by (subst (asm) deserialize_actions.simps) (simp split: if_splits)
  then show ?thesis unfolding action_list_deserialize_def
    by (auto simp: bindr_Inl_iff deserialize_abort split: option.splits)
qed

lemma action_list_readable: "(\<exists>as. action_list_deserialize bs = Inr (True, as)) \<longleftrightarrow> readable_actions bs"
proof (cases "deserialize_actions bs []")
  case (Inr r)
  then show ?thesis
    unfolding action_list_deserialize_def readable_actions_def deserialize_readable [of bs "[]", symmetric]
    by (cases r) auto
qed (simp add: action_list_deserialize_def readable_actions_def deserialize_readable [of bs "[]", symmetric])

text \<open>The records of the reply.\<close>

lemma flow_record_iff:
  "(\<exists>as. flow_record r as \<and> P as) \<longleftrightarrow> 88 \<le> length r \<and> unat (of_be16 (chunk 0 2 r)) = length r \<and> P (drop 88 r)"
proof
  assume "88 \<le> length r \<and> unat (of_be16 (chunk 0 2 r)) = length r \<and> P (drop 88 r)"
  moreover have "drop 88 r = drop 86 (drop 2 r)" by simp
  then have "r = take 2 r @ take 86 (drop 2 r) @ drop 88 r" by (simp only: append_take_drop_id)
  moreover have "be16 (of_be16 (chunk 0 2 r)) = take 2 r" if "88 \<le> length r" using that by (simp add: be16_of_be16 chunk_def)
  ultimately have "flow_record r (drop 88 r)" unfolding flow_record_def
    by (intro exI [of _ "of_be16 (chunk 0 2 r)"] exI [of _ "take 86 (drop 2 r)"]) (simp, arith)
  then show "\<exists>as. flow_record r as \<and> P as"
    using \<open>88 \<le> length r \<and> unat (of_be16 (chunk 0 2 r)) = length r \<and> P (drop 88 r)\<close> by blast
qed (auto simp: flow_record_def field_simps_rules)

lemma flow_stats_read:
  assumes "88 \<le> length r" "unat (of_be16 (chunk 0 2 r)) = length r"
  shows "flow_stats_deserialize r = Inl Aborted \<longleftrightarrow> vendor_inside (drop 88 r)"
    and "(\<exists>f. flow_stats_deserialize r = Inr (True, f)) \<longleftrightarrow> readable_actions (drop 88 r)"
proof -
  have small: "length r < 65536" using unsigned_less [of "of_be16 (chunk 0 2 r)", where ?'a = nat] assms(2) by simp
  obtain n where "length r = 88 + n" using assms(1) le_Suc_ex by blast
  then have "u32 (size_t_minus (length r) 88) = length r - 88" using small by (simp add: size_t_minus_def u32_def)
  moreover have "fetch 88 (length r - 88) r = Inr (drop 88 r)" using assms(1) by (simp add: chunk_def)
  moreover have "fst (of_match_deserialize (chunk 4 40 r))" using assms(1) by (simp add: of_match_deserialize_def Let_def)
  ultimately have r: "flow_stats_deserialize r = bindr (action_list_deserialize (drop 88 r)) (\<lambda>(ok, as).
      if \<not> ok then Inr (False, flow_stats_clear) else Inr (True, read_flow_stats r as))"
    using assms by (simp add: flow_stats_deserialize_def)
  show "flow_stats_deserialize r = Inl Aborted \<longleftrightarrow> vendor_inside (drop 88 r)"
    unfolding r action_list_abort [symmetric] by (auto simp: bindr_Inl_iff split: prod.splits if_splits)
  show "(\<exists>f. flow_stats_deserialize r = Inr (True, f)) \<longleftrightarrow> readable_actions (drop 88 r)"
    unfolding r action_list_readable [symmetric] by (auto simp: bindr_Inr_iff split: prod.splits if_splits)
qed

lemma read_flows_step:
  assumes "88 \<le> length r" "unat (of_be16 (chunk 0 2 r)) = length r"
  shows "read_flows (r @ rest) acc = (case flow_stats_deserialize r of Inl e \<Rightarrow> Inl e
    | Inr (ok, f) \<Rightarrow> if \<not> ok then Inr None else read_flows rest (acc @ [f]))"
proof -
  have "r \<noteq> []" "chunk 0 2 (r @ rest) = chunk 0 2 r" using assms(1) by (auto simp: chunk_append_left)
  then show ?thesis using assms by (subst read_flows.simps) (simp split: sum.split prod.split)
qed

lemma vendor_flow_inside_Cons:
  "flow_record r as \<and> readable_actions as \<Longrightarrow> vendor_flow_inside rest \<Longrightarrow> vendor_flow_inside (r @ rest)"
proof -
  assume r: "flow_record r as \<and> readable_actions as" and "vendor_flow_inside rest"
  then obtain rs b acts tail where "rest = concat rs @ b @ tail" "\<forall>x \<in> set rs. \<exists>as. flow_record x as \<and> readable_actions as"
    "flow_record b acts \<and> vendor_inside acts" unfolding vendor_flow_inside_def by blast
  then show ?thesis unfolding vendor_flow_inside_def using r
    by (intro exI [of _ "r # rs"] exI [of _ b] exI [of _ acts] exI [of _ tail]) auto
qed

lemma read_flows_abort: "read_flows body acc = Inl Aborted \<longleftrightarrow> vendor_flow_inside body"
proof
  show "read_flows body acc = Inl Aborted \<Longrightarrow> vendor_flow_inside body"
  proof (induction body acc rule: read_flows.induct)
    case (1 body acc)
    let ?n = "unat (of_be16 (chunk 0 2 body))"
    let ?r = "take ?n body"
    have abort: "body \<noteq> []" "\<not> length body < 88" "\<not> length body < ?n"
      using "1.prems" by (subst (asm) read_flows.simps, simp split: if_splits)+
    have split: "body = ?r @ drop ?n body" by simp
    show ?case
    proof (cases "flow_stats_deserialize ?r")
      case (Inl e)
      then have "e = Aborted" using "1.prems" abort by (subst (asm) read_flows.simps) simp
      then have n: "88 \<le> length ?r" using Inl by (auto simp: flow_stats_deserialize_def split: if_splits)
      then have len: "unat (of_be16 (chunk 0 2 ?r)) = length ?r" using abort by (simp add: chunk_def)
      have "vendor_inside (drop 88 ?r)" using flow_stats_read(1) [OF n len] Inl \<open>e = Aborted\<close> by simp
      then obtain as where "flow_record ?r as \<and> vendor_inside as" using flow_record_iff [of ?r vendor_inside] n len by blast
      then show ?thesis unfolding vendor_flow_inside_def using split
        by (intro exI [of _ "[]"] exI [of _ ?r] exI [of _ as] exI [of _ "drop ?n body"]) simp
    next
      case (Inr p)
      obtain ok f where p: "p = (ok, f)" by (cases p)
      have ok: "ok" "read_flows (drop ?n body) (acc @ [f]) = Inl Aborted"
        using "1.prems" abort Inr p by (subst (asm) read_flows.simps, simp split: if_splits)+
      then have n: "88 \<le> length ?r" using Inr p by (auto simp: flow_stats_deserialize_def split: if_splits)
      then have len: "unat (of_be16 (chunk 0 2 ?r)) = length ?r" using abort by (simp add: chunk_def)
      have "readable_actions (drop 88 ?r)" using flow_stats_read(2) [OF n len] Inr p ok(1) by simp
      then obtain as where as: "flow_record ?r as \<and> readable_actions as" using flow_record_iff [of ?r readable_actions] n len by blast
      have "vendor_flow_inside (drop ?n body)"
        by (rule "1.IH") (use abort Inr p ok in simp_all)
      then show ?thesis using vendor_flow_inside_Cons [OF as] split by metis
    qed
  qed
next
  have known: "(\<exists>as. flow_record x as \<and> P as) \<Longrightarrow> 88 \<le> length x \<and> unat (of_be16 (chunk 0 2 x)) = length x \<and> P (drop 88 x)" for x P
    using flow_record_iff by blast
  assume "vendor_flow_inside body"
  then obtain rs r acts rest where body: "body = concat rs @ r @ rest" and rs: "\<forall>x \<in> set rs. \<exists>as. flow_record x as \<and> readable_actions as"
    and "flow_record r acts \<and> vendor_inside acts" unfolding vendor_flow_inside_def by blast
  then have r: "88 \<le> length r" "unat (of_be16 (chunk 0 2 r)) = length r" "vendor_inside (drop 88 r)" using known by blast+
  show "read_flows body acc = Inl Aborted" unfolding body using rs
  proof (induction rs arbitrary: acc)
    case Nil
    then show ?case using flow_stats_read(1) [OF r(1,2)] r by (simp add: read_flows_step)
  next
    case (Cons x rs)
    have x: "88 \<le> length x" "unat (of_be16 (chunk 0 2 x)) = length x" "readable_actions (drop 88 x)"
      using Cons.prems known [of x readable_actions] by auto
    then obtain f where "flow_stats_deserialize x = Inr (True, f)" using flow_stats_read(2) [OF x(1,2)] by blast
    then show ?case using x Cons by (simp add: read_flows_step)
  qed
qed

lemma flow_reply_abort:
  assumes "of_message_header input = Some h" "msg_type h = OFPT_STATS_REPLY" "12 \<le> length input" "of_be16 (chunk 8 2 input) = stats_code OFPST_FLOW"
  shows "flow_reply_deserialize input = Inl Aborted \<longleftrightarrow> vendor_flow_inside (drop 12 input)"
proof -
  have "vendor_flow_inside (drop 12 input) \<longleftrightarrow> drop 12 input \<noteq> [] \<and> read_flows (drop 12 input) [] = Inl Aborted"
    unfolding read_flows_abort [of "drop 12 input" "[]", symmetric] by (auto simp: read_flows.simps [of "[]"])
  then show ?thesis using assms
    by (auto simp: flow_reply_deserialize_def stats_reply_header_def bindr_Inl_iff split: option.splits)
qed

section \<open>Which messages the controller survives\<close>

text \<open>C19. What a switch can send to make the factory call \<open>abort()\<close>, byte by byte: any of the eight types the controller
  itself sends or has not implemented, a statistics reply that is too short or of an unknown kind, an echo whose size field does
  not fit the input, a features reply that stops in its fixed part, and a flow statistics reply in which records that can be
  read to the end are followed by one whose known actions are followed by a vendor action (of type 65535). Nothing else does, in particular no
  action of another unknown type.\<close>

theorem factory_aborts_iff:
  "deserialize_message input = Inl Aborted \<longleftrightarrow>
    (case of_message_header input of None \<Rightarrow> False
     | Some h \<Rightarrow> unat (msg_type h) \<in> {5, 7, 9, 13, 16, 18, 20, 21}
       \<or> unat (msg_type h) \<in> {2, 3} \<and> length input < unat (ucast (msg_size h) - 8 :: 32 word)
       \<or> unat (msg_type h) = 6 \<and> u32 (size_t_minus (unat (msg_size h)) 32) mod 48 = 0 \<and> length input < 32
       \<or> unat (msg_type h) = 17 \<and> (length input < 12 \<or> 5 < unat (of_be16 (chunk 8 2 input))
           \<or> unat (of_be16 (chunk 8 2 input)) = 1 \<and> vendor_flow_inside (drop 12 input)))"
proof (cases "of_message_header input")
  case None
  then show ?thesis by (simp add: deserialize_message_def)
next
  case (Some h)
  have reply: "deserialize_stats_reply input = Inl Aborted \<longleftrightarrow> length input < 12 \<or> 5 < unat (of_be16 (chunk 8 2 input))
           \<or> unat (of_be16 (chunk 8 2 input)) = 1 \<and> vendor_flow_inside (drop 12 input)" if "unat (msg_type h) = 17"
    using flow_reply_abort [OF Some] that
    by (auto simp: deserialize_stats_reply_def Let_def read_as_abort stats_reply_aborts word_unat_eq_iff ofpt_codes)
  show ?thesis
    by (auto simp: deserialize_message_def Some Let_def ofpt_codes read_as_abort reader_aborts reply echo_aborts
        echo_request_deserialize_def echo_reply_deserialize_def features_reply_aborts word_unat_eq_iff)
qed

text \<open>A reply with one flow: an action that sets the VLAN and another of a given type.\<close>

definition two_actions :: "16 word \<Rightarrow> byte list" where
  "two_actions t = be16 1 @ be16 8 @ [0, 5, 0, 0] @ be16 t @ be16 8 @ [0, 0, 0, 0]"

definition reply_with :: "16 word \<Rightarrow> byte list" where
  "reply_with t = header_bytes 1 OFPT_STATS_REPLY 116 7 @ be16 1 @ be16 0 @ be16 104 @ replicate 86 0 @ two_actions t"

lemma reply_with_parts:
  "of_message_header (reply_with t) = Some \<lparr>version = 1, msg_type = OFPT_STATS_REPLY, msg_size = 116, xid = 7\<rparr>"
  "12 \<le> length (reply_with t)" "of_be16 (chunk 8 2 (reply_with t)) = 1"
  "drop 12 (reply_with t) = be16 104 @ replicate 86 0 @ two_actions t"
  by (simp_all add: reply_with_def of_message_header_bytes OFPT_STATS_REPLY_def OFPT_QUEUE_GET_CONFIG_REPLY_def field_simps_rules)

lemma vendor_reply: "vendor_flow_inside (drop 12 (reply_with 0xffff))"
proof -
  let ?r = "be16 104 @ replicate 86 0 @ two_actions 0xffff"
  have "reads_actions (two_actions 0xffff) (be16 0xffff @ be16 8 @ [0, 0, 0, 0])"
    unfolding two_actions_def by (rule reads_short [OF _ _ reads_none]) simp_all
  then have "vendor_inside (two_actions 0xffff)" unfolding vendor_inside_def by (intro exI [of _ "be16 8 @ [0, 0, 0, 0]"]) simp
  moreover have "flow_record ?r (two_actions 0xffff)" unfolding flow_record_def
    by (intro exI [of _ 104] exI [of _ "replicate 86 0"]) (simp add: two_actions_def)
  ultimately show ?thesis unfolding vendor_flow_inside_def reply_with_parts
    by (intro exI [of _ "[]"] exI [of _ ?r] exI [of _ "two_actions 0xffff"] exI [of _ "[]"]) simp
qed

lemma unknown_reply: "\<not> vendor_flow_inside (drop 12 (reply_with 12))"
proof -
  let ?r = "be16 104 @ replicate 86 0 @ two_actions 12"
  have stuck: "deserialize_actions (two_actions 12) [] = Inr None" by code_simp
  have r: "88 \<le> length ?r" "unat (of_be16 (chunk 0 2 ?r)) = length ?r" "drop 88 ?r = two_actions 12"
    by (simp_all add: two_actions_def field_simps_rules)
  have "\<not> vendor_inside (two_actions 12)" using deserialize_abort [of "two_actions 12" "[]"] stuck by simp
  then have abort: "flow_stats_deserialize ?r \<noteq> Inl Aborted" using flow_stats_read(1) [OF r(1,2)] r(3) by metis
  have "\<not> readable_actions (two_actions 12)"
    using deserialize_readable [of "two_actions 12" "[]"] stuck by (auto simp: readable_actions_def two_actions_def)
  then have "flow_stats_deserialize ?r \<noteq> Inr (True, f)" for f using flow_stats_read(2) [OF r(1,2)] r(3) by metis
  with abort have "read_flows (?r @ []) [] \<noteq> Inl Aborted"
    unfolding read_flows_step [OF r(1,2)] by (auto split: sum.split prod.split)
  then show ?thesis unfolding reply_with_parts read_flows_abort [of _ "[]", symmetric] by simp
qed

text \<open>A vendor action aborts, an action of the unknown type 12 does not.\<close>

theorem factory_aborts_iff_witness:
  "deserialize_message (reply_with 0xffff) = Inl Aborted \<and> deserialize_message (reply_with 12) \<noteq> Inl Aborted"
  using factory_aborts_iff [of "reply_with 0xffff"] factory_aborts_iff [of "reply_with 12"] vendor_reply unknown_reply
    reply_with_parts(2) [of 12] by (simp add: reply_with_parts(1,3) OFPT_STATS_REPLY_def not_less)

section \<open>Packets in\<close>

text \<open>A packet that the switch has sent.\<close>

definition packet_in_bytes :: "32 word \<Rightarrow> 32 word \<Rightarrow> 16 word \<Rightarrow> 16 word \<Rightarrow> byte \<Rightarrow> byte list \<Rightarrow> byte list" where
  "packet_in_bytes x buffer tot port why pkt =
     header_bytes 1 OFPT_PACKET_IN (word_of_nat (18 + length pkt)) x @ be32 buffer @ be16 tot @ be16 port
       @ [why, 0] @ pkt"

lemma packet_in_chunks:
  fixes x buffer :: "32 word" and tot port :: "16 word" and why :: byte and pkt :: "byte list"
  defines "input \<equiv> packet_in_bytes x buffer tot port why pkt"
  shows "length input = 18 + length pkt" "chunk 8 4 input = be32 buffer" "chunk 12 2 input = be16 tot"
    "chunk 14 2 input = be16 port" "input ! 16 = why" "18 + n \<le> length input \<Longrightarrow> chunk 18 n input = take n pkt"
    "of_message_header input = Some \<lparr>version = 1, msg_type = OFPT_PACKET_IN, msg_size = word_of_nat (18 + length pkt), xid = x\<rparr>"
  unfolding input_def packet_in_bytes_def
  by (simp_all only: of_message_header_bytes)
    (simp_all add: field_simps_rules header_bytes_def nth_append OFPT_PACKET_IN_def ofpt_defs chunk_def be32_def be16_def)

text \<open>A packet sent in full is read back with its buffer, port and reason; a packet that the switch has shortened
  to fewer bytes than its length on the wire makes the reader run past the end of the message. So the flag for
  a shortened packet is never set.\<close>

theorem packet_in_read:
  shows "packet_in_deserialize pi (packet_in_bytes x buffer tot port why pkt) =
    (if length pkt < unat tot then Inl OutOfBounds
     else Inr (True, \<lparr>version = 1, msg_type = OFPT_PACKET_IN, msg_size = word_of_nat (18 + length pkt), xid = x,
       pi_buffer_id = buffer, pi_in_port = port, actual_message_len = tot, summarized = False,
       reason_no_match = (why = 0), reason_action = (why = 1), pkt_data = take (unat tot) pkt\<rparr>))"
  by (simp add: packet_in_deserialize_def packet_in_chunks packet_in_clear_def Let_def)

section \<open>Packets out\<close>

text \<open>A packet out with actions the codec knows is refused by an assertion exactly when it has neither actions nor
  data; otherwise its size fields delimit the actions and the data it is given, and the actions read back
  are the same list exactly if every one of them survives.\<close>

theorem packet_out_written:
  assumes "list_all (\<lambda>a. get_action_type a \<noteq> VENDOR) (po_actions m)" "\<And>n. length (fresh n) = n"
    and "16 + sum_list (map action_size (po_actions m)) + length (packet_data m) < 2 ^ 16"
  shows "if po_actions m = [] \<and> packet_data m = [] then packet_out_serialize fresh m = Inl Aborted
    else \<exists>bs acts. packet_out_serialize fresh m = Inr bs \<and> unat (of_be16 (chunk 2 2 bs)) = length bs
      \<and> drop 16 bs = acts @ packet_data m \<and> unat (of_be16 (chunk 14 2 bs)) = length acts
      \<and> of_be16 (chunk 12 2 bs) = (if po_use_port m then po_in_port m else OFPP_NONE)
      \<and> (action_list_deserialize acts = Inr (True, po_actions m) \<longleftrightarrow> list_all survives (po_actions m))"
proof (cases "po_actions m = [] \<and> packet_data m = []")
  case True
  then show ?thesis by (simp add: packet_out_serialize_def get_serialization_size_sum Let_def)
next
  case False
  obtain acts where acts: "action_list_serialize fresh (po_actions m) = Inr acts"
    "length acts = sum_list (map action_size (po_actions m))"
    "action_list_deserialize acts = Inr (True, po_actions m) \<longleftrightarrow> list_all survives (po_actions m)"
    using action_list_written [OF assms(1)] assms(2,3) by fastforce
  let ?n = "16 + length acts + length (packet_data m)"
  let ?bs = "header_bytes (version m) (msg_type m) (word_of_nat ?n) (xid m) @ be32 (po_buffer_id m)
      @ be16 (if po_use_port m then po_in_port m else OFPP_NONE) @ be16 (word_of_nat (length acts)) @ acts @ packet_data m"
  have "acts \<noteq> [] \<or> packet_data m \<noteq> []"
  proof (cases "po_actions m")
    case (Cons a as)
    then have "length acts \<noteq> 0" using acts(2) action_size_pos [of a] by (simp del: action_size_pos, linarith?)
    then show ?thesis by simp
  qed (use False in simp)
  then have "16 < ?n" by auto
  have small: "?n < 65536" and gs: "get_serialization_size (po_actions m) = length acts"
    using assms(3) acts(2) get_serialization_size_sum [of "po_actions m"] by simp_all
  have "u32 ?n = ?n" using small by (simp add: u32_def)
  with \<open>16 < ?n\<close> have out: "packet_out_serialize fresh m = Inr ?bs"
    unfolding packet_out_serialize_def gs Let_def acts(1) bindr.simps by simp
  have at: "of_be16 (chunk 2 2 ?bs) = word_of_nat ?n" "of_be16 (chunk 14 2 ?bs) = word_of_nat (length acts)"
    "of_be16 (chunk 12 2 ?bs) = (if po_use_port m then po_in_port m else OFPP_NONE)" "drop 16 ?bs = acts @ packet_data m"
    by (simp_all add: header_bytes_def field_simps_rules)
  have lens: "unat (word_of_nat ?n :: 16 word) = ?n" "unat (word_of_nat (length acts) :: 16 word) = length acts"
    using small by (simp_all only: unat_of_nat) simp_all
  have len: "length ?bs = ?n" by simp
  show ?thesis
    unfolding if_not_P [OF False] out acts(3) [symmetric]
    by (rule exI [of _ ?bs], rule exI [of _ acts]) (intro conjI refl, simp_all only: at lens len)
qed

theorem packet_out_written_witness:
  "\<exists>bs. packet_out_serialize (\<lambda>n. replicate n 0) (packet_out_new\<lparr>po_actions := [Output_To_Port False 7], packet_data := [1, 2]\<rparr>) = Inr bs
    \<and> unat (of_be16 (chunk 2 2 bs)) = length bs"
  using packet_out_written [of "packet_out_new\<lparr>po_actions := [Output_To_Port False 7], packet_data := [1, 2]\<rparr>" "\<lambda>n. replicate n 0"]
  by (auto simp: packet_out_new_def of_message.defs of_message_packet_out.defs)

end
