(* ===== verification/Switch_State.thy ===== *)
theory Switch_State
  imports Switch_Db Cam_Table Of_Control_Msg
begin

text \<open>
  \<open>controller/services/switch_state.{h,cpp}\<close>: what the controller knows of its switch, above all its ports and the
  VLANs they carry. Every operation holds the lock of the service. A \<open>std::set\<close> of ports that is passed in is the
  list of its elements in order; a callback object is a number, and \<open>alive\<close> tells which ones still exist.
  The deprecated parser \<open>setup_switch_vlans\<close> is left out.
\<close>

record switch_state =
  ss_initialized :: bool
  mac_override_set :: bool
  mac_override :: bool
  switch_mac :: mac_address
  switch_ip_address :: ip_address
  switch_name :: string
  aux_info :: aux_switch_info
  switch_db :: "aux_switch_info list"
  switch_config_set :: bool
  ss_config :: openflow_switch_config
  switch_description_set :: bool
  ss_description :: openflow_switch_description
  switch_features_and_ports_set :: bool
  ss_features :: openflow_switch_features
  ss_ports :: "(16 word, openflow_vlan_port) smap"
  port_mod_callbacks :: "(16 word \<times> nat) list"

definition switch_state_new :: "openflow_switch_config \<Rightarrow> switch_state" where
  "switch_state_new c = \<lparr>ss_initialized = False, mac_override_set = False, mac_override = False, switch_mac = mac_nil,
     switch_ip_address = ip_nil, switch_name = [], aux_info = aux_info_clear, switch_db = [], switch_config_set = False,
     ss_config = c, switch_description_set = False, ss_description = description_new,
     switch_features_and_ports_set = False, ss_features = switch_features_clear, ss_ports = [], port_mod_callbacks = []\<rparr>"

definition check_init_state :: "switch_state \<Rightarrow> switch_state" where
  "check_init_state s =
    (if switch_name s = [] \<or> ip_is_nil (switch_ip_address s) \<or> \<not> mac_override_set s \<or> \<not> switch_config_set s
       \<or> \<not> switch_description_set s \<or> \<not> switch_features_and_ports_set s then s
     else s\<lparr>ss_initialized := True\<rparr>)"

section \<open>Ports\<close>

text \<open>Numbers from \<open>0xff00\<close> on are no physical ports.\<close>

definition maybe_create_port :: "16 word \<Rightarrow> (16 word, openflow_vlan_port) smap \<Rightarrow> (16 word, openflow_vlan_port) smap" where
  "maybe_create_port p m =
    (if 0xff00 \<le> p then m
     else if smap_find p m = None
     then smap_put p (vlan_port_new\<lparr>vp_port := openflow_port_new\<lparr>port_number := p\<rparr>\<rparr>) m else m)"

definition create_or_update_port :: "openflow_port \<Rightarrow> (16 word, openflow_vlan_port) smap \<Rightarrow> (16 word, openflow_vlan_port) smap" where
  "create_or_update_port port m =
    (if 0xff00 \<le> port_number port then m
     else case smap_find (port_number port) m of
       None \<Rightarrow> smap_put (port_number port) (set_openflow_port port (set_valid True vlan_port_new)) m
     | Some v \<Rightarrow> smap_put (port_number port) (v\<lparr>vp_port := port, vp_valid := True\<rparr>) m)"

definition remove_port :: "16 word \<Rightarrow> (16 word, openflow_vlan_port) smap \<Rightarrow> (16 word, openflow_vlan_port) smap" where
  "remove_port p m =
    (if 0xff00 \<le> p then m
     else case smap_find p m of None \<Rightarrow> m | Some v \<Rightarrow> smap_put p (set_valid False v) m)"

text \<open>\<open>ports[p]\<close> makes an empty entry where there is none.\<close>

definition port_at :: "16 word \<Rightarrow> (16 word, openflow_vlan_port) smap \<Rightarrow> openflow_vlan_port" where
  "port_at p m = (case smap_find p m of None \<Rightarrow> vlan_port_new | Some v \<Rightarrow> v)"

section \<open>What the switch reports\<close>

definition set_switch_description :: "openflow_switch_description of_message_stats_reply \<Rightarrow> switch_state \<Rightarrow> switch_state" where
  "set_switch_description d s = check_init_state (s\<lparr>ss_description := stats_body d, switch_description_set := True\<rparr>)"

definition set_switch_features :: "of_message_features_reply \<Rightarrow> switch_state \<Rightarrow> switch_state" where
  "set_switch_features f s = check_init_state (s\<lparr>ss_features := switch_features f,
     ss_ports := fold create_or_update_port (physical_ports f) (ss_ports s), switch_features_and_ports_set := True\<rparr>)"

definition set_switch_config :: "of_message_get_config_reply \<Rightarrow> switch_state \<Rightarrow> switch_state" where
  "set_switch_config c s = check_init_state (s\<lparr>ss_config := reply_config c, switch_config_set := True\<rparr>)"

definition perform_port_mod_callbacks :: "(nat \<Rightarrow> bool) \<Rightarrow> openflow_vlan_port \<Rightarrow> switch_state \<Rightarrow> (nat \<times> openflow_vlan_port) list" where
  "perform_port_mod_callbacks alive port s =
     map (\<lambda>(vlan, c). (c, port)) (filter (\<lambda>(vlan, c). is_member_of_vlan vlan port \<and> alive c) (port_mod_callbacks s))"

text \<open>The calls made, in order, and the state after.\<close>

definition update_switch_port ::
  "(nat \<Rightarrow> bool) \<Rightarrow> of_message_port_status \<Rightarrow> switch_state \<Rightarrow> (nat \<times> openflow_vlan_port) list \<times> switch_state" where
  "update_switch_port alive status s =
    (let port = port_description status; p = port_number port in
     if \<not> ss_initialized s then ([], s)
     else if 0xff00 \<le> p then ([], s)
     else let m = maybe_create_port p (ss_ports s) in
       case (case reason status of
           OFPPR_ADD \<Rightarrow> (True, create_or_update_port port m)
         | OFPPR_DELETE \<Rightarrow> (True, remove_port p m)
         | OFPPR_MODIFY \<Rightarrow>
            (let original_up = (if vp_valid (port_at p m) then is_up (vp_port (port_at p m)) else False) in
             (original_up \<noteq> is_up port, create_or_update_port port m))) of
         (need_callbacks, m') \<Rightarrow> let s' = s\<lparr>ss_ports := m'\<rparr> in
           (if need_callbacks then perform_port_mod_callbacks alive (port_at p m') s' else [], s'))"

section \<open>Settings that are written once\<close>

definition set_switch_ip :: "ip_address \<Rightarrow> switch_state \<Rightarrow> switch_state res" where
  "set_switch_ip a s =
    (if \<not> ip_is_nil (switch_ip_address s) then Inl Aborted
     else if ip_is_nil a then Inl Aborted
     else Inr (check_init_state (s\<lparr>switch_ip_address := a\<rparr>)))"

definition set_switch_mac_override :: "bool \<Rightarrow> mac_address \<Rightarrow> switch_state \<Rightarrow> switch_state res" where
  "set_switch_mac_override enabled mac s =
    (if mac_override_set s then Inl Aborted
     else if enabled \<and> mac_is_nil mac then Inl Aborted
     else Inr (check_init_state ((if enabled then s\<lparr>switch_mac := mac, mac_override := True\<rparr> else s)\<lparr>mac_override_set := True\<rparr>)))"

definition set_name :: "string \<Rightarrow> switch_state \<Rightarrow> switch_state res" where
  "set_name n s =
    (if switch_name s = [] \<and> length n < 40 then Inr (check_init_state (s\<lparr>switch_name := n\<rparr>)) else Inl Aborted)"

definition set_aux_switch_info :: "aux_switch_info \<Rightarrow> switch_state \<Rightarrow> switch_state" where
  "set_aux_switch_info i s = s\<lparr>aux_info := i\<rparr>"

definition setup_aux_info ::
  "(string \<Rightarrow> ip_address option) \<Rightarrow> string option \<Rightarrow> ip_address \<Rightarrow> switch_state \<Rightarrow> (bool \<times> switch_state) res" where
  "setup_aux_info resolver file addr s =
     bindr (db_load resolver file (switch_db s)) (\<lambda>(ok, d).
       let s1 = s\<lparr>switch_db := d\<rparr> in
       if \<not> ok then Inr (False, s1)
       else case lookup_switch_info_by_management_ip addr d of (found, info) \<Rightarrow>
         if \<not> found then Inr (False, s1)
         else bindr (set_switch_ip (data_plane_ip info) s1) (\<lambda>s2.
           bindr (set_switch_mac_override False mac_nil s2) (\<lambda>s3.
           bindr (set_name (''ironstack_'' @ aux_switch_name info) s3) (\<lambda>s4.
             Inr (True, set_aux_switch_info info s4)))))"

definition get_switch_mac :: "switch_state \<Rightarrow> mac_address" where
  "get_switch_mac s = (if mac_override s then switch_mac s else switch_address (ss_features s))"

section \<open>VLANs\<close>

text \<open>The loops over a set of ports. The names of the ports are collected for the log with \<open>strcat\<close> in a buffer
  of 1024 bytes; \<open>text\<close> is how many characters a port adds.\<close>

fun mark_ports :: "(openflow_vlan_port \<Rightarrow> openflow_vlan_port res) \<Rightarrow> (16 word \<Rightarrow> nat) \<Rightarrow> nat \<Rightarrow> 16 word list
    \<Rightarrow> (16 word, openflow_vlan_port) smap \<Rightarrow> (16 word, openflow_vlan_port) smap res" where
  "mark_ports f text len [] m = Inr m"
| "mark_ports f text len (p # ps) m =
     (let m1 = maybe_create_port p m in
      bindr (f (port_at p m1)) (\<lambda>v.
        if 1024 \<le> len + text p then Inl OutOfBounds else mark_ports f text (len + text p) ps (smap_put p v m1)))"

definition port_text :: "16 word \<Rightarrow> nat" where
  "port_text p = length (''['' @ dec (unat p) @ ''] '')"

definition set_vlan_ports :: "16 word list \<Rightarrow> 16 word \<Rightarrow> switch_state \<Rightarrow> switch_state res" where
  "set_vlan_ports ps vlan s =
    (if ps = [] then Inr s
     else bindr (mark_ports (add_to_vlan_membership vlan) port_text 0 ps (ss_ports s)) (\<lambda>m. Inr (s\<lparr>ss_ports := m\<rparr>)))"

definition set_port_tagging :: "16 word \<Rightarrow> bool \<Rightarrow> switch_state \<Rightarrow> switch_state res" where
  "set_port_tagging p tag s =
     bindr (mark_ports (set_vlan_tagging tag) (\<lambda>_. 0) 0 [p] (ss_ports s)) (\<lambda>m. Inr (s\<lparr>ss_ports := m\<rparr>))"

definition set_ports_tagging :: "16 word list \<Rightarrow> bool \<Rightarrow> switch_state \<Rightarrow> switch_state res" where
  "set_ports_tagging ps tag s =
     bindr (mark_ports (set_vlan_tagging tag) port_text 0 ps (ss_ports s)) (\<lambda>m. Inr (s\<lparr>ss_ports := m\<rparr>))"

definition set_vlan_flood_ports :: "16 word list \<Rightarrow> 16 word \<Rightarrow> switch_state \<Rightarrow> switch_state res" where
  "set_vlan_flood_ports ps vlan s =
     bindr (mark_ports (add_as_flood_port_for_vlan vlan) (\<lambda>_. 0) 0 ps (ss_ports s)) (\<lambda>m. Inr (s\<lparr>ss_ports := m\<rparr>))"

definition ports_where :: "(openflow_vlan_port \<Rightarrow> bool) \<Rightarrow> switch_state \<Rightarrow> 16 word list" where
  "ports_where P s = map fst (filter (\<lambda>(p, v). vp_valid v \<and> P v) (ss_ports s))"

definition get_flood_ports :: "16 word \<Rightarrow> switch_state \<Rightarrow> 16 word list" where
  "get_flood_ports vlan = ports_where (is_flood_port_for_vlan vlan)"

definition get_stp_ports :: "16 word \<Rightarrow> switch_state \<Rightarrow> 16 word list" where
  "get_stp_ports vlan = ports_where (is_stp_port_for_vlan vlan)"

definition get_untagged_ports :: "16 word \<Rightarrow> switch_state \<Rightarrow> 16 word list" where
  "get_untagged_ports vlan = ports_where (\<lambda>v. is_member_of_vlan vlan v \<and> \<not> vp_tagged v)"

definition get_tagged_ports :: "16 word \<Rightarrow> switch_state \<Rightarrow> 16 word list" where
  "get_tagged_ports vlan = ports_where (\<lambda>v. is_member_of_vlan vlan v \<and> vp_tagged v)"

definition get_vlan_ids :: "switch_state \<Rightarrow> 16 word set" where
  "get_vlan_ids s = \<Union> (vlan_membership ` snd ` set (ss_ports s))"

definition get_vlan_ports :: "16 word \<Rightarrow> switch_state \<Rightarrow> openflow_vlan_port list" where
  "get_vlan_ports vlan s = filter (\<lambda>v. vp_valid v \<and> is_member_of_vlan vlan v) (map snd (ss_ports s))"

definition get_all_switch_ports :: "switch_state \<Rightarrow> openflow_vlan_port list" where
  "get_all_switch_ports s = filter vp_valid (map snd (ss_ports s))"

text \<open>A lookup may create the entry, also for a number that is no physical port.\<close>

definition get_switch_port :: "16 word \<Rightarrow> switch_state \<Rightarrow> (bool \<times> openflow_vlan_port) \<times> switch_state" where
  "get_switch_port p s =
    (let m = maybe_create_port p (ss_ports s); v = port_at p m in ((vp_valid v, v), s\<lparr>ss_ports := smap_put p v m\<rparr>))"

definition set_port_enabled :: "16 word \<Rightarrow> bool \<Rightarrow> switch_state \<Rightarrow> of_message_port_modification option" where
  "set_port_enabled p status s =
    (case smap_find p (ss_ports s) of None \<Rightarrow> None
     | Some v \<Rightarrow> if \<not> vp_valid v then None
        else Some (port_mod_clear\<lparr>mod_port_no := port_number (vp_port v), mod_port_mac := port_dl_addr (vp_port v),
               new_config := (config (vp_port v))\<lparr>port_down := \<not> status\<rparr>, change_features := False\<rparr>))"

definition is_port_enabled :: "16 word \<Rightarrow> switch_state \<Rightarrow> bool" where
  "is_port_enabled p s =
    (case smap_find p (ss_ports s) of None \<Rightarrow> False | Some v \<Rightarrow> vp_valid v \<and> is_up (vp_port v))"

section \<open>Callbacks\<close>

fun register_loop :: "(nat \<Rightarrow> bool) \<Rightarrow> nat \<Rightarrow> 16 word \<Rightarrow> (16 word \<times> nat) list \<Rightarrow> (16 word \<times> nat) list" where
  "register_loop alive cb vlan [] = [(vlan, cb)]"
| "register_loop alive cb vlan ((v, c) # cs) =
    (if \<not> alive c then register_loop alive cb vlan cs
     else if v = vlan \<and> c = cb then (v, c) # cs
     else (v, c) # register_loop alive cb vlan cs)"

definition register_callback :: "(nat \<Rightarrow> bool) \<Rightarrow> nat \<Rightarrow> 16 word \<Rightarrow> switch_state \<Rightarrow> switch_state" where
  "register_callback alive cb vlan s = s\<lparr>port_mod_callbacks := register_loop alive cb vlan (port_mod_callbacks s)\<rparr>"

definition unregister_callback :: "(nat \<Rightarrow> bool) \<Rightarrow> nat \<Rightarrow> 16 word \<Rightarrow> switch_state \<Rightarrow> switch_state" where
  "unregister_callback alive cb vlan s =
     s\<lparr>port_mod_callbacks := filter (\<lambda>(v, c). alive c \<and> \<not> (v = vlan \<and> c = cb)) (port_mod_callbacks s)\<rparr>"

section \<open>What holds of the ports\<close>

text \<open>An entry: the VLANs of the port are consistent, only a physical port is valid, and a physical port is filed under
  its own number.\<close>

definition entry_ok :: "16 word \<Rightarrow> openflow_vlan_port \<Rightarrow> bool" where
  "entry_ok p v = (vlan_port_ok v \<and> (vp_valid v \<longrightarrow> p < 0xff00) \<and> (p < 0xff00 \<longrightarrow> port_number (vp_port v) = p))"

definition ports_ok :: "(16 word, openflow_vlan_port) smap \<Rightarrow> bool" where
  "ports_ok m = (smap_ok m \<and> (\<forall>(p, v) \<in> set m. entry_ok p v))"

lemma ports_ok_Nil [simp]: "ports_ok []"
  by (simp add: ports_ok_def)

lemma ports_ok_put: "ports_ok m \<Longrightarrow> entry_ok p v \<Longrightarrow> ports_ok (smap_put p v m)"
  using set_smap_put_subset [of p v m] by (auto simp: ports_ok_def smap_ok_put)

lemma ports_ok_find: "ports_ok m \<Longrightarrow> smap_find p m = Some v \<Longrightarrow> entry_ok p v"
  by (auto simp: ports_ok_def smap_find_in)

lemma entry_ok_new: "entry_ok p (vlan_port_new\<lparr>vp_port := openflow_port_new\<lparr>port_number := p\<rparr>\<rparr>)"
  "0xff00 \<le> p \<Longrightarrow> entry_ok p vlan_port_new"
  by (auto simp: entry_ok_def vlan_port_new_def vlan_port_ok_def openflow_port_new_def)

lemma ports_ok_maybe: "ports_ok m \<Longrightarrow> ports_ok (maybe_create_port p m)"
  by (simp add: maybe_create_port_def ports_ok_put entry_ok_new)

lemma entry_ok_at: "ports_ok m \<Longrightarrow> entry_ok p (port_at p (maybe_create_port p m))"
  using ports_ok_find [of m p] by (auto simp: port_at_def maybe_create_port_def smap_find_put entry_ok_new not_le split: option.splits)

lemma ports_ok_create: "ports_ok m \<Longrightarrow> ports_ok (create_or_update_port port m)"
proof -
  assume ok: "ports_ok m"
  have "entry_ok (port_number port) (v\<lparr>vp_port := port, vp_valid := True\<rparr>)"
    if "\<not> 0xff00 \<le> port_number port" "smap_find (port_number port) m = Some v" for v
    using ports_ok_find [OF ok that(2)] that(1) by (simp add: entry_ok_def vlan_port_ok_def)
  moreover have "entry_ok (port_number port) (set_openflow_port port (set_valid True vlan_port_new))" if "\<not> 0xff00 \<le> port_number port"
    using that by (simp add: entry_ok_def vlan_port_ok_def set_openflow_port_def set_valid_def vlan_port_new_def)
  ultimately show ?thesis using ok by (auto simp: create_or_update_port_def intro!: ports_ok_put split: option.splits)
qed

lemma ports_ok_remove: "ports_ok m \<Longrightarrow> ports_ok (remove_port p m)"
proof -
  assume ok: "ports_ok m"
  have "entry_ok p (set_valid False v)" if "smap_find p m = Some v" for v
    using ports_ok_find [OF ok that] by (simp add: entry_ok_def vlan_port_ok_def set_valid_def)
  then show ?thesis using ok by (auto simp: remove_port_def intro!: ports_ok_put split: option.splits)
qed

lemma ports_ok_fold_create: "ports_ok m \<Longrightarrow> ports_ok (fold create_or_update_port of_ports m)"
  by (induction of_ports arbitrary: m) (simp_all add: ports_ok_create)

text \<open>An operation on one entry that keeps what is right about it.\<close>

definition entry_op :: "(openflow_vlan_port \<Rightarrow> openflow_vlan_port res) \<Rightarrow> bool" where
  "entry_op f = (\<forall>v v'. f v = Inr v' \<longrightarrow> vlan_port_ok v \<longrightarrow> vlan_port_ok v' \<and> vp_valid v' = vp_valid v \<and> vp_port v' = vp_port v)"

lemma entry_ops: "entry_op (add_to_vlan_membership vlan)" "entry_op (set_vlan_tagging tag)" "entry_op (add_as_flood_port_for_vlan vlan)"
  by (auto simp: entry_op_def add_to_vlan_membership_def set_vlan_tagging_def add_as_flood_port_for_vlan_def Let_def vlan_port_ok_def
      split: if_splits)

lemma mark_ports_ok:
  "entry_op f \<Longrightarrow> mark_ports f tx len ps m = Inr m' \<Longrightarrow> ports_ok m \<Longrightarrow> ports_ok m'"
proof (induction f tx len ps m rule: mark_ports.induct)
  case (2 f tx len p ps m)
  let ?m = "maybe_create_port p m"
  from "2.prems"(2) obtain v where v: "f (port_at p ?m) = Inr v" "\<not> 1024 \<le> len + tx p"
    "mark_ports f tx (len + tx p) ps (smap_put p v ?m) = Inr m'"
    by (auto simp: Let_def bindr_Inr_iff split: if_splits)
  have "entry_ok p v" using entry_ok_at [OF "2.prems"(3), of p] v(1) "2.prems"(1) unfolding entry_op_def entry_ok_def by metis
  then have "ports_ok (smap_put p v ?m)" using ports_ok_maybe [OF "2.prems"(3)] by (simp add: ports_ok_put)
  with "2.IH" [OF refl v(2) "2.prems"(1) v(3)] show ?case .
qed simp

section \<open>Reachable states\<close>

text \<open>What a running controller does to the state, as long as it does not abort.\<close>

inductive ss_step :: "switch_state \<Rightarrow> switch_state \<Rightarrow> bool" where
  ss_description: "ss_step s (set_switch_description d s)"
| ss_features: "ss_step s (set_switch_features f s)"
| ss_config: "ss_step s (set_switch_config c s)"
| ss_port: "ss_step s (snd (update_switch_port alive status s))"
| ss_ip: "set_switch_ip a s = Inr s' \<Longrightarrow> ss_step s s'"
| ss_mac: "set_switch_mac_override e a s = Inr s' \<Longrightarrow> ss_step s s'"
| ss_name: "set_name n s = Inr s' \<Longrightarrow> ss_step s s'"
| ss_aux: "ss_step s (set_aux_switch_info i s)"
| ss_setup: "setup_aux_info resolver file a s = Inr (ok, s') \<Longrightarrow> ss_step s s'"
| ss_vlan: "set_vlan_ports ps vlan s = Inr s' \<Longrightarrow> ss_step s s'"
| ss_tag: "set_port_tagging p tag s = Inr s' \<Longrightarrow> ss_step s s'"
| ss_tags: "set_ports_tagging ps tag s = Inr s' \<Longrightarrow> ss_step s s'"
| ss_flood: "set_vlan_flood_ports ps vlan s = Inr s' \<Longrightarrow> ss_step s s'"
| ss_get: "ss_step s (snd (get_switch_port p s))"
| ss_register: "ss_step s (register_callback alive cb vlan s)"
| ss_unregister: "ss_step s (unregister_callback alive cb vlan s)"

inductive ss_reach :: "switch_state \<Rightarrow> bool" where
  ss_start: "ss_reach (switch_state_new c)"
| ss_next: "ss_reach s \<Longrightarrow> ss_step s s' \<Longrightarrow> ss_reach s'"

text \<open>Once it counts as initialized, everything it waited for is there.\<close>

definition complete :: "switch_state \<Rightarrow> bool" where
  "complete s = (switch_name s \<noteq> [] \<and> \<not> ip_is_nil (switch_ip_address s) \<and> mac_override_set s \<and> switch_config_set s
     \<and> switch_description_set s \<and> switch_features_and_ports_set s)"

definition ss_inv :: "switch_state \<Rightarrow> bool" where
  "ss_inv s = (ports_ok (ss_ports s) \<and> (ss_initialized s \<longrightarrow> complete s))"

lemma check_init_inv: "ports_ok (ss_ports s) \<Longrightarrow> ss_initialized s \<longrightarrow> complete s \<Longrightarrow> ss_inv (check_init_state s)"
  by (auto simp: ss_inv_def check_init_state_def complete_def)

lemma set_ip_inv: "set_switch_ip a s = Inr s' \<Longrightarrow> ss_inv s \<Longrightarrow> ss_inv s'"
  by (auto simp: set_switch_ip_def ss_inv_def complete_def check_init_state_def split: if_splits)

lemma set_mac_inv: "set_switch_mac_override e a s = Inr s' \<Longrightarrow> ss_inv s \<Longrightarrow> ss_inv s'"
  by (auto simp: set_switch_mac_override_def ss_inv_def complete_def check_init_state_def split: if_splits)

lemma set_name_inv: "set_name n s = Inr s' \<Longrightarrow> ss_inv s \<Longrightarrow> ss_inv s'"
  by (auto simp: set_name_def ss_inv_def complete_def check_init_state_def split: if_splits)

lemma setup_inv: "setup_aux_info resolver file a s = Inr (ok, s') \<Longrightarrow> ss_inv s \<Longrightarrow> ss_inv s'"
proof -
  assume r: "setup_aux_info resolver file a s = Inr (ok, s')" and inv: "ss_inv s"
  have db: "ss_inv (s\<lparr>switch_db := d\<rparr>)" for d using inv by (simp add: ss_inv_def complete_def)
  have aux: "ss_inv t \<Longrightarrow> ss_inv (set_aux_switch_info i t)" for i t by (simp add: ss_inv_def complete_def set_aux_switch_info_def)
  show ?thesis using r
    by (auto simp: setup_aux_info_def bindr_Inr_iff Let_def split: if_splits prod.splits
        intro!: db aux set_name_inv [OF _ set_mac_inv [OF _ set_ip_inv [OF _ db]]])
qed

lemma update_port_inv: "ss_inv s \<Longrightarrow> ss_inv (snd (update_switch_port alive status s))"
proof -
  assume inv: "ss_inv s"
  let ?m = "maybe_create_port (port_number (port_description status)) (ss_ports s)"
  have m: "ports_ok ?m" using inv by (simp add: ss_inv_def ports_ok_maybe)
  have upd: "ss_inv (s\<lparr>ss_ports := m\<rparr>)" if "ports_ok m" for m using inv that by (simp add: ss_inv_def complete_def)
  show ?thesis
    using inv by (auto simp: update_switch_port_def Let_def ports_ok_create [OF m] ports_ok_remove [OF m] upd
        split: ofp_port_reason.split)
qed

lemma report_inv: "ss_inv s \<Longrightarrow> ss_inv (set_switch_description d s)" "ss_inv s \<Longrightarrow> ss_inv (set_switch_features f s)"
  "ss_inv s \<Longrightarrow> ss_inv (set_switch_config c s)"
  by (auto simp: set_switch_description_def set_switch_features_def set_switch_config_def ss_inv_def complete_def
      check_init_state_def ports_ok_fold_create)

lemma vlan_ops_inv:
  "set_vlan_ports ps vlan s = Inr s' \<Longrightarrow> ss_inv s \<Longrightarrow> ss_inv s'"
  "set_port_tagging p tag s = Inr s' \<Longrightarrow> ss_inv s \<Longrightarrow> ss_inv s'"
  "set_ports_tagging ps tag s = Inr s' \<Longrightarrow> ss_inv s \<Longrightarrow> ss_inv s'"
  "set_vlan_flood_ports ps vlan s = Inr s' \<Longrightarrow> ss_inv s \<Longrightarrow> ss_inv s'"
proof -
  have upd: "ss_inv s \<Longrightarrow> entry_op f \<Longrightarrow> mark_ports f tx 0 ps (ss_ports s) = Inr m \<Longrightarrow> ss_inv (s\<lparr>ss_ports := m\<rparr>)"
    for f tx ps m using mark_ports_ok [of f tx 0 ps "ss_ports s" m] by (simp add: ss_inv_def complete_def)
  show "set_vlan_ports ps vlan s = Inr s' \<Longrightarrow> ss_inv s \<Longrightarrow> ss_inv s'"
    by (auto simp: set_vlan_ports_def bindr_Inr_iff split: if_splits intro: upd entry_ops)
  show "set_port_tagging p tag s = Inr s' \<Longrightarrow> ss_inv s \<Longrightarrow> ss_inv s'"
    unfolding set_port_tagging_def bindr_Inr_iff by (blast intro: upd entry_ops sum.inject)
  show "set_ports_tagging ps tag s = Inr s' \<Longrightarrow> ss_inv s \<Longrightarrow> ss_inv s'"
    by (auto simp: set_ports_tagging_def bindr_Inr_iff intro: upd entry_ops)
  show "set_vlan_flood_ports ps vlan s = Inr s' \<Longrightarrow> ss_inv s \<Longrightarrow> ss_inv s'"
    by (auto simp: set_vlan_flood_ports_def bindr_Inr_iff intro: upd entry_ops)
qed

lemma ss_step_inv: "ss_step s s' \<Longrightarrow> ss_inv s \<Longrightarrow> ss_inv s'"
proof (induction rule: ss_step.induct)
  case (ss_get s p)
  then have ok: "ports_ok (ss_ports s)" by (simp add: ss_inv_def)
  have "ports_ok (smap_put p (port_at p (maybe_create_port p (ss_ports s))) (maybe_create_port p (ss_ports s)))"
    by (intro ports_ok_put ports_ok_maybe entry_ok_at ok)
  then show ?case using ss_get by (simp add: get_switch_port_def Let_def ss_inv_def complete_def)
next
  case (ss_port s alive status)
  then show ?case by (rule update_port_inv)
next
  case (ss_setup resolver f a s ok s')
  then show ?case by (rule setup_inv)
next
  case (ss_aux s i)
  then show ?case by (simp add: ss_inv_def complete_def set_aux_switch_info_def)
next
  case (ss_register s alive cb vlan)
  then show ?case by (simp add: ss_inv_def complete_def register_callback_def)
next
  case (ss_unregister s alive cb vlan)
  then show ?case by (simp add: ss_inv_def complete_def unregister_callback_def)
qed (blast intro: report_inv set_ip_inv set_mac_inv set_name_inv vlan_ops_inv)+

lemma ss_reach_inv: "ss_reach s \<Longrightarrow> ss_inv s"
  by (induction rule: ss_reach.induct) (simp add: ss_inv_def switch_state_new_def, rule ss_step_inv)

text \<open>C10. In every state that the switch state service reaches, whatever the switch reports and whatever is configured in
  whatever order: a valid entry is a physical port (below \<open>0xff00\<close>), a physical port is filed under its own number, an untagged
  port is in at most one VLAN and the flood and spanning tree sets of a port lie inside its VLANs; and a service that counts as
  initialized has its name, its address, and the description, the configuration and the features of the switch.\<close>

theorem switch_state_inv: "ss_reach s \<Longrightarrow> ss_inv s"
  by (rule ss_reach_inv)

text \<open>The switch reports port 3, which is then put into VLAN 10 and told to be flooded to for it.\<close>

theorem switch_state_inv_witness:
  "\<exists>s1 s2. set_vlan_ports [3] 10 (set_switch_features (features_reply_clear\<lparr>physical_ports := [openflow_port_new\<lparr>port_number := 3\<rparr>]\<rparr>)
        (switch_state_new switch_config_clear)) = Inr s1
    \<and> set_vlan_flood_ports [3] 10 s1 = Inr s2 \<and> ss_inv s2
    \<and> ss_ports s2 = [(3, vlan_port_new\<lparr>vp_valid := True, vp_port := openflow_port_new\<lparr>port_number := 3\<rparr>, vlan_membership := {10},
        vlan_flood_port_membership := {10}\<rparr>)]"
proof -
  let ?s = "set_switch_features (features_reply_clear\<lparr>physical_ports := [openflow_port_new\<lparr>port_number := 3\<rparr>]\<rparr>) (switch_state_new switch_config_clear)"
  have ports: "ss_ports ?s = [(3, vlan_port_new\<lparr>vp_valid := True, vp_port := openflow_port_new\<lparr>port_number := 3\<rparr>\<rparr>)]"
    by (simp add: set_switch_features_def check_init_state_def switch_state_new_def create_or_update_port_def smap_find_def
        set_openflow_port_def set_valid_def)
  have short: "port_text 3 < 1024" by code_simp
  obtain s1 where s1: "set_vlan_ports [3] 10 ?s = Inr s1"
      "ss_ports s1 = [(3, vlan_port_new\<lparr>vp_valid := True, vp_port := openflow_port_new\<lparr>port_number := 3\<rparr>, vlan_membership := {10}\<rparr>)]"
    using short by (simp add: set_vlan_ports_def ports maybe_create_port_def port_at_def smap_find_def add_to_vlan_membership_def vlan_port_new_def)
  obtain s2 where s2: "set_vlan_flood_ports [3] 10 s1 = Inr s2"
      "ss_ports s2 = [(3, vlan_port_new\<lparr>vp_valid := True, vp_port := openflow_port_new\<lparr>port_number := 3\<rparr>, vlan_membership := {10},
        vlan_flood_port_membership := {10}\<rparr>)]"
    by (simp add: set_vlan_flood_ports_def s1(2) maybe_create_port_def port_at_def smap_find_def add_as_flood_port_for_vlan_def
        vlan_port_new_def add_to_vlan_membership_def)
  have "ss_reach s2"
    by (rule ss_next [OF ss_next [OF ss_next [OF ss_start ss_features] ss_vlan [OF s1(1)]] ss_flood [OF s2(1)]])
  then show ?thesis using switch_state_inv s1(1) s2 by blast
qed

section \<open>What a reported change of a port does\<close>

text \<open>C23. When the switch reports a change of a port, its entry becomes exactly this: after an addition or a modification it
  is valid and holds the reported description, after a removal it is invalid and keeps its description; its VLANs, its tagging
  and its flooding stay. No other port and nothing else of the state changes. Exactly the living callbacks registered for a VLAN
  of the port are called, in order, with the new entry: always when the port was added or removed, and when it was modified only
  if it went up or down, where a port that was invalid counts as down.\<close>

theorem port_update_callbacks:
  assumes "ss_initialized s" "port_number (port_description status) < 0xff00"
  shows "case update_switch_port alive status s of (calls, s') \<Rightarrow>
    let p = port_number (port_description status);
        old = (case smap_find p (ss_ports s) of None \<Rightarrow> vlan_port_new\<lparr>vp_port := openflow_port_new\<lparr>port_number := p\<rparr>\<rparr> | Some v \<Rightarrow> v);
        new = (if reason status = OFPPR_DELETE then old\<lparr>vp_valid := False\<rparr> else old\<lparr>vp_port := port_description status, vp_valid := True\<rparr>) in
    smap_find p (ss_ports s') = Some new
    \<and> (\<forall>q. q = p \<or> smap_find q (ss_ports s') = smap_find q (ss_ports s))
    \<and> s' = s\<lparr>ss_ports := ss_ports s'\<rparr>
    \<and> calls = (if reason status = OFPPR_MODIFY \<and> (vp_valid old \<and> is_up (vp_port old)) = is_up (port_description status) then []
        else map (\<lambda>(vlan, c). (c, new)) (filter (\<lambda>(vlan, c). vlan \<in> vlan_membership old \<and> alive c) (port_mod_callbacks s)))"
proof -
  let ?p = "port_number (port_description status)"
  have p: "\<not> 0xff00 \<le> ?p" using assms(2) by simp
  have filters: "(\<lambda>(vlan, c). is_member_of_vlan vlan v \<and> alive c) = (\<lambda>(vlan, c). vlan \<in> vlan_membership v \<and> alive c)" for v
    by (simp add: is_member_of_vlan_def)
  show ?thesis
    using assms(1) p
    by (cases "smap_find ?p (ss_ports s)"; cases "reason status")
      (simp_all add: update_switch_port_def Let_def maybe_create_port_def create_or_update_port_def remove_port_def port_at_def
        smap_find_put set_valid_def vlan_port_new_def perform_port_mod_callbacks_def filters set_openflow_port_def)
qed

text \<open>Port 3 of VLAN 10 is removed and comes back; callback 5 watches VLAN 10, callback 6 another one.\<close>

definition port_report :: "ofp_port_reason \<Rightarrow> of_message_port_status" where
  "port_report r = \<lparr>version = 1, msg_type = OFPT_PORT_STATUS, msg_size = 64, xid = 0, reason = r,
     port_description = openflow_port_new\<lparr>port_number := 3, port_name := ''back''\<rparr>\<rparr>"

theorem port_update_callbacks_witness:
  "\<exists>v w s' s''. v = vlan_port_new\<lparr>vlan_membership := {10}, vp_valid := True\<rparr>
    \<and> update_switch_port (\<lambda>c. True) (port_report OFPPR_DELETE)
        ((switch_state_new switch_config_clear)\<lparr>ss_initialized := True, port_mod_callbacks := [(10, 5), (20, 6)], ss_ports := [(3, v)]\<rparr>)
      = ([(5, v\<lparr>vp_valid := False\<rparr>)], s')
    \<and> smap_find 3 (ss_ports s') = Some (v\<lparr>vp_valid := False\<rparr>)
    \<and> w = v\<lparr>vp_port := port_description (port_report OFPPR_ADD), vp_valid := True\<rparr>
    \<and> update_switch_port (\<lambda>c. True) (port_report OFPPR_ADD) s' = ([(5, w)], s'')
    \<and> smap_find 3 (ss_ports s'') = Some w"
proof -
  let ?v = "vlan_port_new\<lparr>vlan_membership := {10}, vp_valid := True\<rparr>"
  let ?w = "?v\<lparr>vp_port := port_description (port_report OFPPR_ADD), vp_valid := True\<rparr>"
  let ?s = "(switch_state_new switch_config_clear)\<lparr>ss_initialized := True, port_mod_callbacks := [(10, 5), (20, 6)], ss_ports := [(3, ?v)]\<rparr>"
  have p: "port_number (port_description (port_report r)) = 3" "reason (port_report r) = r" for r by (simp_all add: port_report_def)
  have v: "smap_find 3 (ss_ports ?s) = Some ?v" by (simp add: smap_find_def)
  have init: "ss_initialized ?s" by simp
  obtain s' where s': "update_switch_port (\<lambda>c. True) (port_report OFPPR_DELETE) ?s = ([(5, ?v\<lparr>vp_valid := False\<rparr>)], s')"
      "smap_find 3 (ss_ports s') = Some (?v\<lparr>vp_valid := False\<rparr>)" "s' = ?s\<lparr>ss_ports := ss_ports s'\<rparr>"
    using port_update_callbacks [OF init, of "port_report OFPPR_DELETE" "\<lambda>c. True"]
    unfolding p Let_def v by (auto split: prod.splits)
  have s'_parts: "ss_initialized s'" "port_mod_callbacks s' = [(10, 5), (20, 6)]"
    using arg_cong [OF s'(3), of ss_initialized] arg_cong [OF s'(3), of port_mod_callbacks] by simp_all
  obtain s'' where "update_switch_port (\<lambda>c. True) (port_report OFPPR_ADD) s' = ([(5, ?w)], s'')"
      "smap_find 3 (ss_ports s'') = Some ?w"
    using port_update_callbacks [OF s'_parts(1), of "port_report OFPPR_ADD" "\<lambda>c. True"]
    unfolding p Let_def s'(2) by (auto simp: s'_parts(2) split: prod.splits)
  with s'(1,2) show ?thesis by blast
qed

section \<open>The log buffer\<close>

lemma mark_ports_text: "mark_ports f tx len ps m = Inr m' \<Longrightarrow> ps \<noteq> [] \<Longrightarrow> len + sum_list (map tx ps) < 1024"
proof (induction f tx len ps m rule: mark_ports.induct)
  case (2 f tx len p ps m)
  then obtain v where v: "f (port_at p (maybe_create_port p m)) = Inr v" "\<not> 1024 \<le> len + tx p"
    "mark_ports f tx (len + tx p) ps (smap_put p v (maybe_create_port p m)) = Inr m'"
    by (auto simp: Let_def bindr_Inr_iff split: if_splits)
  show ?case
  proof (cases "ps = []")
    case False
    from "2.IH" [OF refl v(2,3) False] show ?thesis by (simp add: add.assoc)
  qed (use v(2) in simp)
qed simp

text \<open>Configuring a VLAN writes the numbers of its ports into a buffer of 1024 bytes on the stack: as soon as the texts
  of the ports have 1024 characters, the call does not return normally, whatever the ports are.\<close>

theorem set_vlan_ports_overflow:
  assumes "1024 \<le> sum_list (map port_text ps)"
  shows "\<exists>e. set_vlan_ports ps vlan s = Inl e"
proof (cases "set_vlan_ports ps vlan s")
  case (Inr s')
  have "ps \<noteq> []" using assms by auto
  then show ?thesis using Inr assms mark_ports_text [of _ port_text 0 ps] by (fastforce simp: set_vlan_ports_def bindr_Inr_iff)
qed simp

theorem set_vlan_ports_overflow_witness:
  "\<exists>e. set_vlan_ports (map word_of_nat [0..<512]) 10 (switch_state_new switch_config_clear) = Inl e"
proof (rule set_vlan_ports_overflow)
  have "3 * length ps \<le> sum_list (map port_text ps)" for ps by (induction ps) (simp_all add: port_text_def)
  from this [of "map word_of_nat [0..<512]"] show "1024 \<le> sum_list (map port_text (map word_of_nat [0..<512]))" by simp
qed

end
