(* ===== verification/Arp_Table.thy ===== *)
theory Arp_Table
  imports Cam_Table
begin

text \<open>
  \<open>controller/services/arp_table.{h,cpp}\<close>: entries in a vector of slots, with two maps from hardware
  and from network addresses to slots. An index is the number of its \<open>uint32_t\<close>; the clock is the
  argument \<open>now\<close>. A slot that a map names is looked up with \<open>slot\<close>, which is a fault outside the vector.
\<close>

section \<open>The table\<close>

record arp_entry =
  arp_valid :: bool
  persistent :: bool
  arp_dl_address :: mac_address
  arp_nw_address :: ip_address
  arp_lookup_count :: "32 word"
  arp_last_lookup :: timer
  arp_update_count :: "32 word"
  arp_last_updated :: timer

definition arp_entry_empty :: "int \<Rightarrow> arp_entry" where
  "arp_entry_empty now = \<lparr>arp_valid = False, persistent = False, arp_dl_address = mac_nil, arp_nw_address = ip_nil,
     arp_lookup_count = 0, arp_last_lookup = timer_reset now, arp_update_count = 0, arp_last_updated = timer_reset now\<rparr>"

definition arp_entry_new :: "int \<Rightarrow> mac_address \<Rightarrow> ip_address \<Rightarrow> arp_entry" where
  "arp_entry_new now dl nw = \<lparr>arp_valid = True, persistent = False, arp_dl_address = dl, arp_nw_address = nw,
     arp_lookup_count = 0, arp_last_lookup = timer_reset now, arp_update_count = 0, arp_last_updated = timer_reset now\<rparr>"

record arp_table =
  arp_max_capacity :: nat
  arp_timeout_sec :: "32 word"
  last_search_slot :: nat
  mac_to_idx :: "(mac_address, nat) smap"
  ip_to_idx :: "(ip_address, nat) smap"
  arp_mappings :: "arp_entry list"

definition arp_table_new :: "int \<Rightarrow> arp_table" where
  "arp_table_new now = \<lparr>arp_max_capacity = 16384, arp_timeout_sec = 14400, last_search_slot = 0,
     mac_to_idx = [], ip_to_idx = [], arp_mappings = replicate 16384 (arp_entry_empty now)\<rparr>"

definition slot :: "arp_table \<Rightarrow> nat \<Rightarrow> arp_entry res" where
  "slot t i = (if i < length (arp_mappings t) then Inr (arp_mappings t ! i) else Inl OutOfBounds)"

definition set_slot :: "nat \<Rightarrow> arp_entry \<Rightarrow> arp_table \<Rightarrow> arp_table" where
  "set_slot i e t = t\<lparr>arp_mappings := (arp_mappings t)[i := e]\<rparr>"

definition arp_timed_out :: "int \<Rightarrow> arp_table \<Rightarrow> arp_entry \<Rightarrow> bool" where
  "arp_timed_out now t e = (timeout_ms (arp_timeout_sec t) \<le> get_time_elapsed_ms now (arp_last_updated e))"

text \<open>The loops over the map erase an entry of the map they run over; \<open>todo\<close> is what is left of it.\<close>

fun arp_gc_loop :: "int \<Rightarrow> (mac_address \<times> nat) list \<Rightarrow> arp_table \<Rightarrow> arp_table res" where
  "arp_gc_loop now [] t = Inr t"
| "arp_gc_loop now ((m, i) # todo) t =
     bindr (slot t i) (\<lambda>e.
       if arp_timed_out now t e
       then arp_gc_loop now todo (set_slot i (e\<lparr>arp_valid := False\<rparr>)
              (t\<lparr>ip_to_idx := smap_erase (arp_nw_address e) (ip_to_idx t), mac_to_idx := smap_erase m (mac_to_idx t)\<rparr>))
       else arp_gc_loop now todo t)"

definition arp_garbage_collection :: "int \<Rightarrow> arp_table \<Rightarrow> arp_table res" where
  "arp_garbage_collection now t = arp_gc_loop now (mac_to_idx t) t"

definition arp_set_max_capacity :: "int \<Rightarrow> nat \<Rightarrow> arp_table \<Rightarrow> arp_table res" where
  "arp_set_max_capacity now m t =
    (if m < arp_max_capacity t then arp_garbage_collection now (t\<lparr>arp_max_capacity := m\<rparr>)
     else Inr (t\<lparr>arp_max_capacity := m,
       arp_mappings := arp_mappings t @ replicate (m - arp_max_capacity t) (arp_entry_empty now)\<rparr>))"

definition arp_available_capacity :: "arp_table \<Rightarrow> nat" where
  "arp_available_capacity t =
    (if arp_max_capacity t \<le> length (mac_to_idx t) then 0 else arp_max_capacity t - length (mac_to_idx t))"

text \<open>The test compares the member with itself: the collection is never reached.\<close>

definition arp_set_timeout :: "int \<Rightarrow> 32 word \<Rightarrow> arp_table \<Rightarrow> arp_table res" where
  "arp_set_timeout now d t =
    (if arp_timeout_sec t \<le> arp_timeout_sec t then Inr (t\<lparr>arp_timeout_sec := d\<rparr>)
     else arp_garbage_collection now (t\<lparr>arp_timeout_sec := d\<rparr>))"

text \<open>\<open>clear\<close> takes what is not persistent out of the maps and leaves the slots as they are.\<close>

fun arp_clear_loop :: "(mac_address \<times> nat) list \<Rightarrow> arp_table \<Rightarrow> arp_table res" where
  "arp_clear_loop [] t = Inr t"
| "arp_clear_loop ((m, i) # todo) t =
     bindr (slot t i) (\<lambda>e.
       if \<not> persistent e
       then arp_clear_loop todo
              (t\<lparr>ip_to_idx := smap_erase (arp_nw_address e) (ip_to_idx t), mac_to_idx := smap_erase m (mac_to_idx t)\<rparr>)
       else arp_clear_loop todo t)"

definition arp_clear :: "arp_table \<Rightarrow> arp_table res" where
  "arp_clear t = arp_clear_loop (mac_to_idx t) t"

definition arp_clear_all :: "arp_table \<Rightarrow> arp_table" where
  "arp_clear_all t = t\<lparr>mac_to_idx := [], ip_to_idx := [],
     arp_mappings := map (\<lambda>e. e\<lparr>arp_valid := False\<rparr>) (arp_mappings t)\<rparr>"

text \<open>\<open>is_entry_usable\<close>: an entry that has timed out is invalidated and taken out of both maps.\<close>

definition is_entry_usable :: "int \<Rightarrow> nat \<Rightarrow> arp_entry \<Rightarrow> arp_table \<Rightarrow> bool \<times> arp_table" where
  "is_entry_usable now i e t =
    (if \<not> arp_valid e then (False, t)
     else if persistent e then (True, t)
     else if arp_timed_out now t e
     then (False, set_slot i (e\<lparr>arp_valid := False\<rparr>)
       (t\<lparr>mac_to_idx := smap_erase (arp_dl_address e) (mac_to_idx t), ip_to_idx := smap_erase (arp_nw_address e) (ip_to_idx t)\<rparr>))
     else (True, t))"

definition arp_touch :: "int \<Rightarrow> nat \<Rightarrow> arp_entry \<Rightarrow> arp_table \<Rightarrow> arp_table" where
  "arp_touch now i e t = set_slot i (e\<lparr>arp_lookup_count := arp_lookup_count e + 1, arp_last_lookup := timer_reset now\<rparr>) t"

definition arp_lookup_mac_for :: "int \<Rightarrow> ip_address \<Rightarrow> arp_table \<Rightarrow> (mac_address \<times> arp_table) res" where
  "arp_lookup_mac_for now dest t =
    (case smap_find dest (ip_to_idx t) of None \<Rightarrow> Inr (mac_nil, t)
     | Some i \<Rightarrow> bindr (slot t i) (\<lambda>e. case is_entry_usable now i e t of (usable, t') \<Rightarrow>
         if \<not> usable then Inr (mac_nil, t') else Inr (arp_dl_address e, arp_touch now i e t')))"

definition arp_lookup_ip_for :: "int \<Rightarrow> mac_address \<Rightarrow> arp_table \<Rightarrow> (ip_address \<times> arp_table) res" where
  "arp_lookup_ip_for now dest t =
    (case smap_find dest (mac_to_idx t) of None \<Rightarrow> Inr (ip_nil, t)
     | Some i \<Rightarrow> bindr (slot t i) (\<lambda>e. case is_entry_usable now i e t of (usable, t') \<Rightarrow>
         if \<not> usable then Inr (ip_nil, t') else Inr (arp_nw_address e, arp_touch now i e t')))"

definition arp_remove_mac :: "mac_address \<Rightarrow> arp_table \<Rightarrow> arp_table res" where
  "arp_remove_mac dl t =
    (case smap_find dl (mac_to_idx t) of None \<Rightarrow> Inr t
     | Some i \<Rightarrow> bindr (slot t i) (\<lambda>e. Inr (set_slot i (e\<lparr>arp_valid := False\<rparr>)
         (t\<lparr>ip_to_idx := smap_erase (arp_nw_address e) (ip_to_idx t), mac_to_idx := smap_erase dl (mac_to_idx t)\<rparr>))))"

definition arp_remove_ip :: "ip_address \<Rightarrow> arp_table \<Rightarrow> arp_table res" where
  "arp_remove_ip nw t =
    (case smap_find nw (ip_to_idx t) of None \<Rightarrow> Inr t
     | Some i \<Rightarrow> bindr (slot t i) (\<lambda>e. Inr (set_slot i (e\<lparr>arp_valid := False\<rparr>)
         (t\<lparr>mac_to_idx := smap_erase (arp_dl_address e) (mac_to_idx t), ip_to_idx := smap_erase nw (ip_to_idx t)\<rparr>))))"

text \<open>The search for a slot that is not valid goes round the slots below the capacity. Its other condition, that the
  index is not the capacity, is always true after the \<open>%\<close>. None: it never ends.\<close>

partial_function (option) free_slot :: "arp_entry list \<Rightarrow> nat \<Rightarrow> nat \<Rightarrow> nat option" where
  "free_slot es cap index =
    (if arp_valid (es ! index) \<and> index \<noteq> cap then free_slot es cap ((index + 1) mod cap) else Some index)"

text \<open>\<open>get_free_index\<close>; the remainder by a capacity of zero is a fault.\<close>

definition get_free_index :: "arp_table \<Rightarrow> (nat option \<times> arp_table) res" where
  "get_free_index t =
    (if arp_max_capacity t = 0 then Inl OutOfBounds
     else if length (arp_mappings t) < arp_max_capacity t then Inl OutOfBounds
     else case free_slot (arp_mappings t) (arp_max_capacity t) ((last_search_slot t + 1) mod arp_max_capacity t) of
       None \<Rightarrow> Inl Diverges
     | Some i \<Rightarrow> if arp_valid (arp_mappings t ! i) then Inr (None, t) else Inr (Some i, t\<lparr>last_search_slot := i\<rparr>))"

definition is_mapping_correct :: "mac_address \<Rightarrow> ip_address \<Rightarrow> arp_table \<Rightarrow> bool" where
  "is_mapping_correct dl nw t =
    (case (smap_find dl (mac_to_idx t), smap_find nw (ip_to_idx t)) of (Some i, Some j) \<Rightarrow> i = j | _ \<Rightarrow> False)"

definition is_gateway :: "ip_address \<Rightarrow> bool" where
  "is_gateway nw = (ip_octets nw ! 3 = 1)"

definition arp_add :: "mac_address \<Rightarrow> ip_address \<Rightarrow> arp_entry \<Rightarrow> arp_table \<Rightarrow> (bool \<times> arp_table) res" where
  "arp_add dl nw e t =
    bindr (get_free_index t) (\<lambda>(index, t'). case index of None \<Rightarrow> Inr (False, t')
     | Some i \<Rightarrow> Inr (True, set_slot i e (t'\<lparr>mac_to_idx := smap_put dl i (mac_to_idx t'), ip_to_idx := smap_put nw i (ip_to_idx t')\<rparr>)))"

definition arp_insert :: "int \<Rightarrow> mac_address \<Rightarrow> ip_address \<Rightarrow> arp_table \<Rightarrow> (bool \<times> arp_table) res" where
  "arp_insert now dl nw t =
    (if mac_is_nil dl \<or> ip_is_nil nw then Inr (False, t)
     else if is_gateway nw then
       (if smap_find nw (ip_to_idx t) \<noteq> None then Inr (True, t) else arp_add dl nw (arp_entry_new now dl nw) t)
     else if is_mapping_correct dl nw t then Inr (True, t)
     else bindr (arp_remove_mac dl t) (\<lambda>t1. bindr (arp_remove_ip nw t1) (arp_add dl nw (arp_entry_new now dl nw))))"

definition arp_insert_persistent :: "int \<Rightarrow> mac_address \<Rightarrow> ip_address \<Rightarrow> arp_table \<Rightarrow> (bool \<times> arp_table) res" where
  "arp_insert_persistent now dl nw t =
    (if mac_is_nil dl \<or> mac_is_broadcast dl \<or> ip_is_nil nw \<or> ip_is_broadcast nw then Inr (False, t)
     else bindr (arp_remove_mac dl t) (\<lambda>t1. bindr (arp_remove_ip nw t1)
       (arp_add dl nw ((arp_entry_new now dl nw)\<lparr>persistent := True\<rparr>))))"

text \<open>\<open>get_arp_table\<close>, with a map that shrinks under its loop: an entry that has timed out is erased
  from the map that the loop runs over, and the iterator to it, now invalid, is advanced.\<close>

fun get_arp_loop :: "int \<Rightarrow> (mac_address \<times> nat) list \<Rightarrow> arp_table \<Rightarrow> (arp_entry list \<times> arp_table) res" where
  "get_arp_loop now [] t = Inr ([], t)"
| "get_arp_loop now ((m, i) # todo) t =
     bindr (slot t i) (\<lambda>e. case is_entry_usable now i e t of (usable, t') \<Rightarrow>
       if usable then bindr (get_arp_loop now todo t') (\<lambda>(es, t2). Inr (e # es, t2))
       else if smap_find m (mac_to_idx t') = None then Inl OutOfBounds
       else get_arp_loop now todo t')"

definition get_arp_table :: "int \<Rightarrow> arp_table \<Rightarrow> (arp_entry list \<times> arp_table) res" where
  "get_arp_table now t = get_arp_loop now (mac_to_idx t) t"

section \<open>Finding a free slot\<close>

definition slot_post :: "arp_entry list \<Rightarrow> nat \<Rightarrow> nat \<Rightarrow> nat \<Rightarrow> bool" where
  "slot_post es cap index i = (index < cap \<longrightarrow> i < cap \<and> \<not> arp_valid (es ! i))"

lemma free_slot_post:
  assumes "free_slot es cap index = Some i"
  shows "slot_post es cap index i"
proof (rule free_slot.raw_induct [of slot_post, OF _ assms])
  fix loop es cap index i
  assume IH: "\<And>es cap index i. loop es cap index = Some i \<Longrightarrow> slot_post es cap index i"
    and step: "(if arp_valid (es ! index) \<and> index \<noteq> cap then loop es cap ((index + 1) mod cap) else Some index) = Some i"
  show "slot_post es cap index i"
  proof (cases "arp_valid (es ! index) \<and> index \<noteq> cap")
    case True
    with step have "slot_post es cap ((index + 1) mod cap) i" by (intro IH) simp
    then show ?thesis by (simp add: slot_post_def)
  next
    case False
    with step show ?thesis by (auto simp: slot_post_def)
  qed
qed

lemma free_slot_result:
  "free_slot es cap index = Some i \<Longrightarrow> index < cap \<Longrightarrow> i < cap \<and> \<not> arp_valid (es ! i)"
  using free_slot_post by (simp add: slot_post_def)

lemma free_slot_found:
  assumes "index < cap" "\<not> arp_valid (es ! ((index + n) mod cap))"
  shows "\<exists>i. free_slot es cap index = Some i"
  using assms
proof (induction n arbitrary: index)
  case 0
  then show ?case by (subst free_slot.simps) simp
next
  case (Suc n)
  have "(index + 1) mod cap < cap" using Suc.prems by simp
  moreover have "((index + 1) mod cap + n) mod cap = (index + Suc n) mod cap" by (simp add: mod_add_left_eq)
  ultimately have "\<exists>i. free_slot es cap ((index + 1) mod cap) = Some i" using Suc by simp
  then show ?case by (subst free_slot.simps) simp
qed

lemma free_slot_None_iff:
  assumes "index < cap"
  shows "free_slot es cap index = None \<longleftrightarrow> (\<forall>i < cap. arp_valid (es ! i))"
proof
  assume none: "free_slot es cap index = None"
  show "\<forall>i < cap. arp_valid (es ! i)"
  proof (rule ccontr)
    assume "\<not> (\<forall>i < cap. arp_valid (es ! i))"
    then obtain j where j: "j < cap" "\<not> arp_valid (es ! j)" by blast
    have "(index + (j + cap - index)) mod cap = j" using j assms by simp
    with free_slot_found [OF assms, of es "j + cap - index"] j none show False by simp
  qed
next
  assume all: "\<forall>i < cap. arp_valid (es ! i)"
  show "free_slot es cap index = None"
    using free_slot_result [OF _ assms] all by (cases "free_slot es cap index") auto
qed

lemma get_free_index_cases:
  assumes "0 < arp_max_capacity t" "arp_max_capacity t \<le> length (arp_mappings t)"
  shows "(\<exists>i < arp_max_capacity t. \<not> arp_valid (arp_mappings t ! i)
      \<and> get_free_index t = Inr (Some i, t\<lparr>last_search_slot := i\<rparr>))
    \<or> (\<forall>i < arp_max_capacity t. arp_valid (arp_mappings t ! i)) \<and> get_free_index t = Inl Diverges"
proof -
  let ?index = "(last_search_slot t + 1) mod arp_max_capacity t"
  have index: "?index < arp_max_capacity t" using assms by simp
  show ?thesis
  proof (cases "free_slot (arp_mappings t) (arp_max_capacity t) ?index")
    case None
    then have "\<forall>i < arp_max_capacity t. arp_valid (arp_mappings t ! i)"
      using free_slot_None_iff [OF index, of "arp_mappings t"] by blast
    moreover have "get_free_index t = Inl Diverges"
      unfolding get_free_index_def None using assms by simp
    ultimately show ?thesis by blast
  next
    case (Some i)
    from free_slot_result [OF this index] have "i < arp_max_capacity t" "\<not> arp_valid (arp_mappings t ! i)" by auto
    moreover from this have "get_free_index t = Inr (Some i, t\<lparr>last_search_slot := i\<rparr>)"
      unfolding get_free_index_def Some using assms by simp
    ultimately show ?thesis by blast
  qed
qed

section \<open>What every operation keeps\<close>

text \<open>The two maps are inverse to each other over the valid slots that they name.\<close>

definition arp_ok :: "arp_table \<Rightarrow> bool" where
  "arp_ok t = (smap_ok (mac_to_idx t) \<and> smap_ok (ip_to_idx t) \<and> arp_max_capacity t \<le> length (arp_mappings t) \<and>
     (\<forall>m i. smap_find m (mac_to_idx t) = Some i \<longrightarrow> i < length (arp_mappings t) \<and> arp_valid (arp_mappings t ! i)
        \<and> arp_dl_address (arp_mappings t ! i) = m \<and> smap_find (arp_nw_address (arp_mappings t ! i)) (ip_to_idx t) = Some i) \<and>
     (\<forall>n i. smap_find n (ip_to_idx t) = Some i \<longrightarrow> i < length (arp_mappings t) \<and> arp_valid (arp_mappings t ! i)
        \<and> arp_nw_address (arp_mappings t ! i) = n \<and> smap_find (arp_dl_address (arp_mappings t ! i)) (mac_to_idx t) = Some i))"

lemma arp_ok_mac:
  assumes "arp_ok t" "smap_find m (mac_to_idx t) = Some i"
  shows "i < length (arp_mappings t)" "arp_valid (arp_mappings t ! i)" "arp_dl_address (arp_mappings t ! i) = m"
    "smap_find (arp_nw_address (arp_mappings t ! i)) (ip_to_idx t) = Some i" "slot t i = Inr (arp_mappings t ! i)"
  using assms by (auto simp: arp_ok_def slot_def)

lemma arp_ok_ip:
  assumes "arp_ok t" "smap_find n (ip_to_idx t) = Some i"
  shows "i < length (arp_mappings t)" "arp_valid (arp_mappings t ! i)" "arp_nw_address (arp_mappings t ! i) = n"
    "smap_find (arp_dl_address (arp_mappings t ! i)) (mac_to_idx t) = Some i" "slot t i = Inr (arp_mappings t ! i)"
  using assms by (auto simp: arp_ok_def slot_def)

lemma arp_ok_base:
  assumes "arp_ok t"
  shows "smap_ok (mac_to_idx t)" "smap_ok (ip_to_idx t)" "arp_max_capacity t \<le> length (arp_mappings t)"
  using assms by (auto simp: arp_ok_def)

text \<open>Taking a pair out of both maps, whatever happens to its slot.\<close>

definition drop_pair :: "mac_address \<Rightarrow> nat \<Rightarrow> arp_entry \<Rightarrow> arp_table \<Rightarrow> arp_table" where
  "drop_pair m i e t = t\<lparr>mac_to_idx := smap_erase m (mac_to_idx t),
     ip_to_idx := smap_erase (arp_nw_address (arp_mappings t ! i)) (ip_to_idx t), arp_mappings := (arp_mappings t)[i := e]\<rparr>"

lemma arp_ok_drop_pair:
  assumes ok: "arp_ok t" and find: "smap_find m (mac_to_idx t) = Some i"
  shows "arp_ok (drop_pair m i e t)"
proof -
  note i = arp_ok_mac [OF ok find]
  let ?n = "arp_nw_address (arp_mappings t ! i)" and ?t = "drop_pair m i e t"
  have mac: "smap_find m' (mac_to_idx ?t) = (if m' = m then None else smap_find m' (mac_to_idx t))" for m'
    by (simp add: drop_pair_def smap_find_erase)
  have ip: "smap_find n (ip_to_idx ?t) = (if n = ?n then None else smap_find n (ip_to_idx t))" for n
    by (simp add: drop_pair_def smap_find_erase)
  have es: "arp_mappings ?t ! j = arp_mappings t ! j" if "j \<noteq> i" for j
    using that by (simp add: drop_pair_def)
  have len: "length (arp_mappings ?t) = length (arp_mappings t)" by (simp add: drop_pair_def)
  have M: "j \<noteq> i \<and> arp_nw_address (arp_mappings t ! j) \<noteq> ?n" if "smap_find m' (mac_to_idx t) = Some j" "m' \<noteq> m" for m' j
  proof -
    note j = arp_ok_mac [OF ok that(1)]
    have "j \<noteq> i" using j(3) i(3) that(2) by metis
    moreover have "arp_nw_address (arp_mappings t ! j) \<noteq> ?n" using j(4) i(4) calculation by (metis option.inject)
    ultimately show ?thesis by blast
  qed
  have N: "j \<noteq> i \<and> arp_dl_address (arp_mappings t ! j) \<noteq> m" if "smap_find n (ip_to_idx t) = Some j" "n \<noteq> ?n" for n j
  proof -
    note j = arp_ok_ip [OF ok that(1)]
    have "j \<noteq> i" using j(3) that(2) by metis
    moreover have "arp_dl_address (arp_mappings t ! j) \<noteq> m" using j(4) find calculation by (metis option.inject)
    ultimately show ?thesis by blast
  qed
  show ?thesis
    unfolding arp_ok_def mac ip len
  proof (intro conjI allI impI; (elim conjE)?)
    show "smap_ok (mac_to_idx ?t)" "smap_ok (ip_to_idx ?t)" "arp_max_capacity ?t \<le> length (arp_mappings t)"
      using arp_ok_base [OF ok] by (simp_all add: drop_pair_def smap_ok_erase)
  next
    fix m' j assume "(if m' = m then None else smap_find m' (mac_to_idx t)) = Some j"
    then have "smap_find m' (mac_to_idx t) = Some j" "m' \<noteq> m" by (auto split: if_splits)
    with M [OF this] arp_ok_mac [OF ok this(1)]
    show "j < length (arp_mappings t)" "arp_valid (arp_mappings ?t ! j)" "arp_dl_address (arp_mappings ?t ! j) = m'"
      "(if arp_nw_address (arp_mappings ?t ! j) = ?n then None
        else smap_find (arp_nw_address (arp_mappings ?t ! j)) (ip_to_idx t)) = Some j"
      by (simp_all add: es)
  next
    fix n j assume "(if n = ?n then None else smap_find n (ip_to_idx t)) = Some j"
    then have "smap_find n (ip_to_idx t) = Some j" "n \<noteq> ?n" by (auto split: if_splits)
    with N [OF this] arp_ok_ip [OF ok this(1)]
    show "j < length (arp_mappings t)" "arp_valid (arp_mappings ?t ! j)" "arp_nw_address (arp_mappings ?t ! j) = n"
      "(if arp_dl_address (arp_mappings ?t ! j) = m then None
        else smap_find (arp_dl_address (arp_mappings ?t ! j)) (mac_to_idx t)) = Some j"
      by (simp_all add: es)
  qed
qed

subsection \<open>One lemma for each operation\<close>

lemma arp_ok_new: "arp_ok (arp_table_new now)"
  by (simp add: arp_ok_def arp_table_new_def smap_find_def)

text \<open>Counters, timers and the search position do not matter, nor do slots that no map names.\<close>

lemma arp_ok_same:
  assumes ok: "arp_ok t" and maps: "mac_to_idx t' = mac_to_idx t" "ip_to_idx t' = ip_to_idx t"
    and len: "length (arp_mappings t) \<le> length (arp_mappings t')" "arp_max_capacity t' \<le> length (arp_mappings t')"
    and same: "\<And>i. i < length (arp_mappings t) \<Longrightarrow> arp_valid (arp_mappings t ! i) \<Longrightarrow>
      arp_valid (arp_mappings t' ! i) \<and> arp_dl_address (arp_mappings t' ! i) = arp_dl_address (arp_mappings t ! i)
      \<and> arp_nw_address (arp_mappings t' ! i) = arp_nw_address (arp_mappings t ! i)"
  shows "arp_ok t'"
  unfolding arp_ok_def maps
proof (intro conjI allI impI)
  fix m i assume "smap_find m (mac_to_idx t) = Some i"
  note i = arp_ok_mac [OF ok this]
  show "i < length (arp_mappings t')" "arp_valid (arp_mappings t' ! i)" "arp_dl_address (arp_mappings t' ! i) = m"
    "smap_find (arp_nw_address (arp_mappings t' ! i)) (ip_to_idx t) = Some i"
    using i same [OF i(1,2)] len(1) by simp_all
next
  fix n i assume "smap_find n (ip_to_idx t) = Some i"
  note i = arp_ok_ip [OF ok this]
  show "i < length (arp_mappings t')" "arp_valid (arp_mappings t' ! i)" "arp_nw_address (arp_mappings t' ! i) = n"
    "smap_find (arp_dl_address (arp_mappings t' ! i)) (mac_to_idx t) = Some i"
    using i same [OF i(1,2)] len(1) by simp_all
qed (use arp_ok_base [OF ok] len in simp_all)

lemma arp_ok_touch:
  assumes "arp_ok t" "e = arp_mappings t ! i"
  shows "arp_ok (arp_touch now i e t)"
proof (rule arp_ok_same [OF assms(1)])
  fix j assume "j < length (arp_mappings t)" "arp_valid (arp_mappings t ! j)"
  then show "arp_valid (arp_mappings (arp_touch now i e t) ! j)
      \<and> arp_dl_address (arp_mappings (arp_touch now i e t) ! j) = arp_dl_address (arp_mappings t ! j)
      \<and> arp_nw_address (arp_mappings (arp_touch now i e t) ! j) = arp_nw_address (arp_mappings t ! j)"
    by (cases "j = i") (simp_all add: arp_touch_def set_slot_def assms(2))
qed (use arp_ok_base [OF assms(1)] in \<open>simp_all add: arp_touch_def set_slot_def\<close>)

lemma is_entry_usable_cases:
  assumes "arp_ok t" "smap_find m (mac_to_idx t) = Some i" "e = arp_mappings t ! i"
  shows "is_entry_usable now i e t =
    (if persistent e \<or> \<not> arp_timed_out now t e then (True, t) else (False, drop_pair m i (e\<lparr>arp_valid := False\<rparr>) t))"
  using arp_ok_mac [OF assms(1,2)] assms(3) by (simp add: is_entry_usable_def drop_pair_def set_slot_def)

lemma arp_ip_mac:
  "arp_ok t \<Longrightarrow> smap_find n (ip_to_idx t) = Some i
     \<Longrightarrow> smap_find (arp_dl_address (arp_mappings t ! i)) (mac_to_idx t) = Some i"
  by (rule arp_ok_ip(4))

lemma arp_ok_lookup_mac:
  assumes ok: "arp_ok t"
  obtains a t' where "arp_lookup_mac_for now n t = Inr (a, t')" "arp_ok t'"
proof (cases "smap_find n (ip_to_idx t)")
  case None
  then show ?thesis using that [of mac_nil t] ok by (simp add: arp_lookup_mac_for_def)
next
  case (Some i)
  let ?e = "arp_mappings t ! i"
  note u = is_entry_usable_cases [OF ok arp_ip_mac [OF ok Some] refl]
  show ?thesis
    using that arp_ok_ip(5) [OF ok Some] Some arp_ok_touch [OF ok refl] arp_ok_drop_pair [OF ok arp_ip_mac [OF ok Some]]
    by (cases "persistent ?e \<or> \<not> arp_timed_out now t ?e") (simp_all add: arp_lookup_mac_for_def u)
qed

lemma arp_ok_lookup_ip:
  assumes ok: "arp_ok t"
  obtains a t' where "arp_lookup_ip_for now m t = Inr (a, t')" "arp_ok t'"
proof (cases "smap_find m (mac_to_idx t)")
  case None
  then show ?thesis using that [of ip_nil t] ok by (simp add: arp_lookup_ip_for_def)
next
  case (Some i)
  let ?e = "arp_mappings t ! i"
  note u = is_entry_usable_cases [OF ok Some refl]
  show ?thesis
    using that arp_ok_mac(5) [OF ok Some] Some arp_ok_touch [OF ok refl] arp_ok_drop_pair [OF ok Some]
    by (cases "persistent ?e \<or> \<not> arp_timed_out now t ?e") (simp_all add: arp_lookup_ip_for_def u)
qed

lemma arp_remove_mac_eq:
  assumes "arp_ok t"
  shows "arp_remove_mac m t = Inr (case smap_find m (mac_to_idx t) of None \<Rightarrow> t
    | Some i \<Rightarrow> drop_pair m i ((arp_mappings t ! i)\<lparr>arp_valid := False\<rparr>) t)"
  using arp_ok_mac(5) [OF assms]
  by (auto simp: arp_remove_mac_def drop_pair_def set_slot_def split: option.split)

lemma arp_remove_ip_eq:
  assumes "arp_ok t"
  shows "arp_remove_ip n t = Inr (case smap_find n (ip_to_idx t) of None \<Rightarrow> t
    | Some i \<Rightarrow> drop_pair (arp_dl_address (arp_mappings t ! i)) i ((arp_mappings t ! i)\<lparr>arp_valid := False\<rparr>) t)"
  using arp_ok_ip(3,5) [OF assms]
  by (auto simp: arp_remove_ip_def drop_pair_def set_slot_def split: option.split)

lemma arp_ok_remove:
  assumes "arp_ok t"
  shows "\<exists>t'. arp_remove_mac m t = Inr t' \<and> arp_ok t'" "\<exists>t'. arp_remove_ip n t = Inr t' \<and> arp_ok t'"
  using arp_ok_drop_pair [OF assms] arp_ip_mac [OF assms]
  by (auto simp: arp_remove_mac_eq [OF assms] arp_remove_ip_eq [OF assms] assms split: option.split)

text \<open>The two loops take pairs out of both maps; what is left of the list is still in the map.\<close>

definition todo_ok :: "(mac_address \<times> nat) list \<Rightarrow> arp_table \<Rightarrow> bool" where
  "todo_ok todo t = (distinct (map fst todo) \<and> (\<forall>(m, i) \<in> set todo. smap_find m (mac_to_idx t) = Some i))"

lemma todo_ok_drop_pair:
  "todo_ok ((m, i) # todo) t \<Longrightarrow> todo_ok todo (drop_pair m i e t)"
  by (force simp: todo_ok_def drop_pair_def smap_find_erase)

lemma todo_ok_all: "arp_ok t \<Longrightarrow> todo_ok (mac_to_idx t) t"
  using arp_ok_base(1) [of t] by (auto simp: todo_ok_def smap_find_in smap_ok_distinct)

lemma todo_ok_tl: "todo_ok (p # todo) t \<Longrightarrow> todo_ok todo t"
  by (auto simp: todo_ok_def)

lemma arp_ok_gc_loop:
  assumes "arp_ok t" "todo_ok todo t"
  shows "\<exists>t'. arp_gc_loop now todo t = Inr t' \<and> arp_ok t'"
  using assms
proof (induction now todo t rule: arp_gc_loop.induct)
  case (2 now m i todo t)
  let ?e = "(arp_mappings t ! i)\<lparr>arp_valid := False\<rparr>"
  have find: "smap_find m (mac_to_idx t) = Some i" using "2.prems"(2) by (simp add: todo_ok_def)
  note s = arp_ok_mac(5) [OF "2.prems"(1) find]
  have d: "set_slot i ?e (t\<lparr>ip_to_idx := smap_erase (arp_nw_address (arp_mappings t ! i)) (ip_to_idx t),
      mac_to_idx := smap_erase m (mac_to_idx t)\<rparr>) = drop_pair m i ?e t"
    by (simp add: set_slot_def drop_pair_def)
  show ?case
  proof (cases "arp_timed_out now t (arp_mappings t ! i)")
    case True
    with "2.IH"(1) [OF True, unfolded d] arp_ok_drop_pair [OF "2.prems"(1) find] todo_ok_drop_pair [OF "2.prems"(2)]
    show ?thesis by (simp add: s d)
  next
    case False
    with "2.IH"(2) [OF False] "2.prems"(1) todo_ok_tl [OF "2.prems"(2)] show ?thesis by (simp add: s)
  qed
qed simp

lemma arp_ok_gc: "arp_ok t \<Longrightarrow> \<exists>t'. arp_garbage_collection now t = Inr t' \<and> arp_ok t'"
  by (simp add: arp_garbage_collection_def arp_ok_gc_loop todo_ok_all)

lemma arp_clear_loop_ok:
  assumes "arp_ok t" "todo_ok todo t"
  shows "\<exists>t'. arp_clear_loop todo t = Inr t' \<and> arp_ok t' \<and> arp_mappings t' = arp_mappings t
    \<and> arp_max_capacity t' = arp_max_capacity t
    \<and> (\<forall>m. smap_find m (mac_to_idx t') = (case smap_find m (mac_to_idx t) of None \<Rightarrow> None
         | Some i \<Rightarrow> if m \<in> fst ` set todo \<and> \<not> persistent (arp_mappings t ! i) then None else Some i))"
  using assms
proof (induction todo t rule: arp_clear_loop.induct)
  case (1 t)
  then show ?case by (simp split: option.split)
next
  case (2 m i todo t)
  have find: "smap_find m (mac_to_idx t) = Some i" using "2.prems"(2) by (simp add: todo_ok_def)
  have fresh: "m \<notin> fst ` set todo" using "2.prems"(2) by (simp add: todo_ok_def)
  note s = arp_ok_mac(5) [OF "2.prems"(1) find]
  have d: "t\<lparr>ip_to_idx := smap_erase (arp_nw_address (arp_mappings t ! i)) (ip_to_idx t),
      mac_to_idx := smap_erase m (mac_to_idx t)\<rparr> = drop_pair m i (arp_mappings t ! i) t"
    by (simp add: drop_pair_def)
  show ?case
  proof (cases "persistent (arp_mappings t ! i)")
    case True
    with "2.IH"(2) [of "arp_mappings t ! i"] "2.prems"(1) todo_ok_tl [OF "2.prems"(2)] show ?thesis
      by (auto simp: s find split: option.split)
  next
    case False
    have fields: "arp_mappings (drop_pair m i (arp_mappings t ! i) t) = arp_mappings t"
      "arp_max_capacity (drop_pair m i (arp_mappings t ! i) t) = arp_max_capacity t"
      "mac_to_idx (drop_pair m i (arp_mappings t ! i) t) = smap_erase m (mac_to_idx t)"
      by (simp_all add: drop_pair_def)
    from "2.IH"(1) [of "arp_mappings t ! i", unfolded d fields, OF False] arp_ok_drop_pair [OF "2.prems"(1) find] todo_ok_drop_pair [OF "2.prems"(2)]
    obtain t' where "arp_clear_loop todo (drop_pair m i (arp_mappings t ! i) t) = Inr t'" "arp_ok t'"
      "arp_mappings t' = arp_mappings t" "arp_max_capacity t' = arp_max_capacity t"
      "\<forall>k. smap_find k (mac_to_idx t') = (case smap_find k (smap_erase m (mac_to_idx t)) of None \<Rightarrow> None
         | Some i \<Rightarrow> if k \<in> fst ` set todo \<and> \<not> persistent (arp_mappings t ! i) then None else Some i)"
      unfolding fields by blast
    with False show ?thesis by (auto simp: s d find smap_find_erase split: option.split)
  qed
qed

lemma arp_ok_clear:
  assumes ok: "arp_ok t"
  shows "\<exists>t'. arp_clear t = Inr t' \<and> arp_ok t' \<and> arp_mappings t' = arp_mappings t \<and> arp_max_capacity t' = arp_max_capacity t
    \<and> (\<forall>m. smap_find m (mac_to_idx t') = (case smap_find m (mac_to_idx t) of None \<Rightarrow> None
         | Some i \<Rightarrow> if \<not> persistent (arp_mappings t ! i) then None else Some i))"
proof -
  have dom: "m \<in> fst ` set (mac_to_idx t)" if "smap_find m (mac_to_idx t) = Some i" for m i
    using that arp_ok_base(1) [OF ok] by (force simp: smap_find_in)
  from arp_clear_loop_ok [OF ok todo_ok_all [OF ok]] obtain t' where
    t': "arp_clear_loop (mac_to_idx t) t = Inr t'" "arp_ok t'" "arp_mappings t' = arp_mappings t" "arp_max_capacity t' = arp_max_capacity t"
    and f: "\<And>m. smap_find m (mac_to_idx t') = (case smap_find m (mac_to_idx t) of None \<Rightarrow> None
         | Some i \<Rightarrow> if m \<in> fst ` set (mac_to_idx t) \<and> \<not> persistent (arp_mappings t ! i) then None else Some i)" by blast
  have "\<forall>m. smap_find m (mac_to_idx t') = (case smap_find m (mac_to_idx t) of None \<Rightarrow> None
         | Some i \<Rightarrow> if \<not> persistent (arp_mappings t ! i) then None else Some i)"
    using dom by (auto simp: f split: option.split)
  with t' show ?thesis by (simp add: arp_clear_def)
qed

lemma arp_ok_clear_all:
  assumes "arp_ok t"
  shows "arp_ok (arp_clear_all t)"
  using arp_ok_base(3) [OF assms] by (simp add: arp_ok_def arp_clear_all_def smap_find_def)

lemma arp_ok_set_max_capacity:
  assumes ok: "arp_ok t"
  shows "\<exists>t'. arp_set_max_capacity now m t = Inr t' \<and> arp_ok t'"
proof (cases "m < arp_max_capacity t")
  case True
  have "arp_ok (t\<lparr>arp_max_capacity := m\<rparr>)"
    by (rule arp_ok_same [OF ok]) (use arp_ok_base(3) [OF ok] True in simp_all)
  with True show ?thesis by (simp add: arp_set_max_capacity_def arp_ok_gc)
next
  case False
  have "arp_ok (t\<lparr>arp_max_capacity := m,
      arp_mappings := arp_mappings t @ replicate (m - arp_max_capacity t) (arp_entry_empty now)\<rparr>)"
    by (rule arp_ok_same [OF ok]) (use arp_ok_base(3) [OF ok] False in \<open>simp_all add: nth_append\<close>)
  with False show ?thesis by (simp add: arp_set_max_capacity_def)
qed

lemma arp_ok_set_timeout:
  assumes ok: "arp_ok t"
  shows "\<exists>t'. arp_set_timeout now d t = Inr t' \<and> arp_ok t'"
proof -
  have "arp_ok (t\<lparr>arp_timeout_sec := d\<rparr>)"
    by (rule arp_ok_same [OF ok]) (use arp_ok_base(3) [OF ok] in simp_all)
  then show ?thesis by (simp add: arp_set_timeout_def)
qed

lemma arp_ok_put:
  assumes ok: "arp_ok t" and new: "smap_find dl (mac_to_idx t) = None" "smap_find nw (ip_to_idx t) = None"
    and i: "i < length (arp_mappings t)" "\<not> arp_valid (arp_mappings t ! i)"
    and e: "arp_valid e" "arp_dl_address e = dl" "arp_nw_address e = nw"
    and t': "mac_to_idx t' = smap_put dl i (mac_to_idx t)" "ip_to_idx t' = smap_put nw i (ip_to_idx t)"
      "arp_mappings t' = (arp_mappings t)[i := e]" "arp_max_capacity t' = arp_max_capacity t"
  shows "arp_ok t'"
proof -
  have mac: "smap_find m (mac_to_idx t') = (if m = dl then Some i else smap_find m (mac_to_idx t))" for m
    by (simp add: t' smap_find_put)
  have ip: "smap_find n (ip_to_idx t') = (if n = nw then Some i else smap_find n (ip_to_idx t))" for n
    by (simp add: t' smap_find_put)
  have M: "j \<noteq> i \<and> arp_nw_address (arp_mappings t ! j) \<noteq> nw" if "smap_find m (mac_to_idx t) = Some j" for m j
    using arp_ok_mac(2,4) [OF ok that] i(2) new(2) by (metis option.distinct(1))
  have N: "j \<noteq> i \<and> arp_dl_address (arp_mappings t ! j) \<noteq> dl" if "smap_find n (ip_to_idx t) = Some j" for n j
    using arp_ok_ip(2,4) [OF ok that] i(2) new(1) by (metis option.distinct(1))
  show ?thesis
    unfolding arp_ok_def mac ip
  proof (intro conjI allI impI)
    show "smap_ok (mac_to_idx t')" "smap_ok (ip_to_idx t')" "arp_max_capacity t' \<le> length (arp_mappings t')"
      using arp_ok_base [OF ok] by (simp_all add: t' smap_ok_put)
  next
    fix m j assume a: "(if m = dl then Some i else smap_find m (mac_to_idx t)) = Some j"
    show "j < length (arp_mappings t')" "arp_valid (arp_mappings t' ! j)" "arp_dl_address (arp_mappings t' ! j) = m"
      "(if arp_nw_address (arp_mappings t' ! j) = nw then Some i
        else smap_find (arp_nw_address (arp_mappings t' ! j)) (ip_to_idx t)) = Some j"
      using a i e M [of m j] arp_ok_mac [OF ok, of m j] by (auto simp: t' split: if_splits)
  next
    fix n j assume a: "(if n = nw then Some i else smap_find n (ip_to_idx t)) = Some j"
    show "j < length (arp_mappings t')" "arp_valid (arp_mappings t' ! j)" "arp_nw_address (arp_mappings t' ! j) = n"
      "(if arp_dl_address (arp_mappings t' ! j) = dl then Some i
        else smap_find (arp_dl_address (arp_mappings t' ! j)) (mac_to_idx t)) = Some j"
      using a i e N [of n j] arp_ok_ip [OF ok, of n j] by (auto simp: t' split: if_splits)
  qed
qed

section \<open>The table as a map from hardware to network addresses\<close>

definition arp_abs :: "arp_table \<Rightarrow> mac_address \<rightharpoonup> ip_address" where
  "arp_abs t m = map_option (\<lambda>i. arp_nw_address (arp_mappings t ! i)) (smap_find m (mac_to_idx t))"

lemma arp_abs_ip:
  assumes "arp_ok t"
  shows "arp_abs t m = Some n \<longleftrightarrow>
    (\<exists>i. smap_find n (ip_to_idx t) = Some i \<and> arp_dl_address (arp_mappings t ! i) = m)"
  using arp_ok_mac(3,4) [OF assms] arp_ok_ip(3,4) [OF assms] by (fastforce simp: arp_abs_def)

lemma arp_abs_drop_pair:
  assumes "arp_ok t" "smap_find m (mac_to_idx t) = Some i"
  shows "arp_abs (drop_pair m i e t) = (arp_abs t)(m := None)"
proof
  fix k
  show "arp_abs (drop_pair m i e t) k = ((arp_abs t)(m := None)) k"
  proof (cases "k = m")
    case False
    have "j \<noteq> i" if "smap_find k (mac_to_idx t) = Some j" for j
      using arp_ok_mac(3) [OF assms(1) that] arp_ok_mac(3) [OF assms] False by metis
    with False show ?thesis
      by (cases "smap_find k (mac_to_idx t)") (simp_all add: arp_abs_def drop_pair_def smap_find_erase)
  qed (simp add: arp_abs_def drop_pair_def smap_find_erase)
qed

lemma arp_remove_mac_abs:
  assumes "arp_ok t"
  shows "\<exists>t'. arp_remove_mac m t = Inr t' \<and> arp_ok t' \<and> arp_abs t' = (arp_abs t)(m := None)
    \<and> smap_find m (mac_to_idx t') = None \<and> arp_max_capacity t' = arp_max_capacity t
    \<and> length (arp_mappings t') = length (arp_mappings t)"
proof (cases "smap_find m (mac_to_idx t)")
  case None
  then show ?thesis using assms by (auto simp: arp_remove_mac_eq arp_abs_def)
next
  case (Some i)
  with assms show ?thesis
    by (simp add: arp_remove_mac_eq arp_abs_drop_pair arp_ok_drop_pair) (simp add: drop_pair_def smap_find_erase)
qed

lemma arp_remove_ip_abs:
  assumes "arp_ok t"
  shows "\<exists>t'. arp_remove_ip n t = Inr t' \<and> arp_ok t'
    \<and> arp_abs t' = (\<lambda>k. if arp_abs t k = Some n then None else arp_abs t k)
    \<and> smap_find n (ip_to_idx t') = None \<and> arp_max_capacity t' = arp_max_capacity t
    \<and> length (arp_mappings t') = length (arp_mappings t)
    \<and> (\<forall>k. smap_find k (mac_to_idx t) = None \<longrightarrow> smap_find k (mac_to_idx t') = None)"
proof (cases "smap_find n (ip_to_idx t)")
  case None
  then have "arp_abs t k \<noteq> Some n" for k by (simp add: arp_abs_ip [OF assms])
  with None show ?thesis using assms by (auto simp: arp_remove_ip_eq)
next
  case (Some i)
  note i = arp_ip_mac [OF assms Some]
  have "arp_abs t k = Some n \<longleftrightarrow> k = arp_dl_address (arp_mappings t ! i)" for k
    using Some by (auto simp: arp_abs_ip [OF assms])
  then have "(\<lambda>k. if arp_abs t k = Some n then None else arp_abs t k) = (arp_abs t)(arp_dl_address (arp_mappings t ! i) := None)"
    by auto
  with Some i arp_ok_ip(3) [OF assms Some] assms show ?thesis
    by (simp add: arp_remove_ip_eq arp_abs_drop_pair arp_ok_drop_pair) (simp add: drop_pair_def smap_find_erase)
qed

text \<open>What is left for \<open>arp_add\<close> when neither address is in a map: a free slot, or a search without end.\<close>

lemma arp_add_abs:
  assumes ok: "arp_ok t" and new: "smap_find dl (mac_to_idx t) = None" "smap_find nw (ip_to_idx t) = None"
    and e: "arp_valid e" "arp_dl_address e = dl" "arp_nw_address e = nw" and cap: "0 < arp_max_capacity t"
  shows "(if \<forall>i < arp_max_capacity t. arp_valid (arp_mappings t ! i) then arp_add dl nw e t = Inl Diverges
    else \<exists>t'. arp_add dl nw e t = Inr (True, t') \<and> arp_ok t' \<and> arp_abs t' = (arp_abs t)(dl \<mapsto> nw))"
proof (cases "\<forall>i < arp_max_capacity t. arp_valid (arp_mappings t ! i)")
  case True
  with get_free_index_cases [OF cap arp_ok_base(3) [OF ok]] show ?thesis by (auto simp: arp_add_def)
next
  case False
  then obtain i where i: "i < arp_max_capacity t" "\<not> arp_valid (arp_mappings t ! i)"
    "get_free_index t = Inr (Some i, t\<lparr>last_search_slot := i\<rparr>)"
    using get_free_index_cases [OF cap arp_ok_base(3) [OF ok]] by blast
  have len: "i < length (arp_mappings t)" using i(1) arp_ok_base(3) [OF ok] by simp
  let ?t = "set_slot i e (t\<lparr>last_search_slot := i, mac_to_idx := smap_put dl i (mac_to_idx t), ip_to_idx := smap_put nw i (ip_to_idx t)\<rparr>)"
  have "arp_ok ?t"
    by (rule arp_ok_put [OF ok new len i(2) e]) (simp_all add: set_slot_def)
  moreover have "arp_abs ?t = (arp_abs t)(dl \<mapsto> nw)"
  proof
    fix k
    have "j \<noteq> i" if "smap_find k (mac_to_idx t) = Some j" for j
      using arp_ok_mac(2) [OF ok that] i(2) by metis
    then show "arp_abs ?t k = ((arp_abs t)(dl \<mapsto> nw)) k"
      using len e by (cases "smap_find k (mac_to_idx t)") (auto simp: arp_abs_def set_slot_def smap_find_put)
  qed
  moreover have "arp_add dl nw e t = Inr (True, ?t)" by (simp add: arp_add_def i(3))
  ultimately show ?thesis using False by auto
qed

lemma is_mapping_correct_abs:
  assumes "arp_ok t"
  shows "is_mapping_correct dl nw t \<longleftrightarrow> arp_abs t dl = Some nw"
  using arp_ok_mac(3,4) [OF assms] arp_ok_ip(3,4) [OF assms]
  by (fastforce simp: is_mapping_correct_def arp_abs_def split: option.splits)

text \<open>The map after a pair is filed: what either address was paired with before is gone.\<close>

definition pair_put :: "mac_address \<Rightarrow> ip_address \<Rightarrow> (mac_address \<rightharpoonup> ip_address) \<Rightarrow> mac_address \<rightharpoonup> ip_address" where
  "pair_put dl nw f = (\<lambda>k. if k = dl then Some nw else if f k = Some nw then None else f k)"

lemma arp_remove_valid:
  assumes ok: "arp_ok t" and t1: "arp_remove_mac dl t = Inr t1" and t2: "arp_remove_ip nw t1 = Inr t2"
  shows "arp_valid (arp_mappings t2 ! j) \<longleftrightarrow>
    arp_valid (arp_mappings t ! j) \<and> smap_find dl (mac_to_idx t) \<noteq> Some j \<and> smap_find nw (ip_to_idx t) \<noteq> Some j"
proof -
  obtain t1' where "arp_remove_mac dl t = Inr t1'" "arp_ok t1'" using arp_ok_remove(1) [OF ok] by blast
  then have ok1: "arp_ok t1" using t1 by simp
  have mac: "arp_valid (arp_mappings t1 ! j) \<longleftrightarrow> arp_valid (arp_mappings t ! j) \<and> smap_find dl (mac_to_idx t) \<noteq> Some j" for j
  proof (cases "smap_find dl (mac_to_idx t)")
    case (Some i)
    with arp_ok_mac(1) [OF ok Some] t1 ok show ?thesis
      by (cases "j = i") (auto simp: arp_remove_mac_eq drop_pair_def)
  qed (use t1 ok in \<open>simp add: arp_remove_mac_eq\<close>)
  have ip: "arp_valid (arp_mappings t2 ! j) \<longleftrightarrow> arp_valid (arp_mappings t1 ! j) \<and> smap_find nw (ip_to_idx t1) \<noteq> Some j" for j
  proof (cases "smap_find nw (ip_to_idx t1)")
    case (Some i)
    with arp_ok_ip(1) [OF ok1 Some] t2 ok1 show ?thesis
      by (cases "j = i") (auto simp: arp_remove_ip_eq drop_pair_def)
  qed (use t2 ok1 in \<open>simp add: arp_remove_ip_eq\<close>)
  have "smap_find nw (ip_to_idx t1) = Some j \<longleftrightarrow> smap_find nw (ip_to_idx t) = Some j" if "smap_find dl (mac_to_idx t) \<noteq> Some j" for j
  proof (cases "smap_find dl (mac_to_idx t)")
    case (Some i)
    have "arp_nw_address (arp_mappings t ! i) \<noteq> nw" if "smap_find nw (ip_to_idx t) = Some j"
      using arp_ok_mac(4) [OF ok Some] that \<open>smap_find dl (mac_to_idx t) \<noteq> Some j\<close> Some by auto
    with Some t1 ok show ?thesis by (auto simp: arp_remove_mac_eq drop_pair_def smap_find_erase split: if_splits)
  qed (use t1 ok in \<open>simp add: arp_remove_mac_eq\<close>)
  with mac ip show ?thesis by blast
qed

text \<open>The slots below the capacity are all valid, and neither address owns one of them.\<close>

definition no_slot_for :: "mac_address \<Rightarrow> ip_address \<Rightarrow> arp_table \<Rightarrow> bool" where
  "no_slot_for dl nw t = (\<forall>i < arp_max_capacity t. arp_valid (arp_mappings t ! i)
     \<and> smap_find dl (mac_to_idx t) \<noteq> Some i \<and> smap_find nw (ip_to_idx t) \<noteq> Some i)"

lemma arp_replace_abs:
  assumes ok: "arp_ok t" and cap: "0 < arp_max_capacity t"
    and e: "arp_valid e" "arp_dl_address e = dl" "arp_nw_address e = nw"
  defines "r \<equiv> bindr (arp_remove_mac dl t) (\<lambda>t1. bindr (arp_remove_ip nw t1) (arp_add dl nw e))"
  shows "if no_slot_for dl nw t then r = Inl Diverges
    else \<exists>t'. r = Inr (True, t') \<and> arp_ok t' \<and> arp_abs t' = pair_put dl nw (arp_abs t)"
proof -
  obtain t1 where t1: "arp_remove_mac dl t = Inr t1" "arp_ok t1" "arp_abs t1 = (arp_abs t)(dl := None)"
    "smap_find dl (mac_to_idx t1) = None" "arp_max_capacity t1 = arp_max_capacity t"
    using arp_remove_mac_abs [OF ok] by blast
  obtain t2 where t2: "arp_remove_ip nw t1 = Inr t2" "arp_ok t2"
    "arp_abs t2 = (\<lambda>k. if arp_abs t1 k = Some nw then None else arp_abs t1 k)"
    "smap_find nw (ip_to_idx t2) = None" "arp_max_capacity t2 = arp_max_capacity t1"
    "\<forall>k. smap_find k (mac_to_idx t1) = None \<longrightarrow> smap_find k (mac_to_idx t2) = None"
    using arp_remove_ip_abs [OF t1(2)] by blast
  have r: "r = arp_add dl nw e t2" by (simp add: r_def t1(1) t2(1))
  have cap2: "arp_max_capacity t2 = arp_max_capacity t" by (simp add: t1(5) t2(5))
  have full: "no_slot_for dl nw t \<longleftrightarrow> (\<forall>i < arp_max_capacity t2. arp_valid (arp_mappings t2 ! i))"
    by (simp add: no_slot_for_def cap2 arp_remove_valid [OF ok t1(1) t2(1)])
  have new: "smap_find dl (mac_to_idx t2) = None" using t2(6) t1(4) by simp
  have abs: "(arp_abs t2)(dl \<mapsto> nw) = pair_put dl nw (arp_abs t)"
    by (auto simp: t2(3) t1(3) pair_put_def)
  from arp_add_abs [OF t2(2) new t2(4) e] cap show ?thesis
    unfolding r full cap2 abs by simp
qed

lemma arp_insert_abs_cases:
  assumes ok: "arp_ok t" and cap: "0 < arp_max_capacity t" and addr: "\<not> mac_is_nil dl" "\<not> ip_is_nil nw" "\<not> is_gateway nw"
  shows "if arp_abs t dl = Some nw then arp_insert now dl nw t = Inr (True, t)
    else if no_slot_for dl nw t then arp_insert now dl nw t = Inl Diverges
    else \<exists>t'. arp_insert now dl nw t = Inr (True, t') \<and> arp_ok t' \<and> arp_abs t' = pair_put dl nw (arp_abs t)"
proof -
  have "arp_valid (arp_entry_new now dl nw)" "arp_dl_address (arp_entry_new now dl nw) = dl"
    "arp_nw_address (arp_entry_new now dl nw) = nw" by (simp_all add: arp_entry_new_def)
  from arp_replace_abs [OF ok cap this] show ?thesis
    by (simp add: arp_insert_def addr is_mapping_correct_abs [OF ok])
qed

lemma arp_add_no_capacity: "arp_max_capacity t = 0 \<Longrightarrow> arp_add dl nw e t = Inl OutOfBounds"
  by (simp add: arp_add_def get_free_index_def)

lemma arp_replace_no_capacity:
  assumes "arp_ok t" "arp_max_capacity t = 0"
  shows "bindr (arp_remove_mac dl t) (\<lambda>t1. bindr (arp_remove_ip nw t1) (arp_add dl nw e)) = Inl OutOfBounds"
proof -
  obtain t1 where t1: "arp_remove_mac dl t = Inr t1" "arp_ok t1" "arp_max_capacity t1 = arp_max_capacity t"
    using arp_remove_mac_abs [OF assms(1)] by blast
  obtain t2 where "arp_remove_ip nw t1 = Inr t2" "arp_max_capacity t2 = arp_max_capacity t1"
    using arp_remove_ip_abs [OF t1(2)] by blast
  with t1 assms(2) show ?thesis by (simp add: arp_add_no_capacity)
qed

lemma arp_ok_insert:
  assumes "arp_ok t" "\<not> is_gateway nw" "arp_insert now dl nw t = Inr (b, t')"
  shows "arp_ok t'"
proof (cases "mac_is_nil dl \<or> ip_is_nil nw \<or> is_mapping_correct dl nw t")
  case True
  with assms show ?thesis by (auto simp: arp_insert_def split: if_splits)
next
  case False
  show ?thesis
  proof (cases "arp_max_capacity t = 0")
    case True
    with False assms show ?thesis by (simp add: arp_insert_def arp_replace_no_capacity)
  next
    case cap: False
    with False arp_insert_abs_cases [OF assms(1), of dl nw now] assms show ?thesis
      by (auto split: if_splits)
  qed
qed

lemma arp_ok_insert_persistent:
  assumes "arp_ok t" "arp_insert_persistent now dl nw t = Inr (b, t')"
  shows "arp_ok t'"
proof (cases "arp_max_capacity t = 0")
  case True
  with assms show ?thesis by (auto simp: arp_insert_persistent_def arp_replace_no_capacity split: if_splits)
next
  case False
  with assms arp_replace_abs [OF assms(1), of "(arp_entry_new now dl nw)\<lparr>persistent := True\<rparr>" dl nw] show ?thesis
    by (auto simp: arp_insert_persistent_def arp_entry_new_def split: if_splits)
qed

lemma get_arp_loop_eq:
  assumes "arp_ok t" "\<forall>(m, i) \<in> set todo. smap_find m (mac_to_idx t) = Some i"
  shows "get_arp_loop now todo t =
    (if \<exists>(m, i) \<in> set todo. \<not> persistent (arp_mappings t ! i) \<and> arp_timed_out now t (arp_mappings t ! i)
     then Inl OutOfBounds else Inr (map (\<lambda>(m, i). arp_mappings t ! i) todo, t))"
  using assms
proof (induction todo)
  case (Cons p todo)
  obtain m i where p: "p = (m, i)" by (cases p)
  have find: "smap_find m (mac_to_idx t) = Some i" using Cons.prems p by simp
  have drop: "smap_find m (mac_to_idx (drop_pair m i e t)) = None" for e by (simp add: drop_pair_def smap_find_erase)
  show ?case
    using Cons arp_ok_mac(5) [OF Cons.prems(1) find] drop
    by (auto simp: p is_entry_usable_cases [OF Cons.prems(1) find refl])
qed simp

lemma get_arp_table_eq:
  assumes "arp_ok t"
  shows "get_arp_table now t =
    (if \<exists>(m, i) \<in> set (mac_to_idx t). \<not> persistent (arp_mappings t ! i) \<and> arp_timed_out now t (arp_mappings t ! i)
     then Inl OutOfBounds else Inr (map (\<lambda>(m, i). arp_mappings t ! i) (mac_to_idx t), t))"
  unfolding get_arp_table_def
  by (rule get_arp_loop_eq [OF assms]) (use todo_ok_all [OF assms] in \<open>simp add: todo_ok_def\<close>)

section \<open>Every run of a table\<close>

text \<open>The operations that the service calls, in any order; the entries that are learnt are not of gateways.\<close>

inductive arp_reach :: "arp_table \<Rightarrow> bool" where
  reach_new: "arp_reach (arp_table_new now)"
| reach_insert: "arp_reach t \<Longrightarrow> \<not> is_gateway nw \<Longrightarrow> arp_insert now dl nw t = Inr (b, t') \<Longrightarrow> arp_reach t'"
| reach_persistent: "arp_reach t \<Longrightarrow> arp_insert_persistent now dl nw t = Inr (b, t') \<Longrightarrow> arp_reach t'"
| reach_remove_mac: "arp_reach t \<Longrightarrow> arp_remove_mac dl t = Inr t' \<Longrightarrow> arp_reach t'"
| reach_remove_ip: "arp_reach t \<Longrightarrow> arp_remove_ip nw t = Inr t' \<Longrightarrow> arp_reach t'"
| reach_lookup_mac: "arp_reach t \<Longrightarrow> arp_lookup_mac_for now nw t = Inr (a, t') \<Longrightarrow> arp_reach t'"
| reach_lookup_ip: "arp_reach t \<Longrightarrow> arp_lookup_ip_for now dl t = Inr (n, t') \<Longrightarrow> arp_reach t'"
| reach_get: "arp_reach t \<Longrightarrow> get_arp_table now t = Inr (es, t') \<Longrightarrow> arp_reach t'"
| reach_clear: "arp_reach t \<Longrightarrow> arp_clear t = Inr t' \<Longrightarrow> arp_reach t'"
| reach_clear_all: "arp_reach t \<Longrightarrow> arp_reach (arp_clear_all t)"
| reach_capacity: "arp_reach t \<Longrightarrow> arp_set_max_capacity now c t = Inr t' \<Longrightarrow> arp_reach t'"
| reach_timeout: "arp_reach t \<Longrightarrow> arp_set_timeout now d t = Inr t' \<Longrightarrow> arp_reach t'"

lemma arp_reach_ok: "arp_reach t \<Longrightarrow> arp_ok t"
proof (induction rule: arp_reach.induct)
  case (reach_lookup_mac t now nw a t')
  then show ?case using arp_ok_lookup_mac [of t now nw] by (metis sum.inject(2) prod.inject)
next
  case (reach_lookup_ip t now dl n t')
  then show ?case using arp_ok_lookup_ip [of t now dl] by (metis sum.inject(2) prod.inject)
next
  case (reach_get t now es t')
  then show ?case by (simp add: get_arp_table_eq split: if_splits)
next
  case (reach_remove_mac t dl t')
  then show ?case using arp_ok_remove(1) [of t dl] by auto
next
  case (reach_remove_ip t nw t')
  then show ?case using arp_ok_remove(2) [of t nw] by auto
next
  case (reach_clear t t')
  then show ?case using arp_ok_clear [of t] by auto
next
  case (reach_capacity t now c t')
  then show ?case using arp_ok_set_max_capacity [of t now c] by auto
next
  case (reach_timeout t now d t')
  then show ?case using arp_ok_set_timeout [of t now d] by auto
qed (blast intro: arp_ok_new arp_ok_insert arp_ok_insert_persistent arp_ok_clear_all)+

section \<open>The properties\<close>

text \<open>A one-slot table with one entry, for the witnesses.\<close>

definition arp_one :: "arp_table" where
  "arp_one = set_slot 0 (arp_entry_new 0 mac_broadcast (IP 10 0 0 2)) (arp_table_new 0
     \<lparr>arp_max_capacity := 1, mac_to_idx := [(mac_broadcast, 0)], ip_to_idx := [(IP 10 0 0 2, 0)]\<rparr>)"

lemma mac_broadcast_not_nil: "\<not> mac_is_nil mac_broadcast" "mac_broadcast \<noteq> mac_nil" "mac_is_nil mac_nil"
  by (simp_all add: mac_is_nil_def mac_broadcast_def mac_nil_def)

lemma ip_10_not_nil: "\<not> ip_is_nil (IP 10 0 0 2)" "IP 10 0 0 2 \<noteq> ip_nil" "\<not> is_gateway (IP 10 0 0 2)" "ip_is_nil ip_nil"
  "\<not> ip_is_nil (IP 10 0 0 1)" "is_gateway (IP 10 0 0 1)" "\<not> ip_is_nil (IP 10 0 0 3)" "\<not> is_gateway (IP 10 0 0 3)"
  by (simp_all add: ip_is_nil_iff ip_nil_def is_gateway_def)

lemma arp_reach_one: "arp_reach arp_one"
proof -
  have "arp_garbage_collection 0 (arp_table_new 0\<lparr>arp_max_capacity := 1\<rparr>) = Inr (arp_table_new 0\<lparr>arp_max_capacity := 1\<rparr>)"
    by (simp add: arp_garbage_collection_def arp_table_new_def)
  then have cap: "arp_set_max_capacity 0 1 (arp_table_new 0) = Inr (arp_table_new 0\<lparr>arp_max_capacity := 1\<rparr>)"
    by (simp add: arp_set_max_capacity_def) (simp add: arp_table_new_def)
  let ?t = "arp_table_new 0\<lparr>arp_max_capacity := 1\<rparr>"
  have none: "smap_find dl (mac_to_idx (arp_table_new 0)) = None" "smap_find nw (ip_to_idx (arp_table_new 0)) = None" for dl nw
    by (simp_all add: arp_table_new_def smap_find_def)
  have "get_free_index ?t = Inr (Some 0, ?t\<lparr>last_search_slot := 0\<rparr>)"
  proof -
    have "arp_max_capacity ?t = 1" "length (arp_mappings ?t) = 16384" "\<not> arp_valid (arp_mappings ?t ! 0)"
      by (simp_all add: arp_table_new_def arp_entry_empty_def)
    with get_free_index_cases [of ?t] show ?thesis by auto
  qed
  moreover have "?t\<lparr>last_search_slot := 0\<rparr> = ?t" by (simp add: arp_table_new_def)
  ultimately have "arp_add mac_broadcast (IP 10 0 0 2) (arp_entry_new 0 mac_broadcast (IP 10 0 0 2)) ?t = Inr (True, arp_one)"
    by (simp add: arp_add_def arp_one_def) (simp add: arp_table_new_def)
  then have "arp_insert 0 mac_broadcast (IP 10 0 0 2) ?t = Inr (True, arp_one)"
    by (simp add: arp_insert_def mac_broadcast_not_nil ip_10_not_nil is_mapping_correct_def arp_remove_mac_def arp_remove_ip_def none)
  from reach_insert [OF reach_capacity [OF reach_new cap] ip_10_not_nil(3) this] show ?thesis .
qed

lemma arp_lookup_mac_returns:
  assumes "arp_ok t" "\<not> mac_is_nil m"
  shows "(\<exists>t'. arp_lookup_mac_for now n t = Inr (m, t')) \<longleftrightarrow>
    (\<exists>i. smap_find n (ip_to_idx t) = Some i \<and> arp_dl_address (arp_mappings t ! i) = m
      \<and> (persistent (arp_mappings t ! i) \<or> \<not> arp_timed_out now t (arp_mappings t ! i)))"
proof -
  have "m \<noteq> mac_nil" using assms(2) mac_broadcast_not_nil(3) by metis
  moreover have "is_entry_usable now i (arp_mappings t ! i) t =
      (if persistent (arp_mappings t ! i) \<or> \<not> arp_timed_out now t (arp_mappings t ! i) then (True, t)
       else (False, drop_pair (arp_dl_address (arp_mappings t ! i)) i ((arp_mappings t ! i)\<lparr>arp_valid := False\<rparr>) t))"
    if "smap_find n (ip_to_idx t) = Some i" for i
    by (rule is_entry_usable_cases [OF assms(1) arp_ip_mac [OF assms(1) that] refl])
  ultimately show ?thesis
    using arp_ok_ip(5) [OF assms(1), of n] by (auto simp: arp_lookup_mac_for_def split: option.splits)
qed

lemma arp_lookup_ip_returns:
  assumes "arp_ok t" "\<not> ip_is_nil n"
  shows "(\<exists>t'. arp_lookup_ip_for now m t = Inr (n, t')) \<longleftrightarrow>
    (\<exists>i. smap_find m (mac_to_idx t) = Some i \<and> arp_nw_address (arp_mappings t ! i) = n
      \<and> (persistent (arp_mappings t ! i) \<or> \<not> arp_timed_out now t (arp_mappings t ! i)))"
proof -
  have "n \<noteq> ip_nil" using assms(2) by (simp add: ip_is_nil_iff)
  moreover have "is_entry_usable now i (arp_mappings t ! i) t =
      (if persistent (arp_mappings t ! i) \<or> \<not> arp_timed_out now t (arp_mappings t ! i) then (True, t)
       else (False, drop_pair m i ((arp_mappings t ! i)\<lparr>arp_valid := False\<rparr>) t))"
    if "smap_find m (mac_to_idx t) = Some i" for i
    by (rule is_entry_usable_cases [OF assms(1) that refl])
  ultimately show ?thesis
    using arp_ok_mac(5) [OF assms(1), of m] by (auto simp: arp_lookup_ip_for_def split: option.splits)
qed

text \<open>C16. After any run of a table in which no gateway was learnt the two lookups are inverse to each
  other: the hardware address found for a network address is the one under which that network address is
  found, at the same time. Neither lookup ever faults.\<close>

theorem arp_lookups_inverse:
  assumes "arp_reach t" "\<not> mac_is_nil m" "\<not> ip_is_nil n"
  shows "((\<exists>t'. arp_lookup_mac_for now n t = Inr (m, t')) \<longleftrightarrow> (\<exists>t'. arp_lookup_ip_for now m t = Inr (n, t')))
    \<and> (\<exists>a t'. arp_lookup_mac_for now n t = Inr (a, t')) \<and> (\<exists>a t'. arp_lookup_ip_for now m t = Inr (a, t'))"
proof -
  note ok = arp_reach_ok [OF assms(1)]
  have "(\<exists>t'. arp_lookup_mac_for now n t = Inr (m, t')) \<longleftrightarrow> (\<exists>t'. arp_lookup_ip_for now m t = Inr (n, t'))"
    unfolding arp_lookup_mac_returns [OF ok assms(2)] arp_lookup_ip_returns [OF ok assms(3)]
    using arp_ok_mac(3,4) [OF ok] arp_ok_ip(3,4) [OF ok] by blast
  then show ?thesis by (meson arp_ok_lookup_mac [OF ok] arp_ok_lookup_ip [OF ok])
qed

lemma arp_one_simps:
  "mac_to_idx arp_one = [(mac_broadcast, 0)]" "ip_to_idx arp_one = [(IP 10 0 0 2, 0)]" "arp_max_capacity arp_one = 1"
  "arp_mappings arp_one ! 0 = arp_entry_new 0 mac_broadcast (IP 10 0 0 2)" "0 < length (arp_mappings arp_one)"
  "slot arp_one 0 = Inr (arp_entry_new 0 mac_broadcast (IP 10 0 0 2))" "arp_timeout_sec arp_one = 14400"
  by (simp_all add: arp_one_def arp_table_new_def set_slot_def slot_def)

lemma arp_lookups_inverse_witness:
  "\<exists>t'. arp_lookup_mac_for 5 (IP 10 0 0 2) arp_one = Inr (mac_broadcast, t')"
proof -
  have "\<exists>t'. arp_lookup_ip_for 5 mac_broadcast arp_one = Inr (IP 10 0 0 2, t')"
    by (simp add: arp_lookup_ip_for_def arp_one_simps smap_find_def is_entry_usable_def arp_timed_out_def
        arp_entry_new_def timeout_ms_def get_time_elapsed_ms_def timer_reset_def signed_take_bit_int_eq_self)
  with arp_lookups_inverse [OF arp_reach_one mac_broadcast_not_nil(1) ip_10_not_nil(1), of 5] show ?thesis by blast
qed

text \<open>C20. The table implements a one-to-one map between hardware and network addresses: learning a pair
  that is not known replaces what either address was paired with and keeps every other pair; a known pair
  changes nothing. The one other outcome is a search that never ends: it happens exactly if every slot
  below the capacity is marked valid and neither address owns one of them.\<close>

theorem arp_insert_refines_map:
  assumes "arp_reach t" "0 < arp_max_capacity t" "\<not> mac_is_nil dl" "\<not> ip_is_nil nw" "\<not> is_gateway nw"
  shows "if arp_abs t dl = Some nw then arp_insert now dl nw t = Inr (True, t)
    else if no_slot_for dl nw t then arp_insert now dl nw t = Inl Diverges
    else \<exists>t'. arp_insert now dl nw t = Inr (True, t')
      \<and> arp_abs t' = (\<lambda>k. if k = dl then Some nw else if arp_abs t k = Some nw then None else arp_abs t k)"
  using arp_insert_abs_cases [OF arp_reach_ok [OF assms(1)] assms(2-5), of now]
  unfolding pair_put_def by (metis (no_types, lifting))

lemma arp_insert_refines_map_witness:
  "\<exists>t'. arp_insert 3 mac_broadcast (IP 10 0 0 3) arp_one = Inr (True, t')
    \<and> arp_abs t' = [mac_broadcast \<mapsto> IP 10 0 0 3]"
proof -
  have abs: "arp_abs arp_one = [mac_broadcast \<mapsto> IP 10 0 0 2]"
    by (rule ext) (simp add: arp_abs_def arp_one_simps smap_find_def arp_entry_new_def)
  have slot: "\<not> no_slot_for mac_broadcast (IP 10 0 0 3) arp_one"
    by (simp add: no_slot_for_def arp_one_simps smap_find_def)
  from arp_insert_refines_map [OF arp_reach_one _ mac_broadcast_not_nil(1) ip_10_not_nil(7,8), of 3]
  obtain t' where t': "arp_insert 3 mac_broadcast (IP 10 0 0 3) arp_one = Inr (True, t')"
    and eq: "arp_abs t' = (\<lambda>k. if k = mac_broadcast then Some (IP 10 0 0 3)
      else if arp_abs arp_one k = Some (IP 10 0 0 3) then None else arp_abs arp_one k)"
    using slot by (auto simp: abs arp_one_simps)
  have "arp_abs t' = [mac_broadcast \<mapsto> IP 10 0 0 3]" unfolding eq abs by (rule ext) simp
  with t' show ?thesis by blast
qed

text \<open>\<open>clear()\<close> loses the slots: on a full table without persistent entries it reports every slot as
  available again, and the next address learnt searches for a free one without end.\<close>

theorem arp_clear_leaks_slots:
  assumes "arp_reach t" "0 < arp_max_capacity t" "\<forall>i < arp_max_capacity t. arp_valid (arp_mappings t ! i)"
    "\<forall>(m, i) \<in> set (mac_to_idx t). \<not> persistent (arp_mappings t ! i)"
    "\<not> mac_is_nil dl" "\<not> ip_is_nil nw" "\<not> is_gateway nw"
  shows "\<exists>t'. arp_clear t = Inr t' \<and> arp_available_capacity t' = arp_max_capacity t'
    \<and> arp_insert now dl nw t' = Inl Diverges"
proof -
  note ok = arp_reach_ok [OF assms(1)]
  obtain t' where t': "arp_clear t = Inr t'" "arp_ok t'" "arp_mappings t' = arp_mappings t" "arp_max_capacity t' = arp_max_capacity t"
    and f: "\<forall>m. smap_find m (mac_to_idx t') = (case smap_find m (mac_to_idx t) of None \<Rightarrow> None
         | Some i \<Rightarrow> if \<not> persistent (arp_mappings t ! i) then None else Some i)"
    using arp_ok_clear [OF ok] by blast
  have "\<not> persistent (arp_mappings t ! i)" if "smap_find m (mac_to_idx t) = Some i" for m i
    using that assms(4) arp_ok_base(1) [OF ok] by (auto simp: smap_find_in)
  with f have none: "smap_find m (mac_to_idx t') = None" for m by (auto split: option.split)
  have "mac_to_idx t' = []"
    using none arp_ok_base(1) [OF t'(2)] by (metis list.set_cases neq_Nil_conv option.distinct(1) smap_find_in surj_pair list.set_intros(1))
  moreover have abs: "arp_abs t' dl = None" by (simp add: arp_abs_def none)
  moreover have "smap_find nw (ip_to_idx t') = None"
    using none arp_ok_ip(4) [OF t'(2), of nw] by (cases "smap_find nw (ip_to_idx t')") auto
  ultimately have "no_slot_for dl nw t'" using none assms(3) t'(3,4) by (simp add: no_slot_for_def)
  with arp_insert_abs_cases [OF t'(2) _ assms(5-7), of now] abs assms(2) t'(1,4) \<open>mac_to_idx t' = []\<close> show ?thesis
    by (auto simp: arp_available_capacity_def)
qed

lemma arp_clear_leaks_slots_witness:
  "\<exists>t'. arp_clear arp_one = Inr t' \<and> arp_available_capacity t' = arp_max_capacity t'
    \<and> arp_insert 9 mac_broadcast (IP 10 0 0 3) t' = Inl Diverges"
  by (rule arp_clear_leaks_slots [OF arp_reach_one _ _ _ mac_broadcast_not_nil(1) ip_10_not_nil(7,8)])
    (simp_all add: arp_one_simps arp_entry_new_def)

text \<open>\<open>get_arp_table\<close> erases from the map its loop runs over: it returns the entries, and then leaves the
  table as it is, exactly if no entry that is not persistent has timed out; otherwise it advances an iterator
  to an erased element.\<close>

theorem get_arp_table_returns_iff:
  assumes "arp_reach t"
  shows "get_arp_table now t =
    (if \<exists>(m, i) \<in> set (mac_to_idx t). \<not> persistent (arp_mappings t ! i)
         \<and> timeout_ms (arp_timeout_sec t) \<le> get_time_elapsed_ms now (arp_last_updated (arp_mappings t ! i))
     then Inl OutOfBounds else Inr (map (\<lambda>(m, i). arp_mappings t ! i) (mac_to_idx t), t))"
  using get_arp_table_eq [OF arp_reach_ok [OF assms]] by (simp add: arp_timed_out_def)

lemma get_arp_table_returns_iff_witness: "get_arp_table 14400000 arp_one = Inl OutOfBounds"
  unfolding get_arp_table_returns_iff [OF arp_reach_one]
  by (simp add: arp_one_simps arp_entry_new_def timeout_ms_def get_time_elapsed_ms_def timer_reset_def
      signed_take_bit_int_eq_self)

text \<open>Learning a gateway for a hardware address that is already paired leaves a stale pair behind:
  removing the hardware address afterwards does not remove that pair, and the old network address is still
  looked up to the hardware address.\<close>

theorem gateway_remove_incomplete:
  assumes "arp_reach t" "smap_find dl (mac_to_idx t) = Some i" "arp_nw_address (arp_mappings t ! i) = old"
    "persistent (arp_mappings t ! i) \<or> \<not> arp_timed_out now t (arp_mappings t ! i)" "is_gateway nw" "smap_find nw (ip_to_idx t) = None"
    "\<not> mac_is_nil dl" "\<not> ip_is_nil nw" "arp_insert now dl nw t = Inr (True, t')"
  shows "\<exists>t''. arp_remove_mac dl t' = Inr t'' \<and> (\<exists>t3. arp_lookup_mac_for now old t'' = Inr (dl, t3))"
proof -
  note ok = arp_reach_ok [OF assms(1)]
  note i = arp_ok_mac [OF ok assms(2)]
  have add: "arp_add dl nw (arp_entry_new now dl nw) t = Inr (True, t')"
    using assms(5-9) by (simp add: arp_insert_def)
  have cap: "0 < arp_max_capacity t"
    using add by (cases "arp_max_capacity t = 0") (auto simp: arp_add_no_capacity)
  from get_free_index_cases [OF cap arp_ok_base(3) [OF ok]] add
  obtain j where j: "j < arp_max_capacity t" "\<not> arp_valid (arp_mappings t ! j)"
    "get_free_index t = Inr (Some j, t\<lparr>last_search_slot := j\<rparr>)"
    by (auto simp: arp_add_def)
  have ne: "j \<noteq> i" "old \<noteq> nw" using i(2,4) j(2) assms(3,6) by auto
  have len: "j < length (arp_mappings t)" using j(1) arp_ok_base(3) [OF ok] by simp
  have t': "t' = set_slot j (arp_entry_new now dl nw)
      (t\<lparr>last_search_slot := j, mac_to_idx := smap_put dl j (mac_to_idx t), ip_to_idx := smap_put nw j (ip_to_idx t)\<rparr>)"
    using add by (simp add: arp_add_def j(3))
  obtain t'' where t'': "arp_remove_mac dl t' = Inr t''" "ip_to_idx t'' = smap_erase nw (smap_put nw j (ip_to_idx t))"
    "arp_mappings t'' = (arp_mappings t)[j := (arp_entry_new now dl nw)\<lparr>arp_valid := False\<rparr>]"
    "arp_timeout_sec t'' = arp_timeout_sec t"
    using len by (simp add: t' arp_remove_mac_def set_slot_def slot_def smap_find_put arp_entry_new_def)
  have "smap_find old (ip_to_idx t'') = Some i" "arp_mappings t'' ! i = arp_mappings t ! i" "i < length (arp_mappings t'')"
    using i(1,4) ne assms(3) by (simp_all add: t'' smap_find_erase smap_find_put)
  then have "\<exists>t3. arp_lookup_mac_for now old t'' = Inr (dl, t3)"
    using i(2,3) assms(4) t''(4) by (auto simp: arp_lookup_mac_for_def slot_def is_entry_usable_def arp_timed_out_def)
  with t''(1) show ?thesis by blast
qed

lemma gateway_remove_incomplete_witness:
  "\<exists>t t' t'' t3. arp_insert 7 mac_broadcast (IP 10 0 0 1) t = Inr (True, t') \<and> arp_remove_mac mac_broadcast t' = Inr t''
    \<and> arp_lookup_mac_for 7 (IP 10 0 0 2) t'' = Inr (mac_broadcast, t3)"
proof -
  let ?t = "arp_one\<lparr>arp_max_capacity := 2, arp_mappings := arp_mappings arp_one @ [arp_entry_empty 5]\<rparr>"
  have "arp_set_max_capacity 5 2 arp_one = Inr ?t"
    by (simp add: arp_set_max_capacity_def arp_one_simps)
  from reach_capacity [OF arp_reach_one this] have r: "arp_reach ?t" .
  have find: "smap_find mac_broadcast (mac_to_idx ?t) = Some 0" "smap_find (IP 10 0 0 1) (ip_to_idx ?t) = None"
    by (simp_all add: arp_one_simps smap_find_def)
  have e: "arp_mappings ?t ! 0 = arp_entry_new 0 mac_broadcast (IP 10 0 0 2)"
    using arp_one_simps(4,5) by (simp add: nth_append)
  have live: "\<not> arp_timed_out 7 ?t (arp_mappings ?t ! 0)"
    unfolding e by (simp add: arp_timed_out_def arp_one_simps arp_entry_new_def timeout_ms_def
        get_time_elapsed_ms_def timer_reset_def signed_take_bit_int_eq_self)
  have free: "\<not> arp_valid (arp_mappings ?t ! 1)"
    by (simp add: arp_one_def set_slot_def arp_table_new_def arp_entry_empty_def nth_append)
  have "\<exists>t'. arp_insert 7 mac_broadcast (IP 10 0 0 1) ?t = Inr (True, t')"
    using get_free_index_cases [of ?t] free arp_one_simps(5) find(2)
    by (auto simp: arp_insert_def mac_broadcast_not_nil ip_10_not_nil arp_add_def)
  then obtain t' where t': "arp_insert 7 mac_broadcast (IP 10 0 0 1) ?t = Inr (True, t')" by blast
  have old: "arp_nw_address (arp_mappings ?t ! 0) = IP 10 0 0 2" unfolding e by (simp add: arp_entry_new_def)
  from gateway_remove_incomplete [OF r find(1) old disjI2 [OF live] ip_10_not_nil(6) find(2)
      mac_broadcast_not_nil(1) ip_10_not_nil(5) t'] t'
  show ?thesis by blast
qed

end
