(* ===== verification/Arp_Service.thy ===== *)
theory Arp_Service
  imports Arp_Table
begin

text \<open>
  The tables and the pending queries of \<open>controller/services/arp.{h,cpp}\<close>: one ARP table for each VLAN, and the queries
  that callers wait for. A \<open>pending_query_t\<close> object is shared by the map and by the callers that wait for it: it is an index
  into the list of all of them.
\<close>

record pending_query =
  ip_to_query :: ip_address
  result_mac :: mac_address
  query_status :: bool

record arp_service =
  arp_initialized :: bool
  arp_tables :: "(16 word, arp_table) smap"
  queries :: "pending_query list"
  pending_queries :: "(ip_address, nat) smap"
  requests_forwarded :: "32 word"
  requests_serviced :: "32 word"
  requests_made :: "32 word"

definition arp_service_new :: arp_service where
  "arp_service_new = \<lparr>arp_initialized = False, arp_tables = [], queries = [], pending_queries = [], requests_forwarded = 0,
     requests_serviced = 0, requests_made = 0\<rparr>"

text \<open>\<open>init\<close> also registers the filter with the packet processor, and fails without one.\<close>

definition arp_init :: "bool \<Rightarrow> arp_service \<Rightarrow> bool \<times> arp_service" where
  "arp_init has_processor s =
    (if arp_initialized s then (True, s)
     else let s1 = s\<lparr>requests_forwarded := 0, requests_serviced := 0, requests_made := 0\<rparr> in
       if \<not> has_processor then (False, s1) else (True, s1\<lparr>arp_initialized := True\<rparr>))"

definition arp_shutdown :: "arp_service \<Rightarrow> arp_service" where
  "arp_shutdown s = s\<lparr>arp_initialized := False, pending_queries := []\<rparr>"

section \<open>Tables\<close>

definition create_arp_table :: "int \<Rightarrow> 16 word \<Rightarrow> arp_service \<Rightarrow> arp_service" where
  "create_arp_table now vlan s =
    (if smap_find vlan (arp_tables s) \<noteq> None then s
     else s\<lparr>arp_tables := smap_put vlan (arp_table_new now) (arp_tables s)\<rparr>)"

definition remove_arp_table :: "16 word \<Rightarrow> arp_service \<Rightarrow> arp_service" where
  "remove_arp_table vlan s = s\<lparr>arp_tables := smap_erase vlan (arp_tables s)\<rparr>"

definition remove_all_arp_tables :: "arp_service \<Rightarrow> arp_service" where
  "remove_all_arp_tables s = s\<lparr>arp_tables := []\<rparr>"

definition get_arp_vlans :: "arp_service \<Rightarrow> 16 word set" where
  "get_arp_vlans s = set (map fst (arp_tables s))"

text \<open>An operation on the table of one VLAN, with the result for a VLAN without a table, and an operation on every table.\<close>

definition at_arp_table :: "16 word \<Rightarrow> 'a \<Rightarrow> (arp_table \<Rightarrow> ('a \<times> arp_table) res) \<Rightarrow> arp_service \<Rightarrow> ('a \<times> arp_service) res" where
  "at_arp_table vlan none f s =
    (case smap_find vlan (arp_tables s) of None \<Rightarrow> Inr (none, s)
     | Some t \<Rightarrow> bindr (f t) (\<lambda>(r, t'). Inr (r, s\<lparr>arp_tables := smap_put vlan t' (arp_tables s)\<rparr>)))"

fun each_arp_table :: "(arp_table \<Rightarrow> arp_table res) \<Rightarrow> (16 word, arp_table) smap \<Rightarrow> (16 word, arp_table) smap res" where
  "each_arp_table f [] = Inr []"
| "each_arp_table f ((v, t) # m) = bindr (f t) (\<lambda>t'. bindr (each_arp_table f m) (\<lambda>m'. Inr ((v, t') # m')))"

definition on_all_arp_tables :: "(arp_table \<Rightarrow> arp_table res) \<Rightarrow> arp_service \<Rightarrow> arp_service res" where
  "on_all_arp_tables f s = bindr (each_arp_table f (arp_tables s)) (\<lambda>m. Inr (s\<lparr>arp_tables := m\<rparr>))"

definition quiet :: "(unit \<times> 'a) res \<Rightarrow> 'a res" where
  "quiet r = bindr r (\<lambda>(u, x). Inr x)"

definition as_unit :: "'a res \<Rightarrow> (unit \<times> 'a) res" where
  "as_unit r = bindr r (\<lambda>x. Inr ((), x))"

definition clear_arp_table :: "16 word \<Rightarrow> arp_service \<Rightarrow> arp_service res" where
  "clear_arp_table vlan s = quiet (at_arp_table vlan () (\<lambda>t. as_unit (arp_clear t)) s)"

definition clear_all_arp_tables :: "arp_service \<Rightarrow> arp_service res" where
  "clear_all_arp_tables = on_all_arp_tables arp_clear"

definition arp_put :: "int \<Rightarrow> mac_address \<Rightarrow> ip_address \<Rightarrow> bool \<Rightarrow> arp_table \<Rightarrow> arp_table res" where
  "arp_put now dl nw lasting t =
     bindr (if lasting then arp_insert_persistent now dl nw t else arp_insert now dl nw t) (\<lambda>(ok, t'). Inr t')"

definition arp_service_insert :: "int \<Rightarrow> mac_address \<Rightarrow> ip_address \<Rightarrow> 16 word \<Rightarrow> bool \<Rightarrow> arp_service \<Rightarrow> arp_service res" where
  "arp_service_insert now dl nw vlan lasting s =
     quiet (at_arp_table vlan () (\<lambda>t. as_unit (arp_put now dl nw lasting t)) s)"

definition arp_insert_all :: "int \<Rightarrow> mac_address \<Rightarrow> ip_address \<Rightarrow> bool \<Rightarrow> arp_service \<Rightarrow> arp_service res" where
  "arp_insert_all now dl nw lasting = on_all_arp_tables (arp_put now dl nw lasting)"

definition arp_service_lookup_ip :: "int \<Rightarrow> mac_address \<Rightarrow> 16 word \<Rightarrow> arp_service \<Rightarrow> (ip_address \<times> arp_service) res" where
  "arp_service_lookup_ip now dl vlan = at_arp_table vlan ip_nil (arp_lookup_ip_for now dl)"

definition arp_service_lookup_mac :: "int \<Rightarrow> ip_address \<Rightarrow> 16 word \<Rightarrow> arp_service \<Rightarrow> (mac_address \<times> arp_service) res" where
  "arp_service_lookup_mac now nw vlan = at_arp_table vlan mac_nil (arp_lookup_mac_for now nw)"

definition arp_service_remove_mac :: "mac_address \<Rightarrow> 16 word \<Rightarrow> arp_service \<Rightarrow> arp_service res" where
  "arp_service_remove_mac dl vlan s = quiet (at_arp_table vlan () (\<lambda>t. as_unit (arp_remove_mac dl t)) s)"

definition arp_service_remove_ip :: "ip_address \<Rightarrow> 16 word \<Rightarrow> arp_service \<Rightarrow> arp_service res" where
  "arp_service_remove_ip nw vlan s = quiet (at_arp_table vlan () (\<lambda>t. as_unit (arp_remove_ip nw t)) s)"

definition arp_remove_all_mac :: "mac_address \<Rightarrow> arp_service \<Rightarrow> arp_service res" where
  "arp_remove_all_mac dl = on_all_arp_tables (arp_remove_mac dl)"

definition arp_remove_all_ip :: "ip_address \<Rightarrow> arp_service \<Rightarrow> arp_service res" where
  "arp_remove_all_ip nw = on_all_arp_tables (arp_remove_ip nw)"

definition arp_service_table :: "int \<Rightarrow> 16 word \<Rightarrow> arp_service \<Rightarrow> (arp_entry list \<times> arp_service) res" where
  "arp_service_table now vlan = at_arp_table vlan [] (get_arp_table now)"

section \<open>Queries\<close>

text \<open>The query for an address: the one that is pending, or a new one.\<close>

definition query_for :: "ip_address \<Rightarrow> arp_service \<Rightarrow> nat \<times> arp_service" where
  "query_for dest s =
    (case smap_find dest (pending_queries s) of
       None \<Rightarrow> (length (queries s), s\<lparr>queries := queries s @ [\<lparr>ip_to_query = dest, result_mac = mac_nil, query_status = False\<rparr>],
         pending_queries := smap_put dest (length (queries s)) (pending_queries s)\<rparr>)
     | Some q \<Rightarrow> (q, s))"

text \<open>The end of the wait, when the condition has been signalled, the time is over, or the thread woke up for nothing.\<close>

definition query_result :: "ip_address \<Rightarrow> nat \<Rightarrow> arp_service \<Rightarrow> mac_address \<times> arp_service" where
  "query_result dest q s =
    (if \<not> query_status (queries s ! q) then (mac_nil, s\<lparr>pending_queries := smap_erase dest (pending_queries s)\<rparr>)
     else (result_mac (queries s ! q), s))"

text \<open>A reply: whoever waits for the address is told.\<close>

definition query_answered :: "ip_address \<Rightarrow> mac_address \<Rightarrow> arp_service \<Rightarrow> arp_service" where
  "query_answered src mac s =
    (case smap_find src (pending_queries s) of None \<Rightarrow> s
     | Some q \<Rightarrow> s\<lparr>pending_queries := smap_erase src (pending_queries s),
         queries := (queries s)[q := (queries s ! q)\<lparr>query_status := True, result_mac := mac\<rparr>]\<rparr>)"

section \<open>What the queries promise\<close>

text \<open>A pending query is unanswered and is filed under the address it asks for.\<close>

definition queries_ok :: "arp_service \<Rightarrow> bool" where
  "queries_ok s = (smap_ok (pending_queries s) \<and> (\<forall>(ip, q) \<in> set (pending_queries s).
     q < length (queries s) \<and> ip_to_query (queries s ! q) = ip \<and> \<not> query_status (queries s ! q)))"

lemma queries_ok_find:
  "queries_ok s \<Longrightarrow> smap_find ip (pending_queries s) = Some q \<Longrightarrow>
    q < length (queries s) \<and> ip_to_query (queries s ! q) = ip \<and> \<not> query_status (queries s ! q)"
  using smap_find_in [of "pending_queries s" ip q] by (auto simp: queries_ok_def)

lemma queries_okI:
  "smap_ok (pending_queries s) \<Longrightarrow>
   (\<And>ip q. smap_find ip (pending_queries s) = Some q \<Longrightarrow>
      q < length (queries s) \<and> ip_to_query (queries s ! q) = ip \<and> \<not> query_status (queries s ! q)) \<Longrightarrow> queries_ok s"
  using smap_find_in [of "pending_queries s"] by (auto simp: queries_ok_def)

lemma query_for_ok: "queries_ok s \<Longrightarrow> queries_ok (snd (query_for dest s))"
proof -
  assume ok: "queries_ok s"
  then have sorted: "smap_ok (pending_queries s)" by (simp add: queries_ok_def)
  have "q < Suc (length (queries s))" if "smap_find ip (pending_queries s) = Some q" for ip q
    using queries_ok_find [OF ok that] by simp
  then show ?thesis
    by (cases "smap_find dest (pending_queries s)")
      (auto simp: query_for_def ok smap_find_put smap_ok_put sorted nth_append split: if_splits
        intro!: queries_okI dest: queries_ok_find [OF ok])
qed

lemma query_result_ok: "queries_ok s \<Longrightarrow> queries_ok (snd (query_result dest q s))"
proof -
  assume ok: "queries_ok s"
  then have sorted: "smap_ok (pending_queries s)" by (simp add: queries_ok_def)
  show ?thesis
    by (auto simp: query_result_def ok smap_find_erase smap_ok_erase sorted split: if_splits
        intro!: queries_okI dest: queries_ok_find [OF ok])
qed

lemma query_answered_ok: "queries_ok s \<Longrightarrow> queries_ok (query_answered src mac s)"
proof -
  assume ok: "queries_ok s"
  then have sorted: "smap_ok (pending_queries s)" by (simp add: queries_ok_def)
  show ?thesis
  proof (cases "smap_find src (pending_queries s)")
    case (Some q)
    note q = queries_ok_find [OF ok Some]
    have "queries_ok (s\<lparr>pending_queries := smap_erase src (pending_queries s),
        queries := (queries s)[q := (queries s ! q)\<lparr>query_status := True, result_mac := mac\<rparr>]\<rparr>)"
    proof (rule queries_okI)
      fix ip q'
      assume "smap_find ip (pending_queries (s\<lparr>pending_queries := smap_erase src (pending_queries s),
        queries := (queries s)[q := (queries s ! q)\<lparr>query_status := True, result_mac := mac\<rparr>]\<rparr>)) = Some q'"
      then have "ip \<noteq> src" "smap_find ip (pending_queries s) = Some q'" by (auto simp: smap_find_erase split: if_splits)
      moreover from this have "q \<noteq> q'" using queries_ok_find [OF ok] q by metis
      ultimately show "q' < length (queries (s\<lparr>pending_queries := smap_erase src (pending_queries s),
          queries := (queries s)[q := (queries s ! q)\<lparr>query_status := True, result_mac := mac\<rparr>]\<rparr>)) \<and>
        ip_to_query (queries (s\<lparr>pending_queries := smap_erase src (pending_queries s),
          queries := (queries s)[q := (queries s ! q)\<lparr>query_status := True, result_mac := mac\<rparr>]\<rparr>) ! q') = ip \<and>
        \<not> query_status (queries (s\<lparr>pending_queries := smap_erase src (pending_queries s),
          queries := (queries s)[q := (queries s ! q)\<lparr>query_status := True, result_mac := mac\<rparr>]\<rparr>) ! q')"
        using queries_ok_find [OF ok] by simp
    qed (simp add: smap_ok_erase sorted)
    then show ?thesis by (simp add: query_answered_def Some)
  qed (simp add: query_answered_def ok)
qed

text \<open>The events of the queries: a caller starts to wait, a reply comes in, a caller stops waiting.\<close>

inductive query_reach :: "arp_service \<Rightarrow> bool" where
  q_start: "query_reach (s\<lparr>pending_queries := []\<rparr>)"
| q_ask: "query_reach s \<Longrightarrow> query_reach (snd (query_for dest s))"
| q_reply: "query_reach s \<Longrightarrow> query_reach (query_answered src mac s)"
| q_end: "query_reach s \<Longrightarrow> query_reach (snd (query_result dest q s))"

lemma query_reach_ok: "query_reach s \<Longrightarrow> queries_ok s"
  by (induction rule: query_reach.induct) (simp_all add: query_for_ok query_answered_ok query_result_ok, simp add: queries_ok_def)

text \<open>What may happen while a caller waits: another one asks, a reply comes in, another one stops waiting.\<close>

datatype query_event = Q_Ask ip_address | Q_Reply ip_address mac_address | Q_End ip_address nat

fun query_step :: "query_event \<Rightarrow> arp_service \<Rightarrow> arp_service" where
  "query_step (Q_Ask dest) s = snd (query_for dest s)"
| "query_step (Q_Reply src mac) s = query_answered src mac s"
| "query_step (Q_End dest q) s = snd (query_result dest q s)"

definition query_events :: "query_event list \<Rightarrow> arp_service \<Rightarrow> arp_service" where
  "query_events es s = fold query_step es s"

text \<open>The first reply for an address.\<close>

fun first_reply :: "ip_address \<Rightarrow> query_event list \<Rightarrow> mac_address option" where
  "first_reply dest [] = None"
| "first_reply dest (e # es) = (case e of Q_Reply src mac \<Rightarrow> if src = dest then Some mac else first_reply dest es | _ \<Rightarrow> first_reply dest es)"

text \<open>Nobody who has no answer stops waiting for the address before the first reply for it.\<close>

fun patient :: "ip_address \<Rightarrow> query_event list \<Rightarrow> arp_service \<Rightarrow> bool" where
  "patient dest [] s = True"
| "patient dest (e # es) s = (case e of
     Q_Reply src mac \<Rightarrow> src = dest \<or> patient dest es (query_step e s)
   | Q_End d q \<Rightarrow> (d = dest \<longrightarrow> query_status (queries s ! q)) \<and> patient dest es (query_step e s)
   | Q_Ask d \<Rightarrow> patient dest es (query_step e s))"

lemma query_step_ok: "queries_ok s \<Longrightarrow> queries_ok (query_step e s)"
  by (cases e) (simp_all add: query_for_ok query_answered_ok query_result_ok)

text \<open>An answer stays, whatever happens.\<close>

lemma answered_event:
  "queries_ok s \<Longrightarrow> q < length (queries s) \<Longrightarrow> query_status (queries s ! q) \<Longrightarrow>
    q < length (queries (query_step e s)) \<and> queries (query_step e s) ! q = queries s ! q"
proof (cases e)
  case (Q_Reply src mac)
  assume ok: "queries_ok s" and q: "q < length (queries s)" "query_status (queries s ! q)"
  have "q' \<noteq> q" if "smap_find src (pending_queries s) = Some q'" for q' using queries_ok_find [OF ok that] q(2) by auto
  then show ?thesis using q Q_Reply by (auto simp: query_answered_def split: option.split)
qed (auto simp: query_for_def query_result_def nth_append split: option.split)

lemma answered_events:
  "queries_ok s \<Longrightarrow> q < length (queries s) \<Longrightarrow> query_status (queries s ! q) \<Longrightarrow> queries (query_events es s) ! q = queries s ! q"
proof (induction es arbitrary: s)
  case (Cons e es)
  from answered_event [OF Cons.prems, of e] Cons.IH [OF query_step_ok [OF Cons.prems(1), of e]] Cons.prems(3)
  show ?case by (simp add: query_events_def)
qed (simp add: query_events_def)

text \<open>As long as nobody gives up, a pending query stays pending until the first reply for it.\<close>

lemma pending_event:
  assumes "queries_ok s" "smap_find dest (pending_queries s) = Some q" "patient dest (e # es) s" "first_reply dest [e] = None"
  shows "smap_find dest (pending_queries (query_step e s)) = Some q \<and> patient dest es (query_step e s)"
proof (cases e)
  case (Q_Ask d)
  then show ?thesis using assms(2,3) by (auto simp: query_for_def smap_find_put split: option.split)
next
  case (Q_Reply src mac)
  then show ?thesis using assms(2-4) by (auto simp: query_answered_def smap_find_erase split: option.split if_splits)
next
  case (Q_End d r)
  then show ?thesis using assms(2,3) by (auto simp: query_result_def smap_find_erase)
qed

lemma pending_events:
  assumes "queries_ok s" "smap_find dest (pending_queries s) = Some q" "patient dest es s"
  shows "fst (query_result dest q (query_events es s)) = (case first_reply dest es of None \<Rightarrow> mac_nil | Some mac \<Rightarrow> mac)
    \<and> (first_reply dest es = None \<longrightarrow> smap_find dest (pending_queries (query_events es s)) = Some q)"
  using assms
proof (induction es arbitrary: s)
  case Nil
  then show ?case using queries_ok_find [OF Nil(1,2)] by (simp add: query_events_def query_result_def)
next
  case (Cons e es)
  show ?case
  proof (cases "first_reply dest [e]")
    case None
    note pe = pending_event [OF Cons.prems None]
    have "first_reply dest (e # es) = first_reply dest es" using None by (simp split: query_event.splits if_splits)
    then show ?thesis using Cons.IH [OF query_step_ok [OF Cons.prems(1)] conjunct1 [OF pe] conjunct2 [OF pe]]
      by (simp add: query_events_def)
  next
    case (Some mac)
    then have e: "e = Q_Reply dest mac" by (simp split: query_event.splits if_splits)
    let ?s = "query_step e s"
    have q: "q < length (queries s)" using queries_ok_find [OF Cons.prems(1,2)] by simp
    have s: "q < length (queries ?s)" "query_status (queries ?s ! q)" "result_mac (queries ?s ! q) = mac"
      using Cons.prems(2) q by (simp_all add: e query_answered_def)
    have "queries (query_events es ?s) ! q = queries ?s ! q"
      by (rule answered_events [OF query_step_ok [OF Cons.prems(1)] s(1,2)])
    then show ?thesis using s by (simp add: query_events_def query_result_def e)
  qed
qed

text \<open>C24. An ARP query finds its answer: a caller asks for an address in any state that the queries reach; then, while it
  waits, anything happens in any order (queries for this and for other addresses start and end, replies come in), except that
  before the first reply for the address nobody stops waiting for it without an answer. When the caller's wait ends it gets
  exactly the hardware address of the first reply for its address, whatever came later, and none if there was no reply; and
  every caller that asks for the address before that reply joins the same query.\<close>

theorem arp_query_answered:
  assumes "query_reach s" "query_for dest s = (q, s1)" "patient dest es s1"
  shows "fst (query_result dest q (query_events es s1)) = (case first_reply dest es of None \<Rightarrow> mac_nil | Some mac \<Rightarrow> mac)
    \<and> (first_reply dest es = None \<longrightarrow> fst (query_for dest (query_events es s1)) = q)"
proof -
  have "queries_ok s1" using query_for_ok [OF query_reach_ok [OF assms(1)], of dest] assms(2) by simp
  moreover have "smap_find dest (pending_queries s1) = Some q"
    using assms(2) by (auto simp: query_for_def smap_find_put split: option.splits)
  ultimately show ?thesis using pending_events [OF _ _ assms(3)] by (auto simp: query_for_def)
qed

text \<open>Two callers wait for one address. A reply for another address comes, a caller of a third one gives up, then two replies
  come: the first one counts.\<close>

theorem arp_query_answered_witness:
  "fst (query_result (IP 10 0 0 2) 0 (query_events [Q_Ask (IP 10 0 0 3), Q_Ask (IP 10 0 0 2), Q_Reply (IP 10 0 0 4) mac_nil,
      Q_End (IP 10 0 0 3) 1, Q_Reply (IP 10 0 0 2) mac_broadcast, Q_Reply (IP 10 0 0 2) mac_nil, Q_End (IP 10 0 0 2) 0]
    (snd (query_for (IP 10 0 0 2) arp_service_new)))) = mac_broadcast"
proof -
  have "query_reach arp_service_new" using q_start [of arp_service_new] by (simp add: arp_service_new_def)
  moreover have "query_for (IP 10 0 0 2) arp_service_new = (0, snd (query_for (IP 10 0 0 2) arp_service_new))"
    by (simp add: query_for_def arp_service_new_def smap_find_def)
  moreover have "patient (IP 10 0 0 2) [Q_Ask (IP 10 0 0 3), Q_Ask (IP 10 0 0 2), Q_Reply (IP 10 0 0 4) mac_nil,
      Q_End (IP 10 0 0 3) 1, Q_Reply (IP 10 0 0 2) mac_broadcast, Q_Reply (IP 10 0 0 2) mac_nil, Q_End (IP 10 0 0 2) 0]
      (snd (query_for (IP 10 0 0 2) arp_service_new))" by simp
  ultimately show ?thesis using arp_query_answered by fastforce
qed

text \<open>Callers that share a query can lose it: when one of them gives up before the reply comes, the reply reaches
  nobody, and the other one that still waits gets no address.\<close>

theorem arp_query_lost:
  assumes "query_reach s" "query_for dest s = (q, s1)"
  shows "let s2 = snd (query_result dest q s1); s3 = query_answered dest mac s2 in
    fst (query_for dest s1) = q \<and> fst (query_result dest q s3) = mac_nil"
proof -
  have ok: "queries_ok s1" using query_for_ok [OF query_reach_ok [OF assms(1)], of dest] assms(2) by simp
  have find: "smap_find dest (pending_queries s1) = Some q"
    using assms(2) by (auto simp: query_for_def smap_find_put split: option.splits)
  with queries_ok_find [OF ok] have "\<not> query_status (queries s1 ! q)" by auto
  then show ?thesis
    using find by (simp add: query_for_def query_result_def query_answered_def smap_find_erase Let_def)
qed

theorem arp_query_lost_witness:
  "fst (query_result (IP 10 0 0 2) 0 (query_answered (IP 10 0 0 2) mac_broadcast (snd (query_result (IP 10 0 0 2) 0
     (snd (query_for (IP 10 0 0 2) arp_service_new)))))) = mac_nil"
proof -
  have "query_reach arp_service_new" using q_start [of arp_service_new] by (simp add: arp_service_new_def)
  moreover have "query_for (IP 10 0 0 2) arp_service_new = (0, snd (query_for (IP 10 0 0 2) arp_service_new))"
    by (simp add: query_for_def arp_service_new_def smap_find_def)
  ultimately show ?thesis using arp_query_lost [of arp_service_new "IP 10 0 0 2" 0 _ mac_broadcast] by (simp add: Let_def)
qed

end
