(* ===== verification/Packet_Processor.thy ===== *)
theory Packet_Processor
  imports Of_Control_Msg Packets "HOL-Library.Multiset"
begin

text \<open>
  \<open>controller/hal/packet_in_processor.{h,cpp}\<close>: the chain of filters that a packet from the switch goes through. A
  filter object is a number; what its \<open>filter_packet\<close> does to the state of the services is the argument \<open>run\<close>. A null
  pointer in the queue is None.
\<close>

datatype priority_class = CAM | ARP | ECHO_SERVER | INTER_IRONSTACK | FLOW_POLICY_CHECKER | ALWAYS_AT_LAST

primrec priority_code :: "priority_class \<Rightarrow> 32 word" where
  "priority_code CAM = 1"
| "priority_code ARP = 2"
| "priority_code ECHO_SERVER = 3"
| "priority_code INTER_IRONSTACK = 4"
| "priority_code FLOW_POLICY_CHECKER = 5"
| "priority_code ALWAYS_AT_LAST = 6"

record packet_in_processor =
  pp_initialized :: bool
  pp_shutdown_flag :: bool
  pp_under_initialization :: bool
  processor_threads :: nat
  packet_queue :: "of_message_packet_in option list"
  packet_filters :: "(nat \<times> 32 word) list"

definition processor_new :: packet_in_processor where
  "processor_new = \<lparr>pp_initialized = False, pp_shutdown_flag = False, pp_under_initialization = False,
     processor_threads = 0, packet_queue = [], packet_filters = []\<rparr>"

text \<open>\<open>under_initialization\<close> is set on entry and nothing resets it.\<close>

definition processor_init :: "nat \<Rightarrow> packet_in_processor \<Rightarrow> packet_in_processor" where
  "processor_init num_threads p =
    (if pp_under_initialization p then p
     else let p1 = p\<lparr>pp_under_initialization := True\<rparr> in
       if pp_initialized p1 \<and> \<not> pp_shutdown_flag p1 then p1
       else p1\<lparr>pp_shutdown_flag := False, processor_threads := processor_threads p1 + num_threads, pp_initialized := True\<rparr>)"

text \<open>\<open>workers\<close> is what the threads take from the queue until they have been joined.\<close>

definition processor_shutdown ::
  "(of_message_packet_in option list \<Rightarrow> of_message_packet_in option list) \<Rightarrow> packet_in_processor \<Rightarrow> packet_in_processor" where
  "processor_shutdown workers p =
    (if \<not> pp_initialized p then p
     else let p1 = p\<lparr>pp_initialized := False\<rparr> in
       if pp_shutdown_flag p1 then p1
       else let p2 = p1\<lparr>pp_shutdown_flag := True, packet_queue := packet_queue p1 @ replicate (processor_threads p1) None\<rparr> in
         p2\<lparr>packet_queue := workers (packet_queue p2), pp_shutdown_flag := False\<rparr>)"

definition processor_clear :: "packet_in_processor \<Rightarrow> packet_in_processor" where
  "processor_clear p = p\<lparr>packet_filters := []\<rparr>"

definition enqueue_packet :: "of_message_packet_in option \<Rightarrow> packet_in_processor \<Rightarrow> packet_in_processor" where
  "enqueue_packet pkt p = p\<lparr>packet_queue := packet_queue p @ [pkt]\<rparr>"

text \<open>The iterator stops at the first filter of a larger class.\<close>

fun insert_filter :: "nat \<Rightarrow> 32 word \<Rightarrow> (nat \<times> 32 word) list \<Rightarrow> (nat \<times> 32 word) list" where
  "insert_filter f q [] = [(f, q)]"
| "insert_filter f q ((g, r) # fs) = (if r \<le> q then (g, r) # insert_filter f q fs else (f, q) # (g, r) # fs)"

definition register_filter :: "nat \<Rightarrow> priority_class \<Rightarrow> packet_in_processor \<Rightarrow> packet_in_processor" where
  "register_filter f c p = p\<lparr>packet_filters := insert_filter f (priority_code c) (packet_filters p)\<rparr>"

fun remove_filter :: "nat \<Rightarrow> (nat \<times> 32 word) list \<Rightarrow> (nat \<times> 32 word) list" where
  "remove_filter f [] = []"
| "remove_filter f ((g, r) # fs) = (if g = f then fs else (g, r) # remove_filter f fs)"

definition unregister_filter :: "nat \<Rightarrow> packet_in_processor \<Rightarrow> packet_in_processor" where
  "unregister_filter f p = p\<lparr>packet_filters := remove_filter f (packet_filters p)\<rparr>"

fun run_filters :: "(nat \<Rightarrow> of_message_packet_in \<Rightarrow> raw_packet \<Rightarrow> 's \<Rightarrow> (bool \<times> 's) res) \<Rightarrow> of_message_packet_in \<Rightarrow> raw_packet
    \<Rightarrow> (nat \<times> 32 word) list \<Rightarrow> 's \<Rightarrow> (bool \<times> 's) res" where
  "run_filters run pkt raw [] s = Inr (False, s)"
| "run_filters run pkt raw ((f, q) # fs) s =
     bindr (run f pkt raw s) (\<lambda>(consumed, s'). if consumed then Inr (True, s') else run_filters run pkt raw fs s')"

text \<open>One round of a worker thread: None while it has to wait. The parsed packet belongs to the thread, and is the one of
  the last round where the frame of this round is too short.\<close>

definition processing_round :: "(nat \<Rightarrow> of_message_packet_in \<Rightarrow> raw_packet \<Rightarrow> 's \<Rightarrow> (bool \<times> 's) res)
    \<Rightarrow> packet_in_processor \<times> raw_packet \<times> 's \<Rightarrow> (packet_in_processor \<times> raw_packet \<times> 's) res option" where
  "processing_round run = (\<lambda>(p, raw, s).
    (case packet_queue p of [] \<Rightarrow> None
     | None # q \<Rightarrow> Some (Inr (p\<lparr>packet_queue := q\<rparr>, raw, s))
     | Some pkt # q \<Rightarrow>
         let raw' = snd (raw_deserialize (pkt_data pkt) raw) in
         Some (bindr (run_filters run pkt raw' (packet_filters p) s) (\<lambda>(handled, s'). Inr (p\<lparr>packet_queue := q\<rparr>, raw', s')))))"

section \<open>The order of the chain\<close>

lemma set_insert_filter: "set (insert_filter f q fs) = insert (f, q) (set fs)"
  by (induction f q fs rule: insert_filter.induct) auto

lemma mset_insert_filter: "mset (insert_filter f q fs) = add_mset (f, q) (mset fs)"
  by (induction f q fs rule: insert_filter.induct) auto

lemma insert_filter_sorted: "sorted (map snd fs) \<Longrightarrow> sorted (map snd (insert_filter f q fs))"
  by (induction f q fs rule: insert_filter.induct) (auto simp: set_insert_filter)

lemma insert_filter_class:
  "sorted (map snd fs) \<Longrightarrow> filter (\<lambda>x. k = snd x) (insert_filter f q fs) = filter (\<lambda>x. k = snd x) (fs @ [(f, q)])"
proof (induction f q fs rule: insert_filter.induct)
  case (2 f q g r fs)
  have "filter (\<lambda>x. q = snd x) ((g, r) # fs) = []" if "\<not> r \<le> q"
    using "2.prems" that by (auto simp: filter_empty_conv)
  with 2 show ?case by (auto simp: filter_empty_conv)
qed simp

lemma register_all:
  "sorted (map snd fs) \<Longrightarrow> fold (\<lambda>(f, q). insert_filter f q) new fs = sort_key snd (fs @ new)"
proof (induction new arbitrary: fs)
  case Nil
  then show ?case by (simp add: sort_key_id_if_sorted)
next
  case (Cons x new)
  obtain f q where x: "x = (f, q)" by (cases x)
  have "filter (\<lambda>x. k = snd x) (sort_key snd (fs @ (f, q) # new)) = filter (\<lambda>x. k = snd x) (insert_filter f q fs @ new)" for k
    using sort_key_stable [of snd k "fs @ (f, q) # new"] insert_filter_class [OF Cons.prems, of k f q]
    by (simp only: eq_commute [of _ k] filter_append) simp
  then have "sort_key snd (insert_filter f q fs @ new) = sort_key snd (fs @ (f, q) # new)"
    by (intro properties_for_sort_key) (simp_all add: mset_insert_filter)
  with Cons.IH [OF insert_filter_sorted [OF Cons.prems]] show ?case by (simp add: x)
qed

text \<open>C18. The packet filters run in the order of their priority classes, whatever the order in which the services
  start: after any sequence of registrations on an empty processor the chain is the stable sort of the registered filters by
  class, so filters of one class run in the order they were registered.\<close>

theorem filters_are_sorted:
  "packet_filters (fold (\<lambda>(f, c). register_filter f c) regs (processor_clear p))
     = sort_key snd (map (\<lambda>(f, c). (f, priority_code c)) regs)"
proof -
  have "packet_filters (fold (\<lambda>(f, c). register_filter f c) regs p')
      = fold (\<lambda>(f, q). insert_filter f q) (map (\<lambda>(f, c). (f, priority_code c)) regs) (packet_filters p')" for p'
    by (induction regs arbitrary: p') (auto simp: register_filter_def)
  then show ?thesis by (simp add: processor_clear_def register_all)
qed

lemma remove_filter_mset: "mset (map fst (remove_filter f fs)) = mset (map fst fs) - {#f#}"
  by (induction f fs rule: remove_filter.induct) auto

lemma remove_filter_sorted: "sorted (map snd fs) \<Longrightarrow> sorted (map snd (remove_filter f fs))"
proof (induction f fs rule: remove_filter.induct)
  case (2 f g r fs)
  have "set (remove_filter f fs) \<subseteq> set fs" by (induction f fs rule: remove_filter.induct) auto
  with 2 show ?case by auto
qed simp

section \<open>One round\<close>

lemma run_filters_append:
  "run_filters run pkt raw (fs @ gs) s =
     bindr (run_filters run pkt raw fs s) (\<lambda>(handled, s'). if handled then Inr (True, s') else run_filters run pkt raw gs s')"
proof (induction fs arbitrary: s)
  case (Cons x fs)
  obtain f q where "x = (f, q)" by (cases x)
  then show ?case by (cases "run f pkt raw s") (auto simp: Cons.IH split: prod.splits)
qed simp

text \<open>A frame shorter than an Ethernet header does not stop the chain: every filter is then run on the new message
  together with the addresses, the VLAN and the type of the packet that the thread has parsed before.\<close>

theorem short_frame_runs_stale:
  assumes "length (pkt_data pkt) < 14" "packet_queue p = Some pkt # q"
  shows "processing_round run (p, raw, s) =
    Some (bindr (run_filters run pkt raw (packet_filters p) s) (\<lambda>(handled, s'). Inr (p\<lparr>packet_queue := q\<rparr>, raw, s')))"
  using assms by (simp add: processing_round_def raw_deserialize_def)

inductive pp_step :: "packet_in_processor \<Rightarrow> packet_in_processor \<Rightarrow> bool" where
  pp_init: "pp_step p (processor_init n p)"
| pp_shutdown: "pp_step p (processor_shutdown workers p)"
| pp_clear: "pp_step p (processor_clear p)"
| pp_enqueue: "pp_step p (enqueue_packet pkt p)"
| pp_register: "pp_step p (register_filter f c p)"
| pp_unregister: "pp_step p (unregister_filter f p)"
| pp_taken: "packet_queue p = x # q \<Longrightarrow> pp_step p (p\<lparr>packet_queue := q\<rparr>)"

lemma processing_round_step: "processing_round run (p, raw, s) = Some (Inr (p', raw', s')) \<Longrightarrow> pp_step p p'"
  by (auto simp: processing_round_def Let_def bindr_Inr_iff intro: pp_taken split: list.splits option.splits)

lemma pp_step_down:
  "pp_step p p' \<Longrightarrow> pp_under_initialization p \<Longrightarrow> \<not> pp_initialized p \<Longrightarrow> pp_under_initialization p' \<and> \<not> pp_initialized p'"
  by (induction rule: pp_step.induct)
    (auto simp: processor_init_def processor_shutdown_def processor_clear_def enqueue_packet_def register_filter_def
      unregister_filter_def Let_def)

text \<open>The processor runs once: from a processor that has been started and shut down, no sequence of operations (starts,
  further shutdowns, registrations, packets) leads to one that runs again, because the flag that a start sets on its entry
  is never reset.\<close>

theorem processor_runs_once:
  assumes "pp_step\<^sup>*\<^sup>* (processor_shutdown workers (processor_init n p)) p'"
    and "pp_initialized (processor_init n p)" "\<not> pp_shutdown_flag (processor_init n p)"
  shows "\<not> pp_initialized p'"
proof -
  have start: "pp_under_initialization (processor_init n p)" by (simp add: processor_init_def Let_def)
  have "pp_under_initialization p' \<and> \<not> pp_initialized p'" using assms(1)
  proof (induction rule: rtranclp_induct)
    case base
    show ?case using start assms(2,3) by (simp add: processor_shutdown_def Let_def)
  next
    case (step p1 p2)
    then show ?case using pp_step_down by blast
  qed
  then show ?thesis ..
qed

theorem processor_runs_once_witness:
  "\<not> pp_initialized (processor_init 4 (processor_shutdown (\<lambda>q. []) (processor_init 2 processor_new)))"
  using processor_runs_once [OF r_into_rtranclp [where r = pp_step, OF pp_init], of 2 processor_new 4 "\<lambda>q. []"]
  by (simp add: processor_init_def [of 2] processor_new_def Let_def)

theorem short_frame_runs_stale_witness:
  "processing_round (\<lambda>f pkt raw s. Inr (True, src_mac raw))
     (processor_new\<lparr>packet_queue := [Some packet_in_new], packet_filters := [(0, 1)]\<rparr>,
      raw_packet_new\<lparr>src_mac := MAC 2 0 0 0 0 1\<rparr>, mac_nil)
   = Some (Inr (processor_new\<lparr>packet_filters := [(0, 1)]\<rparr>, raw_packet_new\<lparr>src_mac := MAC 2 0 0 0 0 1\<rparr>, MAC 2 0 0 0 0 1))"
proof -
  have "length (pkt_data packet_in_new) < 14" by (simp add: packet_in_new_def of_message.defs of_message_packet_in.defs)
  from short_frame_runs_stale [OF this,
      of "processor_new\<lparr>packet_queue := [Some packet_in_new], packet_filters := [(0, 1)]\<rparr>" "[]"
        "\<lambda>f pkt raw s. Inr (True, src_mac raw)" "raw_packet_new\<lparr>src_mac := MAC 2 0 0 0 0 1\<rparr>" mac_nil]
  show ?thesis by (simp add: processor_new_def)
qed

end
