(* ===== verification/Flow_Service.thy ===== *)
theory Flow_Service
  imports Flow_Table
begin

text \<open>
  \<open>controller/services/flow_service.{h,cpp}\<close>, the manager of the flow tables, and
  \<open>flow_policy_checker::accelerate_flow\<close>, its main client. The state is the service object,
  the static cookie and transaction counters, and the list of transactions handed to the
  hardware abstraction layer, in order.

  Where a call blocks for the switch, what happens meanwhile is the argument \<open>wait\<close>: it maps
  the state at the start of the wait to the state and the result of \<open>wait\<close>/\<open>timed_wait\<close> at
  its end. Every other call is made at one instant \<open>now\<close>.
\<close>

section \<open>Transactions\<close>

datatype transaction_callback = No_Callback | Blocking_Callback | Table_Callback nat

datatype service_request = Modify_Flow of_message_modify_flow | Flow_Stats_Request "32 word"

record hal_transaction =
  request :: service_request
  serialized_msg :: "byte list"
  needs_completion_acknowledgement :: bool
  callback :: transaction_callback

text \<open>\<open>blocking_hal_callback\<close>: the waits only tell that the transaction has completed;
  \<open>wait\<close> goes on while it has not (\<open>None\<close>).\<close>

record blocking_hal_callback =
  done_flag :: bool
  successful :: bool

definition blocking_callback_new :: blocking_hal_callback where
  "blocking_callback_new = \<lparr>done_flag = False, successful = False\<rparr>"

definition blocking_callback_done :: "hal_reply \<Rightarrow> blocking_hal_callback \<Rightarrow> blocking_hal_callback" where
  "blocking_callback_done reply b = b\<lparr>done_flag := True,
     successful := (case reply of Reply ty \<Rightarrow> ty \<noteq> OFPT_ERROR | No_Reply \<Rightarrow> True)\<rparr>"

definition blocking_wait :: "blocking_hal_callback \<Rightarrow> bool option" where
  "blocking_wait b = (if done_flag b then Some True else None)"

definition blocking_timed_wait :: "bool \<Rightarrow> blocking_hal_callback \<Rightarrow> bool" where
  "blocking_timed_wait timed_out b = (if \<not> done_flag b \<and> timed_out then False else True)"

section \<open>The service\<close>

record flow_service =
  initialized :: bool
  initializing :: bool
  flow_tables :: "flow_table list"
  pending_flows :: "flow_stats list"
  next_available_cookie_id :: "64 word"
  xid_counter :: "32 word"
  enqueued :: "hal_transaction list"

text \<open>\<open>hal_transaction::assign_and_serialize\<close>, and \<open>hal::enqueue_transaction\<close>.\<close>

definition modify_transaction ::
  "of_message_modify_flow \<Rightarrow> bool \<Rightarrow> transaction_callback \<Rightarrow> flow_service \<Rightarrow> (of_message_modify_flow \<times> flow_service) res" where
  "modify_transaction m needs_ack cob s =
    (let m' = m\<lparr>xid := xid_counter s\<rparr> in
     bindr (modify_flow_serialize m') (\<lambda>bytes.
       Inr (m', s\<lparr>xid_counter := xid_counter s + 1,
         enqueued := enqueued s @ [\<lparr>request = Modify_Flow m', serialized_msg = bytes,
           needs_completion_acknowledgement = needs_ack, callback = cob\<rparr>]\<rparr>)))"

definition flow_stats_request_bytes :: "32 word \<Rightarrow> byte list" where
  "flow_stats_request_bytes x =
     header_bytes 1 16 56 x @ be16 1 @ [0, 0] @ of_match_serialize (of_match_wildcard_all of_match_clear)
     @ [255] @ [0] @ be16 OFPP_NONE"

definition stats_transaction :: "bool \<Rightarrow> transaction_callback \<Rightarrow> flow_service \<Rightarrow> flow_service" where
  "stats_transaction needs_ack cob s = s\<lparr>xid_counter := xid_counter s + 1,
     enqueued := enqueued s @ [\<lparr>request = Flow_Stats_Request (xid_counter s),
       serialized_msg = flow_stats_request_bytes (xid_counter s),
       needs_completion_acknowledgement = needs_ack, callback = cob\<rparr>]\<rparr>"

section \<open>Start, stop, attach\<close>

definition service_init :: "flow_service \<Rightarrow> (bool \<times> flow_service) res" where
  "service_init s =
    (if initialized s \<or> initializing s then Inr (True, s)
     else if flow_tables s = [] then Inl Aborted
     else Inr (True, s\<lparr>initializing := True\<rparr>))"

text \<open>The part of \<open>init2\<close> that downloads the flows: a request for all of them, then a barrier.\<close>

definition service_init2 ::
  "(flow_service \<Rightarrow> flow_service \<times> bool) \<Rightarrow> flow_service \<Rightarrow> (bool \<times> flow_service) res" where
  "service_init2 wait s =
    (case wait (stats_transaction False No_Callback s) of
       (s', barrier_ok) \<Rightarrow>
         if \<not> barrier_ok then Inl Aborted else Inr (True, s'\<lparr>initialized := True, initializing := False\<rparr>))"

definition attach_flow_table :: "flow_table \<Rightarrow> flow_service \<Rightarrow> flow_service" where
  "attach_flow_table table s =
     (if \<not> initialized s then s\<lparr>flow_tables := flow_tables s @ [table]\<rparr> else s)"

text \<open>\<open>shutdown\<close> spins while the service is starting; \<open>started\<close> is the state when that is over.\<close>

definition service_shutdown :: "(flow_service \<Rightarrow> flow_service) \<Rightarrow> flow_service \<Rightarrow> flow_service" where
  "service_shutdown started s =
    (if \<not> initialized s \<and> \<not> initializing s then s
     else (if \<not> initialized s \<and> initializing s then started s else s)\<lparr>initialized := False\<rparr>)"

text \<open>The table to detach is a pointer: here its position.\<close>

definition detach_flow_table :: "nat \<Rightarrow> flow_service \<Rightarrow> flow_service" where
  "detach_flow_table i s =
     (if \<not> initialized s then s\<lparr>flow_tables := take i (flow_tables s) @ drop (Suc i) (flow_tables s)\<rparr> else s)"

section \<open>Adding a flow\<close>

fun first_table :: "(flow_table \<Rightarrow> bool) \<Rightarrow> flow_table list \<Rightarrow> nat option" where
  "first_table P [] = None"
| "first_table P (t # ts) = (if P t then Some 0 else map_option Suc (first_table P ts))"

definition add_flow_request :: "openflow_flow_description \<Rightarrow> 16 word \<Rightarrow> 16 word \<Rightarrow> of_message_modify_flow" where
  "add_flow_request d idle hard = modify_flow_new\<lparr>
     flow_description := d, command := OFPFC_MODIFY_STRICT, mod_idle_timeout := idle,
     mod_hard_timeout := hard, buffer_id := - 1, use_out_port := False, flag_send_flow_removal_message := True,
     flag_check_overlap := True, flag_emergency_flow := False\<rparr>"

definition new_flow_entry ::
  "int \<Rightarrow> openflow_flow_description \<Rightarrow> string \<Rightarrow> 16 word \<Rightarrow> 16 word \<Rightarrow> bool \<Rightarrow> openflow_flow_entry" where
  "new_flow_entry now d reason idle hard static_flow = (flow_entry_new now)\<lparr>
     state := PENDING_INSTALLATION, description := d, install_reason := reason,
     idle_timeout := (if static_flow then 0 else ucast idle), hard_timeout := (if static_flow then 0 else ucast hard)\<rparr>"

definition already_installed :: "64 word \<Rightarrow> flow_table \<Rightarrow> bool" where
  "already_installed c t =
    (c \<noteq> - 1 \<and> (case get_flow_entry_by_cookie c t of None \<Rightarrow> False
       | Some e \<Rightarrow> state e = ACTIVE \<or> state e = PENDING_INSTALLATION))"

text \<open>A service that is offline returns \<open>false\<close> as a cookie, that is 0. After the wait the table is
  used through a reference into the vector of tables: out of bounds when it has shrunk.\<close>

definition add_flow ::
  "int \<Rightarrow> (flow_service \<Rightarrow> flow_service \<times> bool) \<Rightarrow> openflow_flow_description \<Rightarrow> string \<Rightarrow> 16 word \<Rightarrow> 16 word
     \<Rightarrow> bool \<Rightarrow> int \<Rightarrow> flow_service \<Rightarrow> (64 word \<times> flow_service) res" where
  "add_flow now wait d reason idle hard static_flow install_timeout_ms s =
    (if \<not> initialized s then Inr (0, s)
     else case first_table (\<lambda>t. check_table_fit (kind t) d) (flow_tables s) of
       None \<Rightarrow> Inr (- 1, s)
     | Some i \<Rightarrow>
        let table = flow_tables s ! i; c = get_cookie_for_flow d table in
        if already_installed c table then Inr (c, s)
        else bindr (add_entry (new_flow_entry now d reason idle hard static_flow) table) (\<lambda>(added, table').
          if \<not> added then Inr (- 1, s)
          else
            bindr (modify_transaction (add_flow_request d idle hard) (install_timeout_ms \<noteq> 0)
                    (if install_timeout_ms \<noteq> 0 then Blocking_Callback else No_Callback)
                    (s\<lparr>flow_tables := (flow_tables s)[i := table']\<rparr>)) (\<lambda>(msg, s').
              if install_timeout_ms = 0 then Inr (cookie d, s')
              else case wait s' of (s'', status) \<Rightarrow>
                if length (flow_tables s'') \<le> i then Inl OutOfBounds
                else bindr (table_hal_callback now msg No_Reply status (flow_tables s'' ! i)) (\<lambda>table''.
                  Inr (cookie d, s''\<lparr>flow_tables := (flow_tables s'')[i := table'']\<rparr>)))))"

definition default_priority :: "16 word" where "default_priority = 100"

definition add_flow_auto ::
  "int \<Rightarrow> (flow_service \<Rightarrow> flow_service \<times> bool) \<Rightarrow> 64 word \<Rightarrow> of_match \<Rightarrow> openflow_action_list \<Rightarrow> string
     \<Rightarrow> 16 word \<Rightarrow> bool \<Rightarrow> int \<Rightarrow> flow_service \<Rightarrow> (64 word \<times> flow_service) res" where
  "add_flow_auto now wait random c actions reason prio static_flow timeout_ms s =
    (case get_next_available_cookie_id random (next_available_cookie_id s) of
       (new_cookie, next_id) \<Rightarrow>
         add_flow now wait (flow_description_clear\<lparr>criteria := c, action_list := actions, priority := prio,
           cookie := new_cookie\<rparr>) reason 0 0 static_flow timeout_ms (s\<lparr>next_available_cookie_id := next_id\<rparr>))"

text \<open>The service is looked up in the catalog, and may be missing.\<close>

definition accelerate_flow ::
  "int \<Rightarrow> (flow_service \<Rightarrow> flow_service \<times> bool) \<Rightarrow> 64 word \<Rightarrow> mac_address \<Rightarrow> 16 word \<Rightarrow> 16 word
     \<Rightarrow> flow_service option \<Rightarrow> (bool \<times> flow_service option) res" where
  "accelerate_flow now wait random src_mac vlan phy_port flow_svc =
    (let c = (of_match_wildcard_all of_match_clear)\<lparr>wildcard_ethernet_dest := False, ethernet_dest := src_mac,
               wildcard_vlan_id := False, vlan_id := vlan\<rparr>;
         actions = add_action (Output_To_Port False phy_port) []
     in case flow_svc of
          None \<Rightarrow> Inr (False, None)
        | Some s \<Rightarrow>
            bindr (add_flow_auto now wait random c actions ''l2 accelerator'' default_priority False 0 s)
              (\<lambda>(new_cookie, s'). Inr (new_cookie \<noteq> - 1, Some s')))"

section \<open>Removing flows\<close>

definition remove_flow :: "int \<Rightarrow> 64 word \<Rightarrow> flow_service \<Rightarrow> (64 word \<times> flow_service) res" where
  "remove_flow now c s =
    (if \<not> initialized s then Inr (- 1, s)
     else case first_table (\<lambda>t. get_flow_entry_by_cookie c t \<noteq> None \<and> fst (mark_entry_as_pending_deletion now c t))
            (flow_tables s) of
       None \<Rightarrow> Inr (- 1, s)
     | Some i \<Rightarrow>
        let table = flow_tables s ! i; e = the (get_flow_entry_by_cookie c table) in
        bindr (modify_transaction
            (modify_flow_new\<lparr>flow_description := description e, command := OFPFC_DELETE_STRICT, use_out_port := False\<rparr>)
            True (Table_Callback i)
            (s\<lparr>flow_tables := (flow_tables s)[i := snd (mark_entry_as_pending_deletion now c table)]\<rparr>))
          (\<lambda>(msg, s'). Inr (c, s')))"

definition remove_flow_strict :: "int \<Rightarrow> openflow_flow_description \<Rightarrow> flow_service \<Rightarrow> (64 word \<times> flow_service) res" where
  "remove_flow_strict now flow s = remove_flow now (cookie flow) s"

text \<open>The requests that delete flows one by one: all but the last are sent at once.\<close>

definition delete_request :: "openflow_flow_entry \<Rightarrow> of_message_modify_flow" where
  "delete_request e = modify_flow_new\<lparr>flow_description := (description e)\<lparr>action_list := []\<rparr>,
     command := OFPFC_DELETE_STRICT, use_out_port := False\<rparr>"

fun send_deletes :: "openflow_flow_entry list \<Rightarrow> flow_service \<Rightarrow> flow_service res" where
  "send_deletes [] s = Inr s"
| "send_deletes (e # es) s =
     bindr (modify_transaction (delete_request e) False No_Callback s) (\<lambda>(msg, s'). send_deletes es s')"

definition mark_tables :: "int \<Rightarrow> bool \<Rightarrow> flow_service \<Rightarrow> openflow_flow_entry list \<times> flow_service" where
  "mark_tables now include_static s =
    (concat (map (\<lambda>t. fst (mark_all_flows_as_pending_delete now include_static t)) (flow_tables s)),
     s\<lparr>flow_tables := map (\<lambda>t. snd (mark_all_flows_as_pending_delete now include_static t)) (flow_tables s)\<rparr>)"

text \<open>The request that is sent last, and waited for when there is a timeout.\<close>

definition finish_clear ::
  "(flow_service \<Rightarrow> flow_service \<times> bool) \<Rightarrow> of_message_modify_flow \<Rightarrow> int \<Rightarrow> flow_service \<Rightarrow> (bool \<times> flow_service) res" where
  "finish_clear wait m timeout_ms s =
    bindr (modify_transaction m (timeout_ms \<noteq> 0) (if timeout_ms \<noteq> 0 then Blocking_Callback else No_Callback) s)
      (\<lambda>(msg, s').
        if timeout_ms = 0 then Inr (True, s')
        else case wait s' of (s'', status) \<Rightarrow>
          if status then Inr (True, s''\<lparr>flow_tables := map (clear_table False) (flow_tables s'')\<rparr>)
          else Inr (False, s''))"

definition clear_all_flows ::
  "int \<Rightarrow> (flow_service \<Rightarrow> flow_service \<times> bool) \<Rightarrow> int \<Rightarrow> bool \<Rightarrow> flow_service \<Rightarrow> (bool \<times> flow_service) res" where
  "clear_all_flows now wait timeout_ms keep_static_flows s =
    (if \<not> initialized s then Inr (False, s)
     else if keep_static_flows then
       (case mark_tables now False s of (flows_to_remove, s1) \<Rightarrow>
         if flows_to_remove = [] then Inr (True, s1)
         else bindr (send_deletes (butlast flows_to_remove) s1) (\<lambda>s2.
           finish_clear wait (delete_request (last flows_to_remove)) timeout_ms s2))
     else
       finish_clear wait
         (modify_flow_new\<lparr>flow_description := flow_description_clear\<lparr>criteria := of_match_wildcard_all of_match_clear\<rparr>,
            command := OFPFC_DELETE, use_out_port := False\<rparr>)
         timeout_ms (snd (mark_tables now True s)))"

section \<open>Queries\<close>

definition does_flow_exist :: "64 word \<Rightarrow> flow_service \<Rightarrow> 64 word" where
  "does_flow_exist c s =
    (if \<not> initialized s then - 1
     else if list_ex (is_cookie_used c) (flow_tables s) then c else - 1)"

fun first_cookie :: "openflow_flow_description \<Rightarrow> flow_table list \<Rightarrow> 64 word" where
  "first_cookie flow [] = - 1"
| "first_cookie flow (t # ts) = (let r = get_cookie_for_flow flow t in if r \<noteq> - 1 then r else first_cookie flow ts)"

definition does_flow_exist_strict :: "openflow_flow_description \<Rightarrow> flow_service \<Rightarrow> 64 word" where
  "does_flow_exist_strict flow s = (if \<not> initialized s then - 1 else first_cookie flow (flow_tables s))"

definition get_flows :: "flow_service \<Rightarrow> openflow_flow_entry list" where
  "get_flows s = (if \<not> initialized s then [] else concat (map (get_all_flows True) (flow_tables s)))"

text \<open>\<open>map::insert\<close> keeps what is there.\<close>

definition get_flows_map :: "flow_service \<Rightarrow> flow_map" where
  "get_flows_map s =
    (if \<not> initialized s then []
     else fold (\<lambda>(k, e) m. if smap_find k m = None then smap_put k e m else m)
            (concat (map get_all_flows_map (flow_tables s))) [])"

definition refresh_flows ::
  "(flow_service \<Rightarrow> flow_service \<times> bool) \<Rightarrow> int \<Rightarrow> flow_service \<Rightarrow> bool \<times> flow_service" where
  "refresh_flows wait timeout_ms s =
    (if \<not> initialized s then (False, s)
     else if timeout_ms = 0 then (True, stats_transaction False No_Callback s)
     else case wait (stats_transaction True Blocking_Callback s) of (s', status) \<Rightarrow> (status, s'))"

section \<open>Messages from the switch\<close>

definition next_free_id :: "flow_stats list \<Rightarrow> 64 word" where
  "next_free_id fs =
     foldl (\<lambda>next f. if next \<le> cookie (flow_desc f) then cookie (flow_desc f) + 1 else next) 1 fs"

text \<open>The tables take their flows from the front of the list, one table after the other;
  \<open>update\<close> is the method \<open>update_entries\<close> of a table.\<close>

fun update_tables ::
  "('f list \<Rightarrow> 't \<Rightarrow> nat \<times> 'f list \<times> 't) \<Rightarrow> 't list \<Rightarrow> 'f list \<Rightarrow> nat \<Rightarrow> 't list \<times> 'f list \<times> nat" where
  "update_tables update [] fs installed = ([], fs, installed)"
| "update_tables update (t # ts) fs installed =
    (case update fs t of (n, remaining, t') \<Rightarrow>
      (case update_tables update ts remaining (u32 (installed + n)) of (ts', r, installed') \<Rightarrow> (t' # ts', r, installed')))"

definition flow_stats_handler :: "int \<Rightarrow> bool \<Rightarrow> flow_stats list \<Rightarrow> flow_service \<Rightarrow> flow_service res" where
  "flow_stats_handler now more_to_follow fs s =
    (let pending = pending_flows s @ fs in
     if more_to_follow then Inr (s\<lparr>pending_flows := pending\<rparr>)
     else
       let s1 = (if \<not> initialized s \<and> initializing s
                 then s\<lparr>next_available_cookie_id := next_free_id pending\<rparr> else s) in
       case update_tables (update_entries now) (flow_tables s1) pending 0 of (ts, remaining, installed) \<Rightarrow>
         if installed \<noteq> u32 (length pending) then Inl Aborted
         else Inr (s1\<lparr>flow_tables := ts, pending_flows := []\<rparr>))"

text \<open>The completion of a transaction with the table \<open>i\<close> as its callback.\<close>

definition table_completion ::
  "int \<Rightarrow> of_message_modify_flow \<Rightarrow> hal_reply \<Rightarrow> bool \<Rightarrow> nat \<Rightarrow> flow_service \<Rightarrow> flow_service res" where
  "table_completion now msg reply status i s =
    (if length (flow_tables s) \<le> i then Inl OutOfBounds
     else bindr (table_hal_callback now msg reply status (flow_tables s ! i)) (\<lambda>table.
       Inr (s\<lparr>flow_tables := (flow_tables s)[i := table]\<rparr>)))"

definition flow_removed_handler :: "int \<Rightarrow> 64 word \<Rightarrow> flow_service \<Rightarrow> flow_service" where
  "flow_removed_handler now c s =
     s\<lparr>flow_tables := map (\<lambda>t. if is_cookie_used c t then snd (mark_entry_as_deleted now c t) else t) (flow_tables s)\<rparr>"

end
