(* ===== verification/Hal_Transaction.thy ===== *)
theory Hal_Transaction
  imports Packet_Processor Flow_Service
begin

text \<open>
  \<open>controller/hal/hal_transaction.{h,cpp}\<close> and the part of \<open>controller/hal/hal.{h,cpp}\<close> that does not depend on the
  services: requests to the switch, the thread that sends them, and the callbacks when they are answered. A callback object
  is a number; \<open>fresh\<close> is what uncleared buffers hold; the transaction counter is a part of the state of the controller.
\<close>

datatype hal_request =
    Rq_Header of_message           \<comment> \<open>hello, features request, configuration request, barrier request\<close>
  | Rq_Echo of_message_echo
  | Rq_Set_Config of_message_set_config
  | Rq_Packet_Out of_message_packet_out
  | Rq_Modify_Flow of_message_modify_flow
  | Rq_Port_Mod of_message_port_modification
  | Rq_Description_Stats of_message
  | Rq_Table_Stats of_message
  | Rq_Flow_Stats of_message_flow_request
  | Rq_Aggregate_Stats of_message_flow_request
  | Rq_Port_Stats of_message_port_request
  | Rq_Queue_Stats of_message_queue_request

primrec request_xid :: "hal_request \<Rightarrow> 32 word" where
  "request_xid (Rq_Header m) = xid m"
| "request_xid (Rq_Echo m) = xid m"
| "request_xid (Rq_Set_Config m) = xid m"
| "request_xid (Rq_Packet_Out m) = xid m"
| "request_xid (Rq_Modify_Flow m) = xid m"
| "request_xid (Rq_Port_Mod m) = xid m"
| "request_xid (Rq_Description_Stats m) = xid m"
| "request_xid (Rq_Table_Stats m) = xid m"
| "request_xid (Rq_Flow_Stats m) = xid m"
| "request_xid (Rq_Aggregate_Stats m) = xid m"
| "request_xid (Rq_Port_Stats m) = xid m"
| "request_xid (Rq_Queue_Stats m) = xid m"

primrec with_xid :: "32 word \<Rightarrow> hal_request \<Rightarrow> hal_request" where
  "with_xid x (Rq_Header m) = Rq_Header (m\<lparr>xid := x\<rparr>)"
| "with_xid x (Rq_Echo m) = Rq_Echo (m\<lparr>xid := x\<rparr>)"
| "with_xid x (Rq_Set_Config m) = Rq_Set_Config (m\<lparr>xid := x\<rparr>)"
| "with_xid x (Rq_Packet_Out m) = Rq_Packet_Out (m\<lparr>xid := x\<rparr>)"
| "with_xid x (Rq_Modify_Flow m) = Rq_Modify_Flow (m\<lparr>xid := x\<rparr>)"
| "with_xid x (Rq_Port_Mod m) = Rq_Port_Mod (m\<lparr>xid := x\<rparr>)"
| "with_xid x (Rq_Description_Stats m) = Rq_Description_Stats (m\<lparr>xid := x\<rparr>)"
| "with_xid x (Rq_Table_Stats m) = Rq_Table_Stats (m\<lparr>xid := x\<rparr>)"
| "with_xid x (Rq_Flow_Stats m) = Rq_Flow_Stats (m\<lparr>xid := x\<rparr>)"
| "with_xid x (Rq_Aggregate_Stats m) = Rq_Aggregate_Stats (m\<lparr>xid := x\<rparr>)"
| "with_xid x (Rq_Port_Stats m) = Rq_Port_Stats (m\<lparr>xid := x\<rparr>)"
| "with_xid x (Rq_Queue_Stats m) = Rq_Queue_Stats (m\<lparr>xid := x\<rparr>)"

lemma request_xid_with [simp]: "request_xid (with_xid x r) = x"
  by (cases r) simp_all

text \<open>The virtual call of \<open>serialize\<close>.\<close>

fun request_serialize :: "(nat \<Rightarrow> byte list) \<Rightarrow> hal_request \<Rightarrow> byte list res" where
  "request_serialize fresh (Rq_Header m) = Inr (of_message_serialize m)"
| "request_serialize fresh (Rq_Echo m) = echo_serialize m"
| "request_serialize fresh (Rq_Set_Config m) = Inr (set_config_serialize m)"
| "request_serialize fresh (Rq_Packet_Out m) = packet_out_serialize fresh m"
| "request_serialize fresh (Rq_Modify_Flow m) = modify_flow_serialize m"
| "request_serialize fresh (Rq_Port_Mod m) = Inr (port_mod_serialize (fresh 4) m)"
| "request_serialize fresh (Rq_Description_Stats m) = Inr (description_request_serialize m)"
| "request_serialize fresh (Rq_Table_Stats m) = Inr (table_request_serialize m)"
| "request_serialize fresh (Rq_Flow_Stats m) = Inr (flow_request_serialize m)"
| "request_serialize fresh (Rq_Aggregate_Stats m) = Inr (aggregate_request_serialize (hd (fresh 1)) m)"
| "request_serialize fresh (Rq_Port_Stats m) = Inr (port_request_serialize m)"
| "request_serialize fresh (Rq_Queue_Stats m) = Inr (queue_request_serialize (fresh 2) m)"

record transaction =
  tx_request :: hal_request
  tx_serialized :: "byte list"
  tx_reply :: "any_message option"
  tx_needs_ack :: bool
  tx_callback :: "nat option"

definition set_request_and_serialize ::
  "(nat \<Rightarrow> byte list) \<Rightarrow> hal_request \<Rightarrow> bool \<Rightarrow> nat option \<Rightarrow> transaction res" where
  "set_request_and_serialize fresh r needs_ack cob =
     bindr (request_serialize fresh r) (\<lambda>bytes. Inr \<lparr>tx_request = r, tx_serialized = bytes, tx_reply = None,
       tx_needs_ack = needs_ack, tx_callback = cob\<rparr>)"

section \<open>The controller\<close>

record hal =
  switch_ready :: bool
  hal_under_initialization :: bool
  hal_shutdown_flag :: bool
  hal_xid :: "32 word"
  pending_transactions :: "transaction option list"
  asynchronous_messages :: "any_message option list"
  callback_transactions :: "transaction list"
  sent_to_switch :: "byte list list"
  packet_processor :: packet_in_processor

definition hal_new :: hal where
  "hal_new = \<lparr>switch_ready = False, hal_under_initialization = False, hal_shutdown_flag = False, hal_xid = 1,
     pending_transactions = [], asynchronous_messages = [], callback_transactions = [], sent_to_switch = [],
     packet_processor = processor_new\<rparr>"

definition reserve_xid :: "hal \<Rightarrow> 32 word \<times> hal" where
  "reserve_xid h = (hal_xid h, h\<lparr>hal_xid := hal_xid h + 1\<rparr>)"

text \<open>The constructor of a transaction.\<close>

definition assign_and_serialize ::
  "(nat \<Rightarrow> byte list) \<Rightarrow> hal_request \<Rightarrow> bool \<Rightarrow> nat option \<Rightarrow> hal \<Rightarrow> (transaction \<times> hal) res" where
  "assign_and_serialize fresh r needs_ack cob h =
    (case reserve_xid h of (x, h1) \<Rightarrow>
       bindr (set_request_and_serialize fresh (with_xid x r) needs_ack cob) (\<lambda>t. Inr (t, h1)))"

definition enqueue_transaction :: "transaction option \<Rightarrow> hal \<Rightarrow> hal" where
  "enqueue_transaction t h = h\<lparr>pending_transactions := pending_transactions h @ [t]\<rparr>"

text \<open>What every client does: build the transaction, then enqueue it. Another thread may come in between; it is then
  another step of the controller.\<close>

definition submit :: "(nat \<Rightarrow> byte list) \<Rightarrow> hal_request \<Rightarrow> bool \<Rightarrow> nat option \<Rightarrow> hal \<Rightarrow> hal res" where
  "submit fresh r needs_ack cob h =
     bindr (assign_and_serialize fresh r needs_ack cob h) (\<lambda>(t, h1). Inr (enqueue_transaction (Some t) h1))"

text \<open>The calls that wait, up to the wait.\<close>

definition post_echo_request :: "nat \<Rightarrow> hal \<Rightarrow> hal res" where
  "post_echo_request cob = submit (\<lambda>n. []) (Rq_Echo echo_request_clear) True (Some cob)"

definition post_barrier_request :: "nat \<Rightarrow> hal \<Rightarrow> hal res" where
  "post_barrier_request cob = submit (\<lambda>n. []) (Rq_Header barrier_request_clear) True (Some cob)"

text \<open>The set of ports is the list of its elements in order.\<close>

definition send_packet :: "(nat \<Rightarrow> byte list) \<Rightarrow> byte list \<Rightarrow> 16 word list \<Rightarrow> hal \<Rightarrow> (bool \<times> hal) res" where
  "send_packet fresh packet phy_ports h =
    (if \<not> switch_ready h then Inr (False, h)
     else let pkt_out = packet_out_new\<lparr>packet_data := packet,
                po_actions := fold (\<lambda>p. add_action (Output_To_Port False p)) phy_ports []\<rparr> in
       bindr (submit fresh (Rq_Packet_Out pkt_out) False None h) (\<lambda>h1. Inr (True, h1)))"

definition send_packet_to_port :: "(nat \<Rightarrow> byte list) \<Rightarrow> byte list \<Rightarrow> 16 word \<Rightarrow> hal \<Rightarrow> (bool \<times> hal) res" where
  "send_packet_to_port fresh packet phy_port = send_packet fresh packet [phy_port]"

text \<open>One round of the sending thread, as long as the connection stands: None while it waits. Null transactions only
  wake it up.\<close>

definition send_round :: "hal \<Rightarrow> hal option" where
  "send_round h =
    (case pending_transactions h of [] \<Rightarrow> None
     | None # q \<Rightarrow> Some (h\<lparr>pending_transactions := q\<rparr>)
     | Some t # q \<Rightarrow> Some (h\<lparr>pending_transactions := q,
         callback_transactions := (if tx_needs_ack t then callback_transactions h @ [t] else callback_transactions h),
         sent_to_switch := sent_to_switch h @ [tx_serialized t]\<rparr>))"

text \<open>One round of the receiving thread.\<close>

definition recv_round :: "any_message \<Rightarrow> hal \<Rightarrow> hal" where
  "recv_round m h = h\<lparr>asynchronous_messages := asynchronous_messages h @ [Some m]\<rparr>"

section \<open>Callbacks\<close>

text \<open>A call: the callback object, its transaction, the reply and the status.\<close>

type_synonym callback_call = "nat \<times> transaction \<times> any_message option \<times> bool"

text \<open>A null callback is dereferenced for the barrier itself; for the transactions before it a null callback is only
  reported. \<open>x\<close> is the transaction number of the reply.\<close>

fun complete_barrier :: "any_message \<Rightarrow> 32 word \<Rightarrow> transaction list \<Rightarrow> (callback_call list \<times> transaction list) res" where
  "complete_barrier reply x [] = Inr ([], [])"
| "complete_barrier reply x (t # ts) =
    (let current = request_xid (tx_request t) in
     if current \<le> x then
       (if current = x then
          (case tx_callback t of None \<Rightarrow> Inl OutOfBounds
           | Some c \<Rightarrow> bindr (complete_barrier reply x ts) (\<lambda>(calls, rest).
               Inr ((c, t\<lparr>tx_reply := Some reply\<rparr>, Some reply, True) # calls, rest)))
        else bindr (complete_barrier reply x ts) (\<lambda>(calls, rest).
               Inr (case tx_callback t of None \<Rightarrow> (calls, rest)
                 | Some c \<Rightarrow> ((c, t\<lparr>tx_reply := None\<rparr>, None, True) # calls, rest))))
     else bindr (complete_barrier reply x ts) (\<lambda>(calls, rest). Inr (calls, t # rest)))"

fun complete_one :: "any_message \<Rightarrow> bool \<Rightarrow> 32 word \<Rightarrow> transaction list \<Rightarrow> (callback_call list \<times> transaction list) res" where
  "complete_one reply status x [] = Inr ([], [])"
| "complete_one reply status x (t # ts) =
    (if request_xid (tx_request t) = x then
       (case tx_callback t of None \<Rightarrow> Inl OutOfBounds
        | Some c \<Rightarrow> Inr ([(c, t\<lparr>tx_reply := Some reply\<rparr>, Some reply, status)], ts))
     else bindr (complete_one reply status x ts) (\<lambda>(calls, rest). Inr (calls, t # rest)))"

section \<open>What a callback round does\<close>

abbreviation tx_xid :: "transaction \<Rightarrow> 32 word" where
  "tx_xid t \<equiv> request_xid (tx_request t)"

definition barrier_call :: "any_message \<Rightarrow> 32 word \<Rightarrow> transaction \<Rightarrow> callback_call" where
  "barrier_call reply x t = (let r = (if tx_xid t = x then Some reply else None) in
     (the (tx_callback t), t\<lparr>tx_reply := r\<rparr>, r, True))"

lemma complete_barrier_partition:
  "list_all (\<lambda>t. tx_callback t \<noteq> None) ts \<Longrightarrow>
    complete_barrier reply x ts = Inr (map (barrier_call reply x) (filter (\<lambda>t. tx_xid t \<le> x) ts), filter (\<lambda>t. \<not> tx_xid t \<le> x) ts)"
  by (induction reply x ts rule: complete_barrier.induct) (auto simp: Let_def barrier_call_def)

lemma complete_one_partition:
  "list_all (\<lambda>t. tx_callback t \<noteq> None) ts \<Longrightarrow> distinct (map tx_xid ts) \<Longrightarrow>
    complete_one reply status x ts = Inr (map (\<lambda>t. (the (tx_callback t), t\<lparr>tx_reply := Some reply\<rparr>, Some reply, status))
      (filter (\<lambda>t. tx_xid t = x) ts), filter (\<lambda>t. tx_xid t \<noteq> x) ts)"
proof (induction reply status x ts rule: complete_one.induct)
  case (2 reply status x t ts)
  have "filter (\<lambda>u. tx_xid u = x) ts = []" "filter (\<lambda>u. tx_xid u \<noteq> x) ts = ts" if "tx_xid t = x"
    using "2.prems"(2) that by (auto simp: filter_empty_conv filter_id_conv) (metis image_eqI)+
  with 2 show ?case by auto
qed simp

section \<open>Runs of the controller\<close>

text \<open>The state of a run: the transactions that were built with the wish for an acknowledgement so far, each as its number and
  its callback (\<open>rs\<close>, kept by the constructor alone), the controller, the transactions that a thread has built and not yet
  enqueued, and the numbers and callbacks of the calls that have been made. Another thread may enqueue between the two, so
  transactions need not be sent in the order of their numbers. A request that asks for an acknowledgement has a callback, as
  in every call in the program.\<close>

type_synonym ticket = "32 word \<times> nat"

definition called :: "callback_call list \<Rightarrow> ticket list" where
  "called calls = map (\<lambda>(c, t, r, s). (tx_xid t, c)) calls"

inductive hal_run :: "ticket list \<Rightarrow> hal \<Rightarrow> transaction list \<Rightarrow> ticket list \<Rightarrow> bool" where
  run_start: "hal_run [] hal_new [] []"
| run_ready: "hal_run rs h bs ds \<Longrightarrow> hal_run rs (h\<lparr>switch_ready := b, hal_shutdown_flag := s\<rparr>) bs ds"
| run_build: "hal_run rs h bs ds \<Longrightarrow> hal_xid h \<noteq> - 1 \<Longrightarrow> needs_ack \<longrightarrow> cob \<noteq> None \<Longrightarrow>
    assign_and_serialize fresh r needs_ack cob h = Inr (t, h') \<Longrightarrow>
    hal_run (if needs_ack then rs @ [(hal_xid h, the cob)] else rs) h' (t # bs) ds"
| run_enqueue: "hal_run rs h bs ds \<Longrightarrow> t \<in> set bs \<Longrightarrow> hal_run rs (enqueue_transaction (Some t) h) (remove1 t bs) ds"
| run_answer: "hal_run rs h bs ds \<Longrightarrow> set_request_and_serialize fresh r False None = Inr t \<Longrightarrow>
    hal_run rs (enqueue_transaction (Some t) h) bs ds"
| run_wake: "hal_run rs h bs ds \<Longrightarrow> hal_run rs (enqueue_transaction None h) bs ds"
| run_send: "hal_run rs h bs ds \<Longrightarrow> send_round h = Some h' \<Longrightarrow> hal_run rs h' bs ds"
| run_receive: "hal_run rs h bs ds \<Longrightarrow> hal_run rs (recv_round m h) bs ds"
| run_take: "hal_run rs h bs ds \<Longrightarrow> hal_run rs (h\<lparr>asynchronous_messages := q, packet_processor := pp\<rparr>) bs ds"
| run_barrier: "hal_run rs h bs ds \<Longrightarrow> complete_barrier reply x (callback_transactions h) = Inr (calls, rest) \<Longrightarrow>
    hal_run rs (h\<lparr>callback_transactions := rest\<rparr>) bs (ds @ called calls)"
| run_one: "hal_run rs h bs ds \<Longrightarrow> complete_one reply status x (callback_transactions h) = Inr (calls, rest) \<Longrightarrow>
    hal_run rs (h\<lparr>callback_transactions := rest\<rparr>) bs (ds @ called calls)"

text \<open>The states that runs reach, with the numbers of the calls that have been made.\<close>

definition hal_reach :: "hal \<Rightarrow> transaction list \<Rightarrow> 32 word list \<Rightarrow> bool" where
  "hal_reach h bs ds = (\<exists>rs calls. hal_run rs h bs calls \<and> ds = map fst calls)"

lemma hal_start: "hal_reach hal_new [] []"
  unfolding hal_reach_def using run_start by (intro exI [of _ "[]"]) simp

lemma hal_build:
  "hal_reach h bs ds \<Longrightarrow> hal_xid h \<noteq> - 1 \<Longrightarrow> needs_ack \<longrightarrow> cob \<noteq> None \<Longrightarrow>
    assign_and_serialize fresh r needs_ack cob h = Inr (t, h') \<Longrightarrow> hal_reach h' (t # bs) ds"
  unfolding hal_reach_def by (elim exE conjE, intro exI conjI, erule run_build) assumption+

definition awaited :: "hal \<Rightarrow> transaction list \<Rightarrow> transaction list" where
  "awaited h bs = filter tx_needs_ack (bs @ List.map_filter id (pending_transactions h)) @ callback_transactions h"

definition ticket_of :: "transaction \<Rightarrow> ticket" where
  "ticket_of t = (tx_xid t, the (tx_callback t))"

definition hal_inv :: "ticket list \<Rightarrow> hal \<Rightarrow> transaction list \<Rightarrow> ticket list \<Rightarrow> bool" where
  "hal_inv rs h bs ds = (mset (map ticket_of (awaited h bs)) + mset ds = mset rs \<and> distinct (map fst rs)
     \<and> (\<forall>r \<in> set rs. fst r < hal_xid h) \<and> list_all (\<lambda>t. tx_callback t \<noteq> None) (awaited h bs))"

text \<open>What the invariant says of a transaction that waits.\<close>

lemma hal_inv_awaited:
  "hal_inv rs h bs ds \<Longrightarrow> t \<in> set (awaited h bs) \<Longrightarrow> tx_xid t < hal_xid h \<and> tx_callback t \<noteq> None \<and> ticket_of t \<in> set rs"
proof -
  assume inv: "hal_inv rs h bs ds" and t: "t \<in> set (awaited h bs)"
  have "ticket_of t \<in># mset (map ticket_of (awaited h bs)) + mset ds" using t by simp
  then have "ticket_of t \<in># mset rs" using inv unfolding hal_inv_def by (simp only:)
  then have "ticket_of t \<in> set rs" by simp
  moreover from this have "fst (ticket_of t) < hal_xid h" using inv by (simp add: hal_inv_def)
  ultimately show ?thesis using inv t by (simp add: hal_inv_def list_all_iff ticket_of_def)
qed

lemma hal_inv_distinct: "hal_inv rs h bs ds \<Longrightarrow> distinct (map tx_xid (awaited h bs) @ map fst ds)"
proof -
  assume inv: "hal_inv rs h bs ds"
  have "mset (map ticket_of (awaited h bs) @ ds) = mset rs" using inv by (simp add: hal_inv_def)
  from arg_cong [OF this, of "image_mset fst"]
  have "mset (map fst (map ticket_of (awaited h bs) @ ds)) = mset (map fst rs)" by (simp only: mset_map)
  then have "distinct (map fst (map ticket_of (awaited h bs) @ ds))"
    using inv mset_eq_imp_distinct_iff unfolding hal_inv_def by blast
  then show ?thesis by (simp add: ticket_of_def o_def)
qed

text \<open>The invariant only depends on what is awaited and completed as multisets.\<close>

lemma hal_inv_mset:
  "hal_inv rs h bs ds \<Longrightarrow> mset (awaited h' bs') = mset (awaited h bs) \<Longrightarrow> hal_xid h' = hal_xid h \<Longrightarrow> hal_inv rs h' bs' ds"
proof -
  assume inv: "hal_inv rs h bs ds" and eq: "mset (awaited h' bs') = mset (awaited h bs)" and x: "hal_xid h' = hal_xid h"
  have s: "set (awaited h' bs') = set (awaited h bs)" using eq by (rule mset_eq_setD)
  have "mset (map ticket_of (awaited h' bs')) = mset (map ticket_of (awaited h bs))" using eq by simp
  then show ?thesis using inv s x by (simp add: hal_inv_def list_all_iff)
qed

text \<open>Transactions move from what is awaited to what is completed.\<close>

lemma hal_inv_move:
  "hal_inv rs h bs ds \<Longrightarrow> mset cs + mset rest = mset (callback_transactions h) \<Longrightarrow> called calls = map ticket_of cs \<Longrightarrow>
    hal_inv rs (h\<lparr>callback_transactions := rest\<rparr>) bs (ds @ called calls)"
proof -
  assume inv: "hal_inv rs h bs ds" and eq: "mset cs + mset rest = mset (callback_transactions h)"
    and called: "called calls = map ticket_of cs"
  let ?h = "h\<lparr>callback_transactions := rest\<rparr>"
  have m: "mset (awaited ?h bs) + mset cs = mset (awaited h bs)"
    unfolding awaited_def mset_append hal.simps eq [symmetric] by simp
  have "mset (map ticket_of (awaited ?h bs)) + mset (ds @ called calls) = mset (map ticket_of (awaited h bs)) + mset ds"
    using arg_cong [OF m, of "image_mset ticket_of"] called by (simp add: ac_simps)
  then have "mset (map ticket_of (awaited ?h bs)) + mset (ds @ called calls) = mset rs"
    using inv unfolding hal_inv_def by (simp only:)
  moreover have "set (awaited ?h bs) \<subseteq> set (awaited h bs)"
    using arg_cong [OF m, of set_mset] by auto
  moreover have "hal_xid ?h = hal_xid h" by simp
  ultimately show ?thesis using inv by (auto simp only: hal_inv_def list_all_iff)
qed

lemma assign_cases:
  assumes "assign_and_serialize fresh r needs_ack cob h = Inr (t, h')"
  shows "h' = h\<lparr>hal_xid := hal_xid h + 1\<rparr>" "tx_xid t = hal_xid h" "tx_needs_ack t = needs_ack" "tx_callback t = cob"
    "tx_reply t = None" "request_serialize fresh (with_xid (hal_xid h) r) = Inr (tx_serialized t)"
  using assms by (auto simp: assign_and_serialize_def reserve_xid_def set_request_and_serialize_def bindr_Inr_iff)

lemma set_request_cases:
  assumes "set_request_and_serialize fresh r needs_ack cob = Inr t"
  shows "tx_request t = r" "tx_needs_ack t = needs_ack" "tx_callback t = cob" "request_serialize fresh r = Inr (tx_serialized t)"
  using assms by (auto simp: set_request_and_serialize_def bindr_Inr_iff)

lemma word_less_next: "w \<noteq> - 1 \<Longrightarrow> w < w + 1" for w :: "32 word"
proof -
  assume "w \<noteq> - 1"
  then have "1 + w \<noteq> 0" by (metis add_eq_0_iff)
  then show ?thesis by (simp add: word_less_nat_alt unatSuc add.commute [of w])
qed

text \<open>A new transaction has a number that none had before.\<close>

lemma hal_inv_build:
  assumes "hal_inv rs h bs ds" "hal_xid h \<noteq> - 1" "needs_ack \<longrightarrow> cob \<noteq> None"
    and "assign_and_serialize fresh r needs_ack cob h = Inr (t, h')"
  shows "hal_inv (if needs_ack then rs @ [(hal_xid h, the cob)] else rs) h' (t # bs) ds"
proof -
  note t = assign_cases [OF assms(4)]
  have aw: "awaited h' (t # bs) = (if needs_ack then t # awaited h bs else awaited h bs)"
    by (simp add: awaited_def t)
  have new: "hal_xid h \<notin> fst ` set rs" using assms(1) unfolding hal_inv_def by fastforce
  have "hal_xid h < hal_xid h + 1" using assms(2) by (rule word_less_next)
  moreover from this have "\<forall>r \<in> set rs. fst r < hal_xid h + 1"
    using assms(1) order_less_trans unfolding hal_inv_def by blast
  moreover have "hal_xid h' = hal_xid h + 1" by (simp add: t(1))
  ultimately show ?thesis using assms(1,3) new t(2-4) unfolding hal_inv_def aw by (auto simp: ticket_of_def)
qed

lemma hal_run_inv: "hal_run rs h bs ds \<Longrightarrow> hal_inv rs h bs ds"
proof (induction rule: hal_run.induct)
  case run_start
  then show ?case by (simp add: hal_inv_def awaited_def hal_new_def)
next
  case run_build
  show ?case by (rule hal_inv_build) fact+
next
  case (run_enqueue rs h bs ds t)
  show ?case
    by (rule hal_inv_mset [OF run_enqueue.IH]) (use run_enqueue(2) in \<open>simp_all add: awaited_def enqueue_transaction_def List.map_filter_def\<close>)
next
  case (run_send rs h bs ds h')
  show ?case
    by (rule hal_inv_mset [OF run_send.IH]) (use run_send(2) in \<open>auto simp: awaited_def send_round_def List.map_filter_def split: list.splits option.splits\<close>)
next
  case (run_answer rs h bs ds fresh r t)
  note t = set_request_cases [OF run_answer(2)]
  show ?case
    by (rule hal_inv_mset [OF run_answer.IH]) (simp_all add: awaited_def enqueue_transaction_def List.map_filter_def t)
next
  case (run_barrier rs h bs ds reply x calls rest)
  have "list_all (\<lambda>t. tx_callback t \<noteq> None) (callback_transactions h)"
    using run_barrier.IH by (simp add: hal_inv_def awaited_def)
  from complete_barrier_partition [OF this, of reply x]
  have "calls = map (barrier_call reply x) (filter (\<lambda>t. tx_xid t \<le> x) (callback_transactions h))"
    "rest = filter (\<lambda>t. \<not> tx_xid t \<le> x) (callback_transactions h)"
    using run_barrier(2) by auto
  moreover from this(1) have "called calls = map ticket_of (filter (\<lambda>t. tx_xid t \<le> x) (callback_transactions h))"
    by (simp add: called_def barrier_call_def Let_def ticket_of_def)
  ultimately show ?case by (intro hal_inv_move [OF run_barrier.IH]) (simp_all add: multiset_partition [symmetric])
next
  case (run_one rs h bs ds reply status x calls rest)
  have "list_all (\<lambda>t. tx_callback t \<noteq> None) (callback_transactions h)" "distinct (map tx_xid (callback_transactions h))"
    using run_one.IH hal_inv_distinct [OF run_one.IH] by (auto simp: hal_inv_def awaited_def)
  from complete_one_partition [OF this, of reply status x]
  have "calls = map (\<lambda>t. (the (tx_callback t), t\<lparr>tx_reply := Some reply\<rparr>, Some reply, status)) (filter (\<lambda>t. tx_xid t = x) (callback_transactions h))"
    "rest = filter (\<lambda>t. tx_xid t \<noteq> x) (callback_transactions h)"
    using run_one(2) by auto
  moreover from this(1) have "called calls = map ticket_of (filter (\<lambda>t. tx_xid t = x) (callback_transactions h))"
    by (simp add: called_def ticket_of_def)
  ultimately show ?case by (intro hal_inv_move [OF run_one.IH]) (simp_all add: multiset_partition [symmetric])
qed (auto elim!: hal_inv_mset simp: awaited_def enqueue_transaction_def recv_round_def List.map_filter_def)

text \<open>C8. As long as the 32-bit transaction counter has not wrapped, no callback is lost, made twice or made up: whatever the
  threads do in whatever order, the transactions that still wait for an acknowledgement (built, queued or sent) and the calls
  that have been made are together exactly the transactions that were ever built with the wish for an acknowledgement, number by
  number with the callback they were built with, each once; these numbers are all different and below the counter, and every
  transaction that waits has a callback.\<close>

theorem callbacks_once:
  assumes "hal_run rs h bs ds"
  shows "mset (map ticket_of (awaited h bs) @ ds) = mset rs \<and> distinct (map fst rs)
    \<and> (\<forall>t. t \<in> set (awaited h bs) \<longrightarrow> tx_xid t < hal_xid h \<and> tx_callback t \<noteq> None)"
  using hal_run_inv [OF assms] hal_inv_awaited [OF hal_run_inv [OF assms]] by (simp add: hal_inv_def)

section \<open>Sending everything\<close>

primrec send_rounds :: "nat \<Rightarrow> hal \<Rightarrow> hal" where
  "send_rounds 0 h = h"
| "send_rounds (Suc n) h = (case send_round h of None \<Rightarrow> h | Some h' \<Rightarrow> send_rounds n h')"

text \<open>A round takes one transaction off the queue, so that many rounds empty it.\<close>

definition send_all :: "hal \<Rightarrow> hal" where
  "send_all h = send_rounds (length (pending_transactions h)) h"

definition queued :: "hal \<Rightarrow> transaction list" where
  "queued h = List.map_filter id (pending_transactions h)"

lemma send_all_effect:
  "send_all h = h\<lparr>pending_transactions := [], callback_transactions := callback_transactions h @ filter tx_needs_ack (queued h),
     sent_to_switch := sent_to_switch h @ map tx_serialized (queued h)\<rparr>"
proof -
  have "send_rounds (length q) h = h\<lparr>pending_transactions := [],
      callback_transactions := callback_transactions h @ filter tx_needs_ack (List.map_filter id q),
      sent_to_switch := sent_to_switch h @ map tx_serialized (List.map_filter id q)\<rparr>"
    if "pending_transactions h = q" for q
    using that by (induction q arbitrary: h) (auto simp: send_round_def List.map_filter_def split: option.split)
  then show ?thesis by (simp add: send_all_def queued_def)
qed

lemma post_barrier_effect:
  "\<exists>b. post_barrier_request c h = Inr (h\<lparr>hal_xid := hal_xid h + 1, pending_transactions := pending_transactions h @ [Some b]\<rparr>)
    \<and> tx_xid b = hal_xid h \<and> tx_needs_ack b \<and> tx_callback b = Some c
    \<and> tx_serialized b = header_bytes 1 OFPT_BARRIER_REQUEST 8 (hal_xid h)"
  by (intro exI [where x = "\<lparr>tx_request = Rq_Header (barrier_request_clear\<lparr>xid := hal_xid h\<rparr>),
      tx_serialized = header_bytes 1 OFPT_BARRIER_REQUEST 8 (hal_xid h), tx_reply = None, tx_needs_ack = True, tx_callback = Some c\<rparr>"])
    (simp add: post_barrier_request_def submit_def assign_and_serialize_def reserve_xid_def set_request_and_serialize_def
      enqueue_transaction_def of_message_serialize_def barrier_request_clear_def of_message_clear_def)

lemma queued_append: "queued (h\<lparr>hal_xid := x, pending_transactions := pending_transactions h @ map Some ts\<rparr>) = queued h @ ts"
  by (simp add: queued_def List.map_filter_def o_def)

text \<open>What is awaited in a reachable state has a number below the one of the next barrier.\<close>

lemma awaited_below:
  "hal_reach h bs ds \<Longrightarrow> t \<in> set (awaited h bs) \<Longrightarrow> tx_xid t < hal_xid h \<and> (\<exists>c. tx_callback t = Some c)"
  using hal_inv_awaited hal_run_inv unfolding hal_reach_def by blast

lemma barrier_round:
  assumes reach: "hal_reach h bs ds" and post: "post_barrier_request c h = Inr h1" and ts: "set ts \<subseteq> set bs"
  obtains b where "tx_xid b = hal_xid h" "tx_needs_ack b" "tx_callback b = Some c"
    and "send_all (h1\<lparr>pending_transactions := pending_transactions h1 @ map Some ts\<rparr>)
      = h1\<lparr>pending_transactions := [], callback_transactions := callback_transactions h @ filter tx_needs_ack (queued h @ b # ts),
          sent_to_switch := sent_to_switch h @ map tx_serialized (queued h @ b # ts)\<rparr>"
    and "complete_barrier reply (hal_xid h) (callback_transactions h @ filter tx_needs_ack (queued h @ b # ts))
      = Inr (map (barrier_call reply (hal_xid h)) (callback_transactions h @ filter tx_needs_ack (queued h @ b # ts)), [])"
proof -
  obtain b where b: "tx_xid b = hal_xid h" "tx_needs_ack b" "tx_callback b = Some c"
    and h1: "h1 = h\<lparr>hal_xid := hal_xid h + 1, pending_transactions := pending_transactions h @ [Some b]\<rparr>"
    using post_barrier_effect [of c h] post by auto
  let ?cs = "callback_transactions h @ filter tx_needs_ack (queued h @ b # ts)"
  have mem: "t = b \<or> tx_xid t < hal_xid h \<and> (\<exists>c. tx_callback t = Some c)" if "t \<in> set ?cs" for t
    using that ts awaited_below [OF reach, of t] by (auto simp: awaited_def queued_def split: if_splits)
  have le: "tx_xid t \<le> hal_xid h \<and> tx_callback t \<noteq> None" if "t \<in> set ?cs" for t
    using mem [OF that] b by auto
  have "list_all (\<lambda>t. tx_callback t \<noteq> None) ?cs" "filter (\<lambda>t. tx_xid t \<le> hal_xid h) ?cs = ?cs"
    "filter (\<lambda>t. \<not> tx_xid t \<le> hal_xid h) ?cs = []"
    using le by (simp add: list_all_iff, intro filter_True ballI, blast, intro filter_False ballI, blast)
  then have "complete_barrier reply (hal_xid h) ?cs = Inr (map (barrier_call reply (hal_xid h)) ?cs, [])"
    by (simp only: complete_barrier_partition)
  moreover have "send_all (h1\<lparr>pending_transactions := pending_transactions h1 @ map Some ts\<rparr>)
      = h1\<lparr>pending_transactions := [], callback_transactions := ?cs, sent_to_switch := sent_to_switch h @ map tx_serialized (queued h @ b # ts)\<rparr>"
    using queued_append [where h = h and ts = "b # ts"] by (simp add: send_all_effect h1)
  ultimately show thesis using that b by blast
qed

text \<open>C9. Every caller that waits is called back: let the maintenance thread post a barrier in any reachable state, let the
  sending thread empty its queue and let the switch answer the barrier; then the callback of every transaction that had been
  sent or queued for an acknowledgement is called once, in the order in which they were sent, the caller that waits for the
  barrier last, each with success, and nothing waits any more (as long as the transaction counter has not wrapped).\<close>

theorem barrier_completes_all:
  assumes "hal_reach h bs ds" "post_barrier_request c h = Inr h1"
  shows "\<exists>calls. complete_barrier reply (hal_xid h) (callback_transactions (send_all h1)) = Inr (calls, [])
    \<and> map fst calls = map (\<lambda>t. the (tx_callback t)) (callback_transactions h @ filter tx_needs_ack (queued h)) @ [c]
    \<and> (\<forall>call. call \<in> set calls \<longrightarrow> snd (snd (snd call)))"
proof -
  obtain b where b: "tx_xid b = hal_xid h" "tx_needs_ack b" "tx_callback b = Some c"
    and sent: "send_all (h1\<lparr>pending_transactions := pending_transactions h1 @ map Some []\<rparr>)
      = h1\<lparr>pending_transactions := [], callback_transactions := callback_transactions h @ filter tx_needs_ack (queued h @ [b]),
          sent_to_switch := sent_to_switch h @ map tx_serialized (queued h @ [b])\<rparr>"
    and calls: "complete_barrier reply (hal_xid h) (callback_transactions h @ filter tx_needs_ack (queued h @ [b]))
      = Inr (map (barrier_call reply (hal_xid h)) (callback_transactions h @ filter tx_needs_ack (queued h @ [b])), [])"
    by (rule barrier_round [OF assms, where ts = "[]" and reply = reply]) (simp, rule that)
  have "callback_transactions (send_all h1) = callback_transactions h @ filter tx_needs_ack (queued h @ [b])"
    using sent by simp
  then show ?thesis using calls b by (auto simp: barrier_call_def Let_def)
qed

text \<open>C37. A barrier answers by number, not by order: a transaction that was built before the barrier but queued after it is
  sent after it and is nevertheless reported as successful when the switch answers the barrier, without any word from the
  switch about it.\<close>

theorem barrier_overtakes:
  assumes "hal_reach h bs ds" "t \<in> set bs" "tx_needs_ack t" "post_barrier_request c h = Inr h1"
    and "h2 = send_all (enqueue_transaction (Some t) h1)"
    and "complete_barrier reply (hal_xid h) (callback_transactions h2) = Inr (calls, rest)"
  shows "\<exists>b. sent_to_switch h2 = sent_to_switch (send_all h) @ [header_bytes 1 OFPT_BARRIER_REQUEST 8 (hal_xid h), tx_serialized t]
    \<and> b = (the (tx_callback t), t\<lparr>tx_reply := None\<rparr>, None, True) \<and> b \<in> set calls"
proof -
  obtain b where b: "h1 = h\<lparr>hal_xid := hal_xid h + 1, pending_transactions := pending_transactions h @ [Some b]\<rparr>"
      "tx_serialized b = header_bytes 1 OFPT_BARRIER_REQUEST 8 (hal_xid h)" "tx_xid b = hal_xid h" "tx_needs_ack b"
    using post_barrier_effect [of c h] assms(4) by auto
  obtain b' where sent: "send_all (h1\<lparr>pending_transactions := pending_transactions h1 @ map Some [t]\<rparr>)
      = h1\<lparr>pending_transactions := [], callback_transactions := callback_transactions h @ filter tx_needs_ack (queued h @ [b', t]),
          sent_to_switch := sent_to_switch h @ map tx_serialized (queued h @ [b', t])\<rparr>"
    and calls: "complete_barrier reply (hal_xid h) (callback_transactions h @ filter tx_needs_ack (queued h @ [b', t]))
      = Inr (map (barrier_call reply (hal_xid h)) (callback_transactions h @ filter tx_needs_ack (queued h @ [b', t])), [])"
    by (rule barrier_round [OF assms(1,4), where ts = "[t]" and reply = reply]) (use assms(2) in simp, rule that)
  have h2: "h2 = send_all (h1\<lparr>pending_transactions := pending_transactions h1 @ map Some [t]\<rparr>)"
    by (simp add: assms(5) enqueue_transaction_def)
  have "tx_xid t \<noteq> hal_xid h" using awaited_below [OF assms(1), of t] assms(2,3) by (auto simp: awaited_def)
  then have "barrier_call reply (hal_xid h) t = (the (tx_callback t), t\<lparr>tx_reply := None\<rparr>, None, True)"
    by (simp add: barrier_call_def)
  moreover have cb: "callback_transactions h2 = callback_transactions h @ filter tx_needs_ack (queued h @ [b', t])"
    unfolding h2 sent by simp
  have "calls = map (barrier_call reply (hal_xid h)) (callback_transactions h @ filter tx_needs_ack (queued h @ [b', t]))"
    using assms(6) unfolding cb calls by (simp only: sum.inject prod.inject)
  ultimately have "(the (tx_callback t), t\<lparr>tx_reply := None\<rparr>, None, True) \<in> set calls"
    using assms(3) by (simp add: image_iff)
  moreover have "sent_to_switch h2 = sent_to_switch (send_all h) @ [tx_serialized b, tx_serialized t]"
    using queued_append [where h = h and ts = "[b, t]"]
    by (simp add: assms(5) b(1) enqueue_transaction_def send_all_effect)
  ultimately show ?thesis by (auto simp: b(2))
qed

text \<open>One barrier is posted and sent, the switch has not yet answered it: its ticket waits. When the answer comes the call has
  been made and nothing waits.\<close>

theorem callbacks_once_witness:
  "\<exists>h t h' calls. hal_run [(1, 7)] h [] [] \<and> callback_transactions h = [t] \<and> ticket_of t = (1, 7)
    \<and> complete_barrier (Barrier_Reply barrier_reply_clear) 1 (callback_transactions h) = Inr (calls, [])
    \<and> h' = h\<lparr>callback_transactions := []\<rparr> \<and> hal_run [(1, 7)] h' [] [(1, 7)]
    \<and> mset (map ticket_of (awaited h [])) = mset [(1, 7)] \<and> mset (map ticket_of (awaited h' []) @ [(1, 7)]) = mset [(1, 7)]"
proof -
  obtain h0 t where a: "assign_and_serialize (\<lambda>n. []) (Rq_Header barrier_request_clear) True (Some 7) hal_new = Inr (t, h0)"
    by (auto simp: assign_and_serialize_def reserve_xid_def set_request_and_serialize_def)
  note t = assign_cases [OF a]
  have "hal_run [(1, 7)] h0 [t] []" using run_build [OF run_start _ _ a] by (simp add: hal_new_def)
  then have queued: "hal_run [(1, 7)] (enqueue_transaction (Some t) h0) [] []"
    using run_enqueue [of _ h0 "[t]" "[]" t] by simp
  obtain h where send: "send_round (enqueue_transaction (Some t) h0) = Some h"
    and h: "callback_transactions h = [t]" "pending_transactions h = []"
    by (simp add: send_round_def enqueue_transaction_def t(1,3) hal_new_def)
  have sent: "hal_run [(1, 7)] h [] []" by (rule run_send [OF queued send])
  obtain calls where calls: "complete_barrier (Barrier_Reply barrier_reply_clear) 1 (callback_transactions h) = Inr (calls, [])"
    and made: "called calls = [(1, 7)]"
    by (simp add: h(1) t(2,4) hal_new_def called_def)
  have finished: "hal_run [(1, 7)] (h\<lparr>callback_transactions := []\<rparr>) [] [(1, 7)]"
    using run_barrier [OF sent calls] made by simp
  from callbacks_once [OF sent] callbacks_once [OF finished] sent finished calls h(1) show ?thesis
    by (intro exI [of _ h] exI [of _ t] exI [of _ "h\<lparr>callback_transactions := []\<rparr>"] exI [of _ calls])
      (simp add: ticket_of_def t(2,4) hal_new_def)
qed

theorem barrier_completes_all_witness:
  "\<exists>h calls. post_barrier_request 7 hal_new = Inr h
    \<and> complete_barrier (Barrier_Reply barrier_reply_clear) (hal_xid hal_new) (callback_transactions (send_all h)) = Inr (calls, [])
    \<and> map fst calls = [7]"
proof -
  obtain h where h: "post_barrier_request 7 hal_new = Inr h" using post_barrier_effect [of 7 hal_new] by auto
  from barrier_completes_all [OF hal_start h, of "Barrier_Reply barrier_reply_clear"] h show ?thesis
    by (auto simp: queued_def hal_new_def List.map_filter_def)
qed

theorem barrier_overtakes_witness:
  "\<exists>h t h1 calls. hal_reach h [t] [] \<and> tx_xid t = 1 \<and> post_barrier_request 7 h = Inr h1
    \<and> complete_barrier (Barrier_Reply barrier_reply_clear) (hal_xid h)
        (callback_transactions (send_all (enqueue_transaction (Some t) h1))) = Inr (calls, [])
    \<and> (5, t\<lparr>tx_reply := None\<rparr>, None, True) \<in> set calls"
proof -
  obtain h t where a: "assign_and_serialize (\<lambda>n. []) (Rq_Header features_request_clear) True (Some 5) hal_new = Inr (t, h)"
    by (auto simp: assign_and_serialize_def reserve_xid_def set_request_and_serialize_def)
  note t = assign_cases [OF a]
  have reach: "hal_reach h [t] []" by (rule hal_build [OF hal_start _ _ a]) (simp_all add: hal_new_def)
  obtain h1 where h1: "post_barrier_request 7 h = Inr h1" using post_barrier_effect [of 7 h] by auto
  let ?r = "Barrier_Reply barrier_reply_clear"
  obtain b where "send_all (h1\<lparr>pending_transactions := pending_transactions h1 @ map Some [t]\<rparr>)
      = h1\<lparr>pending_transactions := [], callback_transactions := callback_transactions h @ filter tx_needs_ack (queued h @ [b, t]),
          sent_to_switch := sent_to_switch h @ map tx_serialized (queued h @ [b, t])\<rparr>"
    and calls: "complete_barrier ?r (hal_xid h) (callback_transactions h @ filter tx_needs_ack (queued h @ [b, t]))
      = Inr (map (barrier_call ?r (hal_xid h)) (callback_transactions h @ filter tx_needs_ack (queued h @ [b, t])), [])"
    by (rule barrier_round [OF reach h1, where ts = "[t]" and reply = ?r]) (simp, rule that)
  then have cb: "callback_transactions (send_all (enqueue_transaction (Some t) h1)) = callback_transactions h @ filter tx_needs_ack (queued h @ [b, t])"
    by (simp add: enqueue_transaction_def)
  have member: "t \<in> set [t]" "tx_needs_ack t" by (simp_all add: t(3))
  from barrier_overtakes [OF reach member h1 refl calls [folded cb]]
  have "(5, t\<lparr>tx_reply := None\<rparr>, None, True)
      \<in> set (map (barrier_call ?r (hal_xid h)) (callback_transactions (send_all (enqueue_transaction (Some t) h1))))"
    unfolding t(4) option.sel by blast
  moreover have "tx_xid t = 1" by (simp add: t(2) hal_new_def)
  ultimately show ?thesis using reach h1 calls [folded cb] by blast
qed

end
