(* ===== verification/Operational_Stats.thy ===== *)
theory Operational_Stats
  imports Hal_Transaction
begin

text \<open>
  \<open>controller/services/operational_stats.{h,cpp}\<close>: the statistics that the switch reports, put together from replies in
  several parts. A kind of statistics is one record: what is published, what has been collected, whether that is complete, and
  the transaction number of the last reply.
\<close>

record 'a collection =
  published :: "'a list"
  shadow :: "'a list"
  completed :: bool
  coll_xid :: "32 word"

definition collection_new :: "'a collection" where
  "collection_new = \<lparr>published = [], shadow = [], completed = True, coll_xid = 0\<rparr>"

record operational_stats =
  os_initialized :: bool
  aggregate_stats :: openflow_aggregate_stats
  aggregate_stats_xid :: "32 word"
  flow_coll :: "flow_stats collection"
  table_coll :: "openflow_table_stats collection"
  port_coll :: "openflow_port_stats collection"
  port_stats_initial :: "openflow_port_stats list"
  queue_coll :: "openflow_queue_stats collection"

definition operational_stats_new :: operational_stats where
  "operational_stats_new = \<lparr>os_initialized = False, aggregate_stats = aggregate_clear, aggregate_stats_xid = 0,
     flow_coll = collection_new, table_coll = collection_new, port_coll = collection_new, port_stats_initial = [],
     queue_coll = collection_new\<rparr>"

section \<open>Requests\<close>

definition ask_stats :: "(nat \<Rightarrow> byte list) \<Rightarrow> hal_request \<Rightarrow> operational_stats \<Rightarrow> hal \<Rightarrow> (bool \<times> hal) res" where
  "ask_stats fresh r s h = (if \<not> os_initialized s then Inr (False, h) else bindr (submit fresh r False None h) (\<lambda>h'. Inr (True, h')))"

definition update_aggregate_stats :: "(nat \<Rightarrow> byte list) \<Rightarrow> operational_stats \<Rightarrow> hal \<Rightarrow> (bool \<times> hal) res" where
  "update_aggregate_stats fresh = ask_stats fresh (Rq_Aggregate_Stats ((aggregate_request_clear True)\<lparr>
     fields_to_match := of_match_wildcard_all of_match_clear, all_tables := True, restrict_out_port := False\<rparr>))"

definition update_table_stats :: "(nat \<Rightarrow> byte list) \<Rightarrow> operational_stats \<Rightarrow> hal \<Rightarrow> (bool \<times> hal) res" where
  "update_table_stats fresh = ask_stats fresh (Rq_Table_Stats stats_request_clear)"

definition update_flow_stats :: "(nat \<Rightarrow> byte list) \<Rightarrow> operational_stats \<Rightarrow> hal \<Rightarrow> (bool \<times> hal) res" where
  "update_flow_stats fresh = ask_stats fresh (Rq_Flow_Stats (flow_request_clear\<lparr>
     fields_to_match := of_match_wildcard_all of_match_clear, all_tables := True, restrict_out_port := False\<rparr>))"

definition update_port_stats :: "(nat \<Rightarrow> byte list) \<Rightarrow> operational_stats \<Rightarrow> hal \<Rightarrow> (bool \<times> hal) res" where
  "update_port_stats fresh = ask_stats fresh (Rq_Port_Stats (port_request_clear\<lparr>req_all_ports := True\<rparr>))"

definition update_queue_stats :: "(nat \<Rightarrow> byte list) \<Rightarrow> operational_stats \<Rightarrow> hal \<Rightarrow> (bool \<times> hal) res" where
  "update_queue_stats fresh = ask_stats fresh (Rq_Queue_Stats (queue_request_clear\<lparr>req_all_ports := True, req_all_queues := True\<rparr>))"

text \<open>The conjunction stops at the first call that returns false.\<close>

fun ask_all :: "(hal \<Rightarrow> (bool \<times> hal) res) list \<Rightarrow> hal \<Rightarrow> (bool \<times> hal) res" where
  "ask_all [] h = Inr (True, h)"
| "ask_all (f # fs) h = bindr (f h) (\<lambda>(ok, h'). if \<not> ok then Inr (False, h') else ask_all fs h')"

definition update_all_stats :: "(nat \<Rightarrow> byte list) \<Rightarrow> operational_stats \<Rightarrow> hal \<Rightarrow> (bool \<times> hal) res" where
  "update_all_stats fresh s = ask_all [update_aggregate_stats fresh s, update_table_stats fresh s, update_flow_stats fresh s,
     update_port_stats fresh s, update_queue_stats fresh s]"

definition restart_collection :: "'a collection \<Rightarrow> 'a collection" where
  "restart_collection c = c\<lparr>completed := True, coll_xid := 0\<rparr>"

definition stats_init :: "(nat \<Rightarrow> byte list) \<Rightarrow> operational_stats \<Rightarrow> hal \<Rightarrow> (operational_stats \<times> hal) res" where
  "stats_init fresh s h = bindr (update_all_stats fresh s h) (\<lambda>(ok, h').
     Inr (s\<lparr>os_initialized := True, aggregate_stats_xid := 0, flow_coll := restart_collection (flow_coll s),
       table_coll := restart_collection (table_coll s), port_coll := restart_collection (port_coll s),
       queue_coll := restart_collection (queue_coll s)\<rparr>, h'))"

definition stats_shutdown :: "operational_stats \<Rightarrow> operational_stats" where
  "stats_shutdown s = s\<lparr>os_initialized := False\<rparr>"

section \<open>Replies\<close>

definition aggregate_handler :: "openflow_aggregate_stats of_message_stats_reply \<Rightarrow> operational_stats \<Rightarrow> operational_stats" where
  "aggregate_handler m s = s\<lparr>aggregate_stats := stats_body m, aggregate_stats_xid := xid m\<rparr>"

text \<open>The handlers of tables, flows, ports and queues collect alike.\<close>

definition collect :: "'a list of_message_stats_reply \<Rightarrow> 'a collection \<Rightarrow> 'a collection" where
  "collect m c =
    (if completed c \<or> coll_xid c < xid m
     then c\<lparr>shadow := stats_body m, coll_xid := xid m, completed := \<not> more_to_follow m\<rparr>
     else if \<not> completed c \<and> xid m = coll_xid c
     then c\<lparr>shadow := shadow c @ stats_body m, completed := \<not> more_to_follow m\<rparr>
     else c)"

definition publish :: "'a collection \<Rightarrow> 'a collection" where
  "publish c = (if completed c then c\<lparr>published := shadow c\<rparr> else c)"

definition table_handler :: "openflow_table_stats list of_message_stats_reply \<Rightarrow> operational_stats \<Rightarrow> operational_stats" where
  "table_handler m s = s\<lparr>table_coll := publish (collect m (table_coll s))\<rparr>"

definition flow_handler :: "flow_stats list of_message_stats_reply \<Rightarrow> operational_stats \<Rightarrow> operational_stats" where
  "flow_handler m s = s\<lparr>flow_coll := publish (collect m (flow_coll s))\<rparr>"

definition queue_handler :: "openflow_queue_stats list of_message_stats_reply \<Rightarrow> operational_stats \<Rightarrow> operational_stats" where
  "queue_handler m s = s\<lparr>queue_coll := publish (collect m (queue_coll s))\<rparr>"

definition minus_counter :: "counter \<Rightarrow> counter \<Rightarrow> counter" where
  "minus_counter a b = (fst a, snd a - snd b)"

definition minus_initial :: "openflow_port_stats \<Rightarrow> openflow_port_stats \<Rightarrow> openflow_port_stats" where
  "minus_initial s i = s\<lparr>rx_packets := minus_counter (rx_packets s) (rx_packets i),
     tx_packets := minus_counter (tx_packets s) (tx_packets i), rx_bytes := minus_counter (rx_bytes s) (rx_bytes i),
     tx_bytes := minus_counter (tx_bytes s) (tx_bytes i), rx_dropped := minus_counter (rx_dropped s) (rx_dropped i),
     tx_dropped := minus_counter (tx_dropped s) (tx_dropped i), rx_errors := minus_counter (rx_errors s) (rx_errors i),
     tx_errors := minus_counter (tx_errors s) (tx_errors i), rx_frame_errors := minus_counter (rx_frame_errors s) (rx_frame_errors i),
     rx_overrun_errors := minus_counter (rx_overrun_errors s) (rx_overrun_errors i),
     rx_crc_errors := minus_counter (rx_crc_errors s) (rx_crc_errors i),
     collision_errors := minus_counter (collision_errors s) (collision_errors i)\<rparr>"

fun relative_to :: "openflow_port_stats list \<Rightarrow> openflow_port_stats \<Rightarrow> openflow_port_stats" where
  "relative_to [] s = s"
| "relative_to (i # is) s = (if ps_port i = ps_port s then minus_initial s i else relative_to is s)"

definition port_handler :: "openflow_port_stats list of_message_stats_reply \<Rightarrow> operational_stats \<Rightarrow> operational_stats" where
  "port_handler m s =
    (let c = collect m (port_coll s) in
     if \<not> completed c then s\<lparr>port_coll := c\<rparr>
     else let initial = (if port_stats_initial s = [] then shadow c else port_stats_initial s) in
       s\<lparr>port_stats_initial := initial, port_coll := publish (c\<lparr>shadow := map (relative_to initial) (shadow c)\<rparr>)\<rparr>)"

definition stats_clear :: "operational_stats \<Rightarrow> operational_stats" where
  "stats_clear s = s\<lparr>aggregate_stats := aggregate_clear, flow_coll := (flow_coll s)\<lparr>published := []\<rparr>,
     table_coll := (table_coll s)\<lparr>published := []\<rparr>, port_coll := (port_coll s)\<lparr>published := []\<rparr>,
     queue_coll := (queue_coll s)\<lparr>published := []\<rparr>\<rparr>"

section \<open>Replies in parts\<close>

text \<open>The parts of one reply: the same transaction number, and only the last part is not followed by another.\<close>

definition parts :: "32 word \<Rightarrow> 'a list of_message_stats_reply list \<Rightarrow> bool" where
  "parts x ms = (ms \<noteq> [] \<and> list_all (\<lambda>m. xid m = x) ms \<and> map more_to_follow ms = replicate (length ms - 1) True @ [False])"

lemma collect_rest:
  "\<not> completed c \<Longrightarrow> coll_xid c = x \<Longrightarrow> parts x ms \<Longrightarrow>
    fold (\<lambda>m. publish \<circ> collect m) ms c = c\<lparr>shadow := shadow c @ concat (map stats_body ms), completed := True,
      published := shadow c @ concat (map stats_body ms)\<rparr>"
proof (induction ms arbitrary: c)
  case (Cons m ms)
  show ?case
  proof (cases ms)
    case Nil
    with Cons.prems show ?thesis by (simp add: parts_def collect_def publish_def)
  next
    case (Cons m' ms')
    with Cons.prems have ps: "parts x ms" "more_to_follow m" "xid m = x" by (simp_all add: parts_def)
    then have first: "publish (collect m c) = c\<lparr>shadow := shadow c @ stats_body m, completed := False\<rparr>"
      using Cons.prems(1,2) by (simp add: collect_def publish_def)
    show ?thesis using Cons.IH [OF _ _ ps(1), of "publish (collect m c)"] Cons.prems(2) by (simp add: first)
  qed
qed (simp add: parts_def)

lemma collect_parts:
  assumes "completed c \<or> coll_xid c < x" "parts x ms"
  shows "fold (\<lambda>m. publish \<circ> collect m) ms c = \<lparr>published = concat (map stats_body ms), shadow = concat (map stats_body ms),
    completed = True, coll_xid = x\<rparr>"
proof (cases ms)
  case (Cons m ms')
  show ?thesis
  proof (cases ms')
    case Nil
    with Cons assms show ?thesis by (auto simp: parts_def collect_def publish_def)
  next
    case (Cons m' ms'')
    with \<open>ms = m # ms'\<close> assms(2) have ps: "parts x ms'" "more_to_follow m" "xid m = x" by (simp_all add: parts_def)
    then have first: "publish (collect m c) = c\<lparr>shadow := stats_body m, coll_xid := x, completed := False\<rparr>"
      using assms(1) by (auto simp: collect_def publish_def)
    show ?thesis using collect_rest [OF _ _ ps(1), of "publish (collect m c)"] by (simp add: \<open>ms = m # ms'\<close> first)
  qed
qed (use assms(2) in \<open>simp add: parts_def\<close>)

lemma collect_prefix:
  "parts x (ms @ ns) \<Longrightarrow> ns \<noteq> [] \<Longrightarrow> completed c \<or> coll_xid c < x \<or> coll_xid c = x \<Longrightarrow>
    published (fold (\<lambda>m. publish \<circ> collect m) ms c) = published c"
proof (induction ms arbitrary: c)
  case (Cons m ms)
  then obtain n ns' where "ms @ ns = n # ns'" by (cases "ms @ ns") auto
  with Cons.prems have ps: "parts x (ms @ ns)" "more_to_follow m" "xid m = x" by (simp_all add: parts_def)
  then have "published (publish (collect m c)) = published c" "coll_xid (publish (collect m c)) = x"
    using Cons.prems(3) by (auto simp: collect_def publish_def)
  with Cons.IH [OF ps(1) Cons.prems(2), of "publish (collect m c)"] show ?case by simp
qed simp

text \<open>C38. A table statistics reply in any number of parts is published as a whole: when the last part has come, what is
  published is the parts put together in their order, whatever was collected before (as long as that was complete or had a
  smaller transaction number), and until then what was published before stays.\<close>

theorem table_stats_complete:
  assumes "completed (table_coll s) \<or> coll_xid (table_coll s) < x" "parts x (ms @ [m])"
  shows "published (table_coll (fold table_handler (ms @ [m]) s)) = concat (map stats_body (ms @ [m]))
    \<and> published (table_coll (fold table_handler ms s)) = published (table_coll s)"
proof -
  have "table_coll (fold table_handler ns s') = fold (\<lambda>m. publish \<circ> collect m) ns (table_coll s')" for ns s'
    by (induction ns arbitrary: s') (simp_all add: table_handler_def)
  then show ?thesis
    using collect_parts [OF assms] collect_prefix [OF assms(2), of "table_coll s"] assms(1) by (auto simp: table_handler_def)
qed

theorem table_stats_complete_witness:
  "published (table_coll (fold table_handler ([(stats_reply_clear [table_stats_clear])\<lparr>more_to_follow := True\<rparr>] @ [stats_reply_clear []])
     operational_stats_new)) = [table_stats_clear]"
  using table_stats_complete [of operational_stats_new 0 "[(stats_reply_clear [table_stats_clear])\<lparr>more_to_follow := True\<rparr>]" "stats_reply_clear []"]
  by (simp add: operational_stats_new_def collection_new_def parts_def stats_reply_clear_def of_message.defs
      of_message_stats_reply.defs of_message_clear_def)

lemma relative_to_find:
  "relative_to is s = (case find (\<lambda>i. ps_port i = ps_port s) is of None \<Rightarrow> s | Some i \<Rightarrow> minus_initial s i)"
  by (induction "is" s rule: relative_to.induct) simp_all

lemma port_handler_full:
  assumes "completed (port_coll s)" "\<not> more_to_follow m"
  shows "completed (port_coll (port_handler m s))"
    "port_stats_initial (port_handler m s) = (if port_stats_initial s = [] then stats_body m else port_stats_initial s)"
    "published (port_coll (port_handler m s)) = map (relative_to (port_stats_initial (port_handler m s))) (stats_body m)"
  using assms by (simp_all add: port_handler_def collect_def publish_def Let_def)

text \<open>The published counters of a port count from the first report: after a first complete report of the ports and
  however many more, the counters published from the latest report are the reported ones minus the ones of the first report
  (modulo \<open>2 ^ 64\<close>), and a port that was not in the first report keeps the reported ones.\<close>

theorem port_stats_relative:
  assumes "completed (port_coll s)" "port_stats_initial s = []" "stats_body first \<noteq> []"
    and "list_all (\<lambda>m. \<not> more_to_follow m) (first # ms @ [m])"
  shows "published (port_coll (fold port_handler (first # ms @ [m]) s)) =
    map (\<lambda>p. case find (\<lambda>i. ps_port i = ps_port p) (stats_body first) of None \<Rightarrow> p | Some i \<Rightarrow> minus_initial p i) (stats_body m)"
proof -
  have first: "completed (port_coll (port_handler first s))" "port_stats_initial (port_handler first s) = stats_body first"
    using port_handler_full [OF assms(1), of first] assms(2,4) by simp_all
  have "completed (port_coll (fold port_handler ms s')) \<and> port_stats_initial (fold port_handler ms s') = stats_body first"
    if "completed (port_coll s')" "port_stats_initial s' = stats_body first" "list_all (\<lambda>m. \<not> more_to_follow m) ms" for s'
    using that
  proof (induction ms arbitrary: s')
    case (Cons n ns)
    then show ?case using port_handler_full [of s' n] assms(3) by simp
  qed simp
  from this [OF first] assms(4) port_handler_full [of "fold port_handler ms (port_handler first s)" m]
  show ?thesis using assms(3) by (simp add: relative_to_find)
qed

theorem port_stats_relative_witness:
  "published (port_coll (fold port_handler
     ([stats_reply_clear [port_stats_clear\<lparr>rx_packets := (True, 5)\<rparr>]] @ [stats_reply_clear [port_stats_clear\<lparr>rx_packets := (True, 9)\<rparr>]])
     operational_stats_new)) = [port_stats_clear\<lparr>rx_packets := (True, 4)\<rparr>]"
  using port_stats_relative [of operational_stats_new "stats_reply_clear [port_stats_clear\<lparr>rx_packets := (True, 5)\<rparr>]" "[]"
      "stats_reply_clear [port_stats_clear\<lparr>rx_packets := (True, 9)\<rparr>]"]
  by (simp add: operational_stats_new_def collection_new_def stats_reply_clear_def of_message.defs of_message_stats_reply.defs
      minus_initial_def minus_counter_def port_stats_clear_def)

text \<open>The statistics are off when they are asked for at the start: the service counts as started only afterwards.\<close>

lemma stats_init_silent:
  "\<not> os_initialized s \<Longrightarrow> \<exists>s'. stats_init fresh s h = Inr (s', h) \<and> os_initialized s'"
  by (simp add: stats_init_def update_all_stats_def update_aggregate_stats_def ask_stats_def)

end
