(* ===== verification/Flow_Service_Inv.thy ===== *)
theory Flow_Service_Inv
  imports Flow_Service
begin

text \<open>
  What the flow manager promises: the reports of the switch are recorded completely, and over
  every run of the service the tables stay well formed and hold as waiting only flows whose
  installation has been requested.
\<close>

section \<open>Entries waiting to be installed\<close>

text \<open>The descriptions of the entries that wait to be installed.\<close>

definition waiting :: "flow_table \<Rightarrow> openflow_flow_description set" where
  "waiting t = {description e | k e. smap_find k (flows t) = Some e \<and> state e = PENDING_INSTALLATION}"

lemma waiting_empty [simp]: "waiting (t\<lparr>flows := []\<rparr>) = {}" "flows t = [] \<Longrightarrow> waiting t = {}"
  by (auto simp: waiting_def smap_find_def)

lemma waiting_put:
  "waiting (t\<lparr>flows := smap_put k e (flows t)\<rparr>)
     \<subseteq> (if state e = PENDING_INSTALLATION then insert (description e) (waiting t) else waiting t)"
  by (auto simp: waiting_def smap_find_put split: if_splits)

lemma waiting_state:
  assumes "\<And>k. state_of k t \<noteq> Some PENDING_INSTALLATION"
  shows "waiting t = {}"
  using assms by (auto simp: waiting_def state_of_def)

lemma waiting_subset:
  assumes "\<And>k e. smap_find k (flows t') = Some e \<Longrightarrow> state e = PENDING_INSTALLATION \<Longrightarrow> smap_find k (flows t) = Some e"
  shows "waiting t' \<subseteq> waiting t"
  using assms by (fastforce simp: waiting_def)

lemma waiting_marks:
  "waiting (snd (mark_entry_as_installed now c t)) \<subseteq> waiting t"
  "waiting (snd (mark_entry_as_pending_deletion now c t)) \<subseteq> waiting t"
  "waiting (snd (mark_entry_as_deleted now c t)) \<subseteq> waiting t"
  "waiting (snd (mark_all_flows_as_pending_delete now b t)) \<subseteq> waiting t"
  by (rule waiting_subset, force simp: mark_entry_as_installed_def mark_entry_as_pending_deletion_def
      mark_entry_as_deleted_def mark_all_flows_as_pending_delete_def case_prod_beta mark_all_loop_update
      smap_find_put smap_find_update split: option.splits flow_state.splits if_splits)+

lemma waiting_clear: "smap_ok (flows t) \<Longrightarrow> waiting (clear_table b t) \<subseteq> waiting t"
  by (auto simp: clear_table_def waiting_def smap_find_erase_if smap_find_def [of _ "[]"] split: if_splits option.splits)

lemma waiting_update_entries:
  assumes "table_ok t" "length fs < 2 ^ 32" "update_entries now fs t = (n, remaining, t')"
  shows "waiting t' = {}"
  by (rule waiting_state)
     (auto simp: update_entries_state_of [OF assms] seen_state_def split: if_splits option.splits flow_state.splits)


section \<open>Refreshing the tables\<close>

text \<open>
  What the manager relies on in a table: \<open>update\<close> takes the flows in front that the table
  accepts, counts them, returns the others, and holds every flow that it took.
\<close>

locale flow_absorber =
  fixes update :: "'f list \<Rightarrow> 't \<Rightarrow> nat \<times> 'f list \<times> 't"
    and accepts :: "'t \<Rightarrow> 'f \<Rightarrow> bool"
    and holds :: "'t \<Rightarrow> 'f \<Rightarrow> bool"
    and inv after :: "'t \<Rightarrow> bool"
  assumes update_front: "inv t \<Longrightarrow> length fs < 2 ^ 32 \<Longrightarrow> update fs t = (n, remaining, t')
      \<Longrightarrow> n = length (takeWhile (accepts t) fs) \<and> remaining = dropWhile (accepts t) fs
        \<and> after t' \<and> Ball (set (takeWhile (accepts t) fs)) (holds t')"
begin

lemma update_tables_front:
  assumes "\<forall>t \<in> set ts. inv t" "installed + length fs < 2 ^ 32"
    and "update_tables update ts fs installed = (ts', r, sum_n)"
  shows "\<exists>taken. fs = taken @ r \<and> sum_n = installed + length taken \<and> (\<forall>t \<in> set ts'. after t)
    \<and> (\<forall>f \<in> set taken. \<exists>t \<in> set ts'. holds t f)"
  using assms
proof (induction ts arbitrary: fs installed ts' sum_n)
  case (Cons t ts)
  obtain n remaining t' where u: "update fs t = (n, remaining, t')" by (metis prod_cases3)
  let ?take = "takeWhile (accepts t) fs"
  have step: "n = length ?take" "remaining = dropWhile (accepts t) fs" "after t'" "\<forall>f \<in> set ?take. holds t' f"
    using update_front [OF _ _ u] Cons.prems(1,2) by auto
  have split: "fs = ?take @ remaining" unfolding step(2) by simp
  then have len: "length fs = n + length remaining"
    unfolding step(1) by (metis length_append)
  obtain ts2 where rest: "update_tables update ts remaining (installed + n) = (ts2, r, sum_n)" "ts' = t' # ts2"
    using Cons.prems(2,3) len by (auto simp: u split: prod.splits)
  have "\<exists>taken. remaining = taken @ r \<and> sum_n = installed + n + length taken \<and> (\<forall>t \<in> set ts2. after t)
      \<and> (\<forall>f \<in> set taken. \<exists>t \<in> set ts2. holds t f)"
    by (rule Cons.IH [OF _ _ rest(1)]) (use Cons.prems(1,2) len in auto)
  then obtain taken where "remaining = taken @ r" "sum_n = installed + n + length taken" "\<forall>t \<in> set ts2. after t"
      "\<forall>f \<in> set taken. \<exists>t \<in> set ts2. holds t f" by blast
  then show ?case
    using split step rest(2) by (intro exI [of _ "?take @ taken"]) auto
qed simp

text \<open>With a table that accepts every flow, nothing is left over.\<close>

lemma update_tables_nothing_left:
  assumes "\<forall>t \<in> set ts. inv t" "installed + length fs < 2 ^ 32"
    and "update_tables update ts fs installed = (ts', r, sum_n)"
    and "\<exists>t \<in> set ts. \<forall>f. accepts t f"
  shows "r = []"
  using assms
proof (induction ts arbitrary: fs installed ts' sum_n)
  case (Cons t ts)
  obtain n remaining t' where u: "update fs t = (n, remaining, t')" by (metis prod_cases3)
  have step: "n = length (takeWhile (accepts t) fs)" "remaining = dropWhile (accepts t) fs"
    using update_front [OF _ _ u] Cons.prems(1,2) by auto
  then have len: "length fs = n + length remaining"
    by (metis length_append takeWhile_dropWhile_id)
  obtain ts2 where rest: "update_tables update ts remaining (installed + n) = (ts2, r, sum_n)"
    using Cons.prems(2,3) len by (auto simp: u split: prod.splits)
  show ?case
  proof (cases "\<forall>f. accepts t f")
    case True
    then have "remaining = []" by (simp add: step(2) dropWhile_eq_Nil_conv)
    moreover have "\<forall>t \<in> set ts. inv t" using Cons.prems(1) by simp
    ultimately show ?thesis
      using update_tables_front [OF _ _ rest] len Cons.prems(2) by auto
  next
    case False
    show ?thesis
      by (rule Cons.IH [OF _ _ rest]) (use False Cons.prems(1,2,4) len in auto)
  qed
qed simp

end

definition has_flow :: "flow_table \<Rightarrow> flow_stats \<Rightarrow> bool" where
  "has_flow t f = is_cookie_used (cookie (flow_desc f)) t"

lemma acl_accepts: "kind t = Dell_ACL \<Longrightarrow> check_table_fit (kind t) d"
  by (simp add: acl_check_table_fit_def)

lemma has_flow_state: "has_flow t f = (state_of (cookie (flow_desc f)) t \<noteq> None)"
  by (simp add: has_flow_def is_cookie_used_def state_of_def)

interpretation refresh: flow_absorber "update_entries now" "\<lambda>t f. check_table_fit (kind t) (flow_desc f)"
  has_flow table_ok "\<lambda>t. table_ok t \<and> waiting t = {}"
proof
  fix t :: flow_table and fs :: "flow_stats list" and n remaining and t' :: flow_table
  assume a: "table_ok t" "length fs < 2 ^ 32" "update_entries now fs t = (n, remaining, t')"
  note st = update_entries_flows(2,3) [OF a(2,3)] update_entries_state_of [OF a]
  show "n = length (takeWhile (\<lambda>f. check_table_fit (kind t) (flow_desc f)) fs)
      \<and> remaining = dropWhile (\<lambda>f. check_table_fit (kind t) (flow_desc f)) fs \<and> (table_ok t' \<and> waiting t' = {})
      \<and> Ball (set (takeWhile (\<lambda>f. check_table_fit (kind t) (flow_desc f)) fs)) (has_flow t')"
    using st table_ok_update_entries [OF a] waiting_update_entries [OF a] by (simp add: taken_def has_flow_state)
qed


definition service_ok :: "flow_service \<Rightarrow> bool" where
  "service_ok s = list_all table_ok (flow_tables s)"

text \<open>
  When one of the attached tables is an ACL table, the handler of the switch's report
  never aborts: however many parts the report comes in, every reported flow is then in one of
  the tables, under its cookie, the tables are well formed and nothing is left pending.
\<close>

theorem flow_stats_recorded:
  assumes "service_ok s" "length (pending_flows s @ fs) < 2 ^ 32"
    and "\<exists>t \<in> set (flow_tables s). kind t = Dell_ACL"
  shows "\<exists>s'. flow_stats_handler now False fs s = Inr s' \<and> pending_flows s' = [] \<and> service_ok s'
    \<and> (\<forall>f \<in> set (pending_flows s @ fs). \<exists>t \<in> set (flow_tables s'). has_flow t f)"
proof -
  let ?fs = "pending_flows s @ fs"
  obtain ts r n where u: "update_tables (update_entries now) (flow_tables s) ?fs 0 = (ts, r, n)"
    by (metis prod_cases3)
  have inv: "\<forall>t \<in> set (flow_tables s). table_ok t" using assms(1) by (simp add: service_ok_def list_all_iff)
  have len: "0 + length ?fs < 2 ^ 32" using assms(2) by simp
  have all: "\<exists>t \<in> set (flow_tables s). \<forall>f. check_table_fit (kind t) (flow_desc f)"
    using assms(3) acl_accepts by metis
  have "r = []" by (rule refresh.update_tables_nothing_left [OF inv len u all])
  with refresh.update_tables_front [OF inv len u] show ?thesis
    using u len by (auto simp: flow_stats_handler_def Let_def service_ok_def list_all_iff simp del: set_append)
qed

section \<open>Invariants of the service\<close>

text \<open>
  Runs of the service: any sequence of its operations, and of completions of the removal
  requests. What happens while an operation waits is itself a run.
\<close>

inductive service_run :: "flow_service \<Rightarrow> flow_service \<Rightarrow> bool" where
  run_refl: "service_run s s"
| run_init: "service_run s0 s \<Longrightarrow> service_init s = Inr (r, s') \<Longrightarrow> service_run s0 s'"
| run_init2: "service_run s0 s \<Longrightarrow> (\<And>u. service_run u (fst (wait u))) \<Longrightarrow> service_init2 wait s = Inr (r, s')
     \<Longrightarrow> service_run s0 s'"
| run_shutdown: "service_run s0 s \<Longrightarrow> (\<And>u. service_run u (started u)) \<Longrightarrow> service_run s0 (service_shutdown started s)"
| run_attach: "service_run s0 s \<Longrightarrow> flows t = [] \<Longrightarrow> service_run s0 (attach_flow_table t s)"
| run_detach: "service_run s0 s \<Longrightarrow> service_run s0 (detach_flow_table i s)"
| run_add: "service_run s0 s \<Longrightarrow> (\<And>u. service_run u (fst (wait u)))
     \<Longrightarrow> add_flow now wait d reason idle hard static_flow timeout_ms s = Inr (c, s') \<Longrightarrow> service_run s0 s'"
| run_add_auto: "service_run s0 s \<Longrightarrow> (\<And>u. service_run u (fst (wait u)))
     \<Longrightarrow> add_flow_auto now wait random m actions reason prio static_flow timeout_ms s = Inr (c, s')
     \<Longrightarrow> service_run s0 s'"
| run_accelerate: "service_run s0 s \<Longrightarrow> (\<And>u. service_run u (fst (wait u)))
     \<Longrightarrow> accelerate_flow now wait random mac vlan port (Some s) = Inr (r, Some s') \<Longrightarrow> service_run s0 s'"
| run_remove: "service_run s0 s \<Longrightarrow> remove_flow now c s = Inr (c', s') \<Longrightarrow> service_run s0 s'"
| run_clear: "service_run s0 s \<Longrightarrow> (\<And>u. service_run u (fst (wait u)))
     \<Longrightarrow> clear_all_flows now wait timeout_ms keep s = Inr (r, s') \<Longrightarrow> service_run s0 s'"
| run_refresh: "service_run s0 s \<Longrightarrow> (\<And>u. service_run u (fst (wait u)))
     \<Longrightarrow> refresh_flows wait timeout_ms s = (r, s') \<Longrightarrow> service_run s0 s'"
| run_stats: "service_run s0 s \<Longrightarrow> length (pending_flows s @ fs) < 2 ^ 32
     \<Longrightarrow> flow_stats_handler now partial fs s = Inr s' \<Longrightarrow> service_run s0 s'"
| run_removed: "service_run s0 s \<Longrightarrow> service_run s0 (flow_removed_handler now c s)"
| run_completion: "service_run s0 s \<Longrightarrow> tx \<in> set (enqueued s) \<Longrightarrow> request tx = Modify_Flow m
     \<Longrightarrow> callback tx = Table_Callback i \<Longrightarrow> table_completion now m reply status i s = Inr s'
     \<Longrightarrow> service_run s0 s'"

text \<open>The descriptions of the flows that the switch has been asked to install.\<close>

fun asked :: "service_request \<Rightarrow> openflow_flow_description set" where
  "asked (Modify_Flow m) = (if command m = OFPFC_MODIFY_STRICT then {flow_description m} else {})"
| "asked (Flow_Stats_Request x) = {}"

definition requested :: "flow_service \<Rightarrow> openflow_flow_description set" where
  "requested s = (\<Union>tx \<in> set (enqueued s). asked (request tx))"

definition service_inv :: "flow_service \<Rightarrow> bool" where
  "service_inv s = (\<forall>t \<in> set (flow_tables s). table_ok t \<and> waiting t \<subseteq> requested s)"

lemma requested_simps [simp]:
  "requested (s\<lparr>flow_tables := ts\<rparr>) = requested s"
  "requested (s\<lparr>initialized := b\<rparr>) = requested s"
  "requested (s\<lparr>initializing := b\<rparr>) = requested s"
  "requested (s\<lparr>pending_flows := fs\<rparr>) = requested s"
  "requested (s\<lparr>next_available_cookie_id := n\<rparr>) = requested s"
  "requested (stats_transaction b cb s) = requested s"
  by (auto simp: requested_def stats_transaction_def)

lemma service_inv_simps [simp]:
  "service_inv (s\<lparr>initialized := b\<rparr>) = service_inv s"
  "service_inv (s\<lparr>initializing := b\<rparr>) = service_inv s"
  "service_inv (s\<lparr>pending_flows := fs\<rparr>) = service_inv s"
  "service_inv (s\<lparr>next_available_cookie_id := n\<rparr>) = service_inv s"
  "service_inv (stats_transaction b cb s) = service_inv s"
  by (simp_all add: service_inv_def) (simp_all add: stats_transaction_def)

lemma modify_transaction_effect:
  assumes "modify_transaction m b cb s = Inr (m', s')"
  shows "m' = m\<lparr>xid := xid_counter s\<rparr>" "flow_tables s' = flow_tables s" "initialized s' = initialized s"
    and "\<exists>bytes. enqueued s' = enqueued s @ [\<lparr>request = Modify_Flow m', serialized_msg = bytes,
           needs_completion_acknowledgement = b, callback = cb\<rparr>]"
  using assms by (auto simp: modify_transaction_def Let_def bindr_Inr_iff split: sum.splits)

lemma modify_transaction_requested:
  assumes "modify_transaction m b cb s = Inr (m', s')"
  shows "requested s' =
    (if command m = OFPFC_MODIFY_STRICT then insert (flow_description m) (requested s) else requested s)"
  using modify_transaction_effect [OF assms] by (auto simp: requested_def)

lemma service_inv_update:
  assumes "service_inv s" "requested s \<subseteq> requested s'" "flow_tables s' = (flow_tables s)[i := t]"
    and "i < length (flow_tables s) \<Longrightarrow> table_ok t \<and> waiting t \<subseteq> requested s'"
  shows "service_inv s'"
proof (cases "i < length (flow_tables s)")
  case True
  have "set (flow_tables s') \<subseteq> insert t (set (flow_tables s))"
    unfolding assms(3) by (rule set_update_subset_insert)
  then show ?thesis using assms(1,2) assms(4) [OF True] unfolding service_inv_def by blast
next
  case False
  then have "flow_tables s' = flow_tables s" unfolding assms(3) by (simp only: not_less list_update_beyond)
  then show ?thesis using assms(1,2) unfolding service_inv_def by auto
qed

lemma service_inv_map:
  assumes "service_inv s" "\<And>t. table_ok t \<Longrightarrow> table_ok (f t) \<and> waiting (f t) \<subseteq> waiting t"
  shows "service_inv (s\<lparr>flow_tables := map f (flow_tables s)\<rparr>)"
  using assms by (fastforce simp: service_inv_def)

lemma service_inv_modify:
  assumes "modify_transaction m b cb s = Inr (m', s')" "service_inv s"
  shows "service_inv s'"
  using assms modify_transaction_effect(2) [OF assms(1)] modify_transaction_requested [OF assms(1)]
  by (auto simp: service_inv_def)

lemma hal_callback_table:
  assumes "table_hal_callback now m reply status t = Inr t'" "table_ok t"
  shows "table_ok t' \<and> waiting t' \<subseteq> waiting t"
proof -
  from assms(1) have "t' = t \<or> t' = snd (mark_entry_as_installed now (cookie (flow_description m)) t)
      \<or> t' = snd (mark_entry_as_deleted now (cookie (flow_description m)) t)"
    by (auto simp: table_hal_callback_def split: if_splits hal_reply.splits)
  then show ?thesis
    using assms(2) table_ok_marks [OF assms(2)] waiting_marks [of now _ t] by (elim disjE) simp_all
qed

lemma service_inv_nth: "service_inv s \<Longrightarrow> i < length (flow_tables s) \<Longrightarrow>
    table_ok (flow_tables s ! i) \<and> waiting (flow_tables s ! i) \<subseteq> requested s"
  by (auto simp: service_inv_def)

lemma first_table_Some:
  "first_table P ts = Some i \<Longrightarrow> i < length ts \<and> P (ts ! i) \<and> (\<forall>j < i. \<not> P (ts ! j))"
proof (induction ts arbitrary: i)
  case (Cons t ts)
  then show ?case by (cases i) (auto split: if_splits simp: less_Suc_eq_0_disj)
qed simp

lemma first_table_None: "first_table P ts = None \<longleftrightarrow> (\<forall>t \<in> set ts. \<not> P t)"
  by (induction ts) auto

text \<open>The whole of \<open>add_flow\<close>, by its outcomes.\<close>

lemma add_flow_cases:
  assumes "add_flow now wait d reason idle hard static_flow timeout_ms s = Inr (c, s')"
  obtains (nothing) "s' = s"
  | (added) i table' m s1 where "first_table (\<lambda>t. check_table_fit (kind t) d) (flow_tables s) = Some i"
      "\<not> already_installed (get_cookie_for_flow d (flow_tables s ! i)) (flow_tables s ! i)"
      "add_entry (new_flow_entry now d reason idle hard static_flow) (flow_tables s ! i) = Inr (True, table')"
      "modify_transaction (add_flow_request d idle hard) (timeout_ms \<noteq> 0)
          (if timeout_ms \<noteq> 0 then Blocking_Callback else No_Callback)
          (s\<lparr>flow_tables := (flow_tables s)[i := table']\<rparr>) = Inr (m, s1)"
      "c = cookie d" "timeout_ms = 0 \<and> s' = s1
        \<or> timeout_ms \<noteq> 0 \<and> i < length (flow_tables (fst (wait s1)))
          \<and> (\<exists>t. table_hal_callback now m No_Reply (snd (wait s1)) (flow_tables (fst (wait s1)) ! i) = Inr t
                 \<and> s' = (fst (wait s1))\<lparr>flow_tables := (flow_tables (fst (wait s1)))[i := t]\<rparr>)"
  using assms
  by (auto simp: add_flow_def Let_def bindr_Inr_iff case_prod_beta not_less split: if_splits option.splits)


subsection \<open>Every operation keeps the invariant\<close>

lemma add_flow_inv:
  assumes "add_flow now wait d reason idle hard static_flow timeout_ms s = Inr (c, s')" "service_inv s"
    and wait: "\<And>u. service_inv u \<Longrightarrow> service_inv (fst (wait u))"
  shows "service_inv s'"
  using assms(1)
proof (cases rule: add_flow_cases)
  case nothing
  then show ?thesis using assms(2) by simp
next
  case (added i table' m s1)
  let ?e = "new_flow_entry now d reason idle hard static_flow"
  have e: "description ?e = d" "state ?e = PENDING_INSTALLATION" "\<not> is_updated ?e"
    by (simp_all add: new_flow_entry_def flow_entry_new_def)
  from first_table_Some [OF added(1)] have i: "i < length (flow_tables s)" "check_table_fit (kind (flow_tables s ! i)) d"
    by auto
  have t': "table' = (flow_tables s ! i)\<lparr>flows := smap_put (cookie d) ?e (flows (flow_tables s ! i))\<rparr>"
    using added(3) by (auto simp: add_entry_def e(1) split: if_splits)
  have m: "flow_description (add_flow_request d idle hard) = d"
      "command (add_flow_request d idle hard) = OFPFC_MODIFY_STRICT"
    by (simp_all add: add_flow_request_def)
  have req: "requested s1 = insert d (requested s)"
    using modify_transaction_requested [OF added(4)] by (simp add: m)
  have "table_ok table'"
    unfolding t' using service_inv_nth [OF assms(2) i(1)] i(2) by (intro table_ok_put) (auto simp: entry_ok_def e)
  moreover have "waiting table' \<subseteq> insert d (requested s)"
    unfolding t' using service_inv_nth [OF assms(2) i(1)] waiting_put [of "cookie d" ?e "flow_tables s ! i"]
    by (auto simp only: e(1) split: if_splits)
  ultimately have s1: "service_inv s1"
    using modify_transaction_effect(2) [OF added(4)] by (intro service_inv_update [OF assms(2)]) (auto simp: req)
  show ?thesis
    using added(6)
  proof (elim disjE conjE exE)
    fix t assume "i < length (flow_tables (fst (wait s1)))"
      and cb: "table_hal_callback now m No_Reply (snd (wait s1)) (flow_tables (fst (wait s1)) ! i) = Inr t"
      and s': "s' = (fst (wait s1))\<lparr>flow_tables := (flow_tables (fst (wait s1)))[i := t]\<rparr>"
    with service_inv_nth [OF wait [OF s1]] hal_callback_table [OF cb] have
      "table_ok t \<and> waiting t \<subseteq> requested s'" by auto
    then show ?thesis by (intro service_inv_update [OF wait [OF s1]]) (auto simp: s')
  qed (use s1 in simp)
qed

lemma add_flow_auto_inv:
  assumes "add_flow_auto now wait random m actions reason prio static_flow timeout_ms s = Inr (c, s')" "service_inv s"
    and wait: "\<And>u. service_inv u \<Longrightarrow> service_inv (fst (wait u))"
  shows "service_inv s'"
  using assms(1,2) by (auto simp: add_flow_auto_def split: prod.splits intro: add_flow_inv [OF _ _ wait])

lemma accelerate_flow_inv:
  assumes "accelerate_flow now wait random mac vlan port (Some s) = Inr (r, Some s')" "service_inv s"
    and wait: "\<And>u. service_inv u \<Longrightarrow> service_inv (fst (wait u))"
  shows "service_inv s'"
  using assms(1,2) by (auto simp: accelerate_flow_def bindr_Inr_iff intro: add_flow_auto_inv [OF _ _ wait])

lemma remove_flow_inv:
  assumes "remove_flow now c s = Inr (c', s')" "service_inv s"
  shows "service_inv s'"
proof (cases "s' = s")
  case False
  obtain i m where first: "first_table (\<lambda>t. get_flow_entry_by_cookie c t \<noteq> None
          \<and> fst (mark_entry_as_pending_deletion now c t)) (flow_tables s) = Some i"
    and m: "modify_transaction (modify_flow_new\<lparr>flow_description :=
              description (the (get_flow_entry_by_cookie c (flow_tables s ! i))), command := OFPFC_DELETE_STRICT,
              use_out_port := False\<rparr>) True (Table_Callback i)
            (s\<lparr>flow_tables := (flow_tables s)[i := snd (mark_entry_as_pending_deletion now c (flow_tables s ! i))]\<rparr>)
          = Inr (m, s')"
    using assms(1) False
    by (auto simp: remove_flow_def Let_def bindr_Inr_iff case_prod_beta split: if_splits option.splits)
  from first_table_Some [OF first] have "i < length (flow_tables s)" by simp
  with service_inv_nth [OF assms(2)] table_ok_marks(2) waiting_marks(2) have
    "service_inv (s\<lparr>flow_tables := (flow_tables s)[i := snd (mark_entry_as_pending_deletion now c (flow_tables s ! i))]\<rparr>)"
    by (intro service_inv_update [OF assms(2)]) (auto dest!: subsetD [OF waiting_marks(2)])
  then show ?thesis by (rule service_inv_modify [OF m])
qed (use assms(2) in simp)

lemma send_deletes_inv:
  "send_deletes es s = Inr s' \<Longrightarrow> service_inv s \<Longrightarrow> service_inv s'"
  by (induction es s rule: send_deletes.induct) (auto simp: bindr_Inr_iff dest: service_inv_modify)

lemma finish_clear_inv:
  assumes "finish_clear wait m timeout_ms s = Inr (r, s')" "service_inv s"
    and wait: "\<And>u. service_inv u \<Longrightarrow> service_inv (fst (wait u))"
  shows "service_inv s'"
proof -
  obtain m' s1 where m: "modify_transaction m (timeout_ms \<noteq> 0)
      (if timeout_ms \<noteq> 0 then Blocking_Callback else No_Callback) s = Inr (m', s1)"
    and s': "s' = s1 \<or> s' = fst (wait s1)
      \<or> s' = (fst (wait s1))\<lparr>flow_tables := map (clear_table False) (flow_tables (fst (wait s1)))\<rparr>"
    using assms(1) by (auto simp: finish_clear_def bindr_Inr_iff case_prod_beta split: if_splits)
  have s1: "service_inv s1" by (rule service_inv_modify [OF m assms(2)])
  have "service_inv ((fst (wait s1))\<lparr>flow_tables := map (clear_table False) (flow_tables (fst (wait s1)))\<rparr>)"
    using waiting_clear by (intro service_inv_map [OF wait [OF s1]]) (auto simp: table_ok_clear table_ok_def [THEN iffD1])
  with s' s1 wait [OF s1] show ?thesis by blast
qed

lemma mark_tables_inv: "service_inv s \<Longrightarrow> service_inv (snd (mark_tables now b s))"
  unfolding mark_tables_def snd_conv by (rule service_inv_map) (simp_all add: table_ok_marks waiting_marks)

lemma clear_all_flows_inv:
  assumes "clear_all_flows now wait timeout_ms keep s = Inr (r, s')" "service_inv s"
    and wait: "\<And>u. service_inv u \<Longrightarrow> service_inv (fst (wait u))"
  shows "service_inv s'"
proof (cases "s' = s")
  case False
  note mark = mark_tables_inv [OF assms(2), of now]
  consider b m where "finish_clear wait m timeout_ms (snd (mark_tables now b s)) = Inr (r, s')"
    | "s' = snd (mark_tables now False s)"
    | es m u where "send_deletes es (snd (mark_tables now False s)) = Inr u" "finish_clear wait m timeout_ms u = Inr (r, s')"
    using assms(1) False by (auto simp: clear_all_flows_def bindr_Inr_iff case_prod_beta split: if_splits)
  then show ?thesis
    by cases (auto intro: finish_clear_inv [OF _ _ wait] mark dest: send_deletes_inv [OF _ mark])
qed (use assms(2) in simp)

lemma flow_stats_handler_inv:
  assumes "flow_stats_handler now partial fs s = Inr s'" "service_inv s" "length (pending_flows s @ fs) < 2 ^ 32"
  shows "service_inv s'"
proof -
  let ?fs = "pending_flows s @ fs"
  obtain ts r n where u: "update_tables (update_entries now) (flow_tables s) ?fs 0 = (ts, r, n)"
    by (metis prod_cases3)
  have inv: "\<forall>t \<in> set (flow_tables s). table_ok t" using assms(2) by (simp add: service_inv_def)
  from refresh.update_tables_front [OF inv _ u] assms(3)
  have "\<forall>t \<in> set ts. table_ok t \<and> waiting t = {}" by auto
  then have "service_inv u" if "flow_tables u = ts" for u using that by (auto simp: service_inv_def)
  then show ?thesis
    using assms(1,2) u by (auto simp: flow_stats_handler_def Let_def split: if_splits)
qed

lemma flow_removed_handler_inv: "service_inv s \<Longrightarrow> service_inv (flow_removed_handler now c s)"
  unfolding flow_removed_handler_def
  by (rule service_inv_map) (simp_all add: table_ok_marks waiting_marks)

lemma table_completion_inv:
  assumes "table_completion now m reply status i s = Inr s'" "service_inv s"
  shows "service_inv s'"
proof -
  obtain t where i: "i < length (flow_tables s)"
    and t: "table_hal_callback now m reply status (flow_tables s ! i) = Inr t"
    and s': "s' = s\<lparr>flow_tables := (flow_tables s)[i := t]\<rparr>"
    using assms(1) by (auto simp: table_completion_def bindr_Inr_iff not_le split: if_splits)
  from hal_callback_table [OF t] service_inv_nth [OF assms(2) i] have "table_ok t \<and> waiting t \<subseteq> requested s" by auto
  then show ?thesis by (intro service_inv_update [OF assms(2)]) (auto simp: s')
qed

lemma service_run_inv: "service_run s s' \<Longrightarrow> service_inv s \<Longrightarrow> service_inv s'"
proof (induction rule: service_run.induct)
  case (run_init s0 s r s')
  then show ?case by (auto simp: service_init_def split: if_splits)
next
  case (run_init2 s0 s wait r s')
  then show ?case by (auto simp: service_init2_def case_prod_beta split: if_splits)
next
  case (run_shutdown s0 s started)
  then show ?case by (simp add: service_shutdown_def)
next
  case (run_attach s0 s t)
  then have "table_ok t" "waiting t = {}" by (simp_all add: table_ok_def smap_find_def)
  moreover have "requested (s\<lparr>flow_tables := ts\<rparr>) = requested s" for ts by simp
  ultimately show ?case using run_attach by (auto simp: attach_flow_table_def service_inv_def)
next
  case (run_detach s0 s i)
  then show ?case by (auto simp: detach_flow_table_def service_inv_def dest: in_set_takeD in_set_dropD)
next
  case run_add
  then show ?case by (blast intro: add_flow_inv)
next
  case run_add_auto
  then show ?case by (blast intro: add_flow_auto_inv)
next
  case run_accelerate
  then show ?case by (blast intro: accelerate_flow_inv)
next
  case run_remove
  then show ?case by (blast intro: remove_flow_inv)
next
  case run_clear
  then show ?case by (blast intro: clear_all_flows_inv)
next
  case (run_refresh s0 s wait timeout_ms r s')
  have "service_inv s" using run_refresh by blast
  then have "service_inv (stats_transaction b cb s)" for b cb by simp
  then show ?case
    using run_refresh.IH(2) run_refresh.hyps(3) \<open>service_inv s\<close>
    by (auto simp: refresh_flows_def case_prod_beta split: if_splits)
next
  case run_stats
  then show ?case by (blast intro: flow_stats_handler_inv)
next
  case run_removed
  then show ?case by (blast intro: flow_removed_handler_inv)
next
  case run_completion
  then show ?case by (blast intro: table_completion_inv)
qed

text \<open>
  C5. Whatever sequence of calls a service goes through, starting without tables: every table
  is well formed, and every entry that waits to be installed is the flow of an installation
  request that has been handed to the hardware layer.
\<close>

theorem waiting_flows_requested:
  assumes "service_run s0 s" "flow_tables s0 = []"
  shows "\<forall>t \<in> set (flow_tables s). table_ok t \<and> waiting t \<subseteq> requested s"
proof -
  have "service_inv s0" using assms(2) by (simp add: service_inv_def)
  then have "service_inv s" by (rule service_run_inv [OF assms(1)])
  then show ?thesis by (simp add: service_inv_def)
qed

definition new_service :: flow_service where
  "new_service = \<lparr>initialized = False, initializing = False, flow_tables = [], pending_flows = [],
     next_available_cookie_id = 1, xid_counter = 1, enqueued = []\<rparr>"

text \<open>A service that has been started with the tables \<open>ts\<close>: attach, \<open>init\<close>, \<open>init2\<close>.\<close>

definition started_service :: "flow_table list \<Rightarrow> flow_service" where
  "started_service ts = (stats_transaction False No_Callback (new_service\<lparr>flow_tables := ts\<rparr>))\<lparr>initialized := True\<rparr>"

lemma started_service_simps [simp]:
  "initialized (started_service ts)" "flow_tables (started_service ts) = ts"
  by (simp_all add: started_service_def stats_transaction_def new_service_def)

lemma started_service_run:
  assumes "flows t = []"
  shows "service_run new_service (started_service [t])"
proof -
  let ?wait = "\<lambda>u. (u, True) :: flow_service \<times> bool"
  have wait: "\<And>u. service_run u (fst (?wait u))" by (simp add: run_refl)
  have attach: "service_run new_service (attach_flow_table t new_service)"
    by (rule run_attach [OF run_refl assms])
  have "service_init (attach_flow_table t new_service)
      = Inr (True, (new_service\<lparr>flow_tables := [t]\<rparr>)\<lparr>initializing := True\<rparr>)"
    by (simp add: service_init_def attach_flow_table_def new_service_def)
  note init = run_init [OF attach this]
  have "service_init2 ?wait ((new_service\<lparr>flow_tables := [t]\<rparr>)\<lparr>initializing := True\<rparr>)
      = Inr (True, started_service [t])"
    by (simp add: service_init2_def started_service_def stats_transaction_def new_service_def)
  then show ?thesis by (rule run_init2 [OF init wait])
qed

definition acl_flow :: openflow_flow_description where
  "acl_flow = flow_description_clear\<lparr>cookie := 5\<rparr>"

definition empty_table :: "table_kind \<Rightarrow> flow_table" where
  "empty_table kd = \<lparr>kind = kd, max_capacity = 10, flows = []\<rparr>"

lemma modify_transaction_no_actions:
  assumes "action_list (flow_description m) = []"
  shows "modify_transaction m b cb s = Inr (m\<lparr>xid := xid_counter s\<rparr>, s\<lparr>xid_counter := xid_counter s + 1,
    enqueued := enqueued s @ [\<lparr>request = Modify_Flow (m\<lparr>xid := xid_counter s\<rparr>),
      serialized_msg = modify_flow_fixed (m\<lparr>xid := xid_counter s\<rparr>) 72,
      needs_completion_acknowledgement = b, callback = cb\<rparr>]\<rparr>)"
  using assms by (simp add: modify_transaction_def modify_flow_serialize_def get_serialization_size_def Let_def)

lemma acl_flow_simps [simp]: "cookie acl_flow = 5" "action_list acl_flow = []"
  by (simp_all add: acl_flow_def flow_description_clear_def)

lemma add_acl_flow_steps:
  "check_table_fit (kind (empty_table Dell_ACL)) acl_flow"
  "already_installed (get_cookie_for_flow acl_flow (empty_table Dell_ACL)) (empty_table Dell_ACL) = False"
  "add_entry (new_flow_entry 0 acl_flow r 0 0 True) (empty_table Dell_ACL)
     = Inr (True, (empty_table Dell_ACL)\<lparr>flows := [(5, new_flow_entry 0 acl_flow r 0 0 True)]\<rparr>)"
  "action_list (flow_description (add_flow_request acl_flow 0 0)) = []"
  "msg_type (add_flow_request acl_flow 0 0) = OFPT_FLOW_MOD"
  "command (add_flow_request acl_flow 0 0) = OFPFC_MODIFY_STRICT"
  by (simp_all add: acl_check_table_fit_def get_cookie_for_flow_def empty_table_def already_installed_def
      add_entry_def new_flow_entry_def add_flow_request_def modify_flow_new_def)

lemma add_flow_adds:
  assumes "initialized s" "first_table (\<lambda>t. check_table_fit (kind t) d) (flow_tables s) = Some i"
    and "\<not> already_installed (get_cookie_for_flow d (flow_tables s ! i)) (flow_tables s ! i)"
    and "add_entry (new_flow_entry now d reason idle hard static_flow) (flow_tables s ! i) = Inr (True, table')"
    and "modify_transaction (add_flow_request d idle hard) (timeout_ms \<noteq> 0)
          (if timeout_ms \<noteq> 0 then Blocking_Callback else No_Callback)
          (s\<lparr>flow_tables := (flow_tables s)[i := table']\<rparr>) = Inr (m, s1)"
  shows "add_flow now wait d reason idle hard static_flow timeout_ms s =
    (if timeout_ms = 0 then Inr (cookie d, s1)
     else case wait s1 of (s2, status) \<Rightarrow>
       if length (flow_tables s2) \<le> i then Inl OutOfBounds
       else bindr (table_hal_callback now m No_Reply status (flow_tables s2 ! i)) (\<lambda>t.
         Inr (cookie d, s2\<lparr>flow_tables := (flow_tables s2)[i := t]\<rparr>)))"
  unfolding add_flow_def Let_def
  by (simp only: assms(1-4) option.case if_False if_True simp_thms bindr.simps case_prod_conv assms(5))

lemma add_acl_flow:
  assumes "initialized s" "flow_tables s = [empty_table Dell_ACL]"
  shows "\<exists>s' t. add_flow 0 (\<lambda>u. (u, status)) acl_flow reason 0 0 True timeout_ms s = Inr (5, s')
    \<and> flow_tables s' = [t] \<and> enqueued s' \<noteq> enqueued s
    \<and> (timeout_ms = 0 \<longrightarrow> flows t = [(5, new_flow_entry 0 acl_flow reason 0 0 True)])"
proof -
  let ?t = "(empty_table Dell_ACL)\<lparr>flows := [(5, new_flow_entry 0 acl_flow reason 0 0 True)]\<rparr>"
  have first: "first_table (\<lambda>t. check_table_fit (kind t) acl_flow) (flow_tables s) = Some 0"
    by (simp add: assms(2) add_acl_flow_steps)
  obtain m s1 where tx: "modify_transaction (add_flow_request acl_flow 0 0) (timeout_ms \<noteq> 0)
          (if timeout_ms \<noteq> 0 then Blocking_Callback else No_Callback)
          (s\<lparr>flow_tables := (flow_tables s)[0 := ?t]\<rparr>) = Inr (m, s1)"
    using modify_transaction_no_actions [OF add_acl_flow_steps(4)] by blast
  note eff = modify_transaction_effect [OF tx]
  have add: "add_entry (new_flow_entry 0 acl_flow reason 0 0 True) (flow_tables s ! 0) = Inr (True, ?t)"
    by (simp add: assms(2) add_acl_flow_steps)
  have not: "\<not> already_installed (get_cookie_for_flow acl_flow (flow_tables s ! 0)) (flow_tables s ! 0)"
    by (simp add: assms(2) add_acl_flow_steps)
  have m: "msg_type m = OFPT_FLOW_MOD" "command m = OFPFC_MODIFY_STRICT" by (simp_all add: eff(1) add_acl_flow_steps)
  have cb: "\<exists>t'. table_hal_callback 0 m No_Reply status t = Inr t'" for t
    by (simp add: table_hal_callback_def m is_add_command_def)
  obtain t' where t': "table_hal_callback 0 m No_Reply status ?t = Inr t'" using cb by blast
  have tabs: "flow_tables s1 = [?t]" by (simp add: eff(2) assms(2))
  from eff(4) have "enqueued s1 \<noteq> enqueued s" by auto
  with tabs t' show ?thesis
    by (auto simp: add_flow_adds [OF assms(1) first not add tx])
qed

theorem waiting_flows_requested_witness:
  "\<exists>s. service_run new_service s \<and> acl_flow \<in> requested s \<and> (\<exists>t \<in> set (flow_tables s). waiting t = {acl_flow})"
proof -
  let ?wait = "\<lambda>u. (u, True) :: flow_service \<times> bool"
  obtain s t where add: "add_flow 0 ?wait acl_flow ''test'' 0 0 True 0 (started_service [empty_table Dell_ACL]) = Inr (5, s)"
    and t: "flow_tables s = [t]" "flows t = [(5, new_flow_entry 0 acl_flow ''test'' 0 0 True)]"
    using add_acl_flow [of "started_service [empty_table Dell_ACL]" True "''test''" 0] by auto
  have run: "service_run new_service s"
    by (rule run_add [OF started_service_run _ add]) (simp_all add: empty_table_def run_refl)
  have "waiting t = {acl_flow}"
    by (auto simp: waiting_def t(2) smap_find_def new_flow_entry_def flow_entry_new_def)
  moreover have "waiting t \<subseteq> requested s"
    using waiting_flows_requested [OF run] by (simp add: new_service_def t(1))
  ultimately show ?thesis using run t(1) by auto
qed

theorem flow_stats_recorded_witness:
  "\<exists>s'. flow_stats_handler 0 False [reported acl_flow] (started_service [empty_table Dell_L2, empty_table Dell_ACL]) = Inr s'
    \<and> (\<exists>t \<in> set (flow_tables s'). has_flow t (reported acl_flow))"
proof -
  let ?s = "started_service [empty_table Dell_L2, empty_table Dell_ACL]"
  have "service_ok ?s" by (simp add: service_ok_def empty_table_def table_ok_def smap_find_def)
  moreover have "pending_flows ?s = []" by (simp add: started_service_def stats_transaction_def new_service_def)
  ultimately show ?thesis
    using flow_stats_recorded [of ?s "[reported acl_flow]" 0] by (auto simp: empty_table_def)
qed

end
