(* ===== verification/Flow_Service_Calls.thy ===== *)
theory Flow_Service_Calls
  imports Flow_Service_Inv
begin

text \<open>
  What the calls of the flow manager do, on every outcome: installing a flow, offline, with a
  timeout, and twice; installing the L2 rule of a source address; clearing all flows.
\<close>

section \<open>Adding flows\<close>

text \<open>
  When the flow service is not running, \<open>accelerate_flow\<close> reports success, although no
  table changes and nothing is sent: \<open>add_flow\<close> returns \<open>false\<close>, which is the cookie 0 and not
  the error value \<open>- 1\<close>.
\<close>

theorem accelerate_flow_offline:
  assumes "\<not> initialized s"
  shows "\<exists>s'. accelerate_flow now wait random mac vlan port (Some s) = Inr (True, Some s')
    \<and> flow_tables s' = flow_tables s \<and> enqueued s' = enqueued s"
  using assms
  by (auto simp: accelerate_flow_def add_flow_auto_def add_flow_def Let_def split: prod.split)

theorem accelerate_flow_offline_witness:
  "\<exists>s'. accelerate_flow 0 (\<lambda>u. (u, True)) 0 (MAC 2 0 0 0 0 1) 10 3 (Some new_service) = Inr (True, Some s')
    \<and> enqueued s' = []"
  using accelerate_flow_offline [of new_service 0 "\<lambda>u. (u, True)" 0 "MAC 2 0 0 0 0 1" 10 3]
  by (auto simp: new_service_def)

text \<open>
  An installation with a timeout that is added to a table is recorded there as active when
  the wait is over, whatever the wait has reported: also when it has timed out with no answer
  from the switch.
\<close>

theorem add_flow_timeout_active:
  assumes "add_flow now (\<lambda>u. (u, status)) d reason idle hard static_flow timeout_ms s = Inr (c, s')"
    and "timeout_ms \<noteq> 0" "enqueued s' \<noteq> enqueued s"
  shows "c = cookie d \<and> (\<exists>t \<in> set (flow_tables s'). state_of c t = Some ACTIVE)"
  using assms(1)
proof (cases rule: add_flow_cases)
  case nothing
  with assms(3) show ?thesis by simp
next
  case (added i table' m s1)
  note eff = modify_transaction_effect(1,2) [OF added(4)]
  from first_table_Some [OF added(1)] have i: "i < length (flow_tables s)" by simp
  let ?e = "new_flow_entry now d reason idle hard static_flow"
  have e: "description ?e = d" "state ?e = PENDING_INSTALLATION" by (simp_all add: new_flow_entry_def flow_entry_new_def)
  have t': "smap_find (cookie d) (flows table') = Some ?e"
    using added(3) by (auto simp: add_entry_def e smap_find_put split: if_splits)
  have m: "msg_type m = OFPT_FLOW_MOD" "command m = OFPFC_MODIFY_STRICT" "flow_description m = d"
    by (simp_all add: eff(1) add_flow_request_def modify_flow_new_def)
  obtain t where t: "table_hal_callback now m No_Reply status table' = Inr t"
      "flow_tables s' = (flow_tables s)[i := t]"
    using added(6) assms(2) i by (auto simp: eff(2))
  have "state_of (cookie d) t = Some ACTIVE"
    using t(1) t' by (auto simp: table_hal_callback_def m is_add_command_def mark_entry_as_installed_def e state_of_def smap_find_put)
  then show ?thesis using added(5) t(2) i set_update_memI [OF i] by auto
qed

theorem add_flow_timeout_active_witness:
  "\<exists>s'. add_flow 0 (\<lambda>u. (u, False)) acl_flow ''test'' 0 0 True 100 (started_service [empty_table Dell_ACL]) = Inr (5, s')
    \<and> (\<exists>t \<in> set (flow_tables s'). state_of 5 t = Some ACTIVE)"
proof -
  let ?s = "started_service [empty_table Dell_ACL]"
  have "\<exists>s'. add_flow 0 (\<lambda>u. (u, False)) acl_flow ''test'' 0 0 True 100 ?s = Inr (5, s') \<and> enqueued s' \<noteq> enqueued ?s"
    using add_acl_flow [of ?s False "''test''" 100] by auto
  then obtain s' where add: "add_flow 0 (\<lambda>u. (u, False)) acl_flow ''test'' 0 0 True 100 ?s = Inr (5, s')"
    and enq: "enqueued s' \<noteq> enqueued ?s" by blast
  from add_flow_timeout_active [OF add _ enq] have "\<exists>t \<in> set (flow_tables s'). state_of 5 t = Some ACTIVE" by simp
  with add show ?thesis by blast
qed

lemma modify_flow_serialize_returns:
  assumes "list_all (\<lambda>a. get_action_type a \<noteq> VENDOR) (action_list (flow_description m))"
    and "72 + sum_list (map action_size (action_list (flow_description m))) < 2 ^ 32"
  shows "\<exists>bs. modify_flow_serialize m = Inr bs"
proof -
  have size: "get_serialization_size (action_list (flow_description m))
      = sum_list (map action_size (action_list (flow_description m)))"
    using assms(2) by (intro get_serialization_size_sum) simp
  obtain bs where "action_list_serialize (\<lambda>n. replicate n 0) (action_list (flow_description m)) = Inr bs"
    using action_list_serialize_writes [OF assms(1), of "\<lambda>n. replicate n 0"] assms(2) by auto
  then show ?thesis using assms(2) by (simp add: modify_flow_serialize_def size Let_def)
qed

text \<open>
  C40. \<open>accelerate_flow\<close> on a running service, for a source address that the L2 table does not
  hold yet: the first table gets an entry that waits to be installed, under the next cookie,
  and exactly one request is sent, which asks the switch to send frames for that address and
  VLAN to that port.
\<close>

theorem accelerate_flow_installs:
  assumes "initialized s" "flow_tables s = t # ts" "kind t = Dell_L2" "\<not> mac_is_broadcast mac"
    and "next_available_cookie_id s = c" "c \<noteq> 0" "c \<noteq> - 1" "length (flows t) < max_capacity t"
    and "d = (l2_rule mac vlan port)\<lparr>cookie := c, priority := 100\<rparr>"
    and "\<not> already_installed (get_cookie_for_flow d t) t"
  shows "\<exists>s' m bytes. accelerate_flow now wait random mac vlan port (Some s) = Inr (True, Some s')
    \<and> flow_tables s' = t\<lparr>flows := smap_put c (new_flow_entry now d ''l2 accelerator'' 0 0 False) (flows t)\<rparr> # ts
    \<and> next_available_cookie_id s' = c + 1
    \<and> enqueued s' = enqueued s @ [\<lparr>request = Modify_Flow m, serialized_msg = bytes,
         needs_completion_acknowledgement = False, callback = No_Callback\<rparr>]
    \<and> command m = OFPFC_MODIFY_STRICT \<and> flow_description m = d"
proof -
  let ?s = "s\<lparr>next_available_cookie_id := c + 1\<rparr>"
  let ?e = "new_flow_entry now d ''l2 accelerator'' 0 0 False"
  let ?t = "t\<lparr>flows := smap_put c ?e (flows t)\<rparr>"
  have d: "cookie d = c" "action_list d = [Output_To_Port False port]"
    by (simp_all add: assms(9) l2_rule_def)
  have fit: "check_table_fit (kind t) d"
    using l2_rule_fits [OF assms(4), where vlan = vlan and port = port and c = c] by (simp add: assms(3,9))
  have first: "first_table (\<lambda>t. check_table_fit (kind t) d) (flow_tables ?s) = Some 0"
    using fit by (simp add: assms(2))
  have not: "\<not> already_installed (get_cookie_for_flow d (flow_tables ?s ! 0)) (flow_tables ?s ! 0)"
    using assms(10) by (simp add: assms(2))
  have e: "description ?e = d" by (simp add: new_flow_entry_def)
  have add: "add_entry ?e (flow_tables ?s ! 0) = Inr (True, ?t)"
    using assms(6-8) by (simp add: add_entry_def assms(2) e d)
  have "\<exists>bs. modify_flow_serialize ((add_flow_request d 0 0)\<lparr>xid := xid_counter s\<rparr>) = Inr bs"
    by (rule modify_flow_serialize_returns) (simp_all add: add_flow_request_def d)
  then obtain bs where bs: "modify_flow_serialize ((add_flow_request d 0 0)\<lparr>xid := xid_counter s\<rparr>) = Inr bs" by blast
  obtain m s1 where tx: "modify_transaction (add_flow_request d 0 0) ((0::int) \<noteq> 0)
      (if (0::int) \<noteq> 0 then Blocking_Callback else No_Callback) (?s\<lparr>flow_tables := (flow_tables ?s)[0 := ?t]\<rparr>) = Inr (m, s1)"
    by (simp add: modify_transaction_def Let_def bs)
  note eff = modify_transaction_effect [OF tx]
  have d': "flow_description_clear\<lparr>
        criteria := (of_match_wildcard_all of_match_clear)\<lparr>wildcard_ethernet_dest := False, ethernet_dest := mac,
          wildcard_vlan_id := False, vlan_id := vlan\<rparr>,
        action_list := add_action (Output_To_Port False port) [], priority := default_priority, cookie := c\<rparr> = d"
    by (simp add: assms(9) l2_rule_def add_action_def default_priority_def flow_description_clear_def action_clone_def)
  have next_id: "get_next_available_cookie_id random (next_available_cookie_id s) = (c, c + 1)"
    using assms(5,7) by (simp add: get_next_available_cookie_id_def)
  have "initialized ?s" using assms(1) by simp
  note add_flow = add_flow_adds [OF this first not add tx, where wait = wait]
  have result: "accelerate_flow now wait random mac vlan port (Some s) = Inr (True, Some s1)"
    using add_flow assms(7)
    by (simp add: accelerate_flow_def add_flow_auto_def Let_def next_id d' d(1))
  have m: "command m = OFPFC_MODIFY_STRICT" "flow_description m = d"
    by (simp_all add: eff(1) add_flow_request_def)
  have "next_available_cookie_id s1 = c + 1" using tx by (auto simp: modify_transaction_def Let_def bs)
  with result m eff(2,4) show ?thesis by (auto simp: assms(2))
qed


theorem accelerate_flow_installs_witness:
  "\<exists>s'. accelerate_flow 0 (\<lambda>u. (u, True)) 0 (MAC 2 0 0 0 0 1) 10 3
      (Some (started_service [empty_table Dell_L2, empty_table Dell_ACL])) = Inr (True, Some s')
    \<and> state_of 1 (hd (flow_tables s')) = Some PENDING_INSTALLATION \<and> next_available_cookie_id s' = 2"
proof -
  let ?s = "started_service [empty_table Dell_L2, empty_table Dell_ACL]"
  let ?d = "(l2_rule (MAC 2 0 0 0 0 1) 10 3)\<lparr>cookie := 1, priority := 100\<rparr>"
  have "next_available_cookie_id ?s = 1" by (simp add: started_service_def stats_transaction_def new_service_def)
  moreover have "\<not> mac_is_broadcast (MAC 2 0 0 0 0 1)" by (simp add: mac_is_broadcast_iff mac_broadcast_def)
  moreover have "\<not> already_installed (get_cookie_for_flow ?d (empty_table Dell_L2)) (empty_table Dell_L2)"
    by (simp add: already_installed_def get_cookie_for_flow_def empty_table_def)
  ultimately obtain s' where "accelerate_flow 0 (\<lambda>u. (u, True)) 0 (MAC 2 0 0 0 0 1) 10 3 (Some ?s) = Inr (True, Some s')"
    and "flow_tables s' = (empty_table Dell_L2)\<lparr>flows := smap_put 1 (new_flow_entry 0 ?d ''l2 accelerator'' 0 0 False)
            (flows (empty_table Dell_L2))\<rparr> # [empty_table Dell_ACL]"
    and "next_available_cookie_id s' = 1 + 1"
    using accelerate_flow_installs [of ?s "empty_table Dell_L2" "[empty_table Dell_ACL]" "MAC 2 0 0 0 0 1" 1 ?d 10 3
        0 "\<lambda>u. (u, True)" 0] by (auto simp: empty_table_def)
  then show ?thesis
    by (simp add: state_of_def smap_find_put new_flow_entry_def flow_entry_new_def)
qed

text \<open>The latest cookie is the one looked for, when no equal flow has a larger one.\<close>

lemma get_cookie_for_flow_eqI:
  assumes "smap_find c (flows t) = Some e" "cookie (description e) = c" "flow_description_eq (description e) flow"
    and "\<And>k e'. (k, e') \<in> set (flows t) \<Longrightarrow> flow_description_eq (description e') flow \<Longrightarrow> cookie (description e') \<le> c"
  shows "get_cookie_for_flow flow t = c"
proof -
  let ?cs = "map (\<lambda>e. cookie (description (snd e))) (filter (\<lambda>e. flow_description_eq (description (snd e)) flow) (flows t))"
  have mem: "c \<in> set ?cs" using assms(1-3) by (force simp: smap_find_def dest: map_of_SomeD)
  have bound: "\<forall>x \<in> set ?cs. x \<le> c" using assms(4) by force
  obtain x xs where cs: "?cs = x # xs" using mem by (cases ?cs) auto
  have "Max (set ?cs) = c" using mem bound by (intro Max_eqI) auto
  then show ?thesis unfolding get_cookie_for_flow_def latest_cookie_max Let_def cs by (simp add: foldl_max)
qed

lemma first_table_update: "first_table P ts = Some i \<Longrightarrow> P t \<Longrightarrow> first_table P (ts[i := t]) = Some i"
  by (induction ts arbitrary: i) (auto split: if_splits)

lemma flow_description_eq_cookie [simp]:
  "flow_description_eq d (e\<lparr>cookie := c\<rparr>) = flow_description_eq d e"
  by (simp add: flow_description_eq_def)

lemma check_table_fit_cookie [simp]: "check_table_fit kd (d\<lparr>cookie := c\<rparr>) = check_table_fit kd d"
  by (cases kd) simp_all

text \<open>
  Adding a flow that has just been added, under a new cookie, changes nothing and sends
  nothing: the call returns the cookie of the first. This rests on the cookie of the first
  being larger than those of the earlier flows with the same criteria and actions.
\<close>

theorem add_flow_twice:
  assumes "add_flow now wait d reason idle hard static_flow 0 s = Inr (c, s')" "enqueued s' \<noteq> enqueued s"
    and "initialized s" "proper_description d" "service_ok s"
    and "\<And>t k e. t \<in> set (flow_tables s) \<Longrightarrow> smap_find k (flows t) = Some e
      \<Longrightarrow> flow_description_eq (description e) d \<Longrightarrow> k < cookie d"
  shows "add_flow now' wait' (d\<lparr>cookie := c'\<rparr>) reason' idle' hard' static_flow' timeout_ms s' = Inr (c, s')"
  using assms(1)
proof (cases rule: add_flow_cases)
  case nothing
  with assms(2) show ?thesis by simp
next
  case (added i table' m s1)
  let ?e = "new_flow_entry now d reason idle hard static_flow" and ?t = "flow_tables s ! i"
  have e: "description ?e = d" "state ?e = PENDING_INSTALLATION" by (simp_all add: new_flow_entry_def flow_entry_new_def)
  have i: "i < length (flow_tables s)" using first_table_Some [OF added(1)] by simp
  have t': "table' = ?t\<lparr>flows := smap_put (cookie d) ?e (flows ?t)\<rparr>" and c: "cookie d \<noteq> - 1"
    using added(3) by (auto simp: add_entry_def e split: if_splits)
  have s': "flow_tables s' = (flow_tables s)[i := table']" "initialized s'"
    using added(6) modify_transaction_effect(2,3) [OF added(4)] assms(3) by auto
  have ok: "table_ok ?t" using assms(5) i by (simp add: service_ok_def list_all_length)
  have first: "first_table (\<lambda>t. check_table_fit (kind t) d) (flow_tables s') = Some i"
    unfolding s'(1) using first_table_Some [OF added(1)] by (intro first_table_update [OF added(1)]) (simp add: t')
  have found: "smap_find (cookie d) (flows table') = Some ?e" by (simp add: t' smap_find_put)
  have "get_cookie_for_flow (d\<lparr>cookie := c'\<rparr>) table' = cookie d"
  proof (rule get_cookie_for_flow_eqI [OF found])
    fix k e' assume "(k, e') \<in> set (flows table')" and eq: "flow_description_eq (description e') (d\<lparr>cookie := c'\<rparr>)"
    moreover have "smap_ok (flows table')" using ok by (simp add: t' smap_ok_put table_ok_def)
    ultimately have "smap_find k (flows table') = Some e'" by (simp add: smap_find_in)
    then show "cookie (description e') \<le> cookie d"
      using assms(6) [of ?t k e'] i eq ok by (auto simp: t' smap_find_put e table_ok_def entry_ok_def split: if_splits)
  qed (simp_all add: e flow_description_eq_refl assms(4))
  with found c have "already_installed (get_cookie_for_flow (d\<lparr>cookie := c'\<rparr>) table') table'"
      "get_cookie_for_flow (d\<lparr>cookie := c'\<rparr>) table' = c"
    using added(5) by (simp_all add: already_installed_def get_flow_entry_by_cookie_def e)
  with first i show ?thesis by (simp add: add_flow_def s' Let_def)
qed


theorem add_flow_twice_witness:
  "\<exists>s'. add_flow 0 (\<lambda>u. (u, True)) acl_flow ''test'' 0 0 True 0 (started_service [empty_table Dell_ACL]) = Inr (5, s')
    \<and> add_flow 1 (\<lambda>u. (u, True)) (acl_flow\<lparr>cookie := 6\<rparr>) ''again'' 0 0 True 0 s' = Inr (5, s')"
proof -
  let ?s = "started_service [empty_table Dell_ACL]"
  obtain s' where add: "add_flow 0 (\<lambda>u. (u, True)) acl_flow ''test'' 0 0 True 0 ?s = Inr (5, s')"
    and enq: "enqueued s' \<noteq> enqueued ?s"
    using add_acl_flow [of ?s True "''test''" 0] by auto
  have "proper_description acl_flow" by (simp add: proper_description_def)
  moreover have "service_ok ?s" by (simp add: service_ok_def table_ok_def empty_table_def smap_find_def)
  ultimately have "add_flow 1 (\<lambda>u. (u, True)) (acl_flow\<lparr>cookie := 6\<rparr>) ''again'' 0 0 True 0 s' = Inr (5, s')"
    using add_flow_twice [OF add enq, of 1 "\<lambda>u. (u, True)" 6 "''again''" 0 0 True 0]
    by (simp add: empty_table_def smap_find_def)
  with add show ?thesis by blast
qed

section \<open>Clearing\<close>

lemma mark_all_loop_result:
  "fst (mark_all_loop now b es) = map (\<lambda>e. set_state now PENDING_DELETION (snd e)) (filter (\<lambda>e. to_be_deleted b (snd e)) es)"
  by (induction now b es rule: mark_all_loop.induct) (simp_all add: Let_def case_prod_beta)

text \<open>The requests that a state has over another one.\<close>

definition new_requests :: "flow_service \<Rightarrow> flow_service \<Rightarrow> service_request list" where
  "new_requests s s' = map request (drop (length (enqueued s)) (enqueued s'))"

lemma new_requests_append: "enqueued s' = enqueued s @ txs \<Longrightarrow> new_requests s s' = map request txs"
  by (simp add: new_requests_def)

definition deletes_of :: "openflow_flow_entry set \<Rightarrow> service_request set" where
  "deletes_of E = {Modify_Flow ((delete_request e)\<lparr>xid := x\<rparr>) | e x. e \<in> E}"

lemma send_deletes_requests:
  assumes "send_deletes es s = Inr s'"
  shows "\<exists>txs. enqueued s' = enqueued s @ txs \<and> request ` set txs \<subseteq> deletes_of (set es)"
  using assms
proof (induction es s rule: send_deletes.induct)
  case (2 e es s)
  obtain m s1 where m: "modify_transaction (delete_request e) False No_Callback s = Inr (m, s1)"
    and rest: "send_deletes es s1 = Inr s'"
    using "2.prems" by (auto simp: bindr_Inr_iff)
  note eff = modify_transaction_effect [OF m]
  obtain txs where "enqueued s' = enqueued s1 @ txs" "request ` set txs \<subseteq> deletes_of (set es)"
    using "2.IH" [OF rest] by blast
  with eff show ?case by (fastforce simp: deletes_of_def)
qed simp


definition dynamic_entries :: "flow_service \<Rightarrow> openflow_flow_entry set" where
  "dynamic_entries s = {e. \<exists>t \<in> set (flow_tables s). \<exists>k. (k, e) \<in> set (flows t) \<and> to_be_deleted False e}"

lemma mark_tables_result:
  "set (fst (mark_tables now False s)) = set_state now PENDING_DELETION ` dynamic_entries s"
  by (force simp: mark_tables_def mark_all_flows_as_pending_delete_def case_prod_beta mark_all_loop_result
      dynamic_entries_def)

text \<open>
  \<open>clear_all_flows\<close> that is told to keep the static flows, with a timeout and a switch that
  answers: when there is a dynamic flow to remove, only dynamic flows are deleted on the
  switch, but every table is emptied, so that the static flows stay on the switch and are
  forgotten by the controller.
\<close>

theorem clear_all_flows_forgets_static:
  assumes "clear_all_flows now (\<lambda>u. (u, True)) timeout_ms True s = Inr (r, s')"
    and "initialized s" "timeout_ms \<noteq> 0" "dynamic_entries s \<noteq> {}"
  shows "r \<and> list_all (\<lambda>t. flows t = []) (flow_tables s')
    \<and> set (new_requests s s') \<subseteq> deletes_of (set_state now PENDING_DELETION ` dynamic_entries s)"
proof -
  let ?es = "fst (mark_tables now False s)" and ?s1 = "snd (mark_tables now False s)"
  have es: "set ?es = set_state now PENDING_DELETION ` dynamic_entries s" by (rule mark_tables_result)
  with assms(4) have ne: "?es \<noteq> []" by auto
  obtain s2 where sd: "send_deletes (butlast ?es) ?s1 = Inr s2"
    and fin: "finish_clear (\<lambda>u. (u, True)) (delete_request (last ?es)) timeout_ms s2 = Inr (r, s')"
    using assms(1,2) ne by (auto simp: clear_all_flows_def bindr_Inr_iff case_prod_beta)
  obtain m s3 where m: "modify_transaction (delete_request (last ?es)) True Blocking_Callback s2 = Inr (m, s3)"
    and r: "r" and s': "s' = s3\<lparr>flow_tables := map (clear_table False) (flow_tables s3)\<rparr>"
    using fin assms(3) by (auto simp: finish_clear_def bindr_Inr_iff)
  note eff = modify_transaction_effect [OF m]
  obtain txs where txs: "enqueued s2 = enqueued s @ txs" "request ` set txs \<subseteq> deletes_of (set (butlast ?es))"
    using send_deletes_requests [OF sd] by (auto simp: mark_tables_def)
  have mono: "deletes_of A \<subseteq> deletes_of B" if "A \<subseteq> B" for A B using that by (auto simp: deletes_of_def)
  have "set (butlast ?es) \<subseteq> set ?es" by (auto dest: in_set_butlastD)
  with txs(2) mono have "request ` set txs \<subseteq> deletes_of (set ?es)" by blast
  moreover have "Modify_Flow m \<in> deletes_of (set ?es)" using ne by (auto simp: deletes_of_def eff(1))
  moreover obtain tx where "enqueued s' = enqueued s @ (txs @ [tx])" "request tx = Modify_Flow m"
    using eff(4) txs(1) by (auto simp: s')
  ultimately have "set (new_requests s s') \<subseteq> deletes_of (set ?es)"
    using new_requests_append [of s' s "txs @ [tx]" for tx] by auto
  with r es show ?thesis by (simp add: s' list_all_iff clear_table_def)
qed

definition static_and_dynamic :: "flow_service" where
  "static_and_dynamic = started_service [\<lparr>kind = Dell_ACL, max_capacity = 10, flows =
    [(5, (flow_entry_new 0)\<lparr>state := ACTIVE, description := acl_flow\<rparr>),
     (6, (flow_entry_new 0)\<lparr>state := ACTIVE, description := acl_flow\<lparr>cookie := 6\<rparr>, idle_timeout := 60\<rparr>)]\<rparr>]"

theorem clear_all_flows_forgets_static_witness:
  "\<exists>s'. clear_all_flows 0 (\<lambda>u. (u, True)) 100 True static_and_dynamic = Inr (True, s')
    \<and> list_all (\<lambda>t. flows t = []) (flow_tables s') \<and> is_static (snd (flows (hd (flow_tables static_and_dynamic)) ! 0))"
proof -
  let ?s = static_and_dynamic
  have init: "initialized ?s" by (simp add: static_and_dynamic_def)
  have static: "is_static (snd (flows (hd (flow_tables ?s)) ! 0))"
    by (simp add: static_and_dynamic_def is_static_def flow_entry_new_def)
  have "(flow_entry_new 0)\<lparr>state := ACTIVE, description := acl_flow\<lparr>cookie := 6\<rparr>, idle_timeout := 60\<rparr> \<in> dynamic_entries ?s"
    by (auto simp: dynamic_entries_def static_and_dynamic_def to_be_deleted_def is_static_def flow_entry_new_def)
  then have dyn: "dynamic_entries ?s \<noteq> {}" by blast
  have "\<exists>s'. clear_all_flows 0 (\<lambda>u. (u, True)) 100 True ?s = Inr (True, s')"
    using init by (simp add: clear_all_flows_def finish_clear_def mark_tables_def static_and_dynamic_def
        mark_all_flows_as_pending_delete_def to_be_deleted_def is_static_def flow_entry_new_def
        modify_transaction_no_actions delete_request_def modify_flow_new_def Let_def)
  with clear_all_flows_forgets_static [OF _ init _ dyn, of 0 100] static show ?thesis by auto
qed

end
