(* ===== verification/Forwarding.thy ===== *)
theory Forwarding
  imports Switch_State Arp_Service Operational_Stats Flow_Service_Calls
begin

text \<open>
  \<open>controller/utils/openflow_utils.{h,cpp}\<close> and \<open>controller/services/flow_policy_checker.{h,cpp}\<close>: which VLAN a packet
  belongs to, flooding it on that VLAN, and the filter that does so for every packet that nobody else has consumed. The state
  is that of the controller with the services it has registered; a service that is offline is None.
\<close>

record controller =
  svc_switch :: "switch_state option"
  svc_cam :: "cam_service option"
  svc_arp :: "arp_service option"
  svc_flows :: "flow_service option"
  svc_policy :: "bool option"      \<comment> \<open>the flow policy checker: is it initialized\<close>
  svc_stats :: "operational_stats option"
  ctl_hal :: hal

section \<open>Reading messages\<close>

text \<open>The connection is what it still delivers, and a read that cannot be satisfied closes it. Also returned is the rest of
  the stream. The header stays in the buffer when it grows. With a length field below 8 the number of bytes to read wraps, the
  buffer shrinks to that length, and \<open>ptr_offset_mutable\<close> aborts as the offset behind the header is not inside.\<close>

definition recv_fixed_bytes :: "nat \<Rightarrow> byte list \<Rightarrow> (byte list \<times> byte list) option" where
  "recv_fixed_bytes n stream = (if length stream < n then None else Some (take n stream, drop n stream))"

definition get_next_openflow_message :: "byte list \<Rightarrow> (any_message option \<times> byte list) res" where
  "get_next_openflow_message stream =
    (case recv_fixed_bytes 8 stream of None \<Rightarrow> Inr (None, [])
     | Some (hdr, rest) \<Rightarrow>
        let bytes_to_read = u32 (unat (of_be16 (chunk 2 2 hdr)) + 2 ^ 32 - 8) in
        if bytes_to_read = 0 then bindr (deserialize_message hdr) (\<lambda>m. Inr (m, rest))
        else if u32 (bytes_to_read + 8) \<le> 8 then Inl Aborted
        else case recv_fixed_bytes bytes_to_read rest of None \<Rightarrow> Inr (None, [])
          | Some (body, rest') \<Rightarrow> bindr (deserialize_message (hdr @ body)) (\<lambda>m. Inr (m, rest')))"

section \<open>The VLAN of a packet\<close>

definition get_vlan_from_packet :: "of_message_packet_in \<Rightarrow> 'p raw_packet_scheme \<Rightarrow> switch_state \<Rightarrow> int \<times> switch_state" where
  "get_vlan_from_packet packet raw_pkt sw =
    (if has_vlan_tag raw_pkt then (uint (get_vlan_id raw_pkt), sw)
     else case get_switch_port (pi_in_port packet) sw of ((found, v), sw') \<Rightarrow>
       if \<not> found then (- 1, sw')
       else if vp_tagged v then (- 1, sw')
       else if card (vlan_membership v) = 1 then (uint (Min (vlan_membership v)), sw')
       else (- 1, sw'))"

section \<open>Flooding\<close>

definition send_if_any :: "(nat \<Rightarrow> byte list) \<Rightarrow> byte list \<Rightarrow> 16 word list \<Rightarrow> hal \<Rightarrow> hal res" where
  "send_if_any fresh packet out_ports h =
    (if out_ports = [] then Inr h else bindr (send_packet fresh packet out_ports h) (\<lambda>(ok, h'). Inr h'))"

text \<open>The output buffer of a tag operation that fails stays empty, and its result is not looked at.\<close>

definition retagged :: "byte list option res \<Rightarrow> byte list res" where
  "retagged r = bindr r (\<lambda>out. Inr (case out of None \<Rightarrow> [] | Some bs \<Rightarrow> bs))"

definition send_retagged :: "(nat \<Rightarrow> byte list) \<Rightarrow> byte list option res \<Rightarrow> 16 word list \<Rightarrow> hal \<Rightarrow> hal res" where
  "send_retagged fresh r out_ports h =
    (if out_ports = [] then Inr h else bindr (retagged r) (\<lambda>packet. send_if_any fresh packet out_ports h))"

definition flood_packet :: "(nat \<Rightarrow> byte list) \<Rightarrow> of_message_packet_in \<Rightarrow> 'p raw_packet_scheme
    \<Rightarrow> switch_state \<times> hal \<Rightarrow> (switch_state \<times> hal) res" where
  "flood_packet fresh packet raw_pkt = (\<lambda>(sw, h).
    case get_switch_port (pi_in_port packet) sw of ((found, v), sw') \<Rightarrow>
      if \<not> found then Inr (sw', h)
      else if has_vlan_tag raw_pkt \<and> get_vlan_id raw_pkt \<notin> vlan_membership v then Inr (sw', h)
      else if \<not> has_vlan_tag raw_pkt \<and> vp_tagged v then Inr (sw', h)
      else if \<not> has_vlan_tag raw_pkt \<and> vlan_membership v = {} then Inr (sw', h)
      else let actual_vlan = (if has_vlan_tag raw_pkt then get_vlan_id raw_pkt else Min (vlan_membership v));
               untagged_ports = filter (\<lambda>p. p \<noteq> pi_in_port packet) (get_untagged_ports actual_vlan sw');
               tagged_ports = filter (\<lambda>p. p \<noteq> pi_in_port packet) (get_tagged_ports actual_vlan sw') in
        if \<not> has_vlan_tag raw_pkt then
          bindr (send_if_any fresh (pkt_data packet) untagged_ports h) (\<lambda>h1.
          bindr (send_retagged fresh (set_vlan_tag (pkt_data packet) actual_vlan) tagged_ports h1) (\<lambda>h2. Inr (sw', h2)))
        else
          bindr (send_retagged fresh (strip_vlan_tag (pkt_data packet)) untagged_ports h) (\<lambda>h1.
          bindr (send_if_any fresh (pkt_data packet) tagged_ports h1) (\<lambda>h2. Inr (sw', h2))))"

text \<open>The other one, for a packet of the controller itself.\<close>

definition flood_vlan :: "(nat \<Rightarrow> byte list) \<Rightarrow> byte list \<Rightarrow> 16 word \<Rightarrow> switch_state \<Rightarrow> hal \<Rightarrow> hal res" where
  "flood_vlan fresh contents vlan sw h =
     bindr (send_retagged fresh (set_vlan_tag contents vlan) (get_tagged_ports vlan sw) h) (\<lambda>h1.
       send_if_any fresh contents (get_untagged_ports vlan sw) h1)"

section \<open>The flow policy checker\<close>

text \<open>The flow service has the transaction counter of the controller and a log of what it has enqueued; its callback objects
  are numbered, 0 for the blocking one.\<close>

primrec service_callback :: "transaction_callback \<Rightarrow> nat option" where
  "service_callback No_Callback = None"
| "service_callback Blocking_Callback = Some 0"
| "service_callback (Table_Callback i) = Some (Suc i)"

primrec service_hal_request :: "service_request \<Rightarrow> hal_request" where
  "service_hal_request (Modify_Flow m) = Rq_Modify_Flow m"
| "service_hal_request (Flow_Stats_Request x) =
     Rq_Flow_Stats (flow_request_clear\<lparr>xid := x, fields_to_match := of_match_wildcard_all of_match_clear\<rparr>)"

definition service_transaction :: "hal_transaction \<Rightarrow> transaction" where
  "service_transaction t = \<lparr>tx_request = service_hal_request (request t), tx_serialized = serialized_msg t, tx_reply = None,
     tx_needs_ack = needs_completion_acknowledgement t, tx_callback = service_callback (callback t)\<rparr>"

definition new_transactions :: "flow_service option \<Rightarrow> flow_service option \<Rightarrow> hal \<Rightarrow> hal" where
  "new_transactions old new h =
    (case (old, new) of (Some s, Some s') \<Rightarrow> h\<lparr>hal_xid := xid_counter s',
        pending_transactions := pending_transactions h @ map (Some \<circ> service_transaction) (drop (length (enqueued s)) (enqueued s'))\<rparr>
     | _ \<Rightarrow> h)"

definition call_flow_service :: "(flow_service option \<Rightarrow> ('a \<times> flow_service option) res) \<Rightarrow> controller \<Rightarrow> ('a \<times> controller) res" where
  "call_flow_service f c =
     bindr (f (map_option (\<lambda>s. s\<lparr>xid_counter := hal_xid (ctl_hal c)\<rparr>) (svc_flows c))) (\<lambda>(r, flows').
       Inr (r, c\<lparr>svc_flows := flows', ctl_hal := new_transactions (svc_flows c) flows' (ctl_hal c)\<rparr>))"

text \<open>The L2 rule is installed with no timeout, so nothing waits.\<close>

definition policy_accelerate_flow :: "int \<Rightarrow> 64 word \<Rightarrow> mac_address \<Rightarrow> 16 word \<Rightarrow> 16 word \<Rightarrow> controller \<Rightarrow> (bool \<times> controller) res" where
  "policy_accelerate_flow now random mac vlan port = call_flow_service (accelerate_flow now (\<lambda>s. (s, True)) random mac vlan port)"

text \<open>Broadcast and unicast are flooded alike. Without the switch state the flooding would go through a null pointer.\<close>

definition policy_forward_packet :: "(nat \<Rightarrow> byte list) \<Rightarrow> of_message_packet_in \<Rightarrow> 'p raw_packet_scheme \<Rightarrow> controller \<Rightarrow> (bool \<times> controller) res" where
  "policy_forward_packet fresh packet raw_pkt c =
    (if mac_is_nil (dest_mac raw_pkt) then Inr (False, c)
     else case svc_switch c of None \<Rightarrow> Inl OutOfBounds
     | Some sw \<Rightarrow> bindr (flood_packet fresh packet raw_pkt (sw, ctl_hal c)) (\<lambda>(sw', h').
         Inr (True, c\<lparr>svc_switch := Some sw', ctl_hal := h'\<rparr>)))"

definition policy_filter_packet :: "int \<Rightarrow> 64 word \<Rightarrow> (nat \<Rightarrow> byte list) \<Rightarrow> of_message_packet_in \<Rightarrow> 'p raw_packet_scheme
    \<Rightarrow> controller \<Rightarrow> (bool \<times> controller) res" where
  "policy_filter_packet now random fresh packet raw_pkt c =
    (if svc_policy c \<noteq> Some True then Inr (False, c)
     else case (svc_cam c, svc_switch c) of
       (Some _, Some sw) \<Rightarrow>
         bindr (if \<not> mac_is_nil (src_mac raw_pkt) \<and> \<not> mac_is_broadcast (src_mac raw_pkt)
                then case get_vlan_from_packet packet raw_pkt sw of (vlan, sw') \<Rightarrow>
                  bindr (policy_accelerate_flow now random (src_mac raw_pkt) (word_of_int vlan) (pi_in_port packet) (c\<lparr>svc_switch := Some sw'\<rparr>))
                    (\<lambda>(ok, c'). Inr c')
                else Inr c) (\<lambda>c1. policy_forward_packet fresh packet raw_pkt c1)
     | _ \<Rightarrow> Inr (False, c))"

definition policy_init :: "controller \<Rightarrow> bool \<times> controller" where
  "policy_init c = (True, c\<lparr>svc_policy := Some True\<rparr>)"

definition policy_shutdown :: "controller \<Rightarrow> controller" where
  "policy_shutdown c = c\<lparr>svc_policy := Some False\<rparr>"

section \<open>Message boundaries\<close>

text \<open>C35. Messages are read one by one as their length fields say: from a stream that holds a whole message and more, the
  message is deserialized from exactly its own bytes and what follows it is left for the next read; a stream that ends inside
  the message gives nothing and closes the connection; a length field below 8 aborts the controller.\<close>

theorem next_message_framed:
  assumes "8 \<le> length stream"
  shows "get_next_openflow_message stream = (let n = unat (of_be16 (chunk 2 2 stream)) in
    if n < 8 then Inl Aborted
    else if length stream < n then Inr (None, [])
    else bindr (deserialize_message (take n stream)) (\<lambda>m. Inr (m, drop n stream)))"
proof -
  define n where "n = unat (of_be16 (chunk 2 2 stream))"
  have n: "n < 65536" using unsigned_less [of "of_be16 (chunk 2 2 stream)", where ?'a = nat] by (simp add: n_def)
  have hdr: "chunk 2 2 (take 8 stream) = chunk 2 2 stream" by (simp add: chunk_def drop_take min_def)
  have recv: "recv_fixed_bytes 8 stream = Some (take 8 stream, drop 8 stream)" using assms by (simp add: recv_fixed_bytes_def)
  show ?thesis
  proof (cases "n < 8")
    case True
    then have "u32 (n + 2 ^ 32 - 8) = n + 2 ^ 32 - 8" "u32 (n + 2 ^ 32 - 8 + 8) = n" by (simp_all add: u32_def)
    with True show ?thesis by (simp add: get_next_openflow_message_def recv hdr n_def [symmetric] Let_def)
  next
    case False
    then have "n + 2 ^ 32 - 8 = (n - 8) + 2 ^ 32" by simp
    then have "u32 (n + 2 ^ 32 - 8) = ((n - 8) + 2 ^ 32) mod 2 ^ 32" by (simp only: u32_def)
    then have b: "u32 (n + 2 ^ 32 - 8) = n - 8" "u32 (n - 8 + 8) = n" using n False by (simp_all only: mod_add_self2) simp_all
    from b(1) have b': "u32 (4294967288 + n) = n - 8" "u32 n = n" using n by (simp_all add: add.commute)
    have "take 8 stream @ take (n - 8) (drop 8 stream) = take n stream" "drop (n - 8) (drop 8 stream) = drop n stream"
      using False by (simp_all add: take_add [symmetric])
    then show ?thesis using False assms
      by (auto simp: get_next_openflow_message_def recv hdr n_def [symmetric] Let_def b b' recv_fixed_bytes_def [of "n - 8"])
  qed
qed

theorem next_message_framed_witness:
  "get_next_openflow_message (header_bytes 1 OFPT_HELLO 4 7) = Inl Aborted"
  using next_message_framed [of "header_bytes 1 OFPT_HELLO 4 7"]
  by (simp add: header_bytes_def field_simps_rules)

section \<open>Where a flooded packet goes\<close>

lemma smap_put_same: "smap_ok m \<Longrightarrow> smap_find k m = Some v \<Longrightarrow> smap_put k v m = m"
proof (induction k v m rule: smap_put.induct)
  case (2 k v a b m)
  have ok: "smap_ok m" "\<forall>x \<in> set (map fst m). a < x" using "2.prems"(1) by (simp_all add: smap_ok_Cons)
  show ?case
  proof (cases "k = a")
    case True
    with "2.prems"(2) show ?thesis by (simp add: smap_find_def)
  next
    case False
    then have find: "smap_find k m = Some v" using "2.prems"(2) by (simp add: smap_find_def)
    then have "(k, v) \<in> set m" using smap_find_in [OF ok(1)] by simp
    then have "a < k" using ok(2) by force
    then have "\<not> k < a" by simp
    then show ?thesis using "2.IH" [OF _ False ok(1) find] False by simp
  qed
qed (simp add: smap_find_def)

lemma get_switch_port_found:
  assumes "ports_ok (ss_ports sw)" "get_switch_port p sw = ((True, v), sw')"
  shows "smap_find p (ss_ports sw) = Some v" "vp_valid v" "sw' = sw"
proof -
  have m: "smap_ok (ss_ports sw)" using assms(1) by (simp add: ports_ok_def)
  let ?m1 = "maybe_create_port p (ss_ports sw)"
  have v: "vp_valid v" "v = port_at p ?m1" and sw': "sw' = sw\<lparr>ss_ports := smap_put p v ?m1\<rparr>"
    using assms(2) unfolding get_switch_port_def Let_def by auto
  show "vp_valid v" by (rule v(1))
  show find: "smap_find p (ss_ports sw) = Some v"
  proof (cases "smap_find p (ss_ports sw)")
    case None
    with v have False by (simp add: port_at_def maybe_create_port_def smap_find_put vlan_port_new_def split: if_splits)
    then show ?thesis ..
  qed (use v in \<open>simp add: port_at_def maybe_create_port_def split: if_splits\<close>)
  then have "?m1 = ss_ports sw" by (simp add: maybe_create_port_def)
  then have "sw' = sw\<lparr>ss_ports := ss_ports sw\<rparr>" unfolding sw' by (simp only: smap_put_same [OF m find])
  then show "sw' = sw" by simp
qed

lemma in_ports_where: "smap_ok (ss_ports sw) \<Longrightarrow> p \<in> set (ports_where P sw) \<longleftrightarrow> (\<exists>v. smap_find p (ss_ports sw) = Some v \<and> vp_valid v \<and> P v)"
  by (auto simp: ports_where_def smap_find_in image_iff)

lemma distinct_ports_where: "smap_ok (ss_ports sw) \<Longrightarrow> distinct (ports_where P sw)"
  using smap_ok_distinct [OF smap_ok_filter] by (auto simp: ports_where_def)

lemma add_outputs:
  "distinct (map (Output_To_Port False) ps) \<Longrightarrow> \<forall>p \<in> set ps. \<not> add_action_found acts (Output_To_Port False p) \<Longrightarrow>
    fold (\<lambda>p. add_action (Output_To_Port False p)) ps acts = acts @ map (Output_To_Port False) ps"
proof (induction ps arbitrary: acts)
  case (Cons p ps)
  have found: "add_action_found (xs @ [a]) b = (add_action_found xs b \<or> action_eq a b)" for xs a b
    by (induction xs) auto
  have "add_action (Output_To_Port False p) acts = acts @ [Output_To_Port False p]"
    using Cons.prems(2) by (simp add: add_action_def action_clone_def)
  moreover have "\<forall>q \<in> set ps. \<not> add_action_found (acts @ [Output_To_Port False p]) (Output_To_Port False q)"
    using Cons.prems by (auto simp: found action_eq_def output_eq_def)
  ultimately show ?case using Cons by simp
qed simp

text \<open>The transaction that carries a packet, and the ports that it goes to.\<close>

fun out_ports :: "hal_request \<Rightarrow> 16 word list" where
  "out_ports (Rq_Packet_Out m) = concat (map (\<lambda>a. case a of Output_To_Port c p \<Rightarrow> [p] | _ \<Rightarrow> []) (po_actions m))"
| "out_ports r = []"

fun out_data :: "hal_request \<Rightarrow> byte list" where
  "out_data (Rq_Packet_Out m) = packet_data m"
| "out_data r = []"

definition carries_packet :: "byte list \<Rightarrow> 16 word list \<Rightarrow> transaction \<Rightarrow> bool" where
  "carries_packet bs ps t = (out_data (tx_request t) = bs \<and> out_ports (tx_request t) = ps \<and> \<not> tx_needs_ack t)"

lemma send_packet_effect:
  assumes "send_packet fresh bs ps h = Inr (ok, h')" "distinct ps" "switch_ready h"
  shows "\<exists>t. h' = h\<lparr>hal_xid := hal_xid h + 1, pending_transactions := pending_transactions h @ [Some t]\<rparr> \<and> carries_packet bs ps t"
proof -
  define m where "m = packet_out_new\<lparr>packet_data := bs, po_actions := fold (\<lambda>p. add_action (Output_To_Port False p)) ps []\<rparr>"
  have "distinct (map (Output_To_Port False) ps)" using assms(2) by (simp add: distinct_map inj_on_def)
  then have m: "packet_data m = bs" "po_actions m = map (Output_To_Port False) ps" by (simp_all add: m_def add_outputs)
  have "submit fresh (Rq_Packet_Out m) False None h = Inr h'"
    using assms(1,3) by (simp add: send_packet_def m_def [symmetric] Let_def bindr_Inr_iff)
  then obtain t h1 where t: "assign_and_serialize fresh (Rq_Packet_Out m) False None h = Inr (t, h1)" "h' = enqueue_transaction (Some t) h1"
    unfolding submit_def bindr_Inr_iff by auto
  note a = assign_cases [OF t(1)]
  have "tx_request t = with_xid (hal_xid h) (Rq_Packet_Out m)"
    using t(1) unfolding assign_and_serialize_def reserve_xid_def set_request_and_serialize_def by (auto simp: bindr_Inr_iff)
  then have "carries_packet bs ps t" using a(3) by (simp add: carries_packet_def m o_def)
  moreover have "h' = h\<lparr>hal_xid := hal_xid h + 1, pending_transactions := pending_transactions h @ [Some t]\<rparr>"
    using a(1) t(2) by (simp add: enqueue_transaction_def)
  ultimately show ?thesis by blast
qed

lemma send_if_any_effect:
  assumes "send_if_any fresh bs ps h = Inr h'" "distinct ps" "switch_ready h"
  shows "\<exists>new. pending_transactions h' = pending_transactions h @ map Some new \<and> switch_ready h' \<and>
    (if ps = [] then new = [] else \<exists>t. new = [t] \<and> carries_packet bs ps t)"
proof (cases "ps = []")
  case True
  then show ?thesis using assms(1,3) by (simp add: send_if_any_def)
next
  case False
  then obtain ok where ok: "send_packet fresh bs ps h = Inr (ok, h')"
    using assms(1) by (auto simp: send_if_any_def bindr_Inr_iff)
  obtain t where t: "h' = h\<lparr>hal_xid := hal_xid h + 1, pending_transactions := pending_transactions h @ [Some t]\<rparr>"
    "carries_packet bs ps t" using send_packet_effect [OF ok assms(2,3)] by blast
  then have "pending_transactions h' = pending_transactions h @ map Some [t] \<and> switch_ready h'" using assms(3) by simp
  with t(2) False show ?thesis by metis
qed

lemma send_retagged_effect:
  assumes "send_retagged fresh r ps h = Inr h'" "distinct ps" "switch_ready h"
  shows "\<exists>new. pending_transactions h' = pending_transactions h @ map Some new \<and> switch_ready h' \<and>
    (if ps = [] then new = [] else \<exists>t bs. new = [t] \<and> retagged r = Inr bs \<and> carries_packet bs ps t)"
proof (cases "ps = []")
  case True
  then show ?thesis using assms(1,3) by (simp add: send_retagged_def)
next
  case False
  then obtain bs where bs: "retagged r = Inr bs" "send_if_any fresh bs ps h = Inr h'"
    using assms(1) by (auto simp: send_retagged_def bindr_Inr_iff)
  from send_if_any_effect [OF bs(2) assms(2,3)] False bs(1) show ?thesis by metis
qed

text \<open>The other valid ports of a VLAN with the given tagging.\<close>

definition other_ports :: "16 word \<Rightarrow> 16 word \<Rightarrow> bool \<Rightarrow> switch_state \<Rightarrow> 16 word \<Rightarrow> bool" where
  "other_ports ingress vlan tagged sw p = (p \<noteq> ingress \<and> (\<exists>v. smap_find p (ss_ports sw) = Some v \<and> vp_valid v
     \<and> vlan \<in> vlan_membership v \<and> vp_tagged v = tagged))"

lemma flood_port_sets:
  assumes "smap_ok (ss_ports sw)"
  shows "set (filter (\<lambda>p. p \<noteq> ingress) (get_untagged_ports vlan sw)) = Collect (other_ports ingress vlan False sw)"
    "set (filter (\<lambda>p. p \<noteq> ingress) (get_tagged_ports vlan sw)) = Collect (other_ports ingress vlan True sw)"
    "distinct (filter (\<lambda>p. p \<noteq> ingress) (get_untagged_ports vlan sw))" "distinct (filter (\<lambda>p. p \<noteq> ingress) (get_tagged_ports vlan sw))"
  using assms by (auto simp: get_untagged_ports_def get_tagged_ports_def in_ports_where distinct_ports_where other_ports_def
      is_member_of_vlan_def)

text \<open>When flooding drops a packet: the port is unknown or not valid, the port does not carry the VLAN of the tag, or an
  untagged packet has come in on a tagged port or on a port without a VLAN.\<close>

definition floodable :: "of_message_packet_in \<Rightarrow> 'p raw_packet_scheme \<Rightarrow> switch_state \<Rightarrow> bool" where
  "floodable packet raw_pkt sw = (\<exists>v. smap_find (pi_in_port packet) (ss_ports sw) = Some v \<and> vp_valid v \<and>
     (if has_vlan_tag raw_pkt then get_vlan_id raw_pkt \<in> vlan_membership v else \<not> vp_tagged v \<and> vlan_membership v \<noteq> {}))"

text \<open>The VLAN of the packet: that of its tag, or the one of the port.\<close>

definition flood_vlan_of :: "of_message_packet_in \<Rightarrow> 'p raw_packet_scheme \<Rightarrow> switch_state \<Rightarrow> 16 word" where
  "flood_vlan_of packet raw_pkt sw = (if has_vlan_tag raw_pkt then get_vlan_id raw_pkt
     else Min (vlan_membership (port_at (pi_in_port packet) (ss_ports sw))))"

lemma flood_packet_dropped:
  assumes "ports_ok (ss_ports sw)" "\<not> floodable packet raw_pkt sw" "flood_packet fresh packet raw_pkt (sw, h) = Inr (sw', h')"
  shows "h' = h"
proof -
  obtain found v sw1 where g: "get_switch_port (pi_in_port packet) sw = ((found, v), sw1)" by (metis surj_pair)
  show ?thesis
  proof (cases found)
    case True
    then have "get_switch_port (pi_in_port packet) sw = ((True, v), sw1)" using g by simp
    note get_switch_port_found(1,2) [OF assms(1) this]
    then have "if has_vlan_tag raw_pkt then get_vlan_id raw_pkt \<notin> vlan_membership v else vp_tagged v \<or> vlan_membership v = {}"
      using assms(2) by (auto simp: floodable_def split: if_splits)
    then show ?thesis using assms(3) by (auto simp: flood_packet_def g split: if_splits)
  qed (use assms(3) in \<open>simp add: flood_packet_def g\<close>)
qed

lemma flood_packet_sent:
  assumes "ports_ok (ss_ports sw)" "floodable packet raw_pkt sw" "switch_ready h"
    and "flood_packet fresh packet raw_pkt (sw, h) = Inr (sw', h')"
  defines "vlan \<equiv> flood_vlan_of packet raw_pkt sw" and "ingress \<equiv> pi_in_port packet"
  obtains un tn where "pending_transactions h' = pending_transactions h @ map Some (un @ tn)" "sw' = sw"
    and "let ps = filter (\<lambda>p. p \<noteq> ingress) (get_untagged_ports vlan sw) in
      if ps = [] then un = [] else \<exists>t bs. un = [t] \<and> carries_packet bs ps t
        \<and> (if has_vlan_tag raw_pkt then retagged (strip_vlan_tag (pkt_data packet)) else Inr (pkt_data packet)) = Inr bs"
    and "let ps = filter (\<lambda>p. p \<noteq> ingress) (get_tagged_ports vlan sw) in
      if ps = [] then tn = [] else \<exists>t bs. tn = [t] \<and> carries_packet bs ps t
        \<and> (if has_vlan_tag raw_pkt then Inr (pkt_data packet) else retagged (set_vlan_tag (pkt_data packet) vlan)) = Inr bs"
proof -
  obtain found v sw1 where g: "get_switch_port ingress sw = ((found, v), sw1)" by (metis surj_pair)
  obtain u where u: "smap_find ingress (ss_ports sw) = Some u" "vp_valid u"
    "if has_vlan_tag raw_pkt then get_vlan_id raw_pkt \<in> vlan_membership u else \<not> vp_tagged u \<and> vlan_membership u \<noteq> {}"
    using assms(2) by (auto simp: floodable_def ingress_def)
  have m: "smap_ok (ss_ports sw)" using assms(1) by (simp add: ports_ok_def)
  have "vp_valid (port_at ingress (maybe_create_port ingress (ss_ports sw)))" using u by (simp add: port_at_def maybe_create_port_def)
  then have found: "found" using g by (auto simp: get_switch_port_def Let_def)
  then have "get_switch_port ingress sw = ((True, v), sw1)" using g by simp
  note f = get_switch_port_found [OF assms(1) this]
  have v: "v = u" "sw1 = sw" using f(1,3) u(1) by simp_all
  let ?U = "filter (\<lambda>p. p \<noteq> ingress) (get_untagged_ports vlan sw)" and ?T = "filter (\<lambda>p. p \<noteq> ingress) (get_tagged_ports vlan sw)"
  note sets = flood_port_sets [OF m, of ingress vlan]
  have vlan: "vlan = (if has_vlan_tag raw_pkt then get_vlan_id raw_pkt else Min (vlan_membership u))"
    by (simp add: vlan_def flood_vlan_of_def port_at_def u(1) ingress_def [symmetric])
  show thesis
  proof (cases "has_vlan_tag raw_pkt")
    case True
    obtain h1 where h1: "send_retagged fresh (strip_vlan_tag (pkt_data packet)) ?U h = Inr h1" "send_if_any fresh (pkt_data packet) ?T h1 = Inr h'"
      and sw': "sw' = sw"
      using assms(4) u(3) True found by (auto simp: flood_packet_def ingress_def [symmetric] g v vlan bindr_Inr_iff Let_def)
    obtain un where un: "pending_transactions h1 = pending_transactions h @ map Some un" "switch_ready h1"
      "if ?U = [] then un = [] else \<exists>t bs. un = [t] \<and> retagged (strip_vlan_tag (pkt_data packet)) = Inr bs \<and> carries_packet bs ?U t"
      using send_retagged_effect [OF h1(1) sets(3) assms(3)] by blast
    obtain tn where tn: "pending_transactions h' = pending_transactions h1 @ map Some tn"
      "if ?T = [] then tn = [] else \<exists>t. tn = [t] \<and> carries_packet (pkt_data packet) ?T t"
      using send_if_any_effect [OF h1(2) sets(4) un(2)] by blast
    show thesis by (rule that [of un tn]) (use un tn True sw' in \<open>auto simp: Let_def split: if_splits\<close>)
  next
    case False
    obtain h1 where h1: "send_if_any fresh (pkt_data packet) ?U h = Inr h1"
        "send_retagged fresh (set_vlan_tag (pkt_data packet) vlan) ?T h1 = Inr h'" and sw': "sw' = sw"
      using assms(4) u(3) False found by (auto simp: flood_packet_def ingress_def [symmetric] g v vlan bindr_Inr_iff Let_def)
    obtain un where un: "pending_transactions h1 = pending_transactions h @ map Some un" "switch_ready h1"
      "if ?U = [] then un = [] else \<exists>t. un = [t] \<and> carries_packet (pkt_data packet) ?U t"
      using send_if_any_effect [OF h1(1) sets(3) assms(3)] by blast
    obtain tn where tn: "pending_transactions h' = pending_transactions h1 @ map Some tn"
      "if ?T = [] then tn = [] else \<exists>t bs. tn = [t] \<and> retagged (set_vlan_tag (pkt_data packet) vlan) = Inr bs \<and> carries_packet bs ?T t"
      using send_retagged_effect [OF h1(2) sets(4) un(2)] by blast
    show thesis by (rule that [of un tn]) (use un tn False sw' in \<open>auto simp: Let_def split: if_splits\<close>)
  qed
qed

text \<open>C1. Flooding keeps to the VLAN of the packet: whatever ports the switch has, a packet that is flooded is sent to every
  valid port of its VLAN other than the one it came in on, exactly once, and to no other port; a packet whose tag the port does
  not carry, or that has come in untagged on a tagged port, on a port without a VLAN or on an unknown port, is sent nowhere.\<close>

theorem flood_exactly_vlan:
  assumes "ports_ok (ss_ports sw)" "switch_ready h" "flood_packet fresh packet raw_pkt (sw, h) = Inr (sw', h')"
  shows "\<exists>new. pending_transactions h' = pending_transactions h @ map Some new
    \<and> distinct (concat (map (\<lambda>t. out_ports (tx_request t)) new))
    \<and> set (concat (map (\<lambda>t. out_ports (tx_request t)) new)) = (if floodable packet raw_pkt sw
        then {p. p \<noteq> pi_in_port packet \<and> (\<exists>v. smap_find p (ss_ports sw) = Some v \<and> vp_valid v
          \<and> is_member_of_vlan (flood_vlan_of packet raw_pkt sw) v)}
        else {})"
proof (cases "floodable packet raw_pkt sw")
  case False
  then show ?thesis using flood_packet_dropped [OF assms(1) False assms(3)] by (intro exI [where x = "[]"]) simp
next
  case True
  let ?vlan = "flood_vlan_of packet raw_pkt sw" and ?in = "pi_in_port packet"
  let ?U = "filter (\<lambda>p. p \<noteq> ?in) (get_untagged_ports ?vlan sw)" and ?T = "filter (\<lambda>p. p \<noteq> ?in) (get_tagged_ports ?vlan sw)"
  have m: "smap_ok (ss_ports sw)" using assms(1) by (simp add: ports_ok_def)
  obtain un tn where new: "pending_transactions h' = pending_transactions h @ map Some (un @ tn)"
    and un: "if ?U = [] then un = [] else \<exists>t bs. un = [t] \<and> carries_packet bs ?U t"
    and tn: "if ?T = [] then tn = [] else \<exists>t bs. tn = [t] \<and> carries_packet bs ?T t"
    by (rule flood_packet_sent [OF assms(1) True assms(2,3)]) (simp add: Let_def, metis)
  have "concat (map (\<lambda>t. out_ports (tx_request t)) un) = ?U" "concat (map (\<lambda>t. out_ports (tx_request t)) tn) = ?T"
    using un tn by (auto simp: carries_packet_def split: if_splits)
  then have ps: "concat (map (\<lambda>t. out_ports (tx_request t)) (un @ tn)) = ?U @ ?T" by simp
  note sets = flood_port_sets [OF m, of ?in ?vlan]
  have "set ?U \<inter> set ?T = {}" unfolding sets(1,2) by (auto simp: other_ports_def)
  then have "distinct (?U @ ?T)" using sets(3,4) by simp
  moreover have "set (?U @ ?T) = {p. p \<noteq> ?in \<and> (\<exists>v. smap_find p (ss_ports sw) = Some v \<and> vp_valid v \<and> is_member_of_vlan ?vlan v)}"
    unfolding set_append sets(1,2) by (auto simp: other_ports_def is_member_of_vlan_def)
  ultimately show ?thesis using new ps True by (intro exI [where x = "un @ tn"]) simp
qed

lemma outputs_size: "sum_list (map action_size (map (Output_To_Port False) ps)) = 8 * length ps"
  by (induction ps) simp_all

lemma send_packet_returns:
  assumes "distinct ps" "ps \<noteq> []" "length bs < 2 ^ 31" "\<And>n. length (fresh n) = n"
  shows "\<exists>ok h'. send_packet fresh bs ps h = Inr (ok, h') \<and> switch_ready h' = switch_ready h"
proof -
  define m where "m = packet_out_new\<lparr>packet_data := bs, po_actions := fold (\<lambda>p. add_action (Output_To_Port False p)) ps []\<rparr>"
  have "distinct (map (Output_To_Port False) ps)" using assms(1) by (simp add: distinct_map inj_on_def)
  then have m: "packet_data m = bs" "po_actions m = map (Output_To_Port False) ps" by (simp_all add: m_def add_outputs)
  have "length ps \<le> 65536" using distinct_card [OF assms(1)] card_mono [of UNIV "set ps"] by (simp add: card_word)
  moreover have "0 < length ps" using assms(2) by simp
  ultimately have len: "16 + (8 * length ps + length bs) < 2 ^ 32" "0 < 8 * length ps + length bs" using assms(3) by simp_all
  have small: "sum_list (map action_size (map (Output_To_Port False) ps)) < 2 ^ 32" using len unfolding outputs_size by simp
  have gs: "get_serialization_size (map (Output_To_Port False) ps) = 8 * length ps"
    using get_serialization_size_sum [OF small] unfolding outputs_size .
  note small
  moreover have "list_all (\<lambda>a. get_action_type a \<noteq> VENDOR) (map (Output_To_Port False) ps)" by (simp add: list_all_iff)
  ultimately obtain acts where "action_list_serialize fresh (map (Output_To_Port False) ps) = Inr acts"
    using action_list_written assms(4) by blast
  then have "\<exists>bytes. packet_out_serialize fresh (m\<lparr>xid := x\<rparr>) = Inr bytes" for x
    using len by (simp add: packet_out_serialize_def m gs Let_def)
  then obtain bytes where "packet_out_serialize fresh (m\<lparr>xid := hal_xid h\<rparr>) = Inr bytes" by blast
  then show ?thesis
    by (simp add: send_packet_def m_def [symmetric] submit_def assign_and_serialize_def reserve_xid_def set_request_and_serialize_def
        enqueue_transaction_def Let_def) blast
qed

lemma flood_packet_returns:
  assumes "ports_ok (ss_ports sw)" "\<not> has_vlan_tag raw_pkt" "14 < length (pkt_data packet)" "length (pkt_data packet) < 2 ^ 16"
    and "\<And>n. length (fresh n) = n"
  shows "\<exists>sw' h'. flood_packet fresh packet raw_pkt (sw, h) = Inr (sw', h')"
proof -
  have m: "smap_ok (ss_ports sw)" using assms(1) by (simp add: ports_ok_def)
  have send: "\<exists>h'. send_if_any fresh bs ps h = Inr h'" if "distinct ps" "length bs < 2 ^ 31" for bs ps h
    using send_packet_returns [OF that(1) _ that(2) assms(5), of h] by (cases "ps = []") (auto simp: send_if_any_def)
  have tag: "\<exists>bs. retagged (set_vlan_tag (pkt_data packet) vlan) = Inr bs \<and> length bs < 2 ^ 31" for vlan
    using assms(3,4)
    by (auto simp: set_vlan_tag_def retagged_def chunk_def split: list.splits) (drule arg_cong [where f = length], simp)
  have retag: "\<exists>h'. send_retagged fresh (set_vlan_tag (pkt_data packet) vlan) ps h = Inr h'" if "distinct ps" for ps h vlan
    using send [OF that] tag [of vlan] by (fastforce simp: send_retagged_def)
  obtain found v sw1 where g: "get_switch_port (pi_in_port packet) sw = ((found, v), sw1)" by (metis surj_pair)
  show ?thesis
  proof (cases found)
    case True
    then have sw1: "sw1 = sw" using get_switch_port_found(3) [OF assms(1)] g by simp
    let ?vlan = "Min (vlan_membership v)"
    note sets = flood_port_sets(3,4) [OF m, of "pi_in_port packet" ?vlan]
    obtain h1 where h1: "send_if_any fresh (pkt_data packet) (filter (\<lambda>p. p \<noteq> pi_in_port packet) (get_untagged_ports ?vlan sw)) h = Inr h1"
      using send [OF sets(1)] assms(4) by fastforce
    show ?thesis using retag [OF sets(2), of ?vlan h1] assms(2) by (auto simp: flood_packet_def g sw1 h1 Let_def)
  qed (simp add: flood_packet_def g)
qed

text \<open>A switch with two untagged ports in VLAN 10 and one in VLAN 20.\<close>

definition three_ports :: switch_state where
  "three_ports = (switch_state_new switch_config_clear)\<lparr>ss_ports := map (\<lambda>(p, vlan). (p, vlan_port_new\<lparr>vp_valid := True,
     vlan_membership := {vlan}, vp_port := openflow_port_new\<lparr>port_number := p\<rparr>\<rparr>)) [(1, 10), (2, 10), (3, 20)]\<rparr>"

definition small_packet :: of_message_packet_in where
  "small_packet = packet_in_new\<lparr>pi_in_port := 1, pkt_data := replicate 20 7\<rparr>"

theorem flood_exactly_vlan_witness:
  "\<exists>sw' h'. flood_packet (\<lambda>n. replicate n 0) small_packet raw_packet_new (three_ports, hal_new\<lparr>switch_ready := True\<rparr>) = Inr (sw', h')
    \<and> (\<exists>new. pending_transactions h' = map Some new \<and> set (concat (map (\<lambda>t. out_ports (tx_request t)) new)) = {2})"
proof -
  have ok: "ports_ok (ss_ports three_ports)"
    by (simp add: three_ports_def ports_ok_def smap_ok_def entry_ok_def vlan_port_ok_def vlan_port_new_def openflow_port_new_def)
  have len: "14 < length (pkt_data small_packet)" "length (pkt_data small_packet) < 2 ^ 16" and untagged: "\<not> has_vlan_tag raw_packet_new"
    and port: "pi_in_port small_packet = 1"
    by (simp_all add: small_packet_def packet_in_new_def of_message.defs of_message_packet_in.defs raw_packet_new_def)
  obtain sw' h' where flood: "flood_packet (\<lambda>n. replicate n 0) small_packet raw_packet_new (three_ports, hal_new\<lparr>switch_ready := True\<rparr>) = Inr (sw', h')"
    using flood_packet_returns [OF ok untagged len, of "\<lambda>n. replicate n 0" "hal_new\<lparr>switch_ready := True\<rparr>"] by auto
  have one: "port_at 1 (ss_ports three_ports) = vlan_port_new\<lparr>vp_valid := True, vlan_membership := {10}, vp_port := openflow_port_new\<lparr>port_number := 1\<rparr>\<rparr>"
    "smap_find 1 (ss_ports three_ports) = Some (port_at 1 (ss_ports three_ports))"
    by (simp_all add: three_ports_def port_at_def smap_find_def)
  have "floodable small_packet raw_packet_new three_ports"
    by (simp add: floodable_def port one untagged) (simp add: vlan_port_new_def)
  moreover have "flood_vlan_of small_packet raw_packet_new three_ports = 10"
    by (simp add: flood_vlan_of_def port one untagged)
  moreover have "{p. p \<noteq> 1 \<and> (\<exists>v. smap_find p (ss_ports three_ports) = Some v \<and> vp_valid v \<and> is_member_of_vlan 10 v)} = {2}"
    by (auto simp: three_ports_def smap_find_def is_member_of_vlan_def vlan_port_new_def split: if_splits)
  ultimately show ?thesis using flood_exactly_vlan [OF ok _ flood] flood port by (auto simp: hal_new_def)
qed

text \<open>C36. Flooding an untagged frame never aborts: for every frame longer than an Ethernet header, whatever the ports, the
  call returns.\<close>

theorem flood_returns:
  assumes "ports_ok (ss_ports sw)" "\<not> has_vlan_tag raw_pkt" "14 < length (pkt_data packet)" "length (pkt_data packet) < 2 ^ 16"
    and "\<And>n. length (fresh n) = n"
  shows "\<exists>sw' h'. flood_packet fresh packet raw_pkt (sw, h) = Inr (sw', h')"
  by (rule flood_packet_returns [OF assms])

theorem flood_returns_witness:
  "\<exists>sw' h'. flood_packet (\<lambda>n. replicate n 0) small_packet raw_packet_new (three_ports, hal_new) = Inr (sw', h')"
proof -
  have "ports_ok (ss_ports three_ports)"
    by (simp add: three_ports_def ports_ok_def smap_ok_def entry_ok_def vlan_port_ok_def vlan_port_new_def openflow_port_new_def)
  moreover have "14 < length (pkt_data small_packet)" "length (pkt_data small_packet) < 2 ^ 16" "\<not> has_vlan_tag raw_packet_new"
    by (simp_all add: small_packet_def packet_in_new_def of_message.defs of_message_packet_in.defs raw_packet_new_def)
  ultimately show ?thesis using flood_returns [of three_ports raw_packet_new small_packet "\<lambda>n. replicate n 0" hal_new] by auto
qed

end
