(* ===== verification/Packets_L4.thy ===== *)
theory Packets_L4
  imports Packets
begin

text \<open>
  TCP, UDP and ICMP packets and the factory (\<open>controller/utils/std_packet.cpp\<close>). DHCP packets are
  declared in the code but abort when they are read or written; IPv6 packets are never made by the
  factory. Sizes are added as numbers: a frame is shorter than 2 GiB.
\<close>

section \<open>TCP\<close>

record tcp_packet = ip_packet +
  tcp_src_port :: "16 word"
  tcp_dest_port :: "16 word"
  seq :: "32 word"
  ack :: "32 word"
  ns_flag :: bool
  cwr_flag :: bool
  ece_flag :: bool
  urg_flag :: bool
  ack_flag :: bool
  psh_flag :: bool
  rst_flag :: bool
  syn_flag :: bool
  fin_flag :: bool
  window_size :: "16 word"
  tcp_checksum :: "16 word"
  urgent_ptr :: "16 word"
  tcp_options :: view
  tcp_payload :: view

definition tcp_packet_clear :: "tcp_packet \<Rightarrow> tcp_packet res" where
  "tcp_packet_clear p = bindr (ip_packet_clear p) (\<lambda>q. bindr (view_clear (tcp_options p)) (\<lambda>opts.
     bindr (view_clear (tcp_payload p)) (\<lambda>payload. Inr (q\<lparr>packet_type := TCP_PACKET, protocol := 6, tcp_src_port := 0,
     tcp_dest_port := 0, seq := 0, ack := 0, ns_flag := False, cwr_flag := False, ece_flag := False, urg_flag := False,
     ack_flag := False, psh_flag := False, rst_flag := False, syn_flag := False, fin_flag := False, window_size := 14600,
     tcp_checksum := 0, urgent_ptr := 0, tcp_options := opts, tcp_payload := payload\<rparr>))))"

text \<open>The constructor sets the type, the protocol and the buffers; here \<open>unset\<close> is whatever the new object holds.\<close>

definition tcp_packet_new :: "tcp_packet \<Rightarrow> tcp_packet" where
  "tcp_packet_new unset = (ip_packet_construct unset)\<lparr>packet_type := TCP_PACKET, protocol := 6,
     tcp_options := view_empty, tcp_payload := view_empty\<rparr>"

definition flag_byte :: "bool \<Rightarrow> nat \<Rightarrow> byte" where
  "flag_byte b n = (if b then push_bit n 1 else 0)"

text \<open>The 20 bytes of the header with a given checksum; URG and the urgent pointer are not written.\<close>

definition tcp_header :: "tcp_packet \<Rightarrow> 16 word \<Rightarrow> byte list" where
  "tcp_header p checksum =
     be16 (tcp_src_port p) @ be16 (tcp_dest_port p) @ be32 (seq p) @ be32 (ack p)
     @ [push_bit 4 (of_nat (5 + view_size (tcp_options p) div 4)) OR flag_byte (ns_flag p) 0,
        flag_byte (cwr_flag p) 7 OR flag_byte (ece_flag p) 6 OR flag_byte (ack_flag p) 4 OR flag_byte (psh_flag p) 3
          OR flag_byte (rst_flag p) 2 OR flag_byte (syn_flag p) 1 OR flag_byte (fin_flag p) 0]
     @ be16 (window_size p) @ be16 checksum @ [0, 0]"

text \<open>The pseudo header of \<open>checksum_tcp\<close>, and the last byte of an odd size, which is added as it is.\<close>

definition tcp_pseudo_header :: "byte list \<Rightarrow> byte \<Rightarrow> nat \<Rightarrow> byte list" where
  "tcp_pseudo_header ip_hdr proto len = chunk 12 8 ip_hdr @ [0, proto] @ be16 (of_nat len)"

definition odd_last :: "byte list \<Rightarrow> 32 word" where
  "odd_last bs = (if odd (length bs) then ucast (last bs) else 0)"

definition checksum_tcp :: "byte list \<Rightarrow> byte list \<Rightarrow> byte list \<Rightarrow> 16 word" where
  "checksum_tcp ip_hdr tcp_hdr payload = ones_complement
     (sum_be16 (tcp_pseudo_header ip_hdr 6 (20 + length payload) @ blit 16 [0, 0] tcp_hdr)
      + sum_be16 payload + odd_last payload)"

text \<open>The checksum is written 36 bytes after the Ethernet header, which is where it belongs when there are no
  IP options.\<close>

definition tcp_serialize :: "tcp_packet \<Rightarrow> byte list res" where
  "tcp_serialize p =
     bindr (ip_serialize_special p (20 + view_size (tcp_options p) + view_size (tcp_payload p))) (\<lambda>hdr.
     bindr (copy_content (tcp_options p)) (\<lambda>opts.
     bindr (copy_content (tcp_payload p)) (\<lambda>data.
       let frame = hdr @ tcp_header p 0 @ opts @ data;
           checksum = checksum_tcp (drop (eth_hdr_len p) frame) (tcp_header p 0) (opts @ data)
       in Inr (blit (eth_hdr_len p + 36) (be16 checksum) frame))))"

text \<open>The options begin at \<open>sizeof(tcp_hdr)\<close>, the size of a pointer, 8. The size of the payload is what the header
  and the options leave of the IP payload.\<close>

definition tcp_deserialize :: "byte list \<Rightarrow> tcp_packet \<Rightarrow> (bool \<times> tcp_packet) res" where
  "tcp_deserialize input p =
     bindr (ip_deserialize input p) (\<lambda>(ok, p1).
       if \<not> ok \<or> view_size (ip_payload p1) < 20 then Inr (False, p1)
       else bindr (fetch 0 20 (view_mem (ip_payload p1))) (\<lambda>hdr.
         let data_offset = unat (drop_bit 4 (hdr ! 12));
             opts = (if 5 < data_offset then inherit_read_only 8 ((data_offset - 5) * 4) (view_mem (ip_payload p1)) else view_empty);
             data = (if data_offset * 4 < view_size (ip_payload p1)
               then inherit_read_only (data_offset * 4) (view_size (ip_payload p1) + 2 ^ 64 - view_size opts - 20) (view_mem (ip_payload p1))
               else tcp_payload p1)
         in Inr (True, p1\<lparr>tcp_src_port := of_be16 (chunk 0 2 hdr), tcp_dest_port := of_be16 (chunk 2 2 hdr),
           seq := of_be32 (chunk 4 4 hdr), ack := of_be32 (chunk 8 4 hdr),
           ns_flag := (hdr ! 12 AND 0x01 \<noteq> 0), cwr_flag := (hdr ! 13 AND 0x80 \<noteq> 0), ece_flag := (hdr ! 13 AND 0x40 \<noteq> 0),
           urg_flag := (hdr ! 13 AND 0x20 \<noteq> 0), ack_flag := (hdr ! 13 AND 0x10 \<noteq> 0), psh_flag := (hdr ! 13 AND 0x08 \<noteq> 0),
           rst_flag := (hdr ! 13 AND 0x04 \<noteq> 0), syn_flag := (hdr ! 13 AND 0x02 \<noteq> 0), fin_flag := (hdr ! 13 AND 0x01 \<noteq> 0),
           window_size := of_be16 (chunk 14 2 hdr), tcp_checksum := of_be16 (chunk 16 2 hdr),
           urgent_ptr := of_be16 (chunk 18 2 hdr), tcp_options := opts, tcp_payload := data\<rparr>)))"

definition tcp_to_string :: "tcp_packet \<Rightarrow> string" where
  "tcp_to_string p = ip_to_string_text p @ nl @ ''src port        : '' @ dec (unat (tcp_src_port p))
     @ nl @ ''dest port       : '' @ dec (unat (tcp_dest_port p)) @ nl @ ''seq             : '' @ dec (unat (seq p))
     @ nl @ ''ack             : '' @ dec (unat (ack p)) @ nl @ ''flags           : ''
     @ (if ns_flag p then ''NS '' else []) @ (if cwr_flag p then ''CWR '' else []) @ (if ece_flag p then ''ECE '' else [])
     @ (if urg_flag p then ''URG '' else []) @ (if ack_flag p then ''ACK '' else []) @ (if psh_flag p then ''PSH '' else [])
     @ (if rst_flag p then ''RST '' else []) @ (if syn_flag p then ''SYN '' else []) @ (if fin_flag p then ''FIN '' else [])
     @ nl @ ''checksum        : '' @ dec (unat (tcp_checksum p)) @ nl @ ''window size     : '' @ dec (unat (window_size p))
     @ '' bytes'' @ nl @ ''options size    : '' @ dec (view_size (tcp_options p))
     @ '' bytes'' @ nl @ ''payload size    : '' @ dec (view_size (tcp_payload p)) @ '' bytes''"

section \<open>UDP\<close>

record udp_packet = ip_packet +
  udp_src_port :: "16 word"
  udp_dest_port :: "16 word"
  udp_checksum :: "16 word"
  udp_payload :: view

definition udp_packet_clear :: "udp_packet \<Rightarrow> udp_packet res" where
  "udp_packet_clear p = bindr (ip_packet_clear p) (\<lambda>q. bindr (view_clear (udp_payload p)) (\<lambda>payload.
     Inr (q\<lparr>packet_type := UDP_PACKET, udp_src_port := 0, udp_dest_port := 0,
     udp_checksum := 0, udp_payload := payload, protocol := 17\<rparr>)))"

definition udp_packet_new :: "udp_packet \<Rightarrow> udp_packet" where
  "udp_packet_new unset = (ip_packet_construct unset)\<lparr>packet_type := UDP_PACKET, protocol := 17, udp_payload := view_empty\<rparr>"

text \<open>The checksum is left zero, which means none.\<close>

definition udp_serialize :: "udp_packet \<Rightarrow> byte list res" where
  "udp_serialize p =
     bindr (ip_serialize_special p (8 + view_size (udp_payload p))) (\<lambda>hdr.
     bindr (copy_content (udp_payload p)) (\<lambda>data.
       Inr (hdr @ be16 (udp_src_port p) @ be16 (udp_dest_port p) @ be16 (of_nat (8 + view_size (udp_payload p)))
         @ be16 0 @ data)))"

definition udp_deserialize :: "byte list \<Rightarrow> udp_packet \<Rightarrow> (bool \<times> udp_packet) res" where
  "udp_deserialize input p =
     bindr (ip_deserialize input p) (\<lambda>(ok, p1).
       if \<not> ok \<or> view_size (ip_payload p1) < 8 then Inr (False, p1)
       else bindr (fetch 0 8 (view_mem (ip_payload p1))) (\<lambda>hdr.
         let p2 = p1\<lparr>udp_src_port := of_be16 (chunk 0 2 hdr), udp_dest_port := of_be16 (chunk 2 2 hdr),
                    udp_checksum := of_be16 (chunk 6 2 hdr)\<rparr> in
         if unat (of_be16 (chunk 4 2 hdr)) \<noteq> view_size (ip_payload p1) then Inr (False, p2)
         else if 8 < view_size (ip_payload p1)
         then Inr (True, p2\<lparr>udp_payload := inherit_read_only 8 (view_size (ip_payload p1) - 8) (view_mem (ip_payload p1))\<rparr>)
         else Inr (True, p2)))"

definition udp_to_string :: "udp_packet \<Rightarrow> string" where
  "udp_to_string p = ip_to_string_text p @ nl @ ''src port        : '' @ dec (unat (udp_src_port p))
     @ nl @ ''dest port       : '' @ dec (unat (udp_dest_port p)) @ nl @ ''udp checksum    : '' @ dec (unat (udp_checksum p))
     @ nl @ ''udp payload size: '' @ dec (view_size (udp_payload p))"

section \<open>ICMP\<close>

record icmp_packet = ip_packet +
  icmp_pkt_type :: byte
  icmp_code :: byte
  icmp_checksum :: "16 word"
  icmp_hdr_rest :: "32 word"
  icmp_data :: view

definition icmp_packet_clear :: "icmp_packet \<Rightarrow> icmp_packet res" where
  "icmp_packet_clear p = bindr (ip_packet_clear p) (\<lambda>q. bindr (view_clear (icmp_data p)) (\<lambda>data.
     Inr (q\<lparr>protocol := 1, packet_type := ICMP_PACKET, icmp_pkt_type := 0, icmp_code := 0,
     icmp_checksum := 0, icmp_hdr_rest := 0, icmp_data := data\<rparr>)))"

definition icmp_packet_new :: "icmp_packet \<Rightarrow> icmp_packet" where
  "icmp_packet_new unset = (ip_packet_construct unset)\<lparr>packet_type := ICMP_PACKET, protocol := 1, icmp_data := view_empty\<rparr>"

text \<open>The words are read in the order of the host; the last byte of an odd size is added as the high byte.\<close>

fun sum_le16 :: "byte list \<Rightarrow> 32 word" where
  "sum_le16 (a # b # bs) = ucast (of_be16 [b, a]) + sum_le16 bs"
| "sum_le16 _ = 0"

definition checksum_icmp :: "byte list \<Rightarrow> 16 word" where
  "checksum_icmp msg = ones_complement
     (let bs = blit 2 [0, 0] msg in sum_le16 bs + (if odd (length bs) then push_bit 8 (ucast (last bs)) else 0))"

definition icmp_header :: "icmp_packet \<Rightarrow> byte list" where
  "icmp_header p = [icmp_pkt_type p, icmp_code p, 0, 0] @ be32 (icmp_hdr_rest p)"

text \<open>The checksum is stored low byte first.\<close>

definition icmp_message :: "icmp_packet \<Rightarrow> byte list \<Rightarrow> byte list" where
  "icmp_message p data = (let msg = icmp_header p @ data in blit 2 (rev (be16 (checksum_icmp msg))) msg)"

definition icmp_serialize :: "icmp_packet \<Rightarrow> byte list res" where
  "icmp_serialize p =
     bindr (ip_serialize_special p (8 + view_size (icmp_data p))) (\<lambda>hdr.
     bindr (copy_content (icmp_data p)) (\<lambda>data. Inr (hdr @ icmp_message p data)))"

definition icmp_deserialize :: "byte list \<Rightarrow> icmp_packet \<Rightarrow> (bool \<times> icmp_packet) res" where
  "icmp_deserialize input p =
     bindr (ip_deserialize input p) (\<lambda>(ok, p1).
       if \<not> ok \<or> view_size (ip_payload p1) < 8 then Inr (False, p1)
       else bindr (fetch 0 8 (view_mem (ip_payload p1))) (\<lambda>hdr.
         let p2 = p1\<lparr>icmp_pkt_type := hdr ! 0, icmp_code := hdr ! 1, icmp_checksum := of_be16 (chunk 2 2 hdr),
                    icmp_hdr_rest := of_be32 (chunk 4 4 hdr)\<rparr> in
         if 8 < view_size (ip_payload p1)
         then Inr (True, p2\<lparr>icmp_data := inherit_read_only 8 (view_size (ip_payload p1) - 8) (view_mem (ip_payload p1))\<rparr>)
         else Inr (True, p2\<lparr>icmp_data := view_empty\<rparr>)))"

definition icmp_to_string :: "icmp_packet \<Rightarrow> string" where
  "icmp_to_string p = ip_to_string_text p @ nl @ ''ICMP packet type: ''
     @ (if icmp_pkt_type p = 0 then ''echo reply'' else if icmp_pkt_type p = 1 \<or> icmp_pkt_type p = 2 then ''reserved''
        else if icmp_pkt_type p = 3 then ''destination unreachable'' else if icmp_pkt_type p = 8 then ''echo request'' else ''other'')
     @ nl @ ''code: '' @ dec (unat (icmp_code p))"

section \<open>The factory\<close>

datatype std_packet = Arp arp_packet | Icmp icmp_packet | Tcp tcp_packet | Udp udp_packet

text \<open>What a freshly allocated object holds in the fields that its constructor does not set.\<close>

record unset_fields =
  unset_request :: bool
  unset_icmp :: icmp_packet
  unset_tcp :: tcp_packet
  unset_udp :: udp_packet

definition keep_if :: "('a \<Rightarrow> std_packet) \<Rightarrow> bool \<times> 'a \<Rightarrow> std_packet option res" where
  "keep_if f r = Inr (if fst r then Some (f (snd r)) else None)"

definition instantiate :: "unset_fields \<Rightarrow> byte list \<Rightarrow> std_packet option res" where
  "instantiate u data =
    (case raw_deserialize data raw_packet_new of (ok, finder) \<Rightarrow>
      if \<not> ok then Inr None
      else case packet_type finder of
          ARP_PACKET \<Rightarrow> keep_if Arp (arp_deserialize data (arp_packet_new (unset_request u)))
        | ICMP_PACKET \<Rightarrow> bindr (icmp_deserialize data (icmp_packet_new (unset_icmp u))) (keep_if Icmp)
        | TCP_PACKET \<Rightarrow> bindr (tcp_deserialize data (tcp_packet_new (unset_tcp u))) (keep_if Tcp)
        | UDP_PACKET \<Rightarrow> bindr (udp_deserialize data (udp_packet_new (unset_udp u))) (keep_if Udp)
        | _ \<Rightarrow> Inr None)"

end
