(* ===== verification/Packet_Filters.thy ===== *)
theory Packet_Filters
  imports Forwarding Packets_L4
begin

text \<open>
  The filters of the controller that a packet from the switch goes through: the CAM filter (\<open>controller/services/cam.cpp\<close>,
  with its lookup of the port), the ARP filter with its queries (\<open>controller/services/arp.cpp\<close>), and the flow policy checker,
  run by a round of the packet processor. The surroundings of a call are the time, the random number that the flow service may
  take, what uncleared buffers hold and what fresh packet objects hold in the fields that are not set.
\<close>

record surroundings =
  env_now :: int
  env_random :: "64 word"
  env_fresh :: "nat \<Rightarrow> byte list"
  env_unset :: unset_fields

section \<open>CAM\<close>

definition run_cam_filter :: "surroundings \<Rightarrow> of_message_packet_in \<Rightarrow> raw_packet \<Rightarrow> controller \<Rightarrow> (bool \<times> controller) res" where
  "run_cam_filter env packet raw_pkt c =
    (case svc_cam c of None \<Rightarrow> Inr (False, c)
     | Some cam \<Rightarrow>
        if \<not> cam_initialized cam then Inr (False, c)
        else case svc_switch c of None \<Rightarrow> Inr (False, c)
        | Some sw \<Rightarrow> (case get_switch_port (pi_in_port packet) sw of ((found, v), sw') \<Rightarrow>
            case cam_filter_packet (env_now env) (if found then Some v else None) (pi_in_port packet) raw_pkt cam of (consumed, cam') \<Rightarrow>
              Inr (consumed, c\<lparr>svc_switch := Some sw', svc_cam := Some cam'\<rparr>)))"

section \<open>ARP queries\<close>

definition arp_query_packet :: "bool \<Rightarrow> mac_address \<Rightarrow> ip_address \<Rightarrow> ip_address \<Rightarrow> arp_packet" where
  "arp_query_packet unset_flag mac src dest = (arp_packet_new unset_flag)\<lparr>src_mac := mac, sender_mac := mac,
     dest_mac := MAC 255 255 255 255 255 255, receiver_mac := MAC 0 0 0 0 0 0, arp_request := True, arp_src_ip := src,
     arp_dest_ip := dest\<rparr>"

definition send_arp_query :: "surroundings \<Rightarrow> ip_address \<Rightarrow> 16 word \<Rightarrow> controller \<Rightarrow> controller res" where
  "send_arp_query env dest vlan c =
    (case svc_arp c of None \<Rightarrow> Inr c
     | Some a \<Rightarrow>
        if \<not> arp_initialized a then Inr c
        else if ip_is_broadcast dest then Inr c
        else if ip_is_nil dest then Inr c
        else case svc_switch c of None \<Rightarrow> Inr c
        | Some sw \<Rightarrow>
            if dest = switch_ip_address sw then Inr c
            else bindr (arp_serialize (arp_query_packet (unset_request (env_unset env)) (get_switch_mac sw) (switch_ip_address sw) dest)) (\<lambda>query.
              bindr (flood_vlan (env_fresh env) query vlan sw (ctl_hal c)) (\<lambda>h.
                Inr (c\<lparr>ctl_hal := h, svc_arp := Some (a\<lparr>requests_made := requests_made a + 1\<rparr>)\<rparr>))))"

text \<open>A caller that waits: what happens until it stops waiting is the argument \<open>wait\<close>.\<close>

definition send_arp_query_blocking :: "surroundings \<Rightarrow> (controller \<Rightarrow> controller) \<Rightarrow> ip_address \<Rightarrow> 16 word \<Rightarrow> int \<Rightarrow> controller
    \<Rightarrow> (mac_address \<times> controller) res" where
  "send_arp_query_blocking env wait dest vlan wait_ms c =
    (case svc_arp c of None \<Rightarrow> Inr (mac_nil, c)
     | Some a \<Rightarrow>
        if \<not> arp_initialized a then Inr (mac_nil, c)
        else if wait_ms < 0 then Inr (mac_nil, c)
        else case query_for dest a of (q, a1) \<Rightarrow>
          bindr (send_arp_query env dest vlan (c\<lparr>svc_arp := Some a1\<rparr>)) (\<lambda>c1.
            case svc_arp (wait c1) of None \<Rightarrow> Inr (mac_nil, wait c1)
            | Some a2 \<Rightarrow> (case query_result dest q a2 of (mac, a3) \<Rightarrow> Inr (mac, (wait c1)\<lparr>svc_arp := Some a3\<rparr>))))"

section \<open>The ARP filter\<close>

text \<open>The address that a packet other than ARP is sent to, if it can be parsed.\<close>

definition ipv4_destination :: "unset_fields \<Rightarrow> raw_packet \<Rightarrow> byte list \<Rightarrow> ip_address res" where
  "ipv4_destination u raw_pkt bytes =
    (case packet_type raw_pkt of
       ICMP_PACKET \<Rightarrow> bindr (icmp_deserialize bytes (icmp_packet_new (unset_icmp u))) (\<lambda>(ok, p). Inr (if ok then dest_ip p else ip_nil))
     | TCP_PACKET \<Rightarrow> bindr (tcp_deserialize bytes (tcp_packet_new (unset_tcp u))) (\<lambda>(ok, p). Inr (if ok then dest_ip p else ip_nil))
     | UDP_PACKET \<Rightarrow> bindr (udp_deserialize bytes (udp_packet_new (unset_udp u))) (\<lambda>(ok, p). Inr (if ok then dest_ip p else ip_nil))
     | _ \<Rightarrow> Inr ip_nil)"

definition arp_note_destination :: "surroundings \<Rightarrow> of_message_packet_in \<Rightarrow> raw_packet \<Rightarrow> controller \<Rightarrow> (bool \<times> controller) res" where
  "arp_note_destination env packet raw_pkt c =
     bindr (ipv4_destination (env_unset env) raw_pkt (pkt_data packet)) (\<lambda>dest.
       if ip_is_nil dest then Inr (False, c)
       else case (svc_switch c, svc_arp c) of
         (Some sw, Some a) \<Rightarrow> (case get_vlan_from_packet packet raw_pkt sw of (vlan, sw') \<Rightarrow>
            let c1 = c\<lparr>svc_switch := Some sw'\<rparr> in
            if vlan = - 1 then Inr (False, c1)
            else bindr (arp_service_lookup_mac (env_now env) dest (word_of_int vlan) a) (\<lambda>(mac, a').
              let c2 = c1\<lparr>svc_arp := Some a'\<rparr> in
              if mac_is_nil mac then bindr (send_arp_query env dest (word_of_int vlan) c2) (\<lambda>c3. Inr (False, c3))
              else Inr (False, c2)))
       | _ \<Rightarrow> Inr (False, c))"

text \<open>Without the flow policy checker a flow is not accelerated and a packet is not forwarded.\<close>

definition arp_accelerate_flow :: "surroundings \<Rightarrow> mac_address \<Rightarrow> 16 word \<Rightarrow> 16 word \<Rightarrow> controller \<Rightarrow> (bool \<times> controller) res" where
  "arp_accelerate_flow env mac vlan port c =
    (if svc_policy c = None then Inr (False, c) else policy_accelerate_flow (env_now env) (env_random env) mac vlan port c)"

definition arp_forward_packet :: "surroundings \<Rightarrow> of_message_packet_in \<Rightarrow> raw_packet \<Rightarrow> controller \<Rightarrow> (bool \<times> controller) res" where
  "arp_forward_packet env packet raw_pkt c =
    (if svc_policy c = None then Inr (False, c) else policy_forward_packet (env_fresh env) packet raw_pkt c)"

text \<open>The VLAN of an untagged packet is looked up through the pointer to the switch state, also when that is null.\<close>

definition vlan_of_packet :: "of_message_packet_in \<Rightarrow> raw_packet \<Rightarrow> controller \<Rightarrow> (int \<times> controller) res" where
  "vlan_of_packet packet raw_pkt c =
    (case svc_switch c of None \<Rightarrow> if has_vlan_tag raw_pkt then Inr (uint (get_vlan_id raw_pkt), c) else Inl OutOfBounds
     | Some sw \<Rightarrow> (case get_vlan_from_packet packet raw_pkt sw of (vlan, sw') \<Rightarrow> Inr (vlan, c\<lparr>svc_switch := Some sw'\<rparr>)))"

definition arp_learn :: "surroundings \<Rightarrow> arp_packet \<Rightarrow> int \<Rightarrow> controller \<Rightarrow> controller res" where
  "arp_learn env p vlan c =
    (case svc_arp c of None \<Rightarrow> Inr c
     | Some a \<Rightarrow> bindr (arp_service_insert (env_now env) (src_mac p) (arp_src_ip p) (word_of_int vlan) False a) (\<lambda>a'.
         Inr (c\<lparr>svc_arp := Some a'\<rparr>)))"

definition arp_response :: "bool \<Rightarrow> int \<Rightarrow> mac_address \<Rightarrow> ip_address \<Rightarrow> arp_packet \<Rightarrow> arp_packet" where
  "arp_response unset_flag vlan mac ip p = (arp_packet_new unset_flag)\<lparr>has_vlan_tag := True, pkt_vlan_id := word_of_int vlan,
     src_mac := mac, dest_mac := src_mac p, sender_mac := mac, receiver_mac := src_mac p, arp_request := False,
     arp_src_ip := ip, arp_dest_ip := arp_src_ip p\<rparr>"

definition count_serviced :: "controller \<Rightarrow> controller" where
  "count_serviced c = c\<lparr>svc_arp := map_option (\<lambda>a. a\<lparr>requests_serviced := requests_serviced a + 1\<rparr>) (svc_arp c)\<rparr>"

definition run_arp_filter :: "surroundings \<Rightarrow> of_message_packet_in \<Rightarrow> raw_packet \<Rightarrow> controller \<Rightarrow> (bool \<times> controller) res" where
  "run_arp_filter env packet raw_pkt c =
    (case svc_arp c of None \<Rightarrow> Inr (False, c)
     | Some a \<Rightarrow>
        if \<not> arp_initialized a then Inr (False, c)
        else if packet_type raw_pkt \<noteq> ARP_PACKET then arp_note_destination env packet raw_pkt c
        else case arp_deserialize (pkt_data packet) (arp_packet_new (unset_request (env_unset env))) of (ok, p) \<Rightarrow>
          if \<not> ok then Inr (False, c)
          else
            let ip = (case svc_switch c of None \<Rightarrow> ip_nil | Some sw \<Rightarrow> switch_ip_address sw);
                mac = (case svc_switch c of None \<Rightarrow> mac_nil | Some sw \<Rightarrow> get_switch_mac sw) in
            if ip_is_nil (arp_dest_ip p) then Inr (False, c)
            else if (\<not> ip_is_nil ip \<and> arp_src_ip p = ip) \<or> (\<not> mac_is_nil mac \<and> src_mac p = mac) then Inr (True, c)
            else if arp_dest_ip p \<noteq> ip then
              bindr (vlan_of_packet packet raw_pkt c) (\<lambda>(vlan, c1).
                if vlan = - 1 \<or> vlan = 0 then Inr (False, c1)
                else bindr (arp_learn env p vlan c1) (\<lambda>c2.
                  bindr (arp_accelerate_flow env (src_mac p) (word_of_int vlan) (pi_in_port packet) c2) (\<lambda>(ok2, c3).
                  bindr (arp_forward_packet env packet raw_pkt c3) (\<lambda>(ok3, c4). Inr (True, c4)))))
            else if \<not> arp_request p then
              bindr (vlan_of_packet packet raw_pkt c) (\<lambda>(vlan, c1).
                if vlan = - 1 then Inr (False, c1)
                else bindr (arp_learn env p vlan c1) (\<lambda>c2.
                  let c3 = c2\<lparr>svc_arp := map_option (query_answered (arp_src_ip p) (src_mac p)) (svc_arp c2)\<rparr> in
                  bindr (arp_accelerate_flow env (src_mac p) (word_of_int vlan) (pi_in_port packet) c3) (\<lambda>(ok2, c4). Inr (True, c4))))
            else
              bindr (vlan_of_packet packet raw_pkt c) (\<lambda>(vlan, c1).
                if vlan = - 1 then Inr (True, c1)
                else bindr (arp_learn env p vlan c1) (\<lambda>c2.
                  bindr (arp_serialize (arp_response (unset_request (env_unset env)) vlan mac ip p)) (\<lambda>response.
                  bindr (send_packet_to_port (env_fresh env) response (pi_in_port packet) (ctl_hal c2)) (\<lambda>(ok2, h).
                    let c3 = count_serviced (c2\<lparr>ctl_hal := h\<rparr>) in
                    bindr (arp_accelerate_flow env (src_mac p) (word_of_int vlan) (pi_in_port packet) c3) (\<lambda>(ok3, c4). Inr (True, c4)))))))"

section \<open>The chain\<close>

text \<open>The filter objects by number; other filters let every packet pass.\<close>

definition run_filter :: "surroundings \<Rightarrow> nat \<Rightarrow> of_message_packet_in \<Rightarrow> raw_packet \<Rightarrow> controller \<Rightarrow> (bool \<times> controller) res" where
  "run_filter env f packet raw_pkt c =
    (if f = 0 then run_cam_filter env packet raw_pkt c
     else if f = 1 then run_arp_filter env packet raw_pkt c
     else if f = 2 then policy_filter_packet (env_now env) (env_random env) (env_fresh env) packet raw_pkt c
     else Inr (False, c))"

text \<open>The three filters in the order of their classes, however they were registered.\<close>

definition chain :: "(nat \<times> 32 word) list" where
  "chain = [(0, priority_code CAM), (1, priority_code ARP), (2, priority_code FLOW_POLICY_CHECKER)]"

lemma chain_registered:
  assumes "mset regs = mset [(0, CAM), (1, ARP), (2, FLOW_POLICY_CHECKER)]"
  shows "packet_filters (fold (\<lambda>(f, c). register_filter f c) regs (processor_clear p)) = chain"
proof -
  have fold: "packet_filters (fold (\<lambda>(f, c). register_filter f c) regs p') = fold (\<lambda>(f, q). insert_filter f q)
      (map (\<lambda>(f, c). (f, priority_code c)) regs) (packet_filters p')" for p'
    by (induction regs arbitrary: p') (auto simp: register_filter_def)
  have "mset (map (\<lambda>(f, c). (f, priority_code c)) regs) = mset chain"
    using arg_cong [OF assms, of "image_mset (\<lambda>(f, c). (f, priority_code c))"] by (simp add: chain_def)
  then have "sort_key snd (map (\<lambda>(f, c). (f, priority_code c)) regs) = chain"
  proof (rule sort_key_inj_key_eq)
    have "set (map (\<lambda>(f, c). (f, priority_code c)) regs) = set chain"
      using \<open>mset (map (\<lambda>(f, c). (f, priority_code c)) regs) = mset chain\<close> by (rule mset_eq_setD)
    then show "inj_on snd (set (map (\<lambda>(f, c). (f, priority_code c)) regs))" by (simp add: chain_def)
  qed (simp add: chain_def)
  then show ?thesis using register_all [of "[]"] by (simp add: fold processor_clear_def)
qed

text \<open>C2. A packet with the wrong tag for its port goes nowhere: whatever the order in which the services have registered
  their filters, when the switch hands up a packet on a valid port and the port does not carry it (a tag of another VLAN, a
  tag on an untagged port, or no tag on a tagged port), the round consumes it; nothing is sent, and no CAM table, ARP table
  or flow table changes.\<close>

theorem wrong_tag_dropped:
  assumes "mset regs = mset [(0, CAM), (1, ARP), (2, FLOW_POLICY_CHECKER)]"
    and "p = (fold (\<lambda>(f, c). register_filter f c) regs (processor_clear p0))\<lparr>packet_queue := Some packet # q\<rparr>"
    and "raw' = snd (raw_deserialize (pkt_data packet) raw_pkt)"
    and "svc_cam c = Some cam" "cam_initialized cam" "svc_switch c = Some sw" "ports_ok (ss_ports sw)"
    and "smap_find (pi_in_port packet) (ss_ports sw) = Some v" "vp_valid v" "\<not> carries v raw'"
  shows "processing_round (run_filter env) (p, raw_pkt, c) = Some (Inr (p\<lparr>packet_queue := q\<rparr>, raw', c))"
proof -
  have m: "smap_ok (ss_ports sw)" using assms(7) by (simp add: ports_ok_def)
  have maybe: "maybe_create_port (pi_in_port packet) (ss_ports sw) = ss_ports sw" using assms(8) by (simp add: maybe_create_port_def)
  have g: "get_switch_port (pi_in_port packet) sw = ((True, v), sw)"
    using assms(8,9) smap_put_same [OF m assms(8)] by (simp add: get_switch_port_def maybe port_at_def Let_def)
  have ok: "vlan_port_ok v" using ports_ok_find [OF assms(7,8)] by (simp add: entry_ok_def)
  then have "Min (vlan_membership v) \<in> vlan_membership v" if "vlan_membership v \<noteq> {}" using that by (simp add: vlan_port_ok_def)
  then have cam: "cam_filter_packet (env_now env) (Some v) (pi_in_port packet) raw' cam = (True, cam)"
    using assms(5,10) by (auto simp: carries_def packet_vlan_def cam_filter_packet_def is_member_of_vlan_def split: if_splits)
  have "c\<lparr>svc_switch := Some sw, svc_cam := Some cam\<rparr> = c" using assms(4,6) by simp
  then have "run_filter env 0 packet raw' c = Inr (True, c)"
    by (simp add: run_filter_def run_cam_filter_def assms(4-6) g cam)
  then have "run_filters (run_filter env) packet raw' chain c = Inr (True, c)" by (simp add: chain_def)
  moreover have "packet_filters p = chain" "packet_queue p = Some packet # q"
    using chain_registered [OF assms(1), of p0] by (simp_all add: assms(2))
  ultimately show ?thesis by (simp add: processing_round_def assms(3) Let_def)
qed

definition some_controller :: controller where
  "some_controller = \<lparr>svc_switch = Some three_ports, svc_cam = Some \<lparr>cam_initialized = True, cam_tables = []\<rparr>, svc_arp = None,
     svc_flows = None, svc_policy = Some True, svc_stats = None, ctl_hal = hal_new\<lparr>switch_ready := True\<rparr>\<rparr>"

definition tagged_packet :: of_message_packet_in where
  "tagged_packet = packet_in_new\<lparr>pi_in_port := 1, pkt_data := replicate 12 7 @ [0x81, 0, 0, 20, 8, 0] @ replicate 4 7\<rparr>"

lemma three_ports_ok: "ports_ok (ss_ports three_ports)"
  by (simp add: three_ports_def ports_ok_def smap_ok_def entry_ok_def vlan_port_ok_def vlan_port_new_def openflow_port_new_def)

theorem wrong_tag_dropped_witness:
  "\<forall>env. \<exists>p raw'. processing_round (run_filter env) (p\<lparr>packet_queue := [Some tagged_packet]\<rparr>, raw_packet_new, some_controller)
    = Some (Inr (p\<lparr>packet_queue := []\<rparr>, raw', some_controller)) \<and> packet_filters p = chain"
proof
  fix env
  let ?regs = "[(2, FLOW_POLICY_CHECKER), (0, CAM), (1, ARP)]"
  let ?p = "fold (\<lambda>(f, c). register_filter f c) ?regs (processor_clear processor_new)"
  let ?raw = "snd (raw_deserialize (pkt_data tagged_packet) raw_packet_new)"
  have regs: "mset ?regs = mset [(0, CAM), (1, ARP), (2, FLOW_POLICY_CHECKER)]" by simp
  have "has_vlan_tag ?raw"
    by (simp add: tagged_packet_def packet_in_new_def of_message.defs of_message_packet_in.defs raw_deserialize_def
        raw_packet_new_def field_simps_rules Let_def) (simp add: chunk_def of_be16_def of_bytes_def)
  moreover have "smap_find 1 (ss_ports three_ports) = Some (vlan_port_new\<lparr>vp_valid := True, vlan_membership := {10},
      vp_port := openflow_port_new\<lparr>port_number := 1\<rparr>\<rparr>)" by (simp add: three_ports_def smap_find_def)
  moreover have "pi_in_port tagged_packet = 1" by (simp add: tagged_packet_def packet_in_new_def of_message.defs of_message_packet_in.defs)
  ultimately show "\<exists>p raw'. processing_round (run_filter env) (p\<lparr>packet_queue := [Some tagged_packet]\<rparr>, raw_packet_new, some_controller)
    = Some (Inr (p\<lparr>packet_queue := []\<rparr>, raw', some_controller)) \<and> packet_filters p = chain"
    using wrong_tag_dropped [OF regs refl refl, where c = some_controller and cam = "\<lparr>cam_initialized = True, cam_tables = []\<rparr>" and sw = three_ports
        and packet = tagged_packet and v = "vlan_port_new\<lparr>vp_valid := True, vlan_membership := {10}, vp_port := openflow_port_new\<lparr>port_number := 1\<rparr>\<rparr>"
        and raw_pkt = raw_packet_new and env = env and ?p0.0 = processor_new and q = "[]"]
      chain_registered [OF regs, of processor_new] three_ports_ok
    by (simp add: some_controller_def carries_def vlan_port_new_def) blast
qed

section \<open>ARP requests to the controller\<close>

lemma new_transactions_appends: "\<exists>more. pending_transactions (new_transactions fs fs' h) = pending_transactions h @ more"
  by (auto simp: new_transactions_def split: option.splits)

lemma call_flow_service_appends:
  "call_flow_service f c = Inr (r, c') \<Longrightarrow> \<exists>more. pending_transactions (ctl_hal c') = pending_transactions (ctl_hal c) @ more"
  using new_transactions_appends by (auto simp: call_flow_service_def bindr_Inr_iff)

lemma accelerate_appends:
  "arp_accelerate_flow env mac vlan port c = Inr (ok, c') \<Longrightarrow>
    \<exists>more. pending_transactions (ctl_hal c') = pending_transactions (ctl_hal c) @ more"
  by (auto simp: arp_accelerate_flow_def policy_accelerate_flow_def dest: call_flow_service_appends split: if_splits)

lemma arp_response_bytes: "\<exists>bs. arp_serialize (arp_response f vlan mac ip p) = Inr bs \<and> of_be16 (chunk 12 2 bs) = 0x8100"
  by (simp add: arp_serialize_def arp_response_def arp_packet_new_def raw_serialize_def raw_packet_new_def raw_packet.defs arp_packet.defs
      field_simps_rules)

lemma vlan_of_packet_hal: "vlan_of_packet packet raw_pkt c = Inr (vlan, c') \<Longrightarrow> ctl_hal c' = ctl_hal c"
  by (auto simp: vlan_of_packet_def split: option.splits if_splits prod.splits)

lemma arp_learn_hal: "arp_learn env p vlan c = Inr c' \<Longrightarrow> ctl_hal c' = ctl_hal c"
  by (auto simp: arp_learn_def bindr_Inr_iff split: option.splits)

lemma arp_request_step:
  assumes "svc_arp c = Some a" "arp_initialized a" "svc_switch c = Some sw" "packet_type raw_pkt = ARP_PACKET"
    and "arp_deserialize (pkt_data packet) (arp_packet_new (unset_request (env_unset env))) = (True, p)" "arp_request p"
    and "arp_dest_ip p = switch_ip_address sw" "\<not> ip_is_nil (switch_ip_address sw)" "arp_src_ip p \<noteq> switch_ip_address sw"
    and "mac_is_nil (get_switch_mac sw) \<or> src_mac p \<noteq> get_switch_mac sw"
    and "run_arp_filter env packet raw_pkt c = Inr (consumed, c')"
  obtains vlan c1 where "vlan_of_packet packet raw_pkt c = Inr (vlan, c1)" "consumed"
    "vlan = - 1 \<and> c' = c1 \<or> vlan \<noteq> - 1 \<and> (\<exists>c2 response ok2 h ok3. arp_learn env p vlan c1 = Inr c2
      \<and> arp_serialize (arp_response (unset_request (env_unset env)) vlan (get_switch_mac sw) (switch_ip_address sw) p) = Inr response
      \<and> send_packet_to_port (env_fresh env) response (pi_in_port packet) (ctl_hal c2) = Inr (ok2, h)
      \<and> arp_accelerate_flow env (src_mac p) (word_of_int vlan) (pi_in_port packet) (count_serviced (c2\<lparr>ctl_hal := h\<rparr>)) = Inr (ok3, c'))"
proof -
  have eq: "run_arp_filter env packet raw_pkt c = bindr (vlan_of_packet packet raw_pkt c) (\<lambda>(vlan, c1).
      if vlan = - 1 then Inr (True, c1)
      else bindr (arp_learn env p vlan c1) (\<lambda>c2.
        bindr (arp_serialize (arp_response (unset_request (env_unset env)) vlan (get_switch_mac sw) (switch_ip_address sw) p)) (\<lambda>response.
        bindr (send_packet_to_port (env_fresh env) response (pi_in_port packet) (ctl_hal c2)) (\<lambda>(ok2, h).
          bindr (arp_accelerate_flow env (src_mac p) (word_of_int vlan) (pi_in_port packet) (count_serviced (c2\<lparr>ctl_hal := h\<rparr>)))
            (\<lambda>(ok3, c4). Inr (True, c4))))))"
    unfolding run_arp_filter_def using assms(1-10) by (auto simp: Let_def cong: if_cong)
  obtain vlan c1 where 1: "vlan_of_packet packet raw_pkt c = Inr (vlan, c1)"
    using assms(11) unfolding eq bindr_Inr_iff by auto
  show thesis
  proof (cases "vlan = - 1")
    case True
    then show ?thesis using that [OF 1] assms(11) unfolding eq by (simp add: 1)
  next
    case False
    then show ?thesis using that [OF 1] assms(11) unfolding eq by (auto simp: 1 bindr_Inr_iff)
  qed
qed

text \<open>C25. An ARP request for the address of the controller is answered: the packet is consumed, and unless its VLAN cannot be
  told, one frame is sent, on the port that the request came from and on no other: the ARP reply with the addresses of the
  controller, to the sender. The frame carries a VLAN tag whatever the port is, also when the request had none.\<close>

theorem arp_request_answered:
  assumes "svc_arp c = Some a" "arp_initialized a" "svc_switch c = Some sw" "packet_type raw_pkt = ARP_PACKET"
    and "arp_deserialize (pkt_data packet) (arp_packet_new (unset_request (env_unset env))) = (True, p)" "arp_request p"
    and "arp_dest_ip p = switch_ip_address sw" "\<not> ip_is_nil (switch_ip_address sw)" "arp_src_ip p \<noteq> switch_ip_address sw"
    and "mac_is_nil (get_switch_mac sw) \<or> src_mac p \<noteq> get_switch_mac sw" "switch_ready (ctl_hal c)"
    and "run_arp_filter env packet raw_pkt c = Inr (consumed, c')" "get_vlan_from_packet packet raw_pkt sw = (vlan, sw')"
  shows "consumed \<and> (if vlan = - 1 then ctl_hal c' = ctl_hal c
    else \<exists>t bs more. pending_transactions (ctl_hal c') = pending_transactions (ctl_hal c) @ Some t # more
      \<and> carries_packet bs [pi_in_port packet] t \<and> of_be16 (chunk 12 2 bs) = 0x8100
      \<and> arp_serialize (arp_response (unset_request (env_unset env)) vlan (get_switch_mac sw) (switch_ip_address sw) p) = Inr bs)"
proof -
  obtain w c1 where w: "vlan_of_packet packet raw_pkt c = Inr (w, c1)" "consumed"
    and cases: "w = - 1 \<and> c' = c1 \<or> w \<noteq> - 1 \<and> (\<exists>c2 response ok2 h ok3. arp_learn env p w c1 = Inr c2
      \<and> arp_serialize (arp_response (unset_request (env_unset env)) w (get_switch_mac sw) (switch_ip_address sw) p) = Inr response
      \<and> send_packet_to_port (env_fresh env) response (pi_in_port packet) (ctl_hal c2) = Inr (ok2, h)
      \<and> arp_accelerate_flow env (src_mac p) (word_of_int w) (pi_in_port packet) (count_serviced (c2\<lparr>ctl_hal := h\<rparr>)) = Inr (ok3, c'))"
    by (rule arp_request_step [OF assms(1-10,12)])
  have vlan: "w = vlan" using w(1) assms(3,13) by (simp add: vlan_of_packet_def)
  have hal1: "ctl_hal c1 = ctl_hal c" by (rule vlan_of_packet_hal [OF w(1)])
  show ?thesis
  proof (cases "vlan = - 1")
    case True
    with cases vlan w(2) hal1 show ?thesis by simp
  next
    case False
    with cases vlan obtain c2 response ok2 h ok3 where learn: "arp_learn env p vlan c1 = Inr c2"
      and bs: "arp_serialize (arp_response (unset_request (env_unset env)) vlan (get_switch_mac sw) (switch_ip_address sw) p) = Inr response"
      and send: "send_packet (env_fresh env) response [pi_in_port packet] (ctl_hal c2) = Inr (ok2, h)"
      and acc: "arp_accelerate_flow env (src_mac p) (word_of_int vlan) (pi_in_port packet) (count_serviced (c2\<lparr>ctl_hal := h\<rparr>)) = Inr (ok3, c')"
      unfolding send_packet_to_port_def by blast
    have hal2: "ctl_hal c2 = ctl_hal c" using arp_learn_hal [OF learn] hal1 by simp
    obtain t where t: "h = (ctl_hal c)\<lparr>hal_xid := hal_xid (ctl_hal c) + 1, pending_transactions := pending_transactions (ctl_hal c) @ [Some t]\<rparr>"
      "carries_packet response [pi_in_port packet] t"
      using send_packet_effect [OF send] assms(11) hal2 by auto
    obtain more where "pending_transactions (ctl_hal c') = pending_transactions h @ more"
      using accelerate_appends [OF acc] by (auto simp: count_serviced_def)
    then have "pending_transactions (ctl_hal c') = pending_transactions (ctl_hal c) @ Some t # more" by (simp add: t(1))
    moreover have "of_be16 (chunk 12 2 response) = 0x8100" using arp_response_bytes bs by (metis sum.inject(2))
    ultimately show ?thesis using False w(2) t(2) bs by auto
  qed
qed

lemma arp_response_written: "\<exists>bs. arp_serialize (arp_response f vlan mac ip p) = Inr bs \<and> length bs = 46"
  by (cases mac; cases "src_mac p"; cases ip; cases "arp_src_ip p") (simp add: arp_serialize_def arp_response_def arp_packet_new_def
      raw_serialize_def raw_packet_new_def raw_packet.defs arp_packet.defs field_simps_rules)

definition arp_question :: of_message_packet_in where
  "arp_question = packet_in_new\<lparr>pi_in_port := 1, pkt_data := [255, 255, 255, 255, 255, 255, 7, 7, 7, 7, 7, 7, 0x81, 0, 0, 10, 8, 6,
     0, 1, 8, 0, 6, 4, 0, 1, 7, 7, 7, 7, 7, 7, 10, 0, 0, 2, 0, 0, 0, 0, 0, 0, 10, 0, 0, 1]\<rparr>"

definition arp_controller :: controller where
  "arp_controller = some_controller\<lparr>svc_switch := Some (three_ports\<lparr>switch_ip_address := IP 10 0 0 1\<rparr>),
     svc_arp := Some (arp_service_new\<lparr>arp_initialized := True\<rparr>), svc_policy := None\<rparr>"

lemma arp_question_parsed:
  "\<exists>p. arp_deserialize (pkt_data arp_question) (arp_packet_new u) = (True, p) \<and> arp_request p \<and> src_mac p = MAC 7 7 7 7 7 7
    \<and> arp_src_ip p = IP 10 0 0 2 \<and> arp_dest_ip p = IP 10 0 0 1"
  by (simp add: arp_deserialize_def raw_deserialize_def arp_question_def packet_in_new_def of_message.defs of_message_packet_in.defs
      arp_packet_new_def raw_packet_new_def raw_packet.defs arp_packet.defs field_simps_rules Let_def eth_hdr_len_def raw_type_def)
    (simp add: chunk_def of_be16_def of_bytes_def)

theorem arp_request_answered_witness:
  "\<exists>env raw_pkt c' t bs more. run_arp_filter env arp_question raw_pkt arp_controller = Inr (True, c')
    \<and> pending_transactions (ctl_hal c') = Some t # more \<and> carries_packet bs [1] t \<and> of_be16 (chunk 12 2 bs) = 0x8100"
proof -
  let ?env = "\<lparr>env_now = 0, env_random = 0, env_fresh = \<lambda>n. replicate n 0, env_unset = undefined\<rparr>"
  let ?u = "unset_request (env_unset ?env)" and ?raw = "raw_packet_new\<lparr>packet_type := ARP_PACKET, has_vlan_tag := True, pkt_vlan_id := 10\<rparr>"
    and ?sw = "three_ports\<lparr>switch_ip_address := IP 10 0 0 1\<rparr>" and ?a = "arp_service_new\<lparr>arp_initialized := True\<rparr>"
  obtain p where p: "arp_deserialize (pkt_data arp_question) (arp_packet_new ?u) = (True, p)" "arp_request p"
      "src_mac p = MAC 7 7 7 7 7 7" "arp_src_ip p = IP 10 0 0 2" "arp_dest_ip p = IP 10 0 0 1"
    using arp_question_parsed by blast
  have c: "svc_arp arp_controller = Some ?a" "arp_initialized ?a" "svc_switch arp_controller = Some ?sw" "svc_policy arp_controller = None"
      "switch_ready (ctl_hal arp_controller)" "pending_transactions (ctl_hal arp_controller) = []" "switch_ip_address ?sw = IP 10 0 0 1"
      "\<not> ip_is_nil (switch_ip_address ?sw)" "mac_is_nil (get_switch_mac ?sw)" "pi_in_port arp_question = 1"
    by (simp_all add: arp_controller_def some_controller_def arp_service_new_def hal_new_def get_switch_mac_def three_ports_def
        switch_state_new_def switch_features_clear_def mac_is_nil_def mac_nil_def arp_question_def packet_in_new_def of_message.defs
        of_message_packet_in.defs ip_is_nil_def ip_be32_def of_le32_def of_bytes_def)
  have vlan: "get_vlan_from_packet arp_question ?raw ?sw = (10, ?sw)" by (simp add: get_vlan_from_packet_def get_vlan_id_def)
  obtain bs where bs: "arp_serialize (arp_response ?u 10 (get_switch_mac ?sw) (IP 10 0 0 1) p) = Inr bs" "length bs < 2 ^ 31"
    using arp_response_written [of ?u 10 "get_switch_mac ?sw" "IP 10 0 0 1" p] by auto
  obtain ok h where send: "send_packet (env_fresh ?env) bs [1] (ctl_hal arp_controller) = Inr (ok, h)"
    using send_packet_returns [of "[1]" bs "env_fresh ?env" "ctl_hal arp_controller"] bs(2) by auto
  have "arp_service_insert now dl nw vlan lasting ?a = Inr ?a" for now dl nw vlan lasting
    by (simp add: arp_service_insert_def at_arp_table_def quiet_def arp_service_new_def smap_find_def)
  then have "\<exists>c'. run_arp_filter ?env arp_question ?raw arp_controller = Inr (True, c')"
    using p c bs send vlan
    by (simp add: run_arp_filter_def Let_def vlan_of_packet_def arp_learn_def send_packet_to_port_def count_serviced_def
        arp_accelerate_flow_def arp_controller_def ip_is_nil_def)
  then obtain c' where run: "run_arp_filter ?env arp_question ?raw arp_controller = Inr (True, c')" by blast
  then show "\<exists>env raw_pkt c' t bs more. run_arp_filter env arp_question raw_pkt arp_controller = Inr (True, c')
    \<and> pending_transactions (ctl_hal c') = Some t # more \<and> carries_packet bs [1] t \<and> of_be16 (chunk 12 2 bs) = 0x8100"
    using arp_request_answered [OF c(1-3) _ p(1,2) _ c(8) _ _ c(5) run vlan] by (fastforce simp: p c)
qed

end
