(* ===== verification/Service_Catalog.thy ===== *)
theory Service_Catalog
  imports Prelude "HOL-Library.Multiset"
begin

text \<open>
  The catalog of services (\<open>controller/hal/service_catalog.{h,cpp}\<close>). A service object is known by its address, a number;
  its kind and its dependencies are given by \<open>obj\<close>, and the virtual calls \<open>init\<close> and \<open>init2\<close> act on a state of their own.
  The catalog holds weak pointers, one slot for each kind: what is no longer \<open>alive\<close> locks to null.
\<close>

datatype service_type = ARP_SERVICE | CAM_SERVICE | SWITCH_STATE_SERVICE | FLOWS | ECHO_SERVICE | OPERATIONAL_STATS_SERVICE
  | FLOW_POLICY_SERVICE | INTER_IRONSTACK_SERVICE | LAST_SERVICE

primrec service_code :: "service_type \<Rightarrow> nat" where
  "service_code ARP_SERVICE = 1"
| "service_code CAM_SERVICE = 2"
| "service_code SWITCH_STATE_SERVICE = 3"
| "service_code FLOWS = 4"
| "service_code ECHO_SERVICE = 5"
| "service_code OPERATIONAL_STATS_SERVICE = 6"
| "service_code FLOW_POLICY_SERVICE = 7"
| "service_code INTER_IRONSTACK_SERVICE = 8"
| "service_code LAST_SERVICE = 9"

record service_object =
  svc_kind :: service_type
  svc_dependencies :: "service_type set"

type_synonym catalog = "nat option list"

definition catalog_clear :: catalog where
  "catalog_clear = replicate (service_code LAST_SERVICE) None"

definition lock_weak :: "(nat \<Rightarrow> bool) \<Rightarrow> nat option \<Rightarrow> nat option" where
  "lock_weak alive p = (case p of None \<Rightarrow> None | Some x \<Rightarrow> if alive x then Some x else None)"

text \<open>Before the first \<open>clear\<close> there are no slots.\<close>

definition register_service :: "(nat \<Rightarrow> service_object) \<Rightarrow> (nat \<Rightarrow> 's \<Rightarrow> bool \<times> 's) \<Rightarrow> nat \<Rightarrow> catalog \<times> 's \<Rightarrow> (catalog \<times> 's) res" where
  "register_service obj init svc = (\<lambda>(c, s).
    case init svc s of (ok, s') \<Rightarrow>
      if \<not> ok then Inr (c, s')
      else let i = service_code (svc_kind (obj svc)) in
        if length c \<le> i then Inl OutOfBounds else Inr (c[i := Some svc], s'))"

text \<open>The loop over the slots: a null argument matches the first empty slot, whose service is then asked for its name.\<close>

fun unregister_slots :: "(nat \<Rightarrow> bool) \<Rightarrow> nat option \<Rightarrow> nat \<Rightarrow> catalog \<Rightarrow> catalog res" where
  "unregister_slots alive svc 0 c = Inr c"
| "unregister_slots alive svc (Suc n) [] = Inl OutOfBounds"
| "unregister_slots alive svc (Suc n) (p # c) =
    (if lock_weak alive p = svc then (if svc = None then Inl OutOfBounds else Inr (None # c))
     else bindr (unregister_slots alive svc n c) (\<lambda>c'. Inr (p # c')))"

definition unregister_object :: "(nat \<Rightarrow> bool) \<Rightarrow> nat option \<Rightarrow> catalog \<Rightarrow> catalog res" where
  "unregister_object alive svc c = unregister_slots alive svc (service_code LAST_SERVICE) c"

definition unregister_type :: "service_type \<Rightarrow> catalog \<Rightarrow> catalog res" where
  "unregister_type t c = (if length c \<le> service_code t then Inl OutOfBounds else Inr (c[service_code t := None]))"

definition get_service :: "(nat \<Rightarrow> bool) \<Rightarrow> service_type \<Rightarrow> catalog \<Rightarrow> nat option res" where
  "get_service alive t c = (if length c \<le> service_code t then Inl OutOfBounds else Inr (lock_weak alive (c ! service_code t)))"

section \<open>Deferred initialization\<close>

text \<open>The set of the services is ordered by their addresses.\<close>

definition uninitialized_services :: "(nat \<Rightarrow> bool) \<Rightarrow> catalog \<Rightarrow> nat list" where
  "uninitialized_services alive c = sort (remdups (List.map_filter (lock_weak alive) c))"

text \<open>One pass over the services that are left. The result is None when a service fails; otherwise the services that are
  still left, the kinds that are initialized, and whether there was one in this round.\<close>

fun init_round :: "(nat \<Rightarrow> service_object) \<Rightarrow> (nat \<Rightarrow> 's \<Rightarrow> bool \<times> 's) \<Rightarrow> nat list \<Rightarrow> service_type set \<Rightarrow> 's
    \<Rightarrow> (nat list \<times> service_type set \<times> bool) option \<times> 's" where
  "init_round obj init2 [] initialized s = (Some ([], initialized, False), s)"
| "init_round obj init2 (x # xs) initialized s =
    (if svc_dependencies (obj x) \<subseteq> initialized then
       (case init2 x s of (ok, s1) \<Rightarrow>
          if \<not> ok then (None, s1)
          else case init_round obj init2 xs (insert (svc_kind (obj x)) initialized) s1 of
            (None, s2) \<Rightarrow> (None, s2)
          | (Some (left, initialized', _), s2) \<Rightarrow> (Some (left, initialized', True), s2))
     else case init_round obj init2 xs initialized s of
         (None, s2) \<Rightarrow> (None, s2)
       | (Some (left, initialized', progress), s2) \<Rightarrow> (Some (x # left, initialized', progress), s2))"

lemma init_round_length:
  "init_round obj init2 xs i s = (Some (left, i', progress), s') \<Longrightarrow>
    length left \<le> length xs \<and> (progress \<longrightarrow> length left < length xs)"
  by (induction xs arbitrary: i s left i' progress s') (fastforce split: if_splits option.splits prod.splits)+

function init_rounds :: "(nat \<Rightarrow> service_object) \<Rightarrow> (nat \<Rightarrow> 's \<Rightarrow> bool \<times> 's) \<Rightarrow> nat list \<Rightarrow> service_type set \<Rightarrow> 's \<Rightarrow> bool \<times> 's" where
  "init_rounds obj init2 xs initialized s =
    (if xs = [] then (True, s)
     else case init_round obj init2 xs initialized s of
       (None, s') \<Rightarrow> (False, s')
     | (Some (left, initialized', progress), s') \<Rightarrow>
         if progress then init_rounds obj init2 left initialized' s' else (left = [], s'))"
  by pat_completeness auto
termination
  by (relation "measure (\<lambda>(obj, init2, xs, i, s). length xs)") (auto dest!: init_round_length [OF sym])

declare init_rounds.simps [simp del]

definition deferred_init_services :: "(nat \<Rightarrow> service_object) \<Rightarrow> (nat \<Rightarrow> bool) \<Rightarrow> (nat \<Rightarrow> 's \<Rightarrow> bool \<times> 's) \<Rightarrow> catalog \<Rightarrow> 's \<Rightarrow> bool \<times> 's" where
  "deferred_init_services obj alive init2 c s = init_rounds obj init2 (uninitialized_services alive c) {} s"

text \<open>The dependencies that the constructors of the services set.\<close>

primrec service_dependencies :: "service_type \<Rightarrow> service_type set" where
  "service_dependencies ARP_SERVICE = {}"
| "service_dependencies CAM_SERVICE = {}"
| "service_dependencies SWITCH_STATE_SERVICE = {CAM_SERVICE, ARP_SERVICE}"
| "service_dependencies FLOWS = {CAM_SERVICE, ARP_SERVICE, SWITCH_STATE_SERVICE}"
| "service_dependencies ECHO_SERVICE = {CAM_SERVICE, ARP_SERVICE, SWITCH_STATE_SERVICE}"
| "service_dependencies OPERATIONAL_STATS_SERVICE = {}"
| "service_dependencies FLOW_POLICY_SERVICE = {}"
| "service_dependencies INTER_IRONSTACK_SERVICE = {}"
| "service_dependencies LAST_SERVICE = {}"

section \<open>The order of initialization\<close>

text \<open>The kinds that can start: those of a registered service all of whose dependencies can.\<close>

inductive startable :: "(nat \<Rightarrow> service_object) \<Rightarrow> nat set \<Rightarrow> service_type \<Rightarrow> bool" for obj U where
  "x \<in> U \<Longrightarrow> (\<And>t. t \<in> svc_dependencies (obj x) \<Longrightarrow> startable obj U t) \<Longrightarrow> startable obj U (svc_kind (obj x))"

text \<open>A log of calls in which each service comes after its dependencies.\<close>

primrec after_dependencies :: "(nat \<Rightarrow> service_object) \<Rightarrow> service_type set \<Rightarrow> nat list \<Rightarrow> bool" where
  "after_dependencies obj i [] = True"
| "after_dependencies obj i (y # ys) = (svc_dependencies (obj y) \<subseteq> i \<and> after_dependencies obj (insert (svc_kind (obj y)) i) ys)"

abbreviation log_init :: "(nat \<Rightarrow> bool) \<Rightarrow> nat \<Rightarrow> nat list \<Rightarrow> bool \<times> nat list" where
  "log_init ok \<equiv> \<lambda>x log. (ok x, log @ [x])"

lemma after_dependencies_append:
  "after_dependencies obj i (xs @ ys) = (after_dependencies obj i xs \<and> after_dependencies obj (i \<union> (svc_kind \<circ> obj) ` set xs) ys)"
  by (induction xs arbitrary: i) simp_all

text \<open>What a round does with the services \<open>xs\<close> that are left when the kinds \<open>i\<close> are initialized: it calls \<open>ys\<close>.\<close>

definition round_calls :: "(nat \<Rightarrow> service_object) \<Rightarrow> (nat \<Rightarrow> bool) \<Rightarrow> nat list \<Rightarrow> service_type set
    \<Rightarrow> (nat list \<times> service_type set \<times> bool) option \<Rightarrow> nat list \<Rightarrow> bool" where
  "round_calls obj ok xs i r ys = (after_dependencies obj i ys \<and> (case r of
     None \<Rightarrow> mset ys \<subseteq># mset xs \<and> (\<exists>y \<in> set ys. \<not> ok y)
   | Some (left, i', progress) \<Rightarrow> mset xs = mset left + mset ys \<and> i' = i \<union> (svc_kind \<circ> obj) ` set ys
       \<and> (\<forall>y \<in> set ys. ok y) \<and> progress = (ys \<noteq> []) \<and> (ys = [] \<longrightarrow> (\<forall>x \<in> set left. \<not> svc_dependencies (obj x) \<subseteq> i))))"

lemma mset_subset_eq_grow: "A \<subseteq># B \<Longrightarrow> A \<subseteq># add_mset x B"
  by (rule subset_mset.order_trans [of _ B]) simp_all

lemma init_round_calls:
  "init_round obj (log_init ok) xs i log = (r, log') \<Longrightarrow> \<exists>ys. log' = log @ ys \<and> round_calls obj ok xs i r ys"
proof (induction xs arbitrary: i log r log')
  case Nil
  then show ?case by (auto simp: round_calls_def)
next
  case (Cons x xs)
  show ?case
  proof (cases "svc_dependencies (obj x) \<subseteq> i")
    case True
    show ?thesis
    proof (cases "ok x")
      case ok: True
      obtain r1 where r1: "init_round obj (log_init ok) xs (insert (svc_kind (obj x)) i) (log @ [x]) = (r1, log')"
        using Cons.prems True ok by (auto simp: split: prod.splits option.splits)
      obtain ys where ys: "log' = (log @ [x]) @ ys" "round_calls obj ok xs (insert (svc_kind (obj x)) i) r1 ys"
        using Cons.IH [OF r1] by blast
      have "round_calls obj ok (x # xs) i r (x # ys)"
        using Cons.prems True ok ys(2) r1
        by (cases r1) (auto simp: round_calls_def split: prod.splits)
      then show ?thesis using ys(1) by auto
    next
      case False
      then show ?thesis using Cons.prems True by (intro exI [of _ "[x]"]) (auto simp: round_calls_def)
    qed
  next
    case False
    obtain r1 where r1: "init_round obj (log_init ok) xs i log = (r1, log')"
      using Cons.prems False by (auto split: prod.splits option.splits)
    obtain ys where ys: "log' = log @ ys" "round_calls obj ok xs i r1 ys" using Cons.IH [OF r1] by blast
    have "round_calls obj ok (x # xs) i r ys"
      using Cons.prems False ys(2) r1
      by (cases r1) (auto simp: round_calls_def intro: mset_subset_eq_grow split: prod.splits)
    then show ?thesis using ys(1) by blast
  qed
qed

text \<open>What all rounds do: either all that is left is called and succeeds, or something fails, or what is left lacks a
  dependency.\<close>

definition rounds_calls :: "(nat \<Rightarrow> service_object) \<Rightarrow> (nat \<Rightarrow> bool) \<Rightarrow> nat list \<Rightarrow> service_type set \<Rightarrow> bool \<Rightarrow> nat list \<Rightarrow> bool" where
  "rounds_calls obj ok xs i result ys = (after_dependencies obj i ys \<and> mset ys \<subseteq># mset xs \<and>
     (if result then mset ys = mset xs \<and> (\<forall>y \<in> set ys. ok y)
      else (\<exists>y \<in> set ys. \<not> ok y) \<or> ((\<forall>y \<in> set ys. ok y) \<and> mset ys \<noteq> mset xs
        \<and> (\<forall>x. x \<in># mset xs - mset ys \<longrightarrow> \<not> svc_dependencies (obj x) \<subseteq> i \<union> (svc_kind \<circ> obj) ` set ys))))"

lemma init_rounds_calls:
  "init_rounds obj (log_init ok) xs i log = (result, log') \<Longrightarrow> \<exists>ys. log' = log @ ys \<and> rounds_calls obj ok xs i result ys"
proof (induction "length xs" arbitrary: xs i log rule: less_induct)
  case less
  obtain r log1 where r: "init_round obj (log_init ok) xs i log = (r, log1)" by (cases "init_round obj (log_init ok) xs i log")
  obtain ys where ys: "log1 = log @ ys" "round_calls obj ok xs i r ys" using init_round_calls [OF r] by blast
  show ?case
  proof (cases "xs = []")
    case True
    then show ?thesis using less.prems by (subst (asm) init_rounds.simps) (auto simp: rounds_calls_def)
  next
    case ne: False
    show ?thesis
    proof (cases r)
      case None
      then show ?thesis using less.prems ys ne
        by (subst (asm) init_rounds.simps) (auto simp: r round_calls_def rounds_calls_def intro!: exI [of _ ys])
    next
      case (Some a)
      then obtain left i' progress where a: "r = Some (left, i', progress)" by (cases a) auto
      note y = ys(2) [unfolded a round_calls_def option.case prod.case]
      show ?thesis
      proof (cases progress)
        case False
        then have "ys = []" "mset xs = mset left" using y by auto
        then have "left \<noteq> []" "set xs = set left" using ne by (auto dest: mset_eq_setD)
        then show ?thesis using less.prems ys(1) y ne \<open>ys = []\<close> \<open>mset xs = mset left\<close> False
          by (subst (asm) init_rounds.simps) (auto simp: r a rounds_calls_def)
      next
        case True
        have rec: "init_rounds obj (log_init ok) left i' log1 = (result, log')"
          using less.prems ne True by (subst (asm) init_rounds.simps) (simp add: r a)
        have "length left < length xs" using init_round_length [OF r [unfolded a]] True by blast
        from less.hyps [OF this rec] obtain zs where zs: "log' = log1 @ zs" "rounds_calls obj ok left i' result zs" by blast
        have "rounds_calls obj ok xs i result (ys @ zs)"
          using y zs(2) by (auto simp: rounds_calls_def after_dependencies_append Un_assoc image_Un)
        then show ?thesis using ys(1) zs(1) by auto
      qed
    qed
  qed
qed

lemma uninitialized_services_set: "set (uninitialized_services alive c) = {x. Some x \<in> set c \<and> alive x}"
  by (force simp: uninitialized_services_def List.map_filter_def lock_weak_def split: option.splits if_splits)

lemma after_dependencies_startable:
  "after_dependencies obj i ys \<Longrightarrow> set ys \<subseteq> U \<Longrightarrow> (\<And>t. t \<in> i \<Longrightarrow> startable obj U t) \<Longrightarrow>
    y \<in> set ys \<Longrightarrow> t \<in> svc_dependencies (obj y) \<Longrightarrow> startable obj U t"
proof (induction ys arbitrary: i y t)
  case (Cons z ys)
  have z: "svc_dependencies (obj z) \<subseteq> i" and rest: "after_dependencies obj (insert (svc_kind (obj z)) i) ys" and U: "z \<in> U" "set ys \<subseteq> U"
    using Cons.prems(1,2) by auto
  have "startable obj U t" if "t \<in> insert (svc_kind (obj z)) i" for t
    using that z U(1) Cons.prems(3) by (auto intro: startable.intros)
  then show ?case using Cons.IH [OF rest U(2)] Cons.prems(3-5) z by auto
qed simp

text \<open>The kinds that can start are initialized, unless something failed.\<close>

lemma startable_called:
  assumes "startable obj (set xs) t" "\<And>x. x \<in># mset xs - mset ys \<Longrightarrow> \<not> svc_dependencies (obj x) \<subseteq> (svc_kind \<circ> obj) ` set ys"
  shows "t \<in> (svc_kind \<circ> obj) ` set ys"
  using assms(1)
proof induction
  case (1 x)
  then have "svc_dependencies (obj x) \<subseteq> (svc_kind \<circ> obj) ` set ys" by auto
  then have "x \<notin># mset xs - mset ys" using assms(2) by blast
  then have "x \<in> set ys" using 1(1) by (metis in_diff_count not_gr_zero set_mset_mset count_greater_zero_iff linorder_not_le le_zero_eq)
  then show ?case by auto
qed

lemma distinct_submset: "mset ys \<subseteq># mset xs \<Longrightarrow> distinct xs \<Longrightarrow> distinct ys"
proof -
  assume "mset ys \<subseteq># mset xs" "distinct xs"
  moreover obtain zs where "mset zs = mset xs - mset ys" using ex_mset by blast
  ultimately have "mset (ys @ zs) = mset xs" by simp
  then show "distinct ys" using \<open>distinct xs\<close> by (metis distinct_append mset_eq_imp_distinct_iff)
qed

text \<open>C15. The services start in the order of their dependencies, each at most once, whatever their addresses: the call
  returns, and it returns true exactly when every registered service starts without failure and has only dependencies that
  some registered service can provide in turn; then every service has been started.\<close>

theorem deferred_init_order:
  assumes "deferred_init_services obj alive (log_init ok) c [] = (result, log)"
  shows "let U = {x. Some x \<in> set c \<and> alive x} in
    distinct log \<and> set log \<subseteq> U \<and> after_dependencies obj {} log \<and>
    result = (\<forall>x \<in> U. ok x \<and> (\<forall>t \<in> svc_dependencies (obj x). startable obj U t)) \<and> (result \<longrightarrow> set log = U)"
proof -
  let ?xs = "uninitialized_services alive c" and ?U = "{x. Some x \<in> set c \<and> alive x}"
  have xs: "set ?xs = ?U" "distinct ?xs" by (simp_all only: uninitialized_services_set) (simp add: uninitialized_services_def)
  have calls: "rounds_calls obj ok ?xs {} result log"
    using init_rounds_calls [of obj ok ?xs "{}" "[]" result log] assms by (auto simp: deferred_init_services_def)
  then have log: "after_dependencies obj {} log" "mset log \<subseteq># mset ?xs" by (auto simp: rounds_calls_def)
  then have sub: "set log \<subseteq> ?U" and dist: "distinct log"
    using xs set_mset_mono [OF log(2)] distinct_submset [OF log(2)] by auto
  have "(\<forall>x \<in> ?U. ok x \<and> (\<forall>t \<in> svc_dependencies (obj x). startable obj ?U t)) \<and> set log = ?U" if result
  proof -
    have "mset log = mset ?xs" "\<forall>y \<in> set log. ok y" using calls that by (auto simp: rounds_calls_def)
    moreover then have "set log = ?U" using xs(1) by (metis set_mset_mset)
    ultimately show ?thesis using after_dependencies_startable [OF log(1) sub] by auto
  qed
  moreover have result if all: "\<forall>x \<in> ?U. ok x \<and> (\<forall>t \<in> svc_dependencies (obj x). startable obj ?U t)"
  proof (rule ccontr)
    assume "\<not> result"
    then have rest: "mset log \<noteq> mset ?xs" "\<And>x. x \<in># mset ?xs - mset log \<Longrightarrow> \<not> svc_dependencies (obj x) \<subseteq> (svc_kind \<circ> obj) ` set log"
      using calls all sub by (auto simp: rounds_calls_def)
    then obtain x where x: "x \<in># mset ?xs - mset log" using log(2) by (metis diff_empty multiset_nonemptyE subset_mset.diff_add add_0)
    then have "x \<in> ?U" using xs(1) by (metis in_diffD set_mset_mset)
    then have "svc_dependencies (obj x) \<subseteq> (svc_kind \<circ> obj) ` set log"
      using all startable_called [of obj ?xs _ log] rest(2) unfolding xs(1) by blast
    then show False using rest(2) [OF x] by blast
  qed
  ultimately show ?thesis using log(1) sub dist by (auto simp: Let_def)
qed

text \<open>The services of the controller, at addresses where those with dependencies come first.\<close>

definition ironstack_object :: "nat \<Rightarrow> service_object" where
  "ironstack_object x = (let t = [SWITCH_STATE_SERVICE, FLOWS, ECHO_SERVICE, ARP_SERVICE, CAM_SERVICE, OPERATIONAL_STATS_SERVICE,
     FLOW_POLICY_SERVICE, INTER_IRONSTACK_SERVICE] ! (x mod 8) in \<lparr>svc_kind = t, svc_dependencies = service_dependencies t\<rparr>)"

definition ironstack_catalog :: catalog where
  "ironstack_catalog = [None, Some 3, Some 4, Some 0, Some 1, Some 2, Some 5, Some 6, Some 7]"

theorem deferred_init_order_witness:
  "\<exists>s. fold (\<lambda>x r. bindr r (register_service ironstack_object (\<lambda>x s. (True, s)) x)) [0..<8] (Inr (catalog_clear, ()))
      = Inr (ironstack_catalog, s)
    \<and> deferred_init_services ironstack_object (\<lambda>x. True) (log_init (\<lambda>x. True)) ironstack_catalog [] = (True, [3, 4, 5, 6, 7, 0, 1, 2])
    \<and> {x. Some x \<in> set ironstack_catalog} = {3, 4, 5, 6, 7, 0, 1, 2}
    \<and> startable ironstack_object {3, 4, 5, 6, 7, 0, 1, 2} SWITCH_STATE_SERVICE"
proof -
  have reg: "fold (\<lambda>x r. bindr r (register_service ironstack_object (\<lambda>x s. (True, s)) x)) [0..<8] (Inr (catalog_clear, ()))
      = Inr (ironstack_catalog, ())" by code_simp
  have run: "deferred_init_services ironstack_object (\<lambda>x. True) (log_init (\<lambda>x. True)) ironstack_catalog [] = (True, [3, 4, 5, 6, 7, 0, 1, 2])"
    by code_simp
  have U: "{x. Some x \<in> set ironstack_catalog} = {3, 4, 5, 6, 7, 0, 1, 2}" by (auto simp: ironstack_catalog_def)
  have "svc_dependencies (ironstack_object 1) = {CAM_SERVICE, ARP_SERVICE, SWITCH_STATE_SERVICE}" by (simp add: ironstack_object_def)
  then show ?thesis using deferred_init_order [OF run] reg run U by (auto simp: Let_def)
qed

end
