(* ===== verification/Hal.thy ===== *)
theory Hal
  imports Packet_Filters Service_Catalog
begin

text \<open>
  The hardware abstraction layer with its services (\<open>controller/hal/hal.cpp\<close>): what is done with a message from the switch,
  the thread that posts barriers, the handshake, and the callback of the flow service for ports that go down
  (\<open>controller/services/flow_service.cpp\<close>).
\<close>

section \<open>Ports that go down\<close>

definition is_l2_flow :: "of_match \<Rightarrow> bool" where
  "is_l2_flow m = (\<not> wildcard_ethernet_dest m \<and> \<not> wildcard_vlan_id m \<and> wildcard_in_port m \<and> wildcard_ethernet_src m
     \<and> wildcard_vlan_pcp m \<and> wildcard_ethernet_frame_type m \<and> wildcard_ip_type_of_service m \<and> wildcard_ip_protocol m
     \<and> wildcard_ip_src_lsb_count m = 32 \<and> wildcard_ip_dest_lsb_count m = 32
     \<and> wildcard_tcpudp_src_port m \<and> wildcard_tcpudp_dest_port m)"

definition outputs_only_to :: "16 word \<Rightarrow> openflow_flow_entry \<Rightarrow> bool" where
  "outputs_only_to p e = (case action_list (description e) of [Output_To_Port c q] \<Rightarrow> q = p | _ \<Rightarrow> False)"

text \<open>The loop over the flows, which are a copy. The addresses that are collected would be announced to other controllers by a
  function that is empty. The flow service is used without a check.\<close>

definition call_remove_flow :: "int \<Rightarrow> 64 word \<Rightarrow> flow_service option \<Rightarrow> (64 word \<times> flow_service option) res" where
  "call_remove_flow now k s = (case s of None \<Rightarrow> Inl OutOfBounds | Some s1 \<Rightarrow> bindr (remove_flow now k s1) (\<lambda>(r, s2). Inr (r, Some s2)))"

definition call_arp_remove :: "mac_address \<Rightarrow> 16 word \<Rightarrow> controller \<Rightarrow> controller res" where
  "call_arp_remove dl vlan c = (case svc_arp c of None \<Rightarrow> Inr c
     | Some a \<Rightarrow> bindr (arp_service_remove_mac dl vlan a) (\<lambda>a'. Inr (c\<lparr>svc_arp := Some a'\<rparr>)))"

fun purge_flows :: "int \<Rightarrow> 16 word \<Rightarrow> openflow_flow_entry list \<Rightarrow> controller \<Rightarrow> (mac_address list \<times> controller) res" where
  "purge_flows now p [] c = Inr ([], c)"
| "purge_flows now p (e # es) c =
    (if state e \<noteq> PENDING_INSTALLATION \<and> state e \<noteq> ACTIVE then purge_flows now p es c
     else if \<not> outputs_only_to p e then purge_flows now p es c
     else bindr (call_flow_service (call_remove_flow now (cookie (description e))) c) (\<lambda>(r, c1).
       let m = criteria (description e) in
       if \<not> is_l2_flow m then purge_flows now p es c1
       else bindr (call_arp_remove (ethernet_dest m) (vlan_id m) c1) (\<lambda>c2.
         bindr (purge_flows now p es c2) (\<lambda>(purged, c3). Inr (ethernet_dest m # purged, c3)))))"

definition call_cam_remove :: "16 word \<Rightarrow> controller \<Rightarrow> controller" where
  "call_cam_remove p c = c\<lparr>svc_cam := map_option (cam_service_remove_port p) (svc_cam c)\<rparr>"

definition switch_port_modification_callback :: "int \<Rightarrow> openflow_vlan_port \<Rightarrow> controller \<Rightarrow> controller res" where
  "switch_port_modification_callback now port c =
    (if is_up (vp_port port) then Inr c
     else let p = port_number (vp_port port); c1 = call_cam_remove p c in
       case svc_flows c1 of None \<Rightarrow> Inl OutOfBounds
       | Some s \<Rightarrow> bindr (purge_flows now p (get_flows s) c1) (\<lambda>(purged, c2). Inr c2))"

text \<open>The callbacks that the switch state makes, all of this class.\<close>

fun port_callbacks :: "int \<Rightarrow> (nat \<times> openflow_vlan_port) list \<Rightarrow> controller \<Rightarrow> controller res" where
  "port_callbacks now [] c = Inr c"
| "port_callbacks now ((cob, port) # calls) c = bindr (switch_port_modification_callback now port c) (port_callbacks now calls)"

section \<open>Messages\<close>

primrec message_type :: "any_message \<Rightarrow> byte" where
  "message_type (Hello m) = msg_type m"
| "message_type (Error m) = msg_type m"
| "message_type (Echo_Request m) = msg_type m"
| "message_type (Echo_Reply m) = msg_type m"
| "message_type (Vendor m) = msg_type m"
| "message_type (Features_Reply m) = msg_type m"
| "message_type (Get_Config_Reply m) = msg_type m"
| "message_type (Packet_In m) = msg_type m"
| "message_type (Flow_Removed m) = msg_type m"
| "message_type (Port_Status m) = msg_type m"
| "message_type (Description_Reply m) = msg_type m"
| "message_type (Flow_Reply m) = msg_type m"
| "message_type (Aggregate_Reply m) = msg_type m"
| "message_type (Table_Reply m) = msg_type m"
| "message_type (Port_Reply m) = msg_type m"
| "message_type (Queue_Reply m) = msg_type m"
| "message_type (Barrier_Reply m) = msg_type m"

primrec message_xid :: "any_message \<Rightarrow> 32 word" where
  "message_xid (Hello m) = xid m"
| "message_xid (Error m) = xid m"
| "message_xid (Echo_Request m) = xid m"
| "message_xid (Echo_Reply m) = xid m"
| "message_xid (Vendor m) = xid m"
| "message_xid (Features_Reply m) = xid m"
| "message_xid (Get_Config_Reply m) = xid m"
| "message_xid (Packet_In m) = xid m"
| "message_xid (Flow_Removed m) = xid m"
| "message_xid (Port_Status m) = xid m"
| "message_xid (Description_Reply m) = xid m"
| "message_xid (Flow_Reply m) = xid m"
| "message_xid (Aggregate_Reply m) = xid m"
| "message_xid (Table_Reply m) = xid m"
| "message_xid (Port_Reply m) = xid m"
| "message_xid (Queue_Reply m) = xid m"
| "message_xid (Barrier_Reply m) = xid m"

definition on_hal :: "(hal \<Rightarrow> hal res) \<Rightarrow> controller \<Rightarrow> controller res" where
  "on_hal f c = bindr (f (ctl_hal c)) (\<lambda>h. Inr (c\<lparr>ctl_hal := h\<rparr>))"

definition on_switch :: "(switch_state \<Rightarrow> switch_state) \<Rightarrow> controller \<Rightarrow> controller" where
  "on_switch f c = c\<lparr>svc_switch := map_option f (svc_switch c)\<rparr>"

definition on_stats :: "(operational_stats \<Rightarrow> operational_stats) \<Rightarrow> controller \<Rightarrow> controller" where
  "on_stats f c = c\<lparr>svc_stats := map_option f (svc_stats c)\<rparr>"

definition on_flows :: "(flow_service \<Rightarrow> flow_service res) \<Rightarrow> controller \<Rightarrow> controller res" where
  "on_flows f c = (case svc_flows c of None \<Rightarrow> Inr c | Some s \<Rightarrow> bindr (f s) (\<lambda>s'. Inr (c\<lparr>svc_flows := Some s'\<rparr>)))"

definition answer_echo :: "(nat \<Rightarrow> byte list) \<Rightarrow> of_message_echo \<Rightarrow> hal \<Rightarrow> hal res" where
  "answer_echo fresh m h =
     bindr (set_request_and_serialize fresh (Rq_Echo (echo_reply_clear\<lparr>xid := xid m, data := data m\<rparr>)) False None) (\<lambda>t.
       Inr (enqueue_transaction (Some t) h))"

text \<open>The statistics of a reply go to the flow service and to the operational statistics.\<close>

definition handle_stats :: "int \<Rightarrow> any_message \<Rightarrow> controller \<Rightarrow> controller res" where
  "handle_stats now m c =
    (case m of
       Flow_Reply r \<Rightarrow> bindr (on_flows (flow_stats_handler now (more_to_follow r) (stats_body r)) c) (\<lambda>c1.
         Inr (on_stats (flow_handler r) c1))
     | Aggregate_Reply r \<Rightarrow> Inr (on_stats (aggregate_handler r) c)
     | Table_Reply r \<Rightarrow> Inr (on_stats (table_handler r) c)
     | Port_Reply r \<Rightarrow> Inr (on_stats (port_handler r) c)
     | Queue_Reply r \<Rightarrow> Inr (on_stats (queue_handler r) c)
     | Description_Reply r \<Rightarrow> Inr (on_switch (set_switch_description r) c)
     | _ \<Rightarrow> Inl OutOfBounds)"

definition handle_port_status :: "int \<Rightarrow> (nat \<Rightarrow> bool) \<Rightarrow> of_message_port_status \<Rightarrow> controller \<Rightarrow> controller res" where
  "handle_port_status now alive r c = (case svc_switch c of None \<Rightarrow> Inr c
     | Some sw \<Rightarrow> (case update_switch_port alive r sw of (calls, sw') \<Rightarrow> port_callbacks now calls (c\<lparr>svc_switch := Some sw'\<rparr>)))"

text \<open>What the switch reports about itself; nobody waits for these messages.\<close>

definition handle_report :: "surroundings \<Rightarrow> (nat \<Rightarrow> bool) \<Rightarrow> any_message \<Rightarrow> controller \<Rightarrow> controller res" where
  "handle_report env alive m c =
    (let t = message_type m in
     if t = OFPT_FEATURES_REPLY then
       (case m of Features_Reply r \<Rightarrow> Inr (on_switch (set_switch_features r) c) | _ \<Rightarrow> Inl OutOfBounds)
     else if t = OFPT_GET_CONFIG_REPLY then
       (case m of Get_Config_Reply r \<Rightarrow> Inr (on_switch (set_switch_config r) c) | _ \<Rightarrow> Inl OutOfBounds)
     else if t = OFPT_FLOW_REMOVED then
       (case m of Flow_Removed r \<Rightarrow> on_flows (\<lambda>s. Inr (flow_removed_handler (env_now env) (removed_cookie r) s)) c | _ \<Rightarrow> Inl OutOfBounds)
     else if t = OFPT_PORT_STATUS then
       (case m of Port_Status r \<Rightarrow> handle_port_status (env_now env) alive r c | _ \<Rightarrow> Inl OutOfBounds)
     else Inr c)"

text \<open>The switch over the type of the message. The result says whether callbacks are made, and with what status. A message of
  another class than its type says would be cast; the readers never return one.\<close>

definition handle_message :: "surroundings \<Rightarrow> (nat \<Rightarrow> bool) \<Rightarrow> any_message \<Rightarrow> controller \<Rightarrow> (bool option \<times> controller) res" where
  "handle_message env alive m c =
    (let t = message_type m; quietly = (\<lambda>c'. Inr (None, c')) in
     if t = OFPT_ERROR then Inr (Some False, c)
     else if t = OFPT_ECHO_REPLY \<or> t = OFPT_BARRIER_REPLY then Inr (Some True, c)
     else if t = OFPT_ECHO_REQUEST then
       (case m of Echo_Request r \<Rightarrow> bindr (on_hal (answer_echo (env_fresh env) r) c) quietly | _ \<Rightarrow> Inl OutOfBounds)
     else if t = OFPT_PACKET_IN then
       (case m of Packet_In r \<Rightarrow>
          quietly (c\<lparr>ctl_hal := (ctl_hal c)\<lparr>packet_processor := enqueue_packet (Some r) (packet_processor (ctl_hal c))\<rparr>\<rparr>)
        | _ \<Rightarrow> Inl OutOfBounds)
     else if t = OFPT_STATS_REPLY then bindr (handle_stats (env_now env) m c) (\<lambda>c'. Inr (Some True, c'))
     else bindr (handle_report env alive m c) quietly)"

section \<open>Callbacks\<close>

text \<open>The callback objects: 0 stands for the caller that waits, the others for the flow tables.\<close>

definition call_back :: "int \<Rightarrow> callback_call \<Rightarrow> controller \<Rightarrow> controller res" where
  "call_back now = (\<lambda>(cob, t, reply, status) c. case cob of 0 \<Rightarrow> Inr c
    | Suc i \<Rightarrow> (case tx_request t of
        Rq_Modify_Flow m \<Rightarrow> on_flows (table_completion now m (case reply of None \<Rightarrow> No_Reply | Some r \<Rightarrow> Reply (message_type r)) status i) c
      | _ \<Rightarrow> Inl Aborted))"

fun call_all :: "int \<Rightarrow> callback_call list \<Rightarrow> controller \<Rightarrow> controller res" where
  "call_all now [] c = Inr c"
| "call_all now (x # xs) c = bindr (call_back now x c) (call_all now xs)"

definition process_message :: "surroundings \<Rightarrow> (nat \<Rightarrow> bool) \<Rightarrow> any_message \<Rightarrow> controller \<Rightarrow> (callback_call list \<times> controller) res" where
  "process_message env alive m c =
     bindr (handle_message env alive m c) (\<lambda>(perform, c1). case perform of None \<Rightarrow> Inr ([], c1)
       | Some status \<Rightarrow>
          bindr (if message_type m = OFPT_BARRIER_REPLY then complete_barrier m (message_xid m) (callback_transactions (ctl_hal c1))
                 else complete_one m status (message_xid m) (callback_transactions (ctl_hal c1))) (\<lambda>(calls, rest).
            bindr (call_all (env_now env) calls (c1\<lparr>ctl_hal := (ctl_hal c1)\<lparr>callback_transactions := rest\<rparr>\<rparr>)) (\<lambda>c2. Inr (calls, c2))))"

text \<open>A round of the thread: None while it waits.\<close>

definition process_round :: "surroundings \<Rightarrow> (nat \<Rightarrow> bool) \<Rightarrow> controller \<Rightarrow> (callback_call list \<times> controller) res option" where
  "process_round env alive c =
    (case asynchronous_messages (ctl_hal c) of [] \<Rightarrow> None
     | m # q \<Rightarrow> let c1 = c\<lparr>ctl_hal := (ctl_hal c)\<lparr>asynchronous_messages := q\<rparr>\<rparr> in
        Some (case m of None \<Rightarrow> Inr ([], c1) | Some m' \<Rightarrow> process_message env alive m' c1))"

text \<open>The waiting callers: the answer to a call of \<open>send_barrier_request\<close> or \<open>send_echo_request\<close>, with the response time; None
  while it waits.\<close>

definition request_answer :: "int \<Rightarrow> blocking_hal_callback \<Rightarrow> (bool \<times> int) option" where
  "request_answer elapsed_ms b = (case blocking_wait b of None \<Rightarrow> None
     | Some ok \<Rightarrow> Some (if \<not> ok \<or> \<not> successful b then (False, - 1) else (True, elapsed_ms)))"

definition maintenance_round :: "hal \<Rightarrow> hal res" where
  "maintenance_round h = (if callback_transactions h \<noteq> [] then post_barrier_request 0 h else Inr h)"

section \<open>Starting and stopping\<close>

text \<open>Waiting for an answer in the handshake: other messages are queued. The result says whether it came, and what is left of the
  stream.\<close>

function await_message :: "byte \<Rightarrow> byte list \<Rightarrow> hal \<Rightarrow> (bool \<times> byte list \<times> hal) res" where
  "await_message t stream h =
    (case get_next_openflow_message stream of Inl e \<Rightarrow> Inl e
     | Inr (m, rest) \<Rightarrow> (case m of None \<Rightarrow> Inr (False, rest, h)
        | Some m' \<Rightarrow> if message_type m' = t then Inr (True, rest, h) else await_message t rest (recv_round m' h)))"
  by pat_completeness auto
termination
  by (relation "measure (\<lambda>(t, stream, h). length stream)")
    (auto simp: get_next_openflow_message_def recv_fixed_bytes_def bindr_Inr_iff Let_def split: if_splits)

declare await_message.simps [simp del]

text \<open>The bytes that are sent; \<open>sent_ok\<close> says of each of the three messages whether it could be sent.\<close>

definition say :: "byte list \<Rightarrow> hal \<Rightarrow> hal" where
  "say bytes h = h\<lparr>sent_to_switch := sent_to_switch h @ [bytes]\<rparr>"

definition hello_bytes :: "32 word \<Rightarrow> byte list" where
  "hello_bytes x = of_message_serialize (hello_clear\<lparr>xid := x\<rparr>)"

definition config_bytes :: "32 word \<Rightarrow> byte list" where
  "config_bytes x = set_config_serialize (set_config_clear\<lparr>xid := x,
     set_config := switch_config_clear\<lparr>frag_normal := True, max_msg_send_len := 65535\<rparr>\<rparr>)"

definition hal_handshake :: "(nat \<Rightarrow> bool) \<Rightarrow> byte list \<Rightarrow> hal \<Rightarrow> (bool \<times> byte list \<times> hal) res" where
  "hal_handshake sent_ok stream h =
    (case reserve_xid h of (x1, h1) \<Rightarrow>
       if \<not> sent_ok 0 then Inr (False, stream, h1)
       else bindr (await_message OFPT_HELLO stream (say (hello_bytes x1) h1)) (\<lambda>(ok, stream1, h2).
         if \<not> ok then Inr (False, stream1, h2)
         else case reserve_xid h2 of (x2, h3) \<Rightarrow>
           if \<not> sent_ok 1 then Inr (False, stream1, h3)
           else case reserve_xid (say (config_bytes x2) h3) of (x3, h4) \<Rightarrow>
             bindr (echo_serialize (echo_request_clear\<lparr>xid := x3\<rparr>)) (\<lambda>bytes.
               if \<not> sent_ok 2 then Inr (False, stream1, h4)
               else await_message OFPT_ECHO_REPLY stream1 (say bytes h4))))"

text \<open>Connections come in until one is from an allowed address; if none does, the call goes on waiting.\<close>

definition acceptable :: "ip_address set \<Rightarrow> (bool \<times> ip_address) list \<Rightarrow> bool" where
  "acceptable allowed attempts = list_ex (\<lambda>(connected, a). connected \<and> (allowed = {} \<or> a \<in> allowed)) attempts"

fun register_services :: "(nat \<Rightarrow> service_object) \<Rightarrow> (nat \<Rightarrow> 's \<Rightarrow> bool \<times> 's) \<Rightarrow> nat list \<Rightarrow> catalog \<times> 's \<Rightarrow> (catalog \<times> 's) res" where
  "register_services obj init [] cs = Inr cs"
| "register_services obj init (x # xs) cs = bindr (register_service obj init x cs) (register_services obj init xs)"

text \<open>\<open>init\<close> and \<open>init2\<close> are the virtual calls of the services, which use the controller; whether the deferred initialization
  succeeds is not looked at. None when the call goes on waiting for a connection.\<close>

definition hal_init :: "bool \<Rightarrow> ip_address set \<Rightarrow> (bool \<times> ip_address) list \<Rightarrow> (nat \<Rightarrow> bool) \<Rightarrow> byte list
    \<Rightarrow> (nat \<Rightarrow> service_object) \<Rightarrow> (nat \<Rightarrow> bool) \<Rightarrow> (nat \<Rightarrow> hal \<times> 's \<Rightarrow> bool \<times> hal \<times> 's) \<Rightarrow> (nat \<Rightarrow> hal \<times> 's \<Rightarrow> bool \<times> hal \<times> 's)
    \<Rightarrow> nat list \<Rightarrow> hal \<times> catalog \<times> 's \<Rightarrow> (bool \<times> hal \<times> catalog \<times> 's) res option" where
  "hal_init listening allowed attempts sent_ok stream obj alive init init2 services = (\<lambda>(h, c, s).
    if hal_under_initialization h then Some (Inr (False, h, c, s))
    else let h1 = h\<lparr>hal_under_initialization := True\<rparr> in
      if switch_ready h1 \<and> \<not> hal_shutdown_flag h1 then Some (Inr (True, h1, c, s))
      else if \<not> listening then Some (Inr (False, h1, c, s))
      else if \<not> acceptable allowed attempts then None
      else Some (bindr (hal_handshake sent_ok stream h1) (\<lambda>(ok, stream', h2).
        if \<not> ok then Inr (False, h2, c, s)
        else bindr (register_services obj init services (catalog_clear, h2, s)) (\<lambda>(c', h3, s').
          let h4 = h3\<lparr>switch_ready := True, hal_shutdown_flag := False, hal_under_initialization := False\<rparr> in
          case deferred_init_services obj alive init2 c' (h4, s') of (_, h5, s'') \<Rightarrow>
            Inr (True, h5\<lparr>packet_processor := processor_init 1 (packet_processor h5)\<rparr>, c', s'')))))"

text \<open>\<open>threads\<close> is what the threads do until they have been joined (the thread that posts barriers ends only when its barrier is
  answered), \<open>workers\<close> what the packet processor does.\<close>

definition hal_shutdown :: "(hal \<Rightarrow> hal) \<Rightarrow> (of_message_packet_in option list \<Rightarrow> of_message_packet_in option list) \<Rightarrow> hal \<Rightarrow> hal" where
  "hal_shutdown threads workers h =
    (if \<not> switch_ready h then h
     else let h1 = h\<lparr>switch_ready := False\<rparr> in
       if hal_shutdown_flag h1 then h1
       else let h2 = threads (h1\<lparr>hal_shutdown_flag := True, pending_transactions := pending_transactions h1 @ [None],
              asynchronous_messages := asynchronous_messages h1 @ [None]\<rparr>) in
         h2\<lparr>callback_transactions := [], packet_processor := processor_shutdown workers (processor_clear (packet_processor h2)),
           pending_transactions := [], asynchronous_messages := [], switch_ready := False, hal_shutdown_flag := False\<rparr>)"

section \<open>The switch state comes up\<close>

text \<open>\<open>meanwhile\<close> is what the other threads do until the request is completed.\<close>

definition ask_switch :: "(controller \<Rightarrow> controller) \<Rightarrow> hal_request \<Rightarrow> controller \<Rightarrow> controller res" where
  "ask_switch meanwhile r c = bindr (on_hal (submit (\<lambda>n. []) r True (Some 0)) c) (\<lambda>c'. Inr (meanwhile c'))"

definition switch_init2 :: "int \<Rightarrow> (controller \<Rightarrow> controller) \<Rightarrow> controller \<Rightarrow> (bool \<times> controller) res" where
  "switch_init2 now meanwhile c =
     bindr (ask_switch meanwhile (Rq_Description_Stats stats_request_clear) c) (\<lambda>c1.
     bindr (ask_switch meanwhile (Rq_Header features_request_clear) c1) (\<lambda>c2.
     bindr (ask_switch meanwhile (Rq_Header get_config_request_clear) c2) (\<lambda>c3.
       case svc_switch c3 of None \<Rightarrow> Inl OutOfBounds
       | Some sw \<Rightarrow> let ip = switch_ip_address sw; mac = get_switch_mac sw in
         if ip_is_nil ip \<or> ip_is_broadcast ip \<or> mac_is_nil mac \<or> mac_is_broadcast mac then Inr (True, c3)
         else case (svc_cam c3, svc_arp c3) of
           (Some cam, Some arp) \<Rightarrow>
             bindr (arp_insert_all now mac ip True arp) (\<lambda>arp'.
               Inr (True, c3\<lparr>svc_cam := Some (cam_insert_all now mac OFPP_CONTROLLER cam), svc_arp := Some arp'\<rparr>))
         | _ \<Rightarrow> Inr (False, c3))))"

section \<open>The other filters\<close>

text \<open>The inter-controller service takes every packet and does nothing with it.\<close>

definition inter_ironstack_filter_packet :: "of_message_packet_in \<Rightarrow> raw_packet \<Rightarrow> controller \<Rightarrow> (bool \<times> controller) res" where
  "inter_ironstack_filter_packet packet raw_pkt c = Inr (True, c)"

end
