(* ===== verification/Hal_Facts.thy ===== *)
theory Hal_Facts
  imports Hal
begin

text \<open>
  What the controller does with its services: ports that go down, removals that a barrier confirms, and starting up.
\<close>

lemma bindr_return: "bindr r Inr = r"
  by (cases r) auto

section \<open>Removing one flow\<close>

definition removable :: "openflow_flow_entry \<Rightarrow> bool" where
  "removable e = (state e = PENDING_INSTALLATION \<or> state e = ACTIVE)"

text \<open>The tables with the flows of some cookies marked.\<close>

definition mark_cookies :: "int \<Rightarrow> 64 word set \<Rightarrow> flow_table \<Rightarrow> flow_table" where
  "mark_cookies now K t = t\<lparr>flows := smap_update (\<lambda>k e. if k \<in> K then set_state now PENDING_DELETION e else e) (flows t)\<rparr>"

definition cookies_apart :: "flow_table list \<Rightarrow> bool" where
  "cookies_apart ts = (\<forall>i j k. i < length ts \<longrightarrow> j < length ts \<longrightarrow> smap_find k (flows (ts ! i)) \<noteq> None
     \<longrightarrow> smap_find k (flows (ts ! j)) \<noteq> None \<longrightarrow> i = j)"

lemma mark_cookies_simps [simp]:
  "kind (mark_cookies now K t) = kind t"
  "smap_find k (flows (mark_cookies now K t)) = map_option (\<lambda>e. if k \<in> K then set_state now PENDING_DELETION e else e) (smap_find k (flows t))"
  "smap_ok (flows (mark_cookies now K t)) = smap_ok (flows t)"
  by (simp_all add: mark_cookies_def smap_find_update)

lemma mark_cookies_mark [simp]: "mark_cookies now K (mark_cookies now L t) = mark_cookies now (K \<union> L) t"
  by (auto simp: mark_cookies_def smap_update_def set_state_def comp_def intro!: flow_table.equality)

lemma mark_cookies_none [simp]: "mark_cookies now {} t = t"
  by (simp add: mark_cookies_def smap_update_def case_prod_beta)

lemma cookies_apart_mark [simp]: "cookies_apart (map (mark_cookies now K) ts) = cookies_apart ts"
  by (auto simp: cookies_apart_def)

lemma table_ok_mark: "table_ok t \<Longrightarrow> table_ok (mark_cookies now K t)"
  by (auto simp: table_ok_def)

lemma smap_put_is_update:
  "smap_ok m \<Longrightarrow> smap_find k m = Some v \<Longrightarrow> smap_put k (f v) m = smap_update (\<lambda>k' v'. if k' \<in> {k} then f v' else v') m"
proof (induction m)
  case (Cons x m)
  obtain a b where x: "x = (a, b)" by (cases x)
  have above: "\<forall>y \<in> set (map fst m). a < y" using Cons.prems(1) by (simp add: smap_ok_def x)
  show ?case
  proof (cases "k = a")
    case True
    have "smap_update (\<lambda>k' v'. if k' \<in> {k} then f v' else v') m = m"
      using above True by (auto simp: smap_update_def intro!: map_idI)
    moreover have "v = b" using True Cons.prems(2) by (simp add: smap_find_def x)
    ultimately show ?thesis using True x by (simp add: smap_update_def)
  next
    case False
    then have "smap_find k m = Some v" using Cons.prems(2) by (simp add: smap_find_def x)
    moreover from this have "a < k" using above by (auto simp: smap_find_def dest!: map_of_SomeD)
    ultimately show ?thesis using Cons.IH Cons.prems(1) False x by (simp add: smap_ok_def smap_update_def)
  qed
qed (simp add: smap_find_def)

lemma first_table_unique:
  "i < length ts \<Longrightarrow> P (ts ! i) \<Longrightarrow> (\<And>j. j < length ts \<Longrightarrow> P (ts ! j) \<Longrightarrow> j = i) \<Longrightarrow> first_table P ts = Some i"
proof -
  assume i: "i < length ts" "P (ts ! i)" and only: "\<And>j. j < length ts \<Longrightarrow> P (ts ! j) \<Longrightarrow> j = i"
  have "first_table P ts \<noteq> None" using i nth_mem by (simp add: first_table_None) blast
  then obtain j where j: "first_table P ts = Some j" by blast
  then show ?thesis using first_table_Some [OF j] only [of j] by simp
qed

definition deletes :: "hal_transaction \<Rightarrow> openflow_flow_entry \<Rightarrow> bool" where
  "deletes tx e = (\<exists>m i. request tx = Modify_Flow m \<and> command m = OFPFC_DELETE_STRICT \<and> flow_description m = description e
     \<and> msg_type m = OFPT_FLOW_MOD \<and> needs_completion_acknowledgement tx \<and> callback tx = Table_Callback i)"

lemma remove_flow_marks:
  assumes "initialized s" "service_ok s" "cookies_apart (flow_tables s)" "t \<in> set (flow_tables s)" "smap_find k (flows t) = Some e"
    and "removable e" "list_all (\<lambda>a. get_action_type a \<noteq> VENDOR) (action_list (description e))"
    and "72 + sum_list (map action_size (action_list (description e))) < 2 ^ 32"
  shows "\<exists>tx. remove_flow now k s = Inr (k, s\<lparr>flow_tables := map (mark_cookies now {k}) (flow_tables s),
      xid_counter := xid_counter s + 1, enqueued := enqueued s @ [tx]\<rparr>) \<and> deletes tx e
      \<and> (\<exists>i. callback tx = Table_Callback i \<and> i < length (flow_tables s) \<and> flow_tables s ! i = t)
      \<and> tx_xid (service_transaction tx) = xid_counter s"
proof -
  obtain i where i: "i < length (flow_tables s)" "flow_tables s ! i = t" using assms(4) by (auto simp: in_set_conv_nth)
  have only: "j = i" if "j < length (flow_tables s)" "smap_find k (flows (flow_tables s ! j)) \<noteq> None" for j
    using assms(3,5) i that unfolding cookies_apart_def by blast
  let ?P = "\<lambda>t. get_flow_entry_by_cookie k t \<noteq> None \<and> fst (mark_entry_as_pending_deletion now k t)"
  have "?P t" using assms(5,6) by (auto simp: get_flow_entry_by_cookie_def mark_entry_as_pending_deletion_def removable_def)
  moreover have "?P u \<Longrightarrow> smap_find k (flows u) \<noteq> None" for u by (simp add: get_flow_entry_by_cookie_def)
  ultimately have first: "first_table ?P (flow_tables s) = Some i"
    using i only by (intro first_table_unique) blast+
  have ok: "smap_ok (flows t)" using assms(2,4) by (auto simp: service_ok_def list_all_iff table_ok_def)
  have t: "snd (mark_entry_as_pending_deletion now k t) = mark_cookies now {k} t"
    using assms(5,6) smap_put_is_update [OF ok assms(5), of "set_state now PENDING_DELETION"]
    by (auto simp: mark_entry_as_pending_deletion_def mark_cookies_def removable_def)
  have other: "mark_cookies now {k} (flow_tables s ! j) = flow_tables s ! j" if "j < length (flow_tables s)" "j \<noteq> i" for j
  proof -
    have "smap_find k (flows (flow_tables s ! j)) = None" using only that by blast
    then show ?thesis by (auto simp: mark_cookies_def smap_update_def smap_find_def map_of_eq_None_iff intro!: map_idI flow_table.equality)
        (metis fst_conv image_eqI)
  qed
  have tables: "(flow_tables s)[i := mark_cookies now {k} t] = map (mark_cookies now {k}) (flow_tables s)"
    by (rule nth_equalityI) (use i other in \<open>auto simp: nth_list_update\<close>)
  let ?m = "modify_flow_new\<lparr>flow_description := description e, command := OFPFC_DELETE_STRICT, use_out_port := False\<rparr>"
  have "\<exists>bs. modify_flow_serialize (?m\<lparr>xid := xid_counter s\<rparr>) = Inr bs"
    by (rule modify_flow_serialize_returns) (use assms(7,8) in simp_all)
  then obtain bs where bs: "modify_flow_serialize (?m\<lparr>xid := xid_counter s\<rparr>) = Inr bs" by blast
  show ?thesis
    by (intro exI [where x = "\<lparr>request = Modify_Flow (?m\<lparr>xid := xid_counter s\<rparr>), serialized_msg = bs,
        needs_completion_acknowledgement = True, callback = Table_Callback i\<rparr>"])
      (use assms(1,5) first i t tables bs in
        \<open>simp add: remove_flow_def get_flow_entry_by_cookie_def modify_transaction_def Let_def deletes_def modify_flow_new_def service_transaction_def\<close>)
qed

section \<open>Forgetting addresses\<close>

definition arps_ok :: "controller \<Rightarrow> bool" where
  "arps_ok c = (\<forall>a v t. svc_arp c = Some a \<longrightarrow> smap_find v (arp_tables a) = Some t \<longrightarrow> arp_ok t)"

text \<open>The whole entry that a table has for a hardware address, and for a network address.\<close>

definition arp_entry_of :: "arp_table \<Rightarrow> mac_address \<Rightarrow> arp_entry option" where
  "arp_entry_of t m = map_option (\<lambda>i. arp_mappings t ! i) (smap_find m (mac_to_idx t))"

definition arp_entry_at :: "arp_table \<Rightarrow> ip_address \<Rightarrow> arp_entry option" where
  "arp_entry_at t n = map_option (\<lambda>i. arp_mappings t ! i) (smap_find n (ip_to_idx t))"

text \<open>The second table is the first without the entries of some hardware addresses: all others are there as they were.\<close>

definition arp_without :: "mac_address set \<Rightarrow> arp_table \<Rightarrow> arp_table \<Rightarrow> bool" where
  "arp_without D t t' = ((\<forall>m. arp_entry_of t' m = (if m \<in> D then None else arp_entry_of t m))
     \<and> (\<forall>n. arp_entry_at t' n = (case arp_entry_at t n of None \<Rightarrow> None | Some e \<Rightarrow> if arp_dl_address e \<in> D then None else Some e))
     \<and> arp_max_capacity t' = arp_max_capacity t \<and> arp_timeout_sec t' = arp_timeout_sec t)"

text \<open>The same for the service, where the addresses depend on the VLAN; nothing but the tables changes.\<close>

definition arps_without :: "(16 word \<Rightarrow> mac_address set) \<Rightarrow> arp_service option \<Rightarrow> arp_service option \<Rightarrow> bool" where
  "arps_without D = rel_option (\<lambda>a a'. (\<exists>m. a' = a\<lparr>arp_tables := m\<rparr>)
     \<and> (\<forall>v. rel_option (arp_without (D v)) (smap_find v (arp_tables a)) (smap_find v (arp_tables a'))))"

lemma arp_without_none: "arp_without {} t t"
  by (simp add: arp_without_def split: option.split)

lemma arp_without_trans: "arp_without D t t' \<Longrightarrow> arp_without E t' t'' \<Longrightarrow> arp_without (D \<union> E) t t''"
  unfolding arp_without_def by (auto split: option.splits)

lemma rel_option_trans:
  "rel_option P x y \<Longrightarrow> rel_option Q y z \<Longrightarrow> (\<And>a b c. P a b \<Longrightarrow> Q b c \<Longrightarrow> R a c) \<Longrightarrow> rel_option R x z"
  by (cases x; cases y; cases z) auto

lemma same_arp_service: "\<exists>m. a = a\<lparr>arp_tables := m\<rparr>" for a :: arp_service
  by (rule exI [of _ "arp_tables a"]) simp

lemma arps_without_none: "arps_without (\<lambda>v. {}) a a"
  unfolding arps_without_def by (cases a) (simp_all add: option.rel_refl arp_without_none same_arp_service)

lemma arps_without_trans: "arps_without D a a' \<Longrightarrow> arps_without E a' a'' \<Longrightarrow> arps_without (\<lambda>v. D v \<union> E v) a a''"
  unfolding arps_without_def
  by (erule (1) rel_option_trans) (auto intro: rel_option_trans arp_without_trans)

lemma arp_remove_mac_without:
  assumes "arp_ok t"
  shows "\<exists>t'. arp_remove_mac dl t = Inr t' \<and> arp_ok t' \<and> arp_without {dl} t t'"
proof (cases "smap_find dl (mac_to_idx t)")
  case None
  have "arp_dl_address (arp_mappings t ! i) \<noteq> dl" if "smap_find n (ip_to_idx t) = Some i" for n i
    using arp_ip_mac [OF assms that] None by auto
  then have "arp_without {dl} t t" using None by (auto simp: arp_without_def arp_entry_of_def arp_entry_at_def split: option.split)
  then show ?thesis using None assms by (simp add: arp_remove_mac_eq)
next
  case (Some i)
  note i = arp_ok_mac [OF assms Some]
  let ?t = "drop_pair dl i ((arp_mappings t ! i)\<lparr>arp_valid := False\<rparr>) t"
  have mac: "j \<noteq> i" if "smap_find m (mac_to_idx t) = Some j" "m \<noteq> dl" for m j
    using arp_ok_mac(3) [OF assms that(1)] i(3) that(2) by blast
  have ip: "j \<noteq> i \<and> arp_dl_address (arp_mappings t ! j) \<noteq> dl"
    if "smap_find n (ip_to_idx t) = Some j" "n \<noteq> arp_nw_address (arp_mappings t ! i)" for n j
    using arp_ok_ip(3) [OF assms that(1)] arp_ip_mac [OF assms that(1)] Some that(2) by auto
  have "arp_entry_of ?t m = (if m \<in> {dl} then None else arp_entry_of t m)" for m
    using mac [of m] by (cases "smap_find m (mac_to_idx t)") (auto simp: arp_entry_of_def drop_pair_def smap_find_erase)
  moreover have "arp_entry_at ?t n = (case arp_entry_at t n of None \<Rightarrow> None | Some e \<Rightarrow> if arp_dl_address e \<in> {dl} then None else Some e)" for n
    using ip [of n] i(3,4) by (cases "smap_find n (ip_to_idx t)") (auto simp: arp_entry_at_def drop_pair_def smap_find_erase)
  moreover have "arp_max_capacity ?t = arp_max_capacity t \<and> arp_timeout_sec ?t = arp_timeout_sec t" by (simp add: drop_pair_def)
  ultimately have "arp_without {dl} t ?t" unfolding arp_without_def by blast
  then show ?thesis using Some arp_ok_drop_pair [OF assms Some] by (simp add: arp_remove_mac_eq [OF assms])
qed

lemma call_arp_remove_without:
  assumes "arps_ok c"
  shows "\<exists>a'. call_arp_remove dl v c = Inr (c\<lparr>svc_arp := a'\<rparr>) \<and> arps_ok (c\<lparr>svc_arp := a'\<rparr>)
    \<and> arps_without ((\<lambda>_. {})(v := {dl})) (svc_arp c) a'"
proof (cases "svc_arp c")
  case None
  then have same: "c\<lparr>svc_arp := None\<rparr> = c" by simp
  show ?thesis by (rule exI [of _ None], unfold same) (use assms None in \<open>simp add: call_arp_remove_def arps_without_def\<close>)
next
  case (Some a)
  then have same: "c\<lparr>svc_arp := Some a\<rparr> = c" by simp
  show ?thesis
  proof (cases "smap_find v (arp_tables a)")
    case None
    then have "call_arp_remove dl v c = Inr c" unfolding call_arp_remove_def Some
      by (simp add: arp_service_remove_mac_def at_arp_table_def quiet_def same)
    moreover have "arps_without ((\<lambda>_. {})(v := {dl})) (svc_arp c) (Some a)"
      using Some None by (auto simp: arps_without_def option.rel_refl arp_without_none same_arp_service)
    ultimately show ?thesis using assms by (intro exI [of _ "Some a"]) (unfold same, simp)
  next
    case t: (Some t)
    have "arp_ok t" using assms Some t by (simp add: arps_ok_def)
    from arp_remove_mac_without [OF this, of dl] obtain t' where t': "arp_remove_mac dl t = Inr t'" "arp_ok t'" "arp_without {dl} t t'"
      by blast
    let ?a = "a\<lparr>arp_tables := smap_put v t' (arp_tables a)\<rparr>"
    have "call_arp_remove dl v c = Inr (c\<lparr>svc_arp := Some ?a\<rparr>)" using Some t t'(1)
      by (simp add: call_arp_remove_def arp_service_remove_mac_def at_arp_table_def quiet_def as_unit_def)
    moreover have "arps_ok (c\<lparr>svc_arp := Some ?a\<rparr>)" using assms Some t'(2) by (auto simp: arps_ok_def smap_find_put)
    moreover have "arps_without ((\<lambda>_. {})(v := {dl})) (svc_arp c) (Some ?a)"
      using Some t t'(3) by (auto simp: arps_without_def smap_find_put option.rel_refl arp_without_none)
    ultimately show ?thesis by blast
  qed
qed

section \<open>Removing what goes to a port\<close>

definition flow_cookie :: "openflow_flow_entry \<Rightarrow> 64 word" where
  "flow_cookie e = cookie (description e)"

definition goes_to :: "16 word \<Rightarrow> openflow_flow_entry \<Rightarrow> bool" where
  "goes_to p e = (removable e \<and> outputs_only_to p e)"

lemma outputs_only_toD: "outputs_only_to p e \<Longrightarrow> \<exists>c. action_list (description e) = [Output_To_Port c p]"
  unfolding outputs_only_to_def
  by (cases "action_list (description e)"; cases "tl (action_list (description e))")
    (auto split: of_action.splits list.splits)

text \<open>The transactions that are queued for the flows \<open>es\<close>.\<close>

definition delete_queued :: "hal \<Rightarrow> hal \<Rightarrow> openflow_flow_entry list \<Rightarrow> bool" where
  "delete_queued h h' es = (\<exists>ts. list_all2 deletes ts es \<and> h' = h\<lparr>hal_xid := hal_xid h + of_nat (length es),
     pending_transactions := pending_transactions h @ map (Some \<circ> service_transaction) ts\<rparr>)"

lemma delete_queued_Cons:
  "deletes tx e \<Longrightarrow> delete_queued (h\<lparr>hal_xid := hal_xid h + 1, pending_transactions := pending_transactions h @ [Some (service_transaction tx)]\<rparr>) h' es
    \<Longrightarrow> delete_queued h h' (e # es)"
  unfolding delete_queued_def by (elim exE conjE, rule_tac x = "tx # ts" in exI) (simp add: add.assoc [symmetric])

text \<open>The addresses that the L2 flows among them are for, in each VLAN.\<close>

definition l2_addresses :: "16 word \<Rightarrow> openflow_flow_entry list \<Rightarrow> 16 word \<Rightarrow> mac_address set" where
  "l2_addresses p es v = {ethernet_dest (criteria (description e)) | e. e \<in> set es \<and> goes_to p e \<and> is_l2_flow (criteria (description e))
     \<and> vlan_id (criteria (description e)) = v}"

lemma l2_addresses_Cons:
  "goes_to p e \<Longrightarrow> l2_addresses p (e # es) = (\<lambda>v. (if is_l2_flow (criteria (description e))
     then ((\<lambda>_. {})(vlan_id (criteria (description e)) := {ethernet_dest (criteria (description e))})) v else {}) \<union> l2_addresses p es v)"
  by (auto simp: l2_addresses_def fun_eq_iff)

text \<open>What is not touched, in the flow service and in the controller.\<close>

definition flows_frame :: "flow_service \<Rightarrow> flow_service \<Rightarrow> bool" where
  "flows_frame s s' = (initialized s' = initialized s \<and> initializing s' = initializing s \<and> pending_flows s' = pending_flows s
     \<and> next_available_cookie_id s' = next_available_cookie_id s)"

definition purge_frame :: "controller \<Rightarrow> controller \<Rightarrow> bool" where
  "purge_frame c c' = (svc_switch c' = svc_switch c \<and> svc_cam c' = svc_cam c \<and> svc_policy c' = svc_policy c \<and> svc_stats c' = svc_stats c)"

lemma frames_refl: "flows_frame s s" "purge_frame c c"
  by (simp_all add: flows_frame_def purge_frame_def)

lemma frames_trans:
  "flows_frame s s' \<Longrightarrow> flows_frame s' s'' \<Longrightarrow> flows_frame s s''" "purge_frame c c' \<Longrightarrow> purge_frame c' c'' \<Longrightarrow> purge_frame c c''"
  by (simp_all add: flows_frame_def purge_frame_def)

lemma purge_flows_result:
  assumes "svc_flows c = Some s" "initialized s" "service_ok s" "cookies_apart (flow_tables s)" "arps_ok c"
    and "\<forall>e \<in> set es. goes_to p e \<longrightarrow> (\<exists>t \<in> set (flow_tables s). smap_find (flow_cookie e) (flows t) = Some e)"
    and "distinct (map flow_cookie es)"
  shows "\<exists>purged c' s'. purge_flows now p es c = Inr (purged, c') \<and> svc_flows c' = Some s'
    \<and> flow_tables s' = map (mark_cookies now (flow_cookie ` {e \<in> set es. goes_to p e})) (flow_tables s)
    \<and> delete_queued (ctl_hal c) (ctl_hal c') (filter (goes_to p) es)
    \<and> arps_without (l2_addresses p es) (svc_arp c) (svc_arp c')
    \<and> flows_frame s s' \<and> purge_frame c c'"
  using assms
proof (induction es arbitrary: c s)
  case Nil
  have "l2_addresses p [] = (\<lambda>v. {})" by (simp add: l2_addresses_def fun_eq_iff)
  then have "arps_without (l2_addresses p []) (svc_arp c) (svc_arp c)" by (simp add: arps_without_none)
  then show ?case using Nil
    by (intro exI [of _ "[]"] exI [of _ c] exI [of _ s]) (simp add: delete_queued_def frames_refl)
next
  case (Cons e es)
  show ?case
  proof (cases "goes_to p e")
    case False
    have set: "{x \<in> set (e # es). goes_to p x} = {x \<in> set es. goes_to p x}" using False by auto
    have "purge_flows now p (e # es) c = purge_flows now p es c"
      using False by (auto simp: goes_to_def removable_def)
    moreover note Cons.IH [OF Cons.prems(1-5)] 
    moreover have "l2_addresses p (e # es) = l2_addresses p es" using False by (auto simp: l2_addresses_def fun_eq_iff)
    ultimately show ?thesis using Cons.prems(6,7) False unfolding set by simp
  next
    case True
    then obtain t c0 where t: "t \<in> set (flow_tables s)" "smap_find (flow_cookie e) (flows t) = Some e"
      and out: "action_list (description e) = [Output_To_Port c0 p]"
      using Cons.prems(6) outputs_only_toD by (fastforce simp: goes_to_def)
    let ?s = "s\<lparr>xid_counter := hal_xid (ctl_hal c)\<rparr>" and ?m = "criteria (description e)"
    have "service_ok ?s" using Cons.prems(3) by (simp add: service_ok_def)
    then obtain tx where remove: "remove_flow now (flow_cookie e) ?s = Inr (flow_cookie e, ?s\<lparr>flow_tables := map (mark_cookies now {flow_cookie e}) (flow_tables s),
        xid_counter := hal_xid (ctl_hal c) + 1, enqueued := enqueued s @ [tx]\<rparr>)" and tx: "deletes tx e"
      using remove_flow_marks [of ?s t "flow_cookie e" e now] Cons.prems(2,4) t True by (auto simp: goes_to_def out)
    let ?s1 = "?s\<lparr>flow_tables := map (mark_cookies now {flow_cookie e}) (flow_tables s),
        xid_counter := hal_xid (ctl_hal c) + 1, enqueued := enqueued s @ [tx]\<rparr>"
    let ?h1 = "(ctl_hal c)\<lparr>hal_xid := hal_xid (ctl_hal c) + 1,
        pending_transactions := pending_transactions (ctl_hal c) @ [Some (service_transaction tx)]\<rparr>"
    let ?c1 = "c\<lparr>svc_flows := Some ?s1, ctl_hal := ?h1\<rparr>"
    have "call_flow_service (call_remove_flow now (flow_cookie e)) c = Inr (flow_cookie e, ?c1)"
      using Cons.prems(1) remove by (simp add: call_flow_service_def call_remove_flow_def new_transactions_def)
    moreover have "service_ok ?s1" using Cons.prems(3) by (auto simp: service_ok_def list_all_iff table_ok_mark)
    moreover have "flows_frame s ?s1" "purge_frame c ?c1" "svc_arp ?c1 = svc_arp c"
      by (simp_all add: flows_frame_def purge_frame_def)
    ultimately obtain c1 s1 where call: "call_flow_service (call_remove_flow now (flow_cookie e)) c = Inr (flow_cookie e, c1)"
      and s1: "svc_flows c1 = Some s1" "initialized s1" "service_ok s1" "flow_tables s1 = map (mark_cookies now {flow_cookie e}) (flow_tables s)"
      and c1: "ctl_hal c1 = ?h1" "svc_arp c1 = svc_arp c" and frame: "flows_frame s s1" "purge_frame c c1"
      using that [of ?c1 ?s1] Cons.prems(2) by simp
    have arps: "arps_ok c1" using Cons.prems(5) by (simp add: arps_ok_def c1(2))
    have unfold: "purge_flows now p (e # es) c = (if \<not> is_l2_flow ?m then purge_flows now p es c1
        else bindr (call_arp_remove (ethernet_dest ?m) (vlan_id ?m) c1) (\<lambda>c2.
          bindr (purge_flows now p es c2) (\<lambda>(purged, c3). Inr (ethernet_dest ?m # purged, c3))))"
      using True call by (auto simp: goes_to_def removable_def flow_cookie_def Let_def)
    let ?D = "\<lambda>v. if is_l2_flow ?m then ((\<lambda>_. {})(vlan_id ?m := {ethernet_dest ?m})) v else {}"
    obtain c2 f where step: "purge_flows now p (e # es) c = bindr (purge_flows now p es c2) (\<lambda>(purged, c3). Inr (f purged, c3))"
      and c2: "svc_flows c2 = svc_flows c1" "ctl_hal c2 = ctl_hal c1" "purge_frame c1 c2" "arps_ok c2"
        "arps_without ?D (svc_arp c) (svc_arp c2)"
    proof (cases "is_l2_flow ?m")
      case l2: True
      from call_arp_remove_without [OF arps, of "ethernet_dest ?m" "vlan_id ?m"] obtain a' where
        a': "call_arp_remove (ethernet_dest ?m) (vlan_id ?m) c1 = Inr (c1\<lparr>svc_arp := a'\<rparr>)" "arps_ok (c1\<lparr>svc_arp := a'\<rparr>)"
          "arps_without ((\<lambda>_. {})(vlan_id ?m := {ethernet_dest ?m})) (svc_arp c1) a'" by blast
      have "purge_frame c1 (c1\<lparr>svc_arp := a'\<rparr>)" by (simp add: purge_frame_def)
      moreover have "?D = (\<lambda>_. {})(vlan_id ?m := {ethernet_dest ?m})" using l2 by auto
      ultimately show ?thesis
        by (intro that [of "c1\<lparr>svc_arp := a'\<rparr>" "\<lambda>purged. ethernet_dest ?m # purged"])
          (use unfold l2 a' c1(2) in \<open>simp_all del: purge_flows.simps\<close>)
    next
      case l2: False
      then have "?D = (\<lambda>v. {})" by simp
      then show ?thesis
        by (intro that [of c1 "\<lambda>purged. purged"])
          (use unfold l2 arps c1(2) frames_refl(2) arps_without_none in \<open>simp_all add: bindr_return del: purge_flows.simps\<close>)
    qed
    have pre: "\<forall>e' \<in> set es. goes_to p e' \<longrightarrow> (\<exists>t \<in> set (flow_tables s1). smap_find (flow_cookie e') (flows t) = Some e')"
    proof (intro ballI impI)
      fix e' assume e': "e' \<in> set es" "goes_to p e'"
      obtain t' where t': "t' \<in> set (flow_tables s)" "smap_find (flow_cookie e') (flows t') = Some e'" using Cons.prems(6) e' by auto
      have "flow_cookie e' \<noteq> flow_cookie e" using Cons.prems(7) imageI [OF e'(1), of flow_cookie] by auto
      with t' show "\<exists>t \<in> set (flow_tables s1). smap_find (flow_cookie e') (flows t) = Some e'"
        by (intro bexI [of _ "mark_cookies now {flow_cookie e} t'"]) (auto simp: s1(4))
    qed
    have "svc_flows c2 = Some s1" "cookies_apart (flow_tables s1)" "distinct (map flow_cookie es)"
      using c2(1) s1(1) Cons.prems(4,7) by (simp_all add: s1(4))
    from Cons.IH [OF this(1) s1(2,3) this(2) c2(4) pre this(3)]
    obtain purged c' s' where IH: "purge_flows now p es c2 = Inr (purged, c')" "svc_flows c' = Some s'"
        "flow_tables s' = map (mark_cookies now (flow_cookie ` {e \<in> set es. goes_to p e})) (flow_tables s1)"
        "delete_queued (ctl_hal c2) (ctl_hal c') (filter (goes_to p) es)"
        "arps_without (l2_addresses p es) (svc_arp c2) (svc_arp c')" "flows_frame s1 s'" "purge_frame c2 c'"
      by (elim exE conjE)
    have set: "{y \<in> set (e # es). goes_to p y} = insert e {y \<in> set es. goes_to p y}" using True by auto
    have "flow_tables s' = map (mark_cookies now (flow_cookie ` {y \<in> set (e # es). goes_to p y})) (flow_tables s)"
      unfolding set using IH(3) by (simp add: s1(4) comp_def)
    moreover have "delete_queued (ctl_hal c) (ctl_hal c') (filter (goes_to p) (e # es))"
      using delete_queued_Cons [OF tx, of "ctl_hal c"] IH(4) c2(2) c1(1) True by simp
    moreover have "purge_flows now p (e # es) c = Inr (f purged, c')" using step IH(1) by (simp del: purge_flows.simps)
    moreover have "arps_without (l2_addresses p (e # es)) (svc_arp c) (svc_arp c')"
      unfolding l2_addresses_Cons [OF True] by (rule arps_without_trans [OF c2(5) IH(5)])
    moreover have "flows_frame s s'" by (rule frames_trans(1) [OF frame(1) IH(6)])
    moreover have "purge_frame c c'"
      using frames_trans(2) [OF frame(2) frames_trans(2) [OF c2(3) IH(7)]] .
    ultimately show ?thesis using IH(2) by blast
  qed
qed

lemma get_flows_in:
  assumes "initialized s" "service_ok s"
  shows "e \<in> set (get_flows s) \<longleftrightarrow> (\<exists>t \<in> set (flow_tables s). smap_find (flow_cookie e) (flows t) = Some e)"
proof -
  have "e \<in> snd ` set (flows t) \<longleftrightarrow> smap_find (flow_cookie e) (flows t) = Some e" if "t \<in> set (flow_tables s)" for t
  proof -
    have ok: "smap_ok (flows t)" "\<forall>k e. smap_find k (flows t) = Some e \<longrightarrow> cookie (description e) = k"
      using assms(2) that by (auto simp: service_ok_def list_all_iff table_ok_def Flow_Table.entry_ok_def)
    have find: "(k, e) \<in> set (flows t) \<longleftrightarrow> smap_find k (flows t) = Some e" for k
      using ok(1) by (simp add: smap_find_def smap_ok_def strict_sorted_iff)
    show ?thesis using find ok(2) by (force simp: flow_cookie_def)
  qed
  then show ?thesis using assms(1) by (auto simp: get_flows_def get_all_flows_def)
qed

lemma apart_distinct:
  "cookies_apart ts \<Longrightarrow> list_all table_ok ts \<Longrightarrow> distinct (concat (map (\<lambda>t. map fst (flows t)) ts))"
proof (induction ts)
  case (Cons t ts)
  have find: "k \<in> set (map fst (flows u)) \<longleftrightarrow> smap_find k (flows u) \<noteq> None" for k u
    by (simp add: smap_find_def map_of_eq_None_iff)
  have "cookies_apart ts"
    using Cons.prems(1) unfolding cookies_apart_def by (metis Suc_inject Suc_less_eq length_Cons nth_Cons_Suc)
  moreover have "set (map fst (flows t)) \<inter> set (map fst (flows u)) = {}" if u: "u \<in> set ts" for u
  proof -
    obtain j where j: "j < length ts" "u = ts ! j" using u by (auto simp: in_set_conv_nth)
    have "False" if "smap_find k (flows t) \<noteq> None" "smap_find k (flows u) \<noteq> None" for k
      using Cons.prems(1) [unfolded cookies_apart_def, rule_format, of 0 "Suc j" k] j that by simp
    then show ?thesis unfolding find [symmetric] by blast
  qed
  moreover have "distinct (map fst (flows t))" using Cons.prems(2) by (simp add: table_ok_def smap_ok_def strict_sorted_iff)
  ultimately show ?case using Cons.IH Cons.prems(2) by fastforce
qed simp

lemma get_flows_distinct:
  assumes "service_ok s" "cookies_apart (flow_tables s)"
  shows "distinct (map flow_cookie (get_flows s))"
proof (cases "initialized s")
  case True
  have keys: "map flow_cookie (get_all_flows True t) = map fst (flows t)" if "t \<in> set (flow_tables s)" for t
  proof -
    have "table_ok t" using assms(1) that by (simp add: service_ok_def list_all_iff)
    then have "flow_cookie e = k" if "(k, e) \<in> set (flows t)" for k e
      using that by (auto simp: flow_cookie_def table_ok_def Flow_Table.entry_ok_def smap_ok_def strict_sorted_iff smap_find_def)
    then show ?thesis by (auto simp: get_all_flows_def)
  qed
  have "map flow_cookie (get_flows s) = concat (map (\<lambda>t. map fst (flows t)) (flow_tables s))"
    using True keys by (simp add: get_flows_def map_concat comp_def cong: map_cong)
  then show ?thesis using apart_distinct [OF assms(2)] assms(1) by (simp add: service_ok_def)
qed (simp add: get_flows_def)

text \<open>C6. When a port goes down, the controller forgets what is behind it and nothing else. Every flow that is installed or
  about to be and only sends to that port is marked, and its deletion is requested from the switch in the order of the tables;
  every other entry of every flow table is as it was. Every CAM table loses exactly the entries for that port. The ARP table of a
  VLAN loses exactly the entries for the addresses of the L2 flows of that VLAN among them: all other entries are found as they
  were, under both of their addresses. The switch state, the flow policies, the statistics and the rest of the services stay.\<close>

theorem port_down_purges:
  assumes "\<not> is_up (vp_port v)" "p = port_number (vp_port v)" "svc_flows c = Some s" "initialized s" "service_ok s"
    and "cookies_apart (flow_tables s)" "arps_ok c"
  shows "\<exists>c' s'. switch_port_modification_callback now v c = Inr c' \<and> svc_flows c' = Some s'
    \<and> length (flow_tables s') = length (flow_tables s)
    \<and> (\<forall>i k. i < length (flow_tables s) \<longrightarrow> smap_find k (flows (flow_tables s' ! i)) =
        map_option (\<lambda>e. if goes_to p e then set_state now PENDING_DELETION e else e) (smap_find k (flows (flow_tables s ! i))))
    \<and> delete_queued (ctl_hal c) (ctl_hal c') (filter (goes_to p) (get_flows s))
    \<and> svc_cam c' = map_option (\<lambda>cam. cam\<lparr>cam_tables := map (\<lambda>(vlan, t). (vlan,
          t\<lparr>cam_mappings := filter (\<lambda>(m, e). phy_port e \<noteq> p) (cam_mappings t)\<rparr>)) (cam_tables cam)\<rparr>) (svc_cam c)
    \<and> arps_without (\<lambda>vlan. {ethernet_dest (criteria (description e)) | e. e \<in> set (get_flows s) \<and> goes_to p e
          \<and> is_l2_flow (criteria (description e)) \<and> vlan_id (criteria (description e)) = vlan}) (svc_arp c) (svc_arp c')
    \<and> s' = s\<lparr>flow_tables := flow_tables s', xid_counter := xid_counter s', enqueued := enqueued s'\<rparr>
    \<and> c' = c\<lparr>svc_flows := svc_flows c', svc_cam := svc_cam c', svc_arp := svc_arp c', ctl_hal := ctl_hal c'\<rparr>"
proof -
  let ?c = "call_cam_remove p c" and ?K = "flow_cookie ` {e \<in> set (get_flows s). goes_to p e}"
  have flows: "\<forall>e \<in> set (get_flows s). goes_to p e \<longrightarrow> (\<exists>t \<in> set (flow_tables s). smap_find (flow_cookie e) (flows t) = Some e)"
    using get_flows_in [OF assms(4,5)] by blast
  have c: "svc_flows ?c = Some s" "arps_ok ?c" "ctl_hal ?c = ctl_hal c" "svc_arp ?c = svc_arp c"
    using assms(3,7) by (simp_all add: call_cam_remove_def arps_ok_def)
  obtain purged c' s' where r: "purge_flows now p (get_flows s) ?c = Inr (purged, c')" "svc_flows c' = Some s'"
      "flow_tables s' = map (mark_cookies now ?K) (flow_tables s)"
      "delete_queued (ctl_hal ?c) (ctl_hal c') (filter (goes_to p) (get_flows s))"
      "arps_without (l2_addresses p (get_flows s)) (svc_arp ?c) (svc_arp c')" "flows_frame s s'" "purge_frame ?c c'"
    using purge_flows_result [OF c(1) assms(4-6) c(2) flows get_flows_distinct [OF assms(5,6)]] by blast
  have "switch_port_modification_callback now v c = Inr c'"
    using assms(1,2) c(1) r(1) by (simp add: switch_port_modification_callback_def Let_def)
  moreover have "smap_find k (flows (flow_tables s' ! i)) =
      map_option (\<lambda>e. if goes_to p e then set_state now PENDING_DELETION e else e) (smap_find k (flows (flow_tables s ! i)))"
    if i: "i < length (flow_tables s)" for i k
  proof (cases "smap_find k (flows (flow_tables s ! i))")
    case (Some e)
    have "table_ok (flow_tables s ! i)" using assms(5) i by (simp add: service_ok_def list_all_length)
    then have k: "k = flow_cookie e" using Some by (simp add: table_ok_def Flow_Table.entry_ok_def flow_cookie_def)
    have "k \<in> ?K \<longleftrightarrow> goes_to p e"
    proof
      assume "k \<in> ?K"
      then obtain e' j where e': "flow_cookie e' = k" "goes_to p e'" "j < length (flow_tables s)"
          "smap_find k (flows (flow_tables s ! j)) = Some e'"
        using get_flows_in [OF assms(4,5)] by (auto simp: in_set_conv_nth)
      then have "j = i" using assms(6) i Some unfolding cookies_apart_def by blast
      then show "goes_to p e" using e'(2,4) Some by simp
    next
      assume "goes_to p e"
      moreover have "e \<in> set (get_flows s)" using get_flows_in [OF assms(4,5)] Some k i nth_mem by blast
      ultimately show "k \<in> ?K" using k by blast
    qed
    then show ?thesis using Some i r(3) by simp
  qed (simp add: i r(3))
  moreover have "length (flow_tables s') = length (flow_tables s)" by (simp add: r(3))
  moreover have "svc_cam c' = map_option (\<lambda>cam. cam\<lparr>cam_tables := map (\<lambda>(vlan, t). (vlan,
      t\<lparr>cam_mappings := filter (\<lambda>(m, e). phy_port e \<noteq> p) (cam_mappings t)\<rparr>)) (cam_tables cam)\<rparr>) (svc_cam c)"
    using r(7) by (auto simp: purge_frame_def call_cam_remove_def cam_service_remove_port_def on_all_cam_tables_def smap_update_def
        cam_remove_port_def smap_erase_if_filter comp_def case_prod_unfold intro!: option.map_cong)
  moreover have "s' = s\<lparr>flow_tables := flow_tables s', xid_counter := xid_counter s', enqueued := enqueued s'\<rparr>"
    using r(6) by (intro flow_service.equality) (simp_all add: flows_frame_def)
  moreover have "c' = c\<lparr>svc_flows := svc_flows c', svc_cam := svc_cam c', svc_arp := svc_arp c', ctl_hal := ctl_hal c'\<rparr>"
    using r(7) by (intro controller.equality) (simp_all add: purge_frame_def call_cam_remove_def)
  ultimately show ?thesis using r(2,4,5) unfolding c(3,4) l2_addresses_def by blast
qed

text \<open>An L2 flow to port 3.\<close>

definition behind_port_3 :: controller where
  "behind_port_3 = some_controller\<lparr>svc_flows := Some (started_service [l2_table_with ((l2_rule (MAC 7 0 0 0 0 0) 20 3)\<lparr>cookie := 5\<rparr>)])\<rparr>"

definition port_3_down :: openflow_vlan_port where
  "port_3_down = vlan_port_new\<lparr>vp_port := openflow_port_new\<lparr>port_number := 3, config := (config openflow_port_new)\<lparr>port_down := True\<rparr>\<rparr>\<rparr>"

abbreviation l2_entry_5 :: openflow_flow_entry where
  "l2_entry_5 \<equiv> (flow_entry_new 0)\<lparr>state := ACTIVE, description := (l2_rule (MAC 7 0 0 0 0 0) 20 3)\<lparr>cookie := 5\<rparr>\<rparr>"

lemma behind_port_3_facts:
  defines "s \<equiv> started_service [l2_table_with ((l2_rule (MAC 7 0 0 0 0 0) 20 3)\<lparr>cookie := 5\<rparr>)]"
  shows "svc_flows behind_port_3 = Some s" "initialized s" "service_ok s" "cookies_apart (flow_tables s)" "arps_ok behind_port_3"
    "flow_tables s = [l2_table_with ((l2_rule (MAC 7 0 0 0 0 0) 20 3)\<lparr>cookie := 5\<rparr>)]"
    "flows (l2_table_with ((l2_rule (MAC 7 0 0 0 0 0) 20 3)\<lparr>cookie := 5\<rparr>)) = [(5, l2_entry_5)]" "get_flows s = [l2_entry_5]"
proof -
  have "check_table_fit Dell_L2 ((l2_rule (MAC 7 0 0 0 0 0) 20 3)\<lparr>cookie := 5\<rparr>)"
    by (rule l2_rule_fits) (simp add: mac_is_broadcast_iff mac_broadcast_def)
  then show "service_ok s" using l2_table_with_ok by (simp add: service_ok_def s_def)
qed (simp_all add: s_def behind_port_3_def arps_ok_def some_controller_def cookies_apart_def l2_table_with_def get_flows_def get_all_flows_def)

text \<open>The same with two addresses in VLAN 20: one behind port 3, one behind port 4.\<close>

definition two_arps :: arp_table where
  "two_arps = (arp_table_new 0)\<lparr>arp_max_capacity := 2,
     mac_to_idx := [(MAC 7 0 0 0 0 0, 0), (MAC 8 0 0 0 0 0, 1)], ip_to_idx := [(IP 10 0 0 7, 0), (IP 10 0 0 8, 1)],
     arp_mappings := [arp_entry_new 0 (MAC 7 0 0 0 0 0) (IP 10 0 0 7), arp_entry_new 0 (MAC 8 0 0 0 0 0) (IP 10 0 0 8)]\<rparr>"

definition two_addresses :: controller where
  "two_addresses = behind_port_3\<lparr>
     svc_cam := Some \<lparr>cam_initialized = True, cam_tables = [(20, cam_table_new\<lparr>cam_mappings :=
       [(MAC 7 0 0 0 0 0, cam_entry_new 0 (MAC 7 0 0 0 0 0) 3), (MAC 8 0 0 0 0 0, cam_entry_new 0 (MAC 8 0 0 0 0 0) 4)]\<rparr>)]\<rparr>,
     svc_arp := Some (arp_service_new\<lparr>arp_tables := [(20, two_arps)]\<rparr>)\<rparr>"

lemma two_addresses_arps_ok: "arps_ok two_addresses"
  by (auto simp: mac_less_def ip_less_def ip_be32_def of_le32_def of_bytes_def arps_ok_def two_addresses_def two_arps_def smap_find_def arp_ok_def smap_ok_def less_mac_address_def less_ip_address_def
      arp_entry_new_def split: if_splits)

text \<open>When port 3 goes down, its flow is marked and asked to be deleted, and only the address behind port 4 is left in both
  tables.\<close>

theorem port_down_purges_witness:
  "\<exists>c' s'. switch_port_modification_callback 9 port_3_down two_addresses = Inr c' \<and> svc_flows c' = Some s'
    \<and> map_option state (smap_find 5 (flows (flow_tables s' ! 0))) = Some PENDING_DELETION
    \<and> length (pending_transactions (ctl_hal c')) = 1
    \<and> map (\<lambda>(vlan, t). (vlan, map fst (cam_mappings t))) (cam_tables (the (svc_cam c'))) = [(20, [MAC 8 0 0 0 0 0])]
    \<and> (\<exists>t. smap_find 20 (arp_tables (the (svc_arp c'))) = Some t \<and> arp_entry_of t (MAC 7 0 0 0 0 0) = None
         \<and> map_option arp_nw_address (arp_entry_of t (MAC 8 0 0 0 0 0)) = Some (IP 10 0 0 8))"
proof -
  note c = behind_port_3_facts
  have svc: "svc_flows two_addresses = svc_flows behind_port_3" by (simp add: two_addresses_def)
  have down: "\<not> is_up (vp_port port_3_down)" "port_number (vp_port port_3_down) = 3"
    by (simp_all add: is_up_def port_3_down_def)
  have goes: "goes_to 3 l2_entry_5" by (simp add: goes_to_def removable_def outputs_only_to_def l2_rule_def)
  have l2: "is_l2_flow (criteria (l2_rule (MAC 7 0 0 0 0 0) 20 3))" "ethernet_dest (criteria (l2_rule (MAC 7 0 0 0 0 0) 20 3)) = MAC 7 0 0 0 0 0"
    "vlan_id (criteria (l2_rule (MAC 7 0 0 0 0 0) 20 3)) = 20"
    by (simp_all add: l2_rule_def is_l2_flow_def of_match_wildcard_all_def)
  have s: "svc_flows two_addresses = Some (started_service [l2_table_with ((l2_rule (MAC 7 0 0 0 0 0) 20 3)\<lparr>cookie := 5\<rparr>)])"
    unfolding svc by (rule c(1))
  have flow: "smap_find 5 (flows (flow_tables (started_service [l2_table_with ((l2_rule (MAC 7 0 0 0 0 0) 20 3)\<lparr>cookie := 5\<rparr>)]) ! 0)) = Some l2_entry_5"
    by (simp add: c(6,7) smap_find_def)
  note down_all = port_down_purges [OF down(1) refl s c(2-4) two_addresses_arps_ok, of 9, unfolded down(2) c(8)]
  obtain c' s' where
    r: "switch_port_modification_callback 9 port_3_down two_addresses = Inr c'" "svc_flows c' = Some s'"
      "smap_find 5 (flows (flow_tables s' ! 0)) = Some (set_state 9 PENDING_DELETION l2_entry_5)"
      "delete_queued (ctl_hal two_addresses) (ctl_hal c') [l2_entry_5]"
    and cam: "svc_cam c' = map_option (\<lambda>cam. cam\<lparr>cam_tables := map (\<lambda>(vlan, t). (vlan,
          t\<lparr>cam_mappings := filter (\<lambda>(m, e). phy_port e \<noteq> 3) (cam_mappings t)\<rparr>)) (cam_tables cam)\<rparr>) (svc_cam two_addresses)"
    and arp: "arps_without (\<lambda>vlan. {ethernet_dest (criteria (description e)) | e. e \<in> set [l2_entry_5] \<and> goes_to 3 e
          \<and> is_l2_flow (criteria (description e)) \<and> vlan_id (criteria (description e)) = vlan}) (svc_arp two_addresses) (svc_arp c')"
    using down_all by (elim exE conjE) (rule that, assumption, assumption, use flow goes c(6) in simp, use goes in simp, assumption, assumption)
  have cams: "map (\<lambda>(vlan, t). (vlan, map fst (cam_mappings t))) (cam_tables (the (svc_cam c'))) = [(20, [MAC 8 0 0 0 0 0])]"
    by (simp add: cam two_addresses_def cam_entry_new_def)
  have "{ethernet_dest (criteria (description e)) | e. e \<in> set [l2_entry_5] \<and> goes_to 3 e
      \<and> is_l2_flow (criteria (description e)) \<and> vlan_id (criteria (description e)) = vlan} = (if vlan = 20 then {MAC 7 0 0 0 0 0} else {})" for vlan
    using l2 goes by auto
  then have "rel_option (arp_without {MAC 7 0 0 0 0 0}) (smap_find (20 :: 16 word) [(20, two_arps)]) (smap_find 20 (arp_tables (the (svc_arp c'))))"
    using arp by (auto simp: arps_without_def two_addresses_def option_rel_Some1 dest!: spec [of _ 20])
  then obtain t where "smap_find 20 (arp_tables (the (svc_arp c'))) = Some t" "arp_without {MAC 7 0 0 0 0 0} two_arps t"
    by (auto simp: smap_find_def [of _ "[_]"] option_rel_Some1)
  then have arps: "\<exists>t. smap_find 20 (arp_tables (the (svc_arp c'))) = Some t \<and> arp_entry_of t (MAC 7 0 0 0 0 0) = None
         \<and> map_option arp_nw_address (arp_entry_of t (MAC 8 0 0 0 0 0)) = Some (IP 10 0 0 8)"
    by (intro exI [of _ t]) (simp add: arp_without_def arp_entry_of_def two_arps_def smap_find_def arp_entry_new_def)
  have "length (pending_transactions (ctl_hal c')) = 1"
    using r(4) by (auto simp: delete_queued_def two_addresses_def behind_port_3_def some_controller_def hal_new_def list_all2_Cons2)
  with r(1-3) cams arps show ?thesis by (intro exI [of _ c'] exI [of _ s']) simp
qed

section \<open>A port that is removed\<close>

lemma port_callbacks_up:
  "\<forall>(cob, v) \<in> set calls. is_up (vp_port v) \<Longrightarrow> port_callbacks now calls c = Inr c"
  by (induction calls) (auto simp: switch_port_modification_callback_def)

text \<open>C13. When the switch reports that a port has been removed which was up, nothing is forgotten: the port is marked as invalid,
  but the callbacks are given its last description, take the port for one that is up and return; flows, CAM and ARP tables stay
  as they are.\<close>

theorem removed_port_keeps_flows:
  assumes "msg_type r = OFPT_PORT_STATUS" "reason r = OFPPR_DELETE" "svc_switch c = Some sw" "ss_initialized sw"
    and "port_number (port_description r) < 0xff00" "smap_find (port_number (port_description r)) (ss_ports sw) = Some v" "is_up (vp_port v)"
  shows "\<exists>sw'. process_message env alive (Port_Status r) c = Inr ([], c\<lparr>svc_switch := Some sw'\<rparr>)
    \<and> \<not> vp_valid (port_at (port_number (port_description r)) (ss_ports sw'))"
proof -
  let ?p = "port_number (port_description r)"
  let ?v = "set_valid False v" and ?ports = "smap_put ?p (set_valid False v) (ss_ports sw)"
  have m: "maybe_create_port ?p (ss_ports sw) = ss_ports sw" "remove_port ?p (ss_ports sw) = ?ports" "port_at ?p ?ports = ?v"
    using assms(5,6) by (simp_all add: maybe_create_port_def remove_port_def port_at_def smap_find_put not_le [symmetric])
  have small: "\<not> 0xff00 \<le> ?p" using assms(5) by (simp add: not_le)
  obtain calls where up: "update_switch_port alive r sw = (calls, sw\<lparr>ss_ports := ?ports\<rparr>)" "\<forall>(cob, u) \<in> set calls. is_up (vp_port u)"
    using assms(2,4,7) m small by (auto simp: update_switch_port_def Let_def perform_port_mod_callbacks_def set_valid_def)
  have "handle_message env alive (Port_Status r) c = Inr (None, c\<lparr>svc_switch := Some (sw\<lparr>ss_ports := ?ports\<rparr>)\<rparr>)"
    using assms(1,3) up(1) port_callbacks_up [OF up(2)] by (simp add: handle_message_def handle_report_def handle_port_status_def Let_def ofpt_codes)
  then have "process_message env alive (Port_Status r) c = Inr ([], c\<lparr>svc_switch := Some (sw\<lparr>ss_ports := ?ports\<rparr>)\<rparr>)"
    by (simp add: process_message_def)
  then show ?thesis using m(3) by (intro exI [of _ "sw\<lparr>ss_ports := ?ports\<rparr>"]) (simp add: set_valid_def)
qed

definition port_1_removed :: of_message_port_status where
  "port_1_removed = (port_status_clear (openflow_port_new\<lparr>port_number := 1\<rparr>))\<lparr>msg_type := OFPT_PORT_STATUS, reason := OFPPR_DELETE\<rparr>"

theorem removed_port_keeps_flows_witness:
  "\<forall>env alive. \<exists>sw'. process_message env alive (Port_Status port_1_removed) (some_controller\<lparr>svc_switch := Some (three_ports\<lparr>ss_initialized := True\<rparr>)\<rparr>)
      = Inr ([], some_controller\<lparr>svc_switch := Some sw'\<rparr>) \<and> \<not> vp_valid (port_at 1 (ss_ports sw'))"
proof (intro allI)
  fix env alive
  let ?sw = "three_ports\<lparr>ss_initialized := True\<rparr>" and ?c = "some_controller\<lparr>svc_switch := Some (three_ports\<lparr>ss_initialized := True\<rparr>)\<rparr>"
  let ?v = "vlan_port_new\<lparr>vp_valid := True, vlan_membership := {10}, vp_port := openflow_port_new\<lparr>port_number := 1\<rparr>\<rparr>"
  have port: "msg_type port_1_removed = OFPT_PORT_STATUS" "reason port_1_removed = OFPPR_DELETE" "port_number (port_description port_1_removed) = 1"
    by (simp_all add: port_1_removed_def port_status_clear_def)
  have "smap_find 1 (ss_ports ?sw) = Some ?v" "is_up (vp_port ?v)"
    by (simp_all add: three_ports_def smap_find_def is_up_def openflow_port_new_def port_state_clear_def port_config_clear_def)
  then show "\<exists>sw'. process_message env alive (Port_Status port_1_removed) ?c = Inr ([], some_controller\<lparr>svc_switch := Some sw'\<rparr>)
      \<and> \<not> vp_valid (port_at 1 (ss_ports sw'))"
    using removed_port_keeps_flows [OF port(1,2), of ?c ?sw ?v env alive] by (auto simp: port(3))
qed

section \<open>Starting\<close>

lemma await_message_flag:
  "await_message t stream h = Inr (ok, rest, h') \<Longrightarrow> hal_under_initialization h' = hal_under_initialization h"
proof (induction t stream h rule: await_message.induct)
  case (1 t stream h)
  then show ?case
    by (subst (asm) (2) await_message.simps) (auto simp: recv_round_def split: sum.splits prod.splits option.splits if_splits)
qed

lemma handshake_flag:
  "hal_handshake sent_ok stream h = Inr (ok, rest, h') \<Longrightarrow> hal_under_initialization h' = hal_under_initialization h"
  by (auto simp: hal_handshake_def reserve_xid_def say_def bindr_Inr_iff dest!: await_message_flag split: if_splits)

text \<open>C14. A controller that could not be started can never be started: once \<open>init\<close> has returned false for whatever reason (or has
  returned true because the controller was running), it returns false at every later call, whatever the circumstances.\<close>

theorem init_failure_sticks:
  assumes "hal_init listening allowed attempts sent_ok stream obj alive init init2 services (h, c, s) = Some (Inr (ok, h', c', s'))"
    and "\<not> ok \<or> switch_ready h \<and> \<not> hal_shutdown_flag h"
  shows "hal_init listening2 allowed2 attempts2 sent_ok2 stream2 obj2 alive2 init_2 init2_2 services2 (h', c2, s2) = Some (Inr (False, h', c2, s2))"
proof -
  have "hal_under_initialization h'"
  proof (cases "hal_under_initialization h \<or> (switch_ready h \<and> \<not> hal_shutdown_flag h) \<or> \<not> listening")
    case True
    then show ?thesis using assms by (auto simp: hal_init_def Let_def split: if_splits)
  next
    case False
    then have "\<not> ok" using assms(2) by blast
    let ?h = "h\<lparr>hal_under_initialization := True\<rparr>"
    obtain ok1 stream' h2 where hs: "hal_handshake sent_ok stream ?h = Inr (ok1, stream', h2)"
      using assms(1) False by (auto simp: hal_init_def Let_def bindr_Inr_iff split: if_splits)
    then have "\<not> ok1" using assms(1) False \<open>\<not> ok\<close>
      by (auto simp: hal_init_def Let_def bindr_Inr_iff case_prod_beta split: if_splits)
    then have "h' = h2" using assms(1) False hs by (auto simp: hal_init_def Let_def split: if_splits)
    then show ?thesis using handshake_flag [OF hs] by simp
  qed
  then show ?thesis by (simp add: hal_init_def)
qed

theorem init_failure_sticks_witness:
  "\<forall>stream obj alive init init2 c s. \<exists>h'. hal_init False {} [] (\<lambda>i. True) [] obj alive init init2 [] (hal_new, c, s) = Some (Inr (False, h', c, s))
    \<and> hal_init True {} [(True, ip_nil)] (\<lambda>i. True) stream obj alive init init2 [] (h', c, s) = Some (Inr (False, h', c, s))"
proof (intro allI)
  fix stream obj alive init init2 c s
  let ?h = "hal_new\<lparr>hal_under_initialization := True\<rparr>"
  have first: "hal_init False {} [] (\<lambda>i. True) [] obj alive init init2 [] (hal_new, c, s) = Some (Inr (False, ?h, c, s))"
    by (simp add: hal_init_def hal_new_def)
  show "\<exists>h'. hal_init False {} [] (\<lambda>i. True) [] obj alive init init2 [] (hal_new, c, s) = Some (Inr (False, h', c, s))
      \<and> hal_init True {} [(True, ip_nil)] (\<lambda>i. True) stream obj alive init init2 [] (h', c, s) = Some (Inr (False, h', c, s))"
    by (intro exI [of _ ?h] conjI first, rule init_failure_sticks [OF first]) simp
qed

section \<open>Removals that a barrier confirms\<close>

text \<open>What waits has a callback, and a flow table is called back about a flow modification.\<close>

definition calls_ok :: "nat \<Rightarrow> transaction list \<Rightarrow> bool" where
  "calls_ok n ts = (\<forall>t \<in> set ts. \<exists>cob. tx_callback t = Some cob
     \<and> (\<forall>i. cob = Suc i \<longrightarrow> i < n \<and> (\<exists>m. tx_request t = Rq_Modify_Flow m \<and> msg_type m = OFPT_FLOW_MOD)))"

text \<open>What a completion does to a table: entries stay, and what is deleted stays deleted.\<close>

lemma completion_states:
  assumes "msg_type m = OFPT_FLOW_MOD"
  shows "\<exists>t'. table_hal_callback now m reply status t = Inr t' \<and> (\<forall>k. state_of k t' = None \<longleftrightarrow> state_of k t = None)
    \<and> (\<forall>k. state_of k t = Some DELETED \<longrightarrow> state_of k t' = Some DELETED)
    \<and> (reply = No_Reply \<longrightarrow> \<not> is_add_command (command m) \<longrightarrow> state_of (cookie (flow_description m)) t \<noteq> None
        \<longrightarrow> state_of (cookie (flow_description m)) t' = Some DELETED)"
  using assms
  by (auto simp: table_hal_callback_def mark_entry_as_installed_def mark_entry_as_deleted_def state_of_def smap_find_put
      split: hal_reply.split option.split flow_state.split)

definition tables_after :: "flow_table list \<Rightarrow> flow_table list \<Rightarrow> bool" where
  "tables_after ts ts' = (length ts' = length ts \<and> (\<forall>i k. i < length ts \<longrightarrow> (state_of k (ts' ! i) = None \<longleftrightarrow> state_of k (ts ! i) = None)
     \<and> (state_of k (ts ! i) = Some DELETED \<longrightarrow> state_of k (ts' ! i) = Some DELETED)))"

lemma call_all_effect:
  assumes "svc_flows c = Some s" "calls_ok (length (flow_tables s)) ts"
  shows "\<exists>s'. call_all now (map (barrier_call reply x) ts) c = Inr (c\<lparr>svc_flows := Some s'\<rparr>) \<and> tables_after (flow_tables s) (flow_tables s')
    \<and> (\<forall>t \<in> set ts. \<forall>i m. tx_callback t = Some (Suc i) \<longrightarrow> tx_request t = Rq_Modify_Flow m \<longrightarrow> tx_xid t \<noteq> x
        \<longrightarrow> \<not> is_add_command (command m) \<longrightarrow> state_of (cookie (flow_description m)) (flow_tables s ! i) \<noteq> None
        \<longrightarrow> state_of (cookie (flow_description m)) (flow_tables s' ! i) = Some DELETED)"
  using assms
proof (induction ts arbitrary: c s)
  case Nil
  then show ?case by (intro exI [of _ s]) (simp add: tables_after_def)
next
  case (Cons t ts)
  obtain cob where cob: "tx_callback t = Some cob" using Cons.prems(2) by (auto simp: calls_ok_def)
  have ok: "calls_ok (length (flow_tables s)) ts" using Cons.prems(2) by (simp add: calls_ok_def)
  show ?case
  proof (cases cob)
    case 0
    then have "call_all now (map (barrier_call reply x) (t # ts)) c = call_all now (map (barrier_call reply x) ts) c"
      by (simp add: barrier_call_def call_back_def cob Let_def)
    with Cons.IH [OF Cons.prems(1) ok] show ?thesis using 0 cob by auto
  next
    case (Suc i)
    then obtain m where m: "i < length (flow_tables s)" "tx_request t = Rq_Modify_Flow m" "msg_type m = OFPT_FLOW_MOD"
      using Cons.prems(2) cob by (auto simp: calls_ok_def)
    let ?reply = "if tx_xid t = x then Reply (message_type reply) else No_Reply"
    obtain t' where t': "table_hal_callback now m ?reply True (flow_tables s ! i) = Inr t'"
        "\<forall>k. state_of k t' = None \<longleftrightarrow> state_of k (flow_tables s ! i) = None"
        "\<forall>k. state_of k (flow_tables s ! i) = Some DELETED \<longrightarrow> state_of k t' = Some DELETED"
        "?reply = No_Reply \<longrightarrow> \<not> is_add_command (command m) \<longrightarrow> state_of (cookie (flow_description m)) (flow_tables s ! i) \<noteq> None
          \<longrightarrow> state_of (cookie (flow_description m)) t' = Some DELETED"
      using completion_states [OF m(3), of now ?reply True "flow_tables s ! i"] by blast
    let ?s = "s\<lparr>flow_tables := (flow_tables s)[i := t']\<rparr>" and ?c = "c\<lparr>svc_flows := Some (s\<lparr>flow_tables := (flow_tables s)[i := t']\<rparr>)\<rparr>"
    have "call_back now (barrier_call reply x t) c = Inr ?c"
      using Cons.prems(1) cob Suc m(1,2) t'(1)
      by (simp add: barrier_call_def call_back_def Let_def on_flows_def table_completion_def split: if_splits)
    then have call: "call_all now (map (barrier_call reply x) (t # ts)) c = call_all now (map (barrier_call reply x) ts) ?c" by simp
    obtain s' where s': "call_all now (map (barrier_call reply x) ts) ?c = Inr (?c\<lparr>svc_flows := Some s'\<rparr>)"
        "tables_after (flow_tables ?s) (flow_tables s')"
        "\<forall>t \<in> set ts. \<forall>i m. tx_callback t = Some (Suc i) \<longrightarrow> tx_request t = Rq_Modify_Flow m \<longrightarrow> tx_xid t \<noteq> x
        \<longrightarrow> \<not> is_add_command (command m) \<longrightarrow> state_of (cookie (flow_description m)) (flow_tables ?s ! i) \<noteq> None
        \<longrightarrow> state_of (cookie (flow_description m)) (flow_tables s' ! i) = Some DELETED"
      using Cons.IH [of ?c ?s] ok by auto
    have after: "tables_after (flow_tables s) (flow_tables ?s)" using t'(2,3) m(1) by (auto simp: tables_after_def nth_list_update)
    have "tables_after (flow_tables s) (flow_tables s')" using after s'(2) by (auto simp: tables_after_def)
    moreover have "state_of (cookie (flow_description m)) (flow_tables s' ! i) = Some DELETED"
      if "tx_xid t \<noteq> x" "\<not> is_add_command (command m)" "state_of (cookie (flow_description m)) (flow_tables s ! i) \<noteq> None"
      using that t'(4) s'(2) m(1) by (simp add: tables_after_def)
    moreover have "state_of k (flow_tables ?s ! j) \<noteq> None" if "state_of k (flow_tables s ! j) \<noteq> None" for k j
      using that t'(2) m(1) by (cases "j = i") auto
    ultimately show ?thesis using s'(1,3) call cob Suc m(2) by (intro exI [of _ s']) auto
  qed
qed

lemma barrier_reply_completes:
  assumes "svc_flows c = Some s" "calls_ok (length (flow_tables s)) ts" "callback_transactions (ctl_hal c) = ts"
    and "msg_type b = OFPT_BARRIER_REPLY" "\<forall>t \<in> set ts. tx_xid t \<le> xid b"
  shows "\<exists>s'. process_message env alive (Barrier_Reply b) c = Inr (map (barrier_call (Barrier_Reply b) (xid b)) ts,
        c\<lparr>ctl_hal := (ctl_hal c)\<lparr>callback_transactions := []\<rparr>, svc_flows := Some s'\<rparr>)
    \<and> (\<forall>t \<in> set ts. \<forall>i m. tx_callback t = Some (Suc i) \<longrightarrow> tx_request t = Rq_Modify_Flow m \<longrightarrow> tx_xid t \<noteq> xid b
        \<longrightarrow> \<not> is_add_command (command m) \<longrightarrow> state_of (cookie (flow_description m)) (flow_tables s ! i) \<noteq> None
        \<longrightarrow> state_of (cookie (flow_description m)) (flow_tables s' ! i) = Some DELETED)"
proof -
  let ?c = "c\<lparr>ctl_hal := (ctl_hal c)\<lparr>callback_transactions := []\<rparr>\<rparr>"
  have "list_all (\<lambda>t. tx_callback t \<noteq> None) ts" using assms(2) by (auto simp: calls_ok_def list_all_iff)
  from complete_barrier_partition [OF this, of "Barrier_Reply b" "xid b"]
  have complete: "complete_barrier (Barrier_Reply b) (xid b) ts = Inr (map (barrier_call (Barrier_Reply b) (xid b)) ts, [])"
    using assms(5) by (simp add: filter_id_conv filter_empty_conv)
  have handle: "handle_message env alive (Barrier_Reply b) c = Inr (Some True, c)"
    using assms(4) by (simp add: handle_message_def Let_def ofpt_codes)
  obtain s' where s': "call_all (env_now env) (map (barrier_call (Barrier_Reply b) (xid b)) ts) ?c = Inr (?c\<lparr>svc_flows := Some s'\<rparr>)"
      "\<forall>t \<in> set ts. \<forall>i m. tx_callback t = Some (Suc i) \<longrightarrow> tx_request t = Rq_Modify_Flow m \<longrightarrow> tx_xid t \<noteq> xid b
        \<longrightarrow> \<not> is_add_command (command m) \<longrightarrow> state_of (cookie (flow_description m)) (flow_tables s ! i) \<noteq> None
        \<longrightarrow> state_of (cookie (flow_description m)) (flow_tables s' ! i) = Some DELETED"
    using call_all_effect [of ?c s ts "env_now env" "Barrier_Reply b" "xid b"] assms(1,2) by auto
  have "process_message env alive (Barrier_Reply b) c = Inr (map (barrier_call (Barrier_Reply b) (xid b)) ts, ?c\<lparr>svc_flows := Some s'\<rparr>)"
    using handle complete s'(1) assms(3,4) by (simp add: process_message_def)
  then show ?thesis using s'(2) by blast
qed

text \<open>C7. Every removal is confirmed in the end: when a flow is removed, the sending thread has sent what is queued, the maintenance
  thread has posted its barrier, and the switch answers that barrier, then the table has the flow as deleted, and nobody waits for
  a callback any more. (As long as the transaction counter has not wrapped, and what waits refers to tables that are there.)\<close>

theorem removal_completes:
  assumes "svc_flows c = Some s" "initialized s" "service_ok s" "cookies_apart (flow_tables s)" "t \<in> set (flow_tables s)"
    and "smap_find k (flows t) = Some e" "removable e" "list_all (\<lambda>a. get_action_type a \<noteq> VENDOR) (action_list (description e))"
    and "72 + sum_list (map action_size (action_list (description e))) < 2 ^ 32"
    and "calls_ok (length (flow_tables s)) (awaited (ctl_hal c) [])" "\<forall>u \<in> set (awaited (ctl_hal c) []). tx_xid u < hal_xid (ctl_hal c)"
    and "hal_xid (ctl_hal c) \<noteq> - 1" "msg_type b = OFPT_BARRIER_REPLY" "xid b = hal_xid (ctl_hal c) + 1"
  shows "\<exists>c1 h2 calls c' s' i. call_flow_service (call_remove_flow now k) c = Inr (k, c1) \<and> maintenance_round (send_all (ctl_hal c1)) = Inr h2
    \<and> process_message env alive (Barrier_Reply b) (c1\<lparr>ctl_hal := send_all h2\<rparr>) = Inr (calls, c')
    \<and> svc_flows c' = Some s' \<and> flow_tables s ! i = t \<and> state_of k (flow_tables s' ! i) = Some DELETED
    \<and> callback_transactions (ctl_hal c') = []"
proof -
  let ?h = "ctl_hal c"
  let ?s = "s\<lparr>xid_counter := hal_xid ?h\<rparr>"
  have "service_ok ?s" using assms(3) by (simp add: service_ok_def)
  then obtain tx i where remove: "remove_flow now k ?s = Inr (k, ?s\<lparr>flow_tables := map (mark_cookies now {k}) (flow_tables s),
      xid_counter := hal_xid ?h + 1, enqueued := enqueued s @ [tx]\<rparr>)" and tx: "deletes tx e"
      and i: "callback tx = Table_Callback i" "i < length (flow_tables s)" "flow_tables s ! i = t" and xid: "tx_xid (service_transaction tx) = hal_xid ?h"
    using remove_flow_marks [of ?s t k e now] assms(2,4-9) by auto
  let ?t = "service_transaction tx" and ?ts = "callback_transactions ?h @ filter tx_needs_ack (queued ?h)"
  obtain s1 c1 where call: "call_flow_service (call_remove_flow now k) c = Inr (k, c1)" and c1: "svc_flows c1 = Some s1"
      "flow_tables s1 = map (mark_cookies now {k}) (flow_tables s)"
      "ctl_hal c1 = ?h\<lparr>hal_xid := hal_xid ?h + 1, pending_transactions := pending_transactions ?h @ map Some [?t]\<rparr>"
    using assms(1) remove by (simp add: call_flow_service_def call_remove_flow_def new_transactions_def)
  obtain m where m: "tx_request ?t = Rq_Modify_Flow m" "command m = OFPFC_DELETE_STRICT" "flow_description m = description e"
      "msg_type m = OFPT_FLOW_MOD" "tx_needs_ack ?t" "tx_callback ?t = Some (Suc i)"
    using tx i(1) by (auto simp: deletes_def service_transaction_def)
  obtain h1 where h1: "send_all (ctl_hal c1) = h1" "callback_transactions h1 = ?ts @ [?t]" "hal_xid h1 = hal_xid ?h + 1"
      "pending_transactions h1 = []"
    using m(5) unfolding send_all_effect c1(3) queued_append by simp
  obtain bt where "post_barrier_request 0 h1 = Inr (h1\<lparr>hal_xid := hal_xid h1 + 1, pending_transactions := [Some bt]\<rparr>)"
      and bt: "tx_xid bt = hal_xid ?h + 1" "tx_needs_ack bt" "tx_callback bt = Some 0"
    using post_barrier_effect [of 0 h1] h1(3,4) by auto
  then have maint: "maintenance_round (send_all (ctl_hal c1)) = Inr (h1\<lparr>hal_xid := hal_xid h1 + 1, pending_transactions := [Some bt]\<rparr>)"
    unfolding h1(1) by (simp add: maintenance_round_def h1(2))
  let ?h2 = "h1\<lparr>hal_xid := hal_xid h1 + 1, pending_transactions := [Some bt]\<rparr>"
  let ?c2 = "c1\<lparr>ctl_hal := send_all ?h2\<rparr>"
  have h2: "callback_transactions (send_all ?h2) = ?ts @ [?t, bt]"
    using bt(2) by (simp add: send_all_effect queued_def List.map_filter_def h1(2))
  have aw: "set ?ts = set (awaited ?h [])" by (auto simp: awaited_def queued_def)
  have "calls_ok (length (flow_tables s1)) ?ts" using assms(10) unfolding calls_ok_def aw by (simp add: c1(2))
  moreover have "calls_ok (length (flow_tables s1)) [?t, bt]" using i(2) m(1,4,6) bt(3) by (auto simp: calls_ok_def c1(2))
  ultimately have "calls_ok (length (flow_tables s1)) (?ts @ [?t, bt])" by (auto simp: calls_ok_def)
  moreover have "hal_xid ?h < hal_xid ?h + 1" using assms(12) by (rule word_less_next)
  then have "\<forall>u \<in> set (?ts @ [?t, bt]). tx_xid u \<le> xid b"
    using assms(11) bt(1) xid unfolding aw [symmetric] by (auto simp: assms(14) intro: less_imp_le order.strict_trans)
  moreover have "svc_flows ?c2 = Some s1" using c1(1) by simp
  ultimately obtain s' where p: "process_message env alive (Barrier_Reply b) ?c2 = Inr (map (barrier_call (Barrier_Reply b) (xid b)) (?ts @ [?t, bt]),
        ?c2\<lparr>ctl_hal := (ctl_hal ?c2)\<lparr>callback_transactions := []\<rparr>, svc_flows := Some s'\<rparr>)"
    "\<forall>t \<in> set (?ts @ [?t, bt]). \<forall>i m. tx_callback t = Some (Suc i) \<longrightarrow> tx_request t = Rq_Modify_Flow m \<longrightarrow> tx_xid t \<noteq> xid b
        \<longrightarrow> \<not> is_add_command (command m) \<longrightarrow> state_of (cookie (flow_description m)) (flow_tables s1 ! i) \<noteq> None
        \<longrightarrow> state_of (cookie (flow_description m)) (flow_tables s' ! i) = Some DELETED"
    using barrier_reply_completes [of ?c2 s1 "?ts @ [?t, bt]" b env alive] h2 assms(13) by auto
  have "cookie (description e) = k" using assms(3,5,6) by (auto simp: service_ok_def list_all_iff table_ok_def Flow_Table.entry_ok_def)
  then have "state_of k (flow_tables s' ! i) = Some DELETED"
    using p(2) m xid assms(14) i(2,3) assms(6) by (auto simp: c1(2) state_of_def is_add_command_def)
  then show ?thesis using call maint p(1) i(3) by (intro exI conjI) (assumption | simp)+
qed

theorem removal_completes_witness:
  "\<forall>env alive. \<exists>c1 h2 calls c' s'. call_flow_service (call_remove_flow 9 5) behind_port_3 = Inr (5, c1)
    \<and> maintenance_round (send_all (ctl_hal c1)) = Inr h2
    \<and> process_message env alive (Barrier_Reply (barrier_request_clear\<lparr>msg_type := OFPT_BARRIER_REPLY, xid := 2\<rparr>)) (c1\<lparr>ctl_hal := send_all h2\<rparr>) = Inr (calls, c')
    \<and> svc_flows c' = Some s' \<and> callback_transactions (ctl_hal c') = []"
proof (intro allI)
  fix env alive
  note c = behind_port_3_facts
  let ?t = "l2_table_with ((l2_rule (MAC 7 0 0 0 0 0) 20 3)\<lparr>cookie := 5\<rparr>)"
  have hal: "ctl_hal behind_port_3 = hal_new\<lparr>switch_ready := True\<rparr>" "awaited (ctl_hal behind_port_3) [] = []"
    by (simp_all add: behind_port_3_def some_controller_def awaited_def hal_new_def List.map_filter_def)
  have "smap_find 5 (flows ?t) = Some l2_entry_5" by (simp only: c(7) smap_find_def) simp
  moreover have "removable l2_entry_5"
    "list_all (\<lambda>a. get_action_type a \<noteq> VENDOR) (action_list (description l2_entry_5))"
    "72 + sum_list (map action_size (action_list (description l2_entry_5))) < 2 ^ 32"
    by (simp_all add: removable_def l2_rule_def)
  ultimately have all: "smap_find 5 (flows ?t) = Some l2_entry_5" "removable l2_entry_5"
    "list_all (\<lambda>a. get_action_type a \<noteq> VENDOR) (action_list (description l2_entry_5))"
    "72 + sum_list (map action_size (action_list (description l2_entry_5))) < 2 ^ 32" by blast+
  let ?b = "barrier_request_clear\<lparr>msg_type := OFPT_BARRIER_REPLY, xid := 2\<rparr>"
  let ?s = "started_service [?t]"
  have mem: "?t \<in> set (flow_tables ?s)" by (simp add: c(6))
  have pre: "calls_ok (length (flow_tables ?s)) (awaited (ctl_hal behind_port_3) [])"
    "\<forall>u \<in> set (awaited (ctl_hal behind_port_3) []). tx_xid u < hal_xid (ctl_hal behind_port_3)"
    "hal_xid (ctl_hal behind_port_3) \<noteq> - 1" "msg_type ?b = OFPT_BARRIER_REPLY" "xid ?b = hal_xid (ctl_hal behind_port_3) + 1"
    by (simp_all add: hal(2) calls_ok_def) (simp_all add: hal(1) hal_new_def)
  note all_done = removal_completes [OF c(1-4) mem all pre, of 9 env alive]
  show "\<exists>c1 h2 calls c' s'. call_flow_service (call_remove_flow 9 5) behind_port_3 = Inr (5, c1)
    \<and> maintenance_round (send_all (ctl_hal c1)) = Inr h2
    \<and> process_message env alive (Barrier_Reply (barrier_request_clear\<lparr>msg_type := OFPT_BARRIER_REPLY, xid := 2\<rparr>)) (c1\<lparr>ctl_hal := send_all h2\<rparr>) = Inr (calls, c')
    \<and> svc_flows c' = Some s' \<and> callback_transactions (ctl_hal c') = []"
    using all_done by blast
qed

end
