(* ===== verification/Topology_Paths.thy ===== *)
theory Topology_Paths
  imports Addresses Std_Map
begin

text \<open>
  The search for paths between switches (\<open>controller/services/topology_graph.cpp\<close>, \<open>simple_graph\<close> and the functions that
  use it). The flows are a map of pairs to booleans that is only read with \<open>operator[]\<close>, hence a function that is false where
  nothing was stored; the empty sets that \<open>edges[next]\<close> leaves behind are never looked at again and are left out. A loop that
  does not end is the result None.
\<close>

record simple_graph =
  edges :: "(mac_address, mac_address list) smap"
  flow_edges :: "mac_address \<times> mac_address \<Rightarrow> bool"

definition simple_graph_new :: simple_graph where
  "simple_graph_new = \<lparr>edges = [], flow_edges = (\<lambda>_. False)\<rparr>"

definition neighbors :: "simple_graph \<Rightarrow> mac_address \<Rightarrow> mac_address list" where
  "neighbors g u = (case smap_find u (edges g) of None \<Rightarrow> [] | Some ns \<Rightarrow> ns)"

definition add_edge :: "mac_address \<Rightarrow> mac_address \<Rightarrow> simple_graph \<Rightarrow> simple_graph" where
  "add_edge u v g = g\<lparr>edges := smap_put u (insort_insert v (neighbors g u)) (edges g)\<rparr>"

definition true_flow :: "mac_address \<times> mac_address \<Rightarrow> simple_graph \<Rightarrow> simple_graph" where
  "true_flow e g = g\<lparr>flow_edges := (flow_edges g)(e := True)\<rparr>"

definition false_flow :: "mac_address \<times> mac_address \<Rightarrow> simple_graph \<Rightarrow> simple_graph" where
  "false_flow e g = g\<lparr>flow_edges := (flow_edges g)(e := False)\<rparr>"

definition all_edges :: "simple_graph \<Rightarrow> (mac_address \<times> mac_address) list" where
  "all_edges g = concat (map (\<lambda>(u, vs). map (Pair u) vs) (edges g))"

definition false_all_flows :: "simple_graph \<Rightarrow> simple_graph" where
  "false_all_flows g = fold false_flow (all_edges g) g"

section \<open>Breadth first search\<close>

text \<open>An edge that the search may take.\<close>

definition usable :: "simple_graph \<Rightarrow> bool \<Rightarrow> mac_address \<Rightarrow> mac_address \<Rightarrow> bool" where
  "usable g use_flows u v = (v \<in> set (neighbors g u) \<and> (\<not> flow_edges g (u, v) \<or> \<not> use_flows))"

lemma finite_macs: "finite (A :: mac_address set)"
proof -
  have "inj mac_octets" by (rule injI) (case_tac x; case_tac y; simp)
  moreover have "length (mac_octets m) = 6" for m by (cases m) simp
  then have "range mac_octets \<subseteq> {bs. set bs \<subseteq> UNIV \<and> length bs = 6}" by auto
  then have "finite (range mac_octets)" using finite_lists_length_eq [of "UNIV :: byte set" 6] by (auto intro: finite_subset)
  ultimately have "finite (UNIV :: mac_address set)" by (simp add: finite_image_iff)
  then show ?thesis by (rule finite_subset [rotated]) simp
qed

lemma takeWhile_front: "\<forall>x \<in> set ys. \<not> P x \<Longrightarrow> takeWhile P (xs @ ys) = takeWhile P xs"
  by (induction xs) (auto simp: takeWhile_eq_Nil_iff hd_conv_nth)

text \<open>The loop over the frontier, with the set of visited nodes and the map of parents: the parents when the target is found,
  None when the frontier is empty. The parent of a node is set for every node that reaches it before it is visited, so the last
  one stays.\<close>

function bfs_loop :: "simple_graph \<Rightarrow> mac_address \<Rightarrow> bool \<Rightarrow> mac_address set \<Rightarrow> mac_address list \<Rightarrow> (mac_address \<Rightarrow> mac_address option)
    \<Rightarrow> (mac_address \<Rightarrow> mac_address option) option" where
  "bfs_loop g dest use_flows visited [] parent = None"
| "bfs_loop g dest use_flows visited (u # frontier) parent =
    (if u = dest then Some parent
     else let new = filter (\<lambda>n. n \<notin> visited \<and> (\<not> flow_edges g (u, n) \<or> \<not> use_flows)) (neighbors g u) in
       bfs_loop g dest use_flows (insert u visited) (frontier @ new) (fold (\<lambda>n p. p(n \<mapsto> u)) new parent))"
  by pat_completeness auto

termination
proof (relation "measures [\<lambda>(g, d, f, visited, frontier, p). card (- visited),
    \<lambda>(g, d, f, visited, frontier, p). length (takeWhile (\<lambda>n. n \<in> visited) frontier)]", goal_cases)
  case (2 g dest use_flows visited u frontier parent new)
  show ?case
  proof (cases "u \<in> visited")
    case True
    then have "takeWhile (\<lambda>n. n \<in> insert u visited) (frontier @ new) = takeWhile (\<lambda>n. n \<in> visited) frontier"
      using takeWhile_front [of new "\<lambda>n. n \<in> visited" frontier] by (simp add: 2(2) insert_absorb)
    then show ?thesis using True by (simp add: insert_absorb)
  next
    case False
    then have "card (- insert u visited) < card (- visited)" by (intro psubset_card_mono finite_macs) auto
    then show ?thesis by simp
  qed
qed simp

text \<open>Going back from the target along the parents.\<close>

partial_function (option) backtrack :: "(mac_address \<Rightarrow> mac_address option) \<Rightarrow> mac_address \<Rightarrow> mac_address list \<Rightarrow> mac_address list option" where
  [code]: "backtrack parent p path = (case parent p of None \<Rightarrow> Some path | Some q \<Rightarrow> backtrack parent q (path @ [q]))"

definition bfs :: "simple_graph \<Rightarrow> mac_address \<Rightarrow> mac_address \<Rightarrow> bool \<Rightarrow> mac_address list option" where
  "bfs g source dest use_flows =
    (case bfs_loop g dest use_flows {} [source] Map.empty of None \<Rightarrow> Some []
     | Some parent \<Rightarrow> map_option rev (backtrack parent dest [dest]))"

section \<open>Flows\<close>

text \<open>The loop that sends flow along one path after the other.\<close>

partial_function (option) augment :: "mac_address \<Rightarrow> mac_address \<Rightarrow> mac_address list \<Rightarrow> simple_graph \<Rightarrow> simple_graph option" where
  [code]: "augment source sink path g =
    (if path = [] then Some g
     else let g' = fold true_flow (zip path (tl path)) g in
       Option.bind (bfs g' source sink True) (\<lambda>path'. augment source sink path' g'))"

definition cancel_both_ways :: "simple_graph \<Rightarrow> simple_graph" where
  "cancel_both_ways g = fold (\<lambda>(u, v) g. if flow_edges g (u, v) \<and> flow_edges g (v, u)
     then false_flow (v, u) (false_flow (u, v) g) else g) (all_edges g) g"

definition max_flow :: "mac_address \<Rightarrow> mac_address \<Rightarrow> simple_graph \<Rightarrow> (nat \<times> simple_graph) option" where
  "max_flow source sink g =
    (let g0 = false_all_flows g in
     Option.bind (bfs g0 source sink True) (\<lambda>path.
     Option.bind (augment source sink path g0) (\<lambda>g1.
       let g2 = cancel_both_ways g1 in
       Some (u32 (length (filter (\<lambda>n. flow_edges g2 (source, n)) (neighbors g2 source))), g2))))"

text \<open>One path: follow the first edge with flow and take its flow away; a node that comes back cuts the cycle out. Removing a cycle
  pops the path back to the node; an empty path is accessed out of bounds.\<close>

fun pop_back_to :: "mac_address \<Rightarrow> mac_address list \<Rightarrow> mac_address set \<Rightarrow> (mac_address list \<times> mac_address set) res" where
  "pop_back_to u [] contents = Inl OutOfBounds"
| "pop_back_to u (p # rpath) contents = (if p = u then Inr (p # rpath, contents) else pop_back_to u rpath (contents - {p}))"

text \<open>The path is kept reversed.\<close>

definition trace_step :: "mac_address \<Rightarrow> mac_address list \<Rightarrow> mac_address set \<Rightarrow> simple_graph
    \<Rightarrow> (mac_address \<times> mac_address list \<times> mac_address set \<times> simple_graph) res" where
  "trace_step current rpath contents g =
    (case find (\<lambda>n. flow_edges g (current, n)) (neighbors g current) of
       None \<Rightarrow>
        if current \<in> contents
        then bindr (pop_back_to current (tl rpath) contents) (\<lambda>(rpath', contents'). Inr (current, rpath', insert current contents', g))
        else Inr (current, rpath, insert current contents, g)
     | Some n \<Rightarrow>
        let g' = false_flow (current, n) g in
        if n \<in> contents
        then bindr (pop_back_to n rpath contents) (\<lambda>(rpath', contents'). Inr (n, rpath', insert n contents', g'))
        else Inr (n, n # rpath, insert n contents, g'))"

partial_function (option) trace_path :: "mac_address \<Rightarrow> mac_address \<Rightarrow> mac_address list \<Rightarrow> mac_address set \<Rightarrow> simple_graph
    \<Rightarrow> (mac_address list \<times> simple_graph) res option" where
  [code]: "trace_path dest current rpath contents g =
    (if current = dest then Some (Inr (rev rpath, g))
     else case trace_step current rpath contents g of
       Inl e \<Rightarrow> Some (Inl e)
     | Inr (current', rpath', contents', g') \<Rightarrow> trace_path dest current' rpath' contents' g')"

fun trace_paths :: "nat \<Rightarrow> mac_address \<Rightarrow> mac_address \<Rightarrow> simple_graph \<Rightarrow> mac_address list list res option" where
  "trace_paths 0 source dest g = Some (Inr [])"
| "trace_paths (Suc n) source dest g =
    Option.bind (trace_path dest source [source] {source} g) (\<lambda>r. case r of
       Inl e \<Rightarrow> Some (Inl e)
     | Inr (path, g') \<Rightarrow> map_option (\<lambda>r'. bindr r' (\<lambda>paths. Inr (path # paths))) (trace_paths n source dest g'))"

definition get_disjoint_paths :: "mac_address \<Rightarrow> mac_address \<Rightarrow> simple_graph \<Rightarrow> mac_address list list res option" where
  "get_disjoint_paths source dest g =
    (if smap_find source (edges g) = None \<or> smap_find dest (edges g) = None then Some (Inr [])
     else Option.bind (max_flow source dest g) (\<lambda>(n, g'). trace_paths n source dest g'))"

definition get_shortest_path :: "mac_address \<Rightarrow> mac_address \<Rightarrow> simple_graph \<Rightarrow> mac_address list option" where
  "get_shortest_path source dest g = bfs g source dest False"

section \<open>What the search finds\<close>

definition no_self_links :: "simple_graph \<Rightarrow> bool" where
  "no_self_links g = (\<forall>u. u \<notin> set (neighbors g u))"

lemma fold_parent: "fold (\<lambda>n p. p(n \<mapsto> u)) new parent = (\<lambda>n. if n \<in> set new then Some u else parent n)"
  by (induction new arbitrary: parent) auto

text \<open>The parents form a tree of usable edges: those of visited nodes were visited before, as their ranks tell.\<close>

definition bfs_inv :: "simple_graph \<Rightarrow> bool \<Rightarrow> mac_address \<Rightarrow> mac_address set \<Rightarrow> mac_address list \<Rightarrow> (mac_address \<Rightarrow> mac_address option)
    \<Rightarrow> (mac_address \<Rightarrow> nat) \<Rightarrow> bool" where
  "bfs_inv g use_flows s visited q parent rank = (parent s = None
     \<and> (\<forall>n p. parent n = Some p \<longrightarrow> p \<in> visited \<and> usable g use_flows p n)
     \<and> (\<forall>n. n \<in> visited \<union> set q \<longrightarrow> n = s \<or> parent n \<noteq> None)
     \<and> (\<forall>n p. n \<in> visited \<longrightarrow> parent n = Some p \<longrightarrow> rank p < rank n)
     \<and> (\<forall>v n. v \<in> visited \<longrightarrow> usable g use_flows v n \<longrightarrow> n \<in> visited \<union> set q)
     \<and> (s \<in> visited \<or> visited = {} \<and> q = [s]))"

lemma bfs_inv_start: "bfs_inv g use_flows s {} [s] Map.empty rank"
  by (simp add: bfs_inv_def)

lemma bfs_inv_step:
  assumes inv: "bfs_inv g use_flows s visited (u # q) parent rank" and loops: "no_self_links g"
    and new: "new = filter (\<lambda>n. n \<notin> visited \<and> (\<not> flow_edges g (u, n) \<or> \<not> use_flows)) (neighbors g u)"
  shows "\<exists>rank'. bfs_inv g use_flows s (insert u visited) (q @ new) (\<lambda>n. if n \<in> set new then Some u else parent n) rank'"
proof -
  let ?rank = "if u \<in> visited then rank else rank(u := Suc (Max (rank ` visited)))"
  have set_new: "n \<in> set new \<longleftrightarrow> n \<notin> visited \<and> usable g use_flows u n" for n by (auto simp: new usable_def)
  have u: "\<not> usable g use_flows u u" using loops by (simp add: no_self_links_def usable_def)
  have old: "n \<notin> set new" if "n \<in> insert u visited" for n using that u by (auto simp: set_new)
  have s: "s \<in> insert u visited" using inv by (auto simp: bfs_inv_def)
  have rank: "?rank p < ?rank n" if "n \<in> insert u visited" "parent n = Some p" for n p
  proof -
    have p: "p \<in> visited" using inv that(2) by (auto simp: bfs_inv_def)
    have max: "rank p \<le> Max (rank ` visited)" using p by (intro Max_ge) (auto simp: finite_macs)
    show ?thesis
    proof (cases "n = u \<and> u \<notin> visited")
      case True
      then show ?thesis using max p by auto
    next
      case False
      then show ?thesis using that p inv by (auto simp: bfs_inv_def)
    qed
  qed
  have 1: "(if s \<in> set new then Some u else parent s) = None" using old [OF s] inv by (simp add: bfs_inv_def)
  have 2: "p \<in> insert u visited \<and> usable g use_flows p n" if "(if n \<in> set new then Some u else parent n) = Some p" for n p
    using that inv set_new by (auto simp: bfs_inv_def split: if_splits)
  have 3: "n = s \<or> (if n \<in> set new then Some u else parent n) \<noteq> None" if "n \<in> insert u visited \<union> set (q @ new)" for n
    using that inv by (auto simp: bfs_inv_def)
  have 4: "n \<in> insert u visited \<union> set (q @ new)" if "v \<in> insert u visited" "usable g use_flows v n" for v n
    using that inv set_new by (auto simp: bfs_inv_def)
  have 5: "?rank p < ?rank n" if "n \<in> insert u visited" "(if n \<in> set new then Some u else parent n) = Some p" for n p
    using rank [OF that(1)] that(2) old [OF that(1)] by simp
  have "bfs_inv g use_flows s (insert u visited) (q @ new) (\<lambda>n. if n \<in> set new then Some u else parent n) ?rank"
    unfolding bfs_inv_def
  proof (intro conjI allI impI)
    show "s \<in> insert u visited \<or> insert u visited = {} \<and> q @ new = [s]" using s by blast
  qed (fact 1, use 2 in blast, use 2 in blast, use 3 in blast, use 5 in blast, use 4 in blast)
  then show ?thesis by blast
qed

lemma bfs_loop_inv:
  assumes "bfs_inv g use_flows s visited q parent rank" "dest \<notin> visited" "no_self_links g"
  shows "case bfs_loop g dest use_flows visited q parent of
      Some parent' \<Rightarrow> \<exists>visited' q' rank'. bfs_inv g use_flows s visited' (dest # q') parent' rank' \<and> dest \<notin> visited'
    | None \<Rightarrow> \<exists>visited' parent' rank'. bfs_inv g use_flows s visited' [] parent' rank' \<and> dest \<notin> visited'"
  using assms
proof (induction g dest use_flows visited q parent arbitrary: rank rule: bfs_loop.induct)
  case (1 g dest use_flows visited parent)
  then show ?case by auto
next
  case (2 g dest use_flows visited u q parent)
  show ?case
  proof (cases "u = dest")
    case True
    then show ?thesis using 2(2,3) by auto
  next
    case False
    define new where "new = filter (\<lambda>n. n \<notin> visited \<and> (\<not> flow_edges g (u, n) \<or> \<not> use_flows)) (neighbors g u)"
    obtain rank' where "bfs_inv g use_flows s (insert u visited) (q @ new) (\<lambda>n. if n \<in> set new then Some u else parent n) rank'"
      using bfs_inv_step [OF 2(2,4) new_def] by blast
    then have inv: "bfs_inv g use_flows s (insert u visited) (q @ new) (fold (\<lambda>n p. p(n \<mapsto> u)) new parent) rank'"
      by (simp add: fold_parent)
    have "bfs_loop g dest use_flows visited (u # q) parent
        = bfs_loop g dest use_flows (insert u visited) (q @ new) (fold (\<lambda>n p. p(n \<mapsto> u)) new parent)"
      using False by (simp add: new_def Let_def)
    then show ?thesis using 2(1) [OF False new_def inv _ 2(4)] False 2(3) by simp
  qed
qed

lemma backtrack_visited:
  assumes "bfs_inv g use_flows s visited q parent rank" "n \<in> visited"
  shows "\<exists>xs. backtrack parent n path = Some (path @ xs) \<and> last (n # xs) = s \<and> set xs \<subseteq> visited
    \<and> successively (\<lambda>a b. usable g use_flows b a) (n # xs) \<and> distinct (n # xs) \<and> (\<forall>x \<in> set xs. rank x < rank n)"
  using assms(2)
proof (induction "rank n" arbitrary: n path rule: less_induct)
  case less
  show ?case
  proof (cases "parent n")
    case None
    then have "n = s" using assms(1) less.prems by (auto simp: bfs_inv_def)
    then show ?thesis using None by (subst backtrack.simps) simp
  next
    case (Some p)
    then have p: "p \<in> visited" "usable g use_flows p n" "rank p < rank n"
      using assms(1) less.prems by (auto simp: bfs_inv_def)
    obtain xs where xs: "backtrack parent p (path @ [p]) = Some ((path @ [p]) @ xs)" "last (p # xs) = s" "set xs \<subseteq> visited"
        "successively (\<lambda>a b. usable g use_flows b a) (p # xs)" "distinct (p # xs)" "\<forall>x \<in> set xs. rank x < rank p"
      using less.hyps [OF p(3,1)] by blast
    have "backtrack parent n path = Some (path @ p # xs)" using Some xs(1) by (subst backtrack.simps) simp
    moreover have "\<forall>x \<in> set (p # xs). rank x < rank n" using xs(6) p(3) by auto
    ultimately show ?thesis using xs(2-5) p by (intro exI [of _ "p # xs"]) auto
  qed
qed

lemma closed_reachable:
  "(usable g use_flows)\<^sup>*\<^sup>* s d \<Longrightarrow> s \<in> V \<Longrightarrow> (\<And>v n. v \<in> V \<Longrightarrow> usable g use_flows v n \<Longrightarrow> n \<in> V) \<Longrightarrow> d \<in> V"
  by (induction rule: rtranclp_induct) auto

lemma walk_reachable: "successively r xs \<Longrightarrow> xs \<noteq> [] \<Longrightarrow> r\<^sup>*\<^sup>* (hd xs) (last xs)"
  by (induction xs rule: induct_list012) (auto intro: converse_rtranclp_into_rtranclp)

lemma bfs_result:
  assumes "no_self_links g"
  shows "\<exists>path. bfs g s d use_flows = Some path \<and> (path = [] \<longleftrightarrow> \<not> (usable g use_flows)\<^sup>*\<^sup>* s d)
    \<and> (path \<noteq> [] \<longrightarrow> hd path = s \<and> last path = d \<and> distinct path \<and> successively (usable g use_flows) path)"
proof -
  note loop = bfs_loop_inv [OF bfs_inv_start [of g use_flows s "\<lambda>_. 0"] _ assms, of d]
  show ?thesis
  proof (cases "bfs_loop g d use_flows {} [s] Map.empty")
    case None
    obtain visited parent rank where inv: "bfs_inv g use_flows s visited [] parent rank" "d \<notin> visited"
      using loop unfolding None by auto
    have "\<not> (usable g use_flows)\<^sup>*\<^sup>* s d"
      using closed_reachable [of g use_flows s d visited] inv by (auto simp: bfs_inv_def)
    then show ?thesis by (simp add: bfs_def None del: bfs_loop.simps)
  next
    case (Some parent)
    obtain visited q rank where inv: "bfs_inv g use_flows s visited (d # q) parent rank" "d \<notin> visited"
      using loop unfolding Some by auto
    have "\<exists>xs. backtrack parent d [d] = Some (d # xs) \<and> last (d # xs) = s
      \<and> successively (\<lambda>a b. usable g use_flows b a) (d # xs) \<and> distinct (d # xs)"
    proof (cases "parent d")
      case None
      then have "d = s" using inv by (auto simp: bfs_inv_def)
      then show ?thesis using None by (subst backtrack.simps) simp
    next
      case p: (Some p)
      then have "p \<in> visited" "usable g use_flows p d" using inv(1) by (auto simp: bfs_inv_def)
      then show ?thesis using backtrack_visited [OF inv(1), of p "[d, p]"] inv(2) p
        by (subst backtrack.simps) (fastforce intro: exI [of _ "p # xs" for xs])
    qed
    then obtain xs where xs: "backtrack parent d [d] = Some (d # xs)" "last (d # xs) = s"
        "successively (\<lambda>a b. usable g use_flows b a) (d # xs)" "distinct (d # xs)" by blast
    have walk: "successively (usable g use_flows) (rev (d # xs))" unfolding successively_rev by (rule xs(3))
    have ends: "hd (rev (d # xs)) = s" "last (rev (d # xs)) = d" using xs(2) by (simp_all add: hd_rev del: rev.simps last.simps) simp
    have "(usable g use_flows)\<^sup>*\<^sup>* s d" using walk_reachable [OF walk] unfolding ends by simp
    then show ?thesis using xs(1,4) walk ends by (simp add: bfs_def Some del: bfs_loop.simps)
  qed
qed

text \<open>C27. The search for a path returns, as long as no switch claims a link to itself: it finds a path whenever there is one
  (otherwise the path is empty), from the source to the target, over links that have been reported and through no switch
  twice.\<close>

theorem path_found:
  assumes "no_self_links g"
  shows "\<exists>path. get_shortest_path s d g = Some path
    \<and> (path = [] \<longleftrightarrow> \<not> (\<lambda>u v. v \<in> set (neighbors g u))\<^sup>*\<^sup>* s d)
    \<and> (path \<noteq> [] \<longrightarrow> hd path = s \<and> last path = d \<and> distinct path \<and> successively (\<lambda>u v. v \<in> set (neighbors g u)) path)"
proof -
  have "usable g False = (\<lambda>u v. v \<in> set (neighbors g u))" by (intro ext) (simp add: usable_def)
  then show ?thesis using bfs_result [OF assms, of s d False] by (simp add: get_shortest_path_def)
qed

definition mac_of :: "byte \<Rightarrow> mac_address" where
  "mac_of b = MAC b 0 0 0 0 0"

definition triangle :: simple_graph where
  "triangle = fold (\<lambda>(u, v). add_edge u v) [(mac_of 1, mac_of 3), (mac_of 1, mac_of 2), (mac_of 2, mac_of 3)] simple_graph_new"

lemma triangle_neighbors:
  "neighbors triangle u = (if u = mac_of 1 then [mac_of 2, mac_of 3] else if u = mac_of 2 then [mac_of 3] else [])"
proof -
  have "edges triangle = [(mac_of 1, [mac_of 2, mac_of 3]), (mac_of 2, [mac_of 3])]" by code_simp
  then show ?thesis by (simp add: neighbors_def smap_find_def)
qed

theorem path_found_witness:
  "\<exists>path. get_shortest_path (mac_of 1) (mac_of 3) triangle = Some path \<and> path \<noteq> [] \<and> hd path = mac_of 1 \<and> last path = mac_of 3"
proof -
  have ok: "no_self_links triangle" by (auto simp: no_self_links_def triangle_neighbors mac_of_def)
  have "(\<lambda>u v. v \<in> set (neighbors triangle u))\<^sup>*\<^sup>* (mac_of 1) (mac_of 3)" by (rule r_into_rtranclp) (simp add: triangle_neighbors)
  then show ?thesis using path_found [OF ok, of "mac_of 1" "mac_of 3"] by auto
qed

text \<open>The path that is found need not be a shortest one: when a neighbor comes first and has a link to the next neighbor,
  the path to the next one goes through the first, although there is a direct link. (A parent is overwritten until its node
  is visited.)\<close>

theorem shortest_path_detour:
  assumes "neighbors g s = y # x # others" "x \<in> set (neighbors g y)" "distinct [s, y, x]" "s \<notin> set others" "y \<notin> set others" "y \<notin> set (neighbors g y)"
  shows "get_shortest_path s x g = Some [s, y, x]"
proof -
  let ?new = "filter (\<lambda>n. n \<noteq> s) (neighbors g y)"
  have loop: "\<exists>parent. bfs_loop g x False {} [s] Map.empty = Some parent \<and> parent x = Some y \<and> parent y = Some s \<and> parent s = None"
    using assms by (auto simp: Let_def fold_parent)
  then show ?thesis using assms(3) by (auto simp: get_shortest_path_def bfs_def backtrack.simps simp del: bfs_loop.simps)
qed

theorem shortest_path_detour_witness:
  "mac_of 3 \<in> set (neighbors triangle (mac_of 1)) \<and>
   get_shortest_path (mac_of 1) (mac_of 3) triangle = Some [mac_of 1, mac_of 2, mac_of 3]"
  using shortest_path_detour [of triangle "mac_of 1" "mac_of 2" "mac_of 3" "[]"] by (simp add: triangle_neighbors mac_of_def)

section \<open>Links to oneself\<close>

lemma backtrack_some:
  assumes "backtrack parent n path = Some r"
  shows "(\<forall>m \<in> S. \<exists>p \<in> S. parent m = Some p) \<longrightarrow> n \<notin> S"
  by (rule backtrack.raw_induct [where P = "\<lambda>parent n path r. (\<forall>m \<in> S. \<exists>p \<in> S. parent m = Some p) \<longrightarrow> n \<notin> S", OF _ assms])
    (fastforce split: option.splits)

text \<open>With a link to itself the source gets a parent, and everything visited has one.\<close>

definition loop_inv :: "simple_graph \<Rightarrow> bool \<Rightarrow> mac_address set \<Rightarrow> mac_address list \<Rightarrow> (mac_address \<Rightarrow> mac_address option) \<Rightarrow> bool" where
  "loop_inv g use_flows visited q parent = ((\<forall>n. n \<in> visited \<union> set q \<longrightarrow> (\<exists>p \<in> visited. parent n = Some p))
     \<and> (\<forall>v n. v \<in> visited \<longrightarrow> usable g use_flows v n \<longrightarrow> n \<in> visited \<union> set q))"

lemma loop_inv_loop:
  assumes "loop_inv g use_flows visited q parent" "dest \<notin> visited" "s \<in> visited" "(usable g use_flows)\<^sup>*\<^sup>* s dest"
  shows "\<exists>parent' visited' q'. bfs_loop g dest use_flows visited q parent = Some parent' \<and> loop_inv g use_flows visited' (dest # q') parent'"
  using assms
proof (induction g dest use_flows visited q parent rule: bfs_loop.induct)
  case (1 g dest use_flows visited parent)
  then have "dest \<in> visited" using closed_reachable [OF 1(4,3)] by (auto simp: loop_inv_def)
  then show ?case using 1(2) by blast
next
  case (2 g dest use_flows visited u q parent)
  show ?case
  proof (cases "u = dest")
    case True
    then show ?thesis using 2(2) by auto
  next
    case False
    define new where "new = filter (\<lambda>n. n \<notin> visited \<and> (\<not> flow_edges g (u, n) \<or> \<not> use_flows)) (neighbors g u)"
    have set_new: "n \<in> set new \<longleftrightarrow> n \<notin> visited \<and> usable g use_flows u n" for n by (auto simp: new_def usable_def)
    have "loop_inv g use_flows (insert u visited) (q @ new) (fold (\<lambda>n p. p(n \<mapsto> u)) new parent)"
      using 2(2) set_new unfolding loop_inv_def fold_parent by (auto; blast)
    from 2(1) [OF False new_def this] show ?thesis using False 2(3-5) by (simp add: new_def Let_def)
  qed
qed

text \<open>C29. A switch that claims a link to itself hangs the search: if the source has a link to itself and the target can be
  reached, going back along the parents never ends.\<close>

theorem self_link_hangs:
  assumes "s \<in> set (neighbors g s)" "(\<lambda>u v. v \<in> set (neighbors g u))\<^sup>*\<^sup>* s d" "s \<noteq> d"
  shows "get_shortest_path s d g = None"
proof -
  have usable: "usable g False = (\<lambda>u v. v \<in> set (neighbors g u))" by (intro ext) (simp add: usable_def)
  let ?parent = "fold (\<lambda>n p. p(n \<mapsto> s)) (neighbors g s) Map.empty"
  have "loop_inv g False {s} (neighbors g s) ?parent"
    using assms(1) by (auto simp: loop_inv_def fold_parent usable)
  from loop_inv_loop [OF this, of d s] obtain parent visited q where
      p: "bfs_loop g d False {s} (neighbors g s) ?parent = Some parent" "loop_inv g False visited (d # q) parent"
    using assms(2,3) by (auto simp: usable)
  have "bfs_loop g d False {} [s] Map.empty = Some parent" using p(1) assms(3) by (simp add: Let_def)
  moreover have "backtrack parent d [d] = None"
  proof (cases "backtrack parent d [d]")
    case (Some r)
    have "\<forall>n \<in> visited \<union> set (d # q). \<exists>p \<in> visited \<union> set (d # q). parent n = Some p" using p(2) unfolding loop_inv_def by blast
    with backtrack_some [OF Some, of "visited \<union> set (d # q)"] have "d \<notin> visited \<union> set (d # q)" by blast
    then show ?thesis by simp
  qed
  ultimately show ?thesis by (simp add: get_shortest_path_def bfs_def del: bfs_loop.simps)
qed

theorem self_link_hangs_witness:
  "get_shortest_path (mac_of 1) (mac_of 2) (add_edge (mac_of 1) (mac_of 1) (add_edge (mac_of 1) (mac_of 2) simple_graph_new)) = None"
proof -
  let ?g = "add_edge (mac_of 1) (mac_of 1) (add_edge (mac_of 1) (mac_of 2) simple_graph_new)"
  have n: "neighbors ?g (mac_of 1) = [mac_of 1, mac_of 2]" by code_simp
  have "(\<lambda>u v. v \<in> set (neighbors ?g u))\<^sup>*\<^sup>* (mac_of 1) (mac_of 2)" by (rule r_into_rtranclp) (simp add: n)
  moreover have "mac_of 1 \<noteq> mac_of 2" by (simp add: mac_of_def)
  ultimately show ?thesis using self_link_hangs [of "mac_of 1" ?g "mac_of 2"] by (simp add: n)
qed

end
