(* ===== verification/Topology_Flows.thy ===== *)
theory Topology_Flows
  imports Topology_Paths
begin

text \<open>
  What \<open>max_flow\<close> and \<open>get_disjoint_paths\<close> of the topology graph give: flow goes only along links and is conserved, so following
  it from the source always ends at the target.
\<close>

section \<open>Conservation\<close>

definition out_flow :: "simple_graph \<Rightarrow> mac_address \<Rightarrow> mac_address set" where
  "out_flow g v = {n. flow_edges g (v, n)}"

definition in_flow :: "simple_graph \<Rightarrow> mac_address \<Rightarrow> mac_address set" where
  "in_flow g v = {n. flow_edges g (n, v)}"

text \<open>Flow is conserved everywhere but at the source \<open>s\<close> and the sink \<open>t\<close>; at \<open>c\<close> one unit more goes out than comes in.\<close>

definition balanced :: "simple_graph \<Rightarrow> mac_address \<Rightarrow> mac_address \<Rightarrow> mac_address \<Rightarrow> bool" where
  "balanced g s t c = ((\<forall>u v. flow_edges g (u, v) \<longrightarrow> v \<in> set (neighbors g u)) \<and> in_flow g s = {}
     \<and> (\<forall>v. v \<noteq> s \<longrightarrow> v \<noteq> t \<longrightarrow> card (out_flow g v) = card (in_flow g v) + (if v = c then 1 else 0)))"

lemma neighbors_true_flow [simp]: "neighbors (true_flow e g) = neighbors g"
  by (intro ext) (simp add: neighbors_def true_flow_def)

lemma neighbors_false_flow [simp]: "neighbors (false_flow e g) = neighbors g"
  by (intro ext) (simp add: neighbors_def false_flow_def)

lemma flow_edges_true_flow [simp]: "flow_edges (true_flow e g) = (flow_edges g)(e := True)"
  by (simp add: true_flow_def)

lemma flow_edges_false_flow [simp]: "flow_edges (false_flow e g) = (flow_edges g)(e := False)"
  by (simp add: false_flow_def)

lemma fold_true_flow:
  "neighbors (fold true_flow es g) = neighbors g \<and> flow_edges (fold true_flow es g) = (\<lambda>e. flow_edges g e \<or> e \<in> set es)"
  by (induction es arbitrary: g) auto

lemma fold_false_flow:
  "neighbors (fold false_flow es g) = neighbors g \<and> flow_edges (fold false_flow es g) = (\<lambda>e. flow_edges g e \<and> e \<notin> set es)"
  by (induction es arbitrary: g) auto

text \<open>The steps of a path.\<close>

definition steps :: "mac_address list \<Rightarrow> (mac_address \<times> mac_address) list" where
  "steps path = zip path (tl path)"

lemma steps_simps [simp]: "steps [] = []" "steps [x] = []" "steps (x # y # path) = (x, y) # steps (y # path)"
  by (simp_all add: steps_def)

lemma steps_in: "(u, v) \<in> set (steps path) \<Longrightarrow> u \<in> set path \<and> v \<in> set path"
  by (cases path) (auto simp: steps_def dest: set_zip_leftD set_zip_rightD)

lemma steps_from:
  "distinct path \<Longrightarrow> card {n. (v, n) \<in> set (steps path)} = (if v \<in> set (butlast path) then 1 else 0)"
proof (induction path rule: induct_list012)
  case (3 x y path)
  have "{n. (v, n) \<in> set (steps (x # y # path))} = (if v = x then {y} else {n. (v, n) \<in> set (steps (y # path))})"
    using 3(3) by (auto dest: steps_in)
  then show ?case using 3 by auto
qed simp_all

lemma steps_into:
  "distinct path \<Longrightarrow> card {n. (n, v) \<in> set (steps path)} = (if v \<in> set (tl path) then 1 else 0)"
proof (induction path rule: induct_list012)
  case (3 x y path)
  have "(n, y) \<notin> set (steps (y # path))" for n
    using 3(3) by (cases path) (auto simp: steps_def dest: set_zip_rightD)
  then have "{n. (n, v) \<in> set (steps (x # y # path))} = (if v = y then {x} else {n. (n, v) \<in> set (steps (y # path))})"
    by auto
  then show ?case using 3 by auto
qed simp_all

lemma successively_steps: "successively r path \<longleftrightarrow> (\<forall>(u, v) \<in> set (steps path). r u v)"
  by (induction path rule: induct_list012) auto

lemma card_disjoint_plus: "(\<And>n. P n \<Longrightarrow> \<not> Q n) \<Longrightarrow> card {n :: mac_address. P n \<or> Q n} = card {n. P n} + card {n. Q n}"
  by (subst card_Un_disjoint [symmetric]) (auto simp: finite_macs intro: arg_cong [of _ _ card])

lemma augment_balanced:
  assumes "balanced g s t s" "s \<noteq> t" "path \<noteq> []" "hd path = s" "last path = t" "distinct path" "successively (usable g True) path"
  defines "g' \<equiv> fold true_flow (steps path) g"
  shows "balanced g' s t s" "card (out_flow g' s) = card (out_flow g s) + 1" "neighbors g' = neighbors g"
    "card {e. flow_edges g e} < card {e. flow_edges g' e}"
proof -
  have g': "neighbors g' = neighbors g" "flow_edges g' = (\<lambda>e. flow_edges g e \<or> e \<in> set (steps path))"
    using fold_true_flow [of "steps path" g] by (simp_all add: g'_def)
  have new: "v \<in> set (neighbors g u) \<and> \<not> flow_edges g (u, v)" if "(u, v) \<in> set (steps path)" for u v
    using that assms(7) by (auto simp: successively_steps usable_def)
  have out: "card (out_flow g' v) = card (out_flow g v) + (if v \<in> set (butlast path) then 1 else 0)" for v
    unfolding out_flow_def g'(2) steps_from [OF assms(6), of v, symmetric] by (rule card_disjoint_plus) (use new in blast)
  have inn: "card (in_flow g' v) = card (in_flow g v) + (if v \<in> set (tl path) then 1 else 0)" for v
    unfolding in_flow_def g'(2) steps_into [OF assms(6), of v, symmetric] by (rule card_disjoint_plus) (use new in blast)
  obtain rest where path: "path = s # rest" "rest \<noteq> []" "last rest = t" "s \<notin> set rest"
    using assms(2-6) by (cases path) (auto split: if_splits)
  have s: "s \<in> set (butlast path)" "s \<notin> set (tl path)" using path by auto
  have "finite (in_flow g' s)" by (rule finite_macs)
  then have "in_flow g' s = {}" using inn [of s] s assms(1) by (simp add: balanced_def)
  moreover have "v \<in> set (butlast path) \<longleftrightarrow> v \<in> set (tl path)" if "v \<noteq> s" "v \<noteq> t" for v
  proof -
    have "rest = butlast rest @ [t]" by (metis append_butlast_last_id path(2,3))
    then have "v \<in> set rest \<longleftrightarrow> v \<in> set (butlast rest)" using that(2) by (metis Un_iff empty_iff empty_set insert_iff list.simps(15) set_append)
    then show ?thesis using path(1,2) that(1) by simp
  qed
  ultimately show "balanced g' s t s"
    using assms(1) out inn new unfolding balanced_def g' by auto
  show "card (out_flow g' s) = card (out_flow g s) + 1" using out s by simp
  show "neighbors g' = neighbors g" by (rule g')
  have "(s, hd rest) \<in> set (steps path)" using path by (cases rest) simp_all
  then have "(s, hd rest) \<in> {e. flow_edges g' e} - {e. flow_edges g e}" using new by (auto simp: g'(2))
  then have "{e. flow_edges g e} \<subset> {e. flow_edges g' e}" by (auto simp: g'(2))
  moreover have "finite {e. flow_edges g' e}" using finite_macs [of UNIV] by (simp add: finite_Prod_UNIV rev_finite_subset [of UNIV])
  ultimately show "card {e. flow_edges g e} < card {e. flow_edges g' e}" by (rule psubset_card_mono [rotated])
qed

lemma no_self_links_cong: "neighbors g' = neighbors g \<Longrightarrow> no_self_links g' = no_self_links g"
  by (simp add: no_self_links_def)

lemma augment_returns:
  assumes "no_self_links g" "balanced g s t s" "s \<noteq> t"
    and "path \<noteq> [] \<Longrightarrow> hd path = s \<and> last path = t \<and> distinct path \<and> successively (usable g True) path"
  shows "\<exists>g'. augment s t path g = Some g' \<and> balanced g' s t s \<and> neighbors g' = neighbors g
    \<and> card (out_flow g s) + (if path = [] then 0 else 1) \<le> card (out_flow g' s)"
  using assms
proof (induction "card (UNIV :: (mac_address \<times> mac_address) set) - card {e. flow_edges g e}" arbitrary: g path rule: less_induct)
  case less
  show ?case
  proof (cases "path = []")
    case True
    then show ?thesis using less.prems by (subst augment.simps) simp
  next
    case False
    let ?g = "fold true_flow (steps path) g"
    note path = less.prems(4) [OF False]
    note aug = augment_balanced [OF less.prems(2,3) False, of] path
    have bal: "balanced ?g s t s" "card (out_flow ?g s) = card (out_flow g s) + 1" "neighbors ?g = neighbors g"
        "card {e. flow_edges g e} < card {e. flow_edges ?g e}"
      using augment_balanced [OF less.prems(2,3) False] path by simp_all
    have "card {e. flow_edges ?g e} \<le> card (UNIV :: (mac_address \<times> mac_address) set)"
      using finite_macs [of UNIV] by (intro card_mono) (auto simp: finite_Prod_UNIV)
    then have smaller: "card (UNIV :: (mac_address \<times> mac_address) set) - card {e. flow_edges ?g e}
        < card (UNIV :: (mac_address \<times> mac_address) set) - card {e. flow_edges g e}" using bal(4) by simp
    have loops: "no_self_links ?g" using less.prems(1) no_self_links_cong [OF bal(3)] by simp
    obtain path' where path': "bfs ?g s t True = Some path'"
        "path' \<noteq> [] \<Longrightarrow> hd path' = s \<and> last path' = t \<and> distinct path' \<and> successively (usable ?g True) path'"
      using bfs_result [OF loops, of s t True] by blast
    obtain g' where g': "augment s t path' ?g = Some g'" "balanced g' s t s" "neighbors g' = neighbors ?g"
        "card (out_flow ?g s) + (if path' = [] then 0 else 1) \<le> card (out_flow g' s)"
      using less.hyps [OF smaller loops bal(1) less.prems(3), of path'] path'(2) by blast
    have "augment s t path g = Some g'"
      using False path'(1) g'(1) by (subst augment.simps) (simp add: steps_def Let_def)
    then show ?thesis using g'(2-4) bal(2,3) by auto
  qed
qed

section \<open>Cancelling\<close>

abbreviation cancel :: "mac_address \<times> mac_address \<Rightarrow> simple_graph \<Rightarrow> simple_graph" where
  "cancel \<equiv> \<lambda>(u, v) g. if flow_edges g (u, v) \<and> flow_edges g (v, u) then false_flow (v, u) (false_flow (u, v) g) else g"

lemma cancel_balanced:
  assumes "no_self_links g" "balanced g s t s"
  shows "balanced (cancel (u, v) g) s t s \<and> neighbors (cancel (u, v) g) = neighbors g \<and> out_flow (cancel (u, v) g) s = out_flow g s"
proof (cases "flow_edges g (u, v) \<and> flow_edges g (v, u)")
  case True
  let ?g = "false_flow (v, u) (false_flow (u, v) g)"
  have ne: "u \<noteq> v" "u \<noteq> s" "v \<noteq> s" using assms True by (auto simp: balanced_def no_self_links_def in_flow_def)
  have out: "out_flow ?g x = out_flow g x - (if x = u then {v} else if x = v then {u} else {})" for x
    using ne by (auto simp: out_flow_def)
  have inn: "in_flow ?g x = in_flow g x - (if x = u then {v} else if x = v then {u} else {})" for x
    using ne by (auto simp: in_flow_def)
  have mem: "v \<in> out_flow g u" "u \<in> out_flow g v" "v \<in> in_flow g u" "u \<in> in_flow g v" using True by (auto simp: out_flow_def in_flow_def)
  have "card (out_flow ?g x) = card (in_flow ?g x)" if "x \<noteq> s" "x \<noteq> t" for x
    using that mem assms(2) ne by (auto simp: out inn balanced_def card_Diff_singleton_if finite_macs)
  then have "balanced ?g s t s" using assms(2) inn [of s] by (auto simp: balanced_def)
  then show ?thesis using True out [of s] ne by simp
next
  case False
  then show ?thesis using assms(2) by auto
qed

lemma cancel_fold:
  "no_self_links g \<Longrightarrow> balanced g s t s \<Longrightarrow>
    balanced (fold cancel es g) s t s \<and> neighbors (fold cancel es g) = neighbors g \<and> out_flow (fold cancel es g) s = out_flow g s"
proof (induction es arbitrary: g)
  case (Cons e es)
  obtain u v where e: "e = (u, v)" by (cases e)
  note c = cancel_balanced [OF Cons.prems, of u v, folded e]
  then have "no_self_links (cancel e g)" using Cons.prems(1) no_self_links_cong [of "cancel e g" g] by simp
  from Cons.IH [OF this] show ?case using c by simp
qed simp

text \<open>Links without flow, none to oneself, and not more neighbors than a counter can count.\<close>

definition topology_ok :: "simple_graph \<Rightarrow> bool" where
  "topology_ok g = (no_self_links g \<and> flow_edges g = (\<lambda>_. False) \<and> (\<forall>u. distinct (neighbors g u) \<and> length (neighbors g u) < 2 ^ 32))"

lemma max_flow_returns:
  assumes "topology_ok g" "s \<noteq> t"
  shows "\<exists>n g'. max_flow s t g = Some (n, g') \<and> balanced g' s t s \<and> neighbors g' = neighbors g \<and> card (out_flow g' s) = n
    \<and> (n = 0 \<longleftrightarrow> \<not> (\<lambda>u v. v \<in> set (neighbors g u))\<^sup>*\<^sup>* s t)"
proof -
  let ?g0 = "false_all_flows g"
  have g0: "neighbors ?g0 = neighbors g" "flow_edges ?g0 = (\<lambda>_. False)"
    using fold_false_flow [of "all_edges g" g] assms(1) by (simp_all add: false_all_flows_def topology_ok_def)
  have loops: "no_self_links ?g0" using assms(1) no_self_links_cong [OF g0(1)] by (simp add: topology_ok_def)
  have bal0: "balanced ?g0 s t s" by (simp add: balanced_def g0 out_flow_def in_flow_def)
  have usable: "usable ?g0 True = (\<lambda>u v. v \<in> set (neighbors g u))" by (intro ext) (simp add: usable_def g0)
  obtain path where path: "bfs ?g0 s t True = Some path" "path = [] \<longleftrightarrow> \<not> (\<lambda>u v. v \<in> set (neighbors g u))\<^sup>*\<^sup>* s t"
      "path \<noteq> [] \<Longrightarrow> hd path = s \<and> last path = t \<and> distinct path \<and> successively (usable ?g0 True) path"
    using bfs_result [OF loops, of s t True] unfolding usable by blast
  obtain g1 where g1: "augment s t path ?g0 = Some g1" "balanced g1 s t s" "neighbors g1 = neighbors ?g0"
      "card (out_flow ?g0 s) + (if path = [] then 0 else 1) \<le> card (out_flow g1 s)"
    using augment_returns [OF loops bal0 assms(2), of path] path(3) by blast
  have "path = [] \<Longrightarrow> g1 = ?g0" using g1(1) by (subst (asm) augment.simps) simp
  then have count: "card (out_flow g1 s) = 0 \<longleftrightarrow> path = []" using g1(4) g0(2)
    by (cases "path = []") (auto simp: out_flow_def)
  define g2 where "g2 = cancel_both_ways g1"
  have loops1: "no_self_links g1" using loops no_self_links_cong [OF g1(3)] by simp
  have g2: "balanced g2 s t s" "neighbors g2 = neighbors g" "out_flow g2 s = out_flow g1 s"
    using cancel_fold [OF loops1 g1(2), of "all_edges g1"] g1(3) g0(1) by (simp_all add: g2_def cancel_both_ways_def)
  define nflow where "nflow = filter (\<lambda>n. flow_edges g2 (s, n)) (neighbors g2 s)"
  have "out_flow g2 s = set nflow" using g2(1) by (auto simp: out_flow_def balanced_def nflow_def)
  moreover have dist: "distinct (neighbors g2 s)" "length (neighbors g2 s) < 2 ^ 32" using assms(1) by (simp_all add: g2(2) topology_ok_def)
  ultimately have card: "card (out_flow g2 s) = length nflow" using distinct_card [of nflow] by (simp add: nflow_def)
  have small: "length nflow < 2 ^ 32" using dist(2) length_filter_le [of _ "neighbors g2 s"] unfolding nflow_def by (rule le_less_trans [rotated])
  have "max_flow s t g = Some (card (out_flow g2 s), g2)"
    using path(1) g1(1) card small by (simp add: max_flow_def g2_def [symmetric] nflow_def [symmetric] Let_def)
  then show ?thesis using g2 count path(2) by auto
qed

section \<open>Following the flow\<close>

lemma steps_snoc: "path \<noteq> [] \<Longrightarrow> steps (path @ [x]) = steps path @ [(last path, x)]"
  by (induction path rule: induct_list012) auto

lemma steps_prefix: "set (steps xs) \<subseteq> set (steps (xs @ ys))"
  by (induction xs rule: induct_list012) auto

lemma pop_back_drop:
  "n \<in> set rpath \<Longrightarrow> distinct rpath \<Longrightarrow>
    pop_back_to n rpath (set rpath) = Inr (dropWhile (\<lambda>p. p \<noteq> n) rpath, set (dropWhile (\<lambda>p. p \<noteq> n) rpath))"
proof (induction rpath)
  case (Cons p rpath)
  show ?case
  proof (cases "p = n")
    case False
    then have "set (p # rpath) - {p} = set rpath" using Cons.prems(2) by auto
    then show ?thesis using False Cons by simp
  qed simp
qed simp

lemma drop_to: "n \<in> set xs \<Longrightarrow> dropWhile (\<lambda>p. p \<noteq> n) xs \<noteq> [] \<and> hd (dropWhile (\<lambda>p. p \<noteq> n) xs) = n \<and> last (dropWhile (\<lambda>p. p \<noteq> n) xs) = last xs"
  by (induction xs) auto

text \<open>On the way to the sink: \<open>c\<close> is where the path has come to, and its steps have lost their flow since \<open>g0\<close>.\<close>

definition tracing :: "simple_graph \<Rightarrow> mac_address \<Rightarrow> mac_address \<Rightarrow> nat \<Rightarrow> mac_address \<Rightarrow> mac_address list \<Rightarrow> simple_graph \<Rightarrow> bool" where
  "tracing g0 s t k c rpath g = (balanced g s t c \<and> neighbors g = neighbors g0 \<and> (\<forall>e. flow_edges g e \<longrightarrow> flow_edges g0 e)
     \<and> card (out_flow g s) = (if c = s then k else k - 1) \<and> rpath \<noteq> [] \<and> hd rpath = c \<and> last rpath = s \<and> distinct rpath
     \<and> (\<forall>e \<in> set (steps (rev rpath)). flow_edges g0 e \<and> \<not> flow_edges g e))"

lemma false_flow_balanced:
  assumes "balanced g s t c" "flow_edges g (c, n)" "c \<noteq> t" "c \<noteq> n"
  shows "balanced (false_flow (c, n) g) s t n" "n \<noteq> s"
    "card (out_flow (false_flow (c, n) g) s) = (if c = s then card (out_flow g s) - 1 else card (out_flow g s))"
proof -
  let ?g = "false_flow (c, n) g"
  have out: "out_flow ?g v = (if v = c then out_flow g v - {n} else out_flow g v)" for v by (auto simp: out_flow_def)
  have inn: "in_flow ?g v = (if v = n then in_flow g v - {c} else in_flow g v)" for v by (auto simp: in_flow_def)
  have mem: "n \<in> out_flow g c" "c \<in> in_flow g n" using assms(2) by (auto simp: out_flow_def in_flow_def)
  show n: "n \<noteq> s" using mem(2) assms(1) by (auto simp: balanced_def)
  have pos: "0 < card (in_flow g n)" using mem(2) by (auto simp: card_gt_0_iff finite_macs)
  have "card (out_flow ?g v) = card (in_flow ?g v) + (if v = n then 1 else 0)" if "v \<noteq> s" "v \<noteq> t" for v
    using that mem assms pos by (auto simp: out inn balanced_def card_Diff_singleton_if finite_macs)
  then show "balanced ?g s t n" using assms(1) n by (auto simp: balanced_def inn)
  show "card (out_flow ?g s) = (if c = s then card (out_flow g s) - 1 else card (out_flow g s))"
    using mem(1) by (auto simp: out card_Diff_singleton_if finite_macs)
qed

lemma trace_step_ok:
  assumes tr: "tracing g0 s t k c rpath g" and loops: "no_self_links g0" and "s \<noteq> t" "c \<noteq> t" "0 < k"
  shows "\<exists>c' rpath' g'. trace_step c rpath (set rpath) g = Inr (c', rpath', set rpath', g') \<and> tracing g0 s t k c' rpath' g'
    \<and> card {e. flow_edges g' e} < card {e. flow_edges g e}"
proof -
  note tr' = tr [unfolded tracing_def]
  have "0 < card (out_flow g c)" using tr' assms(4,5) by (cases "c = s") (auto simp: balanced_def)
  then obtain m where m: "flow_edges g (c, m)" by (auto simp: out_flow_def card_gt_0_iff)
  then have "m \<in> set (neighbors g c)" using tr' by (auto simp: balanced_def)
  then have "find (\<lambda>n. flow_edges g (c, n)) (neighbors g c) \<noteq> None" using m by (auto simp: find_None_iff)
  then obtain n where find: "find (\<lambda>n. flow_edges g (c, n)) (neighbors g c) = Some n" by blast
  then have flow: "flow_edges g (c, n)" "n \<in> set (neighbors g c)" by (auto simp: find_Some_iff)
  have ne: "c \<noteq> n" using flow(2) loops tr' by (auto simp: no_self_links_def)
  let ?g = "false_flow (c, n) g" and ?rpath = "if n \<in> set rpath then dropWhile (\<lambda>p. p \<noteq> n) rpath else n # rpath"
  note ff = false_flow_balanced [OF _ flow(1) assms(4) ne, of s] tr'
  have bal: "balanced ?g s t n" "n \<noteq> s" "card (out_flow ?g s) = k - 1"
    using ff(1-3) tr' by auto
  have hd: "hd ?rpath = n" "?rpath \<noteq> []" "distinct ?rpath"
    using tr' drop_to [of n rpath] by (simp_all add: distinct_dropWhile)
  have last: "last ?rpath = s" using tr' drop_to [of n rpath] by simp
  have "set (steps (rev ?rpath)) \<subseteq> insert (c, n) (set (steps (rev rpath)))"
  proof (cases "n \<in> set rpath")
    case True
    have "rev rpath = rev (dropWhile (\<lambda>p. p \<noteq> n) rpath) @ rev (takeWhile (\<lambda>p. p \<noteq> n) rpath)" by (metis rev_append takeWhile_dropWhile_id)
    then show ?thesis using True steps_prefix [of "rev (dropWhile (\<lambda>p. p \<noteq> n) rpath)"] by (metis subset_insertI2)
  next
    case False
    then show ?thesis using tr' steps_snoc [of "rev rpath" n] by (auto simp: last_rev)
  qed
  then have "\<forall>e \<in> set (steps (rev ?rpath)). flow_edges g0 e \<and> \<not> flow_edges ?g e" using tr' flow(1) by auto
  moreover have "\<forall>e. flow_edges ?g e \<longrightarrow> flow_edges g0 e" using tr' by simp
  moreover have "neighbors ?g = neighbors g0" using tr' by simp
  ultimately have "tracing g0 s t k n ?rpath ?g"
    unfolding tracing_def using bal hd last by (intro conjI) simp_all
  moreover have "trace_step c rpath (set rpath) g = Inr (n, ?rpath, set ?rpath, ?g)"
    using find pop_back_drop [of n rpath] tr' by (auto simp: trace_step_def Let_def insert_absorb)
      (metis hd(1,2) insert_absorb list.set_sel(1))
  moreover have "{e. flow_edges ?g e} \<subset> {e. flow_edges g e}" using flow(1) by auto
  then have "card {e. flow_edges ?g e} < card {e. flow_edges g e}"
    by (rule psubset_card_mono [rotated]) (rule rev_finite_subset [of UNIV], simp_all add: finite_Prod_UNIV finite_macs)
  ultimately show ?thesis by blast
qed

lemma trace_path_ok:
  assumes "tracing g0 s t k c rpath g" "no_self_links g0" "s \<noteq> t" "0 < k"
  shows "\<exists>path g'. trace_path t c rpath (set rpath) g = Some (Inr (path, g')) \<and> tracing g0 s t k t (rev path) g'"
  using assms(1)
proof (induction "card {e. flow_edges g e}" arbitrary: c rpath g rule: less_induct)
  case less
  show ?case
  proof (cases "c = t")
    case True
    then show ?thesis using less.prems by (subst trace_path.simps) simp
  next
    case False
    obtain c' rpath' g' where step: "trace_step c rpath (set rpath) g = Inr (c', rpath', set rpath', g')"
        "tracing g0 s t k c' rpath' g'" "card {e. flow_edges g' e} < card {e. flow_edges g e}"
      using trace_step_ok [OF less.prems assms(2,3) False assms(4)] by blast
    then show ?thesis using less.hyps [OF step(3,2)] False by (subst trace_path.simps) simp
  qed
qed

definition path_between :: "simple_graph \<Rightarrow> mac_address \<Rightarrow> mac_address \<Rightarrow> mac_address list \<Rightarrow> bool" where
  "path_between g s t path = (path \<noteq> [] \<and> hd path = s \<and> last path = t \<and> distinct path \<and> successively (\<lambda>u v. v \<in> set (neighbors g u)) path)"

lemma tracing_path:
  assumes "tracing g s t k t (rev path) g'" "balanced g s t s" "s \<noteq> t"
  shows "path_between g s t path" "balanced g' s t s" "card (out_flow g' s) = k - 1" "neighbors g' = neighbors g"
    "\<forall>e \<in> set (steps path). flow_edges g e \<and> \<not> flow_edges g' e" "\<forall>e. flow_edges g' e \<longrightarrow> flow_edges g e"
proof -
  note tr = assms(1) [unfolded tracing_def]
  show "path_between g s t path"
    using tr assms(2) by (auto simp: path_between_def hd_rev last_rev successively_steps balanced_def)
  show "balanced g' s t s" using tr by (auto simp: balanced_def)
qed (use assms(1,3) in \<open>auto simp: tracing_def\<close>)

lemma trace_paths_ok:
  assumes "balanced g s t s" "no_self_links g" "s \<noteq> t" "card (out_flow g s) = n"
  shows "\<exists>paths. trace_paths n s t g = Some (Inr paths) \<and> length paths = n \<and> (\<forall>p \<in> set paths. path_between g s t p)
    \<and> distinct (concat (map steps paths)) \<and> (\<forall>e \<in> set (concat (map steps paths)). flow_edges g e)"
  using assms
proof (induction n arbitrary: g)
  case (Suc n)
  have start: "tracing g s t (Suc n) s [s] g" using Suc.prems by (simp add: tracing_def)
  obtain path g' where path: "trace_path t s [s] {s} g = Some (Inr (path, g'))" "tracing g s t (Suc n) t (rev path) g'"
    using trace_path_ok [OF start Suc.prems(2,3)] by auto
  note p = tracing_path [OF path(2) Suc.prems(1,3)]
  have "no_self_links g'" "card (out_flow g' s) = n" using Suc.prems(2) no_self_links_cong [OF p(4)] p(3) by simp_all
  then obtain paths where paths: "trace_paths n s t g' = Some (Inr paths)" "length paths = n" "\<forall>p \<in> set paths. path_between g' s t p"
      "distinct (concat (map steps paths))" "\<forall>e \<in> set (concat (map steps paths)). flow_edges g' e"
    using Suc.IH [OF p(2) _ Suc.prems(3)] by blast
  have "distinct (steps path)" using p(1) by (simp add: steps_def path_between_def distinct_zipI1)
  moreover have "set (steps path) \<inter> set (concat (map steps paths)) = {}" using p(5) paths(5) by blast
  moreover have "\<forall>q \<in> set paths. path_between g s t q" using paths(3) by (simp add: path_between_def p(4))
  moreover have "\<forall>e \<in> set (concat (map steps paths)). flow_edges g e" using paths(5) p(6) by blast
  ultimately show ?case
    using path(1) paths(1,2,4) p(1,5) by (intro exI [of _ "path # paths"]) auto
qed simp

text \<open>The search for disjoint paths between two different switches that report links returns, without reading out of bounds:
  with paths from the one to the other over reported links, each through no switch twice, no two of them over the same link, and
  with at least one of them if there is any path at all.\<close>

lemma disjoint_paths_returned:
  assumes "topology_ok g" "s \<noteq> d" "smap_find s (edges g) \<noteq> None" "smap_find d (edges g) \<noteq> None"
  shows "\<exists>paths. get_disjoint_paths s d g = Some (Inr paths) \<and> (\<forall>p \<in> set paths. path_between g s d p)
    \<and> distinct (concat (map steps paths)) \<and> (paths = [] \<longleftrightarrow> \<not> (\<lambda>u v. v \<in> set (neighbors g u))\<^sup>*\<^sup>* s d)"
proof -
  obtain n g' where m: "max_flow s d g = Some (n, g')" "balanced g' s d s" "neighbors g' = neighbors g" "card (out_flow g' s) = n"
      "n = 0 \<longleftrightarrow> \<not> (\<lambda>u v. v \<in> set (neighbors g u))\<^sup>*\<^sup>* s d"
    using max_flow_returns [OF assms(1,2)] by (elim exE conjE)
  have loops: "no_self_links g'" using assms(1) no_self_links_cong [OF m(3)] by (simp add: topology_ok_def)
  obtain paths where paths: "trace_paths n s d g' = Some (Inr paths)" "length paths = n" "\<forall>p \<in> set paths. path_between g' s d p"
      "distinct (concat (map steps paths))"
    using trace_paths_ok [OF m(2) loops assms(2) m(4)] by blast
  have "\<forall>p \<in> set paths. path_between g s d p" using paths(3) by (simp add: path_between_def m(3))
  then show ?thesis using paths m(1,5) assms(3,4) by (auto simp: get_disjoint_paths_def)
qed

definition diamond :: simple_graph where
  "diamond = fold (\<lambda>(u, v). add_edge u v) [(mac_of 1, mac_of 2), (mac_of 1, mac_of 3), (mac_of 2, mac_of 4), (mac_of 3, mac_of 4),
     (mac_of 4, mac_of 2)] simple_graph_new"

text \<open>Asked for the paths from a switch to itself, the search never returns: the path is found again and again, and no flow
  is ever used up by it.\<close>

theorem paths_to_oneself_hang:
  assumes "smap_find s (edges g) \<noteq> None"
  shows "get_disjoint_paths s s g = None"
proof -
  have bfs: "bfs g' s s f = Some [s]" for g' f
    by (simp add: bfs_def) (subst backtrack.simps, simp)
  have "augment s s [s] g' = None" for g'
  proof (cases "augment s s [s] g'")
    case (Some r)
    have "s = s \<longrightarrow> s = s \<longrightarrow> [s] = [s] \<longrightarrow> False"
      by (rule augment.raw_induct [where P = "\<lambda>s' t path g r. s' = s \<longrightarrow> t = s \<longrightarrow> path = [s] \<longrightarrow> False", OF _ Some])
        (fastforce simp: bfs Let_def)
    then show ?thesis by simp
  qed
  then show ?thesis using assms by (simp add: get_disjoint_paths_def max_flow_def bfs Let_def)
qed

theorem paths_to_oneself_hang_witness: "get_disjoint_paths (mac_of 2) (mac_of 2) diamond = None"
  by (rule paths_to_oneself_hang) code_simp

end
