(* ===== verification/Topology.thy ===== *)
theory Topology
  imports Topology_Flows Of_Stats
begin

text \<open>
  The topology graph (\<open>controller/services/topology_graph.{h,cpp}\<close>): what a switch knows of itself and of the others, the
  messages about it, the updates, the rounds of the daemon, and the graph that paths are searched in. Times are milliseconds
  in a \<open>uint32_t\<close>, arguments of the operations that read the clock.
\<close>

section \<open>Ports\<close>

record topology_port =
  tp_num :: "16 word"
  tp_online :: bool
  tp_is_stp_port :: bool
  tp_is_flood_port :: bool
  tp_name :: string

definition topology_port_new :: topology_port where
  "topology_port_new = \<lparr>tp_num = - 1, tp_online = False, tp_is_stp_port = False, tp_is_flood_port = False, tp_name = []\<rparr>"

definition topology_port_update :: "openflow_port \<Rightarrow> topology_port \<Rightarrow> bool \<times> topology_port" where
  "topology_port_update p s =
    (if tp_num s \<noteq> port_number p \<or> tp_online s \<noteq> is_up p \<or> tp_name s \<noteq> port_name p
     then (True, s\<lparr>tp_num := port_number p, tp_online := is_up p, tp_name := port_name p\<rparr>) else (False, s))"

definition bool_byte :: "bool \<Rightarrow> byte" where
  "bool_byte b = (if b then 1 else 0)"

definition topology_port_pack :: "topology_port \<Rightarrow> byte list" where
  "topology_port_pack s = be16 (tp_num s) @ [bool_byte (tp_online s), bool_byte (tp_is_stp_port s), bool_byte (tp_is_flood_port s)]
     @ name_field 40 (tp_name s)"

text \<open>A name is read up to the next zero byte, wherever it is.\<close>

definition topology_name :: "nat \<Rightarrow> byte list \<Rightarrow> string res" where
  "topology_name off input = (if 0 \<in> set (drop off input) then Inr (c_string (drop off input)) else Inl OutOfBounds)"

definition topology_port_unpack :: "nat \<Rightarrow> byte list \<Rightarrow> topology_port res" where
  "topology_port_unpack off input =
     bindr (fetch off 5 input) (\<lambda>b. bindr (topology_name (off + 5) input) (\<lambda>name.
       Inr \<lparr>tp_num = of_be16 (chunk 0 2 b), tp_online = (b ! 2 \<noteq> 0), tp_is_stp_port = (b ! 3 \<noteq> 0),
         tp_is_flood_port = (b ! 4 \<noteq> 0), tp_name = name\<rparr>))"

definition bool_digit :: "bool \<Rightarrow> string" where
  "bool_digit b = (if b then ''1'' else ''0'')"

definition topology_port_to_string :: "topology_port \<Rightarrow> string" where
  "topology_port_to_string s = [CHR 0x0A, CHR 0x09, CHR 0x09, CHR 0x09] @ '' Port State:''
     @ [CHR 0x0A, CHR 0x09, CHR 0x09, CHR 0x09, CHR 0x09] @ '' Port Number:   '' @ dec (unat (tp_num s))
     @ [CHR 0x0A, CHR 0x09, CHR 0x09, CHR 0x09, CHR 0x09] @ '' Name:          '' @ tp_name s
     @ [CHR 0x0A, CHR 0x09, CHR 0x09, CHR 0x09, CHR 0x09] @ '' Online:        '' @ bool_digit (tp_online s)
     @ [CHR 0x0A, CHR 0x09, CHR 0x09, CHR 0x09, CHR 0x09] @ '' Is STP Port:   '' @ bool_digit (tp_is_stp_port s)
     @ [CHR 0x0A, CHR 0x09, CHR 0x09, CHR 0x09, CHR 0x09] @ '' Is Flood Port: '' @ bool_digit (tp_is_flood_port s)"

section \<open>Nodes\<close>

record network_node =
  local_refresh :: "32 word"
  last_refresh :: "32 word"
  seq_num :: byte
  node_mac :: mac_address
  node_ip :: ip_address
  blacklisted :: bool
  whitelisted :: bool
  node_name :: string
  node_ports :: "(16 word, topology_port) smap"
  node_links :: "(16 word, mac_address \<times> 32 word) smap"

definition network_node_clear :: network_node where
  "network_node_clear = \<lparr>local_refresh = 0, last_refresh = 0, seq_num = 0, node_mac = mac_nil, node_ip = ip_nil,
     blacklisted = False, whitelisted = False, node_name = [], node_ports = [], node_links = []\<rparr>"

definition network_node_serialize :: "network_node \<Rightarrow> byte list" where
  "network_node_serialize n = be32 (last_refresh n) @ [seq_num n] @ mac_octets (node_mac n) @ ip_octets (node_ip n)
     @ name_field 40 (node_name n) @ be32 (of_nat (length (node_ports n))) @ be32 (of_nat (length (node_links n)))
     @ concat (map (\<lambda>(k, p). be16 k @ topology_port_pack p) (node_ports n))
     @ concat (map (\<lambda>(k, (m, _)). be16 k @ mac_octets m) (node_links n))"

text \<open>The loops over the ports and the links.\<close>

fun read_node_ports :: "nat \<Rightarrow> nat \<Rightarrow> byte list \<Rightarrow> (16 word, topology_port) smap \<Rightarrow> (nat \<times> (16 word, topology_port) smap) res" where
  "read_node_ports 0 off input m = Inr (off, m)"
| "read_node_ports (Suc i) off input m =
     bindr (fetch off 2 input) (\<lambda>k. bindr (topology_port_unpack (off + 2) input) (\<lambda>p.
       read_node_ports i (off + 47) input (smap_put (of_be16 k) p m)))"

fun read_node_links :: "nat \<Rightarrow> nat \<Rightarrow> byte list \<Rightarrow> (16 word, mac_address \<times> 32 word) smap \<Rightarrow> (16 word, mac_address \<times> 32 word) smap res" where
  "read_node_links 0 off input m = Inr m"
| "read_node_links (Suc i) off input m =
     bindr (fetch off 8 input) (\<lambda>b.
       read_node_links i (off + 8) input (smap_put (of_be16 (chunk 0 2 b)) (mac_from_bytes (chunk 2 6 b), 0) m))"

text \<open>The sizes of the ports and of the links are products in 32 bits.\<close>

definition network_node_deserialize :: "byte list \<Rightarrow> (bool \<times> network_node) res" where
  "network_node_deserialize input =
    (if length input < 63 then Inr (False, network_node_clear)
     else bindr (topology_name 15 input) (\<lambda>name.
       let n1 = network_node_clear\<lparr>last_refresh := of_be32 (chunk 0 4 input), seq_num := input ! 4,
             node_mac := mac_from_bytes (chunk 5 6 input), node_ip := ip_from_bytes (chunk 11 4 input), node_name := name\<rparr>;
           num_ports = unat (of_be32 (chunk 55 4 input)); num_links = unat (of_be32 (chunk 59 4 input)) in
       if length input < 63 + u32 (num_ports * 47) + u32 (num_links * 8) then Inr (False, n1)
       else bindr (read_node_ports num_ports 63 input []) (\<lambda>(off, ports').
         bindr (read_node_links num_links off input []) (\<lambda>links'.
           Inr (True, n1\<lparr>node_ports := ports', node_links := links'\<rparr>)))))"

definition network_node_to_string :: "network_node \<Rightarrow> string" where
  "network_node_to_string n = (let line = [CHR 0x0A, CHR 0x09]; line2 = [CHR 0x0A, CHR 0x09, CHR 0x09] in
     ''Network Node:'' @ line @ '' MAC Address:   '' @ mac_to_string (node_mac n)
     @ line @ '' IP Address:    '' @ ip_to_string (node_ip n)
     @ line @ '' Name:          '' @ node_name n
     @ line @ '' Local Refresh: '' @ dec (unat (local_refresh n))
     @ line @ '' Last Refresh:  '' @ dec (unat (last_refresh n))
     @ line @ '' Seq Num:       '' @ dec (unat (seq_num n))
     @ line @ '' Blacklisted:   '' @ bool_digit (blacklisted n)
     @ line @ '' Whitelisted:   '' @ bool_digit (whitelisted n)
     @ line @ '' Ports: ''
     @ concat (map (\<lambda>(k, p). line2 @ '' Port Number '' @ dec (unat k) @ '': '' @ topology_port_to_string p) (node_ports n))
     @ line @ '' Links: ''
     @ concat (map (\<lambda>(k, (m, t)). line2 @ '' Physical Port: '' @ dec (unat k) @ '' Neighbor MAC: '' @ mac_to_string m
         @ '' Local Refresh: '' @ dec (unat t)) (node_links n)))"

section \<open>The graph\<close>

text \<open>The buffers come from a pool; \<open>allocated\<close> says whether it has one. What is broadcast is logged.\<close>

record topology_graph =
  tg_initialized :: bool
  tg_me :: network_node
  other_nodes :: "(mac_address, network_node) smap"
  last_update_sent_time :: "32 word"
  tg_broadcast :: "byte list list"

definition topology_graph_new :: topology_graph where
  "topology_graph_new = \<lparr>tg_initialized = False, tg_me = network_node_clear, other_nodes = [], last_update_sent_time = 0, tg_broadcast = []\<rparr>"

definition topology_clear :: "topology_graph \<Rightarrow> topology_graph" where
  "topology_clear g = g\<lparr>tg_me := network_node_clear, other_nodes := []\<rparr>"

definition my_port_update :: "openflow_port \<Rightarrow> network_node \<Rightarrow> bool \<times> network_node" where
  "my_port_update p me =
    (let old = (case smap_find (port_number p) (node_ports me) of None \<Rightarrow> topology_port_new | Some s \<Rightarrow> s) in
     case topology_port_update p old of (changed, new) \<Rightarrow> (changed, me\<lparr>node_ports := smap_put (port_number p) new (node_ports me)\<rparr>))"

definition topology_init :: "mac_address \<Rightarrow> ip_address \<Rightarrow> string \<Rightarrow> openflow_port list \<Rightarrow> topology_graph \<Rightarrow> topology_graph" where
  "topology_init mac ip name my_ports g =
    (if tg_initialized g then g
     else g\<lparr>tg_me := fold (\<lambda>p me. snd (my_port_update p me)) my_ports ((tg_me g)\<lparr>node_mac := mac, node_ip := ip, node_name := name\<rparr>),
         tg_initialized := True\<rparr>)"

definition topology_shutdown :: "topology_graph \<Rightarrow> topology_graph" where
  "topology_shutdown g = g\<lparr>tg_initialized := False\<rparr>"

definition send_update :: "bool \<Rightarrow> 32 word \<Rightarrow> 32 word \<Rightarrow> topology_graph \<Rightarrow> topology_graph res" where
  "send_update allocated time sent_time g =
    (let me = tg_me g;
         me' = (if last_refresh me < time then me\<lparr>last_refresh := time, seq_num := 0\<rparr> else me\<lparr>seq_num := seq_num me + 1\<rparr>) in
     if \<not> allocated then Inl OutOfBounds
     else Inr (g\<lparr>tg_me := me', last_update_sent_time := sent_time, tg_broadcast := tg_broadcast g @ [network_node_serialize me']\<rparr>))"

definition update_local_port :: "bool \<Rightarrow> 32 word \<Rightarrow> 32 word \<Rightarrow> openflow_port \<Rightarrow> topology_graph \<Rightarrow> topology_graph res" where
  "update_local_port allocated time sent_time p g =
    (case my_port_update p (tg_me g) of (changed, me') \<Rightarrow>
      let g' = g\<lparr>tg_me := me'\<rparr> in if changed then send_update allocated time sent_time g' else Inr g')"

text \<open>What an update carries is stored under the address it is said to come from, if it is newer than what is stored there;
  the result of parsing it is not looked at, and the name is not stored.\<close>

definition newer_update :: "network_node \<Rightarrow> network_node \<Rightarrow> bool" where
  "newer_update old new = (last_refresh old < last_refresh new \<or> (last_refresh old = last_refresh new \<and> seq_num old < seq_num new))"

definition update_topology :: "32 word \<Rightarrow> mac_address \<Rightarrow> byte list \<Rightarrow> topology_graph \<Rightarrow> topology_graph res" where
  "update_topology now mac input g =
     bindr (network_node_deserialize input) (\<lambda>(_, new).
       if smap_find mac (other_nodes g) = None \<or> newer_update (the (smap_find mac (other_nodes g))) new
       then let old = (case smap_find mac (other_nodes g) of None \<Rightarrow> network_node_clear | Some n \<Rightarrow> n) in
         Inr (g\<lparr>other_nodes := smap_put mac (old\<lparr>node_mac := node_mac new, last_refresh := last_refresh new, seq_num := seq_num new,
           node_ip := node_ip new, node_ports := node_ports new, node_links := node_links new, local_refresh := now\<rparr>) (other_nodes g)\<rparr>)
       else Inr g)"

definition update_neighbor :: "bool \<Rightarrow> 32 word \<Rightarrow> 32 word \<Rightarrow> 32 word \<Rightarrow> 32 word \<Rightarrow> 16 word \<Rightarrow> mac_address \<Rightarrow> byte list \<Rightarrow> topology_graph
    \<Rightarrow> topology_graph res" where
  "update_neighbor allocated now now' time sent_time phy_port mac input g =
    (let me = tg_me g;
         update_needed = (case smap_find phy_port (node_links me) of None \<Rightarrow> True | Some (m, _) \<Rightarrow> m \<noteq> mac);
         g1 = g\<lparr>tg_me := me\<lparr>node_links := smap_put phy_port (mac, now) (node_links me)\<rparr>\<rparr> in
     bindr (update_topology now' mac input g1) (\<lambda>g2. if update_needed then send_update allocated time sent_time g2 else Inr g2))"

section \<open>The daemon\<close>

definition stale :: "32 word \<Rightarrow> 32 word \<Rightarrow> bool" where
  "stale now t = (t \<le> now \<and> 4000 < now - t)"

text \<open>A round after the sleep; an update is sent whether a link was stale or not.\<close>

definition daemon_round :: "bool \<Rightarrow> 32 word \<Rightarrow> 32 word \<Rightarrow> 32 word \<Rightarrow> topology_graph \<Rightarrow> topology_graph res" where
  "daemon_round allocated now time sent_time g =
    (let me = tg_me g;
         me' = me\<lparr>node_links := fold smap_erase (map fst (filter (\<lambda>(k, (m, t)). stale now t) (node_links me))) (node_links me)\<rparr> in
     bindr (send_update allocated time sent_time (g\<lparr>tg_me := me'\<rparr>)) (\<lambda>g1.
       Inr (g1\<lparr>other_nodes := fold smap_erase (map fst (filter (\<lambda>(k, n). stale now (local_refresh n)) (other_nodes g1))) (other_nodes g1)\<rparr>)))"

section \<open>Questions\<close>

definition topology_to_string :: "topology_graph \<Rightarrow> string" where
  "topology_to_string g = (let line = [CHR 0x0A] in ''My Information(Me Node):'' @ line @ network_node_to_string (tg_me g) @ line @ line @ ''Other Nodes:''
     @ concat (map (\<lambda>(m, n). line @ '' MAC Address:  '' @ mac_to_string m @ line @ network_node_to_string n @ line) (other_nodes g)) @ line)"

definition get_neighbor_port :: "mac_address \<Rightarrow> topology_graph \<Rightarrow> 16 word option" where
  "get_neighbor_port mac g = map_option fst (find (\<lambda>(k, (m, t)). m = mac) (node_links (tg_me g)))"

definition serialize_local_node :: "topology_graph \<Rightarrow> byte list" where
  "serialize_local_node g = network_node_serialize (tg_me g)"

definition add_links :: "mac_address \<Rightarrow> (16 word, mac_address \<times> 32 word) smap \<Rightarrow> simple_graph \<Rightarrow> simple_graph" where
  "add_links u links g = fold (\<lambda>(k, (m, t)). add_edge u m) links g"

definition to_simple_graph :: "topology_graph \<Rightarrow> simple_graph" where
  "to_simple_graph g = fold (\<lambda>(m, n). add_links m (node_links n)) (other_nodes g)
     (add_links (node_mac (tg_me g)) (node_links (tg_me g)) simple_graph_new)"

definition topology_shortest_path :: "mac_address \<Rightarrow> mac_address \<Rightarrow> topology_graph \<Rightarrow> mac_address list option" where
  "topology_shortest_path source dest g = get_shortest_path source dest (to_simple_graph g)"

definition topology_disjoint_paths :: "mac_address \<Rightarrow> mac_address \<Rightarrow> topology_graph \<Rightarrow> mac_address list list res option" where
  "topology_disjoint_paths source dest g = get_disjoint_paths source dest (to_simple_graph g)"

section \<open>Messages about a node\<close>

lemma smap_put_last: "smap_ok (m @ [(k, v)]) \<Longrightarrow> smap_put k v m = m @ [(k, v)]"
proof (induction m)
  case (Cons a m)
  then show ?case by (cases a) (fastforce simp: smap_ok_def)
qed simp

lemma smap_ok_prefix: "smap_ok (m @ m') \<Longrightarrow> smap_ok m"
  by (simp add: smap_ok_def sorted_wrt_append)

lemma fold_smap_put: "smap_ok (m @ m') \<Longrightarrow> fold (\<lambda>(k, v) m. smap_put k v m) m' m = m @ m'"
proof (induction m' arbitrary: m)
  case (Cons kv m')
  obtain k v where kv: "kv = (k, v)" by (cases kv)
  have "smap_put k v m = m @ [(k, v)]" using Cons.prems smap_ok_prefix [of "m @ [(k, v)]" m'] by (intro smap_put_last) (simp add: kv)
  then show ?case using Cons.IH [of "m @ [(k, v)]"] Cons.prems by (simp add: kv)
qed simp

lemma topology_name_field: "topology_name (length pre) (pre @ name_field 40 s @ rest) = Inr (name_reread 40 s)"
proof -
  have "0 \<in> set (name_field 40 s)" by (simp add: name_field_alt Let_def)
  then show ?thesis using c_string_name_field(1) [of 40 s rest] by (simp add: topology_name_def)
qed

abbreviation port_reread :: "topology_port \<Rightarrow> topology_port" where
  "port_reread p \<equiv> p\<lparr>tp_name := name_reread 40 (tp_name p)\<rparr>"

lemma length_topology_port_pack [simp]: "length (topology_port_pack p) = 45"
  by (simp add: topology_port_pack_def)

lemma topology_port_unpack_pack: "topology_port_unpack (length pre) (pre @ topology_port_pack p @ rest) = Inr (port_reread p)"
proof -
  let ?head = "be16 (tp_num p) @ [bool_byte (tp_online p), bool_byte (tp_is_stp_port p), bool_byte (tp_is_flood_port p)]"
  have input: "pre @ topology_port_pack p @ rest = (pre @ ?head) @ name_field 40 (tp_name p) @ rest" by (simp add: topology_port_pack_def)
  have "chunk (length pre) 5 (pre @ ?head @ name_field 40 (tp_name p) @ rest) = ?head" by (simp add: chunk_def)
  moreover have "topology_name (length pre + 5) ((pre @ ?head) @ name_field 40 (tp_name p) @ rest) = Inr (name_reread 40 (tp_name p))"
    using topology_name_field [of "pre @ ?head" "tp_name p" rest] by simp
  moreover have "?head ! 2 = bool_byte (tp_online p)" "?head ! 3 = bool_byte (tp_is_stp_port p)" "?head ! 4 = bool_byte (tp_is_flood_port p)"
    by (simp_all add: nth_append)
  ultimately show ?thesis unfolding input
    by (simp add: topology_port_unpack_def fetch_def field_simps_rules) (simp add: bool_byte_def chunk_def)
qed

lemma read_node_ports_back:
  "read_node_ports (length ps) (length pre) (pre @ concat (map (\<lambda>(k, p). be16 k @ topology_port_pack p) ps) @ rest) m
    = Inr (length pre + 47 * length ps, fold (\<lambda>(k, p) m. smap_put k (port_reread p) m) ps m)"
proof (induction ps arbitrary: pre m)
  case (Cons kp ps)
  obtain k p where kp: "kp = (k, p)" by (cases kp)
  let ?more = "concat (map (\<lambda>(k, p). be16 k @ topology_port_pack p) ps) @ rest"
  have "topology_port_unpack (length pre + 2) ((pre @ be16 k) @ topology_port_pack p @ ?more) = Inr (port_reread p)"
    using topology_port_unpack_pack [of "pre @ be16 k" p ?more] by simp
  moreover have "fetch (length pre) 2 (pre @ be16 k @ topology_port_pack p @ ?more) = Inr (be16 k)" by (simp add: fetch_def chunk_def)
  moreover have "read_node_ports (length ps) (length pre + 47) (pre @ be16 k @ topology_port_pack p @ ?more) (smap_put k (port_reread p) m)
      = Inr (length pre + 47 + 47 * length ps, fold (\<lambda>(k, p) m. smap_put k (port_reread p) m) ps (smap_put k (port_reread p) m))"
    using Cons.IH [of "pre @ be16 k @ topology_port_pack p" "smap_put k (port_reread p) m"] by simp
  ultimately show ?case by (simp add: kp field_simps_rules)
qed simp

lemma read_node_links_back:
  "read_node_links (length ls) (length pre) (pre @ concat (map (\<lambda>(k, (m, t)). be16 k @ mac_octets m) ls)) links
    = Inr (fold (\<lambda>(k, (m, t)) links. smap_put k (m, 0) links) ls links)"
proof (induction ls arbitrary: pre links)
  case (Cons kl ls)
  obtain k m t where kl: "kl = (k, m, t)" by (cases kl)
  let ?more = "concat (map (\<lambda>(k, (m, t)). be16 k @ mac_octets m) ls)"
  have mac: "length (mac_octets m) = 6" "mac_from_bytes (mac_octets m) = m" by (cases m; simp)+
  have "fetch (length pre) 8 (pre @ be16 k @ mac_octets m @ ?more) = Inr (be16 k @ mac_octets m)" by (simp add: fetch_def chunk_def mac)
  moreover have "read_node_links (length ls) (length pre + 8) (pre @ be16 k @ mac_octets m @ ?more) (smap_put k (m, 0) links)
      = Inr (fold (\<lambda>(k, (m, t)) links. smap_put k (m, 0) links) ls (smap_put k (m, 0) links))"
    using Cons.IH [of "pre @ be16 k @ mac_octets m" "smap_put k (m, 0) links"] by (simp add: mac)
  ultimately show ?case by (simp add: kl field_simps_rules mac chunk_def)
qed simp

text \<open>At most \<open>2 ^ 16\<close> ports have a number.\<close>

lemma smap16_length: "smap_ok (m :: (16 word, 'v) smap) \<Longrightarrow> length m \<le> 65536"
proof -
  assume "smap_ok m"
  then have "distinct (map fst m)" by (simp add: smap_ok_def strict_sorted_iff)
  then have "length m = card (set (map fst m))" by (simp only: distinct_card length_map)
  also have "\<dots> \<le> card (UNIV :: 16 word set)" by (intro card_mono) simp_all
  finally show ?thesis by (simp add: card_word)
qed

definition node_reread :: "network_node \<Rightarrow> network_node" where
  "node_reread n = n\<lparr>local_refresh := 0, blacklisted := False, whitelisted := False, node_name := name_reread 40 (node_name n),
     node_ports := map (\<lambda>(k, p). (k, port_reread p)) (node_ports n), node_links := map (\<lambda>(k, (m, t)). (k, (m, 0))) (node_links n)\<rparr>"

lemma node_reread_keys: "map fst (map (\<lambda>(k, p). (k, f p)) ps) = map fst ps"
  by (induction ps) auto

lemma fold_put_reread:
  "fold (\<lambda>(k, p) m. smap_put k (port_reread p) m) ps acc = fold (\<lambda>(k, p) m. smap_put k p m) (map (\<lambda>(k, p). (k, port_reread p)) ps) acc"
  by (induction ps arbitrary: acc) auto

lemma fold_put_links:
  "fold (\<lambda>(k, (m, t)) links. smap_put k (m, 0) links) ls acc = fold (\<lambda>(k, p) m. smap_put k p m) (map (\<lambda>(k, (m, t)). (k, (m, 0))) ls) acc"
  by (induction ls arbitrary: acc) auto

lemma length_concat_const: "(\<And>x. x \<in> set xs \<Longrightarrow> length (f x) = n) \<Longrightarrow> length (concat (map f xs)) = n * length xs"
  by (induction xs) auto

lemma node_deserialize_serialize:
  assumes "smap_ok (node_ports n)" "smap_ok (node_links n)"
  shows "network_node_deserialize (network_node_serialize n) = Inr (True, node_reread n)"
proof -
  let ?ps = "concat (map (\<lambda>(k, p). be16 k @ topology_port_pack p) (node_ports n))"
  let ?ls = "concat (map (\<lambda>(k, (m, _)). be16 k @ mac_octets m) (node_links n))"
  let ?np = "length (node_ports n)" and ?nl = "length (node_links n)"
  let ?pre = "be32 (last_refresh n) @ [seq_num n] @ mac_octets (node_mac n) @ ip_octets (node_ip n)"
  let ?hdr = "?pre @ name_field 40 (node_name n) @ be32 (of_nat ?np) @ be32 (of_nat ?nl)"
  let ?input = "?hdr @ ?ps @ ?ls"
  have input: "network_node_serialize n = ?input" by (simp add: network_node_serialize_def)
  have octets: "length (mac_octets m) = 6" "mac_from_bytes (mac_octets m) = m" "length (ip_octets i) = 4" "ip_from_bytes (ip_octets i) = i" for m i
    by (cases m; cases i; simp)+
  have small: "?np \<le> 65536" "?nl \<le> 65536" using assms by (simp_all add: smap16_length)
  have hdr: "length ?pre = 15" "length ?hdr = 63" by (simp_all add: octets)
  have len: "length ?ps = 47 * ?np" "length ?ls = 8 * ?nl"
    by (rule length_concat_const, auto simp: octets)+
  have fields: "chunk 0 4 ?input = be32 (last_refresh n)" "?input ! 4 = seq_num n" "chunk 5 6 ?input = mac_octets (node_mac n)"
      "chunk 11 4 ?input = ip_octets (node_ip n)" "chunk 55 4 ?input = be32 (of_nat ?np)" "chunk 59 4 ?input = be32 (of_nat ?nl)"
    by (simp_all add: field_simps_rules octets nth_append)
  have name: "topology_name 15 ?input = Inr (name_reread 40 (node_name n))"
    using topology_name_field [of ?pre "node_name n" "be32 (of_nat ?np) @ be32 (of_nat ?nl) @ ?ps @ ?ls"] hdr(1) by simp
  have counts: "unat (word_of_nat ?np :: 32 word) = ?np" "unat (word_of_nat ?nl :: 32 word) = ?nl"
    using small by (simp_all add: unat_of_nat)
  have ports: "read_node_ports ?np 63 ?input [] = Inr (63 + 47 * ?np, map (\<lambda>(k, p). (k, port_reread p)) (node_ports n))"
  proof -
    have "fold (\<lambda>(k, p) m. smap_put k (port_reread p) m) (node_ports n) []
        = fold (\<lambda>(k, p) m. smap_put k p m) (map (\<lambda>(k, p). (k, port_reread p)) (node_ports n)) []" by (rule fold_put_reread)
    also have "\<dots> = map (\<lambda>(k, p). (k, port_reread p)) (node_ports n)"
      using assms(1) by (intro fold_smap_put [where m = "[]", unfolded append_Nil]) (simp add: smap_ok_def comp_def case_prod_beta)
    finally show ?thesis using read_node_ports_back [of "node_ports n" ?hdr ?ls "[]"] hdr(2) by simp
  qed
  have links: "read_node_links ?nl (63 + 47 * ?np) ?input [] = Inr (map (\<lambda>(k, (m, t)). (k, (m, 0))) (node_links n))"
  proof -
    have "fold (\<lambda>(k, (m, t)) links. smap_put k (m, 0) links) (node_links n) []
        = fold (\<lambda>(k, p) m. smap_put k p m) (map (\<lambda>(k, (m, t)). (k, (m, 0))) (node_links n)) []" by (rule fold_put_links)
    also have "\<dots> = map (\<lambda>(k, (m, t)). (k, (m, 0))) (node_links n)"
      using assms(2) by (intro fold_smap_put [where m = "[]", unfolded append_Nil]) (simp add: smap_ok_def comp_def case_prod_beta)
    finally show ?thesis using read_node_links_back [of "node_links n" "?hdr @ ?ps" "[]"] hdr(2) len(1) by simp
  qed
  have size: "length ?input = 63 + ?np * 47 + ?nl * 8" using hdr(2) len by simp
  have u: "u32 (?np * 47) = ?np * 47" "u32 (?nl * 8) = ?nl * 8" using small by simp_all
  show ?thesis unfolding input network_node_deserialize_def
    using size by (simp only: fields name counts ports links u bindr.simps Let_def of_be_be octets prod.case if_False not_less)
      (simp add: node_reread_def network_node_clear_def)
qed

text \<open>C28. What a switch says about itself is what the others read: the message about a node, with any number of ports and
  links, is read back as the node, with its names cut at 39 characters and at the first zero, and with the times that only matter
  to the sender left out.\<close>

theorem node_message_roundtrip:
  assumes "smap_ok (node_ports n)" "smap_ok (node_links n)"
  shows "network_node_deserialize (network_node_serialize n) = Inr (True, node_reread n)"
  by (rule node_deserialize_serialize [OF assms])

definition example_node :: network_node where
  "example_node = network_node_clear\<lparr>last_refresh := 77, seq_num := 3, node_mac := mac_of 9, node_name := ''core'',
     node_ports := [(1, topology_port_new\<lparr>tp_num := 1, tp_online := True, tp_name := ''fo1''\<rparr>)],
     node_links := [(1, (mac_of 4, 50)), (7, (mac_of 5, 60))]\<rparr>"

theorem node_message_roundtrip_witness:
  "network_node_deserialize (network_node_serialize example_node) = Inr (True, node_reread example_node)"
  by (rule node_message_roundtrip) (simp_all add: example_node_def smap_ok_def)

section \<open>Updates\<close>

text \<open>The point in time that a report speaks of: its refresh time, and within it its number.\<close>

definition report_time :: "network_node \<Rightarrow> nat" where
  "report_time n = unat (last_refresh n) * 256 + unat (seq_num n)"

lemma newer_update_time: "newer_update old new = (report_time old < report_time new)"
proof -
  have "unat (seq_num old) < 256" "unat (seq_num new) < 256" using unsigned_less [of "seq_num old"] unsigned_less [of "seq_num new"] by simp_all
  then show ?thesis unfolding newer_update_def report_time_def word_less_nat_alt word_unat_eq_iff by arith
qed

text \<open>What the entry of a switch that was unknown is after an update: the report, without its name and with no marks, with
  the time of its arrival.\<close>

definition entry_of :: "32 word \<Rightarrow> network_node \<Rightarrow> network_node" where
  "entry_of now new = new\<lparr>node_name := '''', blacklisted := False, whitelisted := False, local_refresh := now\<rparr>"

lemma report_time_entry [simp]: "report_time (entry_of now new) = report_time new"
  by (simp add: report_time_def entry_of_def)

lemma update_topology_effect:
  assumes "network_node_deserialize input = Inr (ok, new)"
    and "case smap_find mac (other_nodes g) of None \<Rightarrow> True | Some old \<Rightarrow> \<exists>t n. old = entry_of t n"
  obtains g' where "update_topology now mac input g = Inr g'"
    "smap_find mac (other_nodes g') = Some (case smap_find mac (other_nodes g) of None \<Rightarrow> entry_of now new
     | Some old \<Rightarrow> if report_time old < report_time new then entry_of now new else old)"
    "\<And>m. m \<noteq> mac \<Longrightarrow> smap_find m (other_nodes g') = smap_find m (other_nodes g)"
proof (cases "smap_find mac (other_nodes g)")
  case None
  have "network_node_clear\<lparr>node_mac := node_mac new, last_refresh := last_refresh new, seq_num := seq_num new, node_ip := node_ip new,
      node_ports := node_ports new, node_links := node_links new, local_refresh := now\<rparr> = entry_of now new"
    by (cases new) (simp add: entry_of_def network_node_clear_def)
  then show ?thesis using that [of "g\<lparr>other_nodes := smap_put mac (entry_of now new) (other_nodes g)\<rparr>"] assms(1) None
    by (simp add: update_topology_def smap_find_put)
next
  case (Some old)
  obtain t n where "old = entry_of t n" using assms(2) Some by auto
  then have "old\<lparr>node_mac := node_mac new, last_refresh := last_refresh new, seq_num := seq_num new, node_ip := node_ip new,
      node_ports := node_ports new, node_links := node_links new, local_refresh := now\<rparr> = entry_of now new"
    by (cases n; cases new) (simp add: entry_of_def)
  then show ?thesis using that [of "if newer_update old new then g\<lparr>other_nodes := smap_put mac (entry_of now new) (other_nodes g)\<rparr> else g"]
    assms(1) Some by (simp add: update_topology_def smap_find_put newer_update_time)
qed

definition run_updates :: "mac_address \<Rightarrow> (32 word \<times> byte list) list \<Rightarrow> topology_graph \<Rightarrow> topology_graph res" where
  "run_updates mac msgs g = fold (\<lambda>(now, input) r. bindr r (update_topology now mac input)) msgs (Inr g)"

text \<open>The place of the first newest report.\<close>

definition first_newest :: "network_node list \<Rightarrow> nat \<Rightarrow> bool" where
  "first_newest news i = (i < length news \<and> (\<forall>j < length news. report_time (news ! j) \<le> report_time (news ! i))
     \<and> (\<forall>j < i. report_time (news ! j) < report_time (news ! i)))"

lemma first_newest_snoc:
  assumes "first_newest news i"
  shows "first_newest (news @ [new]) (if report_time (news ! i) < report_time new then length news else i)"
  using assms unfolding first_newest_def by (auto simp: nth_append less_Suc_eq intro: le_less_trans less_imp_le)

lemma run_updates_newest:
  assumes "list_all2 (\<lambda>(now, input) new. \<exists>ok. network_node_deserialize input = Inr (ok, new)) msgs news" "msgs \<noteq> []"
    and "smap_find mac (other_nodes g) = None"
  shows "\<exists>g' i. run_updates mac msgs g = Inr g' \<and> first_newest news i
    \<and> smap_find mac (other_nodes g') = Some (entry_of (fst (msgs ! i)) (news ! i))
    \<and> (\<forall>m. m \<noteq> mac \<longrightarrow> smap_find m (other_nodes g') = smap_find m (other_nodes g))"
  using assms(1,2)
proof (induction msgs arbitrary: news rule: rev_induct)
  case (snoc msg msgs)
  obtain now input where msg: "msg = (now, input)" by (cases msg)
  obtain news' new where news: "news = news' @ [new]" and all: "list_all2 (\<lambda>(now, input) new. \<exists>ok. network_node_deserialize input = Inr (ok, new)) msgs news'"
    and new: "\<exists>ok. network_node_deserialize input = Inr (ok, new)"
    using snoc.prems(1) by (auto simp: msg list_all2_append1 list_all2_Cons1)
  from new obtain ok where ok: "network_node_deserialize input = Inr (ok, new)" ..
  have len: "length msgs = length news'" using all by (rule list_all2_lengthD)
  show ?case
  proof (cases "msgs = []")
    case True
    obtain g' where "update_topology now mac input g = Inr g'" "smap_find mac (other_nodes g') = Some (entry_of now new)"
      "\<And>m. m \<noteq> mac \<Longrightarrow> smap_find m (other_nodes g') = smap_find m (other_nodes g)"
      by (rule update_topology_effect [OF ok, of mac g now]) (use assms(3) in auto)
    then show ?thesis using True len by (auto simp: run_updates_def msg news first_newest_def)
  next
    case False
    from snoc.IH [OF all False] obtain g1 i where g1: "run_updates mac msgs g = Inr g1" "first_newest news' i"
      and entry: "smap_find mac (other_nodes g1) = Some (entry_of (fst (msgs ! i)) (news' ! i))"
      and others: "\<forall>m. m \<noteq> mac \<longrightarrow> smap_find m (other_nodes g1) = smap_find m (other_nodes g)" by blast
    let ?i = "if report_time (news' ! i) < report_time new then length news' else i"
    obtain g' where g': "update_topology now mac input g1 = Inr g'"
      "smap_find mac (other_nodes g') = Some (if report_time (news' ! i) < report_time new then entry_of now new
         else entry_of (fst (msgs ! i)) (news' ! i))"
      "\<And>m. m \<noteq> mac \<Longrightarrow> smap_find m (other_nodes g') = smap_find m (other_nodes g1)"
      by (rule update_topology_effect [OF ok, of mac g1 now]) (simp_all add: entry, blast)
    have i: "i < length news'" using g1(2) by (simp add: first_newest_def)
    have "run_updates mac (msgs @ [msg]) g = Inr g'" using g1(1) g'(1) by (simp add: run_updates_def msg)
    moreover have "first_newest news ?i" unfolding news by (rule first_newest_snoc [OF g1(2)])
    moreover have "smap_find mac (other_nodes g') = Some (entry_of (fst ((msgs @ [msg]) ! ?i)) (news ! ?i))"
      using g'(2) i len by (simp add: news nth_append msg)
    ultimately show ?thesis using g'(3) others by metis
  qed
qed simp

text \<open>C12. Of all that is heard about a switch the newest is kept, in whatever order the messages come: after any number of
  updates about a switch that was unknown, its entry is exactly the report of the message that speaks of the latest point in
  time (refresh time times 256 plus sequence number, as numbers), the first of them if several do, with no name and no mark as
  black- or whitelisted and with the time at which that message came in; the entries of all other switches are as they were.\<close>

theorem newest_update_kept:
  assumes "list_all2 (\<lambda>(now, input) new. \<exists>ok. network_node_deserialize input = Inr (ok, new)) msgs news" "msgs \<noteq> []"
    and "smap_find mac (other_nodes g) = None"
  shows "\<exists>g' i. run_updates mac msgs g = Inr g'
    \<and> smap_find mac (other_nodes g') = Some ((news ! i)\<lparr>node_name := '''', blacklisted := False, whitelisted := False, local_refresh := fst (msgs ! i)\<rparr>)
    \<and> i < length news
    \<and> (\<forall>j < length news. unat (last_refresh (news ! j)) * 256 + unat (seq_num (news ! j))
         \<le> unat (last_refresh (news ! i)) * 256 + unat (seq_num (news ! i)))
    \<and> (\<forall>j < i. unat (last_refresh (news ! j)) * 256 + unat (seq_num (news ! j))
         < unat (last_refresh (news ! i)) * 256 + unat (seq_num (news ! i)))
    \<and> (\<forall>m. m \<noteq> mac \<longrightarrow> smap_find m (other_nodes g') = smap_find m (other_nodes g))"
  using run_updates_newest [OF assms] unfolding first_newest_def report_time_def entry_of_def by blast

text \<open>Three messages, the newest in the middle: the last is of the same time, but of a smaller number.\<close>

theorem newest_update_kept_witness:
  "\<exists>g'. run_updates (mac_of 9) [(1, network_node_serialize (example_node\<lparr>last_refresh := 70, seq_num := 9\<rparr>)),
        (2, network_node_serialize example_node), (3, network_node_serialize (example_node\<lparr>seq_num := 2\<rparr>))] topology_graph_new = Inr g'
    \<and> smap_find (mac_of 9) (other_nodes g') = Some ((node_reread example_node)\<lparr>node_name := '''', blacklisted := False, whitelisted := False, local_refresh := 2\<rparr>)"
proof -
  let ?old = "example_node\<lparr>last_refresh := 70, seq_num := 9\<rparr>" and ?late = "example_node\<lparr>seq_num := 2\<rparr>"
  let ?msgs = "[(1, network_node_serialize ?old), (2, network_node_serialize example_node), (3, network_node_serialize ?late)]"
  let ?news = "[node_reread ?old, node_reread example_node, node_reread ?late]"
  have "network_node_deserialize (network_node_serialize example_node) = Inr (True, node_reread example_node)"
    "network_node_deserialize (network_node_serialize ?old) = Inr (True, node_reread ?old)"
    "network_node_deserialize (network_node_serialize ?late) = Inr (True, node_reread ?late)"
    by (rule node_deserialize_serialize; simp add: example_node_def smap_ok_def)+
  then have reports: "list_all2 (\<lambda>(now, input) new. \<exists>ok. network_node_deserialize input = Inr (ok, new)) ?msgs ?news"
    by (auto intro: exI [of _ True])
  have new: "smap_find (mac_of 9) (other_nodes topology_graph_new) = None" by (simp add: topology_graph_new_def smap_find_def)
  have times: "report_time (node_reread ?old) < report_time (node_reread example_node)"
    "report_time (node_reread ?late) < report_time (node_reread example_node)"
    by (simp_all add: report_time_def node_reread_def example_node_def)
  obtain g' i where g': "run_updates (mac_of 9) ?msgs topology_graph_new = Inr g'"
    "smap_find (mac_of 9) (other_nodes g') = Some ((?news ! i)\<lparr>node_name := '''', blacklisted := False, whitelisted := False, local_refresh := fst (?msgs ! i)\<rparr>)" "i < length ?news"
    and most: "\<forall>j < length ?news. report_time (?news ! j) \<le> report_time (?news ! i)"
    using newest_update_kept [OF reports _ new] unfolding report_time_def by blast
  have "report_time (node_reread example_node) \<le> report_time (?news ! i)" using most by fastforce
  then have "i = 1" using g'(3) times by (auto simp: less_Suc_eq nth_Cons split: nat.splits)
  then show ?thesis using g'(1,2) by auto
qed

text \<open>A message that is cut off wipes out what is known: if a message is long enough for its header but not for the ports and
  links that the header announces, and its time stamp is newer, then the entry of the switch loses all its ports and links.\<close>

theorem truncated_update_wipes:
  assumes "63 \<le> length input" "0 \<in> set (drop 15 input)"
    and "length input < 63 + u32 (unat (of_be32 (chunk 55 4 input)) * 47) + u32 (unat (of_be32 (chunk 59 4 input)) * 8)"
    and "smap_find mac (other_nodes g) = Some old" "last_refresh old < of_be32 (chunk 0 4 input)"
  shows "\<exists>g' n. update_topology now mac input g = Inr g' \<and> smap_find mac (other_nodes g') = Some n \<and> node_ports n = [] \<and> node_links n = []"
  using assms by (simp add: update_topology_def network_node_deserialize_def topology_name_def newer_update_def smap_find_put Let_def
      network_node_clear_def)

text \<open>The message of a node with a port that has lost its last byte.\<close>

theorem truncated_update_wipes_witness:
  "\<exists>g' n. update_topology 2 (mac_of 9) (butlast (network_node_serialize example_node))
      (topology_graph_new\<lparr>other_nodes := [(mac_of 9, example_node\<lparr>last_refresh := 70\<rparr>)]\<rparr>) = Inr g'
    \<and> smap_find (mac_of 9) (other_nodes g') = Some n \<and> node_links n = []"
proof -
  let ?input = "butlast (network_node_serialize example_node)"
  let ?g = "topology_graph_new\<lparr>other_nodes := [(mac_of 9, example_node\<lparr>last_refresh := 70\<rparr>)]\<rparr>"
  have len: "length ?input = 125" "chunk 55 4 ?input = be32 1" "chunk 59 4 ?input = be32 2" "chunk 0 4 ?input = be32 77" "0 \<in> set (drop 15 ?input)"
    by code_simp+
  show ?thesis using truncated_update_wipes [of ?input "mac_of 9" ?g "example_node\<lparr>last_refresh := 70\<rparr>" 2] len
    by (auto simp: smap_find_def example_node_def)
qed

section \<open>Rounds of the daemon\<close>

lemma purge_filter: "smap_ok m \<Longrightarrow> smap_find k (fold smap_erase (map fst (filter P m)) m)
    = (case smap_find k m of None \<Rightarrow> None | Some v \<Rightarrow> if P (k, v) then None else Some v)"
proof -
  assume ok: "smap_ok m"
  have "k \<in> set (map fst (filter P m)) \<longleftrightarrow> (\<exists>v. smap_find k m = Some v \<and> P (k, v))"
    using smap_find_in [OF ok] by force
  then show ?thesis using smap.find_purge [OF ok, of k "map fst (filter P m)"] by (auto split: option.splits)
qed

text \<open>A round of the daemon forgets what is stale and nothing else: of the own links and of the other switches exactly
  those stay that were heard of in the last 4000 milliseconds (or have a time in the future of the clock), and one update is sent, with the
  links that stay.\<close>

theorem daemon_drops_stale:
  assumes "smap_ok (node_links (tg_me g))" "smap_ok (other_nodes g)"
  shows "\<exists>g'. daemon_round True now time sent_time g = Inr g'
    \<and> (\<forall>k m t. smap_find k (node_links (tg_me g')) = Some (m, t) \<longleftrightarrow>
        smap_find k (node_links (tg_me g)) = Some (m, t) \<and> (now < t \<or> now - t \<le> 4000))
    \<and> (\<forall>m n. smap_find m (other_nodes g') = Some n \<longleftrightarrow>
        smap_find m (other_nodes g) = Some n \<and> (now < local_refresh n \<or> now - local_refresh n \<le> 4000))
    \<and> tg_broadcast g' = tg_broadcast g @ [network_node_serialize (tg_me g')]"
  using assms by (auto simp: daemon_round_def send_update_def Let_def purge_filter stale_def split: option.splits if_splits)

theorem daemon_drops_stale_witness:
  "\<exists>g'. daemon_round True 4055 4055 4055 (topology_graph_new\<lparr>tg_me := example_node\<rparr>) = Inr g'
    \<and> smap_find 1 (node_links (tg_me g')) = None \<and> smap_find 7 (node_links (tg_me g')) = Some (mac_of 5, 60)"
proof -
  let ?g = "topology_graph_new\<lparr>tg_me := example_node\<rparr>"
  have ok: "smap_ok (node_links (tg_me ?g))" "smap_ok (other_nodes ?g)" by (simp_all add: example_node_def topology_graph_new_def smap_ok_def)
  obtain g' where g': "daemon_round True 4055 4055 4055 ?g = Inr g'"
    "\<And>k m t. smap_find k (node_links (tg_me g')) = Some (m, t) \<longleftrightarrow>
        smap_find k (node_links (tg_me ?g)) = Some (m, t) \<and> (4055 < t \<or> 4055 - t \<le> 4000)"
    using daemon_drops_stale [OF ok, of 4055 4055 4055] by blast
  have "smap_find 1 (node_links (tg_me g')) \<noteq> Some (m, t)" for m t
    unfolding g'(2) by (auto simp: example_node_def smap_find_def)
  then have "smap_find 1 (node_links (tg_me g')) = None" by (cases "smap_find 1 (node_links (tg_me g'))") auto
  then show ?thesis using g'(1) g'(2) [of 7 "mac_of 5" 60] by (auto simp: example_node_def smap_find_def)
qed

section \<open>Paths in the topology\<close>

text \<open>A link that has been reported: by this switch about itself, or by another one.\<close>

definition reported :: "topology_graph \<Rightarrow> mac_address \<Rightarrow> mac_address \<Rightarrow> bool" where
  "reported g u v = ((u = node_mac (tg_me g) \<and> (\<exists>k t. (k, (v, t)) \<in> set (node_links (tg_me g))))
     \<or> (\<exists>n k t. (u, n) \<in> set (other_nodes g) \<and> (k, (v, t)) \<in> set (node_links n)))"

definition graph_ok :: "topology_graph \<Rightarrow> bool" where
  "graph_ok g = (smap_ok (node_links (tg_me g)) \<and> smap_ok (other_nodes g) \<and> (\<forall>(m, n) \<in> set (other_nodes g). smap_ok (node_links n)))"

lemma neighbors_add_edge: "neighbors (add_edge u v g) x = (if x = u then insort_insert v (neighbors g u) else neighbors g x)"
  by (simp add: neighbors_def add_edge_def smap_find_put)

lemma neighbors_add_links:
  "(\<And>x. distinct (neighbors g x)) \<Longrightarrow> distinct (neighbors (add_links u links g) x)
    \<and> set (neighbors (add_links u links g) x) = set (neighbors g x) \<union> (if x = u then (\<lambda>(k, (m, t)). m) ` set links else {})
    \<and> length (neighbors (add_links u links g) x) \<le> length (neighbors g x) + (if x = u then length links else 0)"
proof (induction links arbitrary: g)
  case (Cons l links)
  obtain k m t where l: "l = (k, m, t)" by (cases l)
  have "distinct (neighbors (add_edge u m g) y)" for y
    using Cons.prems by (simp add: neighbors_add_edge distinct_insort_insert)
  moreover have "length (neighbors (add_edge u m g) x) \<le> length (neighbors g x) + (if x = u then 1 else 0)"
    by (simp add: neighbors_add_edge insort_insert_key_def)
  ultimately show ?case using Cons.IH [of "add_edge u m g"]
    by (auto simp: add_links_def l neighbors_add_edge set_insort_insert split: if_splits)
qed (simp add: add_links_def)

lemma add_links_flows: "flow_edges (add_links u links g) = flow_edges g"
  by (induction links arbitrary: g) (auto simp: add_links_def add_edge_def)

lemma neighbors_others:
  assumes "\<And>x. distinct (neighbors g x)" "distinct (map fst others)" "\<And>m n. (m, n) \<in> set others \<Longrightarrow> length (node_links n) \<le> 65536"
  defines "g' \<equiv> fold (\<lambda>(m, n). add_links m (node_links n)) others g"
  shows "distinct (neighbors g' x)" "flow_edges g' = flow_edges g"
    "set (neighbors g' x) = set (neighbors g x) \<union> {v. \<exists>n k t. (x, n) \<in> set others \<and> (k, (v, t)) \<in> set (node_links n)}"
    "length (neighbors g' x) \<le> length (neighbors g x) + (if x \<in> fst ` set others then 65536 else 0)"
proof -
  have "distinct (neighbors g' x) \<and> flow_edges g' = flow_edges g
    \<and> set (neighbors g' x) = set (neighbors g x) \<union> {v. \<exists>n k t. (x, n) \<in> set others \<and> (k, (v, t)) \<in> set (node_links n)}
    \<and> length (neighbors g' x) \<le> length (neighbors g x) + (if x \<in> fst ` set others then 65536 else 0)"
    using assms(1-3) unfolding g'_def
  proof (induction others arbitrary: g)
    case (Cons o' others)
    obtain m n where mn: "o' = (m, n)" by (cases o')
    let ?g = "add_links m (node_links n) g"
    note one = neighbors_add_links [OF Cons.prems(1), of m "node_links n"]
    have ih: "distinct (neighbors (fold (\<lambda>(m, n). add_links m (node_links n)) others ?g) x)
      \<and> flow_edges (fold (\<lambda>(m, n). add_links m (node_links n)) others ?g) = flow_edges ?g
      \<and> set (neighbors (fold (\<lambda>(m, n). add_links m (node_links n)) others ?g) x)
        = set (neighbors ?g x) \<union> {v. \<exists>n k t. (x, n) \<in> set others \<and> (k, (v, t)) \<in> set (node_links n)}
      \<and> length (neighbors (fold (\<lambda>(m, n). add_links m (node_links n)) others ?g) x)
        \<le> length (neighbors ?g x) + (if x \<in> fst ` set others then 65536 else 0)"
      by (rule Cons.IH) (use one Cons.prems(2,3) in auto)
    have links: "length (node_links n) \<le> 65536" by (rule Cons.prems(3) [of m]) (simp add: mn)
    have "set (neighbors ?g x) \<union> {v. \<exists>n k t. (x, n) \<in> set others \<and> (k, (v, t)) \<in> set (node_links n)}
        = set (neighbors g x) \<union> {v. \<exists>n k t. (x, n) \<in> set (o' # others) \<and> (k, (v, t)) \<in> set (node_links n)}"
      using one [of x] by (auto simp: mn) force+
    moreover have "length (neighbors ?g x) + (if x \<in> fst ` set others then 65536 else 0)
        \<le> length (neighbors g x) + (if x \<in> fst ` set (o' # others) then 65536 else 0)"
      using one [of x] links Cons.prems(2) by (cases "x = m") (auto simp: mn)
    ultimately show ?case using ih by (simp add: mn add_links_flows)
  qed simp
  then show "distinct (neighbors g' x)" "flow_edges g' = flow_edges g"
    "set (neighbors g' x) = set (neighbors g x) \<union> {v. \<exists>n k t. (x, n) \<in> set others \<and> (k, (v, t)) \<in> set (node_links n)}"
    "length (neighbors g' x) \<le> length (neighbors g x) + (if x \<in> fst ` set others then 65536 else 0)" by simp_all
qed

lemma to_simple_graph_neighbors:
  assumes "graph_ok g"
  shows "set (neighbors (to_simple_graph g) u) = {v. reported g u v}" "distinct (neighbors (to_simple_graph g) u)"
    "length (neighbors (to_simple_graph g) u) < 2 ^ 32" "flow_edges (to_simple_graph g) = (\<lambda>_. False)"
proof -
  let ?g0 = "add_links (node_mac (tg_me g)) (node_links (tg_me g)) simple_graph_new"
  let ?others = "{v. \<exists>n k t. (u, n) \<in> set (other_nodes g) \<and> (k, (v, t)) \<in> set (node_links n)}"
  have start: "neighbors simple_graph_new x = []" for x by (simp add: neighbors_def simple_graph_new_def smap_find_def)
  have me: "distinct (neighbors ?g0 x)"
      "set (neighbors ?g0 x) = (if x = node_mac (tg_me g) then (\<lambda>(k, (m, t)). m) ` set (node_links (tg_me g)) else {})"
      "length (neighbors ?g0 x) \<le> (if x = node_mac (tg_me g) then length (node_links (tg_me g)) else 0)" for x
    using neighbors_add_links [of simple_graph_new "node_mac (tg_me g)" "node_links (tg_me g)" x] by (simp_all add: start)
  have lens: "length (node_links (tg_me g)) \<le> 65536" "\<And>m n. (m, n) \<in> set (other_nodes g) \<Longrightarrow> length (node_links n) \<le> 65536"
    using assms by (auto simp: graph_ok_def intro: smap16_length)
  have dist: "distinct (map fst (other_nodes g))" using assms by (simp add: graph_ok_def smap_ok_def strict_sorted_iff)
  have all: "distinct (neighbors (to_simple_graph g) u)" "flow_edges (to_simple_graph g) = flow_edges ?g0"
      "set (neighbors (to_simple_graph g) u) = set (neighbors ?g0 u) \<union> ?others"
      "length (neighbors (to_simple_graph g) u) \<le> length (neighbors ?g0 u) + (if u \<in> fst ` set (other_nodes g) then 65536 else 0)"
    using neighbors_others [OF me(1) dist lens(2)] by (simp_all add: to_simple_graph_def)
  have "set (neighbors ?g0 u) = {v. u = node_mac (tg_me g) \<and> (\<exists>k t. (k, (v, t)) \<in> set (node_links (tg_me g)))}"
    by (auto simp: me(2) image_iff) force+
  then show "set (neighbors (to_simple_graph g) u) = {v. reported g u v}"
    unfolding all(3) reported_def by blast
  show "distinct (neighbors (to_simple_graph g) u)" by (rule all(1))
  have "length (neighbors ?g0 u) \<le> 65536" using me(3) [of u] lens(1) by (simp split: if_splits)
  then show "length (neighbors (to_simple_graph g) u) < 2 ^ 32" using all(4) by (simp split: if_splits)
  show "flow_edges (to_simple_graph g) = (\<lambda>_. False)" by (simp add: all(2) add_links_flows simple_graph_new_def)
qed

lemma find_of_neighbor: "v \<in> set (neighbors g u) \<Longrightarrow> smap_find u (edges g) \<noteq> None"
  by (cases "smap_find u (edges g)") (auto simp: neighbors_def)

text \<open>C4. The paths that the topology gives for two different switches which both report links are paths over reported links
  without a repeated switch, no two of them (nor one of them twice) use the same link, and there are some exactly if the
  destination can be reached over reported links. The search always returns, as long as no switch reports a link to itself.\<close>

theorem topology_paths_disjoint:
  assumes "graph_ok g" "\<And>u. \<not> reported g u u" "s \<noteq> d" "reported g s x" "reported g d y"
  shows "\<exists>paths. topology_disjoint_paths s d g = Some (Inr paths)
    \<and> (\<forall>p \<in> set paths. p \<noteq> [] \<and> hd p = s \<and> last p = d \<and> distinct p \<and> successively (reported g) p)
    \<and> distinct (concat (map steps paths)) \<and> (paths = [] \<longleftrightarrow> \<not> (reported g)\<^sup>*\<^sup>* s d)"
proof -
  let ?g = "to_simple_graph g"
  note nb = to_simple_graph_neighbors [OF assms(1)]
  have links: "(\<lambda>u v. v \<in> set (neighbors ?g u)) = reported g" by (intro ext) (simp add: nb(1))
  have ok: "topology_ok ?g" using assms(2) by (simp add: topology_ok_def no_self_links_def nb(1,2,4) nb(3) [simplified])
  have "smap_find s (edges ?g) \<noteq> None" "smap_find d (edges ?g) \<noteq> None"
    using assms(4,5) find_of_neighbor [of x ?g s] find_of_neighbor [of y ?g d] by (auto simp: nb(1))
  from disjoint_paths_returned [OF ok assms(3) this] show ?thesis
    unfolding topology_disjoint_paths_def path_between_def links .
qed

text \<open>Switch 1 and switch 4 with two switches between them.\<close>

definition square_graph :: topology_graph where
  "square_graph = topology_graph_new
     \<lparr>tg_me := network_node_clear\<lparr>node_mac := mac_of 1, node_links := [(1, (mac_of 2, 0)), (2, (mac_of 3, 0))]\<rparr>,
      other_nodes := [(mac_of 2, network_node_clear\<lparr>node_links := [(1, (mac_of 4, 0))]\<rparr>),
        (mac_of 3, network_node_clear\<lparr>node_links := [(1, (mac_of 4, 0))]\<rparr>),
        (mac_of 4, network_node_clear\<lparr>node_links := [(1, (mac_of 2, 0))]\<rparr>)]\<rparr>"

theorem topology_paths_disjoint_witness:
  "\<exists>paths. topology_disjoint_paths (mac_of 1) (mac_of 4) square_graph = Some (Inr paths) \<and> paths \<noteq> []
    \<and> (\<forall>p \<in> set paths. hd p = mac_of 1 \<and> last p = mac_of 4 \<and> distinct p)"
proof -
  have ok: "graph_ok square_graph" by code_simp
  have r: "reported square_graph u v \<longleftrightarrow> (u, v) \<in> {(mac_of 1, mac_of 2), (mac_of 1, mac_of 3), (mac_of 2, mac_of 4),
      (mac_of 3, mac_of 4), (mac_of 4, mac_of 2)}" for u v
    by (auto simp: reported_def square_graph_def)
  have self: "\<not> reported square_graph u u" for u by (auto simp: r mac_of_def)
  have "(reported square_graph)\<^sup>*\<^sup>* (mac_of 1) (mac_of 4)"
    by (rule converse_rtranclp_into_rtranclp [of _ _ "mac_of 2"], simp add: r, rule r_into_rtranclp) (simp add: r)
  then show ?thesis
    using topology_paths_disjoint [OF ok self, of "mac_of 1" "mac_of 4" "mac_of 2" "mac_of 2"] by (auto simp: r mac_of_def)
qed

end
