(* ===== verification/Packet_Facts.thy ===== *)
theory Packet_Facts
  imports Packets_L4
begin

text \<open>
  What the packets of \<open>Packets\<close> and \<open>Packets_L4\<close> promise: checksums that a receiver accepts, frames
  that are read back, VLAN tags. \<open>word_sum\<close> is the sum that RFC 1071 prescribes: the 16-bit words of
  the data in network order, an odd last byte padded with zero; data with its checksum in place is
  valid when that sum is a multiple of 65535 (a ones' complement sum of all ones).
\<close>

section \<open>Checksums\<close>

fun word_sum :: "byte list \<Rightarrow> nat" where
  "word_sum (a # b # bs) = 256 * unat a + unat b + word_sum bs"
| "word_sum [a] = 256 * unat a"
| "word_sum [] = 0"

definition checksum_valid :: "byte list \<Rightarrow> bool" where
  "checksum_valid bs = (word_sum bs mod 65535 = 0)"

lemma word_sum_append: "even (length a) \<Longrightarrow> word_sum (a @ b) = word_sum a + word_sum b"
  by (induction a rule: word_sum.induct) simp_all

lemma word_sum_bound: "word_sum bs \<le> 65535 * ((length bs + 1) div 2)"
proof (induction bs rule: word_sum.induct)
  case (1 a b bs)
  then show ?case using unat_byte_bound [of a] unat_byte_bound [of b] by simp
next
  case (2 a)
  then show ?case using unat_byte_bound [of a] by simp
qed simp

lemma of_be16_pair: "of_be16 [a, b] = of_nat (256 * unat a + unat b)"
proof -
  have "of_be16 [a, b] = push_bit 8 (ucast a) OR ucast b"
    by (simp add: of_be16_def of_bytes_def)
  also have "\<dots> = push_bit 8 (ucast a) + ucast b"
    by (subst disjunctive_add) (auto simp: bit_simps dest: bit_imp_le_length)
  also have "\<dots> = of_nat (256 * unat a + unat b)"
    by (simp add: push_bit_eq_mult)
  finally show ?thesis .
qed

lemma unat_of_be16: "unat (of_be16 [a, b]) = 256 * unat a + unat b"
proof -
  have "256 * unat a + unat b < 65536"
    using unat_byte_bound [of a] unat_byte_bound [of b] by linarith
  then show ?thesis
    unfolding of_be16_pair by (simp only: unat_of_nat) simp
qed

lemma unat_ucast_16_32: "unat (ucast (w :: 16 word) :: 32 word) = unat w"
proof -
  have "unat w < 65536" using unsigned_less [of w] by simp
  then show ?thesis by (simp only: unsigned_ucast_eq) (simp add: take_bit_nat_eq_self)
qed

lemma sum_be16_of_nat: "even (length bs) \<Longrightarrow> sum_be16 bs = of_nat (word_sum bs)"
proof (induction bs rule: sum_be16.induct)
  case (1 a b bs)
  have "ucast (of_be16 [a, b]) = (of_nat (256 * unat a + unat b) :: 32 word)"
    using unat_byte_bound [of a] unat_byte_bound [of b]
    by (simp only: word_unat_eq_iff unat_ucast_16_32 unat_of_be16 unat_of_nat) simp
  with 1 show ?case by simp
qed auto

lemma sum_be16_odd: "odd (length bs) \<Longrightarrow> sum_be16 bs = sum_be16 (butlast bs)"
proof (induction bs rule: sum_be16.induct)
  case (1 a b bs)
  then show ?case by (cases bs) auto
qed auto

lemma word_sum_odd: "odd (length bs) \<Longrightarrow> word_sum bs = word_sum (butlast bs) + 256 * unat (last bs)"
  by (induction bs rule: word_sum.induct) auto

lemma unat_fold_carry: "unat (fold_carry c) = unat c mod 65536 + unat c div 65536"
proof -
  have m: "(0xffff :: 32 word) = mask 16" "(0xffff0000 :: 32 word) = NOT (mask 16)"
    by (simp_all add: mask_eq_exp_minus_1)
  have lo: "c AND 0xffff = take_bit 16 c" by (simp add: m(1) take_bit_eq_mask)
  have hi: "drop_bit 16 (c AND 0xffff0000) = drop_bit 16 c"
    unfolding m(2) by (rule bit_word_eqI) (auto simp: bit_simps dest: bit_imp_le_length)
  have b: "unat c < 4294967296" using unsigned_less [of c] by simp
  have s: "unat c mod 65536 + unat c div 65536 < 4294967296"
    using b by (simp add: less_mult_imp_div_less add_strict_mono [of _ 65536 _ 65536, THEN less_trans])
  have c: "take_bit 32 (unat c) = unat c"
    using b by (simp add: take_bit_nat_eq_self)
  have "unat (fold_carry c) = take_bit 32 (take_bit 16 (unat c) + drop_bit 16 (unat c))"
    unfolding fold_carry_def lo hi
    by (simp only: word_arith_nat_add unsigned_take_bit_eq unsigned_drop_bit_eq unsigned_of_nat) (simp add: c)
  then show ?thesis using s by (simp add: take_bit_eq_mod drop_bit_eq_div)
qed

lemma fold_twice:
  "unat (fold_carry (fold_carry c)) < 65536"
  "unat (fold_carry (fold_carry c)) mod 65535 = unat c mod 65535"
proof -
  have mod1: "unat (fold_carry d) mod 65535 = unat d mod 65535" for d
  proof -
    have "unat d = 65535 * (unat d div 65536) + unat (fold_carry d)"
      unfolding unat_fold_carry using div_mult_mod_eq [of "unat d" 65536] by linarith
    then show ?thesis by (metis mod_mult_self4)
  qed
  then show "unat (fold_carry (fold_carry c)) mod 65535 = unat c mod 65535" by simp
  have "unat c < 4294967296" using unsigned_less [of c] by simp
  then have "unat (fold_carry c) < 131071"
    unfolding unat_fold_carry by (simp add: less_mult_imp_div_less)
  then show "unat (fold_carry (fold_carry c)) < 65536"
    unfolding unat_fold_carry [of "fold_carry c"]
    using div_mult_mod_eq [of "unat (fold_carry c)" 65536] mod_less_divisor [of 65536 "unat (fold_carry c)"]
    by (cases "unat (fold_carry c) div 65536 = 0") (simp, linarith)
qed

lemma ones_complement_nat:
  "\<exists>t. unat (ones_complement c) = 65535 - t \<and> t < 65536 \<and> t mod 65535 = unat c mod 65535"
proof -
  let ?t = "fold_carry (fold_carry c)"
  have m: "(0xffff :: 32 word) = mask 16" by (simp add: mask_eq_exp_minus_1)
  have "?t AND 0xffff = take_bit 16 ?t" by (simp add: m take_bit_eq_mask)
  then have "unat (ucast (?t AND 0xffff) :: 16 word) = take_bit 16 (take_bit 16 (unat ?t))"
    by (simp only: unsigned_ucast_eq unsigned_take_bit_eq) simp
  then have u: "unat (ucast (?t AND 0xffff) :: 16 word) = unat ?t"
    using fold_twice(1) [of c] by (simp add: take_bit_nat_eq_self)
  have "unat (NOT w) = 65535 - unat w" for w :: "16 word"
  proof -
    have "NOT w = of_nat (65535 - unat w)"
    proof -
      have "unat w < 65536" using unsigned_less [of w] by simp
      then have "of_nat (65535 - unat w) = (of_nat 65535 - of_nat (unat w) :: 16 word)"
        by (intro of_nat_diff) simp
      also have "of_nat 65535 = (- 1 :: 16 word)" by simp
      finally show ?thesis by (simp add: not_eq_complement)
    qed
    then show ?thesis by (simp only: unat_of_nat) simp
  qed
  then show ?thesis
    unfolding ones_complement_def using u fold_twice [of c] by auto
qed

lemma ones_complement_valid: "(unat c + unat (ones_complement c)) mod 65535 = 0"
proof -
  obtain t where t: "unat (ones_complement c) = 65535 - t" "t < 65536" "t mod 65535 = unat c mod 65535"
    using ones_complement_nat by blast
  have "(unat c + (65535 - t)) mod 65535 = (t + (65535 - t)) mod 65535"
    using t(3) by (metis mod_add_left_eq)
  with t show ?thesis by simp
qed

subsection \<open>IPv4 headers\<close>

lemma be16_pair: "be16 w = [hd (be16 w), hd (tl (be16 w))]"
  using length_be(1) [of w] by (cases "be16 w"; cases "tl (be16 w)") auto

lemma word_sum_be16: "word_sum (be16 w @ bs) = unat w + word_sum bs"
proof -
  obtain a b where w: "be16 w = [a, b]" using be16_pair by blast
  then have "w = of_be16 [a, b]" by (metis of_be_be(1))
  with w show ?thesis by (simp add: unat_of_be16)
qed

definition ip_header_front :: "'a ip_packet_scheme \<Rightarrow> nat \<Rightarrow> byte list" where
  "ip_header_front p len = take 10 (ip_header p len 0)"

lemma length_ip_header [simp]: "length (ip_header p len c) = 20"
  by (simp add: ip_header_def)

lemma ip_header_split:
  "ip_header p len c = ip_header_front p len @ be16 c @ ip_octets (src_ip p) @ ip_octets (dest_ip p)"
  "length (ip_header_front p len) = 10"
  by (simp_all add: ip_header_def ip_header_front_def)

lemma be16_0: "be16 0 = [0, 0]"
  by (simp add: be16_def numeral_2_eq_2)

lemma word_sum_field:
  "even (length a) \<Longrightarrow> word_sum (a @ be16 c @ b) = unat c + word_sum (a @ be16 0 @ b)"
  by (simp add: word_sum_append word_sum_be16)

text \<open>
  The checksum of every IPv4 header that is written is valid: with it in place, the sum over the
  20 bytes is one that a receiver accepts.
\<close>

theorem ip_header_checksum_valid:
  "checksum_valid (ip_header p len (checksum_ip (ip_header p len 0)))"
proof -
  have blit0: "blit 10 [0, 0] (ip_header p len 0) = ip_header p len 0"
    using ip_header_split(2) [of p len] by (simp add: ip_header_split(1) be16_0 blit_def)
  let ?c = "checksum_ip (ip_header p len 0)"
  have bound: "word_sum (ip_header p len 0) < 4294967296"
    using word_sum_bound [of "ip_header p len 0"] by simp
  have "?c = ones_complement (of_nat (word_sum (ip_header p len 0)))"
    by (simp add: checksum_ip_def blit0 sum_be16_of_nat)
  moreover have "unat (of_nat (word_sum (ip_header p len 0)) :: 32 word) = word_sum (ip_header p len 0)"
    using bound by (simp only: unat_of_nat) simp
  ultimately have "(word_sum (ip_header p len 0) + unat ?c) mod 65535 = 0"
    using ones_complement_valid [of "of_nat (word_sum (ip_header p len 0))"] by simp
  moreover have "word_sum (ip_header p len ?c) = unat ?c + word_sum (ip_header p len 0)"
    unfolding ip_header_split(1) by (rule word_sum_field) (simp add: ip_header_split(2))
  ultimately show ?thesis by (simp add: checksum_valid_def add.commute)
qed

subsection \<open>The parity of a checksum\<close>

text \<open>Both checksums over data give an odd last byte a weight that is off by a factor of 256: what is
  written is valid exactly when there is no such byte, or it is zero.\<close>

lemma dvd_256: "(65535 :: nat) dvd 256 * x \<longleftrightarrow> 65535 dvd x"
proof
  assume "65535 dvd 256 * x"
  then have "65535 dvd 256 * (256 * x)" by (rule dvd_mult)
  moreover have "256 * (256 * x) = 65535 * x + x" by simp
  ultimately show "65535 dvd x" by (metis dvd_add_right_iff dvd_triv_left)
qed simp

lemma byte_dvd: "(65535 :: nat) dvd 255 * unat (l :: byte) \<longleftrightarrow> l = 0"
proof
  assume d: "65535 dvd 255 * unat l"
  have "255 * unat l < 65535" using unat_byte_bound [of l] by linarith
  with d have "\<not> 0 < 255 * unat l" using dvd_imp_le by fastforce
  then have "unat l = 0" by simp
  then show "l = 0" by (rule unat_eq_zero [THEN iffD1])
qed simp

lemma byte_weight: "n + 256 * unat (l :: byte) + cs = (n + unat l + cs) + 255 * unat l"
  by simp

lemma odd_byte_low:
  "65535 dvd n + unat (l :: byte) + cs \<Longrightarrow> 65535 dvd n + 256 * unat l + cs \<longleftrightarrow> l = 0"
  unfolding byte_weight by (simp only: dvd_add_right_iff byte_dvd)

lemma odd_byte_high:
  "65535 dvd n + 256 * unat (l :: byte) + cs \<Longrightarrow> 65535 dvd n + unat l + cs \<longleftrightarrow> l = 0"
  unfolding byte_weight byte_dvd [symmetric]
  using dvd_add_right_iff [of 65535 "n + unat l + cs" "255 * unat l"]
    dvd_add_left_iff [of 65535 "255 * unat l" "n + unat l + cs"] by blast

subsection \<open>TCP\<close>

definition tcp_header_front :: "tcp_packet \<Rightarrow> byte list" where
  "tcp_header_front p = take 16 (tcp_header p 0)"

lemma tcp_header_split:
  "tcp_header p c = tcp_header_front p @ be16 c @ [0, 0]"
  "length (tcp_header_front p) = 16"
  by (simp_all add: tcp_header_def tcp_header_front_def)

lemma length_raw_serialize: "raw_serialize p = Inr eth \<Longrightarrow> length eth = eth_hdr_len p"
  by (auto simp: raw_serialize_def bindr_Inr_iff eth_hdr_len_def)

lemma eth_hdr_len_even [simp]: "even (eth_hdr_len p)"
  by (simp add: eth_hdr_len_def)

lemma ip_serialize_special_Inr:
  assumes "ip_serialize_special p n = Inr hdr" "view_size (ip_options p) = 0"
  obtains eth where "raw_serialize p = Inr eth" "length eth = eth_hdr_len p"
    "hdr = eth @ ip_header p n (checksum_ip (ip_header p n 0))"
  using assms by (auto simp: ip_serialize_special_def bindr_Inr_iff copy_content_def content_def Let_def
      length_raw_serialize split: if_splits)

lemma word_sum_parity:
  "word_sum bs = word_sum (if odd (length bs) then butlast bs else bs) + (if odd (length bs) then 256 * unat (last bs) else 0)"
  by (simp add: word_sum_odd)

definition even_part :: "byte list \<Rightarrow> byte list" where
  "even_part bs = (if odd (length bs) then butlast bs else bs)"

definition odd_byte :: "byte list \<Rightarrow> byte" where
  "odd_byte bs = (if odd (length bs) then last bs else 0)"

lemma even_part_simps:
  "even (length (even_part bs))" "word_sum bs = word_sum (even_part bs) + 256 * unat (odd_byte bs)"
  "sum_be16 bs = of_nat (word_sum (even_part bs))" "odd_last bs = of_nat (unat (odd_byte bs))"
  by (auto simp: even_part_def odd_byte_def word_sum_odd sum_be16_odd sum_be16_of_nat odd_last_def)

lemma word_sum_even_part: "word_sum (even_part bs) \<le> word_sum bs"
  using even_part_simps(2) [of bs] by linarith

lemma odd_byte_append: "even (length a) \<Longrightarrow> odd_byte (a @ b) = odd_byte b"
  by (cases "b = []") (auto simp: odd_byte_def)

text \<open>The code adds the odd byte as it is; \<open>pre\<close> is all that comes before the data.\<close>

lemma low_byte_checksum:
  assumes pre: "even (length pre)" and short: "length pre + length bs < 131000"
  defines "c \<equiv> ones_complement (sum_be16 pre + sum_be16 bs + odd_last bs)"
  shows "(word_sum pre + unat c + word_sum bs) mod 65535 = 0 \<longleftrightarrow> odd_byte bs = 0"
proof -
  let ?n = "word_sum pre + word_sum (even_part bs)" and ?l = "odd_byte bs"
  have "word_sum (pre @ bs) \<le> 65535 * ((length pre + length bs + 1) div 2)"
    using word_sum_bound [of "pre @ bs"] by simp
  also have "\<dots> \<le> 65535 * 65500" using short by (intro mult_le_mono2) linarith
  finally have "word_sum pre + word_sum bs < 4294967296"
    using pre by (simp add: word_sum_append)
  then have "?n + unat ?l < 4294967296" using even_part_simps(2) [of bs] by linarith
  then have "unat (of_nat (?n + unat ?l) :: 32 word) = ?n + unat ?l"
    by (simp only: unat_of_nat) simp
  moreover have c: "c = ones_complement (of_nat (?n + unat ?l))"
    using pre by (simp add: c_def sum_be16_of_nat [of pre] even_part_simps(3) [of bs] even_part_simps(4))
  ultimately have "65535 dvd ?n + unat ?l + unat c"
    using ones_complement_valid [of "of_nat (?n + unat ?l)"] by (simp only: c dvd_eq_mod_eq_0)
  then have "65535 dvd ?n + 256 * unat ?l + unat c \<longleftrightarrow> ?l = 0" by (rule odd_byte_low)
  moreover have "word_sum pre + unat c + word_sum bs = ?n + 256 * unat ?l + unat c"
    using even_part_simps(2) [of bs] by linarith
  ultimately show ?thesis by (simp only: dvd_eq_mod_eq_0)
qed

lemma blit_middle: "length a = off \<Longrightarrow> length x = length y \<Longrightarrow> blit off x (a @ y @ b) = a @ x @ b"
  by (simp add: blit_def)

lemma tcp_serialize_Inr:
  assumes "tcp_serialize p = Inr frame" "view_size (ip_options p) = 0"
  obtains eth iph rest c where "length eth = eth_hdr_len p" "length iph = 20" "raw_serialize p = Inr eth"
    "iph = ip_header p (20 + view_size (tcp_options p) + view_size (tcp_payload p))
       (checksum_ip (ip_header p (20 + view_size (tcp_options p) + view_size (tcp_payload p)) 0))"
    "rest = content (tcp_options p) @ content (tcp_payload p)"
    "c = checksum_tcp (iph @ tcp_header p 0 @ rest) (tcp_header p 0) rest"
    "frame = eth @ iph @ tcp_header p c @ rest"
proof -
  let ?n = "20 + view_size (tcp_options p) + view_size (tcp_payload p)"
  let ?rest = "content (tcp_options p) @ content (tcp_payload p)"
  from assms(1) obtain hdr where hdr: "ip_serialize_special p ?n = Inr hdr"
    and ok: "view_ok (tcp_options p)" "view_ok (tcp_payload p)"
    by (auto simp: tcp_serialize_def bindr_Inr_iff copy_content_def split: if_splits)
  from ip_serialize_special_Inr [OF hdr assms(2)] obtain eth where eth: "length eth = eth_hdr_len p" "raw_serialize p = Inr eth"
    and h: "hdr = eth @ ip_header p ?n (checksum_ip (ip_header p ?n 0))" by metis
  let ?iph = "ip_header p ?n (checksum_ip (ip_header p ?n 0))"
  let ?c = "checksum_tcp (?iph @ tcp_header p 0 @ ?rest) (tcp_header p 0) ?rest"
  have "frame = blit (eth_hdr_len p + 36) (be16 ?c) (eth @ ?iph @ tcp_header p 0 @ ?rest)"
    using assms(1) hdr ok eth(1) by (simp add: tcp_serialize_def Let_def h)
  also have "eth @ ?iph @ tcp_header p 0 @ ?rest = (eth @ ?iph @ tcp_header_front p) @ be16 0 @ [0, 0] @ ?rest"
    by (simp add: tcp_header_split)
  also have "blit (eth_hdr_len p + 36) (be16 ?c) \<dots> = (eth @ ?iph @ tcp_header_front p) @ be16 ?c @ [0, 0] @ ?rest"
    by (rule blit_middle) (simp_all add: eth(1) tcp_header_split(2))
  also have "\<dots> = eth @ ?iph @ tcp_header p ?c @ ?rest"
    by (simp add: tcp_header_split)
  finally show ?thesis using eth that [of eth ?iph ?rest ?c] by simp
qed

text \<open>
  The checksum of a TCP segment that is written (without IP options): a receiver that follows RFC 1071
  accepts the segment exactly when its size is even or its last byte is zero.
\<close>

theorem tcp_checksum_valid_iff:
  assumes "tcp_serialize p = Inr frame" "view_size (ip_options p) = 0" "length frame < 65536"
  defines "segment \<equiv> drop (eth_hdr_len p + 20) frame"
  shows "checksum_valid (tcp_pseudo_header (drop (eth_hdr_len p) frame) 6 (length segment) @ segment)
    \<longleftrightarrow> even (length segment) \<or> last segment = 0"
proof -
  from tcp_serialize_Inr [OF assms(1,2)] obtain eth iph rest c where f: "length eth = eth_hdr_len p" "length iph = 20"
    "c = checksum_tcp (iph @ tcp_header p 0 @ rest) (tcp_header p 0) rest" "frame = eth @ iph @ tcp_header p c @ rest"
    by metis
  have seg: "segment = tcp_header p c @ rest" using f by (simp add: segment_def)
  have len: "length (tcp_header p x) = 20" for x by (simp add: tcp_header_def)
  let ?ph = "tcp_pseudo_header iph 6 (20 + length rest)"
  have ph: "tcp_pseudo_header (drop (eth_hdr_len p) frame) 6 (length segment) = ?ph" "even (length ?ph)" "length ?ph = 12"
    using f(1,2) by (simp_all add: f(4) seg len tcp_pseudo_header_def chunk_def)
  have c: "c = ones_complement (sum_be16 (?ph @ tcp_header p 0) + sum_be16 rest + odd_last rest)"
  proof -
    have "tcp_pseudo_header (iph @ tcp_header p 0 @ rest) 6 (20 + length rest) = ?ph"
      using f(2) by (simp add: tcp_pseudo_header_def chunk_def)
    moreover have "blit 16 [0, 0] (tcp_header p 0) = tcp_header p 0"
      using tcp_header_split(2) [of p] by (simp add: tcp_header_split(1) be16_0 blit_def)
    ultimately show ?thesis by (simp add: f(3) checksum_tcp_def)
  qed
  have "length (?ph @ tcp_header p 0) + length rest < 131000"
    using assms(3) f by (simp add: ph len)
  from low_byte_checksum [OF _ this, folded c] have
    "(word_sum (?ph @ tcp_header p 0) + unat c + word_sum rest) mod 65535 = 0 \<longleftrightarrow> odd_byte rest = 0"
    using ph by (simp add: len)
  moreover have "word_sum (?ph @ segment) = word_sum (?ph @ tcp_header p 0) + unat c + word_sum rest"
  proof -
    have "word_sum (tcp_header p c) = unat c + word_sum (tcp_header p 0)"
      unfolding tcp_header_split(1) by (rule word_sum_field) (simp add: tcp_header_split(2))
    then show ?thesis using ph by (simp add: seg word_sum_append len)
  qed
  moreover have "odd_byte rest = 0 \<longleftrightarrow> even (length segment) \<or> last segment = 0"
    by (cases "rest = []") (auto simp: seg odd_byte_def len)
  ultimately show ?thesis by (simp add: checksum_valid_def ph(1))
qed

subsection \<open>ICMP\<close>

fun word_sum_le :: "byte list \<Rightarrow> nat" where
  "word_sum_le (a # b # bs) = unat a + 256 * unat b + word_sum_le bs"
| "word_sum_le _ = 0"

lemma sum_le16_of_nat: "sum_le16 bs = of_nat (word_sum_le bs)"
proof (induction bs rule: sum_le16.induct)
  case (1 a b bs)
  have "ucast (of_be16 [b, a]) = (of_nat (unat a + 256 * unat b) :: 32 word)"
    using unat_byte_bound [of a] unat_byte_bound [of b]
    by (simp only: word_unat_eq_iff unat_ucast_16_32 unat_of_be16 unat_of_nat) simp
  with 1 show ?case by simp
qed auto

lemma word_sum_le_append: "even (length a) \<Longrightarrow> word_sum_le (a @ b) = word_sum_le a + word_sum_le b"
  by (induction a rule: word_sum_le.induct) auto

lemma word_sum_le_bound: "word_sum_le bs \<le> 65535 * (length bs div 2)"
proof (induction bs rule: word_sum_le.induct)
  case (1 a b bs)
  then show ?case using unat_byte_bound [of a] unat_byte_bound [of b] by simp
qed auto

text \<open>Adding the words the other way round is the same sum, turned by one byte.\<close>

lemma swapped_sum: "\<exists>k. 256 * word_sum_le bs = word_sum (even_part bs) + 65535 * k"
proof (induction bs rule: word_sum_le.induct)
  case (1 a b bs)
  then obtain k where "256 * word_sum_le bs = word_sum (even_part bs) + 65535 * k" by blast
  moreover have "even_part (a # b # bs) = a # b # even_part bs" by (cases bs) (auto simp: even_part_def)
  ultimately have "256 * word_sum_le (a # b # bs) = word_sum (even_part (a # b # bs)) + 65535 * (k + unat b)"
    by simp
  then show ?case by blast
qed (auto simp: even_part_def)

lemma icmp_sum:
  assumes "even (length pre)" "length pre + length bs < 65536"
  defines "m \<equiv> pre @ be16 0 @ bs"
  defines "c \<equiv> ones_complement (sum_le16 m + (if odd (length m) then push_bit 8 (ucast (last m)) else 0))"
  shows "word_sum (pre @ rev (be16 c) @ bs) mod 65535 = 0 \<longleftrightarrow> odd_byte m = 0"
proof -
  let ?s = "word_sum_le m" and ?l = "odd_byte m"
  have len: "length m < 65538" using assms(2) by (simp add: m_def)
  have "?s \<le> 65535 * (length m div 2)" by (rule word_sum_le_bound)
  also have "\<dots> \<le> 65535 * 32769" using len by (intro mult_le_mono2) linarith
  finally have "?s + 256 * unat ?l < 4294967296" using unat_byte_bound [of ?l] by linarith
  then have n: "unat (of_nat (?s + 256 * unat ?l) :: 32 word) = ?s + 256 * unat ?l"
    by (simp only: unat_of_nat) simp
  have "(if odd (length m) then push_bit 8 (ucast (last m)) else 0) = (of_nat (256 * unat ?l) :: 32 word)"
    by (simp add: odd_byte_def push_bit_eq_mult)
  then have "c = ones_complement (of_nat (?s + 256 * unat ?l))"
    by (simp add: c_def sum_le16_of_nat)
  then have "65535 dvd ?s + 256 * unat ?l + unat c"
    using ones_complement_valid [of "of_nat (?s + 256 * unat ?l)"] n by (simp only: dvd_eq_mod_eq_0)
  then have iff: "65535 dvd ?s + unat ?l + unat c \<longleftrightarrow> ?l = 0" by (rule odd_byte_high)
  obtain a b where ab: "be16 c = [a, b]" using be16_pair by blast
  then have c: "unat c = 256 * unat a + unat b" by (metis of_be_be(1) unat_of_be16)
  obtain k where k: "256 * ?s = word_sum (even_part m) + 65535 * k" using swapped_sum by blast
  have m: "word_sum (pre @ rev (be16 c) @ bs) = word_sum m + 256 * unat b + unat a"
    using assms(1) by (simp add: m_def word_sum_append ab be16_0)
  have "256 * (?s + unat ?l + unat c) = word_sum (pre @ rev (be16 c) @ bs) + 65535 * (k + unat a)"
    unfolding m using even_part_simps(2) [of m] k c by (simp add: algebra_simps)
  then have "65535 dvd 256 * (?s + unat ?l + unat c) \<longleftrightarrow> 65535 dvd word_sum (pre @ rev (be16 c) @ bs)"
    by (metis dvd_add_left_iff dvd_triv_left)
  with iff show ?thesis unfolding dvd_256 by (simp only: dvd_eq_mod_eq_0)
qed

text \<open>
  The checksum of an ICMP message that is written (without IP options) is valid exactly when the
  message has an even size or its last byte is zero.
\<close>

theorem icmp_checksum_valid_iff:
  assumes "icmp_serialize p = Inr frame" "view_size (ip_options p) = 0" "length frame < 65536"
  defines "message \<equiv> drop (eth_hdr_len p + 20) frame"
  shows "checksum_valid message \<longleftrightarrow> even (length message) \<or> last message = 0"
proof -
  let ?data = "content (icmp_data p)"
  obtain hdr where hdr: "ip_serialize_special p (8 + view_size (icmp_data p)) = Inr hdr"
    and frame: "frame = hdr @ icmp_message p ?data"
    using assms(1) by (auto simp: icmp_serialize_def bindr_Inr_iff copy_content_def split: if_splits)
  have "length hdr = eth_hdr_len p + 20"
    by (rule ip_serialize_special_Inr [OF hdr assms(2)]) simp
  then have message: "message = icmp_message p ?data" by (simp add: message_def frame)
  let ?pre = "[icmp_pkt_type p, icmp_code p]" and ?bs = "be32 (icmp_hdr_rest p) @ ?data"
  let ?m = "?pre @ be16 0 @ ?bs"
  have hd: "icmp_header p @ ?data = ?m" by (simp add: icmp_header_def be16_0)
  have b0: "blit 2 [0, 0] ?m = ?m" by (simp add: blit_def be16_0)
  have bc: "blit 2 (rev (be16 c)) ?m = ?pre @ rev (be16 c) @ ?bs" for c
    by (simp add: blit_def be16_0)
  have msg: "message = ?pre @ rev (be16 (ones_complement
      (sum_le16 ?m + (if odd (length ?m) then push_bit 8 (ucast (last ?m)) else 0)))) @ ?bs"
    unfolding message icmp_message_def Let_def hd checksum_icmp_def b0 bc by (rule refl)
  have "length ?pre + length ?bs < 65536"
    using assms(3) by (simp add: frame icmp_message_def Let_def icmp_header_def)
  from icmp_sum [OF _ this] have "checksum_valid message \<longleftrightarrow> odd_byte ?m = 0"
    unfolding msg checksum_valid_def by simp
  moreover have "odd_byte ?m = 0 \<longleftrightarrow> even (length (?pre @ rev (be16 c) @ ?bs)) \<or> last (?pre @ rev (be16 c) @ ?bs) = 0" for c
    by (cases "?data = []") (simp_all add: odd_byte_def)
  ultimately show ?thesis unfolding msg by metis
qed

section \<open>Frames that are read back\<close>

lemma bit_4096: "bit (4096 :: int) n \<longleftrightarrow> n = 12"
proof -
  have "(4096 :: int) = 2 ^ 12" by simp
  then show ?thesis by (simp only: bit_exp_iff) auto
qed

lemma vlan_tci_fields:
  "ucast (drop_bit 13 (vlan_tci pcp d vlan)) = pcp AND 0x07"
  "(drop_bit 12 (vlan_tci pcp d vlan) AND 0x01 \<noteq> 0) = d"
  "vlan_tci pcp d vlan AND 0x0fff = vlan AND 0x0fff"
proof -
  have m: "(0x07 :: byte) = mask 3" "(0x0fff :: 16 word) = mask 12"
    by (simp_all add: mask_eq_exp_minus_1)
  show "ucast (drop_bit 13 (vlan_tci pcp d vlan)) = pcp AND 0x07"
    unfolding vlan_tci_def m by (rule bit_word_eqI) (auto simp: bit_simps bit_4096)
  show "vlan_tci pcp d vlan AND 0x0fff = vlan AND 0x0fff"
    unfolding vlan_tci_def m by (rule bit_word_eqI) (auto simp: bit_simps bit_4096)
  have "drop_bit 12 (vlan_tci pcp d vlan) AND 0x01 = of_bool (bit (vlan_tci pcp d vlan) 12)"
    by (simp add: and_one_eq mod_2_eq_odd bit_iff_odd_drop_bit)
  moreover have "bit (vlan_tci pcp d vlan) 12 = d"
    unfolding vlan_tci_def m by (auto simp: bit_simps bit_4096)
  ultimately show "(drop_bit 12 (vlan_tci pcp d vlan) AND 0x01 \<noteq> 0) = d" by simp
qed

text \<open>The type that a frame is sent with.\<close>

definition sent_type :: "'a raw_packet_scheme \<Rightarrow> 16 word res" where
  "sent_type p = (if ethertype p = 0 then ethertype_of (packet_type p) else Inr (ethertype p))"

text \<open>What a packet \<open>q\<close> holds of the frame of \<open>p\<close> when it has been read from it.\<close>

definition frame_read :: "'b raw_packet_scheme \<Rightarrow> 16 word \<Rightarrow> byte list \<Rightarrow> 'a raw_packet_scheme \<Rightarrow> 'a raw_packet_scheme" where
  "frame_read p t frame q = q\<lparr>dest_mac := dest_mac p, src_mac := src_mac p, ethertype := t, has_vlan_tag := has_vlan_tag p,
     pkt_vlan_pcp := (if has_vlan_tag p then pkt_vlan_pcp p AND 0x07 else 0), dei := (has_vlan_tag p \<and> dei p),
     pkt_vlan_id := (if has_vlan_tag p then pkt_vlan_id p AND 0x0fff else 1),
     packet_type := raw_type t (eth_hdr_len p) frame\<rparr>"

lemma raw_deserialize_sent:
  assumes "raw_serialize p = Inr eth" "sent_type p = Inr t" "t \<noteq> 0x8100"
  shows "raw_deserialize (eth @ rest) q =
    (raw_type t (eth_hdr_len p) (eth @ rest) \<noteq> UNKNOWN_PACKET, frame_read p t (eth @ rest) q)"
proof -
  have len: "length eth = eth_hdr_len p" by (rule length_raw_serialize [OF assms(1)])
  have eth: "eth = mac_octets (dest_mac p) @ mac_octets (src_mac p)
      @ (if has_vlan_tag p then be16 0x8100 @ be16 (vlan_tci (pkt_vlan_pcp p) (dei p) (pkt_vlan_id p)) else []) @ be16 t"
    using assms(1,2) by (simp add: raw_serialize_def sent_type_def [symmetric])
  have macs: "mac_from_bytes (chunk 0 6 (eth @ rest)) = dest_mac p" "mac_from_bytes (chunk 6 6 (eth @ rest)) = src_mac p"
    unfolding eth by (simp_all add: field_simps_rules)
  show ?thesis
  proof (cases "has_vlan_tag p")
    case True
    have "of_be16 (chunk 12 2 (eth @ rest)) = 0x8100"
      "of_be16 (chunk 14 2 (eth @ rest)) = vlan_tci (pkt_vlan_pcp p) (dei p) (pkt_vlan_id p)"
      "of_be16 (chunk 16 2 (eth @ rest)) = t"
      unfolding eth using True by (simp_all add: field_simps_rules)
    with True len macs show ?thesis
      by (simp add: raw_deserialize_def frame_read_def Let_def vlan_tci_fields eth_hdr_len_def del: One_nat_def)
  next
    case False
    have "of_be16 (chunk 12 2 (eth @ rest)) = t"
      unfolding eth using False by (simp add: field_simps_rules)
    with False len macs assms(3) show ?thesis
      by (simp add: raw_deserialize_def frame_read_def Let_def eth_hdr_len_def)
  qed
qed

text \<open>
  An ARP packet that is written and read back keeps its sender, receiver, operation and addresses and
  its VLAN tag (a priority below 8 and a VLAN id below 4096 are kept as they are, others are masked).
\<close>

theorem arp_roundtrip:
  assumes "packet_type p = ARP_PACKET" "ethertype p = 0 \<or> ethertype p = 0x0806"
  shows "\<exists>frame. arp_serialize p = Inr frame \<and>
    arp_deserialize frame q = (True, (frame_read p 0x0806 frame q)\<lparr>arp_request := arp_request p,
      sender_mac := sender_mac p, receiver_mac := receiver_mac p, arp_src_ip := arp_src_ip p, arp_dest_ip := arp_dest_ip p\<rparr>)
    \<and> packet_type (frame_read p 0x0806 frame q) = ARP_PACKET"
proof -
  have t: "sent_type p = Inr 0x0806" using assms by (auto simp: sent_type_def)
  then obtain eth where eth: "raw_serialize p = Inr eth"
    by (simp add: raw_serialize_def sent_type_def [symmetric])
  define op :: "16 word" where "op = (if arp_request p then 1 else 2)"
  define body where "body = be16 1 @ be16 0x0800 @ [6, 4] @ be16 op @ mac_octets (sender_mac p)
    @ ip_octets (arp_src_ip p) @ mac_octets (receiver_mac p) @ ip_octets (arp_dest_ip p)"
  have op: "(op = 1) = arp_request p" "op \<noteq> 0" "\<not> op < 1" "\<not> 2 < op" by (simp_all add: op_def)
  have len: "length eth = eth_hdr_len p" "length body = 28"
    by (rule length_raw_serialize [OF eth]) (simp add: body_def)
  have ser: "arp_serialize p = Inr (eth @ body)" by (simp add: arp_serialize_def eth body_def op_def)
  have raw: "raw_deserialize (eth @ body) q = (True, frame_read p 0x0806 (eth @ body) q)"
    using raw_deserialize_sent [OF eth t, of body q] by (simp add: raw_type_def)
  have hl: "eth_hdr_len (frame_read p 0x0806 (eth @ body) q) = length eth"
    by (simp add: len frame_read_def eth_hdr_len_def)
  have nth: "body ! 4 = 6" "body ! 5 = 4"
    by (simp_all add: nth_append body_def)
  have ch: "chunk (length eth + k) n (eth @ body) = chunk k n body" "chunk (length eth) n (eth @ body) = chunk 0 n body"
    "chunk (Suc (Suc (length eth))) n (eth @ body) = chunk 2 n body"
    for k n by (simp_all add: chunk_def)
  have fields: "chunk 0 2 body = be16 1" "chunk 2 2 body = be16 0x0800" "chunk 6 2 body = be16 op"
    "chunk 8 6 body = mac_octets (sender_mac p)" "chunk 14 4 body = ip_octets (arp_src_ip p)"
    "chunk 18 6 body = mac_octets (receiver_mac p)" "chunk 24 4 body = ip_octets (arp_dest_ip p)"
    unfolding body_def by (simp_all add: field_simps_rules)
  have "arp_deserialize (eth @ body) q = (True, (frame_read p 0x0806 (eth @ body) q)\<lparr>arp_request := arp_request p,
      sender_mac := sender_mac p, receiver_mac := receiver_mac p, arp_src_ip := arp_src_ip p, arp_dest_ip := arp_dest_ip p\<rparr>)"
    by (simp add: arp_deserialize_def raw hl Let_def nth ch fields op len(2))
  then show ?thesis using ser by (simp add: frame_read_def raw_type_def)
qed

text \<open>An ARP reply of an untagged host, as the ARP service makes it.\<close>

definition arp_reply_example :: arp_packet where
  "arp_reply_example = (arp_packet_new False)\<lparr>sender_mac := MAC 2 0 0 0 0 1, receiver_mac := MAC 2 0 0 0 0 2,
     arp_src_ip := IP 10 0 0 1, arp_dest_ip := IP 10 0 0 2\<rparr>"

lemma arp_roundtrip_witness:
  "\<exists>frame r. arp_serialize arp_reply_example = Inr frame \<and> arp_deserialize frame (arp_packet_new True) = (True, r)
    \<and> \<not> arp_request r \<and> sender_mac r = MAC 2 0 0 0 0 1 \<and> arp_dest_ip r = IP 10 0 0 2"
proof -
  have "packet_type arp_reply_example = ARP_PACKET" "ethertype arp_reply_example = 0 \<or> ethertype arp_reply_example = 0x0806"
    by (simp_all add: arp_reply_example_def arp_packet_new_def raw_packet.defs raw_packet_new_def)
  from arp_roundtrip [OF this, of "arp_packet_new True"] obtain frame where
    "arp_serialize arp_reply_example = Inr frame"
    "arp_deserialize frame (arp_packet_new True) = (True, (frame_read arp_reply_example 0x0806 frame (arp_packet_new True))
      \<lparr>arp_request := arp_request arp_reply_example, sender_mac := sender_mac arp_reply_example,
       receiver_mac := receiver_mac arp_reply_example, arp_src_ip := arp_src_ip arp_reply_example,
       arp_dest_ip := arp_dest_ip arp_reply_example\<rparr>)" by blast
  then show ?thesis
    by (simp add: arp_reply_example_def arp_packet_new_def raw_packet.defs arp_packet.defs)
qed

section \<open>VLAN tags\<close>

lemma bit_of_be16_pair:
  "n < 16 \<Longrightarrow> bit (of_be16 [p, q]) n = (if n < 8 then bit q n else bit p (n - 8))"
  by (auto simp: of_be16_def of_bytes_def bit_simps dest: bit_imp_le_length)

lemma nibble_masks:
  "(0x0f :: byte) = mask 4" "(0x0fff :: 16 word) = mask 12" "(0x00ff :: 16 word) = mask 8" "(0xf0 :: byte) = NOT (mask 4)"
  by (simp_all add: mask_eq_exp_minus_1)

definition tci_high :: "byte \<Rightarrow> 16 word \<Rightarrow> byte" where
  "tci_high x vlan = (x AND 0xf0) OR (ucast (drop_bit 8 vlan) AND 0x0f)"

lemma bit_tci:
  "n < 8 \<Longrightarrow> bit (tci_high x vlan) n = (if n < 4 then bit vlan (n + 8) else bit x n)"
  "n < 8 \<Longrightarrow> bit (ucast (drop_bit 8 vlan) AND 0x0f :: byte) n = (n < 4 \<and> bit vlan (n + 8))"
  "n < 8 \<Longrightarrow> bit (ucast (vlan AND 0x00ff) :: byte) n = bit vlan n" for vlan :: "16 word"
  unfolding tci_high_def nibble_masks by (auto simp: bit_simps add.commute)

lemma bit_0fff: "bit (4095 :: int) n \<longleftrightarrow> n < 12"
proof -
  have "(4095 :: int) = mask 12" by (simp add: mask_eq_exp_minus_1)
  then show ?thesis by (simp only: bit_mask_iff) simp
qed

lemma tci_low: "of_be16 [tci_high x vlan, ucast (vlan AND 0x00ff)] AND 0x0fff = vlan AND 0x0fff"
proof (rule bit_word_eqI)
  fix n assume "n < LENGTH(16)"
  then show "bit (of_be16 [tci_high x vlan, ucast (vlan AND 0x00ff)] AND 0x0fff) n = bit (vlan AND 0x0fff) n"
    by (cases "n < 8") (auto simp: bit_and_iff bit_0fff bit_of_be16_pair bit_tci)
qed

lemma tci_new: "of_be16 [ucast (drop_bit 8 vlan) AND 0x0f, ucast (vlan AND 0x00ff)] = vlan AND 0x0fff"
proof (rule bit_word_eqI)
  fix n assume "n < LENGTH(16)"
  then show "bit (of_be16 [ucast (drop_bit 8 vlan) AND 0x0f, ucast (vlan AND 0x00ff)]) n = bit (vlan AND 0x0fff) n"
    by (cases "n < 8") (auto simp: bit_and_iff [of vlan] bit_0fff bit_of_be16_pair bit_tci)
qed

lemma tci_priority:
  "drop_bit 12 (of_be16 [tci_high x vlan, y]) = drop_bit 12 (of_be16 [x, z])"
proof (rule bit_word_eqI)
  fix n assume "n < LENGTH(16)"
  show "bit (drop_bit 12 (of_be16 [tci_high x vlan, y])) n = bit (drop_bit 12 (of_be16 [x, z])) n"
  proof (cases "12 + n < 16")
    case True
    then show ?thesis by (simp add: bit_drop_bit_eq bit_of_be16_pair bit_tci)
  qed (auto simp: bit_drop_bit_eq dest: bit_imp_le_length)
qed

lemma tci_new_priority: "drop_bit 12 (vlan AND 0x0fff) = 0" for vlan :: "16 word"
  by (rule bit_word_eqI) (simp add: bit_drop_bit_eq bit_and_iff bit_0fff)

lemma set_vlan_tag_out:
  assumes "18 \<le> length input"
  shows "\<exists>out. set_vlan_tag input vlan = Inr (Some out) \<and> of_be16 (chunk 12 2 out) = 0x8100 \<and>
    of_be16 (chunk 14 2 out) AND 0x0fff = vlan AND 0x0fff \<and> chunk 0 12 out = chunk 0 12 input \<and>
    (if of_be16 (chunk 12 2 input) = 0x8100
     then length out = length input \<and> drop 16 out = drop 16 input
       \<and> drop_bit 12 (of_be16 (chunk 14 2 out)) = drop_bit 12 (of_be16 (chunk 14 2 input))
     else drop_bit 12 (of_be16 (chunk 14 2 out)) = 0 \<and> drop 16 out = drop 12 input)"
proof -
  have len: "length (chunk 0 12 input) = 12" using assms by simp
  show ?thesis
  proof (cases "of_be16 (chunk 12 2 input) = 0x8100")
    case True
    from assms have "2 \<le> length (drop 14 input)" by simp
    then obtain a b rest where split: "drop 14 input = a # b # rest"
      by (metis Suc_le_length_iff numeral_2_eq_2)
    let ?out = "chunk 0 14 input @ [tci_high a vlan, ucast (vlan AND 0x00ff)] @ rest"
    have "length (drop 14 input) = length (a # b # rest)" by (simp only: split)
    then have len': "length input = 16 + length rest" "length (chunk 0 14 input) = 14" by simp_all
    have tci: "chunk 14 2 input = [a, b]" and rest: "drop 16 input = rest"
      using split drop_drop [of 2 14 input] by (simp_all add: chunk_def)
    have out: "chunk 12 2 ?out = chunk 12 2 input" "chunk 0 12 ?out = chunk 0 12 input" "drop 16 ?out = rest"
      "chunk 14 2 ?out = [tci_high a vlan, ucast (vlan AND 0x00ff)]" "length ?out = length input"
      using len' by (simp_all add: chunk_def drop_take min_def)
    have "set_vlan_tag input vlan = Inr (Some ?out)"
      using True assms split by (simp add: set_vlan_tag_def tci_high_def)
    moreover have "of_be16 (chunk 14 2 ?out) AND 0x0fff = vlan AND 0x0fff"
      unfolding out by (rule tci_low)
    moreover have "drop_bit 12 (of_be16 (chunk 14 2 ?out)) = drop_bit 12 (of_be16 (chunk 14 2 input))"
      unfolding out tci by (rule tci_priority)
    ultimately show ?thesis using True out(1,2,3,5) rest by metis
  next
    case False
    let ?out = "chunk 0 12 input @ [0x81, 0x00, ucast (drop_bit 8 vlan) AND 0x0f, ucast (vlan AND 0x00ff)] @ drop 12 input"
    have "set_vlan_tag input vlan = Inr (Some ?out)"
      using False assms by (simp add: set_vlan_tag_def)
    moreover have "chunk 0 12 ?out = chunk 0 12 input" "drop 16 ?out = drop 12 input" "chunk 12 2 ?out = [0x81, 0x00]"
      "chunk 14 2 ?out = [ucast (drop_bit 8 vlan) AND 0x0f, ucast (vlan AND 0x00ff)]"
      using len by (simp_all add: chunk_def)
    moreover have "of_be16 (chunk 14 2 ?out) AND 0x0fff = vlan AND 0x0fff"
      "drop_bit 12 (of_be16 (chunk 14 2 ?out)) = 0"
      using calculation(5) by (simp_all only: tci_new tci_new_priority and.assoc and.idem)
    moreover have "of_be16 [0x81, 0x00] = 0x8100" by (simp add: of_be16_def of_bytes_def)
    ultimately show ?thesis using False by metis
  qed
qed

text \<open>
  Tagging a frame that holds more than its header: the result is read as a frame of that VLAN (its
  low 12 bits) with the same addresses; an untagged frame keeps its type and everything after it, a
  tagged one keeps its priority, its type and its size.
\<close>

theorem set_vlan_tag_read:
  assumes "18 \<le> length input"
  shows "\<exists>out. set_vlan_tag input vlan = Inr (Some out) \<and> of_be16 (chunk 12 2 out) = 0x8100 \<and>
    of_be16 (chunk 14 2 out) AND 0x0fff = vlan AND 0x0fff \<and> chunk 0 12 out = chunk 0 12 input \<and>
    (if of_be16 (chunk 12 2 input) = 0x8100
     then length out = length input \<and> drop 16 out = drop 16 input
       \<and> drop_bit 12 (of_be16 (chunk 14 2 out)) = drop_bit 12 (of_be16 (chunk 14 2 input))
     else drop_bit 12 (of_be16 (chunk 14 2 out)) = 0 \<and> drop 16 out = drop 12 input)"
  by (rule set_vlan_tag_out [OF assms])

lemma set_vlan_tag_read_witness:
  "\<exists>out. set_vlan_tag (replicate 12 7 @ [0x08, 0x06] @ replicate 46 1) 5 = Inr (Some out) \<and>
     of_be16 (chunk 14 2 out) AND 0x0fff = 5 AND 0x0fff"
proof -
  have "18 \<le> length (replicate 12 7 @ [0x08, 0x06] @ replicate 46 (1 :: byte))" by simp
  from set_vlan_tag_read [OF this, of 5] show ?thesis by blast
qed

lemma page_round_pos: "0 < n \<Longrightarrow> 4096 \<le> page_round n"
  by (simp add: page_round_def)

lemma chunk_drop: "chunk off n x @ drop (n + off) x = drop off x"
  by (simp add: chunk_def flip: drop_drop)

text \<open>
  What \<open>set_vlan_tag\<close> has added \<open>strip_vlan_tag\<close> does not take away: the tagged frame comes back as it is,
  since the tag is looked for four bytes too late. A frame tagged twice loses a tag, and 28 bytes at its end with it.
\<close>

theorem strip_keeps_tag:
  assumes "18 \<le> length input" "of_be16 (chunk 12 2 input) \<noteq> 0x8100" "set_vlan_tag input vlan = Inr (Some out)"
  shows "strip_vlan_tag out = Inr (Some out) \<and> out \<noteq> input \<and>
    (\<forall>twice. of_be16 (chunk 16 2 twice) = 0x8100 \<and> 46 < length twice \<and> length twice \<le> 4096 \<longrightarrow>
       strip_vlan_tag twice = Inr (Some (take (length twice - 32) (chunk 0 12 twice @ drop 16 twice))))"
proof (intro conjI allI impI)
  from set_vlan_tag_out [OF assms(1), of vlan] assms(2,3)
  have out: "drop 16 out = drop 12 input" "of_be16 (chunk 12 2 out) = 0x8100" by simp_all
  then have "chunk 16 2 out = chunk 12 2 input" by (simp add: chunk_def)
  moreover have "length (drop 16 out) = length input - 12" using out(1) by simp
  then have "16 + 2 \<le> length out" using assms(1) by simp
  ultimately show "strip_vlan_tag out = Inr (Some out)"
    using assms(2) by (simp add: strip_vlan_tag_def)
  show "out \<noteq> input" using out(2) assms(2) by auto
next
  fix twice :: "byte list"
  assume t: "of_be16 (chunk 16 2 twice) = 0x8100 \<and> 46 < length twice \<and> length twice \<le> 4096"
  then have "\<not> page_round (length twice - 32) < length twice - 4"
    using page_round_pos [of "length twice - 32"] by linarith
  moreover have "chunk 16 2 twice @ drop 18 twice = drop 16 twice"
    using chunk_drop [of 16 2 twice] by simp
  ultimately show "strip_vlan_tag twice = Inr (Some (take (length twice - 32) (chunk 0 12 twice @ drop 16 twice)))"
    using t by (simp add: strip_vlan_tag_def)
qed

lemma strip_keeps_tag_witness:
  "\<exists>out. set_vlan_tag (replicate 12 7 @ [0x08, 0x06] @ replicate 46 1) 5 = Inr (Some out) \<and>
     strip_vlan_tag out = Inr (Some out)"
proof -
  let ?f = "replicate 12 7 @ [0x08, 0x06] @ replicate 46 (1 :: byte)"
  have len: "18 \<le> length ?f" by simp
  have untagged: "of_be16 (chunk 12 2 ?f) \<noteq> 0x8100"
    by (simp add: chunk_def of_be16_def of_bytes_def)
  obtain out where out: "set_vlan_tag ?f 5 = Inr (Some out)"
    using set_vlan_tag_out [OF len, of 5] by blast
  from strip_keeps_tag [OF len untagged out] out show ?thesis by blast
qed

section \<open>IPv4 packets that are read back\<close>

text \<open>What is read of an IPv4 header that was written with a payload of \<open>n\<close> bytes.\<close>

definition ip_read :: "'b ip_packet_scheme \<Rightarrow> nat \<Rightarrow> byte list \<Rightarrow> 'a ip_packet_scheme \<Rightarrow> 'a ip_packet_scheme" where
  "ip_read p n frame q = (let hdr = ip_header p n (checksum_ip (ip_header p n 0)) in
     (frame_read p 0x0800 frame q)\<lparr>ip_version := 4, ihl := 5, dscp := drop_bit 2 (hdr ! 1), ecn := hdr ! 1 AND 0x03,
       dont_fragment := dont_fragment p, more_fragments := more_fragments p,
       fragment_offset := push_bit 8 (ucast (hdr ! 7)) + ucast (hdr ! 6 AND 0x1f), ttl := ttl p, protocol := protocol p,
       ip_hdr_checksum := checksum_ip (ip_header p n 0), src_ip := src_ip p, dest_ip := dest_ip p,
       ip_options := view_empty, ip_payload := inherit_read_only (eth_hdr_len p + 20) n frame\<rparr>)"

definition ip_flags :: "'a ip_packet_scheme \<Rightarrow> byte" where
  "ip_flags p = (ucast (drop_bit 8 (fragment_offset p)) AND 0x1f) OR (if dont_fragment p then push_bit 6 1 else 0)
     OR (if more_fragments p then push_bit 5 1 else 0)"

lemma ip_flags_bits:
  "bit (ip_flags p) 7 = False" "bit (ip_flags p) 6 = dont_fragment p" "bit (ip_flags p) 5 = more_fragments p"
proof -
  have m: "(0x1f :: byte) = mask 5" by (simp add: mask_eq_exp_minus_1)
  show "bit (ip_flags p) 7 = False" "bit (ip_flags p) 6 = dont_fragment p" "bit (ip_flags p) 5 = more_fragments p"
    unfolding ip_flags_def m by (auto simp: bit_simps)
qed

lemma drop_bit_and_1: "(drop_bit n w AND 0x01 \<noteq> 0) = bit w n" for w :: byte
  by (simp add: and_one_eq mod_2_eq_odd bit_iff_odd_drop_bit)

lemma ip_deserialize_sent:
  assumes eth: "raw_serialize p = Inr eth" and t: "sent_type p = Inr 0x0800"
    and four: "ip_version p = 4" and five: "ihl p = 5" and n: "length rest = n" "n + 20 < 65536"
    and type: "protocol p = 1 \<or> protocol p = 6 \<or> protocol p = 17"
  defines "frame \<equiv> eth @ ip_header p n (checksum_ip (ip_header p n 0)) @ rest"
  shows "ip_deserialize frame q = Inr (True, ip_read p n frame q)"
proof -
  define hdr where "hdr = ip_header p n (checksum_ip (ip_header p n 0))"
  have len: "length eth = eth_hdr_len p" by (rule length_raw_serialize [OF eth])
  have hl: "length hdr = 20" by (simp add: hdr_def)
  have nth: "hd hdr = 0x45" "hdr ! 6 = ip_flags p" "hdr ! 8 = ttl p" "hdr ! 9 = protocol p"
    by (simp_all add: hdr_def ip_header_def nth_append ip_flags_def four five)
  have fields: "chunk 2 2 hdr = be16 (of_nat (20 + n))" "chunk 10 2 hdr = be16 (checksum_ip (ip_header p n 0))"
    "chunk 12 4 hdr = ip_octets (src_ip p)" "chunk 16 4 hdr = ip_octets (dest_ip p)"
    by (simp_all add: hdr_def ip_header_def field_simps_rules)
  have frame: "frame = eth @ hdr @ rest" by (simp add: frame_def hdr_def)
  have fl: "length frame = eth_hdr_len p + 20 + n" by (simp add: frame len hl n)
  have "frame ! (eth_hdr_len p + 9) = protocol p"
    by (simp add: frame len [symmetric] nth_append hl nth)
  then have "raw_type 0x0800 (eth_hdr_len p) frame \<noteq> UNKNOWN_PACKET"
    using type fl by (auto simp: raw_type_def ipv4_type_def Let_def)
  then have raw: "raw_deserialize frame q = (True, frame_read p 0x0800 frame q)"
    using raw_deserialize_sent [OF eth t, of "hdr @ rest" q] by (simp add: frame)
  have off: "eth_hdr_len (frame_read p 0x0800 frame q) = eth_hdr_len p"
    by (simp add: frame_read_def eth_hdr_len_def)
  have ch: "chunk (eth_hdr_len p) 1 frame = [hd hdr]" "chunk (eth_hdr_len p) 20 frame = hdr"
    using hl by (cases hdr; simp add: frame len [symmetric] chunk_def)+
  have total: "unat (of_nat (20 + n) :: 16 word) = 20 + n"
    using n(2) by (simp only: unat_of_nat) simp
  have view: "inherit_read_only k (20 + n + 2 ^ 64 - 20) m = inherit_read_only k n m" for k m
    using mod_mult_self2 [of n 4294967296 4294967296] by (simp add: inherit_read_only_def u32_def add.commute)
  have nibbles: "drop_bit 4 (0x45 :: byte) = 4" "(0x45 :: byte) AND 0x0f = 5" by simp_all
  have fetches: "fetch (eth_hdr_len p) 1 frame = Inr [hd hdr]" "fetch (eth_hdr_len p) 20 frame = Inr hdr"
    using fl ch by (simp_all add: fetch_def del: One_nat_def)
  have sizes: "\<not> length frame - eth_hdr_len p < 20 + n" using fl by simp
  have flags: "drop_bit 7 (ip_flags p) AND 0x01 = 0" "drop_bit 6 (ip_flags p) AND 0x01 \<noteq> 0 \<longleftrightarrow> dont_fragment p"
    "drop_bit 5 (ip_flags p) AND 0x01 \<noteq> 0 \<longleftrightarrow> more_fragments p"
    using drop_bit_and_1 [of _ "ip_flags p"] ip_flags_bits by auto
  have "ip_deserialize frame q = Inr (True, (frame_read p 0x0800 frame q)\<lparr>ip_version := 4, ihl := 5,
      dscp := drop_bit 2 (hdr ! 1), ecn := hdr ! 1 AND 0x03, dont_fragment := dont_fragment p,
      more_fragments := more_fragments p, fragment_offset := push_bit 8 (ucast (hdr ! 7)) + ucast (hdr ! 6 AND 0x1f),
      ttl := ttl p, protocol := protocol p, ip_hdr_checksum := checksum_ip (ip_header p n 0),
      src_ip := src_ip p, dest_ip := dest_ip p, ip_options := view_empty,
      ip_payload := inherit_read_only (eth_hdr_len p + 20) n frame\<rparr>)"
    unfolding ip_deserialize_def raw prod.case Let_def off fetches bindr.simps list.sel nth(1) nibbles total view sizes
      nth(2-4) flags fields of_be_be ip_from_octets
    using sizes by simp
  then show ?thesis unfolding ip_read_def hdr_def [symmetric] Let_def by simp
qed

text \<open>A packet that the factory can read back: IPv4 with the header the constructor sets.\<close>

definition plain_ipv4 :: "'a ip_packet_scheme \<Rightarrow> bool" where
  "plain_ipv4 p = (ip_version p = 4 \<and> ihl p = 5 \<and> view_size (ip_options p) = 0 \<and> view_ok (ip_options p)
     \<and> (ethertype p = 0 \<or> ethertype p = 0x0800))"

lemma plain_ipv4_special:
  assumes "plain_ipv4 p" "sent_type p = Inr 0x0800"
  obtains eth where "raw_serialize p = Inr eth"
    "\<And>n. ip_serialize_special p n = Inr (eth @ ip_header p n (checksum_ip (ip_header p n 0)))"
proof -
  from assms(2) obtain eth where eth: "raw_serialize p = Inr eth"
    by (simp add: raw_serialize_def sent_type_def [symmetric])
  show ?thesis
    by (rule that [OF eth]) (use assms(1) eth in \<open>simp add: ip_serialize_special_def plain_ipv4_def content_def Let_def\<close>)
qed

lemma udp_payload_same:
  "udp_payload r = view_empty \<Longrightarrow> r\<lparr>udp_src_port := a, udp_dest_port := b, udp_checksum := c, udp_payload := view_empty\<rparr>
     = r\<lparr>udp_src_port := a, udp_dest_port := b, udp_checksum := c\<rparr>"
  by (cases r) simp

lemma raw_type_sent:
  assumes "raw_serialize p = Inr eth"
  shows "raw_type 0x0800 (eth_hdr_len p) (eth @ ip_header p n c @ rest) =
    (if protocol p = 1 then ICMP_PACKET else if protocol p = 6 then TCP_PACKET
     else if protocol p = 17 then UDP_PACKET else UNKNOWN_PACKET)"
proof -
  have "length eth = eth_hdr_len p" by (rule length_raw_serialize [OF assms])
  moreover have "ip_header p n c ! 9 = protocol p" by (simp add: ip_header_def nth_append)
  ultimately have "(eth @ ip_header p n c @ rest) ! (eth_hdr_len p + 9) = protocol p"
    "eth_hdr_len p + 20 \<le> length (eth @ ip_header p n c @ rest)"
    by (simp_all add: nth_append)
  then show ?thesis by (simp add: raw_type_def ipv4_type_def Let_def)
qed

text \<open>
  C39. A UDP packet that is written and handed to the factory comes back as a UDP packet with the same
  addresses, ports and payload, whatever the fields of the new object held.
\<close>

theorem udp_roundtrip:
  assumes "packet_type p = UDP_PACKET" "protocol p = 17" "plain_ipv4 p"
    and "view_ok (udp_payload p)" "view_size (udp_payload p) < 65508"
  shows "\<exists>frame r. udp_serialize p = Inr frame \<and> instantiate u frame = Inr (Some (Udp r)) \<and>
    src_mac r = src_mac p \<and> dest_mac r = dest_mac p \<and> has_vlan_tag r = has_vlan_tag p \<and>
    src_ip r = src_ip p \<and> dest_ip r = dest_ip p \<and> ttl r = ttl p \<and>
    udp_src_port r = udp_src_port p \<and> udp_dest_port r = udp_dest_port p \<and>
    view_ok (udp_payload r) \<and> content (udp_payload r) = content (udp_payload p)"
proof -
  have t: "sent_type p = Inr 0x0800" using assms(1,3) by (auto simp: sent_type_def plain_ipv4_def)
  from plain_ipv4_special [OF assms(3) t] obtain eth where eth: "raw_serialize p = Inr eth"
    and special: "\<And>n. ip_serialize_special p n = Inr (eth @ ip_header p n (checksum_ip (ip_header p n 0)))" by metis
  define data where "data = content (udp_payload p)"
  define n where "n = 8 + length data"
  define udp where "udp = be16 (udp_src_port p) @ be16 (udp_dest_port p) @ be16 (of_nat n) @ be16 0 @ data"
  define frame where "frame = eth @ ip_header p n (checksum_ip (ip_header p n 0)) @ udp"
  have size: "view_size (udp_payload p) = length data" using assms(4) by (simp add: data_def)
  have n: "length udp = n" "n + 20 < 65536" "unat (of_nat n :: 16 word) = n"
    using assms(5) size by (simp add: udp_def n_def, simp add: n_def, simp only: unat_of_nat, simp add: n_def)
  have ser: "udp_serialize p = Inr frame"
    using assms(4) size by (simp add: udp_serialize_def special n_def [symmetric] frame_def udp_def data_def [symmetric])
  let ?q = "udp_packet_new (unset_udp u)"
  have len: "length eth = eth_hdr_len p" by (rule length_raw_serialize [OF eth])
  have ip: "ip_deserialize frame ?q = Inr (True, ip_read p n frame ?q)"
    unfolding frame_def using ip_deserialize_sent [OF eth t _ _ n(1,2)] assms(2,3) by (simp add: plain_ipv4_def)
  have mem: "view_mem (ip_payload (ip_read p n frame ?q)) = udp" "view_size (ip_payload (ip_read p n frame ?q)) = n"
    using n(2) by (simp_all add: ip_read_def Let_def inherit_read_only_def frame_def len)
  have hdr: "chunk 0 2 udp = be16 (udp_src_port p)" "chunk 2 2 udp = be16 (udp_dest_port p)"
    "chunk 4 2 udp = be16 (of_nat n)" "chunk 6 2 udp = be16 0" "drop 8 udp = data"
    by (simp_all add: udp_def field_simps_rules)
  have fetch: "fetch 0 8 udp = Inr (chunk 0 8 udp)" using n(1) by (simp add: n_def)
  have sub: "chunk 0 2 (chunk 0 8 udp) = chunk 0 2 udp" "chunk 2 2 (chunk 0 8 udp) = chunk 2 2 udp"
    "chunk 4 2 (chunk 0 8 udp) = chunk 4 2 udp" "chunk 6 2 (chunk 0 8 udp) = chunk 6 2 udp"
    by (simp_all add: chunk_def drop_take)
  have de: "udp_deserialize frame ?q = Inr (True, (ip_read p n frame ?q)\<lparr>udp_src_port := udp_src_port p,
      udp_dest_port := udp_dest_port p, udp_checksum := 0,
      udp_payload := (if 8 < n then inherit_read_only 8 (n - 8) udp else view_empty)\<rparr>)"
  proof -
    have "udp_payload (ip_read p n frame ?q) = view_empty"
      by (simp add: ip_read_def frame_read_def Let_def udp_packet_new_def)
    moreover have "\<not> n < 8" by (simp add: n_def)
    ultimately show ?thesis
      unfolding udp_deserialize_def ip bindr.simps prod.case mem fetch Let_def sub hdr of_be_be n(3)
      by (cases "8 < n") (simp_all add: udp_payload_same)
  qed
  have finder: "raw_deserialize frame raw_packet_new = (True, frame_read p 0x0800 frame raw_packet_new)"
    "packet_type (frame_read p 0x0800 frame raw_packet_new) = UDP_PACKET"
    using raw_deserialize_sent [OF eth t, of _ raw_packet_new] raw_type_sent [OF eth, of n _ udp] assms(2)
    by (simp_all add: frame_def frame_read_def)
  have "instantiate u frame = Inr (Some (Udp ((ip_read p n frame ?q)\<lparr>udp_src_port := udp_src_port p,
      udp_dest_port := udp_dest_port p, udp_checksum := 0,
      udp_payload := (if 8 < n then inherit_read_only 8 (n - 8) udp else view_empty)\<rparr>)))"
    by (simp add: instantiate_def finder de keep_if_def)
  moreover have "view_ok v \<and> content v = data"
    if "v = (if 8 < n then inherit_read_only 8 (n - 8) udp else view_empty)" for v
    using that n(1,2) hdr(5) by (auto simp: content_inherit chunk_def view_ok_inherit n_def)
  ultimately show ?thesis
    using ser by (auto simp: ip_read_def frame_read_def Let_def data_def)
qed

definition udp_example :: udp_packet where
  "udp_example = ip_packet.extend (ip_packet_construct (raw_packet.extend (raw_packet_new\<lparr>src_mac := MAC 2 0 0 0 0 1\<rparr>)
       (ip_packet.fields 4 5 0 0 0 True False 0 64 17 0 ip_nil ip_nil view_empty view_empty))
       \<lparr>packet_type := UDP_PACKET, protocol := 17, src_ip := IP 10 0 0 1, dest_ip := IP 10 0 0 2\<rparr>)
     (udp_packet.fields 5353 53 0 (view_of [1, 2, 3]))"

lemma udp_roundtrip_witness:
  "\<forall>u. \<exists>frame r. udp_serialize udp_example = Inr frame \<and> instantiate u frame = Inr (Some (Udp r)) \<and>
     dest_ip r = IP 10 0 0 2 \<and> udp_src_port r = 5353 \<and> content (udp_payload r) = [1, 2, 3]"
proof
  fix u
  have "packet_type udp_example = UDP_PACKET" "protocol udp_example = 17" "plain_ipv4 udp_example"
    "view_ok (udp_payload udp_example)" "view_size (udp_payload udp_example) < 65508"
    by (simp_all add: udp_example_def ip_packet_construct_def ip_packet_init_def raw_packet_clear_def raw_packet_new_def
        raw_packet.defs ip_packet.defs udp_packet.defs plain_ipv4_def)
  from udp_roundtrip [OF this, of u] show
    "\<exists>frame r. udp_serialize udp_example = Inr frame \<and> instantiate u frame = Inr (Some (Udp r)) \<and>
       dest_ip r = IP 10 0 0 2 \<and> udp_src_port r = 5353 \<and> content (udp_payload r) = [1, 2, 3]"
    by (simp add: udp_example_def ip_packet_construct_def ip_packet_init_def raw_packet.defs ip_packet.defs udp_packet.defs)
       blast
qed

subsection \<open>TCP segments\<close>

lemma and_flag: "(w AND push_bit n 1 \<noteq> 0) = (n < 8 \<and> bit w n)" for w :: byte
proof -
  have "w AND push_bit n 1 = (if n < 8 \<and> bit w n then push_bit n 1 else 0)"
    by (rule bit_word_eqI) (auto simp: bit_simps)
  moreover have "n < 8 \<Longrightarrow> push_bit n 1 \<noteq> (0 :: byte)"
  proof
    assume "n < 8" "push_bit n 1 = (0 :: byte)"
    then have "bit (push_bit n 1 :: byte) n = bit (0 :: byte) n" by simp
    with \<open>n < 8\<close> show False by (simp add: bit_simps)
  qed
  ultimately show ?thesis by auto
qed

lemma bit_flag_byte: "bit (flag_byte b m) n \<longleftrightarrow> b \<and> m = n \<and> n < 8"
  by (auto simp: flag_byte_def bit_simps)

definition tcp_flags :: "tcp_packet \<Rightarrow> byte" where
  "tcp_flags p = flag_byte (cwr_flag p) 7 OR flag_byte (ece_flag p) 6 OR flag_byte (ack_flag p) 4
     OR flag_byte (psh_flag p) 3 OR flag_byte (rst_flag p) 2 OR flag_byte (syn_flag p) 1 OR flag_byte (fin_flag p) 0"

lemma tcp_flags_read:
  "tcp_flags p AND 0x80 \<noteq> 0 \<longleftrightarrow> cwr_flag p" "tcp_flags p AND 0x40 \<noteq> 0 \<longleftrightarrow> ece_flag p"
  "tcp_flags p AND 0x20 = 0" "tcp_flags p AND 0x10 \<noteq> 0 \<longleftrightarrow> ack_flag p" "tcp_flags p AND 0x08 \<noteq> 0 \<longleftrightarrow> psh_flag p"
  "tcp_flags p AND 0x04 \<noteq> 0 \<longleftrightarrow> rst_flag p" "tcp_flags p AND 0x02 \<noteq> 0 \<longleftrightarrow> syn_flag p"
  "tcp_flags p AND 0x01 \<noteq> 0 \<longleftrightarrow> fin_flag p"
  using and_flag [of "tcp_flags p" 7] and_flag [of "tcp_flags p" 6] and_flag [of "tcp_flags p" 5]
    and_flag [of "tcp_flags p" 4] and_flag [of "tcp_flags p" 3] and_flag [of "tcp_flags p" 2]
    and_flag [of "tcp_flags p" 1] and_flag [of "tcp_flags p" 0]
  by (simp_all add: tcp_flags_def bit_or_iff bit_flag_byte)

lemma data_offset_read:
  assumes "k \<le> 10"
  shows "unat (drop_bit 4 (push_bit 4 (of_nat (5 + k)) OR flag_byte b 0)) = 5 + k"
    "(push_bit 4 (of_nat (5 + k)) OR flag_byte b 0) AND 0x01 \<noteq> 0 \<longleftrightarrow> b"
proof -
  have "drop_bit 4 (push_bit 4 (of_nat (5 + k)) OR flag_byte b 0) = take_bit 4 (of_nat (5 + k) :: byte)"
    by (rule bit_word_eqI) (auto simp: bit_simps flag_byte_def)
  then show "unat (drop_bit 4 (push_bit 4 (of_nat (5 + k)) OR flag_byte b 0)) = 5 + k"
    using assms by (simp only: unsigned_take_bit_eq unsigned_of_nat) (simp add: take_bit_nat_eq_self)
  show "(push_bit 4 (of_nat (5 + k)) OR flag_byte b 0) AND 0x01 \<noteq> 0 \<longleftrightarrow> b"
    using and_flag [of "push_bit 4 (of_nat (5 + k)) OR flag_byte b 0" 0]
    by (simp add: bit_or_iff bit_flag_byte bit_push_bit_iff)
qed

text \<open>What is read from a segment \<open>seg\<close> of \<open>p\<close>, whose checksum is \<open>c\<close>.\<close>

definition tcp_read :: "tcp_packet \<Rightarrow> 16 word \<Rightarrow> byte list \<Rightarrow> tcp_packet \<Rightarrow> tcp_packet" where
  "tcp_read p c seg r = (let k = view_size (tcp_options p); m = view_size (tcp_payload p) in
     r\<lparr>tcp_src_port := tcp_src_port p, tcp_dest_port := tcp_dest_port p, seq := seq p, ack := ack p,
       ns_flag := ns_flag p, cwr_flag := cwr_flag p, ece_flag := ece_flag p, urg_flag := False, ack_flag := ack_flag p,
       psh_flag := psh_flag p, rst_flag := rst_flag p, syn_flag := syn_flag p, fin_flag := fin_flag p,
       window_size := window_size p, tcp_checksum := c, urgent_ptr := 0,
       tcp_options := (if 0 < k then inherit_read_only 8 k seg else view_empty),
       tcp_payload := (if 0 < m then inherit_read_only (20 + k) m seg else tcp_payload r)\<rparr>)"

lemma tcp_deserialize_sent:
  assumes ip: "ip_deserialize frame q = Inr (True, r)"
    and mem: "view_mem (ip_payload r) = seg" "view_size (ip_payload r) = length seg"
    and seg: "seg = tcp_header p c @ content (tcp_options p) @ content (tcp_payload p)"
    and ok: "view_ok (tcp_options p)" "view_ok (tcp_payload p)" "length seg < 65536"
    and k: "view_size (tcp_options p) = 4 * j" "j \<le> 10"
  shows "tcp_deserialize frame q = Inr (True, tcp_read p c seg r)"
proof -
  let ?b = "push_bit 4 (of_nat (5 + j)) OR flag_byte (ns_flag p) 0 :: byte"
  have hdr: "tcp_header p c = be16 (tcp_src_port p) @ be16 (tcp_dest_port p) @ be32 (seq p) @ be32 (ack p)
     @ [?b, tcp_flags p] @ be16 (window_size p) @ be16 c @ [0, 0]"
    using k(1) by (simp add: tcp_header_def tcp_flags_def)
  define h where "h = tcp_header p c"
  have h: "chunk 0 2 h = be16 (tcp_src_port p)" "chunk 2 2 h = be16 (tcp_dest_port p)" "chunk 4 4 h = be32 (seq p)"
    "chunk 8 4 h = be32 (ack p)" "chunk 14 2 h = be16 (window_size p)" "chunk 16 2 h = be16 c"
    "chunk 18 2 h = be16 0" "h ! 12 = ?b" "h ! 13 = tcp_flags p" "length h = 20"
    by (simp_all add: h_def hdr field_simps_rules nth_append be16_0)
  define m where "m = view_size (tcp_payload p)"
  have len: "length seg = 20 + 4 * j + m" using ok k by (simp add: seg h(10) [unfolded h_def] m_def)
  have f: "fetch 0 20 seg = Inr h" using len h(10) by (simp add: seg h_def chunk_def)
  have big: "\<not> length seg < 20" using len by simp
  have opts: "(if 5 < 5 + j then inherit_read_only 8 ((5 + j - 5) * 4) seg else view_empty) =
      (if 0 < view_size (tcp_options p) then inherit_read_only 8 (view_size (tcp_options p)) seg else view_empty)"
    using k by (simp add: mult.commute)
  have osize: "view_size (if 0 < view_size (tcp_options p) then inherit_read_only 8 (view_size (tcp_options p)) seg else view_empty)
      = 4 * j"
    using k by (simp add: inherit_read_only_def)
  have "u32 (length seg + 2 ^ 64 - 4 * j - 20) = m"
    using mod_mult_self2 [of m 4294967296 4294967296] len ok(3) by (simp add: u32_def add.commute)
  then have data: "(if (5 + j) * 4 < length seg then inherit_read_only ((5 + j) * 4) (length seg + 2 ^ 64 - 4 * j - 20) seg
      else tcp_payload r) = (if 0 < m then inherit_read_only (20 + view_size (tcp_options p)) m seg else tcp_payload r)"
    using len k ok(3) by (auto simp: inherit_read_only_def algebra_simps)
  show ?thesis
    unfolding tcp_deserialize_def ip bindr.simps prod.case mem f Let_def h(8,9) data_offset_read [OF k(2)] opts osize data
    using big by (simp add: h tcp_flags_read tcp_read_def Let_def m_def)
qed

lemma tcp_serialize_ok:
  assumes "plain_ipv4 p" "sent_type p = Inr 0x0800" "view_ok (tcp_options p)" "view_ok (tcp_payload p)"
  shows "\<exists>frame. tcp_serialize p = Inr frame"
proof -
  from plain_ipv4_special [OF assms(1,2)] obtain eth where
    "\<And>n. ip_serialize_special p n = Inr (eth @ ip_header p n (checksum_ip (ip_header p n 0)))" by metis
  then show ?thesis using assms(3,4) by (simp add: tcp_serialize_def Let_def)
qed

text \<open>
  A TCP segment that is written and handed to the factory comes back with the same addresses, ports,
  numbers, flags (but URG) and payload. Its options do not: as many bytes come back, but from the eighth byte of
  the TCP header on, the acknowledgement number first.
\<close>

theorem tcp_roundtrip:
  assumes "packet_type p = TCP_PACKET" "protocol p = 6" "plain_ipv4 p"
    and "view_ok (tcp_options p)" "view_size (tcp_options p) = 4 * j" "j \<le> 10"
    and "view_ok (tcp_payload p)" "view_size (tcp_payload p) < 65400"
  shows "\<exists>frame r. tcp_serialize p = Inr frame \<and> instantiate u frame = Inr (Some (Tcp r)) \<and>
    src_ip r = src_ip p \<and> dest_ip r = dest_ip p \<and>
    tcp_src_port r = tcp_src_port p \<and> tcp_dest_port r = tcp_dest_port p \<and> seq r = seq p \<and> ack r = ack p \<and>
    ns_flag r = ns_flag p \<and> cwr_flag r = cwr_flag p \<and> ece_flag r = ece_flag p \<and> \<not> urg_flag r \<and> ack_flag r = ack_flag p \<and>
    psh_flag r = psh_flag p \<and> rst_flag r = rst_flag p \<and> syn_flag r = syn_flag p \<and> fin_flag r = fin_flag p \<and>
    window_size r = window_size p \<and> content (tcp_payload r) = content (tcp_payload p) \<and>
    content (tcp_options r) = chunk 8 (view_size (tcp_options p)) (drop (eth_hdr_len p + 20) frame)"
proof -
  have t: "sent_type p = Inr 0x0800" using assms(1,3) by (auto simp: sent_type_def plain_ipv4_def)
  have no_opts: "view_size (ip_options p) = 0" using assms(3) by (simp add: plain_ipv4_def)
  obtain frame where frame: "tcp_serialize p = Inr frame"
    using tcp_serialize_ok [OF assms(3) t assms(4,7)] by blast
  define n where "n = 20 + view_size (tcp_options p) + view_size (tcp_payload p)"
  from tcp_serialize_Inr [OF frame no_opts, folded n_def] obtain eth rest c where eth: "raw_serialize p = Inr eth"
    "length eth = eth_hdr_len p" and rest: "rest = content (tcp_options p) @ content (tcp_payload p)"
    and f: "frame = eth @ ip_header p n (checksum_ip (ip_header p n 0)) @ tcp_header p c @ rest" by metis
  let ?seg = "tcp_header p c @ rest" and ?q = "tcp_packet_new (unset_tcp u)"
  have n: "length ?seg = n" "n + 20 < 65536"
    using assms(4-8) by (simp_all add: rest n_def tcp_header_def)
  let ?r = "ip_read p n frame ?q"
  have ip: "ip_deserialize frame ?q = Inr (True, ?r)"
    unfolding f using ip_deserialize_sent [OF eth(1) t _ _ n] assms(2,3) by (simp add: plain_ipv4_def)
  have mem: "view_mem (ip_payload ?r) = ?seg" "view_size (ip_payload ?r) = length ?seg" "tcp_payload ?r = view_empty"
    using n eth by (simp_all add: ip_read_def frame_read_def Let_def inherit_read_only_def f tcp_packet_new_def)
  have "tcp_deserialize frame ?q = Inr (True, tcp_read p c ?seg ?r)"
    by (rule tcp_deserialize_sent [OF ip mem(1,2) _ assms(4,7) _ assms(5,6)]) (use n rest in simp_all)
  moreover have "raw_deserialize frame raw_packet_new = (True, frame_read p 0x0800 frame raw_packet_new)"
    "packet_type (frame_read p 0x0800 frame raw_packet_new) = TCP_PACKET"
    using raw_deserialize_sent [OF eth(1) t, of _ raw_packet_new] raw_type_sent [OF eth(1), of n _ ?seg] assms(2)
    by (simp_all add: f frame_read_def)
  ultimately have inst: "instantiate u frame = Inr (Some (Tcp (tcp_read p c ?seg ?r)))"
    by (simp add: instantiate_def keep_if_def)
  have seg: "drop (eth_hdr_len p + 20) frame = ?seg" using eth by (simp add: f)
  let ?front = "tcp_header p c @ content (tcp_options p)"
  have "length ?front = 20 + view_size (tcp_options p)" using assms(4) by (simp add: tcp_header_def)
  then have "drop (20 + view_size (tcp_options p)) (?front @ content (tcp_payload p)) = content (tcp_payload p)"
    by (metis append_eq_conv_conj)
  then have "chunk (20 + view_size (tcp_options p)) (view_size (tcp_payload p)) ?seg = content (tcp_payload p)"
    using assms(7) by (simp add: chunk_def rest)
  moreover have "content (tcp_payload p) = []" if "view_size (tcp_payload p) = 0"
    using that by (simp add: content_def)
  ultimately have "content (tcp_payload (tcp_read p c ?seg ?r)) = content (tcp_payload p)"
    using assms(8) by (simp add: tcp_read_def Let_def mem(3) content_inherit)
  moreover have "content (tcp_options (tcp_read p c ?seg ?r)) = chunk 8 (view_size (tcp_options p)) ?seg"
    using assms(5,6) by (simp add: tcp_read_def Let_def content_inherit)
  moreover have "src_ip (tcp_read p c ?seg ?r) = src_ip p" "dest_ip (tcp_read p c ?seg ?r) = dest_ip p"
    by (simp_all add: tcp_read_def ip_read_def Let_def)
  ultimately show ?thesis using frame inst by (auto simp: tcp_read_def Let_def seg)
qed

definition tcp_example :: tcp_packet where
  "tcp_example = ip_packet.extend (ip_packet_construct (raw_packet.extend raw_packet_new
       (ip_packet.fields 4 5 0 0 0 True False 0 64 6 0 ip_nil ip_nil view_empty view_empty))
       \<lparr>packet_type := TCP_PACKET, protocol := 6, src_ip := IP 10 0 0 1, dest_ip := IP 10 0 0 2\<rparr>)
     (tcp_packet.fields 80 4000 7 9 False False False False True False False True False 14600 0 0
       (view_of [2, 4, 5, 180]) (view_of [1]))"

lemma tcp_example_simps:
  "packet_type tcp_example = TCP_PACKET" "protocol tcp_example = 6" "plain_ipv4 tcp_example"
  "view_ok (tcp_options tcp_example)" "view_size (tcp_options tcp_example) = 4 * 1"
  "view_ok (tcp_payload tcp_example)" "view_size (tcp_payload tcp_example) < 65400"
  "content (tcp_payload tcp_example) = [1]" "seq tcp_example = 7"
  "view_size (ip_options tcp_example) = 0" "sent_type tcp_example = Inr 0x0800" "eth_hdr_len tcp_example = 14"
  by (simp_all add: tcp_example_def ip_packet_construct_def ip_packet_init_def raw_packet_clear_def raw_packet_new_def
      raw_packet.defs ip_packet.defs tcp_packet.defs plain_ipv4_def sent_type_def eth_hdr_len_def)

lemma tcp_roundtrip_witness:
  "\<forall>u. \<exists>frame r. tcp_serialize tcp_example = Inr frame \<and> instantiate u frame = Inr (Some (Tcp r)) \<and>
     seq r = 7 \<and> content (tcp_payload r) = [1]"
proof
  fix u
  have "(1 :: nat) \<le> 10" by simp
  from tcp_roundtrip [OF tcp_example_simps(1-5) this tcp_example_simps(6,7), of u] show
    "\<exists>frame r. tcp_serialize tcp_example = Inr frame \<and> instantiate u frame = Inr (Some (Tcp r)) \<and>
       seq r = 7 \<and> content (tcp_payload r) = [1]"
    unfolding tcp_example_simps(8,9) by blast
qed

lemma tcp_example_frame:
  obtains frame where "tcp_serialize tcp_example = Inr frame" "length frame = 59"
proof -
  obtain frame where frame: "tcp_serialize tcp_example = Inr frame"
    using tcp_serialize_ok [OF tcp_example_simps(3,11,4,6)] by blast
  from tcp_serialize_Inr [OF this tcp_example_simps(10)] obtain eth iph rest c where
    "length eth = 14" "length iph = 20" "rest = content (tcp_options tcp_example) @ content (tcp_payload tcp_example)"
    "frame = eth @ iph @ tcp_header tcp_example c @ rest" unfolding tcp_example_simps by metis
  moreover have "view_size (tcp_payload tcp_example) = 1" by (simp add: tcp_example_def tcp_packet.defs ip_packet.defs)
  ultimately have "length frame = 59" by (simp add: tcp_example_simps tcp_header_def)
  with frame show ?thesis using that by blast
qed

lemma tcp_checksum_valid_iff_witness:
  "\<exists>frame. tcp_serialize tcp_example = Inr frame \<and>
     checksum_valid (tcp_pseudo_header (drop 14 frame) 6 25 @ drop 34 frame) = (last (drop 34 frame) = 0)"
proof -
  obtain frame where frame: "tcp_serialize tcp_example = Inr frame" "length frame = 59" by (rule tcp_example_frame)
  then have "length frame < 65536" by simp
  from tcp_checksum_valid_iff [OF frame(1) tcp_example_simps(10) this] frame show ?thesis
    by (simp add: tcp_example_simps)
qed

section \<open>Lengths that are not checked\<close>

text \<open>The total length that the header of a frame claims.\<close>

definition claimed_length :: "nat \<Rightarrow> byte list \<Rightarrow> nat" where
  "claimed_length off frame = unat (of_be16 (chunk (off + 2) 2 frame))"

lemma u32_underflow: "t < 20 \<Longrightarrow> u32 (t + 2 ^ 64 - 20) = t + 4294967276"
proof -
  assume "t < 20"
  moreover have "t + 2 ^ 64 - 20 = (t + 4294967276) + 4294967296 * 4294967295" by simp
  ultimately show ?thesis using mod_mult_self2 [of "t + 4294967276" 4294967296 4294967295]
    by (simp only: u32_def) simp
qed

lemma u32_payload: "20 \<le> t \<Longrightarrow> t < 65536 \<Longrightarrow> u32 (t + 2 ^ 64 - 20) = t - 20"
proof -
  assume t: "20 \<le> t" "t < 65536"
  then have "t + 2 ^ 64 - 20 = (t - 20) + 4294967296 * 4294967296" by simp
  with t show ?thesis using mod_mult_self2 [of "t - 20" 4294967296 4294967296] by (simp only: u32_def) simp
qed

lemma ip_deserialize_payload:
  assumes "ip_deserialize input q = Inr (True, r)"
  shows "claimed_length (eth_hdr_len r) input \<le> length input - eth_hdr_len r"
    "eth_hdr_len r + 20 \<le> length input"
    "ip_payload r = inherit_read_only (eth_hdr_len r + 20) (claimed_length (eth_hdr_len r) input + 2 ^ 64 - 20) input"
proof -
  obtain ok p1 where raw: "raw_deserialize input q = (ok, p1)" by fastforce
  have hl: "eth_hdr_len r = eth_hdr_len p1" and off: "eth_hdr_len p1 + 20 \<le> length input"
    using assms raw by (auto simp: ip_deserialize_def Let_def bindr_Inr_iff fetch_def eth_hdr_len_def split: if_splits)
  have ch: "chunk 2 2 (chunk (eth_hdr_len p1) 20 input) = chunk (eth_hdr_len p1 + 2) 2 input"
    by (simp add: chunk_def drop_take)
  from assms raw off ch show "claimed_length (eth_hdr_len r) input \<le> length input - eth_hdr_len r"
    "eth_hdr_len r + 20 \<le> length input"
    "ip_payload r = inherit_read_only (eth_hdr_len r + 20) (claimed_length (eth_hdr_len r) input + 2 ^ 64 - 20) input"
    unfolding hl by (auto simp: ip_deserialize_def Let_def bindr_Inr_iff claimed_length_def split: if_splits)
qed

text \<open>
  An IPv4 packet that is accepted keeps its payload inside the frame exactly when the total length of
  its header is at least the header's own 20 bytes; a smaller one is not rejected, and makes a payload of
  almost 4 GiB.
\<close>

theorem ip_payload_inside_iff:
  assumes "ip_deserialize input q = Inr (True, r)" "length input < 4294967276"
  shows "(view_ok (ip_payload r) \<longleftrightarrow> 20 \<le> claimed_length (eth_hdr_len r) input) \<and>
    (claimed_length (eth_hdr_len r) input < 20 \<longrightarrow>
      view_size (ip_payload r) = claimed_length (eth_hdr_len r) input + 4294967276)"
proof -
  let ?t = "claimed_length (eth_hdr_len r) input"
  note p = ip_deserialize_payload [OF assms(1)]
  have "?t < 65536" using unsigned_less [of "of_be16 (chunk (eth_hdr_len r + 2) 2 input)"] by (simp add: claimed_length_def)
  then have big: "20 \<le> ?t \<Longrightarrow> view_size (ip_payload r) = ?t - 20"
    using u32_payload [of ?t] by (simp add: p(3) inherit_read_only_def)
  have small: "?t < 20 \<Longrightarrow> view_size (ip_payload r) = ?t + 4294967276"
    using u32_underflow [of ?t] by (simp add: p(3) inherit_read_only_def)
  have mem: "length (view_mem (ip_payload r)) = length input - eth_hdr_len r - 20"
    by (simp add: p(3) inherit_read_only_def)
  show ?thesis
    using big small mem p(1,2) assms(2) by (cases "20 \<le> ?t") (auto simp: view_ok_def)
qed

definition ip_example :: ip_packet where
  "ip_example = raw_packet.extend raw_packet_new
     (ip_packet.fields 4 5 0 0 0 True False 0 64 6 0 ip_nil ip_nil view_empty view_empty)"

text \<open>A TCP frame whose header claims a total length of zero.\<close>

definition short_frame :: "byte list" where
  "short_frame = replicate 12 2 @ [0x08, 0x00, 0x45, 0, 0, 0, 0, 0, 0, 0, 64, 6, 0, 0, 10, 0, 0, 1, 10, 0, 0, 2]"

lemma short_frame_accepted:
  obtains r where "ip_deserialize short_frame ip_example = Inr (True, r)" "eth_hdr_len r = 14"
proof -
  have bytes: "length short_frame = 34" "chunk 12 2 short_frame = [0x08, 0x00]" "short_frame ! 23 = 6"
    "chunk 14 (Suc 0) short_frame = [0x45]" "chunk 16 2 (short_frame) = [0, 0]"
    "chunk 14 20 short_frame = [0x45, 0, 0, 0, 0, 0, 0, 0, 64, 6, 0, 0, 10, 0, 0, 1, 10, 0, 0, 2]"
    by (simp_all add: short_frame_def chunk_def numeral_eq_Suc)
  have t: "of_be16 [0x08, 0x00] = 0x0800" "of_be16 [0, 0] = 0"
    by (simp_all add: of_be16_def of_bytes_def)
  let ?hdr = "[0x45, 0, 0, 0, 0, 0, 0, 0, 64, 6, 0, 0, 10, 0, 0, 1, 10, 0, 0, 2 :: byte]"
  have total: "chunk 2 2 ?hdr = [0, 0]" "?hdr ! 6 = 0" by (simp_all add: chunk_def)
  let ?r = "ip_deserialize short_frame ip_example"
  have "\<exists>r. ?r = Inr (True, r) \<and> eth_hdr_len r = 14"
    by (simp add: ip_deserialize_def raw_deserialize_def Let_def bytes t raw_type_def ipv4_type_def eth_hdr_len_def
        total fetch_def)
  then show ?thesis using that by blast
qed

lemma ip_payload_inside_iff_witness:
  "\<exists>r. ip_deserialize short_frame ip_example = Inr (True, r) \<and> \<not> view_ok (ip_payload r)
     \<and> view_size (ip_payload r) = 4294967276"
proof -
  obtain r where r: "ip_deserialize short_frame ip_example = Inr (True, r)" "eth_hdr_len r = 14"
    by (rule short_frame_accepted)
  have "length short_frame < 4294967276" by (simp add: short_frame_def)
  moreover have "claimed_length 14 short_frame = 0"
    by (simp add: claimed_length_def short_frame_def chunk_def of_be16_def of_bytes_def numeral_eq_Suc)
  ultimately show ?thesis using ip_payload_inside_iff [OF r(1)] r by simp
qed

definition icmp_example :: icmp_packet where
  "icmp_example = ip_packet.extend (ip_packet_construct (raw_packet.extend raw_packet_new
       (ip_packet.fields 4 5 0 0 0 True False 0 64 1 0 ip_nil ip_nil view_empty view_empty))
       \<lparr>packet_type := ICMP_PACKET, protocol := 1\<rparr>)
     (icmp_packet.fields 8 0 0 7 (view_of [1, 2, 3]))"

lemma icmp_checksum_valid_iff_witness:
  "\<exists>frame. icmp_serialize icmp_example = Inr frame \<and> length frame = 45 \<and>
     checksum_valid (drop 34 frame) = (last (drop 34 frame) = 0)"
proof -
  have ex: "plain_ipv4 icmp_example" "sent_type icmp_example = Inr 0x0800" "view_ok (icmp_data icmp_example)"
    "view_size (ip_options icmp_example) = 0" "eth_hdr_len icmp_example = 14" "view_size (icmp_data icmp_example) = 3"
    by (simp_all add: icmp_example_def ip_packet_construct_def ip_packet_init_def raw_packet_clear_def raw_packet_new_def
        raw_packet.defs ip_packet.defs icmp_packet.defs plain_ipv4_def sent_type_def eth_hdr_len_def)
  obtain eth where eth: "raw_serialize icmp_example = Inr eth"
    "\<And>n. ip_serialize_special icmp_example n = Inr (eth @ ip_header icmp_example n (checksum_ip (ip_header icmp_example n 0)))"
    using plain_ipv4_special [OF ex(1,2)] by metis
  from length_raw_serialize [OF eth(1)] have len: "length eth = 14" by (simp add: ex)
  have "length (icmp_message icmp_example (content (icmp_data icmp_example))) = 11"
    using ex(3,6) by (simp add: icmp_message_def Let_def icmp_header_def)
  then obtain frame where f: "icmp_serialize icmp_example = Inr frame" "length frame = 45"
    using ex(3) by (simp add: icmp_serialize_def eth(2) len)
  then have "length frame < 65536" by simp
  from icmp_checksum_valid_iff [OF f(1) ex(4) this] f show ?thesis by (auto simp: ex(5))
qed

end
