(* ===== verification/Autobuf.thy ===== *)
theory Autobuf
  imports Strings
begin

text \<open>
  \<open>common/autobuf.{h,cpp}\<close>, the buffer behind every message and packet. A buffer owns its memory, shares that of
  another object for writing, or reads that of another object; so the model has an explicit memory of allocated
  blocks, and pointers into them. An access outside a block, or to one that has been freed, is a fault.
  \<open>junk\<close> is what new memory holds. Sizes are \<open>uint32_t\<close>: naturals, with the wrap written out.
\<close>

section \<open>Memory\<close>

text \<open>A pointer is a block and an offset into it, or None for the null pointer.\<close>

type_synonym ptr = "(nat \<times> nat) option"

record memory =
  blocks :: "nat \<Rightarrow> byte list option"
  next_block :: nat

definition ptr_add :: "ptr \<Rightarrow> nat \<Rightarrow> ptr" where
  "ptr_add p n = map_option (\<lambda>(b, i). (b, i + n)) p"

definition mem_load :: "memory \<Rightarrow> ptr \<Rightarrow> nat \<Rightarrow> byte list res" where
  "mem_load m p n =
    (if n = 0 then Inr []
     else case p of None \<Rightarrow> Inl OutOfBounds
     | Some (b, i) \<Rightarrow> (case blocks m b of None \<Rightarrow> Inl OutOfBounds | Some bs \<Rightarrow> fetch i n bs))"

definition mem_store :: "ptr \<Rightarrow> byte list \<Rightarrow> memory \<Rightarrow> memory res" where
  "mem_store p new m =
    (if new = [] then Inr m
     else case p of None \<Rightarrow> Inl OutOfBounds
     | Some (b, i) \<Rightarrow> (case blocks m b of None \<Rightarrow> Inl OutOfBounds
        | Some bs \<Rightarrow> if i + length new \<le> length bs then Inr (m\<lparr>blocks := (blocks m)(b := Some (blit i new bs))\<rparr>)
            else Inl OutOfBounds))"

text \<open>\<open>free\<close> wants the start of an allocated block; freeing null does nothing.\<close>

definition mem_free :: "ptr \<Rightarrow> memory \<Rightarrow> memory res" where
  "mem_free p m =
    (case p of None \<Rightarrow> Inr m
     | Some (b, i) \<Rightarrow> if i = 0 \<and> blocks m b \<noteq> None then Inr (m\<lparr>blocks := (blocks m)(b := None)\<rparr>) else Inl OutOfBounds)"

text \<open>\<open>realloc\<close> moves what is there to a new block and frees the old one; with size zero it only frees, and
  returns null. Memory does not run out.\<close>

definition mem_realloc :: "(nat \<Rightarrow> byte) \<Rightarrow> ptr \<Rightarrow> nat \<Rightarrow> memory \<Rightarrow> (ptr \<times> memory) res" where
  "mem_realloc junk p n m =
    (let new = next_block m; fill = map junk [0..<n] in
     case p of None \<Rightarrow> Inr (Some (new, 0), m\<lparr>blocks := (blocks m)(new := Some fill), next_block := Suc new\<rparr>)
     | Some (b, i) \<Rightarrow> (case blocks m b of None \<Rightarrow> Inl OutOfBounds
        | Some old \<Rightarrow> if i \<noteq> 0 then Inl OutOfBounds
            else if n = 0 then Inr (None, m\<lparr>blocks := (blocks m)(b := None)\<rparr>)
            else Inr (Some (new, 0), m\<lparr>blocks := (blocks m)(b := None, new := Some (take n old @ drop (length old) fill)),
                   next_block := Suc new\<rparr>)))"

section \<open>The buffer\<close>

record autobuf =
  read_only :: bool
  read_only_buf :: ptr
  owns_memory :: bool
  writeable_buf :: ptr
  buf_size :: nat
  content_size :: nat
  begin_offset :: nat
  dummy_ret :: byte

text \<open>\<open>init()\<close>; \<open>dummy_ret\<close> is where writes into a read-only buffer go.\<close>

definition autobuf_init :: autobuf where
  "autobuf_init = \<lparr>read_only = False, read_only_buf = None, owns_memory = True, writeable_buf = None, buf_size = 0,
     content_size = 0, begin_offset = 0, dummy_ret = 0\<rparr>"

definition BUFFER_INCREMENT_SIZE :: nat where "BUFFER_INCREMENT_SIZE = 4096"

definition pages :: "nat \<Rightarrow> nat" where
  "pages n = n div BUFFER_INCREMENT_SIZE + (if 0 < n mod BUFFER_INCREMENT_SIZE then 1 else 0)"

text \<open>\<open>alloc\<close>: an owned buffer moves its contents to the front and grows by pages; a shared one only checks.\<close>

definition ab_alloc :: "(nat \<Rightarrow> byte) \<Rightarrow> nat \<Rightarrow> autobuf \<times> memory \<Rightarrow> (bool \<times> autobuf \<times> memory) res" where
  "ab_alloc junk n = (\<lambda>(b, m).
    if read_only b then Inr (False, b, m)
    else if \<not> owns_memory b then Inr (\<not> buf_size b < u32 (begin_offset b + n), b, m)
    else bindr (if 0 < begin_offset b
        then bindr (mem_load m (ptr_add (writeable_buf b) (begin_offset b)) (content_size b)) (\<lambda>c.
             bindr (mem_store (writeable_buf b) c m) (\<lambda>m'. Inr (b\<lparr>begin_offset := 0\<rparr>, m')))
        else Inr (b, m)) (\<lambda>(b, m).
      if u32 (begin_offset b + n) \<le> buf_size b then Inr (True, b, m)
      else let required = u32 (pages n * BUFFER_INCREMENT_SIZE) in
        bindr (mem_realloc junk (writeable_buf b) required m) (\<lambda>(p, m').
          if p = None then Inr (False, b, m')
          else Inr (True, b\<lparr>writeable_buf := p, buf_size := required\<rparr>, m'))))"

definition get_content_ptr :: "autobuf \<Rightarrow> ptr" where
  "get_content_ptr b = ptr_add (if read_only b then read_only_buf b else writeable_buf b) (begin_offset b)"

definition ptr_offset_const :: "autobuf \<Rightarrow> int \<Rightarrow> ptr res" where
  "ptr_offset_const b i =
    (if i < 0 then Inl Aborted
     else Inr (ptr_add (if read_only b then read_only_buf b else writeable_buf b) (begin_offset b + nat i)))"

definition get_content_ptr_mutable :: "autobuf \<Rightarrow> ptr res" where
  "get_content_ptr_mutable b = (if read_only b then Inl Aborted else Inr (ptr_add (writeable_buf b) (begin_offset b)))"

definition ptr_offset_mutable :: "autobuf \<Rightarrow> int \<Rightarrow> ptr res" where
  "ptr_offset_mutable b i =
    (if read_only b then Inl Aborted
     else if i < 0 \<or> int32 (content_size b) \<le> i then Inl Aborted
     else Inr (ptr_add (writeable_buf b) (begin_offset b + nat i)))"

text \<open>\<open>reset\<close>, which is also the destructor.\<close>

definition ab_reset :: "autobuf \<times> memory \<Rightarrow> (autobuf \<times> memory) res" where
  "ab_reset = (\<lambda>(b, m).
    bindr (if owns_memory b \<and> writeable_buf b \<noteq> None then mem_free (writeable_buf b) m else Inr m) (\<lambda>m'.
      Inr (autobuf_init, m')))"

definition ab_set_content :: "(nat \<Rightarrow> byte) \<Rightarrow> ptr \<Rightarrow> nat \<Rightarrow> autobuf \<times> memory \<Rightarrow> (autobuf \<times> memory) res" where
  "ab_set_content junk src n = (\<lambda>(b, m).
    if read_only b then Inl Aborted
    else bindr (ab_alloc junk n (b, m)) (\<lambda>(ok, b, m).
      if \<not> ok then Inl Aborted
      else bindr (get_content_ptr_mutable b) (\<lambda>p. bindr (mem_load m src n) (\<lambda>bs. bindr (mem_store p bs m) (\<lambda>m'.
        Inr (b\<lparr>content_size := n, begin_offset := 0\<rparr>, m'))))))"

section \<open>Construction and copies\<close>

definition autobuf_from :: "(nat \<Rightarrow> byte) \<Rightarrow> ptr \<Rightarrow> nat \<Rightarrow> memory \<Rightarrow> (autobuf \<times> memory) res" where
  "autobuf_from junk src n m = ab_set_content junk src n (autobuf_init, m)"

definition constructor_copy :: "(nat \<Rightarrow> byte) \<Rightarrow> autobuf \<Rightarrow> autobuf \<times> memory \<Rightarrow> (autobuf \<times> memory) res" where
  "constructor_copy junk original = (\<lambda>(b, m).
    if owns_memory original then
      bindr (ab_alloc junk (content_size original) (b\<lparr>owns_memory := True\<rparr>, m)) (\<lambda>(_, b, m).
      bindr (mem_load m (get_content_ptr original) (content_size original)) (\<lambda>bs.
      bindr (mem_store (writeable_buf b) bs m) (\<lambda>m'. Inr (b\<lparr>content_size := content_size original\<rparr>, m'))))
    else if \<not> read_only original then
      Inr (b\<lparr>owns_memory := False, read_only := False, content_size := content_size original,
        buf_size := buf_size original, writeable_buf := writeable_buf original, begin_offset := begin_offset original\<rparr>, m)
    else
      Inr (b\<lparr>read_only := True, read_only_buf := read_only_buf original, buf_size := buf_size original,
        content_size := content_size original, begin_offset := begin_offset original\<rparr>, m))"

definition autobuf_copy :: "(nat \<Rightarrow> byte) \<Rightarrow> autobuf \<Rightarrow> memory \<Rightarrow> (autobuf \<times> memory) res" where
  "autobuf_copy junk original m = constructor_copy junk original (autobuf_init, m)"

text \<open>Assignment from another object; from itself it does nothing.\<close>

definition ab_assign :: "(nat \<Rightarrow> byte) \<Rightarrow> autobuf \<Rightarrow> autobuf \<times> memory \<Rightarrow> (autobuf \<times> memory) res" where
  "ab_assign junk original s = bindr (ab_reset s) (constructor_copy junk original)"

definition copy_as_owned :: "(nat \<Rightarrow> byte) \<Rightarrow> autobuf \<Rightarrow> memory \<Rightarrow> (autobuf \<times> memory) res" where
  "copy_as_owned junk b m = ab_set_content junk (get_content_ptr b) (content_size b) (autobuf_init, m)"

definition ab_reserve_size :: "autobuf \<Rightarrow> nat" where
  "ab_reserve_size b = (if read_only b then 0 else buf_size b)"

definition ab_slack_size :: "autobuf \<Rightarrow> nat" where
  "ab_slack_size b = (if read_only b then 0 else u32 (buf_size b + 2 ^ 32 - content_size b))"

definition copy_as_shared :: "autobuf \<Rightarrow> autobuf res" where
  "copy_as_shared b = bindr (get_content_ptr_mutable b) (\<lambda>p.
     Inr (autobuf_init\<lparr>owns_memory := False, writeable_buf := p, content_size := content_size b,
       buf_size := ab_reserve_size b\<rparr>))"

definition copy_as_read_only :: "autobuf \<Rightarrow> autobuf" where
  "copy_as_read_only b = autobuf_init\<lparr>owns_memory := False, read_only := True, read_only_buf := get_content_ptr b,
     content_size := content_size b\<rparr>"

definition full_copy_to :: "(nat \<Rightarrow> byte) \<Rightarrow> autobuf \<Rightarrow> autobuf \<times> memory \<Rightarrow> (autobuf \<times> memory) res" where
  "full_copy_to junk b dest = bindr (ab_reset dest) (ab_set_content junk (get_content_ptr b) (content_size b))"

definition full_copy_from :: "(nat \<Rightarrow> byte) \<Rightarrow> autobuf \<Rightarrow> autobuf \<times> memory \<Rightarrow> (autobuf \<times> memory) res" where
  "full_copy_from junk src s = bindr (ab_reset s) (ab_set_content junk (get_content_ptr src) (content_size src))"

definition ab_equal :: "memory \<Rightarrow> autobuf \<Rightarrow> autobuf \<Rightarrow> bool res" where
  "ab_equal m a b =
    (if content_size a \<noteq> content_size b then Inr False
     else bindr (mem_load m (get_content_ptr a) (content_size a)) (\<lambda>x.
       bindr (mem_load m (get_content_ptr b) (content_size a)) (\<lambda>y. Inr (x = y))))"

definition ab_clear :: "autobuf \<Rightarrow> autobuf res" where
  "ab_clear b = (if read_only b then Inl Aborted else Inr (b\<lparr>content_size := 0\<rparr>))"

definition ab_inherit_read_only :: "ptr \<Rightarrow> nat \<Rightarrow> autobuf \<times> memory \<Rightarrow> (autobuf \<times> memory) res" where
  "ab_inherit_read_only src n s = bindr (ab_reset s) (\<lambda>(b, m).
     Inr (b\<lparr>read_only := True, read_only_buf := src, content_size := n, buf_size := n\<rparr>, m))"

definition ab_inherit_shared :: "ptr \<Rightarrow> nat \<Rightarrow> nat \<Rightarrow> autobuf \<times> memory \<Rightarrow> (autobuf \<times> memory) res" where
  "ab_inherit_shared src n max_size s = bindr (ab_reset s) (\<lambda>(b, m).
     Inr (b\<lparr>owns_memory := False, writeable_buf := src, content_size := n,
       buf_size := (if max_size = 0 then n else max_size)\<rparr>, m))"

section \<open>Copying in and out\<close>

definition memcpy_from :: "ptr \<Rightarrow> nat \<Rightarrow> nat \<Rightarrow> autobuf \<times> memory \<Rightarrow> (autobuf \<times> memory) res" where
  "memcpy_from src n off = (\<lambda>(b, m).
    if read_only b then Inl Aborted
    else if buf_size b < n + begin_offset b + off then Inl Aborted
    else bindr (ptr_offset_mutable b (int32 off)) (\<lambda>p. bindr (mem_load m src n) (\<lambda>bs. bindr (mem_store p bs m) (\<lambda>m'.
      Inr (b, m')))))"

text \<open>What is copied out of the buffer; the sum of offset and length wraps.\<close>

definition read_at :: "memory \<Rightarrow> autobuf \<Rightarrow> nat \<Rightarrow> nat \<Rightarrow> byte list res" where
  "read_at m b off n = bindr (ptr_offset_const b (int32 off)) (\<lambda>p. mem_load m p n)"

definition memcpy_to :: "memory \<Rightarrow> autobuf \<Rightarrow> nat \<Rightarrow> nat \<Rightarrow> byte list res" where
  "memcpy_to m b n off =
    (if content_size b < u32 (off + n) then Inl Aborted
     else if (if read_only b then read_only_buf b else writeable_buf b) = None then Inl Aborted
     else read_at m b off n)"

definition ab_read_front :: "memory \<Rightarrow> autobuf \<Rightarrow> nat \<Rightarrow> byte list res" where
  "ab_read_front m b n = (if content_size b < n then Inl Aborted else mem_load m (get_content_ptr b) n)"

definition ab_read_rear :: "memory \<Rightarrow> autobuf \<Rightarrow> nat \<Rightarrow> byte list res" where
  "ab_read_rear m b n = (if content_size b < n then Inl Aborted else read_at m b (content_size b - n) n)"

definition ab_read :: "memory \<Rightarrow> autobuf \<Rightarrow> nat \<Rightarrow> nat \<Rightarrow> byte list res" where
  "ab_read m b off n = (if content_size b < u32 (off + n) then Inl Aborted else read_at m b off n)"

text \<open>The same, into another buffer.\<close>

definition ab_read_front_into :: "(nat \<Rightarrow> byte) \<Rightarrow> autobuf \<Rightarrow> nat \<Rightarrow> autobuf \<times> memory \<Rightarrow> (autobuf \<times> memory) res" where
  "ab_read_front_into junk b n dest = (if content_size b < n then Inl Aborted else ab_set_content junk (get_content_ptr b) n dest)"

definition ab_read_rear_into :: "(nat \<Rightarrow> byte) \<Rightarrow> autobuf \<Rightarrow> nat \<Rightarrow> autobuf \<times> memory \<Rightarrow> (autobuf \<times> memory) res" where
  "ab_read_rear_into junk b n dest =
    (if content_size b < n then Inl Aborted
     else bindr (ptr_offset_const b (int32 (content_size b))) (\<lambda>p.
       ab_set_content junk (map_option (\<lambda>(k, i). (k, i - n)) p) n dest))"

definition ab_read_into :: "(nat \<Rightarrow> byte) \<Rightarrow> autobuf \<Rightarrow> nat \<Rightarrow> nat \<Rightarrow> autobuf \<times> memory \<Rightarrow> (autobuf \<times> memory) res" where
  "ab_read_into junk b off n dest =
    (if content_size b < u32 (off + n) then Inl Aborted
     else bindr (ptr_offset_const b (int32 off)) (\<lambda>p. ab_set_content junk p n dest))"

text \<open>\<open>operator[]\<close>: reading a byte, and writing one through the reference.\<close>

definition ab_at :: "memory \<Rightarrow> autobuf \<Rightarrow> int \<Rightarrow> byte res" where
  "ab_at m b i =
    (if i < 0 \<or> int32 (content_size b) \<le> i then Inl Aborted
     else bindr (mem_load m (ptr_add (if read_only b then read_only_buf b else writeable_buf b) (begin_offset b + nat i)) 1)
       (\<lambda>bs. Inr (hd bs)))"

definition ab_put :: "int \<Rightarrow> byte \<Rightarrow> autobuf \<times> memory \<Rightarrow> (autobuf \<times> memory) res" where
  "ab_put i x = (\<lambda>(b, m).
    if i < 0 \<or> int32 (content_size b) \<le> i then Inl Aborted
    else if read_only b then Inr (b\<lparr>dummy_ret := x\<rparr>, m)
    else bindr (mem_store (ptr_add (writeable_buf b) (begin_offset b + nat i)) [x] m) (\<lambda>m'. Inr (b, m')))"

section \<open>Trimming and concatenation\<close>

definition trim_front :: "nat \<Rightarrow> autobuf \<Rightarrow> autobuf" where
  "trim_front n b =
    (if content_size b \<le> n then b\<lparr>begin_offset := content_size b, content_size := 0\<rparr>
     else b\<lparr>begin_offset := u32 (begin_offset b + n), content_size := content_size b - n\<rparr>)"

definition trim_rear :: "nat \<Rightarrow> autobuf \<Rightarrow> autobuf" where
  "trim_rear n b = (if content_size b \<le> n then b\<lparr>content_size := 0\<rparr> else b\<lparr>content_size := content_size b - n\<rparr>)"

text \<open>The bytes are put after the contents; \<open>tail_put\<close> does not look at the size of the buffer.\<close>

definition tail_put :: "ptr \<Rightarrow> nat \<Rightarrow> nat \<Rightarrow> autobuf \<times> memory \<Rightarrow> (autobuf \<times> memory) res" where
  "tail_put src n new_size = (\<lambda>(b, m).
    bindr (mem_load m src n) (\<lambda>bs. bindr (mem_store (ptr_add (get_content_ptr b) (content_size b)) bs m) (\<lambda>m'.
      Inr (b\<lparr>content_size := new_size\<rparr>, m'))))"

definition ab_append_buf :: "(nat \<Rightarrow> byte) \<Rightarrow> autobuf \<Rightarrow> autobuf \<times> memory \<Rightarrow> (autobuf \<times> memory) res" where
  "ab_append_buf junk other = (\<lambda>(b, m).
    if read_only b then Inl Aborted
    else if content_size other = 0 then Inr (b, m)
    else if content_size b = 0 then ab_set_content junk (get_content_ptr other) (content_size other) (b, m)
    else let total_size = u32 (content_size b + content_size other) in
      bindr (ab_alloc junk total_size (b, m)) (\<lambda>(ok, b, m).
        if \<not> ok then Inl Aborted else tail_put (get_content_ptr other) (content_size other) total_size (b, m)))"

text \<open>Appending a buffer to itself doubles it.\<close>

definition ab_append_self :: "(nat \<Rightarrow> byte) \<Rightarrow> autobuf \<times> memory \<Rightarrow> (autobuf \<times> memory) res" where
  "ab_append_self junk = (\<lambda>(b, m).
    if read_only b then Inl Aborted
    else if content_size b = 0 then Inr (b, m)
    else bindr (ab_alloc junk (u32 (2 * content_size b)) (b, m)) (\<lambda>(ok, b, m).
      if \<not> ok then Inl Aborted else tail_put (get_content_ptr b) (content_size b) (u32 (2 * content_size b)) (b, m)))"

definition ab_plus :: "(nat \<Rightarrow> byte) \<Rightarrow> autobuf \<Rightarrow> autobuf \<Rightarrow> memory \<Rightarrow> (autobuf \<times> memory) res" where
  "ab_plus junk a other m =
    bindr (ab_set_content junk (get_content_ptr a) (content_size a) (autobuf_init, m)) (ab_append_buf junk other)"

text \<open>\<open>append\<close> does not look at the result of \<open>alloc\<close>.\<close>

definition ab_append :: "(nat \<Rightarrow> byte) \<Rightarrow> ptr \<Rightarrow> nat \<Rightarrow> autobuf \<times> memory \<Rightarrow> (autobuf \<times> memory) res" where
  "ab_append junk src n = (\<lambda>(b, m).
    if read_only b then Inl Aborted
    else if n = 0 then Inr (b, m)
    else bindr (ab_alloc junk (u32 (content_size b + n)) (b, m)) (\<lambda>(_, b, m).
      tail_put src n (u32 (content_size b + n)) (b, m)))"

definition ab_prepend :: "(nat \<Rightarrow> byte) \<Rightarrow> ptr \<Rightarrow> nat \<Rightarrow> autobuf \<times> memory \<Rightarrow> (autobuf \<times> memory) res" where
  "ab_prepend junk src n = (\<lambda>(b, m).
    if read_only b then Inl Aborted
    else if n = 0 then Inr (b, m)
    else if n \<le> begin_offset b then
      (let b' = b\<lparr>begin_offset := begin_offset b - n\<rparr> in
       bindr (mem_load m src n) (\<lambda>bs. bindr (mem_store (get_content_ptr b') bs m) (\<lambda>m'.
         Inr (b'\<lparr>content_size := u32 (content_size b + n)\<rparr>, m'))))
    else bindr (ab_alloc junk (u32 (content_size b + n)) (b, m)) (\<lambda>(ok, b, m).
      if \<not> ok then Inl Aborted
      else bindr (ptr_offset_mutable b (int32 n)) (\<lambda>p.
        bindr (mem_load m (get_content_ptr b) (content_size b)) (\<lambda>old. bindr (mem_store p old m) (\<lambda>m.
        bindr (mem_load m src n) (\<lambda>bs. bindr (mem_store (get_content_ptr b) bs m) (\<lambda>m.
          Inr (b\<lparr>content_size := u32 (content_size b + n)\<rparr>, m))))))))"

section \<open>Files, sizes and texts\<close>

text \<open>\<open>load\<close> from a file that holds \<open>file\<close>; None: it does not open. The read itself does not fail.\<close>

definition ab_load :: "(nat \<Rightarrow> byte) \<Rightarrow> byte list option \<Rightarrow> autobuf \<times> memory \<Rightarrow> (bool \<times> autobuf \<times> memory) res" where
  "ab_load junk file = (\<lambda>(b, m).
    if read_only b then Inl Aborted
    else bindr (ab_reset (b, m)) (\<lambda>(b, m).
      case file of None \<Rightarrow> Inr (False, b, m)
      | Some bs \<Rightarrow>
        if bs = [] then Inr (True, b, m)
        else bindr (ab_alloc junk (u32 (length bs)) (b, m)) (\<lambda>(ok, b, m).
          if \<not> ok then Inl Aborted
          else bindr (mem_store (writeable_buf b) bs m) (\<lambda>m'. Inr (True, b\<lparr>content_size := u32 (length bs)\<rparr>, m')))))"

text \<open>What \<open>save\<close> writes.\<close>

definition ab_save :: "memory \<Rightarrow> autobuf \<Rightarrow> byte list res" where
  "ab_save m b = mem_load m (get_content_ptr b) (content_size b)"

datatype ownership = READ_ONLY | SHARED | OWNED

definition get_ownership_type :: "autobuf \<Rightarrow> ownership" where
  "get_ownership_type b = (if read_only b then READ_ONLY else if owns_memory b then OWNED else SHARED)"

definition is_shared :: "autobuf \<Rightarrow> bool" where "is_shared b = (\<not> read_only b \<and> \<not> owns_memory b)"
definition is_owned :: "autobuf \<Rightarrow> bool" where "is_owned b = (\<not> read_only b \<and> owns_memory b)"

text \<open>\<open>reserve\<close>, \<open>create_empty_buffer\<close> and \<open>grow_buffer\<close> do not look at the result of \<open>alloc\<close> either.\<close>

definition ab_reserve :: "(nat \<Rightarrow> byte) \<Rightarrow> nat \<Rightarrow> autobuf \<times> memory \<Rightarrow> (autobuf \<times> memory) res" where
  "ab_reserve junk n s = bindr (ab_alloc junk n s) (\<lambda>(_, s'). Inr s')"

definition create_empty_buffer :: "(nat \<Rightarrow> byte) \<Rightarrow> nat \<Rightarrow> bool \<Rightarrow> autobuf \<times> memory \<Rightarrow> (autobuf \<times> memory) res" where
  "create_empty_buffer junk n zero s = bindr (ab_reserve junk n s) (\<lambda>(b, m).
     let b' = b\<lparr>content_size := n\<rparr> in
     if zero then bindr (get_content_ptr_mutable b') (\<lambda>p. bindr (mem_store p (replicate n 0) m) (\<lambda>m'. Inr (b', m')))
     else Inr (b', m))"

definition grow_buffer :: "(nat \<Rightarrow> byte) \<Rightarrow> nat \<Rightarrow> bool \<Rightarrow> autobuf \<times> memory \<Rightarrow> (autobuf \<times> memory) res" where
  "grow_buffer junk n zero s =
    (let old_size = content_size (fst s) in
     bindr (create_empty_buffer junk n False s) (\<lambda>(b, m).
       if zero \<and> old_size < n
       then bindr (ptr_offset_mutable b (int32 old_size)) (\<lambda>p.
         bindr (mem_store p (replicate (n - old_size) 0) m) (\<lambda>m'. Inr (b, m')))
       else Inr (b, m)))"

definition ab_shrink :: "(nat \<Rightarrow> byte) \<Rightarrow> autobuf \<times> memory \<Rightarrow> (autobuf \<times> memory) res" where
  "ab_shrink junk = (\<lambda>(b, m).
    if read_only b then Inr (b, m)
    else if \<not> owns_memory b then Inl Aborted
    else if content_size b = 0 then ab_reset (b, m)
    else if pages (buf_size b) < pages (content_size b) then
      bindr (if 0 < begin_offset b
        then bindr (mem_load m (get_content_ptr b) (content_size b)) (\<lambda>c. bindr (mem_store (writeable_buf b) c m) (\<lambda>m'.
          Inr (b\<lparr>begin_offset := 0\<rparr>, m')))
        else Inr (b, m)) (\<lambda>(b, m).
      let total_bytes = u32 (pages (content_size b) * BUFFER_INCREMENT_SIZE) in
      bindr (mem_realloc junk (writeable_buf b) total_bytes m) (\<lambda>(p, m').
        if p = None then Inl Aborted else Inr (b\<lparr>buf_size := total_bytes\<rparr>, m')))
    else Inr (b, m))"

text \<open>The loops of \<open>to_string\<close> and \<open>to_hex\<close> read the bytes one by one.\<close>

primrec each_byte :: "memory \<Rightarrow> autobuf \<Rightarrow> nat list \<Rightarrow> byte list res" where
  "each_byte m b [] = Inr []"
| "each_byte m b (i # is) = bindr (read_at m b i 1) (\<lambda>x. bindr (each_byte m b is) (\<lambda>xs. Inr (x @ xs)))"

definition ab_to_string :: "memory \<Rightarrow> autobuf \<Rightarrow> string res" where
  "ab_to_string m b = bindr (each_byte m b [0..<content_size b]) (\<lambda>bs. Inr (map (\<lambda>x. char_of (unat x)) bs))"

definition hex_cell :: "nat \<Rightarrow> byte \<Rightarrow> string" where
  "hex_cell i x = (if i mod 8 = 4 then ''   '' else []) @ (if i mod 8 = 0 \<and> i \<noteq> 0 then [CHR 0x0A] else []) @ hex2 x @ '' ''"

definition ab_to_hex :: "memory \<Rightarrow> autobuf \<Rightarrow> string res" where
  "ab_to_hex m b = bindr (each_byte m b [0..<content_size b]) (\<lambda>bs. Inr (concat (map2 hex_cell [0..<length bs] bs)))"

section \<open>Owned buffers\<close>

text \<open>The invariant of a buffer that owns its memory, with no block allocated from \<open>next_block\<close> on; the bytes it
  holds; and the block it owns.\<close>

definition owned_ok :: "autobuf \<times> memory \<Rightarrow> bool" where
  "owned_ok = (\<lambda>(b, m). \<not> read_only b \<and> owns_memory b \<and> begin_offset b + content_size b \<le> buf_size b \<and> buf_size b < 2 ^ 32
     \<and> (\<forall>k \<ge> next_block m. blocks m k = None)
     \<and> (case writeable_buf b of None \<Rightarrow> buf_size b = 0
        | Some (k, i) \<Rightarrow> i = 0 \<and> (case blocks m k of None \<Rightarrow> False | Some bs \<Rightarrow> length bs = buf_size b)))"

definition block_of :: "autobuf \<times> memory \<Rightarrow> byte list" where
  "block_of = (\<lambda>(b, m). case writeable_buf b of None \<Rightarrow> []
     | Some (k, _) \<Rightarrow> (case blocks m k of None \<Rightarrow> [] | Some bs \<Rightarrow> bs))"

definition contents :: "autobuf \<times> memory \<Rightarrow> byte list" where
  "contents s = chunk (begin_offset (fst s)) (content_size (fst s)) (block_of s)"

definition own :: "autobuf \<times> memory \<Rightarrow> nat set" where
  "own s = (case writeable_buf (fst s) of None \<Rightarrow> {} | Some (k, _) \<Rightarrow> {k})"

text \<open>An operation leaves the blocks of others alone; a block it comes to own is a new one.\<close>

definition keeps :: "autobuf \<times> memory \<Rightarrow> autobuf \<times> memory \<Rightarrow> bool" where
  "keeps s s' = ((\<forall>k. k \<notin> own s \<longrightarrow> k < next_block (snd s) \<longrightarrow> blocks (snd s') k = blocks (snd s) k)
     \<and> (\<forall>k \<in> own s'. k \<in> own s \<or> next_block (snd s) \<le> k) \<and> next_block (snd s) \<le> next_block (snd s'))"

lemma keeps_refl [simp]: "keeps s s"
  by (simp add: keeps_def)

lemma keeps_trans:
  assumes "keeps s t" "keeps t u"
  shows "keeps s u"
proof -
  have "blocks (snd u) k = blocks (snd s) k" if "k \<notin> own s" "k < next_block (snd s)" for k
  proof -
    have "k \<notin> own t" "k < next_block (snd t)" using assms(1) that unfolding keeps_def by (meson leD, linarith)
    then show ?thesis using assms that unfolding keeps_def by metis
  qed
  moreover have "\<forall>k \<in> own u. k \<in> own s \<or> next_block (snd s) \<le> k" using assms unfolding keeps_def by (meson le_trans)
  moreover have "next_block (snd s) \<le> next_block (snd u)" using assms unfolding keeps_def by linarith
  ultimately show ?thesis by (simp add: keeps_def)
qed

lemma owned_ok_resize:
  "owned_ok (b, m) \<Longrightarrow> begin_offset b' + content_size b' \<le> buf_size b \<Longrightarrow> read_only b' = read_only b
    \<Longrightarrow> owns_memory b' = owns_memory b \<Longrightarrow> buf_size b' = buf_size b \<Longrightarrow> writeable_buf b' = writeable_buf b \<Longrightarrow> owned_ok (b', m)"
  by (auto simp: owned_ok_def split: option.splits)

lemma owned_ok_fresh: "owned_ok s \<Longrightarrow> next_block (snd s) \<le> k \<Longrightarrow> blocks (snd s) k = None"
  by (cases s) (simp add: owned_ok_def)

lemma owned_ok_block:
  assumes "owned_ok s" "writeable_buf (fst s) \<noteq> None"
  obtains k bs where "writeable_buf (fst s) = Some (k, 0)" "blocks (snd s) k = Some bs" "length bs = buf_size (fst s)"
    "block_of s = bs" "own s = {k}" "k < next_block (snd s)"
proof -
  obtain b m where s: "s = (b, m)" by (cases s)
  from assms obtain k bs where kb: "writeable_buf b = Some (k, 0)" "blocks m k = Some bs" "length bs = buf_size b"
    unfolding owned_ok_def s by (auto split: option.splits)
  have "k < next_block m" using owned_ok_fresh [OF assms(1), of k] kb(2) by (cases "k < next_block m") (simp_all add: s)
  with kb show ?thesis using that [of k bs] by (simp add: s block_of_def own_def)
qed

lemma owned_ok_null:
  "owned_ok s \<Longrightarrow> writeable_buf (fst s) = None \<Longrightarrow> buf_size (fst s) = 0 \<and> content_size (fst s) = 0 \<and> begin_offset (fst s) = 0
     \<and> contents s = [] \<and> own s = {}"
  by (cases s) (simp add: owned_ok_def contents_def block_of_def own_def chunk_def)

lemma length_block_of: "owned_ok s \<Longrightarrow> length (block_of s) = buf_size (fst s)"
  by (cases s) (auto simp: owned_ok_def block_of_def split: option.splits)

lemma length_contents [simp]: "owned_ok s \<Longrightarrow> length (contents s) = content_size (fst s)"
  using length_block_of [of s] by (cases s) (simp add: contents_def owned_ok_def)

text \<open>Reading and writing inside the own block.\<close>

lemma load_own:
  assumes "owned_ok s" "i + n \<le> buf_size (fst s)"
  shows "mem_load (snd s) (ptr_add (writeable_buf (fst s)) i) n = Inr (chunk i n (block_of s))"
proof (cases "writeable_buf (fst s) = None")
  case True
  with assms show ?thesis using owned_ok_null [OF assms(1)] by (simp add: mem_load_def)
next
  case False
  then obtain k bs where "writeable_buf (fst s) = Some (k, 0)" "blocks (snd s) k = Some bs" "length bs = buf_size (fst s)"
    "block_of s = bs" by (rule owned_ok_block [OF assms(1)])
  with assms show ?thesis by (simp add: mem_load_def ptr_add_def)
qed

lemma store_own:
  assumes "owned_ok (b, m)" "i + length new \<le> buf_size b"
  obtains m' where "mem_store (ptr_add (writeable_buf b) i) new m = Inr m'" "owned_ok (b, m')"
    "block_of (b, m') = blit i new (block_of (b, m))" "keeps (b, m) (b, m')" "next_block m' = next_block m"
proof (cases "new = []")
  case True
  with assms show ?thesis using that [of m] length_block_of [OF assms(1)] by (simp add: mem_store_def blit_def)
next
  case False
  then have "writeable_buf b \<noteq> None" using assms owned_ok_null [OF assms(1)] by (cases "writeable_buf b = None") simp_all
  then obtain k bs where kb: "writeable_buf b = Some (k, 0)" "blocks m k = Some bs" "length bs = buf_size b"
    "block_of (b, m) = bs" "own (b, m) = {k}" "k < next_block m" using owned_ok_block [OF assms(1)] by (metis fst_conv snd_conv)
  let ?m = "m\<lparr>blocks := (blocks m)(k := Some (blit i new bs))\<rparr>"
  have "mem_store (ptr_add (writeable_buf b) i) new m = Inr ?m"
    using False kb assms(2) by (simp add: mem_store_def ptr_add_def)
  moreover have "owned_ok (b, ?m)" using assms kb by (simp add: owned_ok_def)
  moreover have "block_of (b, ?m) = blit i new (block_of (b, m))" using kb by (simp add: block_of_def)
  moreover have "keeps (b, m) (b, ?m)" using kb by (simp add: keeps_def own_def)
  ultimately show ?thesis using that by simp
qed

text \<open>Memory outside the own block stays readable.\<close>

definition outside :: "autobuf \<times> memory \<Rightarrow> ptr \<Rightarrow> bool" where
  "outside s p = (case p of None \<Rightarrow> True | Some (k, _) \<Rightarrow> k \<notin> own s \<and> k < next_block (snd s))"

lemma load_kept:
  assumes "keeps s s'" "outside s p"
  shows "mem_load (snd s') p n = mem_load (snd s) p n \<and> outside s' p"
proof (cases p)
  case (Some q)
  obtain k i where q: "q = (k, i)" by (cases q)
  have k: "k \<notin> own s" "k < next_block (snd s)" using assms(2) by (simp_all add: outside_def Some q)
  then have "blocks (snd s') k = blocks (snd s) k" using assms(1) by (simp add: keeps_def)
  moreover have "k \<notin> own s'" using k assms(1) unfolding keeps_def by (meson leD)
  moreover have "k < next_block (snd s')" using k assms(1) unfolding keeps_def by linarith
  ultimately show ?thesis by (simp add: mem_load_def outside_def Some q)
qed (simp add: mem_load_def outside_def)

section \<open>Allocation\<close>

text \<open>The largest number of bytes whose pages do not wrap to zero.\<close>

definition max_content :: nat where "max_content = 2 ^ 32 - 4096"

lemma pages_bounds:
  "n \<le> pages n * BUFFER_INCREMENT_SIZE" "n \<le> max_content \<Longrightarrow> pages n * BUFFER_INCREMENT_SIZE < 2 ^ 32"
proof -
  have n: "n = n div 4096 * 4096 + n mod 4096" by simp
  moreover have "n mod 4096 < 4096" by simp
  ultimately have "n \<le> n div 4096 * 4096 + 4096" "n mod 4096 = 0 \<Longrightarrow> n \<le> n div 4096 * 4096" by linarith+
  then show "n \<le> pages n * BUFFER_INCREMENT_SIZE"
    unfolding pages_def BUFFER_INCREMENT_SIZE_def by (cases "n mod 4096 = 0") (simp_all only: add_mult_distrib if_True if_False, simp_all)
  assume "n \<le> max_content"
  then have le: "n \<le> 1048575 * 4096" by (simp add: max_content_def)
  have "pages n \<le> 1048575"
  proof (cases "n mod 4096 = 0")
    case True
    have "n div 4096 \<le> 1048575 * 4096 div 4096" by (rule div_le_mono [OF le])
    then show ?thesis using True by (simp add: pages_def BUFFER_INCREMENT_SIZE_def)
  next
    case False
    with le have "n < 1048575 * 4096" by (cases "n = 1048575 * 4096") auto
    then have "n div 4096 < 1048575" by (simp add: less_mult_imp_div_less)
    then show ?thesis by (simp add: pages_def BUFFER_INCREMENT_SIZE_def)
  qed
  then have "pages n * 4096 \<le> 1048575 * 4096" by (rule mult_le_mono1)
  then show "pages n * BUFFER_INCREMENT_SIZE < 2 ^ 32" by (simp add: BUFFER_INCREMENT_SIZE_def)
qed

text \<open>The first part of \<open>alloc\<close> moves the contents to the front.\<close>

lemma move_to_front:
  assumes "owned_ok (b, m)"
  obtains b' m' where "(if 0 < begin_offset b
        then bindr (mem_load m (ptr_add (writeable_buf b) (begin_offset b)) (content_size b)) (\<lambda>c.
             bindr (mem_store (writeable_buf b) c m) (\<lambda>m'. Inr (b\<lparr>begin_offset := 0\<rparr>, m')))
        else Inr (b, m)) = Inr (b', m')" "b' = b\<lparr>begin_offset := 0\<rparr>" "owned_ok (b', m')"
    "contents (b', m') = contents (b, m)" "keeps (b, m) (b', m')"
proof (cases "0 < begin_offset b")
  case False
  then have "b\<lparr>begin_offset := 0\<rparr> = b" by simp
  then show ?thesis using that [of b m] assms False by simp
next
  case True
  let ?b = "b\<lparr>begin_offset := 0\<rparr>"
  have le: "begin_offset b + content_size b \<le> buf_size b" using assms by (simp add: owned_ok_def)
  have load: "mem_load m (ptr_add (writeable_buf b) (begin_offset b)) (content_size b) = Inr (contents (b, m))"
    using load_own [OF assms, of "begin_offset b" "content_size b"] le by (simp add: contents_def)
  have p: "ptr_add (writeable_buf b) 0 = writeable_buf b" by (simp add: ptr_add_def split_def option.map_ident)
  have len: "length (contents (b, m)) = content_size b" using assms by simp
  obtain m' where m': "mem_store (writeable_buf b) (contents (b, m)) m = Inr m'" "owned_ok (b, m')"
    "block_of (b, m') = blit 0 (contents (b, m)) (block_of (b, m))" "keeps (b, m) (b, m')"
    using store_own [OF assms, of 0 "contents (b, m)"] le len unfolding p by auto
  have "owned_ok (?b, m')" by (rule owned_ok_resize [OF m'(2)]) (use le in simp_all)
  moreover have "contents (?b, m') = contents (b, m)"
  proof -
    have "contents (?b, m') = chunk 0 (content_size b) (block_of (b, m'))" by (simp add: contents_def block_of_def)
    also have "\<dots> = contents (b, m)" unfolding m'(3) using len by (simp add: blit_def chunk_def)
    finally show ?thesis .
  qed
  moreover have "keeps (b, m) (?b, m')" using m'(4) by (simp add: keeps_def own_def)
  ultimately show ?thesis using that [of ?b m'] True load m'(1) by simp
qed

lemma alloc_owned:
  assumes "owned_ok (b, m)" "n \<le> max_content"
  obtains b' m' where "ab_alloc junk n (b, m) = Inr (True, b', m')" "owned_ok (b', m')" "begin_offset b' = 0"
    "content_size b' = content_size b" "n \<le> buf_size b'" "contents (b', m') = contents (b, m)" "keeps (b, m) (b', m')"
proof -
  from assms(1) have flags: "\<not> read_only b" "owns_memory b" by (simp_all add: owned_ok_def)
  obtain b1 m1 where front: "(if 0 < begin_offset b
        then bindr (mem_load m (ptr_add (writeable_buf b) (begin_offset b)) (content_size b)) (\<lambda>c.
             bindr (mem_store (writeable_buf b) c m) (\<lambda>m'. Inr (b\<lparr>begin_offset := 0\<rparr>, m')))
        else Inr (b, m)) = Inr (b1, m1)" "b1 = b\<lparr>begin_offset := 0\<rparr>" "owned_ok (b1, m1)"
    "contents (b1, m1) = contents (b, m)" "keeps (b, m) (b1, m1)"
    by (rule move_to_front [OF assms(1)])
  have n: "u32 (begin_offset b1 + n) = n" using assms(2) front(2) by (simp add: max_content_def)
  show ?thesis
  proof (cases "n \<le> buf_size b1")
    case True
    then show ?thesis using that [of b1 m1] front n flags by (simp add: ab_alloc_def)
  next
    case False
    let ?r = "pages n * BUFFER_INCREMENT_SIZE"
    have r: "u32 ?r = ?r" "n \<le> ?r" "?r < 2 ^ 32" using pages_bounds [of n] assms(2) by simp_all
    have pos: "0 < ?r" using False r(2) by linarith
    let ?fill = "map junk [0..<?r]"
    show ?thesis
    proof (cases "writeable_buf b1 = None")
      case True
      let ?b = "b1\<lparr>writeable_buf := Some (next_block m1, 0), buf_size := ?r\<rparr>"
      let ?m = "m1\<lparr>blocks := (blocks m1)(next_block m1 := Some ?fill), next_block := Suc (next_block m1)\<rparr>"
      note null = owned_ok_null [OF front(3)]
      have "ab_alloc junk n (b, m) = Inr (True, ?b, ?m)"
        unfolding ab_alloc_def prod.case front(1) using flags False n r True by (simp add: mem_realloc_def Let_def)
      moreover have "owned_ok (?b, ?m)" using front(3) null True r by (simp add: owned_ok_def)
      moreover have "contents (?b, ?m) = contents (b, m)" using null True front(4) by (simp add: contents_def chunk_def)
      moreover have "keeps (b1, m1) (?b, ?m)" by (simp add: keeps_def own_def)
      ultimately show ?thesis using that [of ?b ?m] front(2) r keeps_trans [OF front(5)] by simp
    next
      case some: False
      then obtain k bs where kb: "writeable_buf b1 = Some (k, 0)" "blocks m1 k = Some bs" "length bs = buf_size b1"
        "block_of (b1, m1) = bs" "own (b1, m1) = {k}" "k < next_block m1" using owned_ok_block [OF front(3)] by (metis fst_conv snd_conv)
      let ?bs = "take ?r bs @ drop (length bs) ?fill"
      let ?b = "b1\<lparr>writeable_buf := Some (next_block m1, 0), buf_size := ?r\<rparr>"
      let ?m = "m1\<lparr>blocks := (blocks m1)(k := None, next_block m1 := Some ?bs), next_block := Suc (next_block m1)\<rparr>"
      have len: "length bs < ?r" using False r(2) kb(3) by linarith
      have "ab_alloc junk n (b, m) = Inr (True, ?b, ?m)"
        unfolding ab_alloc_def prod.case front(1) using flags False n r kb pos by (simp add: mem_realloc_def Let_def)
      moreover have "owned_ok (?b, ?m)" using front(3) kb r len by (auto simp: owned_ok_def)
      moreover have "contents (?b, ?m) = contents (b, m)"
      proof -
        have "begin_offset b1 + content_size b1 \<le> length bs" using front(3) kb(3) by (simp add: owned_ok_def)
        then have "chunk (begin_offset b1) (content_size b1) ?bs = chunk (begin_offset b1) (content_size b1) bs"
          using len by (simp add: chunk_def)
        then show ?thesis using front(4) kb by (simp add: contents_def block_of_def)
      qed
      moreover have "keeps (b1, m1) (?b, ?m)" using kb by (simp add: keeps_def own_def)
      ultimately show ?thesis using that [of ?b ?m] front(2) r keeps_trans [OF front(5)] by simp
    qed
  qed
qed

section \<open>The operations as list operations\<close>

definition yields :: "(autobuf \<times> memory) res \<Rightarrow> autobuf \<times> memory \<Rightarrow> byte list \<Rightarrow> bool" where
  "yields r s xs = (\<exists>s'. r = Inr s' \<and> owned_ok s' \<and> contents s' = xs \<and> keeps s s')"

lemma yieldsI: "r = Inr s' \<Longrightarrow> owned_ok s' \<Longrightarrow> contents s' = xs \<Longrightarrow> keeps s s' \<Longrightarrow> yields r s xs"
  by (auto simp: yields_def)

lemma yields_after: "yields r t xs \<Longrightarrow> keeps s t \<Longrightarrow> yields r s xs"
  by (auto simp: yields_def intro: keeps_trans)

lemma contents_resized:
  "writeable_buf b' = writeable_buf b \<Longrightarrow> contents (b', m) = chunk (begin_offset b') (content_size b') (block_of (b, m))"
  by (simp add: contents_def block_of_def)

lemma keeps_resized: "writeable_buf b' = writeable_buf b \<Longrightarrow> keeps s (b, m) \<Longrightarrow> keeps s (b', m)"
  by (simp add: keeps_def own_def)

lemma owned_flags: "owned_ok (b, m) \<Longrightarrow> \<not> read_only b \<and> owns_memory b \<and> begin_offset b + content_size b \<le> buf_size b \<and> buf_size b < 2 ^ 32"
  by (simp add: owned_ok_def)

text \<open>Writing at an offset from the start of the contents, and giving the buffer a new extent.\<close>

lemma put_yields:
  assumes "owned_ok (b, m)" "begin_offset b + i + length new \<le> buf_size b" "writeable_buf b' = writeable_buf b"
    "begin_offset b' + content_size b' \<le> buf_size b" "read_only b' = read_only b" "owns_memory b' = owns_memory b"
    "buf_size b' = buf_size b"
  shows "yields (bindr (mem_store (ptr_add (writeable_buf b) (begin_offset b + i)) new m) (\<lambda>m'. Inr (b', m'))) (b, m)
    (chunk (begin_offset b') (content_size b') (blit (begin_offset b + i) new (block_of (b, m))))"
proof -
  obtain m' where m': "mem_store (ptr_add (writeable_buf b) (begin_offset b + i)) new m = Inr m'" "owned_ok (b, m')"
    "block_of (b, m') = blit (begin_offset b + i) new (block_of (b, m))" "keeps (b, m) (b, m')"
    using store_own [OF assms(1), of "begin_offset b + i" new] assms(2) by (auto simp: add.assoc)
  show ?thesis
    by (rule yieldsI [of _ "(b', m')"])
      (use m' assms in \<open>simp_all add: contents_resized [of b' b] keeps_resized [of b' b] owned_ok_resize [of b m' b']\<close>)
qed

lemma chunk_blit_front:
  "i + length new \<le> length bs \<Longrightarrow> chunk i (k + length new) (blit i new bs) = new @ chunk (i + length new) k bs"
  by (simp add: chunk_def blit_def ac_simps)

lemma set_content_yields:
  assumes "owned_ok s" "n \<le> max_content" "outside s src" "mem_load (snd s) src n = Inr bs"
  shows "yields (ab_set_content junk src n s) s bs"
proof -
  obtain b m where s: "s = (b, m)" by (cases s)
  note ok = assms(1) [unfolded s]
  obtain b1 m1 where a: "ab_alloc junk n (b, m) = Inr (True, b1, m1)" "owned_ok (b1, m1)" "begin_offset b1 = 0"
    "content_size b1 = content_size b" "n \<le> buf_size b1" "contents (b1, m1) = contents (b, m)" "keeps (b, m) (b1, m1)"
    by (rule alloc_owned [OF ok assms(2)])
  have load: "mem_load m1 src n = Inr bs" using load_kept [OF a(7), of src n] assms(3,4) s by simp
  then have len: "length bs = n" by (auto simp: mem_load_def fetch_def split: if_splits option.splits prod.splits)
  have "yields (bindr (mem_store (ptr_add (writeable_buf b1) (begin_offset b1 + 0)) bs m1) (\<lambda>m'.
      Inr (b1\<lparr>content_size := n, begin_offset := 0\<rparr>, m'))) (b1, m1)
    (chunk 0 n (blit 0 bs (block_of (b1, m1))))"
    using put_yields [OF a(2), of 0 bs "b1\<lparr>content_size := n, begin_offset := 0\<rparr>"] a(3,5) len by simp
  moreover have "chunk 0 n (blit 0 bs (block_of (b1, m1))) = bs" using len by (simp add: chunk_def blit_def)
  ultimately show ?thesis
    using yields_after [OF _ a(7)] a(1,3) load owned_flags [OF ok] owned_flags [OF a(2)]
    by (simp add: ab_set_content_def get_content_ptr_mutable_def s)
qed

lemma tail_put_yields:
  assumes "owned_ok (b, m)" "content_size b + n \<le> buf_size b" "begin_offset b = 0" "mem_load m src n = Inr bs"
  shows "yields (tail_put src n (content_size b + n) (b, m)) (b, m) (contents (b, m) @ bs)"
proof -
  have len: "length bs = n" using assms(4) by (auto simp: mem_load_def fetch_def split: if_splits option.splits prod.splits)
  have blk: "length (block_of (b, m)) = buf_size b" using length_block_of [OF assms(1)] by simp
  have "yields (bindr (mem_store (ptr_add (writeable_buf b) (begin_offset b + content_size b)) bs m) (\<lambda>m'.
      Inr (b\<lparr>content_size := content_size b + n\<rparr>, m'))) (b, m)
    (chunk 0 (content_size b + n) (blit (content_size b) bs (block_of (b, m))))"
    using put_yields [OF assms(1), of "content_size b" bs "b\<lparr>content_size := content_size b + n\<rparr>"] assms(2,3) len by simp
  moreover have "chunk 0 (content_size b + n) (blit (content_size b) bs (block_of (b, m))) = contents (b, m) @ bs"
    using assms(2,3) len blk by (simp add: chunk_def blit_def contents_def)
  moreover have "ptr_add (get_content_ptr b) (content_size b) = ptr_add (writeable_buf b) (begin_offset b + content_size b)"
    using owned_flags [OF assms(1)] by (cases "writeable_buf b") (auto simp: get_content_ptr_def ptr_add_def)
  ultimately show ?thesis using assms(4) by (simp add: tail_put_def)
qed

lemma append_yields:
  assumes "owned_ok s" "length (contents s) + n \<le> max_content" "outside s src" "mem_load (snd s) src n = Inr bs"
  shows "yields (ab_append junk src n s) s (contents s @ bs)"
proof -
  obtain b m where s: "s = (b, m)" by (cases s)
  note ok = assms(1) [unfolded s]
  show ?thesis
  proof (cases "n = 0")
    case True
    then have "bs = []" using assms(4) by (simp add: mem_load_def)
    with True show ?thesis using ok owned_flags [OF ok] by (auto simp: ab_append_def s intro!: yieldsI)
  next
    case False
    have max: "content_size b + n \<le> max_content" using assms(2) ok by (simp add: s)
    then have u: "u32 (content_size b + n) = content_size b + n" by (simp add: max_content_def)
    obtain b1 m1 where a: "ab_alloc junk (content_size b + n) (b, m) = Inr (True, b1, m1)" "owned_ok (b1, m1)" "begin_offset b1 = 0"
      "content_size b1 = content_size b" "content_size b + n \<le> buf_size b1" "contents (b1, m1) = contents (b, m)" "keeps (b, m) (b1, m1)"
      by (rule alloc_owned [OF ok max])
    have "mem_load m1 src n = Inr bs" using load_kept [OF a(7), of src n] assms(3,4) s by simp
    then have "yields (tail_put src n (content_size b1 + n) (b1, m1)) (b1, m1) (contents (b1, m1) @ bs)"
      using tail_put_yields [OF a(2) _ a(3)] a(4,5) by simp
    from yields_after [OF this a(7)] show ?thesis
      using False a u owned_flags [OF ok] by (simp add: ab_append_def s)
  qed
qed

lemma content_ptr_own: "owned_ok (b, m) \<Longrightarrow> get_content_ptr b = ptr_add (writeable_buf b) (begin_offset b)"
  by (simp add: owned_ok_def get_content_ptr_def)

lemma load_contents:
  "owned_ok (b, m) \<Longrightarrow> mem_load m (get_content_ptr b) (content_size b) = Inr (contents (b, m))"
  using load_own [of "(b, m)" "begin_offset b" "content_size b"] owned_flags [of b m]
  by (simp add: content_ptr_own contents_def)

lemma append_buf_yields:
  assumes "owned_ok s" "length (contents s) + content_size other \<le> max_content" "outside s (get_content_ptr other)"
    "mem_load (snd s) (get_content_ptr other) (content_size other) = Inr bs"
  shows "yields (ab_append_buf junk other s) s (contents s @ bs)"
proof -
  obtain b m where s: "s = (b, m)" by (cases s)
  note ok = assms(1) [unfolded s]
  have size: "length (contents s) = content_size b" using assms(1) by (simp add: s)
  consider "content_size other = 0" | "content_size other \<noteq> 0" "content_size b = 0" | "content_size other \<noteq> 0" "content_size b \<noteq> 0"
    by blast
  then show ?thesis
  proof cases
    case 1
    then have "bs = []" using assms(4) by (simp add: mem_load_def)
    with 1 show ?thesis using ok owned_flags [OF ok] by (auto simp: ab_append_buf_def s intro!: yieldsI)
  next
    case 2
    then have "contents s = []" using size by simp
    with 2 show ?thesis
      using set_content_yields [OF assms(1) _ assms(3,4)] assms(2) owned_flags [OF ok] by (simp add: ab_append_buf_def s)
  next
    case 3
    then have "ab_append_buf junk other s = ab_append junk (get_content_ptr other) (content_size other) s"
    proof -
      have max: "content_size b + content_size other \<le> max_content" using assms(2) size by simp
      then have u: "u32 (content_size b + content_size other) = content_size b + content_size other" by (simp add: max_content_def)
      obtain b1 m1 where a: "ab_alloc junk (content_size b + content_size other) (b, m) = Inr (True, b1, m1)"
        "content_size b1 = content_size b" using alloc_owned [OF ok max] by metis
      show ?thesis using 3 a u owned_flags [OF ok] by (simp add: ab_append_buf_def ab_append_def s Let_def)
    qed
    then show ?thesis using append_yields [OF assms] by simp
  qed
qed

lemma append_self_yields:
  assumes "owned_ok s" "2 * length (contents s) \<le> max_content"
  shows "yields (ab_append_self junk s) s (contents s @ contents s)"
proof -
  obtain b m where s: "s = (b, m)" by (cases s)
  note ok = assms(1) [unfolded s]
  show ?thesis
  proof (cases "content_size b = 0")
    case True
    then have "contents s = []" using ok by (simp add: s contents_def)
    with True show ?thesis using ok owned_flags [OF ok] by (auto simp: ab_append_self_def s intro!: yieldsI)
  next
    case False
    have max: "2 * content_size b \<le> max_content" using assms(2) ok by (simp add: s)
    then have u: "u32 (2 * content_size b) = 2 * content_size b" by (simp add: max_content_def)
    obtain b1 m1 where a: "ab_alloc junk (2 * content_size b) (b, m) = Inr (True, b1, m1)" "owned_ok (b1, m1)" "begin_offset b1 = 0"
      "content_size b1 = content_size b" "2 * content_size b \<le> buf_size b1" "contents (b1, m1) = contents (b, m)" "keeps (b, m) (b1, m1)"
      by (rule alloc_owned [OF ok max])
    have "yields (tail_put (get_content_ptr b1) (content_size b1) (content_size b1 + content_size b1) (b1, m1)) (b1, m1)
      (contents (b1, m1) @ contents (b1, m1))"
      by (rule tail_put_yields [OF a(2) _ a(3) load_contents [OF a(2)]]) (use a(4,5) in simp)
    moreover have "content_size b1 + content_size b1 = u32 (2 * content_size b)" using u a(4) by simp
    ultimately have "yields (tail_put (get_content_ptr b1) (content_size b1) (u32 (2 * content_size b)) (b1, m1)) (b, m)
      (contents (b, m) @ contents (b, m))" using yields_after [OF _ a(7)] a(6) by simp
    then show ?thesis using False a u owned_flags [OF ok] by (simp add: ab_append_self_def s)
  qed
qed

text \<open>Prepending works where there is room before the contents, or where the new bytes are fewer than the
  contents; otherwise an assertion fails.\<close>

lemma prepend_yields:
  assumes "owned_ok s" "length (contents s) + n \<le> max_content" "outside s src" "mem_load (snd s) src n = Inr bs"
    and "n = 0 \<or> n \<le> begin_offset (fst s) \<or> n < length (contents s) \<and> length (contents s) < 2 ^ 31"
  shows "yields (ab_prepend junk src n s) s (bs @ contents s)"
proof -
  obtain b m where s: "s = (b, m)" by (cases s)
  note ok = assms(1) [unfolded s]
  have size: "length (contents s) = content_size b" using assms(1) by (simp add: s)
  have len: "length bs = n" using assms(4) by (auto simp: mem_load_def fetch_def split: if_splits option.splits prod.splits)
  have blk: "length (block_of (b, m)) = buf_size b" using length_block_of [OF ok] by simp
  have max: "content_size b + n \<le> max_content" using assms(2) size by simp
  then have u: "u32 (content_size b + n) = content_size b + n" by (simp add: max_content_def)
  note flags = owned_flags [OF ok]
  consider "n = 0" | "n \<noteq> 0" "n \<le> begin_offset b" | "n \<noteq> 0" "\<not> n \<le> begin_offset b" "n < content_size b" "content_size b < 2 ^ 31"
    using assms(5) size s by auto
  then show ?thesis
  proof cases
    case 1
    with len show ?thesis using ok flags by (auto simp: ab_prepend_def s intro!: yieldsI)
  next
    case 2
    let ?b = "b\<lparr>begin_offset := begin_offset b - n\<rparr>"
    let ?b' = "b\<lparr>begin_offset := begin_offset b - n, content_size := content_size b + n\<rparr>"
    have "begin_offset b - n + content_size b \<le> buf_size b" using flags by linarith
    then have ok': "owned_ok (?b, m)" by (intro owned_ok_resize [OF ok]) simp_all
    have "yields (bindr (mem_store (ptr_add (writeable_buf b) (begin_offset b - n)) bs m) (\<lambda>m'. Inr (?b', m'))) (?b, m)
        (chunk (begin_offset b - n) (content_size b + n) (blit (begin_offset b - n) bs (block_of (b, m))))"
      using put_yields [OF ok', of 0 bs ?b'] flags len 2 by (simp add: block_of_def)
    moreover have "chunk (begin_offset b - n) (content_size b + n) (blit (begin_offset b - n) bs (block_of (b, m))) = bs @ contents (b, m)"
    proof -
      have "begin_offset b - n + length bs = begin_offset b" using 2 len by simp
      moreover from this have "begin_offset b - n + length bs \<le> length (block_of (b, m))" using flags blk by linarith
      ultimately show ?thesis using chunk_blit_front [of "begin_offset b - n" bs "block_of (b, m)" "content_size b"] len
        by (simp add: contents_def)
    qed
    moreover have "keeps (b, m) (?b, m)" by (simp add: keeps_def own_def)
    ultimately show ?thesis
      using yields_after [of _ "(?b, m)" _ "(b, m)"] 2 assms(4) flags u
      by (simp add: ab_prepend_def s Let_def content_ptr_own [OF ok'])
  next
    case 3
    obtain b1 m1 where a: "ab_alloc junk (content_size b + n) (b, m) = Inr (True, b1, m1)" "owned_ok (b1, m1)" "begin_offset b1 = 0"
      "content_size b1 = content_size b" "content_size b + n \<le> buf_size b1" "contents (b1, m1) = contents (b, m)" "keeps (b, m) (b1, m1)"
      by (rule alloc_owned [OF ok max])
    note f1 = owned_flags [OF a(2)]
    have blk1: "length (block_of (b1, m1)) = buf_size b1" using length_block_of [OF a(2)] by simp
    have clen: "length (contents (b1, m1)) = content_size b" using a(2,4) by simp
    have p: "ptr_offset_mutable b1 (int32 n) = Inr (ptr_add (writeable_buf b1) n)"
      using f1 3 a(3,4) by (simp add: ptr_offset_mutable_def)
    obtain m2 where m2: "mem_store (ptr_add (writeable_buf b1) n) (contents (b1, m1)) m1 = Inr m2" "owned_ok (b1, m2)"
      "block_of (b1, m2) = blit n (contents (b1, m1)) (block_of (b1, m1))" "keeps (b1, m1) (b1, m2)"
      by (rule store_own [OF a(2), of n "contents (b1, m1)"]) (use a(5) clen in auto)
    have load: "mem_load m2 src n = Inr bs"
      using load_kept [OF keeps_trans [OF a(7) m2(4)], of src n] assms(3,4) s by simp
    let ?b' = "b1\<lparr>content_size := content_size b1 + n\<rparr>"
    have "yields (bindr (mem_store (ptr_add (writeable_buf b1) (begin_offset b1 + 0)) bs m2) (\<lambda>m'. Inr (?b', m'))) (b1, m2)
        (chunk 0 (content_size b1 + n) (blit 0 bs (block_of (b1, m2))))"
      using put_yields [OF m2(2), of 0 bs ?b'] a(3,4,5) len by simp
    moreover have "chunk 0 (content_size b1 + n) (blit 0 bs (block_of (b1, m2))) = bs @ contents (b, m)"
      unfolding m2(3) using a(4,5,6) len clen blk1 by (simp add: chunk_def blit_def)
    ultimately show ?thesis
      using yields_after [of _ "(b1, m2)" _ "(b, m)"] keeps_trans [OF a(7) m2(4)] 3 flags u a m2(1) p load
        load_contents [OF a(2)] content_ptr_own [OF a(2)]
      by (simp add: ab_prepend_def s a(3))
  qed
qed

lemma resized_yields:
  "owned_ok (b, m) \<Longrightarrow> begin_offset b' + content_size b' \<le> buf_size b \<Longrightarrow> read_only b' = read_only b
    \<Longrightarrow> owns_memory b' = owns_memory b \<Longrightarrow> buf_size b' = buf_size b \<Longrightarrow> writeable_buf b' = writeable_buf b
    \<Longrightarrow> yields (Inr (b', m)) (b, m) (chunk (begin_offset b') (content_size b') (block_of (b, m)))"
  by (rule yieldsI [of _ "(b', m)"])
    (simp_all add: owned_ok_resize [of b m b'] contents_resized [of b' b] keeps_resized [of b' b])

lemma trim_front_yields: "owned_ok (b, m) \<Longrightarrow> yields (Inr (trim_front n b, m)) (b, m) (drop n (contents (b, m)))"
proof -
  assume ok: "owned_ok (b, m)"
  note f = owned_flags [OF ok]
  show ?thesis
  proof (cases "content_size b \<le> n")
    case True
    then show ?thesis using resized_yields [OF ok, of "trim_front n b"] f ok by (simp add: trim_front_def)
  next
    case False
    then have "u32 (begin_offset b + n) = begin_offset b + n" using f by simp
    moreover have "begin_offset b + n + (content_size b - n) \<le> buf_size b" using f False by linarith
    moreover have "chunk (begin_offset b + n) (content_size b - n) (block_of (b, m)) = drop n (contents (b, m))"
      by (simp add: contents_def chunk_def drop_take add.commute)
    ultimately show ?thesis using resized_yields [OF ok, of "trim_front n b"] False by (simp add: trim_front_def)
  qed
qed

lemma trim_rear_yields:
  "owned_ok (b, m) \<Longrightarrow> yields (Inr (trim_rear n b, m)) (b, m) (take (length (contents (b, m)) - n) (contents (b, m)))"
proof -
  assume ok: "owned_ok (b, m)"
  have "chunk (begin_offset b) (content_size b - n) (block_of (b, m)) = take (length (contents (b, m)) - n) (contents (b, m))"
  proof -
    have len: "length (contents (b, m)) = content_size b" using ok by simp
    show ?thesis unfolding len by (simp add: contents_def chunk_def)
  qed
  moreover have "trim_rear n b = b\<lparr>content_size := content_size b - n\<rparr>" by (simp add: trim_rear_def)
  moreover have "begin_offset b + (content_size b - n) \<le> buf_size b" using owned_flags [OF ok] by linarith
  ultimately show ?thesis
    using resized_yields [OF ok, of "b\<lparr>content_size := content_size b - n\<rparr>"] by simp
qed

lemma clear_yields: "owned_ok (b, m) \<Longrightarrow> yields (bindr (ab_clear b) (\<lambda>b'. Inr (b', m))) (b, m) []"
  using resized_yields [of b m "b\<lparr>content_size := 0\<rparr>"] owned_flags [of b m] by (simp add: ab_clear_def)

text \<open>A buffer with contents never gives memory back: the test of \<open>shrink\<close> is the wrong way round.\<close>

lemma pages_mono: "a \<le> b \<Longrightarrow> pages a \<le> pages b"
proof -
  assume le: "a \<le> b"
  have d: "a div 4096 \<le> b div 4096" by (rule div_le_mono [OF le])
  show ?thesis
  proof (cases "a div 4096 = b div 4096")
    case True
    then have "a mod 4096 \<le> b mod 4096" using le by (metis add_le_cancel_left div_mult_mod_eq)
    with True show ?thesis by (auto simp: pages_def BUFFER_INCREMENT_SIZE_def)
  next
    case False
    with d show ?thesis by (simp add: pages_def BUFFER_INCREMENT_SIZE_def)
  qed
qed

lemma shrink_same:
  assumes "owned_ok (b, m)" "content_size b \<noteq> 0"
  shows "ab_shrink junk (b, m) = Inr (b, m)"
proof -
  have "content_size b \<le> buf_size b" using owned_flags [OF assms(1)] by linarith
  from pages_mono [OF this] show ?thesis using assms owned_flags [OF assms(1)] by (simp add: ab_shrink_def)
qed

lemma init_yields:
  "(\<forall>k \<ge> next_block m'. blocks m' k = None) \<Longrightarrow> next_block m' = next_block m
    \<Longrightarrow> (\<forall>k. k \<notin> own (b, m) \<longrightarrow> blocks m' k = blocks m k) \<Longrightarrow> yields (Inr (autobuf_init, m')) (b, m) []"
  by (rule yieldsI [of _ "(autobuf_init, m')"])
    (simp_all add: owned_ok_def keeps_def own_def contents_def autobuf_init_def)

lemma reset_yields: "owned_ok (b, m) \<Longrightarrow> yields (ab_reset (b, m)) (b, m) []"
proof -
  assume ok: "owned_ok (b, m)"
  note f = owned_flags [OF ok] and fr = owned_ok_fresh [OF ok, simplified]
  show ?thesis
  proof (cases "writeable_buf b = None")
    case True
    then show ?thesis using init_yields [of m m b] f fr by (simp add: ab_reset_def)
  next
    case False
    then obtain k bs where kb: "writeable_buf b = Some (k, 0)" "blocks m k = Some bs" "own (b, m) = {k}"
      using owned_ok_block [OF ok] by (metis fst_conv snd_conv)
    then show ?thesis using init_yields [of "m\<lparr>blocks := (blocks m)(k := None)\<rparr>" m b] f fr
      by (simp add: ab_reset_def mem_free_def)
  qed
qed

lemma shrink_yields: "owned_ok s \<Longrightarrow> yields (ab_shrink junk s) s (contents s)"
proof -
  assume ok: "owned_ok s"
  obtain b m where s: "s = (b, m)" by (cases s)
  show ?thesis
  proof (cases "content_size b = 0")
    case True
    then show ?thesis using reset_yields [OF ok [unfolded s]] owned_flags [OF ok [unfolded s]] by (simp add: ab_shrink_def s contents_def)
  next
    case False
    then show ?thesis using shrink_same [OF ok [unfolded s]] ok by (auto simp: s intro: yieldsI)
  qed
qed

text \<open>Growing keeps what is there and zeroes the rest; a smaller size cuts off the end.\<close>

lemma create_yields:
  assumes "owned_ok s" "n \<le> max_content"
  shows "yields (create_empty_buffer junk n True s) s (replicate n 0)"
proof -
  obtain b m where s: "s = (b, m)" by (cases s)
  note ok = assms(1) [unfolded s]
  obtain b1 m1 where a: "ab_alloc junk n (b, m) = Inr (True, b1, m1)" "owned_ok (b1, m1)" "begin_offset b1 = 0"
    "content_size b1 = content_size b" "n \<le> buf_size b1" "contents (b1, m1) = contents (b, m)" "keeps (b, m) (b1, m1)"
    by (rule alloc_owned [OF ok assms(2)])
  let ?b = "b1\<lparr>content_size := n\<rparr>"
  have "yields (bindr (mem_store (ptr_add (writeable_buf b1) (begin_offset b1 + 0)) (replicate n 0) m1) (\<lambda>m'. Inr (?b, m'))) (b1, m1)
      (chunk 0 n (blit 0 (replicate n 0) (block_of (b1, m1))))"
    using put_yields [OF a(2), of 0 "replicate n 0" ?b] a(3,5) by simp
  moreover have "chunk 0 n (blit 0 (replicate n 0) (block_of (b1, m1))) = replicate n 0"
    by (simp add: chunk_def blit_def)
  ultimately show ?thesis
    using yields_after [OF _ a(7)] a(1,3) owned_flags [OF a(2)]
    by (simp add: create_empty_buffer_def ab_reserve_def s get_content_ptr_mutable_def Let_def)
qed

lemma grow_yields:
  assumes "owned_ok s" "n \<le> max_content" "length (contents s) < 2 ^ 31 \<and> n < 2 ^ 31"
  shows "yields (grow_buffer junk n True s) s (take n (contents s) @ replicate (n - length (contents s)) 0)"
proof -
  obtain b m where s: "s = (b, m)" by (cases s)
  note ok = assms(1) [unfolded s]
  have size: "length (contents s) = content_size b" using assms(1) by (simp add: s)
  obtain b1 m1 where a: "ab_alloc junk n (b, m) = Inr (True, b1, m1)" "owned_ok (b1, m1)" "begin_offset b1 = 0"
    "content_size b1 = content_size b" "n \<le> buf_size b1" "contents (b1, m1) = contents (b, m)" "keeps (b, m) (b1, m1)"
    by (rule alloc_owned [OF ok assms(2)])
  let ?b = "b1\<lparr>content_size := n\<rparr>"
  have c: "contents (b, m) = take (content_size b) (block_of (b1, m1))" using a(3,4,6) by (simp add: contents_def chunk_def)
  have ok': "owned_ok (?b, m1)" by (rule owned_ok_resize [OF a(2)]) (use a(3,5) in simp_all)
  have create: "create_empty_buffer junk n False s = Inr (?b, m1)"
    using a(1) by (simp add: create_empty_buffer_def ab_reserve_def s Let_def)
  have blk: "length (block_of (b1, m1)) = buf_size b1" using length_block_of [OF a(2)] by simp
  show ?thesis
  proof (cases "content_size b < n")
    case False
    then have "contents (?b, m1) = take n (contents s)" using c a(3) by (simp add: s contents_resized [of ?b b1] chunk_def min_def)
    moreover have "keeps (b, m) (?b, m1)" using a(7) by (simp add: keeps_def own_def)
    ultimately show ?thesis using ok' False size
      by (intro yieldsI [of _ "(?b, m1)"]) (simp_all add: grow_buffer_def create [unfolded s] s Let_def)
  next
    case True
    have p: "ptr_offset_mutable ?b (int32 (content_size b)) = Inr (ptr_add (writeable_buf b1) (content_size b))"
      using owned_flags [OF a(2)] True assms(3) size a(3) by (simp add: ptr_offset_mutable_def)
    have "yields (bindr (mem_store (ptr_add (writeable_buf b1) (begin_offset b1 + content_size b)) (replicate (n - content_size b) 0) m1)
        (\<lambda>m'. Inr (?b, m'))) (b1, m1) (chunk 0 n (blit (content_size b) (replicate (n - content_size b) 0) (block_of (b1, m1))))"
      using put_yields [OF a(2), of "content_size b" "replicate (n - content_size b) 0" ?b] a(3,5) True by simp
    moreover have "chunk 0 n (blit (content_size b) (replicate (n - content_size b) 0) (block_of (b1, m1)))
        = take n (contents s) @ replicate (n - length (contents s)) 0"
      using True a(5) blk unfolding size by (simp add: s c chunk_def blit_def)
    ultimately show ?thesis
      using yields_after [OF _ a(7)] True a(3) p by (simp add: grow_buffer_def create [unfolded s] s Let_def)
  qed
qed

section \<open>Any sequence of operations\<close>

datatype buf_op = Set_Content ptr nat | Append ptr nat | Prepend ptr nat | Append_Self | Trim_Front nat | Trim_Rear nat
  | Grow nat | Create nat | Clear | Shrink | Reset

primrec run_op :: "(nat \<Rightarrow> byte) \<Rightarrow> buf_op \<Rightarrow> autobuf \<times> memory \<Rightarrow> (autobuf \<times> memory) res" where
  "run_op junk (Set_Content p n) s = ab_set_content junk p n s"
| "run_op junk (Append p n) s = ab_append junk p n s"
| "run_op junk (Prepend p n) s = ab_prepend junk p n s"
| "run_op junk Append_Self s = ab_append_self junk s"
| "run_op junk (Trim_Front n) s = Inr (trim_front n (fst s), snd s)"
| "run_op junk (Trim_Rear n) s = Inr (trim_rear n (fst s), snd s)"
| "run_op junk (Grow n) s = grow_buffer junk n True s"
| "run_op junk (Create n) s = create_empty_buffer junk n True s"
| "run_op junk Clear s = bindr (ab_clear (fst s)) (\<lambda>b. Inr (b, snd s))"
| "run_op junk Shrink s = ab_shrink junk s"
| "run_op junk Reset s = ab_reset s"

primrec run_ops :: "(nat \<Rightarrow> byte) \<Rightarrow> buf_op list \<Rightarrow> autobuf \<times> memory \<Rightarrow> (autobuf \<times> memory) res" where
  "run_ops junk [] s = Inr s"
| "run_ops junk (op # ops) s = bindr (run_op junk op s) (run_ops junk ops)"

text \<open>The same on byte lists, with what the sources hold at the start.\<close>

primrec list_op :: "memory \<Rightarrow> buf_op \<Rightarrow> byte list \<Rightarrow> byte list" where
  "list_op m (Set_Content p n) xs = projr (mem_load m p n)"
| "list_op m (Append p n) xs = xs @ projr (mem_load m p n)"
| "list_op m (Prepend p n) xs = projr (mem_load m p n) @ xs"
| "list_op m Append_Self xs = xs @ xs"
| "list_op m (Trim_Front n) xs = drop n xs"
| "list_op m (Trim_Rear n) xs = take (length xs - n) xs"
| "list_op m (Grow n) xs = take n xs @ replicate (n - length xs) 0"
| "list_op m (Create n) xs = replicate n 0"
| "list_op m Clear xs = []"
| "list_op m Shrink xs = xs"
| "list_op m Reset xs = []"

definition source_ok :: "autobuf \<times> memory \<Rightarrow> ptr \<Rightarrow> nat \<Rightarrow> bool" where
  "source_ok s p n = (outside s p \<and> (\<exists>bs. mem_load (snd s) p n = Inr bs))"

text \<open>What an operation needs: its source outside the buffer, no more than 2 GiB in all, and something to
  prepend to.\<close>

primrec op_fits :: "autobuf \<times> memory \<Rightarrow> buf_op \<Rightarrow> byte list \<Rightarrow> bool" where
  "op_fits s (Set_Content p n) xs = (source_ok s p n \<and> n < 2 ^ 31)"
| "op_fits s (Append p n) xs = (source_ok s p n \<and> length xs + n < 2 ^ 31)"
| "op_fits s (Prepend p n) xs = (source_ok s p n \<and> n < length xs \<and> length xs + n < 2 ^ 31)"
| "op_fits s Append_Self xs = (2 * length xs < 2 ^ 31)"
| "op_fits s (Trim_Front n) xs = True"
| "op_fits s (Trim_Rear n) xs = True"
| "op_fits s (Grow n) xs = (length xs < 2 ^ 31 \<and> n < 2 ^ 31)"
| "op_fits s (Create n) xs = (n < 2 ^ 31)"
| "op_fits s Clear xs = True"
| "op_fits s Shrink xs = True"
| "op_fits s Reset xs = True"

primrec ops_fit :: "autobuf \<times> memory \<Rightarrow> buf_op list \<Rightarrow> byte list \<Rightarrow> bool" where
  "ops_fit s [] xs = True"
| "ops_fit s (op # ops) xs = (op_fits s op xs \<and> ops_fit s ops (list_op (snd s) op xs))"

lemma source_kept:
  assumes "keeps s s'" "source_ok s p n"
  shows "outside s' p" "mem_load (snd s') p n = Inr (projr (mem_load (snd s) p n))"
proof -
  obtain bs where "outside s p" "mem_load (snd s) p n = Inr bs" using assms(2) by (auto simp: source_ok_def)
  then show "outside s' p" "mem_load (snd s') p n = Inr (projr (mem_load (snd s) p n))"
    using load_kept [OF assms(1)] by simp_all
qed

lemma op_yields:
  assumes "owned_ok s'" "keeps s s'" "op_fits s op (contents s')"
  shows "yields (run_op junk op s') s' (list_op (snd s) op (contents s'))"
proof -
  obtain b m where s': "s' = (b, m)" by (cases s')
  note src = source_kept [OF assms(2)]
  note ok = assms(1)
  show ?thesis
  proof (cases op)
    case (Set_Content p n)
    then have so: "source_ok s p n" using assms(3) by simp
    from Set_Content show ?thesis using set_content_yields [OF ok _ src(1) [OF so] src(2) [OF so]] assms(3) by (simp add: max_content_def)
  next
    case (Append p n)
    then have so: "source_ok s p n" using assms(3) by simp
    from Append show ?thesis using append_yields [OF ok _ src(1) [OF so] src(2) [OF so]] assms(3)
      by (simp add: max_content_def del: length_contents)
  next
    case (Prepend p n)
    then have so: "source_ok s p n" using assms(3) by simp
    from Prepend show ?thesis using prepend_yields [OF ok _ src(1) [OF so] src(2) [OF so]] assms(3)
      by (simp add: max_content_def del: length_contents)
  next
    case Append_Self
    then show ?thesis using append_self_yields [OF ok] assms(3) by (simp add: max_content_def del: length_contents)
  next
    case (Trim_Front n)
    then show ?thesis using trim_front_yields ok s' by simp
  next
    case (Trim_Rear n)
    then show ?thesis using trim_rear_yields ok s' by (simp del: length_contents)
  next
    case (Grow n)
    then show ?thesis using grow_yields [OF ok] assms(3) by (simp add: max_content_def del: length_contents)
  next
    case (Create n)
    then show ?thesis using create_yields [OF ok] assms(3) by (simp add: max_content_def)
  next
    case Clear
    then show ?thesis using clear_yields ok s' by simp
  next
    case Shrink
    then show ?thesis using shrink_yields [OF ok] by simp
  next
    case Reset
    then show ?thesis using reset_yields ok s' by simp
  qed
qed

lemma ops_yield:
  assumes "owned_ok s'" "keeps s s'" "ops_fit s ops (contents s')"
  shows "yields (run_ops junk ops s') s' (fold (list_op (snd s)) ops (contents s'))"
  using assms
proof (induction ops arbitrary: s')
  case Nil
  then show ?case by (auto intro: yieldsI)
next
  case (Cons op ops)
  then obtain s2 where s2: "run_op junk op s' = Inr s2" "owned_ok s2" "contents s2 = list_op (snd s) op (contents s')" "keeps s' s2"
    using op_yields [OF Cons.prems(1,2), of op junk] by (auto simp: yields_def)
  have "yields (run_ops junk ops s2) s2 (fold (list_op (snd s)) ops (contents s2))"
    using Cons.IH [OF s2(2) keeps_trans [OF Cons.prems(2) s2(4)]] Cons.prems(3) s2(3) by simp
  from yields_after [OF this s2(4)] show ?case using s2(1,3) by simp
qed

text \<open>C17. A buffer that owns its memory is a byte list: any sequence of operations that fit gives, without a fault, the
  bytes that the same operations give on lists, and leaves the memory of everyone else as it was.\<close>

theorem autobuf_refines_list:
  assumes "owned_ok s" "ops_fit s ops (contents s)"
  shows "\<exists>s'. run_ops junk ops s = Inr s' \<and> owned_ok s' \<and> contents s' = fold (list_op (snd s)) ops (contents s)
    \<and> (\<forall>k. k \<notin> own s \<and> k < next_block (snd s) \<longrightarrow> blocks (snd s') k = blocks (snd s) k)"
  using ops_yield [OF assms(1) keeps_refl assms(2), of junk] by (auto simp: yields_def keeps_def)

text \<open>A memory with one block of ten bytes, which nobody's buffer owns.\<close>

definition one_block :: memory where
  "one_block = \<lparr>blocks = (\<lambda>_. None)(0 := Some [1, 2, 3, 4, 5, 6, 7, 8, 9, 10]), next_block = 1\<rparr>"

theorem autobuf_refines_list_witness:
  "\<exists>s'. run_ops (\<lambda>_. 0xAA) [Append (Some (0, 2)) 3, Append_Self, Trim_Front 1, Prepend (Some (0, 9)) 1, Grow 8]
      (autobuf_init, one_block) = Inr s' \<and> contents s' = [10, 4, 5, 3, 4, 5, 0, 0]"
proof -
  let ?ops = "[Append (Some (0, 2)) 3, Append_Self, Trim_Front 1, Prepend (Some (0, 9)) 1, Grow 8]"
  let ?s = "(autobuf_init, one_block)"
  have "owned_ok ?s" by (simp add: owned_ok_def autobuf_init_def one_block_def)
  moreover have nil: "contents ?s = []" by (simp add: contents_def autobuf_init_def)
  moreover have src: "source_ok ?s (Some (0, 2)) 3" "source_ok ?s (Some (0, 9)) 1"
    by (simp_all add: source_ok_def outside_def own_def autobuf_init_def one_block_def mem_load_def)
  have data: "mem_load one_block (Some (0, 2)) 3 = Inr [3, 4, 5]" "mem_load one_block (Some (0, 9)) (Suc 0) = Inr [10]"
    by (simp_all add: one_block_def mem_load_def chunk_def)
  have "ops_fit ?s ?ops []" using src by (simp add: data)
  ultimately obtain s' where "run_ops (\<lambda>_. 0xAA) ?ops ?s = Inr s'" "contents s' = fold (list_op (snd ?s)) ?ops []"
    using autobuf_refines_list [of ?s ?ops "\<lambda>_. 0xAA"] by auto
  moreover have "fold (list_op (snd ?s)) ?ops [] = [10, 4, 5, 3, 4, 5, 0, 0]" by (simp add: data, simp add: numeral_2_eq_2)
  ultimately show ?thesis by simp
qed

section \<open>Where prepending fails\<close>

text \<open>Prepending to a buffer that owns its memory fails an assertion exactly when there is no room before the
  contents and the new bytes are not fewer than the contents; so nothing can be prepended to an empty
  buffer that has not been trimmed.\<close>

theorem prepend_aborts_iff:
  assumes "owned_ok (b, m)" "source_ok (b, m) src n" "0 < n" "content_size b + n < 2 ^ 31"
  shows "ab_prepend junk src n (b, m) = Inl Aborted \<longleftrightarrow> begin_offset b < n \<and> content_size b \<le> n"
proof (cases "begin_offset b < n \<and> content_size b \<le> n")
  case False
  obtain bs where bs: "mem_load (snd (b, m)) src n = Inr bs" "outside (b, m) src" using assms(2) by (auto simp: source_ok_def)
  have "yields (ab_prepend junk src n (b, m)) (b, m) (bs @ contents (b, m))"
    by (rule prepend_yields [OF assms(1) _ bs(2,1)]) (use assms(1,4) False in \<open>auto simp: max_content_def\<close>)
  with False show ?thesis by (auto simp: yields_def)
next
  case True
  have max: "content_size b + n \<le> max_content" using assms(4) by (simp add: max_content_def)
  then have u: "u32 (content_size b + n) = content_size b + n" by (simp add: max_content_def)
  obtain b1 m1 where a: "ab_alloc junk (content_size b + n) (b, m) = Inr (True, b1, m1)" "content_size b1 = content_size b"
    using alloc_owned [OF assms(1) max] by metis
  have "ptr_offset_mutable b1 (int32 n) = Inl Aborted" using a(2) True assms(4) by (simp add: ptr_offset_mutable_def)
  with True a u owned_flags [OF assms(1)] assms(3) show ?thesis by (simp add: ab_prepend_def)
qed

theorem prepend_aborts_iff_witness: "ab_prepend (\<lambda>_. 0) (Some (0, 0)) 4 (autobuf_init, one_block) = Inl Aborted"
  using prepend_aborts_iff [of autobuf_init one_block "Some (0, 0)" 4 "\<lambda>_. 0"]
  by (simp add: owned_ok_def autobuf_init_def one_block_def source_ok_def outside_def own_def mem_load_def)

section \<open>Copies\<close>

text \<open>The copy of a buffer that owns its memory holds the same bytes in memory of its own: whatever fits is later
  done to the copy leaves the bytes of the original as they are.\<close>

theorem copy_independent:
  assumes "owned_ok (b, m)" "content_size b \<le> max_content"
  shows "\<exists>c m'. autobuf_copy junk b m = Inr (c, m') \<and> owned_ok (c, m') \<and> contents (c, m') = contents (b, m)
    \<and> (ops_fit (c, m') ops (contents (c, m')) \<longrightarrow> (\<exists>s. run_ops junk ops (c, m') = Inr s \<and> contents (b, snd s) = contents (b, m)))"
proof -
  have init: "owned_ok (autobuf_init, m)" using assms(1) by (simp add: owned_ok_def autobuf_init_def)
  have out: "outside (autobuf_init, m) (get_content_ptr b)"
  proof (cases "writeable_buf b = None")
    case True
    then show ?thesis using content_ptr_own [OF assms(1)] by (simp add: outside_def ptr_add_def)
  next
    case False
    then obtain k where "writeable_buf b = Some (k, 0)" "k < next_block m"
      using owned_ok_block [OF assms(1)] by (metis fst_conv snd_conv)
    then show ?thesis using content_ptr_own [OF assms(1)] by (simp add: outside_def ptr_add_def own_def autobuf_init_def)
  qed
  have copy: "autobuf_copy junk b m = ab_set_content junk (get_content_ptr b) (content_size b) (autobuf_init, m)"
  proof -
    obtain b1 m1 where a: "ab_alloc junk (content_size b) (autobuf_init, m) = Inr (True, b1, m1)" "begin_offset b1 = 0" "owned_ok (b1, m1)"
      using alloc_owned [OF init assms(2)] by metis
    have own: "autobuf_init\<lparr>owns_memory := True\<rparr> = autobuf_init" by (simp add: autobuf_init_def)
    have p: "ptr_add (writeable_buf b1) 0 = writeable_buf b1" by (simp add: ptr_add_def split_def option.map_ident)
    have front: "b1\<lparr>content_size := x, begin_offset := 0\<rparr> = b1\<lparr>content_size := x\<rparr>" for x using a(2) by (cases b1) simp
    show ?thesis using a owned_flags [OF assms(1)] owned_flags [OF a(3)] p
      by (simp add: autobuf_copy_def constructor_copy_def ab_set_content_def own get_content_ptr_mutable_def front)
        (simp add: autobuf_init_def)
  qed
  have "yields (ab_set_content junk (get_content_ptr b) (content_size b) (autobuf_init, m)) (autobuf_init, m) (contents (b, m))"
    by (rule set_content_yields [OF init assms(2) out]) (simp add: load_contents [OF assms(1)])
  then obtain c m' where c: "autobuf_copy junk b m = Inr (c, m')" "owned_ok (c, m')" "contents (c, m') = contents (b, m)"
    "keeps (autobuf_init, m) (c, m')" unfolding copy yields_def by auto
  have same: "contents (b, m2) = contents (b, m)" if "keeps (autobuf_init, m) (c2, m2)" for c2 m2
  proof (cases "writeable_buf b = None")
    case False
    then obtain k where "writeable_buf b = Some (k, 0)" "k < next_block m"
      using owned_ok_block [OF assms(1)] by (metis fst_conv snd_conv)
    then show ?thesis using that by (simp add: contents_def block_of_def keeps_def own_def autobuf_init_def)
  qed (simp add: contents_def block_of_def)
  have "\<exists>s. run_ops junk ops (c, m') = Inr s \<and> contents (b, snd s) = contents (b, m)"
    if "ops_fit (c, m') ops (contents (c, m'))"
    using ops_yield [OF c(2) keeps_refl that, of junk] same keeps_trans [OF c(4)] unfolding yields_def by (metis prod.collapse)
  with c show ?thesis by blast
qed

theorem copy_independent_witness:
  "\<exists>c m'. autobuf_copy (\<lambda>_. 0) (autobuf_init\<lparr>writeable_buf := Some (0, 0), buf_size := 10, content_size := 3, begin_offset := 1\<rparr>) one_block
     = Inr (c, m') \<and> contents (c, m') = [2, 3, 4]"
  using copy_independent [of "autobuf_init\<lparr>writeable_buf := Some (0, 0), buf_size := 10, content_size := 3, begin_offset := 1\<rparr>" one_block
    "\<lambda>_. 0" "[]"]
  by (auto simp: owned_ok_def autobuf_init_def one_block_def max_content_def contents_def block_of_def chunk_def)

section \<open>Shared buffers\<close>

text \<open>Appending to a buffer that shares the memory of another object does not look at the size it was given: it
  writes after the contents as long as the block lasts, and past the block after that.\<close>

theorem append_shared_unchecked:
  assumes "is_shared c" "writeable_buf c = Some (k, i)" "blocks m k = Some bs" "0 < n" "content_size c + n < 2 ^ 32"
    and "mem_load m src n = Inr new"
  shows "ab_append junk src n (c, m) =
    (if i + begin_offset c + content_size c + n \<le> length bs
     then Inr (c\<lparr>content_size := content_size c + n\<rparr>,
       m\<lparr>blocks := (blocks m)(k := Some (blit (i + begin_offset c + content_size c) new bs))\<rparr>)
     else Inl OutOfBounds)"
proof -
  have "length new = n" using assms(6) by (auto simp: mem_load_def fetch_def split: if_splits option.splits prod.splits)
  moreover from this have "new \<noteq> []" using assms(4) by auto
  ultimately show ?thesis using assms
    by (simp add: ab_append_def ab_alloc_def is_shared_def tail_put_def get_content_ptr_def ptr_add_def mem_store_def)
qed

theorem append_shared_unchecked_witness:
  "ab_append (\<lambda>_. 0) (Some (0, 0)) 5 (autobuf_init\<lparr>owns_memory := False, writeable_buf := Some (0, 4), content_size := 2, buf_size := 2\<rparr>, one_block)
    = Inl OutOfBounds"
  using append_shared_unchecked [of "autobuf_init\<lparr>owns_memory := False, writeable_buf := Some (0, 4), content_size := 2, buf_size := 2\<rparr>"
    0 4 one_block "[1, 2, 3, 4, 5, 6, 7, 8, 9, 10]" 5 "Some (0, 0)" "[1, 2, 3, 4, 5]" "\<lambda>_. 0"]
  by (simp add: is_shared_def autobuf_init_def one_block_def mem_load_def chunk_def)

text \<open>Setting the contents of a shared buffer that has been trimmed at the front writes after the trimmed part but then
  forgets the trimming: the buffer shows the trimmed bytes again and loses as many of the new ones.\<close>

theorem set_content_shared_shifted:
  assumes "is_shared c" "writeable_buf c = Some (k, i)" "blocks m k = Some bs" "0 < n" "begin_offset c + n \<le> buf_size c"
    and "buf_size c < 2 ^ 32" "i + begin_offset c + n \<le> length bs" "mem_load m src n = Inr new"
  shows "\<exists>c' m'. ab_set_content junk src n (c, m) = Inr (c', m')
    \<and> mem_load m' (get_content_ptr c') (content_size c') = Inr (take n (chunk i (begin_offset c) bs @ new))"
proof -
  have len: "length new = n" using assms(8) by (auto simp: mem_load_def fetch_def split: if_splits option.splits prod.splits)
  then have ne: "new \<noteq> []" using assms(4) by auto
  let ?m = "m\<lparr>blocks := (blocks m)(k := Some (blit (i + begin_offset c) new bs))\<rparr>"
  have "u32 (begin_offset c + n) = begin_offset c + n" using assms(5,6) by simp
  then have "ab_set_content junk src n (c, m) = Inr (c\<lparr>content_size := n, begin_offset := 0\<rparr>, ?m)"
    using assms len ne
    by (simp add: ab_set_content_def ab_alloc_def is_shared_def get_content_ptr_mutable_def ptr_add_def mem_store_def)
  moreover have "chunk i n (blit (i + begin_offset c) new bs) = take n (chunk i (begin_offset c) bs @ new)"
    using assms(7) len by (simp add: chunk_def blit_def drop_take)
  ultimately show ?thesis using assms len
    by (simp add: get_content_ptr_def ptr_add_def mem_load_def is_shared_def)
qed

theorem set_content_shared_shifted_witness:
  "\<exists>c' m'. ab_set_content (\<lambda>_. 0) (Some (0, 8)) 2
      (autobuf_init\<lparr>owns_memory := False, writeable_buf := Some (0, 0), content_size := 3, buf_size := 4, begin_offset := 1\<rparr>, one_block)
      = Inr (c', m') \<and> mem_load m' (get_content_ptr c') (content_size c') = Inr [1, 9]"
  using set_content_shared_shifted [of
      "autobuf_init\<lparr>owns_memory := False, writeable_buf := Some (0, 0), content_size := 3, buf_size := 4, begin_offset := 1\<rparr>"
      0 0 one_block "[1, 2, 3, 4, 5, 6, 7, 8, 9, 10]" 2 "Some (0, 8)" "[9, 10]" "\<lambda>_. 0"]
  by (simp add: is_shared_def autobuf_init_def one_block_def mem_load_def chunk_def)

section \<open>Reading\<close>

lemma each_byte_own:
  assumes "owned_ok (b, m)" "\<forall>i \<in> set is. i < content_size b \<and> i < 2 ^ 31"
  shows "each_byte m b is = Inr (map (\<lambda>i. contents (b, m) ! i) is)"
  using assms(2)
proof (induction "is")
  case (Cons i "is")
  note f = owned_flags [OF assms(1)]
  have lt: "i < content_size b" "i < 2 ^ 31" using Cons.prems by simp_all
  then have le: "begin_offset b + i + 1 \<le> buf_size b" using f by linarith
  have blk: "length (block_of (b, m)) = buf_size b" using length_block_of [OF assms(1)] by simp
  have "read_at m b i 1 = Inr (chunk (begin_offset b + i) 1 (block_of (b, m)))"
    using load_own [OF assms(1), of "begin_offset b + i" 1] lt le f by (simp add: read_at_def ptr_offset_const_def)
  also have "chunk (begin_offset b + i) 1 (block_of (b, m)) = [contents (b, m) ! i]"
    using le blk lt by (simp add: chunk_def contents_def take_Suc_conv_app_nth take_Suc hd_drop_conv_nth)
  finally show ?case using Cons by simp
qed simp

lemma to_string_own:
  assumes "owned_ok (b, m)" "content_size b \<le> 2 ^ 31"
  shows "ab_to_string m b = Inr (map (\<lambda>x. char_of (unat x)) (contents (b, m)))"
proof -
  have "map (\<lambda>i. contents (b, m) ! i) [0..<content_size b] = contents (b, m)"
    using assms(1) map_nth [of "contents (b, m)"] by simp
  then show ?thesis using each_byte_own [OF assms(1), of "[0..<content_size b]"] assms(2) by (simp add: ab_to_string_def)
qed

end
