(* ===== verification/Spec2Isabelle.thy ===== *)
theory Spec2Isabelle
  imports Hal_Facts Topology Of_Match_Text Flow_Service_Calls Cam_Table Packet_Facts Arp_Table Csv_Parser Switch_Db Of_Control_Msg Autobuf Packet_Filters
begin

text \<open>
  Verification development for IronStack, an OpenFlow 1.0 controller in C++ (\<open>src/\<close>) that runs on or beside one switch.

  \<^bold>\<open>The program.\<close> \<open>hal\<close> (\<open>controller/hal\<close>) holds the connection to the switch: one thread reads and frames messages, one sends
  queued transactions, one completes them when the switch answers a barrier, one handles messages that nobody waits for. A packet
  that the switch hands over goes through the chain of filters of \<open>packet_in_processor\<close>, which the services register:
  \<open>cam\<close> (which port an address is behind), \<open>arp\<close> (which addresses belong together, queries and answers),
  \<open>inter_ironstack\<close> (other controllers) and the flow policy checker. \<open>switch_state\<close> knows the ports, the VLANs and the settings of the
  switch, \<open>flow_service\<close> its flow tables, \<open>operational_stats\<close> its statistics, \<open>topology_graph\<close> the network of controllers and
  disjoint paths through it; \<open>service_catalog\<close> starts them in the order of their dependencies. Everything that goes over
  the wire is serialized and parsed by \<open>controller/openflow_messages\<close>, \<open>openflow_types\<close>, \<open>ironstack_types\<close> and
  \<open>controller/utils/std_packet\<close>, on buffers of \<open>common/autobuf\<close>.

  \<^bold>\<open>How it is modelled.\<close> A class is a record, an enumeration or a class hierarchy a datatype, a machine integer a word of its width,
  \<open>std::map\<close> a sorted association list (\<open>Std_Map\<close>), a shared pointer an index or a number, a time a clock value that the
  operation is given. An operation takes the state and returns the new one. What goes wrong is a value: \<open>Aborted\<close> for \<open>abort()\<close> and failed
  assertions, \<open>OutOfBounds\<close> for a read or write outside of a buffer or through a null pointer, \<open>Diverges\<close> or None for a loop
  that does not end. Bytes of memory that nobody has written are parameters (\<open>fresh\<close>, \<open>old\<close>), as are the clock, the resolver of host
  names, whether a callback object still lives and what the connection delivers. Threads are steps: \<open>hal_run\<close>, \<open>ss_step\<close>, \<open>table_step\<close>,
  \<open>query_event\<close> and the runs of the flow service take the steps of all threads in any order, at the grain of the locks
  of the program.

  \<^bold>\<open>The theories.\<close>

  \<^item> Shared: \<open>Prelude\<close> (errors, byte order, fields), \<open>Std_Map\<close> (locale \<open>keyed_store\<close>), \<open>Strings\<close> (\<open>common/string_utils\<close>,
    \<open>common_utils_oop\<close>), \<open>Addresses\<close> (\<open>common/mac_address\<close>, \<open>ip_address\<close>), \<open>Wire\<close> (locales \<open>wire_item\<close> and \<open>wire_items\<close>: lists of
    self-delimiting items, as actions and ports).
  \<^item> Messages: \<open>Of_Match\<close> and \<open>Of_Match_Text\<close> (\<open>openflow_types/of_match\<close>), \<open>Of_Action\<close>, \<open>Action_List\<close>, \<open>Of_Message\<close> (header, echo, flow
    modification and removal), \<open>Of_Features\<close> (ports, features, configuration; locale \<open>flag_word\<close>), \<open>Of_Stats\<close> and
    \<open>Of_Stats_Msg\<close> (statistics), \<open>Of_Control_Msg\<close> (the other messages and \<open>of_message_factory\<close>). Facts: what is read back of what is
    written, exactly when; the order of match criteria against which packets they match; which bytes abort the controller.
  \<^item> Flows: \<open>Flow_Types\<close>, \<open>Flow_Table\<close> (\<open>services/flow_table\<close>, \<open>dell_s48xx\<close> tables), \<open>Flow_Service\<close> (\<open>services/flow_service\<close>,
    \<open>flow_parser\<close>), \<open>Flow_Service_Inv\<close> (locale \<open>flow_absorber\<close>: how a report of the switch is shared out among tables; what runs of the service
    keep), \<open>Flow_Service_Calls\<close> (each call on each outcome).
  \<^item> Addresses and ports: \<open>Cam_Table\<close> (\<open>services/cam_table\<close>, \<open>cam\<close>, \<open>openflow_vlan_port\<close>), \<open>Arp_Table\<close> and \<open>Arp_Service\<close>
    (\<open>services/arp_table\<close>, \<open>arp\<close>), \<open>Switch_State\<close>, \<open>Switch_Db\<close>, \<open>Csv_Parser\<close>. Facts: the tables refine finite maps and keep their
    invariants, a query gets the first reply unless somebody gives up on it, what a reported change of a port does.
  \<^item> Packets: \<open>Autobuf\<close> (the buffer against byte lists, with sharing), \<open>Packets\<close>, \<open>Packets_L4\<close>, \<open>Packet_Facts\<close> (\<open>std_packet\<close>: checksums, VLAN tags,
    read back what is written), \<open>Packet_Processor\<close> (the chain of filters), \<open>Forwarding\<close> (\<open>openflow_utils\<close>, flooding in a VLAN, framing of
    messages), \<open>Packet_Filters\<close> (what the whole chain does with a packet).
  \<^item> Controller: \<open>Hal_Transaction\<close> (transactions, callbacks, barriers), \<open>Service_Catalog\<close>, \<open>Operational_Stats\<close>, \<open>Hal\<close> (messages, the
    maintenance thread, handshake, start and shutdown, ports that go down), \<open>Hal_Facts\<close> (what these do to all services).
  \<^item> Topology: \<open>Topology_Paths\<close> (breadth-first search and flows of \<open>simple_graph\<close>), \<open>Topology_Flows\<close> (maximal flows and disjoint paths),
    \<open>Topology\<close> (messages, updates and the daemon of \<open>topology_graph\<close>).

  \<^bold>\<open>Interfaces.\<close> Each locale is interpreted on the definitions of the model: \<open>keyed_store\<close> on the sorted lists, \<open>wire_items\<close> on
  actions, \<open>flag_word\<close> on the configuration, features and capabilities of ports and switches, \<open>flow_absorber\<close> on the refresh of a flow table.

  \<^bold>\<open>Bounds and termination.\<close> No definition uses fuel. Loops over lists are structural or have a measure on the input that is left.
  The loops that may not end are \<open>partial_function (option)\<close>: the search for a free ARP slot, the loop that waits for deleted flows
  (it reads a clock, a parameter), and backtracking, augmenting and tracing of paths; for each it is proved when it ends, or a run is
  shown in which it does not. Theorems about transactions hold until the 32-bit counter of transactions wraps, which is the premise of
  the step that builds one. Theorems about bytes that a message's size field must describe are for sizes below the width of that field.

  \<^bold>\<open>Not modelled.\<close> The user interface (\<open>common/gui\<close>, \<open>controller/gui\<close>, \<open>ironstack_agent\<close>), sockets, serial lines, telnet and system
  utilities (what a connection delivers is a parameter), the discovery and echo daemons, which talk over such sockets, of the
  inter-controller service all but its filter, the unused older packet formats of \<open>common\<close> (\<open>std_packet\<close>, \<open>fast_packet\<close>,
  \<open>ironscale_packet\<close>), DHCP packets, logging, and containers and meters that the modelled code does not use. Data races
  inside of one locked operation and the memory of the allocator are outside of the model.
\<close>

end
